(* ===== verification/Prelude.thy ===== *)
theory Prelude
  imports Main Complex_Main "HOL-Library.Word"
begin

text \<open>
  Shared infrastructure: thrown values, the state-and-exception computations in which every
  asynchronous function of the relayer is written, a weakest-precondition calculus over them,
  and generic list lemmas.

  A computation of type \<open>('s, 'a) io\<close> takes the state of the world and returns either the value
  the JavaScript promise resolves to (\<open>Inr\<close>) or the value it rejects with (\<open>Inl\<close>), together with
  the state that is left. A \<^verbatim>\<open>throw\<close> does not undo the effects made before it, as in the source.
\<close>

named_theorems wp_simps \<open>weakest-precondition equations of the computation combinators\<close>
named_theorems io_defs \<open>definitions of the computation combinators\<close>

named_theorems io_cases \<open>the branches of a successful run\<close>

subsection \<open>Thrown values\<close>

text \<open>
  The error classes that the source throws itself, with their messages, and the values that come
  from outside: a failed request or callback (\<open>ExternalError\<close>), the errors of viem that the source
  recognises by class (a receipt that is not found or not there in time, and a failed contract
  call with its contract address, its function and the decoded name of the error it reverted with),
  a system error of Node with its code, and the reason of an aborted \<^verbatim>\<open>AbortSignal\<close>. The last
  three carry the errors they were made from.
\<close>

datatype exn =
    TypeError string
  | RangeError string
  | PlainError string
  | JournalBoundsExceededError "16 word list"
  | ReceiptNotFoundError
  | ReceiptTimeoutError
  | ContractExecutionError "16 word list option" string "string option"
  | NodeError string
  | ExternalError nat
  | AbortReason
  | TransactionSubmissionError exn
  | CausedError string exn
  | AggregateError "exn list" string

type_synonym ('s, 'a) io = "'s \<Rightarrow> (exn + 'a) \<times> 's"

subsection \<open>Combinators\<close>

definition ret :: "'a \<Rightarrow> ('s, 'a) io" where
  "ret x = (\<lambda>s. (Inr x, s))"

definition throw :: "exn \<Rightarrow> ('s, 'a) io" where
  "throw e = (\<lambda>s. (Inl e, s))"

definition andThen :: "('s, 'a) io \<Rightarrow> ('a \<Rightarrow> ('s, 'b) io) \<Rightarrow> ('s, 'b) io" where
  "andThen m f = (\<lambda>s. case m s of (Inl e, t) \<Rightarrow> (Inl e, t) | (Inr x, t) \<Rightarrow> f x t)"

text \<open>\<^verbatim>\<open>try { m } catch (error) { h }\<close> and \<^verbatim>\<open>try { m } finally { f }\<close>, where \<open>f\<close> cannot throw.\<close>

definition tryCatch :: "('s, 'a) io \<Rightarrow> (exn \<Rightarrow> ('s, 'a) io) \<Rightarrow> ('s, 'a) io" where
  "tryCatch m h = (\<lambda>s. case m s of (Inl e, t) \<Rightarrow> h e t | (Inr x, t) \<Rightarrow> (Inr x, t))"

definition tryFinally :: "('s, 'a) io \<Rightarrow> ('s \<Rightarrow> 's) \<Rightarrow> ('s, 'a) io" where
  "tryFinally m f = (\<lambda>s. case m s of (r, t) \<Rightarrow> (r, f t))"

text \<open>\<^verbatim>\<open>try { m } finally { f }\<close>, where \<open>f\<close> is a computation that may throw itself.\<close>

definition finallyDo :: "('s, 'a) io \<Rightarrow> ('s, unit) io \<Rightarrow> ('s, 'a) io" where
  "finallyDo m f =
     (\<lambda>s. case m s of (r, t) \<Rightarrow> (case f t of (Inl e, u) \<Rightarrow> (Inl e, u) | (Inr _, u) \<Rightarrow> (r, u)))"

text \<open>\<^verbatim>\<open>try { m } catch (error) { h; throw error }\<close>, where \<open>h\<close> cannot throw.\<close>

definition onThrow :: "('s, 'a) io \<Rightarrow> ('s \<Rightarrow> 's) \<Rightarrow> ('s, 'a) io" where
  "onThrow m h = (\<lambda>s. case m s of (Inl e, t) \<Rightarrow> (Inl e, h t) | (Inr x, t) \<Rightarrow> (Inr x, t))"

definition unlessThrow :: "bool \<Rightarrow> exn \<Rightarrow> ('s, unit) io" where
  "unlessThrow b e = (if b then ret () else throw e)"

definition liftPure :: "exn + 'a \<Rightarrow> ('s, 'a) io" where
  "liftPure r = (\<lambda>s. (r, s))"

definition getState :: "('s, 's) io" where
  "getState = (\<lambda>s. (Inr s, s))"

definition modifyState :: "('s \<Rightarrow> 's) \<Rightarrow> ('s, unit) io" where
  "modifyState f = (\<lambda>s. (Inr (), f s))"

text \<open>A computation on the world alone, run by a component that has a state of its own.\<close>

definition onWorld :: "('w, 'a) io \<Rightarrow> ('c \<times> 'w, 'a) io" where
  "onWorld m = (\<lambda>(c, w). case m w of (r, w') \<Rightarrow> (r, (c, w')))"

lemmas [io_defs] =
  ret_def throw_def andThen_def tryCatch_def tryFinally_def finallyDo_def onThrow_def unlessThrow_def liftPure_def
  getState_def modifyState_def onWorld_def

subsection \<open>Weakest preconditions\<close>

text \<open>
  \<open>wp m Q E s\<close>: started in \<open>s\<close>, the computation \<open>m\<close> ends with a result that satisfies \<open>Q\<close> or with
  a thrown value that satisfies \<open>E\<close>. Computations are total, so this is total correctness.
\<close>

definition wp :: "('s, 'a) io \<Rightarrow> ('a \<Rightarrow> 's \<Rightarrow> bool) \<Rightarrow> (exn \<Rightarrow> 's \<Rightarrow> bool) \<Rightarrow> 's \<Rightarrow> bool" where
  "wp m Q E s = (case m s of (Inl e, t) \<Rightarrow> E e t | (Inr x, t) \<Rightarrow> Q x t)"

lemma wp_ret [wp_simps]: "wp (ret x) Q E s = Q x s"
  by (simp add: wp_def ret_def)

lemma wp_throw [wp_simps]: "wp (throw e) Q E s = E e s"
  by (simp add: wp_def throw_def)

lemma wp_andThen [wp_simps]:
  "wp (andThen m f) Q E s = wp m (\<lambda>x t. wp (f x) Q E t) E s"
  by (simp add: wp_def andThen_def split: prod.splits sum.splits)

lemma wp_tryCatch [wp_simps]:
  "wp (tryCatch m h) Q E s = wp m Q (\<lambda>e t. wp (h e) Q E t) s"
  by (simp add: wp_def tryCatch_def split: prod.splits sum.splits)

lemma wp_tryFinally [wp_simps]:
  "wp (tryFinally m f) Q E s = wp m (\<lambda>x t. Q x (f t)) (\<lambda>e t. E e (f t)) s"
  by (simp add: wp_def tryFinally_def split: prod.splits sum.splits)

lemma wp_finallyDo [wp_simps]:
  "wp (finallyDo m f) Q E s =
     wp m (\<lambda>x t. wp f (\<lambda>_ u. Q x u) E t) (\<lambda>e t. wp f (\<lambda>_ u. E e u) E t) s"
  by (simp add: wp_def finallyDo_def split: prod.splits sum.splits)

lemma wp_onThrow [wp_simps]:
  "wp (onThrow m h) Q E s = wp m Q (\<lambda>e t. E e (h t)) s"
  by (simp add: wp_def onThrow_def split: prod.splits sum.splits)

lemma wp_unlessThrow [wp_simps]:
  "wp (unlessThrow b e) Q E s = (if b then Q () s else E e s)"
  by (simp add: wp_def unlessThrow_def ret_def throw_def)

lemma wp_liftPure [wp_simps]:
  "wp (liftPure r) Q E s = (case r of Inl e \<Rightarrow> E e s | Inr x \<Rightarrow> Q x s)"
  by (simp add: wp_def liftPure_def)

lemma wp_getState [wp_simps]: "wp getState Q E s = Q s s"
  by (simp add: wp_def getState_def)

lemma wp_modifyState [wp_simps]: "wp (modifyState f) Q E s = Q () (f s)"
  by (simp add: wp_def modifyState_def)

lemma wp_onWorld [wp_simps]:
  "wp (onWorld m) Q E (c, w) = wp m (\<lambda>x w'. Q x (c, w')) (\<lambda>e w'. E e (c, w')) w"
  by (simp add: wp_def onWorld_def split: prod.splits sum.splits)

lemma wp_if [wp_simps]:
  "wp (if b then m else n) Q E s = (if b then wp m Q E s else wp n Q E s)"
  by simp

lemma wp_let [wp_simps]: "wp (Let x f) Q E s = (let y = x in wp (f y) Q E s)"
  by (simp add: Let_def)

lemma wp_mono:
  assumes "wp m Q E s"
    and "\<And>x t. Q x t \<Longrightarrow> Q' x t" and "\<And>e t. E e t \<Longrightarrow> E' e t"
  shows "wp m Q' E' s"
  using assms by (simp add: wp_def split: prod.splits sum.splits)

lemma wp_conj:
  "wp m Q E s \<Longrightarrow> wp m Q' E' s \<Longrightarrow> wp m (\<lambda>x t. Q x t \<and> Q' x t) (\<lambda>e t. E e t \<and> E' e t) s"
  by (simp add: wp_def split: prod.splits sum.splits)

lemma wp_true [simp]: "wp m (\<lambda>_ _. True) (\<lambda>_ _. True) s"
  by (simp add: wp_def split: prod.splits sum.splits)

lemma wp_Inr: "wp m Q E s \<Longrightarrow> m s = (Inr x, t) \<Longrightarrow> Q x t"
  by (simp add: wp_def)

lemma wp_Inl: "wp m Q E s \<Longrightarrow> m s = (Inl e, t) \<Longrightarrow> E e t"
  by (simp add: wp_def)

lemma wp_result: "wp m (\<lambda>x t. m s = (Inr x, t)) (\<lambda>e t. m s = (Inl e, t)) s"
  by (simp add: wp_def split: prod.splits sum.splits)

text \<open>A computation that leaves the state as it was whenever it throws before its first effect.\<close>

lemma wpI:
  assumes "\<And>x t. m s = (Inr x, t) \<Longrightarrow> Q x t" and "\<And>e t. m s = (Inl e, t) \<Longrightarrow> E e t"
  shows "wp m Q E s"
  using assms by (simp add: wp_def split: prod.splits sum.splits)

text \<open>Introduction forms, which name the branches.\<close>

lemma wp_unlessI: "(b \<Longrightarrow> Q () s) \<Longrightarrow> (\<not> b \<Longrightarrow> E e s) \<Longrightarrow> wp (unlessThrow b e) Q E s"
  by (simp add: wp_unlessThrow)

lemma wp_liftI:
  "(\<And>x. r = Inr x \<Longrightarrow> Q x s) \<Longrightarrow> (\<And>e. r = Inl e \<Longrightarrow> E e s) \<Longrightarrow> wp (liftPure r) Q E s"
  by (cases r) (simp_all add: wp_liftPure)

lemma wp_ifI:
  "(b \<Longrightarrow> wp m Q E s) \<Longrightarrow> (\<not> b \<Longrightarrow> wp n Q E s) \<Longrightarrow> wp (if b then m else n) Q E s"
  by simp

lemma wp_seqI: "wp m (\<lambda>x t. wp (f x) Q E t) E s \<Longrightarrow> wp (andThen m f) Q E s"
  by (simp add: wp_andThen)

subsection \<open>Inversion of successful runs\<close>

lemma ret_Inr [simp]: "ret x s = (Inr y, t) \<longleftrightarrow> y = x \<and> t = s"
  by (auto simp: ret_def)

lemma throw_Inr [simp]: "throw e s = (Inr y, t) \<longleftrightarrow> False"
  by (simp add: throw_def)

lemma andThen_Inr:
  "andThen m f s = (Inr y, t) \<longleftrightarrow> (\<exists>x u. m s = (Inr x, u) \<and> f x u = (Inr y, t))"
  by (simp add: andThen_def split: prod.splits sum.splits)

lemma unlessThrow_Inr [simp]: "unlessThrow b e s = (Inr y, t) \<longleftrightarrow> b \<and> t = s"
  by (auto simp: unlessThrow_def)

lemma liftPure_Inr [simp]: "liftPure r s = (Inr y, t) \<longleftrightarrow> r = Inr y \<and> t = s"
  by (auto simp: liftPure_def)

text \<open>Branches of a successful run, as disjunctions that \<open>auto\<close> takes apart.\<close>

lemma if_Inr [io_cases]:
  "(if b then m else n) s = (Inr y, t) \<longleftrightarrow> b \<and> m s = (Inr y, t) \<or> \<not> b \<and> n s = (Inr y, t)"
  by simp

lemma option_Inr [io_cases]:
  "(case x of None \<Rightarrow> m | Some z \<Rightarrow> f z) s = (Inr y, t) \<longleftrightarrow>
     x = None \<and> m s = (Inr y, t) \<or> (\<exists>z. x = Some z \<and> f z s = (Inr y, t))"
  by (cases x) auto

lemma getState_Inr [simp]: "getState s = (Inr x, t) \<longleftrightarrow> x = s \<and> t = s"
  by (auto simp: getState_def)

lemma modifyState_Inr [simp]: "modifyState f s = (Inr x, t) \<longleftrightarrow> t = f s"
  by (auto simp: modifyState_def)

lemma onWorld_Inr [simp]:
  "onWorld m (c, w) = (Inr x, t) \<longleftrightarrow> (\<exists>v. m w = (Inr x, v) \<and> t = (c, v))"
  by (auto simp: onWorld_def split: prod.splits)

subsection \<open>Pure fallible functions\<close>

definition bindE :: "exn + 'a \<Rightarrow> ('a \<Rightarrow> exn + 'b) \<Rightarrow> exn + 'b" where
  "bindE r f = (case r of Inl e \<Rightarrow> Inl e | Inr x \<Rightarrow> f x)"

definition checkE :: "bool \<Rightarrow> exn \<Rightarrow> (unit \<Rightarrow> exn + 'a) \<Rightarrow> exn + 'a" where
  "checkE b e k = (if b then k () else Inl e)"

fun mapE :: "('a \<Rightarrow> exn + 'b) \<Rightarrow> 'a list \<Rightarrow> exn + 'b list" where
  "mapE f [] = Inr []"
| "mapE f (x # xs) = bindE (f x) (\<lambda>y. bindE (mapE f xs) (\<lambda>ys. Inr (y # ys)))"

lemma bindE_simps [simp]: "bindE (Inl e) f = Inl e" "bindE (Inr x) f = f x"
  by (simp_all add: bindE_def)

lemma bindE_Inr: "bindE r f = Inr y \<longleftrightarrow> (\<exists>x. r = Inr x \<and> f x = Inr y)"
  by (cases r) auto

lemma checkE_Inr: "checkE b e k = Inr y \<longleftrightarrow> b \<and> k () = Inr y"
  by (simp add: checkE_def)

lemma checkE_simps [simp]: "checkE True e k = k ()" "checkE False e k = Inl e"
  by (simp_all add: checkE_def)

lemma mapE_Inr_iff: "mapE f xs = Inr ys \<longleftrightarrow> list_all2 (\<lambda>x y. f x = Inr y) xs ys"
  by (induction xs arbitrary: ys) (auto simp: bindE_Inr list_all2_Cons1)

lemma mapE_map_Inr: "(\<And>x. x \<in> set xs \<Longrightarrow> f (g x) = Inr x) \<Longrightarrow> mapE f (map g xs) = Inr xs"
  by (induction xs) auto

subsection \<open>Lists\<close>

text \<open>JavaScript's \<^verbatim>\<open>find\<close> is the library's \<open>find\<close>; a duplicate test over a growing \<^verbatim>\<open>Set\<close> is \<open>distinct\<close>.\<close>

lemma find_map_eq: "find P (map f xs) = map_option f (find (P \<circ> f) xs)"
  by (induction xs) auto

lemma find_Some_set: "find P xs = Some x \<Longrightarrow> x \<in> set xs \<and> P x"
  by (metis (no_types, lifting) find_Some_iff nth_mem)

end
