(* ===== verification/JsBase.thy ===== *)
theory JsBase
  imports Prelude
begin

text \<open>
  The values of JavaScript that the source inspects at run time, and the small predicates of
  \<^verbatim>\<open>apps/relayer/src/shared\<close> and \<^verbatim>\<open>execution/work-identity.ts\<close> over them.

  A string is the list of its UTF-16 code units. A number is the rational it denotes, NaN or an
  infinity (the two zeros are one value: none of the modelled code tells them apart). An object
  or array element is a data property, or one without a readable value (an accessor, a hole);
  \<open>JOpaque\<close> is an object whose reflection throws.
\<close>

subsection \<open>Strings\<close>

type_synonym jstr = "16 word list"

definition js :: "string \<Rightarrow> jstr" where
  "js s = map (\<lambda>c. of_nat (of_char c)) s"

text \<open>
  \<^verbatim>\<open>toLowerCase\<close> on the hexadecimal strings it is applied to in the source (hashes, addresses,
  attempt identifiers): only the letters A to Z change.
\<close>

definition lowerUnit :: "16 word \<Rightarrow> 16 word" where
  "lowerUnit c = (if 65 \<le> c \<and> c \<le> 90 then c + 32 else c)"

definition toLowerCase :: "jstr \<Rightarrow> jstr" where
  "toLowerCase s = map lowerUnit s"

lemma lowerUnit_idem [simp]: "lowerUnit (lowerUnit c) = lowerUnit c"
proof (cases "65 \<le> c \<and> c \<le> 90")
  case True
  then have "uint (c + 32) = uint c + 32"
    by (simp add: uint_word_ariths word_le_def)
  with True have "\<not> c + 32 \<le> 90" by (simp add: word_le_def)
  with True show ?thesis by (simp add: lowerUnit_def)
qed (auto simp: lowerUnit_def)

lemma toLowerCase_idem [simp]: "toLowerCase (toLowerCase s) = toLowerCase s"
  by (simp add: toLowerCase_def)

lemma length_toLowerCase [simp]: "length (toLowerCase s) = length s"
  by (simp add: toLowerCase_def)

subsection \<open>Dynamic values\<close>

datatype jsval =
    JUndefined
  | JNull
  | JBool bool
  | JNum rat
  | JNaN
  | JInf bool
  | JBigint int
  | JString jstr
  | JArray "jprop list"
  | JObject "(jstr \<times> jprop) list"
  | JOpaque
and jprop = DataProp jsval | NoData

definition arr :: "jsval list \<Rightarrow> jsval" where
  "arr vs = JArray (map DataProp vs)"

definition obj :: "(string \<times> jsval) list \<Rightarrow> jsval" where
  "obj kvs = JObject (map (\<lambda>(k, v). (js k, DataProp v)) kvs)"

fun isArray :: "jsval \<Rightarrow> bool" where
  "isArray (JArray _) = True"
| "isArray _ = False"

text \<open>An own data property, without invoking a getter (\<^verbatim>\<open>ownValue\<close>): \<open>None\<close> where there is none.\<close>

definition ownData :: "(jstr \<times> jprop) list \<Rightarrow> string \<Rightarrow> jsval option" where
  "ownData ps name =
     (case map_of ps (js name) of Some (DataProp v) \<Rightarrow> Some v | _ \<Rightarrow> None)"

lemma js_eq_iff [simp]: "js a = js b \<longleftrightarrow> a = b"
proof -
  have "inj (\<lambda>c::char. of_nat (of_char c) :: 16 word)"
  proof (rule injI)
    fix c d :: char
    assume eq: "(of_nat (of_char c) :: 16 word) = of_nat (of_char d)"
    have b: "of_char e mod 65536 = (of_char e :: nat)" for e :: char
      by (rule mod_less) (use nat_of_char_less_256 [of e] in linarith)
    from eq have "unat (of_nat (of_char c) :: 16 word) = unat (of_nat (of_char d) :: 16 word)"
      by simp
    then have "of_char c = (of_char d :: nat)"
      by (simp only: unat_of_nat len_num1 len_bit0 len_bit1) (simp add: b)
    then show "c = d" by simp
  qed
  then show ?thesis by (simp add: js_def inj_map_eq_map)
qed

lemma ownData_obj [simp]:
  "ownData (map (\<lambda>(k, v). (js k, DataProp v)) kvs) name = map_of kvs name"
  by (induction kvs) (auto simp: ownData_def)

subsection \<open>\<^verbatim>\<open>shared/integer.ts\<close>, \<^verbatim>\<open>shared/uint.ts\<close>\<close>

definition MAX_SAFE_INTEGER :: int where
  "MAX_SAFE_INTEGER = 9007199254740991"

definition MAX_UINT64 :: int where
  "MAX_UINT64 = 2 ^ 64 - 1"

definition MAX_UINT256 :: int where
  "MAX_UINT256 = 2 ^ 256 - 1"

definition isIntegral :: "rat \<Rightarrow> bool" where
  "isIntegral q = (of_int \<lfloor>q\<rfloor> = q)"

text \<open>\<^verbatim>\<open>Number.isSafeInteger\<close> on a value of type number.\<close>

definition safeInteger :: "rat \<Rightarrow> bool" where
  "safeInteger q = (isIntegral q \<and> \<bar>\<lfloor>q\<rfloor>\<bar> \<le> MAX_SAFE_INTEGER)"

definition isNonNegativeSafeInteger :: "jsval \<Rightarrow> bool" where
  "isNonNegativeSafeInteger v = (case v of JNum q \<Rightarrow> safeInteger q \<and> 0 \<le> q | _ \<Rightarrow> False)"

definition isPositiveSafeInteger :: "jsval \<Rightarrow> bool" where
  "isPositiveSafeInteger v = (case v of JNum q \<Rightarrow> safeInteger q \<and> 0 < q | _ \<Rightarrow> False)"

text \<open>A value that passed one of these checks is the integer it denotes.\<close>

definition numInt :: "jsval \<Rightarrow> int" where
  "numInt v = (case v of JNum q \<Rightarrow> \<lfloor>q\<rfloor> | _ \<Rightarrow> 0)"

lemma isPositiveSafeInteger_of_int [simp]:
  "isPositiveSafeInteger (JNum (of_int i)) \<longleftrightarrow> 0 < i \<and> i \<le> MAX_SAFE_INTEGER"
  by (auto simp: isPositiveSafeInteger_def safeInteger_def isIntegral_def)

lemma isNonNegativeSafeInteger_of_int [simp]:
  "isNonNegativeSafeInteger (JNum (of_int i)) \<longleftrightarrow> 0 \<le> i \<and> i \<le> MAX_SAFE_INTEGER"
  by (auto simp: isNonNegativeSafeInteger_def safeInteger_def isIntegral_def)

lemma numInt_of_int [simp]: "numInt (JNum (of_int i)) = i"
  by (simp add: numInt_def)

lemma isNonNegativeSafeInteger_iff:
  "isNonNegativeSafeInteger v \<longleftrightarrow> (\<exists>i. v = JNum (of_int i) \<and> 0 \<le> i \<and> i \<le> MAX_SAFE_INTEGER)"
proof
  assume "isNonNegativeSafeInteger v"
  then obtain q where "v = JNum q" "of_int \<lfloor>q\<rfloor> = q" "\<bar>\<lfloor>q\<rfloor>\<bar> \<le> MAX_SAFE_INTEGER" "0 \<le> q"
    by (auto simp: isNonNegativeSafeInteger_def safeInteger_def isIntegral_def split: jsval.splits)
  then show "\<exists>i. v = JNum (of_int i) \<and> 0 \<le> i \<and> i \<le> MAX_SAFE_INTEGER"
    by (intro exI [of _ "\<lfloor>q\<rfloor>"]) auto
qed auto

lemma isPositiveSafeInteger_iff:
  "isPositiveSafeInteger v \<longleftrightarrow> (\<exists>i. v = JNum (of_int i) \<and> 0 < i \<and> i \<le> MAX_SAFE_INTEGER)"
proof
  assume "isPositiveSafeInteger v"
  then obtain q where "v = JNum q" "of_int \<lfloor>q\<rfloor> = q" "\<bar>\<lfloor>q\<rfloor>\<bar> \<le> MAX_SAFE_INTEGER" "0 < q"
    by (auto simp: isPositiveSafeInteger_def safeInteger_def isIntegral_def split: jsval.splits)
  then show "\<exists>i. v = JNum (of_int i) \<and> 0 < i \<and> i \<le> MAX_SAFE_INTEGER"
    by (intro exI [of _ "\<lfloor>q\<rfloor>"]) (auto simp: less_floor_iff)
qed auto

subsection \<open>\<^verbatim>\<open>shared/hex.ts\<close>\<close>

definition isHexUnit :: "16 word \<Rightarrow> bool" where
  "isHexUnit c = ((48 \<le> c \<and> c \<le> 57) \<or> (65 \<le> c \<and> c \<le> 70) \<or> (97 \<le> c \<and> c \<le> 102))"

text \<open>\<open>fixedHex\<close> on a string, \<open>isFixedHex\<close> on an unknown value.\<close>

definition fixedHex :: "jstr \<Rightarrow> nat \<Rightarrow> bool" where
  "fixedHex s bytes =
     (length s = 2 + bytes * 2 \<and> take 2 s = js ''0x'' \<and> list_all isHexUnit (drop 2 s))"

definition isFixedHex :: "jsval \<Rightarrow> nat \<Rightarrow> bool" where
  "isFixedHex v bytes = (case v of JString s \<Rightarrow> fixedHex s bytes | _ \<Rightarrow> False)"

definition stringOf :: "jsval \<Rightarrow> jstr" where
  "stringOf v = (case v of JString s \<Rightarrow> s | _ \<Rightarrow> [])"

lemma isFixedHex_JString [simp]: "isFixedHex (JString s) n = fixedHex s n"
  by (simp add: isFixedHex_def)

lemma isFixedHex_iff: "isFixedHex v n \<longleftrightarrow> (\<exists>s. v = JString s \<and> fixedHex s n)"
  by (cases v) (auto simp: isFixedHex_def)

lemma stringOf_JString [simp]: "stringOf (JString s) = s"
  by (simp add: stringOf_def)

subsection \<open>\<^verbatim>\<open>shared/decimal.ts\<close> and decimal notation\<close>

definition isDigitUnit :: "16 word \<Rightarrow> bool" where
  "isDigitUnit c = (48 \<le> c \<and> c \<le> 57)"

definition isDecimalInteger :: "jstr \<Rightarrow> bool" where
  "isDecimalInteger s = (s \<noteq> [] \<and> list_all isDigitUnit s)"

text \<open>\<^verbatim>\<open>BigInt(s)\<close> on a string of digits and \<^verbatim>\<open>n.toString()\<close>.\<close>

definition digitValue :: "16 word \<Rightarrow> int" where
  "digitValue c = uint c - 48"

definition parseBigint :: "jstr \<Rightarrow> int" where
  "parseBigint s = foldl (\<lambda>a c. a * 10 + digitValue c) 0 s"

definition digitUnit :: "int \<Rightarrow> 16 word" where
  "digitUnit d = of_int (48 + d)"

function showNonNeg :: "int \<Rightarrow> jstr" where
  "showNonNeg n = (if n < 10 then [digitUnit n] else showNonNeg (n div 10) @ [digitUnit (n mod 10)])"
  by pat_completeness auto
termination
  by (relation "measure nat") auto

declare showNonNeg.simps [simp del]

definition showBigint :: "int \<Rightarrow> jstr" where
  "showBigint n = (if n < 0 then js ''-'' @ showNonNeg (- n) else showNonNeg n)"

lemma uint_digitUnit: "0 \<le> d \<Longrightarrow> d < 10 \<Longrightarrow> uint (digitUnit d) = 48 + d"
  unfolding digitUnit_def by (subst uint_word_of_int) simp

lemma digitValue_digitUnit: "0 \<le> d \<Longrightarrow> d < 10 \<Longrightarrow> digitValue (digitUnit d) = d"
  by (simp add: digitValue_def uint_digitUnit)

lemma isDigitUnit_digitUnit: "0 \<le> d \<Longrightarrow> d < 10 \<Longrightarrow> isDigitUnit (digitUnit d)"
  by (simp add: isDigitUnit_def word_le_def uint_digitUnit)

lemma parseBigint_append:
  "parseBigint (s @ [c]) = parseBigint s * 10 + digitValue c"
  by (simp add: parseBigint_def)

lemma parseBigint_showNonNeg: "0 \<le> n \<Longrightarrow> parseBigint (showNonNeg n) = n"
proof (induction n rule: showNonNeg.induct)
  case (1 n)
  show ?case
  proof (cases "n < 10")
    case True
    with "1.prems" show ?thesis
      by (simp add: showNonNeg.simps parseBigint_def digitValue_digitUnit)
  next
    case False
    with 1 have "parseBigint (showNonNeg (n div 10)) = n div 10" by simp
    with False "1.prems" show ?thesis
      by (subst showNonNeg.simps) (simp add: parseBigint_append digitValue_digitUnit)
  qed
qed

lemma isDecimalInteger_showNonNeg: "0 \<le> n \<Longrightarrow> isDecimalInteger (showNonNeg n)"
proof (induction n rule: showNonNeg.induct)
  case (1 n)
  then show ?case
    by (subst showNonNeg.simps) (auto simp: isDecimalInteger_def isDigitUnit_digitUnit)
qed

lemma parseBigint_showBigint: "0 \<le> n \<Longrightarrow> parseBigint (showBigint n) = n"
  by (simp add: showBigint_def parseBigint_showNonNeg)

lemma isDecimalInteger_showBigint: "0 \<le> n \<Longrightarrow> isDecimalInteger (showBigint n)"
  by (simp add: showBigint_def isDecimalInteger_showNonNeg)

lemma showBigint_inj: "0 \<le> m \<Longrightarrow> 0 \<le> n \<Longrightarrow> showBigint m = showBigint n \<longleftrightarrow> m = n"
  by (metis parseBigint_showBigint)

lemma digitValue_nonneg: "isDigitUnit c \<Longrightarrow> 0 \<le> digitValue c"
  by (simp add: isDigitUnit_def digitValue_def word_le_def)

lemma parseBigint_nonneg: "list_all isDigitUnit s \<Longrightarrow> 0 \<le> parseBigint s"
proof (induction s rule: rev_induct)
  case Nil
  then show ?case by (simp add: parseBigint_def)
next
  case (snoc c s)
  then show ?case using digitValue_nonneg [of c] by (simp add: parseBigint_append)
qed

subsection \<open>\<^verbatim>\<open>shared/uuid.ts\<close>\<close>

definition isLowerHexUnit :: "16 word \<Rightarrow> bool" where
  "isLowerHexUnit c = ((48 \<le> c \<and> c \<le> 57) \<or> (97 \<le> c \<and> c \<le> 102))"

text \<open>
  The regular expression: position 14 holds the version \<^verbatim>\<open>4\<close>, position 19 one of \<^verbatim>\<open>89ab\<close>, the
  hyphens stand at 8, 13, 18 and 23, and every other position is a lowercase hexadecimal digit.
\<close>

definition uuidUnit :: "nat \<Rightarrow> 16 word \<Rightarrow> bool" where
  "uuidUnit i c =
     (if i = 8 \<or> i = 13 \<or> i = 18 \<or> i = 23 then c = 45
      else if i = 14 then c = 52
      else if i = 19 then c = 56 \<or> c = 57 \<or> c = 97 \<or> c = 98
      else isLowerHexUnit c)"

definition uuidV4 :: "jstr \<Rightarrow> bool" where
  "uuidV4 s = (length s = 36 \<and> list_all (\<lambda>(i, c). uuidUnit i c) (enumerate 0 s))"

definition isUuidV4 :: "jsval \<Rightarrow> bool" where
  "isUuidV4 v = (case v of JString s \<Rightarrow> uuidV4 s | _ \<Rightarrow> False)"

lemma isUuidV4_JString [simp]: "isUuidV4 (JString s) = uuidV4 s"
  by (simp add: isUuidV4_def)

lemma isUuidV4_iff: "isUuidV4 v \<longleftrightarrow> (\<exists>s. v = JString s \<and> uuidV4 s)"
  by (cases v) (auto simp: isUuidV4_def)

lemma uuidUnit_lower: "uuidUnit i c \<Longrightarrow> lowerUnit c = c"
proof -
  assume u: "uuidUnit i c"
  then have "c = 45 \<or> (48 \<le> c \<and> c \<le> 57) \<or> (97 \<le> c \<and> c \<le> 102)"
    by (auto simp: uuidUnit_def isLowerHexUnit_def split: if_splits)
  then have "\<not> (65 \<le> c \<and> c \<le> 90)"
    by (auto simp: word_le_def)
  then show ?thesis by (simp add: lowerUnit_def)
qed

text \<open>A canonical identifier is its own lowercase form, so exact comparison is enough for it.\<close>

lemma uuidV4_lower: "uuidV4 s \<Longrightarrow> toLowerCase s = s"
proof -
  assume "uuidV4 s"
  then have u: "\<forall>(i, c) \<in> set (enumerate 0 s). uuidUnit i c"
    by (simp add: uuidV4_def list_all_iff)
  have "lowerUnit c = c" if "c \<in> set s" for c
  proof -
    from that obtain i where "i < length s" "c = s ! i" by (auto simp: in_set_conv_nth)
    then have "(i, c) \<in> set (enumerate 0 s)" by (simp add: in_set_enumerate_eq)
    with u show ?thesis by (auto intro: uuidUnit_lower)
  qed
  then show "toLowerCase s = s"
    by (simp add: toLowerCase_def map_idI)
qed

subsection \<open>\<^verbatim>\<open>execution/work-identity.ts\<close>\<close>

definition MAX_WORK_ID_LENGTH :: nat where
  "MAX_WORK_ID_LENGTH = 256"

definition isLeadSurrogate :: "16 word \<Rightarrow> bool" where
  "isLeadSurrogate c = (0xD800 \<le> c \<and> c \<le> 0xDBFF)"

definition isTrailSurrogate :: "16 word \<Rightarrow> bool" where
  "isTrailSurrogate c = (0xDC00 \<le> c \<and> c \<le> 0xDFFF)"

text \<open>\<^verbatim>\<open>String.prototype.isWellFormed\<close>: no unpaired surrogate.\<close>

fun isWellFormed :: "jstr \<Rightarrow> bool" where
  "isWellFormed [] = True"
| "isWellFormed [c] = (\<not> isLeadSurrogate c \<and> \<not> isTrailSurrogate c)"
| "isWellFormed (c # d # cs) =
     (if isLeadSurrogate c then isTrailSurrogate d \<and> isWellFormed cs
      else \<not> isTrailSurrogate c \<and> isWellFormed (d # cs))"

definition isControlUnit :: "16 word \<Rightarrow> bool" where
  "isControlUnit c = (c < 0x20 \<or> (0x7f \<le> c \<and> c \<le> 0x9f))"

definition workId :: "jstr \<Rightarrow> bool" where
  "workId s =
     (s \<noteq> [] \<and> length s \<le> MAX_WORK_ID_LENGTH \<and> isWellFormed s \<and>
      list_all (\<lambda>c. \<not> isControlUnit c) s)"

definition isWorkId :: "jsval \<Rightarrow> bool" where
  "isWorkId v = (case v of JString s \<Rightarrow> workId s | _ \<Rightarrow> False)"

lemma isWorkId_JString [simp]: "isWorkId (JString s) = workId s"
  by (simp add: isWorkId_def)

lemma isWorkId_iff: "isWorkId v \<longleftrightarrow> (\<exists>s. v = JString s \<and> workId s)"
  by (cases v) (auto simp: isWorkId_def)

end
