(* ===== verification/JsDate.thy ===== *)
theory JsDate
  imports JsBase
begin

text \<open>
  The part of JavaScript's \<^verbatim>\<open>Date\<close> the journal relies on: \<^verbatim>\<open>toISOString\<close>, and the test
  \<^verbatim>\<open>Number.isFinite(Date.parse(s)) && new Date(Date.parse(s)).toISOString() === s\<close> by which every
  reader of a persisted timestamp accepts only the canonical form. Time values are milliseconds
  since 1970; the calendar is the one ECMAScript prescribes (\<^verbatim>\<open>DayFromYear\<close>, \<^verbatim>\<open>YearFromTime\<close>).
  A string that is not of the canonical shape can never equal an output of \<^verbatim>\<open>toISOString\<close>, so the
  parser covers that shape only and leaves the field ranges to the comparison.
\<close>

subsection \<open>Calendar\<close>

definition dayFromYear :: "int \<Rightarrow> int" where
  "dayFromYear y =
     365 * (y - 1970) + (y - 1969) div 4 - (y - 1901) div 100 + (y - 1601) div 400"

definition leapYear :: "int \<Rightarrow> bool" where
  "leapYear y = (y mod 4 = 0 \<and> (y mod 100 \<noteq> 0 \<or> y mod 400 = 0))"

definition daysInYear :: "int \<Rightarrow> int" where
  "daysInYear y = (if leapYear y then 366 else 365)"

text \<open>The year that holds a day, walked from a given year; \<open>d\<close> is the day counted in that year.\<close>

function yearWalk :: "int \<Rightarrow> int \<Rightarrow> int \<times> int" where
  "yearWalk y d =
     (if d < 0 then yearWalk (y - 1) (d + daysInYear (y - 1))
      else if d < daysInYear y then (y, d)
      else yearWalk (y + 1) (d - daysInYear y))"
  by pat_completeness auto
termination
  by (relation "measure (\<lambda>(y, d). if d < 0 then Suc (nat (- d))
        else if d < daysInYear y then 0 else nat d)")
    (auto simp: daysInYear_def split: if_splits)

declare yearWalk.simps [simp del]

definition monthLengths :: "int \<Rightarrow> int list" where
  "monthLengths y =
     [31, (if leapYear y then 29 else 28), 31, 30, 31, 30, 31, 31, 30, 31, 30, 31]"

fun monthWalk :: "int list \<Rightarrow> int \<Rightarrow> int \<Rightarrow> int \<times> int" where
  "monthWalk [] m d = (m, d)"
| "monthWalk (l # ls) m d = (if d < l then (m, d) else monthWalk ls (m + 1) (d - l))"

definition monthStart :: "int \<Rightarrow> int \<Rightarrow> int" where
  "monthStart y m = sum_list (take (nat m) (monthLengths y))"

lemma div_plus_one:
  fixes x k :: int
  assumes "0 < k"
  shows "(x + 1) div k = x div k + (if (x + 1) mod k = 0 then 1 else 0)"
proof -
  have x: "x + 1 = (x mod k + 1) + k * (x div k)" by simp
  have r: "0 \<le> x mod k" "x mod k < k" using assms by simp_all
  show ?thesis
  proof (cases "x mod k + 1 = k")
    case True
    have "x + 1 = k + k * (x div k)" using x True by linarith
    then have e: "x + 1 = k * (x div k + 1)" by (simp add: algebra_simps)
    show ?thesis unfolding e using assms by simp
  next
    case False
    with r have s: "0 \<le> x mod k + 1" "x mod k + 1 < k" by simp_all
    have x': "x + 1 = k * (x div k) + (x mod k + 1)" using x by simp
    have "(x + 1) mod k = x mod k + 1" "(x + 1) div k = x div k"
      by (rule int_mod_pos_eq [OF x' s], rule int_div_pos_eq [OF x' s])
    with r show ?thesis by simp
  qed
qed

lemma dayFromYear_Suc: "dayFromYear (y + 1) = dayFromYear y + daysInYear y"
proof -
  have m: "(y + - 492 * 4) mod 4 = y mod 4" "(y + - 19 * 100) mod 100 = y mod 100"
    "(y + - 4 * 400) mod 400 = y mod 400"
    by (rule mod_mult_self1)+
  have a: "(y - 1968) div 4 = (y - 1969) div 4 + (if y mod 4 = 0 then 1 else 0)"
    using div_plus_one [of 4 "y - 1969"] m(1) by simp
  have b: "(y - 1900) div 100 = (y - 1901) div 100 + (if y mod 100 = 0 then 1 else 0)"
    using div_plus_one [of 100 "y - 1901"] m(2) by simp
  have c: "(y - 1600) div 400 = (y - 1601) div 400 + (if y mod 400 = 0 then 1 else 0)"
    using div_plus_one [of 400 "y - 1601"] m(3) by simp
  have d: "y mod 100 = 0 \<Longrightarrow> y mod 4 = 0" "y mod 400 = 0 \<Longrightarrow> y mod 100 = 0"
    by (drule mod_0_imp_dvd, rule dvd_imp_mod_0, erule dvd_trans [rotated], simp)+
  have "dayFromYear (y + 1) =
      365 * (y - 1969) + (y - 1968) div 4 - (y - 1900) div 100 + (y - 1600) div 400"
    by (simp add: dayFromYear_def)
  also have "\<dots> = dayFromYear y + daysInYear y"
    unfolding a b c dayFromYear_def daysInYear_def leapYear_def using d
    by (cases "y mod 4 = 0"; cases "y mod 100 = 0"; cases "y mod 400 = 0") simp_all
  finally show ?thesis .
qed

lemma yearWalk_spec:
  "yearWalk y d = (y', d') \<Longrightarrow>
     0 \<le> d' \<and> d' < daysInYear y' \<and> dayFromYear y' + d' = dayFromYear y + d"
proof (induction y d rule: yearWalk.induct)
  case (1 y d)
  show ?case
  proof (cases "d < 0")
    case True
    with 1 have "dayFromYear y' + d' = dayFromYear (y - 1) + (d + daysInYear (y - 1))"
      "0 \<le> d' \<and> d' < daysInYear y'"
      by (auto simp: yearWalk.simps [of y d])
    with dayFromYear_Suc [of "y - 1"] show ?thesis by simp
  next
    case False
    note nonneg = False
    show ?thesis
    proof (cases "d < daysInYear y")
      case True
      with nonneg "1.prems" show ?thesis by (auto simp: yearWalk.simps [of y d])
    next
      case False
      with nonneg 1 have "dayFromYear y' + d' = dayFromYear (y + 1) + (d - daysInYear y)"
        "0 \<le> d' \<and> d' < daysInYear y'"
        by (auto simp: yearWalk.simps [of y d])
      with dayFromYear_Suc [of y] show ?thesis by simp
    qed
  qed
qed

lemma monthWalk_spec:
  "monthWalk ls m d = (m', d') \<Longrightarrow> 0 \<le> d \<Longrightarrow> d < sum_list ls \<Longrightarrow>
     0 \<le> d' \<and> m \<le> m' \<and> m' < m + int (length ls) \<and>
     d = sum_list (take (nat (m' - m)) ls) + d' \<and> d' < ls ! nat (m' - m)"
proof (induction ls arbitrary: m d)
  case Nil
  then show ?case by simp
next
  case (Cons l ls)
  show ?case
  proof (cases "d < l")
    case True
    with Cons.prems show ?thesis by auto
  next
    case False
    with Cons.prems have "monthWalk ls (m + 1) (d - l) = (m', d')" "0 \<le> d - l" "d - l < sum_list ls"
      by auto
    note IH = Cons.IH [OF this]
    then have "nat (m' - m) = Suc (nat (m' - (m + 1)))" by linarith
    with IH False Cons.prems show ?thesis by auto
  qed
qed

lemma sum_monthLengths: "sum_list (monthLengths y) = daysInYear y"
  by (simp add: monthLengths_def daysInYear_def)

lemma monthLengths_le: "i < 12 \<Longrightarrow> monthLengths y ! i \<le> 31"
proof -
  assume "i < 12"
  moreover have "list_all (\<lambda>l. l \<le> 31) (monthLengths y)" by (simp add: monthLengths_def)
  moreover have "length (monthLengths y) = 12" by (simp add: monthLengths_def)
  ultimately show ?thesis by (simp add: list_all_length)
qed

subsection \<open>Digits of fixed width\<close>

definition digitAt :: "int \<Rightarrow> int \<Rightarrow> 16 word" where
  "digitAt p n = digitUnit (n div p mod 10)"

definition pad2 :: "int \<Rightarrow> jstr" where
  "pad2 n = [digitAt 10 n, digitAt 1 n]"

definition pad3 :: "int \<Rightarrow> jstr" where
  "pad3 n = [digitAt 100 n, digitAt 10 n, digitAt 1 n]"

definition pad4 :: "int \<Rightarrow> jstr" where
  "pad4 n = [digitAt 1000 n, digitAt 100 n, digitAt 10 n, digitAt 1 n]"

definition pad6 :: "int \<Rightarrow> jstr" where
  "pad6 n = pad3 (n div 1000) @ pad3 n"

lemma isDigitUnit_digitAt [simp]: "isDigitUnit (digitAt p n)"
  by (simp add: digitAt_def isDigitUnit_digitUnit)

lemma digitValue_digitAt [simp]: "digitValue (digitAt p n) = n div p mod 10"
  by (simp add: digitAt_def digitValue_digitUnit)

lemma digit_step: "0 < p \<Longrightarrow> n div p = 10 * (n div (p * 10)) + n div p mod (10::int)"
  by (simp add: zdiv_zmult2_eq)

lemma digit_steps:
  "n = 10 * (n div 10) + n mod (10::int)"
  "n div 10 = 10 * (n div 100) + n div 10 mod (10::int)"
  "n div 100 = 10 * (n div 1000) + n div 100 mod (10::int)"
  using digit_step [of 10 n] digit_step [of 100 n] by simp_all

text \<open>The same arithmetic over variables, where no decision procedure splits the divisions.\<close>

lemma digits_sum:
  fixes n :: int
  assumes "n = 10 * a + r" "a = 10 * b + s" "b = 10 * c + u"
  shows "n = c * 1000 + u * 100 + s * 10 + r"
  using assms by simp

lemma parse_digits:
  "parseBigint [a, b] = digitValue a * 10 + digitValue b"
  "parseBigint [a, b, c] = digitValue a * 100 + digitValue b * 10 + digitValue c"
  "parseBigint [a, b, c, d] =
     digitValue a * 1000 + digitValue b * 100 + digitValue c * 10 + digitValue d"
  by (simp_all add: parseBigint_def algebra_simps)

lemma digits4: "n = n div 1000 * 1000 + n div 100 mod 10 * 100 + n div 10 mod 10 * 10 + n mod (10::int)"
  by (rule digits_sum [OF digit_steps])

lemma parse_pad2:
  assumes "0 \<le> n" "n < 100"
  shows "parseBigint [digitAt 10 n, digitAt 1 n] = n"
proof -
  have "n div 100 = 0" using assms by simp
  then show ?thesis using digits4 [of n] assms by (simp add: parse_digits)
qed

lemma parse_pad3:
  assumes "0 \<le> n" "n < 1000"
  shows "parseBigint [digitAt 100 n, digitAt 10 n, digitAt 1 n] = n"
proof -
  have "n div 1000 = 0" using assms by simp
  then have "n = n div 100 mod 10 * 100 + n div 10 mod 10 * 10 + n mod 10"
    using digits4 [of n] by simp
  then show ?thesis by (simp only: parse_digits digitValue_digitAt div_by_1)
qed

lemma parse_pad4:
  assumes "0 \<le> n" "n < 10000"
  shows "parseBigint (pad4 n) = n"
proof -
  have "n div 1000 mod 10 = n div 1000" using assms by (simp add: mod_pos_pos_trivial)
  then have "n = n div 1000 mod 10 * 1000 + n div 100 mod 10 * 100 + n div 10 mod 10 * 10 + n mod 10"
    by (simp only:) (rule digits4)
  then show ?thesis by (simp only: pad4_def parse_digits digitValue_digitAt div_by_1)
qed

lemma parseBigint_append_digits:
  "parseBigint (s @ [a, b, c]) =
     parseBigint s * 1000 + (digitValue a * 100 + digitValue b * 10 + digitValue c)"
  by (simp add: parseBigint_def algebra_simps)

lemma parse_pad6:
  assumes "0 \<le> n" "n < 1000000"
  shows "parseBigint (pad6 n) = n"
proof -
  have "parseBigint [digitAt 100 (n div 1000), digitAt 10 (n div 1000), digitAt 1 (n div 1000)] =
      n div 1000"
    by (rule parse_pad3) (use assms in simp_all)
  then have "parseBigint (pad6 n) =
      n div 1000 * 1000 + (n div 100 mod 10 * 100 + n div 10 mod 10 * 10 + n mod 10)"
    by (simp only: pad6_def pad3_def parseBigint_append_digits digitValue_digitAt div_by_1)
  then show ?thesis using digits4 [of n] by simp
qed

subsection \<open>\<^verbatim>\<open>toISOString\<close> and the canonical-timestamp test\<close>

definition isoYear :: "int \<Rightarrow> jstr" where
  "isoYear y =
     (if 0 \<le> y \<and> y \<le> 9999 then pad4 y
      else (if y < 0 then js ''-'' else js ''+'') @ pad6 \<bar>y\<bar>)"

definition isoRest :: "int \<Rightarrow> int \<Rightarrow> int \<Rightarrow> jstr" where
  "isoRest m d ms =
     js ''-'' @ pad2 (m + 1) @ js ''-'' @ pad2 (d + 1) @ js ''T'' @
     pad2 (ms div 3600000) @ js '':'' @ pad2 (ms div 60000 mod 60) @ js '':'' @
     pad2 (ms div 1000 mod 60) @ js ''.'' @ pad3 (ms mod 1000) @ js ''Z''"

definition toISOString :: "int \<Rightarrow> jstr" where
  "toISOString t =
     (let (y, dy) = yearWalk 1970 (t div 86400000);
          (m, d) = monthWalk (monthLengths y) 0 dy
      in isoYear y @ isoRest m d (t mod 86400000))"

definition MAX_TIME :: int where
  "MAX_TIME = 8640000000000000"

text \<open>The time value of \<open>YYYY\<close> or \<open>\<plusminus>YYYYYY\<close> followed by \<open>-MM-DDTHH:mm:ss.sssZ\<close>.\<close>

definition parseRest :: "jstr \<Rightarrow> int \<Rightarrow> int option" where
  "parseRest r y =
     (if length r = 20 then
        (let f = (\<lambda>i n. take n (drop i r));
             month = f 1 2; day = f 4 2; hour = f 7 2; minute = f 10 2; second = f 13 2; milli = f 16 3
         in if list_all isDigitUnit (month @ day @ hour @ minute @ second @ milli)
            then Some ((dayFromYear y + monthStart y (parseBigint month - 1) +
                   (parseBigint day - 1)) * 86400000 +
                   (parseBigint hour * 3600000 + parseBigint minute * 60000 +
                    parseBigint second * 1000 + parseBigint milli))
            else None)
      else None)"

definition dateParse :: "jstr \<Rightarrow> int option" where
  "dateParse s =
     (if length s = 24 then
        (if list_all isDigitUnit (take 4 s) then parseRest (drop 4 s) (parseBigint (take 4 s))
         else None)
      else if length s = 27 then
        (if list_all isDigitUnit (take 6 (drop 1 s)) then
           parseRest (drop 7 s)
             ((if s ! 0 = 45 then - 1 else 1) * parseBigint (take 6 (drop 1 s)))
         else None)
      else None)"

definition isoTimestamp :: "jstr \<Rightarrow> bool" where
  "isoTimestamp s =
     (case dateParse s of None \<Rightarrow> False
      | Some t \<Rightarrow> \<bar>t\<bar> \<le> MAX_TIME \<and> toISOString t = s)"

lemma time_sum:
  fixes ms :: int
  assumes "ms = s * 1000 + r" "s = m * 60 + q" "m = h * 60 + p"
  shows "h * 3600000 + p * 60000 + q * 1000 + r = ms"
  using assms by simp

lemma time_of_day:
  "ms div 3600000 * 3600000 + ms div 60000 mod 60 * 60000 +
     ms div 1000 mod 60 * 1000 + ms mod 1000 = (ms::int)"
proof (rule time_sum)
  show "ms div 1000 = ms div 60000 * 60 + ms div 1000 mod 60"
    using zdiv_zmult2_eq [of 60 ms 1000] by simp
  show "ms div 60000 = ms div 3600000 * 60 + ms div 60000 mod 60"
    using zdiv_zmult2_eq [of 60 ms 60000] by simp
qed simp

lemma length_isoRest: "length (isoRest m d ms) = 20"
  by (simp add: isoRest_def js_def pad2_def pad3_def)

lemma parseRest_isoRest:
  assumes "0 \<le> m" "m < 12" "0 \<le> d" "d < 31" "0 \<le> ms" "ms < 86400000"
  shows "parseRest (isoRest m d ms) y = Some ((dayFromYear y + monthStart y m + d) * 86400000 + ms)"
proof -
  have h: "0 \<le> ms div 3600000" "ms div 3600000 < 100" using assms by simp_all
  have r: "0 \<le> x mod 60" "x mod 60 < 100" for x :: int
    using pos_mod_bound [of 60 x] by simp_all
  have k: "0 \<le> ms mod 1000" "ms mod 1000 < 1000" by simp_all
  have md: "0 \<le> m + 1" "m + 1 < 100" "0 \<le> d + 1" "d + 1 < 100" using assms by simp_all
  note p = parse_pad2 [OF md(1,2)] parse_pad2 [OF md(3,4)] parse_pad2 [OF h] parse_pad2 [OF r]
    parse_pad3 [OF k]
  have fields: "take 2 (drop 1 (isoRest m d ms)) = [digitAt 10 (m + 1), digitAt 1 (m + 1)]"
    "take 2 (drop 4 (isoRest m d ms)) = [digitAt 10 (d + 1), digitAt 1 (d + 1)]"
    "take 2 (drop 7 (isoRest m d ms)) = [digitAt 10 (ms div 3600000), digitAt 1 (ms div 3600000)]"
    "take 2 (drop 10 (isoRest m d ms)) =
       [digitAt 10 (ms div 60000 mod 60), digitAt 1 (ms div 60000 mod 60)]"
    "take 2 (drop 13 (isoRest m d ms)) =
       [digitAt 10 (ms div 1000 mod 60), digitAt 1 (ms div 1000 mod 60)]"
    "take 3 (drop 16 (isoRest m d ms)) =
       [digitAt 100 (ms mod 1000), digitAt 10 (ms mod 1000), digitAt 1 (ms mod 1000)]"
    by (simp_all add: isoRest_def js_def pad2_def pad3_def)
  show ?thesis
    unfolding parseRest_def Let_def length_isoRest fields p
    by (simp only: list_all_append list.pred_inject isDigitUnit_digitAt append.simps
        simp_thms if_True time_of_day) simp
qed

lemma year_bound_linear:
  fixes y :: int
  assumes "4 * a \<le> y - 1969" "y - 1969 \<le> 4 * a + 3"
    "100 * b \<le> y - 1901" "y - 1901 \<le> 100 * b + 99"
    "400 * c \<le> y - 1601" "y - 1601 \<le> 400 * c + 399"
    "\<bar>365 * (y - 1970) + a - b + c + d\<bar> \<le> 100000000" "0 \<le> d" "d < 366"
  shows "\<bar>y\<bar> < 1000000"
proof -
  have "365 * (y - 1970) + a - b + c + d \<le> 100000000"
    "- 100000000 \<le> 365 * (y - 1970) + a - b + c + d"
    using assms(7) by linarith+
  then have "y < 1000000" "- 1000000 < y"
    using assms(2,3,6,8) assms(1,4,5,9) by (simp_all add: algebra_simps)
  then show ?thesis by simp
qed

lemma div_bounds: "0 < k \<Longrightarrow> k * (x div k) \<le> x" "0 < k \<Longrightarrow> x \<le> k * (x div k) + (k - 1)" for x k :: int
  using mult_div_mod_eq [of k x] pos_mod_bound [of k x] pos_mod_sign [of k x] by linarith+

lemma year_bound:
  assumes "\<bar>dayFromYear y + d\<bar> \<le> 100000000" "0 \<le> d" "d < daysInYear y"
  shows "\<bar>y\<bar> < 1000000"
proof (rule year_bound_linear)
  show "d < 366" using assms(3) by (simp add: daysInYear_def split: if_splits)
  show "\<bar>365 * (y - 1970) + (y - 1969) div 4 - (y - 1901) div 100 + (y - 1601) div 400 + d\<bar>
      \<le> 100000000"
    using assms(1) unfolding dayFromYear_def .
  show "4 * ((y - 1969) div 4) \<le> y - 1969" by (rule div_bounds) simp
  show "100 * ((y - 1901) div 100) \<le> y - 1901" by (rule div_bounds) simp
  show "400 * ((y - 1601) div 400) \<le> y - 1601" by (rule div_bounds) simp
  show "y - 1969 \<le> 4 * ((y - 1969) div 4) + 3" using div_bounds(2) [of 4 "y - 1969"] by simp
  show "y - 1901 \<le> 100 * ((y - 1901) div 100) + 99" using div_bounds(2) [of 100 "y - 1901"] by simp
  show "y - 1601 \<le> 400 * ((y - 1601) div 400) + 399" using div_bounds(2) [of 400 "y - 1601"] by simp
qed (rule assms)

lemma dateParse_year:
  assumes "\<bar>y\<bar> < 1000000" "length r = 20"
  shows "dateParse (isoYear y @ r) = parseRest r y"
proof (cases "0 \<le> y \<and> y \<le> 9999")
  case True
  have d: "list_all isDigitUnit (pad4 y)" "length (pad4 y) = 4"
    by (simp_all only: pad4_def list.pred_inject isDigitUnit_digitAt list.size)
  from True assms show ?thesis
    by (simp add: dateParse_def isoYear_def parse_pad4 d)
next
  case False
  have d: "list_all isDigitUnit (pad6 n)" "length (pad6 n) = 6" for n
    by (simp_all add: pad6_def pad3_def)
  from False assms show ?thesis
    by (auto simp: dateParse_def isoYear_def d parse_pad6 js_def)
qed

lemma dateParse_toISOString:
  assumes "\<bar>t\<bar> \<le> MAX_TIME"
  shows "dateParse (toISOString t) = Some t"
proof -
  obtain y dy where y: "yearWalk 1970 (t div 86400000) = (y, dy)" by fastforce
  obtain m d where m: "monthWalk (monthLengths y) 0 dy = (m, d)" by fastforce
  from yearWalk_spec [OF y] have dy: "0 \<le> dy" "dy < daysInYear y"
    and day: "dayFromYear y + dy = t div 86400000"
    by (simp_all add: dayFromYear_def)
  have "\<bar>t div 86400000\<bar> \<le> 100000000"
    using assms div_bounds [of 86400000 t] unfolding MAX_TIME_def by linarith
  with day dy have yb: "\<bar>y\<bar> < 1000000" by (intro year_bound) simp_all
  note mw = monthWalk_spec [OF m dy(1), unfolded sum_monthLengths, OF dy(2)]
  have len: "length (monthLengths y) = 12" by (simp add: monthLengths_def)
  from mw len have mb: "0 \<le> m" "m < 12" "0 \<le> d" by simp_all
  from mw have "d < monthLengths y ! nat m" by simp
  with mb monthLengths_le [of "nat m" y] have db: "d < 31" by (simp add: nat_less_iff)
  from mw have sum: "dy = monthStart y m + d" by (simp add: monthStart_def)
  have "dateParse (toISOString t) = parseRest (isoRest m d (t mod 86400000)) y"
    using y m yb by (simp add: toISOString_def dateParse_year length_isoRest)
  also have "\<dots> = Some ((dayFromYear y + monthStart y m + d) * 86400000 + t mod 86400000)"
    by (rule parseRest_isoRest) (use mb db in simp_all)
  also have "(dayFromYear y + monthStart y m + d) * 86400000 + t mod 86400000 = t"
    using day sum by (simp add: add.assoc)
  finally show ?thesis .
qed

text \<open>What the clock writes, every reader accepts.\<close>

lemma isoTimestamp_toISOString: "\<bar>t\<bar> \<le> MAX_TIME \<Longrightarrow> isoTimestamp (toISOString t)"
  by (simp add: isoTimestamp_def dateParse_toISOString)

end
