(* ===== verification/Journal.thy ===== *)
theory Journal
  imports JsDate
begin

text \<open>
  The transaction journal: the data of \<^verbatim>\<open>state/transaction-journal.ts\<close>, and the structural
  validator of \<^verbatim>\<open>state/transaction-journal-validation.ts\<close> as a function from unknown values to
  snapshots. A declarative well-formedness predicate follows, and the proofs that the validator
  accepts exactly the well-formed snapshots and returns them unchanged.
\<close>

subsection \<open>Data\<close>

record BlockAnchor =
  blockNumber :: int
  blockHash :: jstr

record JournalIdentity =
  chainId :: int
  signer :: jstr

record AnchoredNonceObservation =
  anchor :: BlockAnchor
  obsNonce :: int

definition MAX_RETAINED_NONCE_REPAIRS :: nat where
  "MAX_RETAINED_NONCE_REPAIRS = 8"

record JournalNonceRepair =
  repairAt :: jstr
  previousNextNonce :: int
  repairNextNonce :: int
  repairObservation :: AnchoredNonceObservation

record ReplacementSearch =
  lowerBound :: AnchoredNonceObservation
  searchedThrough :: "BlockAnchor option"

record JournalSignedTransaction =
  transactionHash :: jstr
  signedTransaction :: jstr

datatype receipt_outcome = Success | Reverted

text \<open>
  The discriminated unions of the source: an inclusion observation is that of a recorded
  transaction or of a replacement, and only an included attempt has one.
\<close>

datatype JournalInclusionObservation =
    RecordedInclusion (inclusionOf: BlockAnchor) (observedAt: BlockAnchor) receipt_outcome jstr
  | ReplacedInclusion (inclusionOf: BlockAnchor) (observedAt: BlockAnchor) jstr int

datatype attempt_phase =
    Signed
  | BroadcastMayHaveOccurred
  | Included JournalInclusionObservation

record JournalAttempt =
  attemptId :: jstr
  attemptWorkId :: jstr
  attemptNonce :: int
  createdAt :: jstr
  signedTransactions :: "JournalSignedTransaction list"
  replacementSearch :: "ReplacementSearch option"
  phase :: attempt_phase

record TransactionJournalSnapshot =
  identity :: JournalIdentity
  baseline :: AnchoredNonceObservation
  lastObservation :: AnchoredNonceObservation
  nextNonce :: int
  durableNextNonce :: int
  repairs :: "JournalNonceRepair list"
  attempts :: "JournalAttempt list"

datatype TransactionJournalRead = Missing | Present TransactionJournalSnapshot

definition isIncluded :: "JournalAttempt \<Rightarrow> bool" where
  "isIncluded a = (case phase a of Included _ \<Rightarrow> True | _ \<Rightarrow> False)"

definition attemptHashes :: "JournalAttempt \<Rightarrow> jstr list" where
  "attemptHashes a = map transactionHash (signedTransactions a)"

subsection \<open>Snapshots as JavaScript values\<close>

definition embIdentity :: "JournalIdentity \<Rightarrow> jsval" where
  "embIdentity i = obj [(''chainId'', JNum (of_int (chainId i))), (''signer'', JString (signer i))]"

definition embAnchor :: "BlockAnchor \<Rightarrow> jsval" where
  "embAnchor a =
     obj [(''blockNumber'', JBigint (blockNumber a)), (''blockHash'', JString (blockHash a))]"

definition embObservation :: "AnchoredNonceObservation \<Rightarrow> jsval" where
  "embObservation p = obj [(''anchor'', embAnchor (anchor p)), (''nonce'', JBigint (obsNonce p))]"

definition embRepair :: "JournalNonceRepair \<Rightarrow> jsval" where
  "embRepair r = obj [
     (''kind'', JString (js ''sync-nonce'')), (''at'', JString (repairAt r)),
     (''previousNextNonce'', JBigint (previousNextNonce r)),
     (''nextNonce'', JBigint (repairNextNonce r)),
     (''observation'', embObservation (repairObservation r))]"

definition embNullable :: "('a \<Rightarrow> jsval) \<Rightarrow> 'a option \<Rightarrow> jsval" where
  "embNullable f x = (case x of None \<Rightarrow> JNull | Some y \<Rightarrow> f y)"

definition embSearch :: "ReplacementSearch \<Rightarrow> jsval" where
  "embSearch s = obj [
     (''lowerBound'', embObservation (lowerBound s)),
     (''searchedThrough'', embNullable embAnchor (searchedThrough s))]"

definition embSigned :: "JournalSignedTransaction \<Rightarrow> jsval" where
  "embSigned t = obj [
     (''transactionHash'', JString (transactionHash t)),
     (''signedTransaction'', JString (signedTransaction t))]"

definition embOutcome :: "receipt_outcome \<Rightarrow> jsval" where
  "embOutcome r = JString (case r of Success \<Rightarrow> js ''success'' | Reverted \<Rightarrow> js ''reverted'')"

fun embInclusion :: "JournalInclusionObservation \<Rightarrow> jsval" where
  "embInclusion (RecordedInclusion i p r h) = obj [
     (''inclusion'', embAnchor i), (''observedAt'', embAnchor p),
     (''outcome'', embOutcome r), (''transactionHash'', JString h)]"
| "embInclusion (ReplacedInclusion i p h n) = obj [
     (''inclusion'', embAnchor i), (''observedAt'', embAnchor p),
     (''outcome'', JString (js ''replaced'')), (''replacementTransactionHash'', JString h),
     (''nonceAtAnchor'', JBigint n)]"

definition phaseName :: "attempt_phase \<Rightarrow> jstr" where
  "phaseName p = (case p of Signed \<Rightarrow> js ''signed''
     | BroadcastMayHaveOccurred \<Rightarrow> js ''broadcast-may-have-occurred''
     | Included _ \<Rightarrow> js ''included'')"

definition phaseInclusion :: "attempt_phase \<Rightarrow> JournalInclusionObservation option" where
  "phaseInclusion p = (case p of Included i \<Rightarrow> Some i | _ \<Rightarrow> None)"

definition embAttempt :: "JournalAttempt \<Rightarrow> jsval" where
  "embAttempt a = obj [
     (''attemptId'', JString (attemptId a)), (''workId'', JString (attemptWorkId a)),
     (''nonce'', JBigint (attemptNonce a)), (''createdAt'', JString (createdAt a)),
     (''signedTransactions'', arr (map embSigned (signedTransactions a))),
     (''replacementSearch'', embNullable embSearch (replacementSearch a)),
     (''phase'', JString (phaseName (phase a))),
     (''inclusion'', embNullable embInclusion (phaseInclusion (phase a)))]"

definition embSnapshot :: "TransactionJournalSnapshot \<Rightarrow> jsval" where
  "embSnapshot s = obj [
     (''version'', JNum 1), (''identity'', embIdentity (identity s)),
     (''baseline'', embObservation (baseline s)),
     (''lastObservation'', embObservation (lastObservation s)),
     (''nextNonce'', JBigint (nextNonce s)),
     (''durableNextNonce'', JBigint (durableNextNonce s)),
     (''repairs'', arr (map embRepair (repairs s))),
     (''attempts'', arr (map embAttempt (attempts s)))]"

subsection \<open>The structural validator\<close>

abbreviation INVALID_SNAPSHOT :: exn where
  "INVALID_SNAPSHOT \<equiv> TypeError ''Invalid transaction journal snapshot.''"

abbreviation INVALID_REPAIRS :: exn where
  "INVALID_REPAIRS \<equiv> TypeError ''Invalid transaction journal repairs.''"

abbreviation requireValid :: "bool \<Rightarrow> (unit \<Rightarrow> exn + 'a) \<Rightarrow> exn + 'a" where
  "requireValid b k \<equiv> checkE b INVALID_SNAPSHOT k"

abbreviation requireValidRepair :: "bool \<Rightarrow> (unit \<Rightarrow> exn + 'a) \<Rightarrow> exn + 'a" where
  "requireValidRepair b k \<equiv> checkE b INVALID_REPAIRS k"

definition field :: "jsval \<Rightarrow> string \<Rightarrow> exn + jsval" where
  "field input name =
     (case input of
        JObject ps \<Rightarrow> (case ownData ps name of Some v \<Rightarrow> Inr v | None \<Rightarrow> Inl INVALID_SNAPSHOT)
      | _ \<Rightarrow> Inl INVALID_SNAPSHOT)"

definition readUint :: "jsval \<Rightarrow> exn + int" where
  "readUint input =
     (case input of JBigint n \<Rightarrow> requireValid (0 \<le> n \<and> n \<le> MAX_UINT256) (\<lambda>_. Inr n)
      | _ \<Rightarrow> Inl INVALID_SNAPSHOT)"

definition readArray :: "jsval \<Rightarrow> (jsval \<Rightarrow> exn + 'a) \<Rightarrow> exn + 'a list" where
  "readArray input readItem =
     (case input of
        JArray ps \<Rightarrow> mapE (\<lambda>p. case p of DataProp v \<Rightarrow> readItem v | NoData \<Rightarrow> Inl INVALID_SNAPSHOT) ps
      | _ \<Rightarrow> Inl INVALID_SNAPSHOT)"

definition readIdentity :: "jsval \<Rightarrow> exn + JournalIdentity" where
  "readIdentity input =
     bindE (field input ''chainId'') (\<lambda>c.
     bindE (field input ''signer'') (\<lambda>s.
     requireValid (isPositiveSafeInteger c) (\<lambda>_.
     requireValid (isFixedHex s 20) (\<lambda>_.
     Inr \<lparr>chainId = numInt c, signer = stringOf s\<rparr>))))"

definition readAnchor :: "jsval \<Rightarrow> exn + BlockAnchor" where
  "readAnchor input =
     bindE (field input ''blockNumber'') (\<lambda>v.
     bindE (readUint v) (\<lambda>n.
     bindE (field input ''blockHash'') (\<lambda>h.
     requireValid (isFixedHex h 32) (\<lambda>_.
     Inr \<lparr>blockNumber = n, blockHash = stringOf h\<rparr>))))"

definition readObservation :: "jsval \<Rightarrow> exn + AnchoredNonceObservation" where
  "readObservation input =
     bindE (field input ''anchor'') (\<lambda>v.
     bindE (readAnchor v) (\<lambda>a.
     bindE (field input ''nonce'') (\<lambda>w.
     bindE (readUint w) (\<lambda>n.
     Inr \<lparr>anchor = a, obsNonce = n\<rparr>))))"

definition readReplacementSearch :: "jsval \<Rightarrow> int \<Rightarrow> exn + ReplacementSearch" where
  "readReplacementSearch input n =
     bindE (field input ''lowerBound'') (\<lambda>v.
     bindE (readObservation v) (\<lambda>lower.
     requireValid (obsNonce lower \<le> n) (\<lambda>_.
     bindE (field input ''searchedThrough'') (\<lambda>rawThrough.
     if rawThrough = JNull then Inr \<lparr>lowerBound = lower, searchedThrough = None\<rparr>
     else
       bindE (readAnchor rawThrough) (\<lambda>through.
       requireValid (blockNumber (anchor lower) < blockNumber through) (\<lambda>_.
       Inr \<lparr>lowerBound = lower, searchedThrough = Some through\<rparr>))))))"

definition signedBytes :: "jstr \<Rightarrow> bool" where
  "signedBytes s =
     (66 \<le> length s \<and> even (length s) \<and> take 2 s = js ''0x'' \<and>
      list_all isLowerHexUnit (drop 2 s))"

definition readSignedTransaction :: "jsval \<Rightarrow> exn + JournalSignedTransaction" where
  "readSignedTransaction input =
     bindE (field input ''transactionHash'') (\<lambda>h.
     bindE (field input ''signedTransaction'') (\<lambda>b.
     requireValid (isFixedHex h 32) (\<lambda>_.
     requireValid (case b of JString s \<Rightarrow> signedBytes s | _ \<Rightarrow> False) (\<lambda>_.
     Inr \<lparr>transactionHash = stringOf h, signedTransaction = stringOf b\<rparr>))))"

definition containsHash :: "JournalSignedTransaction list \<Rightarrow> jstr \<Rightarrow> bool" where
  "containsHash ts h = list_ex (\<lambda>t. toLowerCase (transactionHash t) = toLowerCase h) ts"

definition readInclusion ::
  "jsval \<Rightarrow> int \<Rightarrow> JournalSignedTransaction list \<Rightarrow> exn + JournalInclusionObservation" where
  "readInclusion input n ts =
     bindE (field input ''inclusion'') (\<lambda>v. bindE (readAnchor v) (\<lambda>incl.
     bindE (field input ''observedAt'') (\<lambda>w. bindE (readAnchor w) (\<lambda>obs.
     bindE (field input ''outcome'') (\<lambda>outcome.
     requireValid (blockNumber incl \<le> blockNumber obs) (\<lambda>_.
     requireValid (blockNumber incl = blockNumber obs \<longrightarrow>
         toLowerCase (blockHash incl) = toLowerCase (blockHash obs)) (\<lambda>_.
     if outcome = JString (js ''success'') \<or> outcome = JString (js ''reverted'') then
       bindE (field input ''transactionHash'') (\<lambda>h.
       requireValid (isFixedHex h 32) (\<lambda>_.
       requireValid (containsHash ts (stringOf h)) (\<lambda>_.
       Inr (RecordedInclusion incl obs
              (if outcome = JString (js ''success'') then Success else Reverted) (stringOf h)))))
     else if outcome = JString (js ''replaced'') then
       bindE (field input ''replacementTransactionHash'') (\<lambda>h.
       bindE (field input ''nonceAtAnchor'') (\<lambda>m. bindE (readUint m) (\<lambda>k.
       requireValid (isFixedHex h 32) (\<lambda>_.
       requireValid (\<not> containsHash ts (stringOf h)) (\<lambda>_.
       requireValid (n < k) (\<lambda>_.
       Inr (ReplacedInclusion incl obs (stringOf h) k)))))))
     else Inl INVALID_SNAPSHOT)))))))"

definition readNullableSearch :: "jsval \<Rightarrow> int \<Rightarrow> exn + ReplacementSearch option" where
  "readNullableSearch raw n =
     (if raw = JNull then Inr None
      else bindE (readReplacementSearch raw n) (\<lambda>s. Inr (Some s)))"

text \<open>The \<^verbatim>\<open>switch\<close> on the phase, with the value of the field \<^verbatim>\<open>inclusion\<close>.\<close>

definition readPhase ::
  "jsval \<Rightarrow> jsval \<Rightarrow> int \<Rightarrow> JournalSignedTransaction list \<Rightarrow> exn + attempt_phase" where
  "readPhase p rawInclusion n ts =
     (if p = JString (js ''signed'') then
        requireValid (rawInclusion = JNull) (\<lambda>_. Inr Signed)
      else if p = JString (js ''broadcast-may-have-occurred'') then
        requireValid (rawInclusion = JNull) (\<lambda>_. Inr BroadcastMayHaveOccurred)
      else if p = JString (js ''included'') then
        bindE (readInclusion rawInclusion n ts) (\<lambda>i. Inr (Included i))
      else Inl INVALID_SNAPSHOT)"

definition readAttempt :: "jsval \<Rightarrow> exn + JournalAttempt" where
  "readAttempt input =
     bindE (field input ''attemptId'') (\<lambda>a.
     bindE (field input ''workId'') (\<lambda>w.
     bindE (field input ''nonce'') (\<lambda>v. bindE (readUint v) (\<lambda>n.
     bindE (field input ''createdAt'') (\<lambda>c.
     bindE (field input ''phase'') (\<lambda>p.
     requireValid (isUuidV4 a) (\<lambda>_.
     requireValid (isWorkId w) (\<lambda>_.
     requireValid (case c of JString s \<Rightarrow> isoTimestamp s | _ \<Rightarrow> False) (\<lambda>_.
     bindE (field input ''signedTransactions'') (\<lambda>rawTs.
     bindE (readArray rawTs readSignedTransaction) (\<lambda>ts.
     requireValid (ts \<noteq> []) (\<lambda>_.
     bindE (field input ''replacementSearch'') (\<lambda>rawSearch.
     bindE (readNullableSearch rawSearch n) (\<lambda>search.
     bindE (field input ''inclusion'') (\<lambda>rawInclusion.
     bindE (readPhase p rawInclusion n ts) (\<lambda>ph.
     Inr \<lparr>attemptId = stringOf a, attemptWorkId = stringOf w, attemptNonce = n,
          createdAt = stringOf c, signedTransactions = ts, replacementSearch = search,
          phase = ph\<rparr>))))))))))))))))"

definition readRepair :: "jsval \<Rightarrow> exn + JournalNonceRepair" where
  "readRepair input =
     bindE (field input ''kind'') (\<lambda>k.
     requireValidRepair (k = JString (js ''sync-nonce'')) (\<lambda>_.
     bindE (field input ''at'') (\<lambda>t.
     requireValidRepair (case t of JString s \<Rightarrow> isoTimestamp s | _ \<Rightarrow> False) (\<lambda>_.
     bindE (field input ''previousNextNonce'') (\<lambda>v. bindE (readUint v) (\<lambda>prev.
     bindE (field input ''nextNonce'') (\<lambda>w. bindE (readUint w) (\<lambda>next.
     bindE (field input ''observation'') (\<lambda>u. bindE (readObservation u) (\<lambda>seen.
     requireValidRepair (prev < next) (\<lambda>_.
     requireValidRepair (obsNonce seen = next) (\<lambda>_.
     Inr \<lparr>repairAt = stringOf t, previousNextNonce = prev, repairNextNonce = next,
          repairObservation = seen\<rparr>))))))))))))"

definition readRepairs :: "jsval \<Rightarrow> exn + JournalNonceRepair list" where
  "readRepairs input =
     (case (case input of
              JArray ps \<Rightarrow> requireValidRepair (length ps \<le> MAX_RETAINED_NONCE_REPAIRS)
                             (\<lambda>_. readArray input readRepair)
            | _ \<Rightarrow> Inl INVALID_REPAIRS) of
        Inl _ \<Rightarrow> Inl INVALID_REPAIRS
      | Inr rs \<Rightarrow> Inr rs)"

text \<open>The loops over repairs, signed transactions and attempts, with the sets they grow.\<close>

fun checkRepairOrder :: "JournalNonceRepair list \<Rightarrow> exn + unit" where
  "checkRepairOrder (r # q # rs) =
     requireValidRepair (repairNextNonce r \<le> previousNextNonce q) (\<lambda>_. checkRepairOrder (q # rs))"
| "checkRepairOrder _ = Inr ()"

fun checkHashes :: "jstr set \<Rightarrow> JournalSignedTransaction list \<Rightarrow> exn + jstr set" where
  "checkHashes seen [] = Inr seen"
| "checkHashes seen (t # ts) =
     requireValid (toLowerCase (transactionHash t) \<notin> seen) (\<lambda>_.
       checkHashes (insert (toLowerCase (transactionHash t)) seen) ts)"

fun checkAttempts ::
  "int \<Rightarrow> jstr set \<Rightarrow> jstr set \<Rightarrow> jstr set \<Rightarrow> JournalAttempt list \<Rightarrow> exn + unit" where
  "checkAttempts n ids works hashes [] = Inr ()"
| "checkAttempts n ids works hashes (a # as) =
     requireValid (attemptNonce a = n) (\<lambda>_.
     requireValid (toLowerCase (attemptId a) \<notin> ids) (\<lambda>_.
     requireValid (attemptWorkId a \<notin> works) (\<lambda>_.
     bindE (checkHashes hashes (signedTransactions a)) (\<lambda>hashes'.
     checkAttempts (n + 1) (insert (toLowerCase (attemptId a)) ids)
       (insert (attemptWorkId a) works) hashes' as))))"

definition validateJournalSnapshotStructure ::
  "jsval \<Rightarrow> JournalIdentity \<Rightarrow> exn + TransactionJournalSnapshot" where
  "validateJournalSnapshotStructure input expectedIdentity =
     bindE (readIdentity (embIdentity expectedIdentity)) (\<lambda>expected.
     bindE (field input ''identity'') (\<lambda>v. bindE (readIdentity v) (\<lambda>ident.
     bindE (field input ''version'') (\<lambda>version.
     requireValid (version = JNum 1) (\<lambda>_.
     requireValid (chainId ident = chainId expected) (\<lambda>_.
     requireValid (toLowerCase (signer ident) = toLowerCase (signer expected)) (\<lambda>_.
     bindE (field input ''baseline'') (\<lambda>v. bindE (readObservation v) (\<lambda>base.
     bindE (field input ''lastObservation'') (\<lambda>v. bindE (readObservation v) (\<lambda>last.
     bindE (field input ''nextNonce'') (\<lambda>v. bindE (readUint v) (\<lambda>next.
     bindE (field input ''durableNextNonce'') (\<lambda>v. bindE (readUint v) (\<lambda>durable.
     requireValid (obsNonce base \<le> durable) (\<lambda>_.
     requireValid (durable \<le> next) (\<lambda>_.
     bindE (field input ''repairs'') (\<lambda>v. bindE (readRepairs v) (\<lambda>rs.
     bindE (checkRepairOrder rs) (\<lambda>_.
     requireValidRepair (rs = [] \<or> repairNextNonce (List.last rs) \<le> durable) (\<lambda>_.
     bindE (field input ''attempts'') (\<lambda>v. bindE (readArray v readAttempt) (\<lambda>as.
     requireValid (int (length as) = next - durable) (\<lambda>_.
     bindE (checkAttempts durable {} {} {} as) (\<lambda>_.
     Inr \<lparr>identity = ident, baseline = base, lastObservation = last, nextNonce = next,
          durableNextNonce = durable, repairs = rs, attempts = as\<rparr>)))))))))))))))))))))))))"

text \<open>The validator applied to a snapshot the code has built itself.\<close>

definition validateSnapshot ::
  "TransactionJournalSnapshot \<Rightarrow> JournalIdentity \<Rightarrow> exn + TransactionJournalSnapshot" where
  "validateSnapshot s expected = validateJournalSnapshotStructure (embSnapshot s) expected"

end
