(* ===== verification/JournalProofs.thy ===== *)
theory JournalProofs
  imports Journal
begin

text \<open>
  What the structural validator promises: a declarative well-formedness predicate on snapshots, the
  proof that a snapshot is accepted exactly when it is well-formed and is then returned unchanged,
  and the proof that whatever is accepted from an unknown value is well-formed.
\<close>

named_theorems readers \<open>what a reader accepts, for every value of the component's type\<close>

subsection \<open>Well-formed data\<close>

definition uint256 :: "int \<Rightarrow> bool" where
  "uint256 n = (0 \<le> n \<and> n \<le> MAX_UINT256)"

definition wfIdentity :: "JournalIdentity \<Rightarrow> bool" where
  "wfIdentity i = (0 < chainId i \<and> chainId i \<le> MAX_SAFE_INTEGER \<and> fixedHex (signer i) 20)"

definition wfAnchor :: "BlockAnchor \<Rightarrow> bool" where
  "wfAnchor a = (uint256 (blockNumber a) \<and> fixedHex (blockHash a) 32)"

definition wfObservation :: "AnchoredNonceObservation \<Rightarrow> bool" where
  "wfObservation p = (wfAnchor (anchor p) \<and> uint256 (obsNonce p))"

definition wfSearch :: "int \<Rightarrow> ReplacementSearch \<Rightarrow> bool" where
  "wfSearch n s =
     (wfObservation (lowerBound s) \<and> obsNonce (lowerBound s) \<le> n \<and>
      (case searchedThrough s of None \<Rightarrow> True
       | Some t \<Rightarrow> wfAnchor t \<and> blockNumber (anchor (lowerBound s)) < blockNumber t))"

definition wfSigned :: "JournalSignedTransaction \<Rightarrow> bool" where
  "wfSigned t = (fixedHex (transactionHash t) 32 \<and> signedBytes (signedTransaction t))"

definition wfInclusionAnchors :: "BlockAnchor \<Rightarrow> BlockAnchor \<Rightarrow> bool" where
  "wfInclusionAnchors i p =
     (wfAnchor i \<and> wfAnchor p \<and> blockNumber i \<le> blockNumber p \<and>
      (blockNumber i = blockNumber p \<longrightarrow> toLowerCase (blockHash i) = toLowerCase (blockHash p)))"

fun wfInclusion :: "int \<Rightarrow> JournalSignedTransaction list \<Rightarrow> JournalInclusionObservation \<Rightarrow> bool" where
  "wfInclusion n ts (RecordedInclusion i p r h) =
     (wfInclusionAnchors i p \<and> fixedHex h 32 \<and> containsHash ts h)"
| "wfInclusion n ts (ReplacedInclusion i p h k) =
     (wfInclusionAnchors i p \<and> fixedHex h 32 \<and> \<not> containsHash ts h \<and> uint256 k \<and> n < k)"

definition wfPhase :: "int \<Rightarrow> JournalSignedTransaction list \<Rightarrow> attempt_phase \<Rightarrow> bool" where
  "wfPhase n ts p = (case p of Included i \<Rightarrow> wfInclusion n ts i | _ \<Rightarrow> True)"

definition wfAttempt :: "JournalAttempt \<Rightarrow> bool" where
  "wfAttempt a =
     (uuidV4 (attemptId a) \<and> workId (attemptWorkId a) \<and> uint256 (attemptNonce a) \<and>
      isoTimestamp (createdAt a) \<and> signedTransactions a \<noteq> [] \<and>
      list_all wfSigned (signedTransactions a) \<and>
      (case replacementSearch a of None \<Rightarrow> True | Some s \<Rightarrow> wfSearch (attemptNonce a) s) \<and>
      wfPhase (attemptNonce a) (signedTransactions a) (phase a))"

definition wfRepair :: "JournalNonceRepair \<Rightarrow> bool" where
  "wfRepair r =
     (isoTimestamp (repairAt r) \<and> uint256 (previousNextNonce r) \<and> uint256 (repairNextNonce r) \<and>
      wfObservation (repairObservation r) \<and> previousNextNonce r < repairNextNonce r \<and>
      obsNonce (repairObservation r) = repairNextNonce r)"

text \<open>Repairs form a chain: each starts at or after the nonce where the one before it ended.\<close>

definition repairsOrdered :: "JournalNonceRepair list \<Rightarrow> bool" where
  "repairsOrdered rs =
     (\<forall>i. Suc i < length rs \<longrightarrow> repairNextNonce (rs ! i) \<le> previousNextNonce (rs ! Suc i))"

definition wfRepairs :: "int \<Rightarrow> JournalNonceRepair list \<Rightarrow> bool" where
  "wfRepairs durable rs =
     (length rs \<le> MAX_RETAINED_NONCE_REPAIRS \<and> list_all wfRepair rs \<and> repairsOrdered rs \<and>
      (rs = [] \<or> repairNextNonce (last rs) \<le> durable))"

text \<open>The lowercased hashes of all signed transactions, over all attempts.\<close>

definition lowerHashes :: "JournalSignedTransaction list \<Rightarrow> jstr list" where
  "lowerHashes ts = map (toLowerCase \<circ> transactionHash) ts"

definition allHashes :: "JournalAttempt list \<Rightarrow> jstr list" where
  "allHashes as = concat (map (lowerHashes \<circ> signedTransactions) as)"

text \<open>
  The attempts occupy the nonces from \<open>durable\<close> on without a gap, and no attempt identifier, work
  identity or transaction hash occurs twice.
\<close>

definition wfAttempts :: "int \<Rightarrow> JournalAttempt list \<Rightarrow> bool" where
  "wfAttempts durable as =
     (list_all wfAttempt as \<and>
      (\<forall>i < length as. attemptNonce (as ! i) = durable + int i) \<and>
      distinct (map (toLowerCase \<circ> attemptId) as) \<and> distinct (map attemptWorkId as) \<and>
      distinct (allHashes as))"

definition wfSnapshot :: "JournalIdentity \<Rightarrow> TransactionJournalSnapshot \<Rightarrow> bool" where
  "wfSnapshot expected s =
     (wfIdentity expected \<and> wfIdentity (identity s) \<and>
      chainId (identity s) = chainId expected \<and>
      toLowerCase (signer (identity s)) = toLowerCase (signer expected) \<and>
      wfObservation (baseline s) \<and> wfObservation (lastObservation s) \<and>
      uint256 (nextNonce s) \<and> uint256 (durableNextNonce s) \<and>
      obsNonce (baseline s) \<le> durableNextNonce s \<and> durableNextNonce s \<le> nextNonce s \<and>
      wfRepairs (durableNextNonce s) (repairs s) \<and>
      int (length (attempts s)) = nextNonce s - durableNextNonce s \<and>
      wfAttempts (durableNextNonce s) (attempts s))"

subsection \<open>Readers on embedded data\<close>

lemma field_obj [simp]:
  "field (obj kvs) name = (case map_of kvs name of Some v \<Rightarrow> Inr v | None \<Rightarrow> Inl INVALID_SNAPSHOT)"
  by (simp add: field_def obj_def)

lemma readUint_iff [readers]: "readUint v = Inr n \<longleftrightarrow> v = JBigint n \<and> uint256 n"
  by (cases v) (auto simp: readUint_def checkE_def uint256_def)

lemma readArray_arr: "readArray (arr vs) f = mapE f vs"
proof -
  have "mapE (\<lambda>p. case p of DataProp v \<Rightarrow> f v | NoData \<Rightarrow> Inl INVALID_SNAPSHOT) (map DataProp vs)
    = mapE f vs" by (induction vs) auto
  then show ?thesis by (simp add: readArray_def arr_def)
qed

lemma case_string_iff:
  "(case v of JString s \<Rightarrow> Q s | _ \<Rightarrow> False) \<longleftrightarrow> (\<exists>s. v = JString s \<and> Q s)"
  by (cases v) auto

lemma mapE_emb:
  assumes "\<And>x y. x \<in> set xs \<Longrightarrow> f (emb x) = Inr y \<longleftrightarrow> y = x \<and> P x"
  shows "mapE f (map emb xs) = Inr ys \<longleftrightarrow> ys = xs \<and> list_all P xs"
  using assms
proof (induction xs arbitrary: ys)
  case (Cons x xs)
  have "mapE f (map emb xs) = Inr ys' \<longleftrightarrow> ys' = xs \<and> list_all P xs" for ys'
    by (rule Cons.IH) (use Cons.prems in auto)
  then show ?case using Cons.prems [of x] by (auto simp: bindE_Inr)
qed auto

lemma mapE_all:
  assumes "\<And>v y. f v = Inr y \<Longrightarrow> P y" and "mapE f vs = Inr ys"
  shows "list_all P ys"
  using assms(2) by (induction vs arbitrary: ys) (auto simp: bindE_Inr dest: assms(1))

lemma readArray_all:
  assumes item: "\<And>v y. f v = Inr y \<Longrightarrow> P y" and read: "readArray v f = Inr ys"
  shows "list_all P ys"
proof -
  from read obtain ps where
    m: "mapE (\<lambda>p. case p of DataProp v \<Rightarrow> f v | NoData \<Rightarrow> Inl INVALID_SNAPSHOT) ps = Inr ys"
    by (auto simp: readArray_def split: jsval.splits)
  show ?thesis
    by (rule mapE_all [OF _ m]) (auto intro: item split: jprop.splits)
qed

lemma readIdentity_emb [readers]: "readIdentity (embIdentity i) = Inr j \<longleftrightarrow> j = i \<and> wfIdentity i"
  by (cases i) (auto simp: readIdentity_def embIdentity_def wfIdentity_def checkE_Inr)

lemma readAnchor_emb [readers]: "readAnchor (embAnchor a) = Inr b \<longleftrightarrow> b = a \<and> wfAnchor a"
  by (cases a) (auto simp: readAnchor_def embAnchor_def wfAnchor_def checkE_Inr bindE_Inr readUint_iff)

lemma readObservation_emb [readers]:
  "readObservation (embObservation p) = Inr q \<longleftrightarrow> q = p \<and> wfObservation p"
  by (cases p) (auto simp: readObservation_def embObservation_def wfObservation_def bindE_Inr
      readUint_iff readAnchor_emb)

lemma embNullable_null [simp]:
  "embNullable embAnchor x = JNull \<longleftrightarrow> x = None" "embNullable embSearch y = JNull \<longleftrightarrow> y = None"
  by (auto simp: embNullable_def embAnchor_def embSearch_def obj_def split: option.splits)

lemma embInclusion_not_null [simp]: "embInclusion i \<noteq> JNull"
  by (cases i) (simp_all add: obj_def)

lemma embNullable_Some [simp]: "embNullable f (Some x) = f x"
  by (simp add: embNullable_def)

lemma embNullable_None [simp]: "embNullable f None = JNull"
  by (simp add: embNullable_def)

lemma readReplacementSearch_emb [readers]:
  "readReplacementSearch (embSearch s) n = Inr t \<longleftrightarrow> t = s \<and> wfSearch n s"
proof (cases "searchedThrough s")
  case None
  then show ?thesis
    by (cases s) (auto simp: readReplacementSearch_def embSearch_def wfSearch_def bindE_Inr checkE_Inr
        readObservation_emb)
next
  case (Some a)
  have "embAnchor a \<noteq> JNull" by (simp add: embAnchor_def obj_def)
  with Some show ?thesis
    by (cases s) (auto simp: readReplacementSearch_def embSearch_def wfSearch_def bindE_Inr checkE_Inr
        readObservation_emb readAnchor_emb)
qed

lemma readSignedTransaction_emb [readers]:
  "readSignedTransaction (embSigned t) = Inr u \<longleftrightarrow> u = t \<and> wfSigned t"
  by (cases t) (auto simp: readSignedTransaction_def embSigned_def wfSigned_def checkE_Inr)

lemma readInclusion_emb [readers]:
  "readInclusion (embInclusion i) n ts = Inr j \<longleftrightarrow> j = i \<and> wfInclusion n ts i"
proof (cases i)
  case (RecordedInclusion a b r h)
  then show ?thesis
    by (cases r) (auto simp: readInclusion_def embOutcome_def bindE_Inr checkE_Inr readAnchor_emb
        wfInclusionAnchors_def)
next
  case (ReplacedInclusion a b h k)
  then show ?thesis
    by (auto simp: readInclusion_def bindE_Inr checkE_Inr readAnchor_emb readUint_iff
        wfInclusionAnchors_def)
qed

lemma readRepair_emb [readers]: "readRepair (embRepair r) = Inr q \<longleftrightarrow> q = r \<and> wfRepair r"
  by (cases r) (auto simp: readRepair_def embRepair_def wfRepair_def bindE_Inr checkE_Inr
      readObservation_emb readUint_iff)

lemma readNullableSearch_emb [readers]:
  "readNullableSearch (embNullable embSearch s) n = Inr t
   \<longleftrightarrow> t = s \<and> (case s of None \<Rightarrow> True | Some u \<Rightarrow> wfSearch n u)"
proof (cases s)
  case (Some u)
  moreover have "embSearch u \<noteq> JNull" by (simp add: embSearch_def obj_def)
  ultimately show ?thesis by (auto simp: readNullableSearch_def bindE_Inr readReplacementSearch_emb)
qed (auto simp: readNullableSearch_def)

lemma readPhase_emb [readers]:
  "readPhase (JString (phaseName q)) (embNullable embInclusion (phaseInclusion q)) n ts = Inr r
   \<longleftrightarrow> r = q \<and> wfPhase n ts q"
  by (cases q) (auto simp: readPhase_def phaseName_def phaseInclusion_def wfPhase_def bindE_Inr
      readInclusion_emb)

lemma readSignedTransactions_emb [readers]:
  "readArray (arr (map embSigned ts)) readSignedTransaction = Inr us
   \<longleftrightarrow> us = ts \<and> list_all wfSigned ts"
  unfolding readArray_arr by (rule mapE_emb) (simp add: readSignedTransaction_emb)

lemma readAttempt_emb [readers]: "readAttempt (embAttempt a) = Inr b \<longleftrightarrow> b = a \<and> wfAttempt a"
proof -
  have "readAttempt (embAttempt a) = Inr b \<longleftrightarrow>
     uint256 (attemptNonce a) \<and> uuidV4 (attemptId a) \<and> workId (attemptWorkId a) \<and>
     isoTimestamp (createdAt a) \<and> list_all wfSigned (signedTransactions a) \<and>
     signedTransactions a \<noteq> [] \<and>
     (case replacementSearch a of None \<Rightarrow> True | Some s \<Rightarrow> wfSearch (attemptNonce a) s) \<and>
     wfPhase (attemptNonce a) (signedTransactions a) (phase a) \<and> a = b"
    by (simp add: readAttempt_def embAttempt_def bindE_Inr checkE_Inr readUint_iff
        readSignedTransactions_emb readNullableSearch_emb readPhase_emb conj_assoc) (cases a, simp)
  then show ?thesis by (auto simp: wfAttempt_def)
qed

lemma readRepairs_arr:
  "readRepairs (arr vs) =
     (if length vs \<le> MAX_RETAINED_NONCE_REPAIRS then
        (case readArray (arr vs) readRepair of Inl _ \<Rightarrow> Inl INVALID_REPAIRS | Inr rs \<Rightarrow> Inr rs)
      else Inl INVALID_REPAIRS)"
  by (simp add: readRepairs_def arr_def)

lemma readRepairList_emb:
  "readArray (arr (map embRepair rs)) readRepair = Inr ys \<longleftrightarrow> ys = rs \<and> list_all wfRepair rs"
  unfolding readArray_arr by (rule mapE_emb) (simp add: readRepair_emb)

lemma readRepairs_emb [readers]:
  "readRepairs (arr (map embRepair rs)) = Inr qs \<longleftrightarrow>
     qs = rs \<and> length rs \<le> MAX_RETAINED_NONCE_REPAIRS \<and> list_all wfRepair rs"
proof (cases "readArray (arr (map embRepair rs)) readRepair")
  case (Inl e)
  then have "\<not> list_all wfRepair rs"
    using readRepairList_emb [of rs rs] by auto
  with Inl show ?thesis by (simp add: readRepairs_arr)
next
  case (Inr ys)
  then have "ys = rs" "list_all wfRepair rs" by (simp_all add: readRepairList_emb)
  with Inr show ?thesis by (auto simp: readRepairs_arr)
qed

subsection \<open>Readers on unknown values\<close>

lemma readIdentity_wf: "readIdentity v = Inr i \<Longrightarrow> wfIdentity i"
  by (auto simp: readIdentity_def bindE_Inr checkE_Inr wfIdentity_def isPositiveSafeInteger_iff
      isFixedHex_iff)

lemma readAnchor_wf: "readAnchor v = Inr a \<Longrightarrow> wfAnchor a"
  by (auto simp: readAnchor_def bindE_Inr checkE_Inr wfAnchor_def isFixedHex_iff readUint_iff)

lemma readObservation_wf: "readObservation v = Inr p \<Longrightarrow> wfObservation p"
  by (auto simp: readObservation_def bindE_Inr wfObservation_def readUint_iff dest: readAnchor_wf)

lemma readReplacementSearch_wf: "readReplacementSearch v n = Inr s \<Longrightarrow> wfSearch n s"
  by (auto simp: readReplacementSearch_def bindE_Inr checkE_Inr wfSearch_def split: if_splits
      dest: readAnchor_wf readObservation_wf)

lemma readSignedTransaction_wf: "readSignedTransaction v = Inr t \<Longrightarrow> wfSigned t"
  by (auto simp: readSignedTransaction_def bindE_Inr checkE_Inr wfSigned_def isFixedHex_iff
      case_string_iff)

lemma readInclusion_wf: "readInclusion v n ts = Inr i \<Longrightarrow> wfInclusion n ts i"
  by (auto simp: readInclusion_def bindE_Inr checkE_Inr wfInclusionAnchors_def isFixedHex_iff
      readUint_iff split: if_splits dest: readAnchor_wf)

lemma readRepair_wf: "readRepair v = Inr r \<Longrightarrow> wfRepair r"
  by (auto simp: readRepair_def bindE_Inr checkE_Inr wfRepair_def readUint_iff
      case_string_iff dest: readObservation_wf)

lemma readNullableSearch_wf:
  "readNullableSearch v n = Inr s \<Longrightarrow> (case s of None \<Rightarrow> True | Some u \<Rightarrow> wfSearch n u)"
  by (auto simp: readNullableSearch_def bindE_Inr split: if_splits dest: readReplacementSearch_wf)

lemma readPhase_wf: "readPhase v w n ts = Inr p \<Longrightarrow> wfPhase n ts p"
  by (auto simp: readPhase_def wfPhase_def bindE_Inr checkE_Inr split: if_splits
      dest: readInclusion_wf)

lemma readAttempt_wf: "readAttempt v = Inr a \<Longrightarrow> wfAttempt a"
  by (clarsimp simp: readAttempt_def bindE_Inr checkE_Inr isUuidV4_iff isWorkId_iff readUint_iff
      wfAttempt_def case_string_iff readNullableSearch_wf readPhase_wf
      readArray_all [where P = wfSigned, OF readSignedTransaction_wf])

lemma readArray_length:
  assumes "readArray (JArray ps) f = Inr ys"
  shows "length ys = length ps"
  using assms by (auto simp: readArray_def mapE_Inr_iff dest: list_all2_lengthD)

lemma readRepairs_wf:
  "readRepairs v = Inr rs \<Longrightarrow> length rs \<le> MAX_RETAINED_NONCE_REPAIRS \<and> list_all wfRepair rs"
  by (cases v) (auto simp: readRepairs_def checkE_Inr readArray_length split: sum.splits
      intro: readArray_all [where P = wfRepair, OF readRepair_wf])

subsection \<open>The loops\<close>

lemma checkRepairOrder_iff: "checkRepairOrder rs = Inr () \<longleftrightarrow> repairsOrdered rs"
proof (induction rs rule: checkRepairOrder.induct)
  case (1 r q rs)
  have "repairsOrdered (r # q # rs) \<longleftrightarrow>
    repairNextNonce r \<le> previousNextNonce q \<and> repairsOrdered (q # rs)"
    by (auto simp: repairsOrdered_def nth_Cons split: nat.splits)
  with 1 show ?case by (auto simp: checkE_Inr)
qed (auto simp: repairsOrdered_def)

lemma checkHashes_iff:
  "checkHashes seen ts = Inr seen' \<longleftrightarrow>
     seen' = seen \<union> set (lowerHashes ts) \<and> distinct (lowerHashes ts) \<and>
     seen \<inter> set (lowerHashes ts) = {}"
  by (induction ts arbitrary: seen) (auto simp: checkE_Inr lowerHashes_def)

lemma checkAttempts_iff:
  "checkAttempts n ids works hashes as = Inr () \<longleftrightarrow>
     (\<forall>i < length as. attemptNonce (as ! i) = n + int i) \<and>
     distinct (map (toLowerCase \<circ> attemptId) as) \<and> ids \<inter> (toLowerCase \<circ> attemptId) ` set as = {} \<and>
     distinct (map attemptWorkId as) \<and> works \<inter> attemptWorkId ` set as = {} \<and>
     distinct (allHashes as) \<and> hashes \<inter> set (allHashes as) = {}"
proof (induction as arbitrary: n ids works hashes)
  case Nil
  then show ?case by (simp add: allHashes_def)
next
  case (Cons a as)
  have nonces: "(\<forall>i < length (a # as). attemptNonce ((a # as) ! i) = n + int i) \<longleftrightarrow>
    attemptNonce a = n \<and> (\<forall>i < length as. attemptNonce (as ! i) = n + 1 + int i)"
    by (auto simp: less_Suc_eq_0_disj)
  have hs: "allHashes (a # as) = lowerHashes (signedTransactions a) @ allHashes as"
    by (simp add: allHashes_def)
  show ?case
    unfolding nonces hs by (auto simp: checkE_Inr bindE_Inr checkHashes_iff Cons.IH)
qed

subsection \<open>The validator\<close>

lemma validate_wf:
  assumes "validateJournalSnapshotStructure v expected = Inr s"
  shows "wfSnapshot expected s"
  using assms
  apply (clarsimp simp: validateJournalSnapshotStructure_def bindE_Inr checkE_Inr readIdentity_emb
      readUint_iff checkRepairOrder_iff checkAttempts_iff)
  apply (drule readIdentity_wf readObservation_wf readRepairs_wf)+
  apply (simp add: wfSnapshot_def wfRepairs_def wfAttempts_def
      readArray_all [where P = wfAttempt, OF readAttempt_wf])
  done

lemma readAttempts_emb [readers]:
  "readArray (arr (map embAttempt as)) readAttempt = Inr bs \<longleftrightarrow> bs = as \<and> list_all wfAttempt as"
  unfolding readArray_arr by (rule mapE_emb) (simp add: readAttempt_emb)

lemma wf_validate:
  assumes "wfSnapshot expected s"
  shows "validateSnapshot s expected = Inr s"
proof -
  note wf = assms [unfolded wfSnapshot_def wfRepairs_def wfAttempts_def]
  have "readIdentity (embIdentity expected) = Inr expected"
    "readIdentity (embIdentity (identity s)) = Inr (identity s)"
    "readObservation (embObservation (baseline s)) = Inr (baseline s)"
    "readObservation (embObservation (lastObservation s)) = Inr (lastObservation s)"
    "readUint (JBigint (nextNonce s)) = Inr (nextNonce s)"
    "readUint (JBigint (durableNextNonce s)) = Inr (durableNextNonce s)"
    "readRepairs (arr (map embRepair (repairs s))) = Inr (repairs s)"
    "checkRepairOrder (repairs s) = Inr ()"
    "readArray (arr (map embAttempt (attempts s))) readAttempt = Inr (attempts s)"
    "checkAttempts (durableNextNonce s) {} {} {} (attempts s) = Inr ()"
    using wf by (simp_all add: readers checkRepairOrder_iff checkAttempts_iff)
  with wf show ?thesis
    by (simp add: validateSnapshot_def validateJournalSnapshotStructure_def embSnapshot_def)
qed

lemma validate_emb_same:
  assumes "validateSnapshot s expected = Inr t"
  shows "t = s"
  using assms
  by (clarsimp simp: validateSnapshot_def validateJournalSnapshotStructure_def embSnapshot_def
      bindE_Inr checkE_Inr readers)

lemma validate_emb: "validateSnapshot s expected = Inr t \<longleftrightarrow> t = s \<and> wfSnapshot expected s"
  using validate_emb_same wf_validate validate_wf by (metis validateSnapshot_def)

end
