(* ===== verification/JournalVerify.thy ===== *)
theory JournalVerify
  imports JournalProofs
begin

text \<open>
  \<^verbatim>\<open>state/transaction-journal-verification.ts\<close>: the signed transactions of a journal belong to its
  signer, chain and nonce, hash to the recorded hash, and the fee replacements of one attempt all
  carry the call of the first. The cryptography and the RLP codec are viem's: a record of functions,
  the argument \<open>V\<close> of every definition that uses them.
\<close>

subsection \<open>What viem provides\<close>

text \<open>
  A parsed transaction: the fields the source reads or overwrites, as unknown values, and the rest
  of the call (recipient, value, data, gas limit, access list), which it only passes on.
\<close>

record ParsedTransaction =
  txType :: jstr
  txChainId :: jsval
  txNonce :: jsval
  txGasPrice :: jsval
  txMaxFeePerGas :: jsval
  txMaxPriorityFeePerGas :: jsval
  txR :: jsval
  txS :: jsval
  txV :: jsval
  txYParity :: jsval
  txCall :: jsval

record TransactionSignature =
  sigR :: jsval
  sigS :: jsval
  sigV :: jsval
  sigYParity :: jsval

record viem =
  keccak256 :: "jstr \<Rightarrow> exn + jstr"
  parseTransaction :: "jstr \<Rightarrow> exn + ParsedTransaction"
  serializeTransaction :: "ParsedTransaction \<Rightarrow> TransactionSignature option \<Rightarrow> exn + jstr"
  recoverTransactionAddress :: "jstr \<Rightarrow> exn + jstr"

subsection \<open>\<^verbatim>\<open>BigInt\<close> on an unknown value\<close>

definition hexDigitValue :: "16 word \<Rightarrow> int" where
  "hexDigitValue c =
     (if c \<le> 57 then uint c - 48 else if c \<le> 70 then uint c - 55 else uint c - 87)"

text \<open>Of the literals \<^verbatim>\<open>BigInt\<close> takes, the hexadecimal and decimal ones; others are rejected here.\<close>

definition bigIntOf :: "jsval \<Rightarrow> exn + int" where
  "bigIntOf v =
     (case v of
        JBigint n \<Rightarrow> Inr n
      | JNum q \<Rightarrow> checkE (isIntegral q) (RangeError ''BigInt'') (\<lambda>_. Inr \<lfloor>q\<rfloor>)
      | JBool b \<Rightarrow> Inr (if b then 1 else 0)
      | JString s \<Rightarrow>
          (if take 2 s = js ''0x'' \<and> 2 < length s \<and> list_all isHexUnit (drop 2 s) then
             Inr (foldl (\<lambda>a c. a * 16 + hexDigitValue c) 0 (drop 2 s))
           else if s = [] then Inr 0
           else if isDecimalInteger s then Inr (parseBigint s)
           else Inl (PlainError ''SyntaxError''))
      | _ \<Rightarrow> Inl (TypeError ''BigInt''))"

subsection \<open>Verification\<close>

definition SECP256K1_ORDER :: int where
  "SECP256K1_ORDER = 0xfffffffffffffffffffffffffffffffebaaedce6af48a03bbfd25e8cd0364141"

abbreviation INVALID_SIGNED :: exn where
  "INVALID_SIGNED \<equiv> TypeError ''Invalid journal signed transaction.''"

abbreviation requireSigned :: "bool \<Rightarrow> (unit \<Rightarrow> exn + 'a) \<Rightarrow> exn + 'a" where
  "requireSigned b k \<equiv> checkE b INVALID_SIGNED k"

definition dropSignature :: "ParsedTransaction \<Rightarrow> ParsedTransaction" where
  "dropSignature t =
     t\<lparr>txR := JUndefined, txS := JUndefined, txV := JUndefined, txYParity := JUndefined\<rparr>"

text \<open>The transaction with only the fee and signature differences of a replacement removed.\<close>

definition transactionIntent :: "viem \<Rightarrow> ParsedTransaction \<Rightarrow> exn + jstr" where
  "transactionIntent V t =
     (if txType t = js ''legacy'' \<or> txType t = js ''eip2930'' then
        bindE (serializeTransaction V (dropSignature t\<lparr>txGasPrice := JBigint 0\<rparr>) None)
          (\<lambda>s. Inr (toLowerCase s))
      else if txType t = js ''eip1559'' then
        bindE (serializeTransaction V
                 (dropSignature t\<lparr>txMaxFeePerGas := JBigint 0, txMaxPriorityFeePerGas := JBigint 0\<rparr>)
                 None)
          (\<lambda>s. Inr (toLowerCase s))
      else Inl INVALID_SIGNED)"

definition verifySignedTransaction ::
  "viem \<Rightarrow> JournalIdentity \<Rightarrow> int \<Rightarrow> JournalSignedTransaction \<Rightarrow> exn + jstr" where
  "verifySignedTransaction V ident n tx =
     bindE (keccak256 V (signedTransaction tx)) (\<lambda>h.
     requireSigned (toLowerCase h = toLowerCase (transactionHash tx)) (\<lambda>_.
     bindE (parseTransaction V (signedTransaction tx)) (\<lambda>t.
     requireSigned (txType t \<in> {js ''legacy'', js ''eip2930'', js ''eip1559''}) (\<lambda>_.
     requireSigned (txChainId t = JNum (of_int (chainId ident))) (\<lambda>_.
     requireSigned (isNonNegativeSafeInteger (txNonce t)) (\<lambda>_.
     requireSigned (numInt (txNonce t) = n) (\<lambda>_.
     requireSigned (txR t \<noteq> JUndefined \<and> txS t \<noteq> JUndefined) (\<lambda>_.
     bindE (bigIntOf (txR t)) (\<lambda>r.
     bindE (bigIntOf (txS t)) (\<lambda>s.
     requireSigned (0 < r \<and> r < SECP256K1_ORDER \<and> 0 < s \<and> s \<le> SECP256K1_ORDER div 2) (\<lambda>_.
     requireSigned (txYParity t = JNum 0 \<or> txYParity t = JNum 1) (\<lambda>_.
     bindE (serializeTransaction V t
              (Some \<lparr>sigR = txR t, sigS = txS t, sigV = txV t, sigYParity = txYParity t\<rparr>)) (\<lambda>bytes.
     requireSigned (toLowerCase bytes = toLowerCase (signedTransaction tx)) (\<lambda>_.
     bindE (recoverTransactionAddress V bytes) (\<lambda>who.
     requireSigned (toLowerCase who = toLowerCase (signer ident)) (\<lambda>_.
     transactionIntent V t))))))))))))))))"

text \<open>The loop over one attempt's transactions: the hashes seen and the intent of the first.\<close>

fun verifyTransactions ::
  "viem \<Rightarrow> JournalIdentity \<Rightarrow> int \<Rightarrow> jstr set \<Rightarrow> jstr option \<Rightarrow> JournalSignedTransaction list \<Rightarrow>
   exn + unit" where
  "verifyTransactions V ident n seen original [] = Inr ()"
| "verifyTransactions V ident n seen original (t # ts) =
     requireSigned (toLowerCase (transactionHash t) \<notin> seen) (\<lambda>_.
     bindE (verifySignedTransaction V ident n t) (\<lambda>intent.
     requireSigned (case original of None \<Rightarrow> True | Some i \<Rightarrow> intent = i) (\<lambda>_.
     verifyTransactions V ident n (insert (toLowerCase (transactionHash t)) seen)
       (Some (case original of None \<Rightarrow> intent | Some i \<Rightarrow> i)) ts)))"

definition verifyJournalAttempt ::
  "viem \<Rightarrow> JournalIdentity \<Rightarrow> int \<Rightarrow> JournalSignedTransaction list \<Rightarrow> exn + unit" where
  "verifyJournalAttempt V ident n ts =
     (case requireSigned (ts \<noteq> []) (\<lambda>_. verifyTransactions V ident n {} None ts) of
        Inl _ \<Rightarrow> Inl INVALID_SIGNED
      | Inr u \<Rightarrow> Inr u)"

fun verifyAttempts :: "viem \<Rightarrow> JournalIdentity \<Rightarrow> JournalAttempt list \<Rightarrow> exn + unit" where
  "verifyAttempts V ident [] = Inr ()"
| "verifyAttempts V ident (a # as) =
     bindE (verifyJournalAttempt V ident (attemptNonce a) (signedTransactions a)) (\<lambda>_.
       verifyAttempts V ident as)"

definition verifyJournalSnapshot ::
  "viem \<Rightarrow> jsval \<Rightarrow> JournalIdentity \<Rightarrow> exn + TransactionJournalSnapshot" where
  "verifyJournalSnapshot V input expected =
     bindE (validateJournalSnapshotStructure input expected) (\<lambda>s.
     bindE (verifyAttempts V (identity s) (attempts s)) (\<lambda>_. Inr s))"

subsection \<open>What a verified transaction is\<close>

text \<open>The bytes hash to the recorded hash, were signed by the signer, and carry the nonce.\<close>

definition authentic ::
  "viem \<Rightarrow> JournalIdentity \<Rightarrow> int \<Rightarrow> JournalSignedTransaction \<Rightarrow> jstr \<Rightarrow> bool" where
  "authentic V ident n tx intent =
     (\<exists>h t bytes who.
        keccak256 V (signedTransaction tx) = Inr h \<and>
        toLowerCase h = toLowerCase (transactionHash tx) \<and>
        parseTransaction V (signedTransaction tx) = Inr t \<and>
        txChainId t = JNum (of_int (chainId ident)) \<and> txNonce t = JNum (of_int n) \<and>
        0 \<le> n \<and> n \<le> MAX_SAFE_INTEGER \<and>
        serializeTransaction V t
          (Some \<lparr>sigR = txR t, sigS = txS t, sigV = txV t, sigYParity = txYParity t\<rparr>) = Inr bytes \<and>
        toLowerCase bytes = toLowerCase (signedTransaction tx) \<and>
        recoverTransactionAddress V bytes = Inr who \<and>
        toLowerCase who = toLowerCase (signer ident) \<and>
        transactionIntent V t = Inr intent)"

definition authenticAttempt :: "viem \<Rightarrow> JournalIdentity \<Rightarrow> JournalAttempt \<Rightarrow> bool" where
  "authenticAttempt V ident a =
     (\<exists>intent. \<forall>t \<in> set (signedTransactions a). authentic V ident (attemptNonce a) t intent)"

lemma verifySignedTransaction_authentic:
  assumes "verifySignedTransaction V ident n t = Inr intent"
  shows "authentic V ident n t intent"
  using assms unfolding verifySignedTransaction_def authentic_def
  by (clarsimp simp: bindE_Inr checkE_Inr isNonNegativeSafeInteger_iff)

lemma verifyTransactions_authentic:
  assumes "verifyTransactions V ident n seen original ts = Inr u"
  shows "distinct (lowerHashes ts) \<and> seen \<inter> set (lowerHashes ts) = {} \<and>
    (\<exists>intent. (\<forall>i. original = Some i \<longrightarrow> intent = i) \<and>
       (\<forall>t \<in> set ts. authentic V ident n t intent))"
  using assms
proof (induction V ident n seen original ts rule: verifyTransactions.induct)
  case (1 V ident n seen original)
  then show ?case by (cases original) (auto simp: lowerHashes_def)
next
  case (2 V ident n seen original t ts)
  from "2.prems" obtain intent where
    fresh: "toLowerCase (transactionHash t) \<notin> seen" and
    v: "verifySignedTransaction V ident n t = Inr intent" and
    same: "\<And>i. original = Some i \<Longrightarrow> intent = i" and
    rest: "verifyTransactions V ident n (insert (toLowerCase (transactionHash t)) seen)
      (Some (case original of None \<Rightarrow> intent | Some i \<Rightarrow> i)) ts = Inr u"
    by (auto simp: bindE_Inr checkE_Inr split: option.splits)
  have first: "(case original of None \<Rightarrow> intent | Some i \<Rightarrow> i) = intent"
    using same by (auto split: option.split)
  have "distinct (lowerHashes ts) \<and>
     insert (toLowerCase (transactionHash t)) seen \<inter> set (lowerHashes ts) = {} \<and>
     (\<forall>s \<in> set ts. authentic V ident n s intent)"
    using "2.IH" [OF rest] first by auto
  then show ?case
    using fresh verifySignedTransaction_authentic [OF v] same by (auto simp: lowerHashes_def)
qed

lemma verifyAttempts_authentic:
  assumes "verifyAttempts V ident as = Inr u"
  shows "\<forall>a \<in> set as. authenticAttempt V ident a"
  using assms
proof (induction as)
  case (Cons a as)
  then have "verifyTransactions V ident (attemptNonce a) {} None (signedTransactions a) = Inr ()"
    by (auto simp: bindE_Inr verifyJournalAttempt_def checkE_def split: if_splits sum.splits)
  with Cons show ?case
    using verifyTransactions_authentic [of V ident "attemptNonce a" "{}" None "signedTransactions a"]
    by (auto simp: authenticAttempt_def bindE_Inr)
qed simp

lemma verifyJournalSnapshot_sound:
  assumes "verifyJournalSnapshot V v expected = Inr s"
  shows "wfSnapshot expected s \<and> (\<forall>a \<in> set (attempts s). authenticAttempt V (identity s) a)"
  using assms validate_wf verifyAttempts_authentic
  by (fastforce simp: verifyJournalSnapshot_def bindE_Inr)

lemma verifyJournalSnapshot_emb:
  assumes "verifyJournalSnapshot V (embSnapshot s) expected = Inr t"
  shows "t = s"
  using assms validate_emb_same by (auto simp: verifyJournalSnapshot_def bindE_Inr validateSnapshot_def)

text \<open>A snapshot without attempts has no signed bytes to verify.\<close>

lemma verify_no_attempts:
  "attempts s = [] \<Longrightarrow> wfSnapshot expected s \<Longrightarrow> verifyJournalSnapshot V (embSnapshot s) expected = Inr s"
  using wf_validate by (simp add: verifyJournalSnapshot_def validateSnapshot_def)

end
