(* ===== verification/JournalBounds.thy ===== *)
theory JournalBounds
  imports JournalProofs
begin

text \<open>
  The journal's identity and file name (\<^verbatim>\<open>state/journal-identity.ts\<close>) and its operation bounds
  (\<^verbatim>\<open>state/journal-bounds.ts\<close>, \<^verbatim>\<open>state/journal-bounds-error.ts\<close>).
\<close>

subsection \<open>\<^verbatim>\<open>journal-identity.ts\<close>\<close>

text \<open>The two fields come as unknown values: the static type is not enforced at run time.\<close>

definition captureJournalIdentity :: "jsval \<Rightarrow> jsval \<Rightarrow> exn + JournalIdentity" where
  "captureJournalIdentity c s =
     checkE (isPositiveSafeInteger c \<and> isFixedHex s 20) (TypeError ''Invalid journal identity.'')
       (\<lambda>_. Inr \<lparr>chainId = numInt c, signer = stringOf s\<rparr>)"

definition journalFilename :: "JournalIdentity \<Rightarrow> jstr" where
  "journalFilename i =
     js ''transaction-journal-'' @ showBigint (chainId i) @ js ''-'' @ toLowerCase (signer i) @
     js ''.json''"

lemma captureJournalIdentity_wf: "captureJournalIdentity c s = Inr i \<Longrightarrow> wfIdentity i"
  by (auto simp: captureJournalIdentity_def checkE_Inr wfIdentity_def isPositiveSafeInteger_iff
      isFixedHex_iff)

lemma digits_prefix:
  assumes "list_all isDigitUnit a" "list_all isDigitUnit b" "\<not> isDigitUnit c" "\<not> isDigitUnit d"
    and "a @ c # x = b @ d # y"
  shows "a = b \<and> c # x = d # y"
  using assms
proof (induction a arbitrary: b)
  case Nil
  then show ?case by (cases b) auto
next
  case (Cons u a)
  then show ?case by (cases b) auto
qed

lemma js_append: "js (a @ b) = js a @ js b"
  by (simp add: js_def)

lemma js_hyphen: "js ''-'' = [45]"
  by (simp add: js_def)

lemma journalFilename_eq_iff:
  assumes "wfIdentity i" "wfIdentity j"
  shows "journalFilename i = journalFilename j \<longleftrightarrow>
    chainId i = chainId j \<and> toLowerCase (signer i) = toLowerCase (signer j)"
proof
  assume "journalFilename i = journalFilename j"
  then have eq: "showBigint (chainId i) @ 45 # toLowerCase (signer i) @ js ''.json'' =
    showBigint (chainId j) @ 45 # toLowerCase (signer j) @ js ''.json''"
    by (simp add: journalFilename_def js_hyphen)
  have dig: "list_all isDigitUnit (showBigint (chainId k))" if "wfIdentity k" for k
    using that isDecimalInteger_showBigint [of "chainId k"]
    by (simp add: wfIdentity_def isDecimalInteger_def)
  have "\<not> isDigitUnit 45" by (simp add: isDigitUnit_def)
  with eq assms have "showBigint (chainId i) = showBigint (chainId j) \<and>
    45 # toLowerCase (signer i) @ js ''.json'' = 45 # toLowerCase (signer j) @ js ''.json''"
    by (intro digits_prefix) (auto intro: dig)
  with assms show "chainId i = chainId j \<and> toLowerCase (signer i) = toLowerCase (signer j)"
    by (simp add: wfIdentity_def showBigint_inj)
qed (simp add: journalFilename_def)

subsection \<open>\<^verbatim>\<open>journal-bounds.ts\<close>\<close>

definition MAX_RETAINED_ATTEMPTS :: int where
  "MAX_RETAINED_ATTEMPTS = 16"

definition MAX_SIGNED_TRANSACTIONS_PER_ATTEMPT :: int where
  "MAX_SIGNED_TRANSACTIONS_PER_ATTEMPT = 16"

text \<open>The bounds are numbers the caller configures: they are validated before use.\<close>

record JournalBounds =
  maxRetainedAttempts :: jsval
  maxSignedTransactionsPerAttempt :: jsval

definition DEFAULT_JOURNAL_BOUNDS :: JournalBounds where
  "DEFAULT_JOURNAL_BOUNDS =
     \<lparr>maxRetainedAttempts = JNum (of_int MAX_RETAINED_ATTEMPTS),
      maxSignedTransactionsPerAttempt = JNum (of_int MAX_SIGNED_TRANSACTIONS_PER_ATTEMPT)\<rparr>"

datatype journal_bound = RetainedAttempts | SignedTransactionsPerAttempt

record JournalBoundViolation =
  violatedBound :: journal_bound
  violationMaximum :: int
  violationObserved :: int
  violationAttemptId :: "jstr option"
  violationMessage :: jstr

definition boundInRange :: "jsval \<Rightarrow> int \<Rightarrow> bool" where
  "boundInRange v m = (isPositiveSafeInteger v \<and> numInt v \<le> m)"

definition validateJournalBounds :: "JournalBounds \<Rightarrow> exn + unit" where
  "validateJournalBounds b =
     checkE (boundInRange (maxRetainedAttempts b) MAX_RETAINED_ATTEMPTS)
       (TypeError ''Invalid retained-attempt bound.'') (\<lambda>_.
     checkE (boundInRange (maxSignedTransactionsPerAttempt b) MAX_SIGNED_TRANSACTIONS_PER_ATTEMPT)
       (TypeError ''Invalid signed-transaction bound.'') (\<lambda>_. Inr ()))"

definition retainedViolation :: "int \<Rightarrow> int \<Rightarrow> JournalBoundViolation" where
  "retainedViolation m n =
     \<lparr>violatedBound = RetainedAttempts, violationMaximum = m, violationObserved = n,
      violationAttemptId = None,
      violationMessage =
        js ''Journal retained-attempt count exceeds its limit: observed '' @ showBigint n @
        js '', maximum '' @ showBigint m @ js ''.''\<rparr>"

definition signedViolation :: "int \<Rightarrow> JournalAttempt \<Rightarrow> JournalBoundViolation" where
  "signedViolation m a =
     (let n = int (length (signedTransactions a)) in
      \<lparr>violatedBound = SignedTransactionsPerAttempt, violationMaximum = m, violationObserved = n,
       violationAttemptId = Some (attemptId a),
       violationMessage =
         js ''Journal signed-transaction count exceeds its per-attempt limit: attempt '' @
         attemptId a @ js '', observed '' @ showBigint n @ js '', maximum '' @ showBigint m @
         js ''.''\<rparr>)"

definition inspectJournalBounds ::
  "TransactionJournalSnapshot \<Rightarrow> JournalBounds \<Rightarrow> exn + JournalBoundViolation list" where
  "inspectJournalBounds s b =
     bindE (validateJournalBounds b) (\<lambda>_.
       let m = numInt (maxRetainedAttempts b);
           k = numInt (maxSignedTransactionsPerAttempt b);
           n = int (length (attempts s))
       in Inr ((if m < n then [retainedViolation m n] else []) @
               map (signedViolation k)
                 (filter (\<lambda>a. k < int (length (signedTransactions a))) (attempts s))))"

text \<open>The constructor of \<^verbatim>\<open>JournalBoundsExceededError\<close>: the messages, joined by spaces.\<close>

fun joinSpaces :: "jstr list \<Rightarrow> jstr" where
  "joinSpaces [] = []"
| "joinSpaces [m] = m"
| "joinSpaces (m # ms) = m @ js '' '' @ joinSpaces ms"

definition boundsExceededError :: "JournalBoundViolation list \<Rightarrow> exn" where
  "boundsExceededError vs =
     (if vs = [] then TypeError ''Expected at least one journal bound violation.''
      else JournalBoundsExceededError (joinSpaces (map violationMessage vs)))"

definition withinBounds :: "TransactionJournalSnapshot \<Rightarrow> JournalBounds \<Rightarrow> bool" where
  "withinBounds s b =
     (int (length (attempts s)) \<le> numInt (maxRetainedAttempts b) \<and>
      (\<forall>a \<in> set (attempts s).
         int (length (signedTransactions a)) \<le> numInt (maxSignedTransactionsPerAttempt b)))"

lemma inspectJournalBounds_empty:
  "inspectJournalBounds s b = Inr [] \<longleftrightarrow> validateJournalBounds b = Inr () \<and> withinBounds s b"
  by (auto simp: inspectJournalBounds_def bindE_Inr withinBounds_def Let_def filter_empty_conv
      not_less split: if_splits)

lemma inspectJournalBounds_exact:
  assumes "inspectJournalBounds s b = Inr vs" "v \<in> set vs"
  shows "violationMaximum v < violationObserved v \<and>
    (case violationAttemptId v of
       None \<Rightarrow> violatedBound v = RetainedAttempts \<and>
               violationObserved v = int (length (attempts s))
     | Some i \<Rightarrow> violatedBound v = SignedTransactionsPerAttempt \<and>
         (\<exists>a \<in> set (attempts s). attemptId a = i \<and>
            violationObserved v = int (length (signedTransactions a))))"
  using assms
  by (auto simp: inspectJournalBounds_def bindE_Inr Let_def retainedViolation_def
      signedViolation_def split: if_splits intro!: bexI)

lemma validateJournalBounds_default: "validateJournalBounds DEFAULT_JOURNAL_BOUNDS = Inr ()"
  by (simp add: validateJournalBounds_def boundInRange_def DEFAULT_JOURNAL_BOUNDS_def
      MAX_RETAINED_ATTEMPTS_def MAX_SIGNED_TRANSACTIONS_PER_ATTEMPT_def isPositiveSafeInteger_def
      safeInteger_def isIntegral_def MAX_SAFE_INTEGER_def numInt_def)

end
