(* ===== verification/Persistence.thy ===== *)
theory Persistence
  imports JournalVerify JournalBounds
begin

text \<open>
  \<^verbatim>\<open>state/journal-persistence.ts\<close>: the committed snapshot, and the latch that keeps the exact
  snapshot of a failed write until a retry of it succeeds. The store is the interface
  \<^verbatim>\<open>TransactionJournalStore\<close>: a record of computations on the world.
\<close>

record 'w journal_store =
  loadJournal :: "('w, TransactionJournalRead) io"
  saveJournal :: "TransactionJournalSnapshot \<Rightarrow> ('w, unit) io"

datatype persistence_state = Idle | Writing | Failed

record JournalPersistence =
  stateValue :: persistence_state
  currentValue :: TransactionJournalRead
  pendingSnapshot :: "TransactionJournalSnapshot option"
  persistenceIdentity :: JournalIdentity

abbreviation WRITE_NOT_COMPLETE :: exn where
  "WRITE_NOT_COMPLETE \<equiv>
     PlainError ''Journal persistence did not complete.The pending snapshot must be retried.''"

abbreviation NO_FAILED_WRITE :: exn where
  "NO_FAILED_WRITE \<equiv> PlainError ''No failed journal write is available to retry.''"

text \<open>\<^verbatim>\<open>JournalPersistence.create\<close>: the initial journal is verified before it is adopted.\<close>

definition createPersistence ::
  "viem \<Rightarrow> JournalIdentity \<Rightarrow> TransactionJournalRead \<Rightarrow> exn + JournalPersistence" where
  "createPersistence V ident initial =
     bindE (captureJournalIdentity (JNum (of_int (chainId ident))) (JString (signer ident))) (\<lambda>i.
     bindE (case initial of
              Missing \<Rightarrow> Inr Missing
            | Present s \<Rightarrow> bindE (verifyJournalSnapshot V (embSnapshot s) i) (\<lambda>t. Inr (Present t)))
       (\<lambda>current.
          Inr \<lparr>stateValue = Idle, currentValue = current, pendingSnapshot = None,
               persistenceIdentity = i\<rparr>))"

definition failedWriteAttemptIdentity ::
  "JournalPersistence \<Rightarrow> jstr \<Rightarrow> (jstr \<times> jstr) option" where
  "failedWriteAttemptIdentity p w =
     (if stateValue p \<noteq> Failed then None
      else case pendingSnapshot p of
             None \<Rightarrow> None
           | Some s \<Rightarrow> map_option (\<lambda>a. (attemptWorkId a, attemptId a))
                         (find (\<lambda>a. attemptWorkId a = w) (attempts s)))"

definition persistPending ::
  "'w journal_store \<Rightarrow> TransactionJournalSnapshot \<Rightarrow> (JournalPersistence \<times> 'w, unit) io" where
  "persistPending S s =
     andThen (tryCatch (onWorld (saveJournal S s))
       (\<lambda>_. andThen (modifyState (\<lambda>(p, w). (p\<lparr>stateValue := Failed\<rparr>, w)))
              (\<lambda>_. throw WRITE_NOT_COMPLETE)))
     (\<lambda>_. modifyState (\<lambda>(p, w).
            (p\<lparr>currentValue := Present s, pendingSnapshot := None, stateValue := Idle\<rparr>, w)))"

definition savePersistence ::
  "viem \<Rightarrow> 'w journal_store \<Rightarrow> TransactionJournalSnapshot \<Rightarrow> (JournalPersistence \<times> 'w, unit) io" where
  "savePersistence V S next =
     andThen getState (\<lambda>(p, _).
     andThen (unlessThrow (stateValue p = Idle)
       (PlainError ''Journal persistence is not ready for a new write.'')) (\<lambda>_.
     andThen (modifyState (\<lambda>(p, w). (p\<lparr>stateValue := Writing\<rparr>, w))) (\<lambda>_.
     andThen (tryCatch (liftPure (verifyJournalSnapshot V (embSnapshot next) (persistenceIdentity p)))
       (\<lambda>_. andThen (modifyState (\<lambda>(p, w). (p\<lparr>stateValue := Idle\<rparr>, w)))
              (\<lambda>_. throw (TypeError ''Invalid journal persistence snapshot.'')))) (\<lambda>s.
     andThen (modifyState (\<lambda>(p, w). (p\<lparr>pendingSnapshot := Some s\<rparr>, w))) (\<lambda>_.
     persistPending S s)))))"

definition retryPersistenceWrite ::
  "'w journal_store \<Rightarrow> (JournalPersistence \<times> 'w, unit) io" where
  "retryPersistenceWrite S =
     andThen getState (\<lambda>(p, _).
     case (stateValue p, pendingSnapshot p) of
       (Failed, Some s) \<Rightarrow>
         andThen (modifyState (\<lambda>(p, w). (p\<lparr>stateValue := Writing\<rparr>, w))) (\<lambda>_. persistPending S s)
     | _ \<Rightarrow> throw NO_FAILED_WRITE)"

subsection \<open>The states between operations\<close>

text \<open>
  Outside an operation the object is idle with nothing pending, or has failed and keeps the
  verified snapshot to retry. What is committed has been verified.
\<close>

definition verified :: "viem \<Rightarrow> JournalIdentity \<Rightarrow> TransactionJournalSnapshot \<Rightarrow> bool" where
  "verified V i s = (verifyJournalSnapshot V (embSnapshot s) i = Inr s)"

definition persistenceInv :: "viem \<Rightarrow> JournalPersistence \<Rightarrow> bool" where
  "persistenceInv V p =
     (wfIdentity (persistenceIdentity p) \<and>
      (case currentValue p of Missing \<Rightarrow> True
       | Present s \<Rightarrow> verified V (persistenceIdentity p) s) \<and>
      (case stateValue p of
         Idle \<Rightarrow> pendingSnapshot p = None
       | Writing \<Rightarrow> False
       | Failed \<Rightarrow> (\<exists>s. pendingSnapshot p = Some s \<and> verified V (persistenceIdentity p) s)))"

lemma verified_wf: "verified V i s \<Longrightarrow> wfSnapshot i s"
  using verifyJournalSnapshot_sound by (auto simp: verified_def)

lemma verify_same: "verifyJournalSnapshot V (embSnapshot s) i = Inr t \<longleftrightarrow> t = s \<and> verified V i s"
  using verifyJournalSnapshot_emb by (auto simp: verified_def)

lemma createPersistence_inv: "createPersistence V i r = Inr p \<Longrightarrow> persistenceInv V p"
  by (cases r) (auto simp: createPersistence_def persistenceInv_def bindE_Inr verify_same
      dest: captureJournalIdentity_wf)

lemma createPersistence_fields:
  "createPersistence V i r = Inr p \<Longrightarrow>
    stateValue p = Idle \<and> pendingSnapshot p = None \<and> persistenceIdentity p = i \<and>
    currentValue p = r"
  by (cases r) (auto simp: createPersistence_def bindE_Inr verify_same captureJournalIdentity_def
      checkE_Inr)

text \<open>
  The outcomes of a save. Success commits exactly \<open>next\<close>; a rejected snapshot leaves everything as it
  was; a failed write commits nothing and keeps \<open>next\<close> for the retry.
\<close>

lemma savePersistence_wp:
  "wp (savePersistence V S next)
     (\<lambda>_ (q, _). stateValue p = Idle \<and> verified V (persistenceIdentity p) next \<and>
        q = p\<lparr>currentValue := Present next, pendingSnapshot := None, stateValue := Idle\<rparr>)
     (\<lambda>_ (q, v). (stateValue p \<noteq> Idle \<and> q = p \<and> v = w) \<or>
        (stateValue p = Idle \<and> \<not> verified V (persistenceIdentity p) next \<and> q = p \<and> v = w) \<or>
        (stateValue p = Idle \<and> verified V (persistenceIdentity p) next \<and>
         q = p\<lparr>pendingSnapshot := Some next, stateValue := Failed\<rparr>))
     (p, w)"
proof (cases "verifyJournalSnapshot V (embSnapshot next) (persistenceIdentity p)")
  case (Inl e)
  then have "\<not> verified V (persistenceIdentity p) next" by (simp add: verified_def)
  with Inl show ?thesis
    by (simp add: savePersistence_def wp_simps)
next
  case (Inr t)
  then have "t = next" "verified V (persistenceIdentity p) next" by (simp_all add: verify_same)
  with Inr show ?thesis
    by (auto simp: savePersistence_def persistPending_def wp_simps intro!: wpI)
qed

lemma retryPersistenceWrite_wp:
  "wp (retryPersistenceWrite S)
     (\<lambda>_ (q, _). stateValue p = Failed \<and> (\<exists>s. pendingSnapshot p = Some s \<and>
        q = p\<lparr>currentValue := Present s, pendingSnapshot := None, stateValue := Idle\<rparr>))
     (\<lambda>_ (q, _). q = p)
     (p, w)"
  by (cases "stateValue p"; cases "pendingSnapshot p")
    (auto simp: retryPersistenceWrite_def persistPending_def wp_simps intro!: wpI)

subsection \<open>The contract\<close>

text \<open>
  What the coordinator relies on: a snapshot becomes the committed one only through a save or retry
  that succeeds, a failed save latches, and while the latch is set only the retained snapshot can
  be committed.
\<close>

locale write_latch =
  fixes saveOp :: "'v \<Rightarrow> 's \<Rightarrow> (exn + unit) \<times> 's"
    and retryOp :: "'s \<Rightarrow> (exn + unit) \<times> 's"
    and committed :: "'s \<Rightarrow> 'v option"
    and latched :: "'s \<Rightarrow> 'v option"
  assumes save_ok: "saveOp v s = (Inr (), t) \<Longrightarrow>
      latched s = None \<and> committed t = Some v \<and> latched t = None"
    and save_fail: "saveOp v s = (Inl e, t) \<Longrightarrow>
      committed t = committed s \<and> (latched t = latched s \<or> latched s = None \<and> latched t = Some v)"
    and retry_ok: "retryOp s = (Inr (), t) \<Longrightarrow>
      latched s \<noteq> None \<and> committed t = latched s \<and> latched t = None"
    and retry_fail: "retryOp s = (Inl e, t) \<Longrightarrow>
      committed t = committed s \<and> latched t = latched s"
begin

text \<open>Any sequence of saves (with the value to save) and retries.\<close>

fun runWrites :: "'v option list \<Rightarrow> 's \<Rightarrow> 's" where
  "runWrites [] s = s"
| "runWrites (Some v # ops) s = runWrites ops (snd (saveOp v s))"
| "runWrites (None # ops) s = runWrites ops (snd (retryOp s))"

lemma save_latched: "latched s = Some v \<Longrightarrow> committed (snd (saveOp x s)) = committed s \<and>
    latched (snd (saveOp x s)) = Some v"
  using save_ok [of x s] save_fail [of x s] by (cases "saveOp x s"; cases "fst (saveOp x s)") auto

lemma retry_latched: "latched s = Some v \<Longrightarrow>
    committed (snd (retryOp s)) = committed s \<and> latched (snd (retryOp s)) = Some v \<or>
    committed (snd (retryOp s)) = Some v \<and> latched (snd (retryOp s)) = None"
  using retry_ok [of s] retry_fail [of s] by (cases "retryOp s"; cases "fst (retryOp s)") auto

text \<open>While the latch stays set, nothing is committed and the retained value never changes.\<close>

lemma latch_kept:
  assumes "latched s = Some v" and "\<forall>i \<le> length ops. latched (runWrites (take i ops) s) \<noteq> None"
  shows "committed (runWrites ops s) = committed s \<and> latched (runWrites ops s) = Some v"
  using assms
proof (induction ops arbitrary: s)
  case Nil
  then show ?case by simp
next
  case (Cons oper ops)
  define t where "t = (case oper of Some x \<Rightarrow> snd (saveOp x s) | None \<Rightarrow> snd (retryOp s))"
  have run: "runWrites (oper # xs) s = runWrites xs t" for xs
    by (cases oper) (simp_all add: t_def)
  have still: "latched (runWrites (take i ops) t) \<noteq> None" if "i \<le> length ops" for i
    using Cons.prems(2) that run [of "take i ops"] by (auto dest: spec [of _ "Suc i"])
  from still [of 0] have "latched t \<noteq> None" by simp
  with Cons.prems(1) have "committed t = committed s \<and> latched t = Some v"
    using save_latched [OF Cons.prems(1)] retry_latched [OF Cons.prems(1)]
    by (cases oper) (auto simp: t_def)
  with Cons.IH [of t] still show ?case by (simp add: run)
qed

end

text \<open>The two operations as total functions of the object and the world.\<close>

definition committedSnapshot :: "JournalPersistence \<times> 'w \<Rightarrow> TransactionJournalSnapshot option" where
  "committedSnapshot x = (case currentValue (fst x) of Missing \<Rightarrow> None | Present s \<Rightarrow> Some s)"

definition latchedSnapshot :: "JournalPersistence \<times> 'w \<Rightarrow> TransactionJournalSnapshot option" where
  "latchedSnapshot x = (if stateValue (fst x) = Failed then pendingSnapshot (fst x) else None)"

interpretation persistence: write_latch
  "savePersistence V S" "retryPersistenceWrite S" committedSnapshot latchedSnapshot
proof
  show "latchedSnapshot x = None \<and> committedSnapshot y = Some v \<and> latchedSnapshot y = None"
    if "savePersistence V S v x = (Inr (), y)" for v x y
  proof (cases x)
    case (Pair p w)
    with wp_Inr [OF savePersistence_wp, of V S v p w] that show ?thesis
      by (cases y) (auto simp: latchedSnapshot_def committedSnapshot_def)
  qed
  show "committedSnapshot y = committedSnapshot x \<and>
      (latchedSnapshot y = latchedSnapshot x \<or> latchedSnapshot x = None \<and> latchedSnapshot y = Some v)"
    if "savePersistence V S v x = (Inl e, y)" for v e x y
  proof (cases x)
    case (Pair p w)
    with wp_Inl [OF savePersistence_wp, of V S v p w] that show ?thesis
      by (cases y) (auto simp: latchedSnapshot_def committedSnapshot_def)
  qed
  show "latchedSnapshot x \<noteq> None \<and> committedSnapshot y = latchedSnapshot x \<and> latchedSnapshot y = None"
    if "retryPersistenceWrite S x = (Inr (), y)" for x y
  proof (cases x)
    case (Pair p w)
    with wp_Inr [OF retryPersistenceWrite_wp, of S p w] that show ?thesis
      by (cases y) (auto simp: latchedSnapshot_def committedSnapshot_def)
  qed
  show "committedSnapshot y = committedSnapshot x \<and> latchedSnapshot y = latchedSnapshot x"
    if "retryPersistenceWrite S x = (Inl e, y)" for e x y
  proof (cases x)
    case (Pair p w)
    with wp_Inl [OF retryPersistenceWrite_wp, of S p w] that show ?thesis
      by (cases y) (auto simp: latchedSnapshot_def committedSnapshot_def)
  qed
qed

end
