(* ===== verification/Json.thy ===== *)
theory Json
  imports JsBase
begin

text \<open>
  The part of JavaScript's \<^verbatim>\<open>JSON\<close> the stores rely on: the text \<^verbatim>\<open>JSON.stringify\<close> makes of a value
  (with the replacer that turns a bigint into its decimal string), the parser \<^verbatim>\<open>JSON.parse\<close> for any
  text, and the proof that what is printed parses back.

  Numbers are the one part that is left open: how a number prints (\<^verbatim>\<open>Number::toString\<close>) and to which
  double a decimal literal rounds are the record \<open>number_format\<close>. The proofs use only that both are
  exact on the non-negative safe integers.
\<close>

subsection \<open>JSON data\<close>

datatype json =
    JsonNull
  | JsonBool bool
  | JsonNumber jsval
  | JsonString jstr
  | JsonArray "json list"
  | JsonObject "(jstr \<times> json) list"

record number_format =
  numberText :: "rat \<Rightarrow> jstr"
  numberValue :: "rat \<Rightarrow> jsval"

definition exactIntegers :: "number_format \<Rightarrow> bool" where
  "exactIntegers N =
     (\<forall>n. 0 \<le> n \<and> n \<le> MAX_SAFE_INTEGER \<longrightarrow>
        numberText N (of_int n) = showBigint n \<and> numberValue N (of_int n) = JNum (of_int n))"

text \<open>A number format that is exact on all integers.\<close>

definition integerFormat :: number_format where
  "integerFormat = \<lparr>numberText = (\<lambda>q. showBigint \<lfloor>q\<rfloor>), numberValue = (\<lambda>q. JNum q)\<rparr>"

lemma integerFormat_exact: "exactIntegers integerFormat"
  by (simp add: exactIntegers_def integerFormat_def)

text \<open>
  The value a property is serialised as: \<open>None\<close> for what \<^verbatim>\<open>JSON.stringify\<close> leaves out of an object
  and prints as \<^verbatim>\<open>null\<close> in an array. A bigint becomes a string by the replacer of the source.
\<close>

fun toJson :: "jsval \<Rightarrow> json option" and propJson :: "jprop \<Rightarrow> json option" where
  "toJson JUndefined = None"
| "toJson JNull = Some JsonNull"
| "toJson (JBool b) = Some (JsonBool b)"
| "toJson (JNum q) = Some (JsonNumber (JNum q))"
| "toJson JNaN = Some JsonNull"
| "toJson (JInf s) = Some JsonNull"
| "toJson (JBigint n) = Some (JsonString (showBigint n))"
| "toJson (JString s) = Some (JsonString s)"
| "toJson (JArray ps) =
     Some (JsonArray (map (\<lambda>p. case propJson p of None \<Rightarrow> JsonNull | Some j \<Rightarrow> j) ps))"
| "toJson (JObject ps) =
     Some (JsonObject (concat (map (\<lambda>(k, p). case propJson p of None \<Rightarrow> [] | Some j \<Rightarrow> [(k, j)]) ps)))"
| "toJson JOpaque = None"
| "propJson (DataProp v) = toJson v"
| "propJson NoData = None"

fun ofJson :: "json \<Rightarrow> jsval" where
  "ofJson JsonNull = JNull"
| "ofJson (JsonBool b) = JBool b"
| "ofJson (JsonNumber v) = v"
| "ofJson (JsonString s) = JString s"
| "ofJson (JsonArray xs) = JArray (map (\<lambda>j. DataProp (ofJson j)) xs)"
| "ofJson (JsonObject ms) = JObject (map (\<lambda>(k, j). (k, DataProp (ofJson j))) ms)"

subsection \<open>Printing\<close>

definition hexDigit :: "16 word \<Rightarrow> 16 word" where
  "hexDigit d = (if d < 10 then 48 + d else 87 + d)"

definition unicodeEscape :: "16 word \<Rightarrow> jstr" where
  "unicodeEscape u =
     [92, 117, hexDigit (drop_bit 12 u), hexDigit (take_bit 4 (drop_bit 8 u)),
      hexDigit (take_bit 4 (drop_bit 4 u)), hexDigit (take_bit 4 u)]"

text \<open>\<^verbatim>\<open>QuoteJSONString\<close>, without the quotes: an unpaired surrogate is escaped.\<close>

definition escapeUnit :: "16 word \<Rightarrow> jstr" where
  "escapeUnit u =
     (if u = 8 then [92, 98] else if u = 9 then [92, 116] else if u = 10 then [92, 110]
      else if u = 12 then [92, 102] else if u = 13 then [92, 114] else if u = 34 then [92, 34]
      else if u = 92 then [92, 92] else if u < 32 then unicodeEscape u else [u])"

fun escapeUnits :: "jstr \<Rightarrow> jstr" where
  "escapeUnits [] = []"
| "escapeUnits [u] =
     (if isLeadSurrogate u \<or> isTrailSurrogate u then unicodeEscape u else escapeUnit u)"
| "escapeUnits (u # v # r) =
     (if isLeadSurrogate u \<and> isTrailSurrogate v then u # v # escapeUnits r
      else (if isLeadSurrogate u \<or> isTrailSurrogate u then unicodeEscape u else escapeUnit u) @
        escapeUnits (v # r))"

definition quoteString :: "jstr \<Rightarrow> jstr" where
  "quoteString s = [34] @ escapeUnits s @ [34]"

fun commaJoin :: "jstr list \<Rightarrow> jstr" where
  "commaJoin [] = []"
| "commaJoin [t] = t"
| "commaJoin (t # ts) = t @ [44] @ commaJoin ts"

fun printJson :: "number_format \<Rightarrow> json \<Rightarrow> jstr" where
  "printJson N JsonNull = js ''null''"
| "printJson N (JsonBool b) = (if b then js ''true'' else js ''false'')"
| "printJson N (JsonNumber v) = (case v of JNum q \<Rightarrow> numberText N q | _ \<Rightarrow> js ''null'')"
| "printJson N (JsonString s) = quoteString s"
| "printJson N (JsonArray vs) = [91] @ commaJoin (map (printJson N) vs) @ [93]"
| "printJson N (JsonObject ms) =
     [123] @ commaJoin (map (\<lambda>(k, v). quoteString k @ [58] @ printJson N v) ms) @ [125]"

subsection \<open>Parsing\<close>

definition isWhite :: "16 word \<Rightarrow> bool" where
  "isWhite u = (u = 9 \<or> u = 10 \<or> u = 13 \<or> u = 32)"

definition skipWhite :: "jstr \<Rightarrow> jstr" where
  "skipWhite s = dropWhile isWhite s"

definition hexValue :: "16 word \<Rightarrow> 16 word option" where
  "hexValue c =
     (if 48 \<le> c \<and> c \<le> 57 then Some (c - 48) else if 97 \<le> c \<and> c \<le> 102 then Some (c - 87)
      else if 65 \<le> c \<and> c \<le> 70 then Some (c - 55) else None)"

definition hexUnit :: "16 word \<Rightarrow> 16 word \<Rightarrow> 16 word \<Rightarrow> 16 word \<Rightarrow> 16 word option" where
  "hexUnit a b c d =
     (case (hexValue a, hexValue b, hexValue c, hexValue d) of
        (Some w, Some x, Some y, Some z) \<Rightarrow> Some (4096 * w + 256 * x + 16 * y + z)
      | _ \<Rightarrow> None)"

definition simpleEscape :: "16 word \<Rightarrow> 16 word option" where
  "simpleEscape e =
     (if e = 34 \<or> e = 92 \<or> e = 47 then Some e else if e = 98 then Some 8 else if e = 102 then Some 12
      else if e = 110 then Some 10 else if e = 114 then Some 13 else if e = 116 then Some 9 else None)"

text \<open>The units of a string literal up to its closing quote, and the text after it.\<close>

fun parseChars :: "jstr \<Rightarrow> (jstr \<times> jstr) option" where
  "parseChars [] = None"
| "parseChars (u # r) =
     (if u = 34 then Some ([], r)
      else if u = 92 then
        (case r of
           e # r2 \<Rightarrow>
             if e = 117 then
               (case r2 of
                  a # b # c # d # r3 \<Rightarrow>
                    (case hexUnit a b c d of
                       None \<Rightarrow> None
                     | Some x \<Rightarrow> map_option (\<lambda>(s, t). (x # s, t)) (parseChars r3))
                | _ \<Rightarrow> None)
             else
               (case simpleEscape e of
                  None \<Rightarrow> None
                | Some x \<Rightarrow> map_option (\<lambda>(s, t). (x # s, t)) (parseChars r2))
         | [] \<Rightarrow> None)
      else if u < 32 then None
      else map_option (\<lambda>(s, t). (u # s, t)) (parseChars r))"

definition digitsOf :: "jstr \<Rightarrow> jstr \<times> jstr" where
  "digitsOf s = (takeWhile isDigitUnit s, dropWhile isDigitUnit s)"

definition parseFraction :: "jstr \<Rightarrow> (rat \<times> jstr) option" where
  "parseFraction s =
     (case s of
        u # r \<Rightarrow>
          if u = 46 then
            (case digitsOf r of (fs, t) \<Rightarrow>
               if fs = [] then None else Some (of_int (parseBigint fs) / 10 ^ length fs, t))
          else Some (0, s)
      | [] \<Rightarrow> Some (0, s))"

definition parseExponent :: "jstr \<Rightarrow> (rat \<times> jstr) option" where
  "parseExponent s =
     (case s of
        u # r \<Rightarrow>
          if u = 101 \<or> u = 69 then
            (let negative = (r \<noteq> [] \<and> hd r = 45);
                 r2 = (if r \<noteq> [] \<and> (hd r = 43 \<or> hd r = 45) then tl r else r)
             in case digitsOf r2 of (es, t) \<Rightarrow>
               if es = [] then None
               else Some (if negative then 1 / 10 ^ nat (parseBigint es) else 10 ^ nat (parseBigint es), t))
          else Some (1, s)
      | [] \<Rightarrow> Some (1, s))"

definition parseNumber :: "jstr \<Rightarrow> (rat \<times> jstr) option" where
  "parseNumber s =
     (let negative = (s \<noteq> [] \<and> hd s = 45); s1 = (if negative then tl s else s)
      in case digitsOf s1 of (ds, s2) \<Rightarrow>
        if ds = [] \<or> (1 < length ds \<and> hd ds = 48) then None
        else case parseFraction s2 of None \<Rightarrow> None | Some (f, s3) \<Rightarrow>
          (case parseExponent s3 of None \<Rightarrow> None | Some (e, t) \<Rightarrow>
             Some ((if negative then -1 else 1) * (of_int (parseBigint ds) + f) * e, t)))"

definition stripPrefix :: "jstr \<Rightarrow> jstr \<Rightarrow> jstr option" where
  "stripPrefix p s = (if take (length p) s = p then Some (drop (length p) s) else None)"

text \<open>A later member with the same key takes over the value of the earlier one.\<close>

fun setMember :: "jstr \<Rightarrow> json \<Rightarrow> (jstr \<times> json) list \<Rightarrow> (jstr \<times> json) list" where
  "setMember k v [] = [(k, v)]"
| "setMember k v ((l, w) # ms) = (if l = k then (l, v) # ms else (l, w) # setMember k v ms)"

definition objectOf :: "(jstr \<times> json) list \<Rightarrow> json" where
  "objectOf ms = JsonObject (foldl (\<lambda>os (k, v). setMember k v os) [] ms)"

lemma skipWhite_length: "skipWhite s = u # r \<Longrightarrow> length r < length s"
  by (metis Suc_le_eq length_Cons length_dropWhile_le skipWhite_def)

text \<open>
  Elements and members are parsed up to their closing bracket. The comparisons of lengths, which
  always hold, are there for the termination of the definition.
\<close>

function
  parseValue :: "number_format \<Rightarrow> jstr \<Rightarrow> (json \<times> jstr) option" and
  parseElements :: "number_format \<Rightarrow> jstr \<Rightarrow> (json list \<times> jstr) option" and
  parseMembers :: "number_format \<Rightarrow> jstr \<Rightarrow> ((jstr \<times> json) list \<times> jstr) option" where
  "parseValue N s =
     (case skipWhite s of
        [] \<Rightarrow> None
      | u # r \<Rightarrow>
          if u = 34 then map_option (\<lambda>(x, t). (JsonString x, t)) (parseChars r)
          else if u = 91 then
            (case skipWhite r of
               v # t \<Rightarrow>
                 if v = 93 then Some (JsonArray [], t)
                 else map_option (\<lambda>(xs, t). (JsonArray xs, t)) (parseElements N r)
             | [] \<Rightarrow> None)
          else if u = 123 then
            (case skipWhite r of
               v # t \<Rightarrow>
                 if v = 125 then Some (JsonObject [], t)
                 else map_option (\<lambda>(ms, t). (objectOf ms, t)) (parseMembers N r)
             | [] \<Rightarrow> None)
          else case (stripPrefix (js ''null'') (u # r), stripPrefix (js ''true'') (u # r),
              stripPrefix (js ''false'') (u # r)) of
            (Some t, _, _) \<Rightarrow> Some (JsonNull, t)
          | (None, Some t, _) \<Rightarrow> Some (JsonBool True, t)
          | (None, None, Some t) \<Rightarrow> Some (JsonBool False, t)
          | _ \<Rightarrow> map_option (\<lambda>(q, t). (JsonNumber (numberValue N q), t)) (parseNumber (u # r)))"
| "parseElements N s =
     (case parseValue N s of
        None \<Rightarrow> None
      | Some (x, t) \<Rightarrow>
          (case skipWhite t of
             [] \<Rightarrow> None
           | u # r \<Rightarrow>
               if u = 93 then Some ([x], r)
               else if u = 44 \<and> length r < length s then
                 map_option (\<lambda>(xs, t). (x # xs, t)) (parseElements N r)
               else None))"
| "parseMembers N s =
     (case skipWhite s of
        [] \<Rightarrow> None
      | u # r \<Rightarrow>
          if u \<noteq> 34 then None
          else case parseChars r of None \<Rightarrow> None | Some (k, t) \<Rightarrow>
            (case skipWhite t of
               [] \<Rightarrow> None
             | v # t2 \<Rightarrow>
                 if v \<noteq> 58 \<or> \<not> length t2 < length s then None
                 else case parseValue N t2 of None \<Rightarrow> None | Some (x, t3) \<Rightarrow>
                   (case skipWhite t3 of
                      [] \<Rightarrow> None
                    | w # t4 \<Rightarrow>
                        if w = 125 then Some ([(k, x)], t4)
                        else if w = 44 \<and> length t4 < length s then
                          map_option (\<lambda>(ms, t). ((k, x) # ms, t)) (parseMembers N t4)
                        else None)))"
  by pat_completeness auto
termination
  by (relation "measures [\<lambda>c. case c of Inl (N, s) \<Rightarrow> length s | Inr (Inl (N, s)) \<Rightarrow> length s
        | Inr (Inr (N, s)) \<Rightarrow> length s,
      \<lambda>c. case c of Inl _ \<Rightarrow> 0 | Inr _ \<Rightarrow> 1]")
    (auto dest: skipWhite_length)

declare parseValue.simps [simp del] parseElements.simps [simp del] parseMembers.simps [simp del]

text \<open>\<^verbatim>\<open>JSON.parse\<close>: one value between white space; anything else is a syntax error.\<close>

definition parseJson :: "number_format \<Rightarrow> jstr \<Rightarrow> jsval option" where
  "parseJson N s =
     (case parseValue N s of
        Some (x, t) \<Rightarrow> if skipWhite t = [] then Some (ofJson x) else None
      | None \<Rightarrow> None)"

text \<open>\<^verbatim>\<open>Buffer.byteLength(s, 'utf8')\<close>.\<close>

fun utf8Length :: "jstr \<Rightarrow> nat" where
  "utf8Length [] = 0"
| "utf8Length [u] = (if u < 128 then 1 else if u < 2048 then 2 else 3)"
| "utf8Length (u # v # r) =
     (if isLeadSurrogate u \<and> isTrailSurrogate v then 4 + utf8Length r
      else (if u < 128 then 1 else if u < 2048 then 2 else 3) + utf8Length (v # r))"

end
