(* ===== verification/JsonProofs.thy ===== *)
theory JsonProofs
  imports Json
begin

text \<open>What is printed parses back, with anything after it left over.\<close>

subsection \<open>Strings\<close>

lemma hexValue_hexDigit: "d < 16 \<Longrightarrow> hexValue (hexDigit d) = Some d"
proof -
  assume d: "d < 16"
  then have "unat d < 16" by (simp add: word_less_nat_alt)
  then have "d = word_of_nat (unat d) \<and> unat d \<in> {..<16}" by simp
  then have "d \<in> word_of_nat ` {..<16}" by blast
  then have "d \<in> set (map word_of_nat [0..<16])" by (simp add: atLeast_upt)
  then show ?thesis
    by (simp add: upt_conv_Cons hexDigit_def hexValue_def) (elim disjE; simp)
qed

lemma nibbles:
  fixes u :: "16 word"
  shows "4096 * drop_bit 12 u + 256 * take_bit 4 (drop_bit 8 u) + 16 * take_bit 4 (drop_bit 4 u) + take_bit 4 u = u"
proof -
  define n where "n = unat u"
  have n: "n < 65536" using unsigned_less [of u] by (simp add: n_def)
  have parts: "unat (drop_bit 12 u) = n div 4096" "unat (take_bit 4 (drop_bit 8 u)) = n div 256 mod 16"
    "unat (take_bit 4 (drop_bit 4 u)) = n div 16 mod 16" "unat (take_bit 4 u) = n mod 16"
    by (simp_all add: n_def drop_bit_eq_div take_bit_eq_mod unat_div unat_mod)
  have "u = word_of_nat n" by (simp add: n_def)
  have eq: "4096 * (n div 4096) + 256 * (n div 256 mod 16) + 16 * (n div 16 mod 16) + n mod 16 = n"
  proof -
    have "n div 16 div 16 = n div 256" "n div 256 div 16 = n div 4096" by (simp_all add: div_mult2_eq [symmetric])
    then have "16 * (n div 256) + n div 16 mod 16 = n div 16" "16 * (n div 4096) + n div 256 mod 16 = n div 256"
      by (metis mult_div_mod_eq)+
    then show ?thesis using mult_div_mod_eq [of 16 n] by linarith
  qed
  have "(word_of_nat (unat (drop_bit 12 u)) :: 16 word) = drop_bit 12 u"
    "(word_of_nat (unat (take_bit 4 (drop_bit 8 u))) :: 16 word) = take_bit 4 (drop_bit 8 u)"
    "(word_of_nat (unat (take_bit 4 (drop_bit 4 u))) :: 16 word) = take_bit 4 (drop_bit 4 u)"
    "(word_of_nat (unat (take_bit 4 u)) :: 16 word) = take_bit 4 u" by simp_all
  then have "4096 * drop_bit 12 u + 256 * take_bit 4 (drop_bit 8 u) + 16 * take_bit 4 (drop_bit 4 u) + take_bit 4 u
     = word_of_nat (4096 * (n div 4096) + 256 * (n div 256 mod 16) + 16 * (n div 16 mod 16) + n mod 16)"
    unfolding parts by simp
  with eq \<open>u = word_of_nat n\<close> show ?thesis by simp
qed

lemma hexUnit_escape:
  "hexUnit (hexDigit (drop_bit 12 u)) (hexDigit (take_bit 4 (drop_bit 8 u)))
     (hexDigit (take_bit 4 (drop_bit 4 u))) (hexDigit (take_bit 4 u)) = Some (u :: 16 word)"
proof -
  have small: "take_bit 4 w < 16" for w :: "16 word"
    by (simp add: take_bit_eq_mod word_less_nat_alt unat_mod)
  have "unat (drop_bit 12 u) < 16"
    using unsigned_less [of u, where 'a = nat] by (simp add: drop_bit_eq_div unat_div less_mult_imp_div_less)
  then have "drop_bit 12 u < 16" by (simp add: word_less_nat_alt)
  then show ?thesis using small nibbles [of u] by (simp add: hexUnit_def hexValue_hexDigit)
qed

lemma parseChars_unicode: "parseChars (unicodeEscape u @ r) = map_option (\<lambda>(s, t). (u # s, t)) (parseChars r)"
  by (simp add: unicodeEscape_def hexUnit_escape)

lemma parseChars_unit: "parseChars (escapeUnit u @ r) = map_option (\<lambda>(s, t). (u # s, t)) (parseChars r)"
  using parseChars_unicode by (simp add: escapeUnit_def simpleEscape_def)

lemma surrogate_plain: "isLeadSurrogate u \<or> isTrailSurrogate u \<Longrightarrow> u \<noteq> 34 \<and> u \<noteq> 92 \<and> \<not> u < 32"
  by (auto simp: isLeadSurrogate_def isTrailSurrogate_def word_le_nat_alt word_less_nat_alt)

lemma parseChars_surrogate:
  "isLeadSurrogate u \<or> isTrailSurrogate u \<Longrightarrow> parseChars (u # r) = map_option (\<lambda>(s, t). (u # s, t)) (parseChars r)"
  using surrogate_plain [of u] by simp

lemma parseChars_escaped: "parseChars (escapeUnits s @ 34 # r) = Some (s, r)"
proof (induction s rule: escapeUnits.induct)
  case (2 u)
  have "parseChars (34 # r) = Some ([], r)" by simp
  then show ?case
    by (simp add: parseChars_unicode parseChars_unit del: parseChars.simps)
next
  case (3 u v x)
  show ?case
  proof (cases "isLeadSurrogate u \<and> isTrailSurrogate v")
    case True
    then show ?thesis using "3.IH"(1) by (simp add: parseChars_surrogate del: parseChars.simps)
  next
    case False
    then have "escapeUnits (u # v # x) =
      (if isLeadSurrogate u \<or> isTrailSurrogate u then unicodeEscape u else escapeUnit u) @ escapeUnits (v # x)"
      by (simp only: escapeUnits.simps if_False)
    with "3.IH"(2) [OF False] show ?thesis
      by (cases "isLeadSurrogate u \<or> isTrailSurrogate u")
        (simp_all only: if_True if_False append_assoc parseChars_unicode parseChars_unit option.map prod.case)
  qed
qed simp

subsection \<open>Numbers\<close>

definition stops :: "jstr \<Rightarrow> bool" where
  "stops r = (r = [] \<or> hd r \<in> {9, 10, 13, 32, 44, 93, 125})"

lemma showNonNeg_nonempty [simp]: "showNonNeg n \<noteq> []"
  by (subst showNonNeg.simps) simp

lemma showNonNeg_no_zero:
  "0 \<le> n \<Longrightarrow> 1 < length (showNonNeg n) \<Longrightarrow> hd (showNonNeg n) \<noteq> 48"
proof (induction n rule: showNonNeg.induct)
  case (1 n)
  show ?case
  proof (cases "n < 10")
    case True
    with 1 show ?thesis by (simp add: showNonNeg.simps)
  next
    case False
    then have s: "showNonNeg n = showNonNeg (n div 10) @ [digitUnit (n mod 10)]"
      by (subst showNonNeg.simps) simp
    show ?thesis
    proof (cases "n div 10 < 10")
      case True
      then have t: "showNonNeg (n div 10) = [digitUnit (n div 10)]" by (simp add: showNonNeg.simps)
      have "uint (digitUnit (n div 10)) = 48 + n div 10" using True False by (intro uint_digitUnit) simp_all
      moreover have "0 < n div 10" using False by linarith
      ultimately have "uint (digitUnit (n div 10)) \<noteq> uint (48 :: 16 word)" by simp
      then have "digitUnit (n div 10) \<noteq> 48" by metis
      then show ?thesis by (simp add: s t)
    next
      case large: False
      then have "1 < length (showNonNeg (n div 10))"
        by (subst showNonNeg.simps) (simp add: Suc_le_eq)
      then have "hd (showNonNeg (n div 10)) \<noteq> 48" using 1 False by simp
      then show ?thesis by (simp add: s)
    qed
  qed
qed

lemma digits_show:
  "0 \<le> n \<Longrightarrow> r = [] \<or> \<not> isDigitUnit (hd r) \<Longrightarrow> digitsOf (showBigint n @ r) = (showBigint n, r)"
proof -
  assume n: "0 \<le> n" and r: "r = [] \<or> \<not> isDigitUnit (hd r)"
  have "list_all isDigitUnit (showBigint n)" using isDecimalInteger_showBigint [OF n] by (simp add: isDecimalInteger_def)
  moreover have "takeWhile isDigitUnit r = []" "dropWhile isDigitUnit r = r" using r by (cases r; simp)+
  ultimately show ?thesis
    by (simp add: digitsOf_def takeWhile_append dropWhile_append list_all_iff)
qed

lemma parseNumber_show:
  assumes n: "0 \<le> n" and r: "stops r"
  shows "parseNumber (showBigint n @ r) = Some (of_int n, r)"
proof -
  have d: "digitsOf (showBigint n @ r) = (showBigint n, r)"
    by (rule digits_show [OF n]) (use r in \<open>auto simp: stops_def isDigitUnit_def word_le_nat_alt\<close>)
  have first: "isDigitUnit (hd (showBigint n))" "showBigint n \<noteq> []"
    using isDecimalInteger_showBigint [OF n] by (simp_all add: isDecimalInteger_def list_all_iff)
  have "hd (showBigint n) \<noteq> 45" using first(1) by (auto simp: isDigitUnit_def word_le_nat_alt)
  moreover have "\<not> (1 < length (showBigint n) \<and> hd (showBigint n) = 48)"
    using showNonNeg_no_zero [OF n] n by (auto simp: showBigint_def)
  moreover have "parseFraction r = Some (0, r)" "parseExponent r = Some (1, r)"
    using r by (cases r; auto simp: parseFraction_def parseExponent_def stops_def)+
  ultimately show ?thesis
    using d first(2) parseBigint_showBigint [OF n] by (simp add: parseNumber_def Let_def)
qed

subsection \<open>Values\<close>

fun plainJson :: "json \<Rightarrow> bool" where
  "plainJson (JsonNumber v) = isNonNegativeSafeInteger v"
| "plainJson (JsonArray xs) = list_all plainJson xs"
| "plainJson (JsonObject ms) = (distinct (map fst ms) \<and> list_all (\<lambda>(k, v). plainJson v) ms)"
| "plainJson _ = True"

lemma setMember_new: "k \<notin> fst ` set ms \<Longrightarrow> setMember k v ms = ms @ [(k, v)]"
  by (induction ms) auto

lemma objectOf_distinct: "distinct (map fst ms) \<Longrightarrow> objectOf ms = JsonObject ms"
proof -
  have "foldl (\<lambda>os (k, v). setMember k v os) os ms = os @ ms"
    if "distinct (map fst ms)" "fst ` set os \<inter> fst ` set ms = {}" for os
    using that
  proof (induction ms arbitrary: os)
    case (Cons m ms)
    obtain k v where m: "m = (k, v)" by (cases m)
    have "setMember k v os = os @ [(k, v)]" using Cons.prems m by (intro setMember_new) auto
    with Cons m show ?case by auto
  qed simp
  from this [of "[]"] show "distinct (map fst ms) \<Longrightarrow> objectOf ms = JsonObject ms"
    by (simp add: objectOf_def)
qed

lemma js_null: "js ''null'' = [110, 117, 108, 108]" "js ''true'' = [116, 114, 117, 101]"
  "js ''false'' = [102, 97, 108, 115, 101]"
  by (simp_all add: js_def)

text \<open>How a printed value begins: never with white space, a closing bracket or a comma.\<close>

definition begins :: "jstr \<Rightarrow> bool" where
  "begins s = (s \<noteq> [] \<and> hd s \<notin> {9, 10, 13, 32, 44, 93, 125})"

lemma number_shown:
  assumes "exactIntegers N" "isNonNegativeSafeInteger v"
  obtains n where "0 \<le> n" "n \<le> MAX_SAFE_INTEGER" "v = JNum (of_int n)"
    "printJson N (JsonNumber v) = showBigint n" "numberValue N (of_int n) = v"
  using assms by (auto simp: isNonNegativeSafeInteger_iff exactIntegers_def)

lemma showBigint_hd: "0 \<le> n \<Longrightarrow> showBigint n \<noteq> [] \<and> isDigitUnit (hd (showBigint n))"
  using isDecimalInteger_showBigint [of n] by (auto simp: isDecimalInteger_def list_all_iff)

lemma begins_print: "exactIntegers N \<Longrightarrow> plainJson j \<Longrightarrow> begins (printJson N j @ r)"
proof (cases j)
  case (JsonNumber v)
  assume N: "exactIntegers N" and p: "plainJson j"
  from p JsonNumber have "isNonNegativeSafeInteger v" by simp
  then obtain n where n: "0 \<le> n" "printJson N (JsonNumber v) = showBigint n" by (rule number_shown [OF N])
  obtain u t where u: "showBigint n = u # t" "isDigitUnit u"
    using showBigint_hd [OF n(1)] by (cases "showBigint n") auto
  then show ?thesis using n(2) JsonNumber by (auto simp: begins_def isDigitUnit_def)
qed (simp_all add: begins_def js_null quoteString_def)

lemma skipWhite_begins: "begins s \<Longrightarrow> skipWhite s = s"
  by (cases s) (auto simp: begins_def skipWhite_def isWhite_def)

lemma skipWhite_mark [simp]: "\<not> isWhite u \<Longrightarrow> skipWhite (u # r) = u # r"
  by (simp add: skipWhite_def)

lemma stops_mark [simp]: "stops (44 # r)" "stops (93 # r)" "stops (125 # r)" "stops [10]"
  by (simp_all add: stops_def)

lemma commaJoin_Cons: "ts \<noteq> [] \<Longrightarrow> commaJoin (t # ts) = t @ [44] @ commaJoin ts"
  by (cases ts) simp_all

definition parsesBack :: "number_format \<Rightarrow> json \<Rightarrow> bool" where
  "parsesBack N j = (\<forall>r. stops r \<longrightarrow> parseValue N (printJson N j @ r) = Some (j, r))"

lemma parseElements_print:
  assumes "xs \<noteq> []" "\<forall>x \<in> set xs. parsesBack N x"
  shows "parseElements N (commaJoin (map (printJson N) xs) @ 93 # r) = Some (xs, r)"
  using assms
proof (induction xs)
  case (Cons x xs)
  have x: "\<And>t. stops t \<Longrightarrow> parseValue N (printJson N x @ t) = Some (x, t)"
    using Cons.prems by (simp add: parsesBack_def)
  show ?case
  proof (cases "xs = []")
    case True
    then show ?thesis by (simp add: parseElements.simps [of N "printJson N x @ 93 # r"] x isWhite_def)
  next
    case False
    define t where "t = commaJoin (map (printJson N) xs) @ 93 # r"
    have more: "parseElements N t = Some (xs, r)" unfolding t_def by (rule Cons.IH) (use False Cons.prems in auto)
    have "commaJoin (map (printJson N) (x # xs)) @ 93 # r = printJson N x @ 44 # t"
      using False by (simp add: commaJoin_Cons t_def)
    then show ?thesis
      by (simp only: parseElements.simps [of N "printJson N x @ 44 # t"]) (simp add: x more isWhite_def)
  qed
qed simp

lemma parseMembers_print:
  assumes "ms \<noteq> []" "\<forall>(k, x) \<in> set ms. parsesBack N x"
  shows "parseMembers N (commaJoin (map (\<lambda>(k, v). quoteString k @ [58] @ printJson N v) ms) @ 125 # r) =
    Some (ms, r)"
  using assms
proof (induction ms)
  case (Cons m ms)
  obtain k x where m: "m = (k, x)" by (cases m)
  have x: "\<And>t. stops t \<Longrightarrow> parseValue N (printJson N x @ t) = Some (x, t)"
    using Cons.prems m by (simp add: parsesBack_def)
  have one: "parseMembers N (quoteString k @ [58] @ printJson N x @ u # t) =
      (if u = 125 then Some ([(k, x)], t)
       else map_option (\<lambda>(ms, t). ((k, x) # ms, t)) (parseMembers N t))"
    if "u = 125 \<or> u = 44" for u t
  proof -
    have "quoteString k @ [58] @ printJson N x @ u # t = 34 # escapeUnits k @ 34 # 58 # printJson N x @ u # t"
      by (simp add: quoteString_def)
    moreover have "parseValue N (printJson N x @ u # t) = Some (x, u # t)" using that by (intro x) auto
    moreover have "\<not> isWhite u" using that by (auto simp: isWhite_def)
    ultimately show ?thesis
      using that parseMembers.simps [of N "34 # escapeUnits k @ 34 # 58 # printJson N x @ u # t"]
      by (auto simp: isWhite_def parseChars_escaped)
  qed
  show ?case
  proof (cases "ms = []")
    case True
    then show ?thesis using one [of 125 r] by (simp add: m)
  next
    case False
    define t where "t = commaJoin (map (\<lambda>(k, v). quoteString k @ [58] @ printJson N v) ms) @ 125 # r"
    have more: "parseMembers N t = Some (ms, r)" unfolding t_def by (rule Cons.IH) (use False Cons.prems in auto)
    have "commaJoin (map (\<lambda>(k, v). quoteString k @ [58] @ printJson N v) (m # ms)) @ 125 # r =
        quoteString k @ [58] @ printJson N x @ 44 # t"
      using False by (simp add: commaJoin_Cons t_def m)
    then show ?thesis using one [of 44 t] more m by simp
  qed
qed simp

lemma parseValue_literal:
  "parseValue N (js ''null'' @ r) = Some (JsonNull, r)"
  "parseValue N (js ''true'' @ r) = Some (JsonBool True, r)"
  "parseValue N (js ''false'' @ r) = Some (JsonBool False, r)"
  by (simp_all add: js_null parseValue.simps [of N "_ # _"] isWhite_def stripPrefix_def)

lemma parseValue_number:
  assumes "0 \<le> n" "stops r"
  shows "parseValue N (showBigint n @ r) = Some (JsonNumber (numberValue N (of_int n)), r)"
proof -
  obtain u t where u: "showBigint n = u # t" "isDigitUnit u"
    using showBigint_hd [OF assms(1)] by (cases "showBigint n") auto
  have "48 \<le> u" "u \<le> 57" using u(2) by (simp_all add: isDigitUnit_def)
  then have not: "u \<noteq> 34" "u \<noteq> 91" "u \<noteq> 123" "u \<noteq> 110" "u \<noteq> 116" "u \<noteq> 102" "\<not> isWhite u"
    by (auto simp: isWhite_def word_le_nat_alt)
  then have "stripPrefix (js ''null'') (u # t @ r) = None" "stripPrefix (js ''true'') (u # t @ r) = None"
    "stripPrefix (js ''false'') (u # t @ r) = None"
    by (simp_all add: stripPrefix_def js_null)
  then show ?thesis
    using not u parseNumber_show [OF assms] parseValue.simps [of N "u # t @ r"] by simp
qed

lemma bracket_not_begins: "begins s \<Longrightarrow> \<exists>u t. skipWhite s = u # t \<and> u \<noteq> 93 \<and> u \<noteq> 125"
  by (cases s) (auto simp: begins_def skipWhite_def isWhite_def)

lemma commaJoin_begins:
  assumes "xs \<noteq> []" "\<And>x r. x \<in> set xs \<Longrightarrow> begins (f x @ r)"
  shows "begins (commaJoin (map f xs) @ r)"
  using assms by (cases xs; cases "tl xs") auto

theorem parse_print:
  assumes N: "exactIntegers N"
  shows "plainJson j \<Longrightarrow> parsesBack N j"
proof (induction j)
  case (JsonBool b)
  then show ?case by (cases b) (simp_all add: parsesBack_def parseValue_literal)
next
  case (JsonNumber v)
  then have "isNonNegativeSafeInteger v" by simp
  then obtain n where "0 \<le> n" "printJson N (JsonNumber v) = showBigint n" "numberValue N (of_int n) = v"
    by (rule number_shown [OF N])
  then show ?case by (simp add: parsesBack_def parseValue_number)
next
  case (JsonString s)
  have "parseValue N (34 # escapeUnits s @ 34 # r) = Some (JsonString s, r)" for r
    by (simp add: parseValue.simps [of N "34 # _"] isWhite_def parseChars_escaped)
  then show ?case by (simp add: parsesBack_def quoteString_def)
next
  case (JsonArray xs)
  have "parseValue N (91 # commaJoin (map (printJson N) xs) @ 93 # r) = Some (JsonArray xs, r)" for r
  proof (cases "xs = []")
    case True
    then show ?thesis by (simp add: parseValue.simps [of N "91 # _"] isWhite_def)
  next
    case False
    have "begins (commaJoin (map (printJson N) xs) @ 93 # r)"
      by (rule commaJoin_begins [OF False]) (use JsonArray.prems begins_print [OF N] in \<open>auto simp: list_all_iff\<close>)
    then obtain u t where "skipWhite (commaJoin (map (printJson N) xs) @ 93 # r) = u # t" "u \<noteq> 93"
      using bracket_not_begins by blast
    moreover have "parseElements N (commaJoin (map (printJson N) xs) @ 93 # r) = Some (xs, r)"
      by (rule parseElements_print [OF False]) (use JsonArray in \<open>auto simp: list_all_iff\<close>)
    ultimately show ?thesis
      using parseValue.simps [of N "91 # commaJoin (map (printJson N) xs) @ 93 # r"] by (simp add: isWhite_def)
  qed
  then show ?case by (simp add: parsesBack_def)
next
  case (JsonObject ms)
  let ?f = "\<lambda>(k, v). quoteString k @ [58] @ printJson N v"
  have "parseValue N (123 # commaJoin (map ?f ms) @ 125 # r) = Some (JsonObject ms, r)" for r
  proof (cases "ms = []")
    case True
    then show ?thesis by (simp add: parseValue.simps [of N "123 # _"] isWhite_def)
  next
    case False
    have "begins (commaJoin (map ?f ms) @ 125 # r)"
      by (rule commaJoin_begins [OF False]) (auto simp: begins_def quoteString_def)
    then obtain u t where "skipWhite (commaJoin (map ?f ms) @ 125 # r) = u # t" "u \<noteq> 125"
      using bracket_not_begins by blast
    moreover have "parseMembers N (commaJoin (map ?f ms) @ 125 # r) = Some (ms, r)"
      by (rule parseMembers_print [OF False]) (use JsonObject in \<open>auto simp: list_all_iff\<close>)
    moreover have "objectOf ms = JsonObject ms" using JsonObject.prems by (intro objectOf_distinct) simp
    ultimately show ?thesis
      using parseValue.simps [of N "123 # commaJoin (map ?f ms) @ 125 # r"] by (simp add: isWhite_def)
  qed
  then show ?case by (simp add: parsesBack_def)
qed (simp_all add: parsesBack_def parseValue_literal)

end
