(* ===== verification/Gate.thy ===== *)
theory Gate
  imports Persistence JsonProofs
begin

text \<open>
  \<^verbatim>\<open>state/signer-gate.ts\<close>: the decision whether a new attempt may be prepared, from the persistence
  state, the two recovery flags, the retained attempts and the coordinator's blockers; and
  \<^verbatim>\<open>state/durable-recovery-revision.ts\<close>: the text that identifies the committed recovery state.
\<close>

subsection \<open>Blockers, ordered by precedence\<close>

datatype SignerBlocker =
    PersistenceFailure
  | UnattributedSignerActivity
  | ConflictSearchExhausted
  | UnresolvedAttempt
  | RetentionCapacityReached
  | RecoveryIncomplete

definition BLOCKER_PRECEDENCE :: "SignerBlocker list" where
  "BLOCKER_PRECEDENCE =
     [PersistenceFailure, UnattributedSignerActivity, ConflictSearchExhausted, UnresolvedAttempt,
      RetentionCapacityReached, RecoveryIncomplete]"

fun blockerRank :: "SignerBlocker \<Rightarrow> nat" where
  "blockerRank PersistenceFailure = 0"
| "blockerRank UnattributedSignerActivity = 1"
| "blockerRank ConflictSearchExhausted = 2"
| "blockerRank UnresolvedAttempt = 3"
| "blockerRank RetentionCapacityReached = 4"
| "blockerRank RecoveryIncomplete = 5"

instantiation SignerBlocker :: linorder
begin

definition less_eq_SignerBlocker :: "SignerBlocker \<Rightarrow> SignerBlocker \<Rightarrow> bool" where
  "less_eq_SignerBlocker a b = (blockerRank a \<le> blockerRank b)"

definition less_SignerBlocker :: "SignerBlocker \<Rightarrow> SignerBlocker \<Rightarrow> bool" where
  "less_SignerBlocker a b = (blockerRank a < blockerRank b)"

instance
proof
  fix a b c :: SignerBlocker
  show "a \<le> b \<Longrightarrow> b \<le> a \<Longrightarrow> a = b"
    by (cases a; cases b) (simp_all add: less_eq_SignerBlocker_def)
qed (auto simp: less_eq_SignerBlocker_def less_SignerBlocker_def)

end

text \<open>The blockers that the coordinator itself keeps.\<close>

definition coordinatorBlocker :: "SignerBlocker \<Rightarrow> bool" where
  "coordinatorBlocker b = (b = UnattributedSignerActivity \<or> b = ConflictSearchExhausted)"

lemma BLOCKER_PRECEDENCE_set [simp]: "set BLOCKER_PRECEDENCE = UNIV"
proof -
  have "b \<in> set BLOCKER_PRECEDENCE" for b by (cases b) (simp_all add: BLOCKER_PRECEDENCE_def)
  then show ?thesis by auto
qed

lemma BLOCKER_PRECEDENCE_sorted: "sorted_wrt (<) BLOCKER_PRECEDENCE"
  by (simp add: BLOCKER_PRECEDENCE_def less_SignerBlocker_def)

subsection \<open>The gate\<close>

record SignerGateDecision =
  gateOpen :: bool
  gateBlockers :: "SignerBlocker list"
  gatePrimaryReason :: "SignerBlocker option"

definition currentAttempts :: "TransactionJournalRead \<Rightarrow> JournalAttempt list" where
  "currentAttempts r = (case r of Missing \<Rightarrow> [] | Present s \<Rightarrow> attempts s)"

definition gateReasons ::
  "persistence_state \<Rightarrow> TransactionJournalRead \<Rightarrow> bool \<Rightarrow> bool \<Rightarrow> int \<Rightarrow> SignerBlocker set \<Rightarrow>
   SignerBlocker set" where
  "gateReasons st current recovered checked capacity blockers =
     blockers \<union>
     (if st = Failed then {PersistenceFailure} else {}) \<union>
     (if \<not> recovered \<or> \<not> checked \<or> current = Missing then {RecoveryIncomplete} else {}) \<union>
     (case current of Missing \<Rightarrow> {}
      | Present s \<Rightarrow>
          (if list_ex (\<lambda>a. \<not> isIncluded a) (attempts s) then {UnresolvedAttempt} else {}) \<union>
          (if capacity \<le> int (length (attempts s)) then {RetentionCapacityReached} else {}))"

definition evaluateSignerGate ::
  "persistence_state \<Rightarrow> TransactionJournalRead \<Rightarrow> bool \<Rightarrow> bool \<Rightarrow> jsval \<Rightarrow> SignerBlocker set \<Rightarrow>
   exn + SignerGateDecision" where
  "evaluateSignerGate st current recovered checked capacity blockers =
     checkE (isPositiveSafeInteger capacity) (TypeError ''Invalid retained attempt capacity.'') (\<lambda>_.
       let reasons = gateReasons st current recovered checked (numInt capacity) blockers;
           ordered = filter (\<lambda>b. b \<in> reasons) BLOCKER_PRECEDENCE
       in Inr \<lparr>gateOpen = (st = Idle \<and> ordered = []), gateBlockers = ordered,
               gatePrimaryReason = (case ordered of [] \<Rightarrow> None | b # _ \<Rightarrow> Some b)\<rparr>)"

lemma evaluateSignerGate_open_iff:
  assumes "evaluateSignerGate st current recovered checked capacity blockers = Inr g"
  shows "gateOpen g \<longleftrightarrow>
    st = Idle \<and> recovered \<and> checked \<and> blockers = {} \<and>
    (\<exists>s. current = Present s \<and> list_all isIncluded (attempts s) \<and>
       int (length (attempts s)) < numInt capacity)"
  using assms
  by (auto simp: evaluateSignerGate_def checkE_Inr Let_def filter_empty_conv gateReasons_def
      list_ex_iff list_all_iff not_less split: TransactionJournalRead.splits if_splits)

lemma evaluateSignerGate_reasons:
  assumes "evaluateSignerGate st current recovered checked capacity blockers = Inr g"
  shows "set (gateBlockers g) = gateReasons st current recovered checked (numInt capacity) blockers
    \<and> sorted_wrt (<) (gateBlockers g)"
  using assms BLOCKER_PRECEDENCE_sorted
  by (auto simp: evaluateSignerGate_def checkE_Inr Let_def sorted_wrt_filter)

text \<open>The primary reason is the reason of highest precedence.\<close>

lemma evaluateSignerGate_primary:
  assumes "evaluateSignerGate st current recovered checked capacity blockers = Inr g"
  shows "case gatePrimaryReason g of None \<Rightarrow> gateBlockers g = []
    | Some b \<Rightarrow> b \<in> set (gateBlockers g) \<and> (\<forall>c \<in> set (gateBlockers g). b \<le> c)"
proof -
  have "sorted_wrt (<) (gateBlockers g)" using evaluateSignerGate_reasons [OF assms] by simp
  moreover have "gatePrimaryReason g = (case gateBlockers g of [] \<Rightarrow> None | b # _ \<Rightarrow> Some b)"
    using assms by (auto simp: evaluateSignerGate_def checkE_Inr Let_def)
  ultimately show ?thesis by (cases "gateBlockers g") (auto intro: less_imp_le)
qed

subsection \<open>The durable recovery revision\<close>

definition jsonObj :: "(string \<times> json) list \<Rightarrow> json" where
  "jsonObj ps = JsonObject (map (\<lambda>(k, v). (js k, v)) ps)"

fun blockerName :: "SignerBlocker \<Rightarrow> jstr" where
  "blockerName PersistenceFailure = js ''persistence-failure''"
| "blockerName UnattributedSignerActivity = js ''unattributed-signer-activity''"
| "blockerName ConflictSearchExhausted = js ''conflict-search-exhausted''"
| "blockerName UnresolvedAttempt = js ''unresolved-attempt''"
| "blockerName RetentionCapacityReached = js ''retention-capacity-reached''"
| "blockerName RecoveryIncomplete = js ''recovery-incomplete''"

definition projectAnchor :: "BlockAnchor \<Rightarrow> json" where
  "projectAnchor a = jsonObj [
     (''blockNumber'', JsonString (showBigint (blockNumber a))),
     (''blockHash'', JsonString (toLowerCase (blockHash a)))]"

fun projectInclusion :: "JournalInclusionObservation \<Rightarrow> json" where
  "projectInclusion (ReplacedInclusion i p h n) = jsonObj [
     (''outcome'', JsonString (js ''replaced'')),
     (''replacementTransactionHash'', JsonString (toLowerCase h)),
     (''nonceAtAnchor'', JsonString (showBigint n)), (''inclusion'', projectAnchor i)]"
| "projectInclusion (RecordedInclusion i p r h) = jsonObj [
     (''outcome'', JsonString (case r of Success \<Rightarrow> js ''success'' | Reverted \<Rightarrow> js ''reverted'')),
     (''transactionHash'', JsonString (toLowerCase h)), (''inclusion'', projectAnchor i)]"

definition projectSearch :: "ReplacementSearch \<Rightarrow> json" where
  "projectSearch s = jsonObj [
     (''lowerBound'', jsonObj [
        (''anchor'', projectAnchor (anchor (lowerBound s))),
        (''nonce'', JsonString (showBigint (obsNonce (lowerBound s))))]),
     (''searchedThrough'', case searchedThrough s of None \<Rightarrow> JsonNull | Some a \<Rightarrow> projectAnchor a)]"

definition projectAttempt :: "JournalAttempt \<Rightarrow> json" where
  "projectAttempt a = jsonObj [
     (''attemptId'', JsonString (attemptId a)),
     (''nonce'', JsonString (showBigint (attemptNonce a))),
     (''phase'', JsonString (phaseName (phase a))),
     (''transactionHashes'',
        JsonArray (map (\<lambda>t. JsonString (toLowerCase (transactionHash t))) (signedTransactions a))),
     (''inclusion'', case phaseInclusion (phase a) of None \<Rightarrow> JsonNull | Some i \<Rightarrow> projectInclusion i),
     (''replacementSearch'', case replacementSearch a of None \<Rightarrow> JsonNull | Some s \<Rightarrow> projectSearch s)]"

definition revisionProjection :: "TransactionJournalRead \<Rightarrow> SignerBlocker set \<Rightarrow> json" where
  "revisionProjection current blockers =
     (let persistent = JsonArray (map (\<lambda>b. JsonString (blockerName b))
            (filter (\<lambda>b. coordinatorBlocker b \<and> b \<in> blockers) BLOCKER_PRECEDENCE))
      in case current of
           Missing \<Rightarrow> jsonObj [(''kind'', JsonString (js ''missing'')), (''blockers'', persistent)]
         | Present s \<Rightarrow> jsonObj [
             (''kind'', JsonString (js ''present'')),
             (''nextNonce'', JsonString (showBigint (nextNonce s))),
             (''durableNextNonce'', JsonString (showBigint (durableNextNonce s))),
             (''attempts'', JsonArray (map projectAttempt (attempts s))),
             (''blockers'', persistent)])"

text \<open>No number occurs in the projection, so the number format plays no part in its text.\<close>

definition durableRecoveryRevision :: "TransactionJournalRead \<Rightarrow> SignerBlocker set \<Rightarrow> jstr" where
  "durableRecoveryRevision current blockers = printJson integerFormat (revisionProjection current blockers)"

end
