(* ===== verification/ChainReads.thy ===== *)
theory ChainReads
  imports Gate
begin

text \<open>
  Reads from the chain: \<^verbatim>\<open>chain/block-anchor.ts\<close>, \<^verbatim>\<open>chain/nonce-response.ts\<close>,
  \<^verbatim>\<open>chain/read-anchored-nonce.ts\<close>, \<^verbatim>\<open>chain/inspect-signer-bootstrap.ts\<close>,
  \<^verbatim>\<open>chain/finality-policy.ts\<close>, \<^verbatim>\<open>chain/chain-heads.ts\<close> and \<^verbatim>\<open>chain/chain-heads-reader.ts\<close>.

  The RPC client is viem's \<^verbatim>\<open>PublicClient\<close>: a record of computations on the world, so that every
  request may answer differently. The source checks the answers at run time, so their fields are
  unknown values. The registration of failures for diagnostics has no effect on these functions
  and is left out, and so are the block numbers and field names inside error messages.
\<close>

subsection \<open>The client\<close>

record block_response =
  brNumber :: jsval
  brHash :: jsval
  brParentHash :: jsval
  brTransactions :: jsval

record receipt_response =
  rrTransactionHash :: jsval
  rrBlockNumber :: jsval
  rrBlockHash :: jsval
  rrStatus :: jsval

datatype block_tag = Safe | Finalized | Latest | Pending

text \<open>
  \<open>clientId\<close> tells client objects apart, as \<^verbatim>\<open>!==\<close> does. \<open>getFullBlock\<close> is \<^verbatim>\<open>getBlock\<close> with
  \<^verbatim>\<open>includeTransactions\<close>, and \<open>requestSendRaw\<close> the request \<^verbatim>\<open>eth_sendRawTransaction\<close> without retry.
\<close>

record 'w chain_client =
  clientId :: nat
  getBlock :: "int \<Rightarrow> ('w, block_response) io"
  getFullBlock :: "int \<Rightarrow> ('w, block_response) io"
  getTaggedBlockNumber :: "block_tag \<Rightarrow> ('w, int) io"
  getBlockNumber :: "('w, int) io"
  getTransactionCountAt :: "jstr \<Rightarrow> int \<Rightarrow> ('w, jsval) io"
  getTransactionCountTagged :: "jstr \<Rightarrow> block_tag \<Rightarrow> ('w, jsval) io"
  getTransactionReceipt :: "jstr \<Rightarrow> ('w, receipt_response) io"
  requestSendRaw :: "jstr \<Rightarrow> ('w, jsval) io"

subsection \<open>Block anchors\<close>

definition blockAnchorsMatch :: "BlockAnchor \<Rightarrow> BlockAnchor \<Rightarrow> bool" where
  "blockAnchorsMatch a b =
     (blockNumber a = blockNumber b \<and> toLowerCase (blockHash a) = toLowerCase (blockHash b))"

definition getBlockAnchor :: "'w chain_client \<Rightarrow> int \<Rightarrow> ('w, BlockAnchor) io" where
  "getBlockAnchor C n =
     andThen (unlessThrow (0 \<le> n) (PlainError ''Block anchor number must not be negative.'')) (\<lambda>_.
     andThen (getBlock C n) (\<lambda>b.
     andThen (unlessThrow (brNumber b = JBigint n \<and> isFixedHex (brHash b) 32)
       (PlainError ''Invalid block anchor response.'')) (\<lambda>_.
     ret \<lparr>blockNumber = n, blockHash = stringOf (brHash b)\<rparr>)))"

text \<open>\<open>None\<close> where the block is still the expected one, else the anchor observed in its place.\<close>

definition checkBlockAnchor :: "'w chain_client \<Rightarrow> BlockAnchor \<Rightarrow> ('w, BlockAnchor option) io" where
  "checkBlockAnchor C expected =
     andThen (getBlockAnchor C (blockNumber expected)) (\<lambda>observed.
       ret (if blockAnchorsMatch expected observed then None else Some observed))"

lemma blockAnchorsMatch_refl [simp]: "blockAnchorsMatch a a"
  by (simp add: blockAnchorsMatch_def)

lemma blockAnchorsMatch_sym: "blockAnchorsMatch a b \<Longrightarrow> blockAnchorsMatch b a"
  by (simp add: blockAnchorsMatch_def)

lemma blockAnchorsMatch_trans:
  "blockAnchorsMatch a b \<Longrightarrow> blockAnchorsMatch b c \<Longrightarrow> blockAnchorsMatch a c"
  by (simp add: blockAnchorsMatch_def)

lemma getBlockAnchor_Inr:
  "getBlockAnchor C n w = (Inr a, v) \<longleftrightarrow>
     0 \<le> n \<and> (\<exists>b. getBlock C n w = (Inr b, v) \<and> brNumber b = JBigint n \<and>
       isFixedHex (brHash b) 32 \<and> a = \<lparr>blockNumber = n, blockHash = stringOf (brHash b)\<rparr>)"
  by (auto simp: getBlockAnchor_def andThen_Inr)

text \<open>An anchor read from a client names the block asked for and has a well-formed hash.\<close>

lemma getBlockAnchor_wf:
  "wp (getBlockAnchor C n) (\<lambda>a _. 0 \<le> n \<and> blockNumber a = n \<and> fixedHex (blockHash a) 32)
     (\<lambda>_ _. True) w"
  by (auto intro!: wpI simp: getBlockAnchor_Inr isFixedHex_iff)

lemma checkBlockAnchor_Inr:
  "checkBlockAnchor C e w = (Inr r, v) \<longleftrightarrow>
     (\<exists>a. getBlockAnchor C (blockNumber e) w = (Inr a, v) \<and>
        r = (if blockAnchorsMatch e a then None else Some a))"
  by (auto simp: checkBlockAnchor_def andThen_Inr)

subsection \<open>Nonces\<close>

definition parseNonceResponse :: "jsval \<Rightarrow> exn + int" where
  "parseNonceResponse v =
     checkE (isNonNegativeSafeInteger v) (TypeError ''Invalid nonce response.'') (\<lambda>_. Inr (numInt v))"

lemma parseNonceResponse_Inr:
  "parseNonceResponse v = Inr n \<longleftrightarrow> v = JNum (of_int n) \<and> 0 \<le> n \<and> n \<le> MAX_SAFE_INTEGER"
  by (auto simp: parseNonceResponse_def checkE_Inr isNonNegativeSafeInteger_iff)

datatype AnchoredNonceResult =
    NonceVerified AnchoredNonceObservation
  | NonceAnchorChanged BlockAnchor

lemma AnchoredNonceResult_Inr [io_cases]:
  "(case r of NonceVerified p \<Rightarrow> f p | NonceAnchorChanged a \<Rightarrow> g a) s = (Inr y, t) \<longleftrightarrow>
     (\<exists>p. r = NonceVerified p \<and> f p s = (Inr y, t)) \<or>
     (\<exists>a. r = NonceAnchorChanged a \<and> g a s = (Inr y, t))"
  by (cases r) auto

definition readAnchoredNonce ::
  "'w chain_client \<Rightarrow> jstr \<Rightarrow> BlockAnchor \<Rightarrow> ('w, AnchoredNonceResult) io" where
  "readAnchoredNonce C who a =
     andThen (unlessThrow (fixedHex who 20 \<and> 0 \<le> blockNumber a \<and> fixedHex (blockHash a) 32)
       (TypeError ''Invalid anchored nonce input.'')) (\<lambda>_.
     andThen (checkBlockAnchor C a) (\<lambda>prior.
     case prior of Some o1 \<Rightarrow> ret (NonceAnchorChanged o1) | None \<Rightarrow>
     andThen (andThen (getTransactionCountAt C who (blockNumber a)) (\<lambda>v. liftPure (parseNonceResponse v)))
       (\<lambda>n.
     andThen (checkBlockAnchor C a) (\<lambda>after.
     case after of Some o2 \<Rightarrow> ret (NonceAnchorChanged o2) | None \<Rightarrow>
     ret (NonceVerified \<lparr>anchor = a, obsNonce = n\<rparr>)))))"

text \<open>
  A verified observation names the anchor asked for, whose block was seen before and after the
  count was read.
\<close>

lemma readAnchoredNonce_Inr:
  "readAnchoredNonce C who a w = (Inr (NonceVerified p), v) \<longleftrightarrow>
     fixedHex who 20 \<and> 0 \<le> blockNumber a \<and> fixedHex (blockHash a) 32 \<and> anchor p = a \<and>
     0 \<le> obsNonce p \<and> obsNonce p \<le> MAX_SAFE_INTEGER \<and>
     (\<exists>u1 u2. checkBlockAnchor C a w = (Inr None, u1) \<and>
        getTransactionCountAt C who (blockNumber a) u1 = (Inr (JNum (of_int (obsNonce p))), u2) \<and>
        checkBlockAnchor C a u2 = (Inr None, v))"
proof
  assume "readAnchoredNonce C who a w = (Inr (NonceVerified p), v)"
  then show "fixedHex who 20 \<and> 0 \<le> blockNumber a \<and> fixedHex (blockHash a) 32 \<and> anchor p = a \<and>
     0 \<le> obsNonce p \<and> obsNonce p \<le> MAX_SAFE_INTEGER \<and>
     (\<exists>u1 u2. checkBlockAnchor C a w = (Inr None, u1) \<and>
        getTransactionCountAt C who (blockNumber a) u1 = (Inr (JNum (of_int (obsNonce p))), u2) \<and>
        checkBlockAnchor C a u2 = (Inr None, v))"
    by (fastforce simp: readAnchoredNonce_def andThen_Inr parseNonceResponse_Inr split: option.splits)
next
  assume r: "fixedHex who 20 \<and> 0 \<le> blockNumber a \<and> fixedHex (blockHash a) 32 \<and> anchor p = a \<and>
     0 \<le> obsNonce p \<and> obsNonce p \<le> MAX_SAFE_INTEGER \<and>
     (\<exists>u1 u2. checkBlockAnchor C a w = (Inr None, u1) \<and>
        getTransactionCountAt C who (blockNumber a) u1 = (Inr (JNum (of_int (obsNonce p))), u2) \<and>
        checkBlockAnchor C a u2 = (Inr None, v))"
  then show "readAnchoredNonce C who a w = (Inr (NonceVerified p), v)"
    by (cases p) (auto simp: readAnchoredNonce_def andThen_def unlessThrow_def ret_def liftPure_def
        parseNonceResponse_Inr [THEN iffD2])
qed

lemma readAnchoredNonce_wp:
  "wp (readAnchoredNonce C who a)
     (\<lambda>r _. case r of NonceVerified p \<Rightarrow> anchor p = a \<and> 0 \<le> obsNonce p \<and>
          obsNonce p \<le> MAX_SAFE_INTEGER \<and> 0 \<le> blockNumber a \<and> fixedHex (blockHash a) 32
        | NonceAnchorChanged _ \<Rightarrow> True) (\<lambda>_ _. True) w"
  by (auto intro!: wpI simp: readAnchoredNonce_Inr split: AnchoredNonceResult.split)

subsection \<open>Bootstrap\<close>

datatype SignerBootstrapDecision =
    BootstrapReady AnchoredNonceObservation
  | BootstrapDeferred AnchoredNonceObservation int int
  | BootstrapAnchorChanged BlockAnchor

definition readLiveNonce :: "'w chain_client \<Rightarrow> jstr \<Rightarrow> block_tag \<Rightarrow> ('w, int) io" where
  "readLiveNonce C who tag =
     andThen (getTransactionCountTagged C who tag) (\<lambda>v. liftPure (parseNonceResponse v))"

definition inspectSignerBootstrap ::
  "'w chain_client \<Rightarrow> jstr \<Rightarrow> BlockAnchor \<Rightarrow> ('w, SignerBootstrapDecision) io" where
  "inspectSignerBootstrap C who a =
     andThen (readAnchoredNonce C who a) (\<lambda>r.
     case r of NonceAnchorChanged o1 \<Rightarrow> ret (BootstrapAnchorChanged o1) | NonceVerified p \<Rightarrow>
     andThen (readLiveNonce C who Latest) (\<lambda>latest.
     andThen (readLiveNonce C who Pending) (\<lambda>pend.
     andThen (checkBlockAnchor C (anchor p)) (\<lambda>closing.
     case closing of Some o2 \<Rightarrow> ret (BootstrapAnchorChanged o2) | None \<Rightarrow>
       if latest \<noteq> obsNonce p \<or> pend \<noteq> obsNonce p then ret (BootstrapDeferred p latest pend)
       else ret (BootstrapReady p)))))"

text \<open>A journal may start only from an observation to which both live counts agree.\<close>

lemma inspectSignerBootstrap_ready:
  assumes "inspectSignerBootstrap C who a w = (Inr (BootstrapReady p), v)"
  shows "\<exists>u1 u2 u3. readAnchoredNonce C who a w = (Inr (NonceVerified p), u1) \<and> anchor p = a \<and>
    getTransactionCountTagged C who Latest u1 = (Inr (JNum (of_int (obsNonce p))), u2) \<and>
    getTransactionCountTagged C who Pending u2 = (Inr (JNum (of_int (obsNonce p))), u3) \<and>
    checkBlockAnchor C a u3 = (Inr None, v)"
proof -
  from assms obtain u1 u2 u3 where r: "readAnchoredNonce C who a w = (Inr (NonceVerified p), u1)"
    and l: "readLiveNonce C who Latest u1 = (Inr (obsNonce p), u2)"
    and d: "readLiveNonce C who Pending u2 = (Inr (obsNonce p), u3)"
    and c: "checkBlockAnchor C (anchor p) u3 = (Inr None, v)"
    by (auto simp: inspectSignerBootstrap_def andThen_Inr io_cases)
  from r have "anchor p = a" by (simp add: readAnchoredNonce_Inr)
  with r l d c show ?thesis
    by (auto simp: readLiveNonce_def andThen_Inr parseNonceResponse_Inr)
qed

subsection \<open>Finality and chain heads\<close>

datatype FinalityPolicy = SafeFinality | FinalizedFinality | Confirmations int

definition assertExactKeys :: "(jstr \<times> jprop) list \<Rightarrow> string list \<Rightarrow> exn + unit" where
  "assertExactKeys ps expected =
     checkE (list_all (\<lambda>(k, _). k \<in> set (map js expected)) ps)
       (PlainError ''Unexpected finality policy field.'') (\<lambda>_.
     checkE (list_all (\<lambda>k. map_of ps (js k) \<noteq> None) expected)
       (PlainError ''Missing finality policy field.'') (\<lambda>_. Inr ()))"

definition parseFinalityPolicy :: "jsval \<Rightarrow> exn + FinalityPolicy" where
  "parseFinalityPolicy v =
     (case v of
        JObject ps \<Rightarrow>
          (case ownData ps ''type'' of
             Some (JString t) \<Rightarrow>
               if t = js ''safe'' then
                 bindE (assertExactKeys ps [''type'']) (\<lambda>_. Inr SafeFinality)
               else if t = js ''finalized'' then
                 bindE (assertExactKeys ps [''type'']) (\<lambda>_. Inr FinalizedFinality)
               else if t = js ''confirmations'' then
                 bindE (assertExactKeys ps [''type'', ''confirmations'']) (\<lambda>_.
                   case ownData ps ''confirmations'' of
                     Some (JString s) \<Rightarrow>
                       if isDecimalInteger s then Inr (Confirmations (parseBigint s))
                       else Inl (PlainError ''Finality confirmations must be a non-negative decimal integer string.'')
                   | _ \<Rightarrow> Inl (PlainError ''Finality confirmations must be a non-negative decimal integer string.''))
               else Inl (PlainError ''Finality policy type must be safe, finalized, or confirmations.'')
           | _ \<Rightarrow> Inl (PlainError ''Finality policy type must be safe, finalized, or confirmations.''))
      | _ \<Rightarrow> Inl (PlainError ''Finality policy must be an object.''))"

definition getDurableBlockNumber :: "'w chain_client \<Rightarrow> FinalityPolicy \<Rightarrow> ('w, int) io" where
  "getDurableBlockNumber C policy =
     (case policy of
        SafeFinality \<Rightarrow> getTaggedBlockNumber C Safe
      | FinalizedFinality \<Rightarrow> getTaggedBlockNumber C Finalized
      | Confirmations k \<Rightarrow>
          andThen (unlessThrow (0 \<le> k) (PlainError ''Finality confirmations must not be negative.''))
            (\<lambda>_. andThen (getBlockNumber C) (\<lambda>latest.
              ret (if latest \<le> k then 0 else latest - k))))"

record ChainHeads =
  latestBlock :: int
  durableBlock :: int

abbreviation DURABLE_AHEAD :: exn where
  "DURABLE_AHEAD \<equiv> PlainError ''Durable block is ahead of latest block.''"

definition getChainHeads :: "'w chain_client \<Rightarrow> FinalityPolicy \<Rightarrow> ('w, ChainHeads) io" where
  "getChainHeads C policy =
     andThen (getDurableBlockNumber C policy) (\<lambda>durable.
     andThen (getBlockNumber C) (\<lambda>latest.
     andThen (unlessThrow (durable \<le> latest) DURABLE_AHEAD) (\<lambda>_.
     ret \<lparr>latestBlock = latest, durableBlock = durable\<rparr>)))"

text \<open>
  \<^verbatim>\<open>createChainHeadsReader\<close>: a closure over the cached durable head. The clock (milliseconds) is a
  computation on the world; the cached head is the state.
\<close>

record CachedDurableHead =
  cachedBlock :: int
  readStartedAt :: rat

type_synonym heads_cache = "CachedDurableHead option"

definition createChainHeadsReader :: "jsval \<Rightarrow> exn + heads_cache" where
  "createChainHeadsReader interval =
     checkE (isPositiveSafeInteger interval)
       (PlainError ''durableHeadPollIntervalMs must be a positive safe integer.'') (\<lambda>_. Inr None)"

definition readChainHeads ::
  "'w chain_client \<Rightarrow> FinalityPolicy \<Rightarrow> rat \<Rightarrow> ('w, rat) io \<Rightarrow> (heads_cache \<times> 'w, ChainHeads) io" where
  "readChainHeads C policy interval clock =
     (case policy of Confirmations _ \<Rightarrow> onWorld (getChainHeads C policy)
      | _ \<Rightarrow>
        andThen (onWorld clock) (\<lambda>startedAt.
        andThen getState (\<lambda>(cache, _).
        case cache of
          Some prev \<Rightarrow>
            if interval \<le> startedAt - readStartedAt prev then
              andThen (modifyState (\<lambda>(_, w). (None, w))) (\<lambda>_.
              andThen (onWorld (getChainHeads C policy)) (\<lambda>heads.
              andThen (modifyState (\<lambda>(_, w).
                (Some \<lparr>cachedBlock = durableBlock heads, readStartedAt = startedAt\<rparr>, w))) (\<lambda>_.
              ret heads)))
            else
              tryCatch (onWorld
                (andThen (getBlockNumber C) (\<lambda>latest.
                 andThen (unlessThrow (cachedBlock prev \<le> latest) DURABLE_AHEAD) (\<lambda>_.
                 ret \<lparr>latestBlock = latest, durableBlock = cachedBlock prev\<rparr>))))
                (\<lambda>e. andThen (modifyState (\<lambda>(_, w). (None, w))) (\<lambda>_. throw e))
        | None \<Rightarrow>
            andThen (modifyState (\<lambda>(_, w). (None, w))) (\<lambda>_.
            andThen (onWorld (getChainHeads C policy)) (\<lambda>heads.
            andThen (modifyState (\<lambda>(_, w).
              (Some \<lparr>cachedBlock = durableBlock heads, readStartedAt = startedAt\<rparr>, w))) (\<lambda>_.
            ret heads))))))"

lemma getChainHeads_wp:
  "wp (getChainHeads C policy) (\<lambda>h _. durableBlock h \<le> latestBlock h) (\<lambda>_ _. True) w"
  by (auto intro!: wpI simp: getChainHeads_def andThen_Inr)

text \<open>The heads returned are ordered, and a failed read drops the cached head.\<close>

lemma readChainHeads_ordered:
  "wp (readChainHeads C policy interval clock) (\<lambda>h _. durableBlock h \<le> latestBlock h)
     (\<lambda>_ _. True) (cache, w)"
  by (auto intro!: wpI simp: readChainHeads_def onWorld_def getChainHeads_def andThen_def
      tryCatch_def unlessThrow_def ret_def throw_def getState_def modifyState_def
      split: FinalityPolicy.splits option.splits if_splits sum.splits prod.splits)

end
