(* ===== verification/Receipts.thy ===== *)
theory Receipts
  imports ChainReads
begin

text \<open>
  Receipts as evidence: \<^verbatim>\<open>diagnostics/resolution-validation.ts\<close> (and the type in
  \<^verbatim>\<open>diagnostics/transaction-evidence.ts\<close>), \<^verbatim>\<open>chain/reconcile-attempt-receipt.ts\<close> and
  \<^verbatim>\<open>chain/recheck-attempt-inclusion.ts\<close>.
\<close>

subsection \<open>Resolution evidence\<close>

datatype AttemptResolutionEvidence =
    RecordedResolution (evidenceAnchor: BlockAnchor) (evidenceInclusion: BlockAnchor)
      receipt_outcome jstr
  | ReplacedResolution (evidenceAnchor: BlockAnchor) (evidenceInclusion: BlockAnchor) jstr int

abbreviation INVALID_EVIDENCE :: exn where
  "INVALID_EVIDENCE \<equiv> TypeError ''Invalid attempt resolution evidence.''"

abbreviation checkEvidence :: "bool \<Rightarrow> (unit \<Rightarrow> exn + 'a) \<Rightarrow> exn + 'a" where
  "checkEvidence b k \<equiv> checkE b INVALID_EVIDENCE k"

definition evidenceField :: "jsval \<Rightarrow> string \<Rightarrow> exn + jsval" where
  "evidenceField input key =
     (case input of
        JObject ps \<Rightarrow> (case ownData ps key of Some v \<Rightarrow> Inr v | None \<Rightarrow> Inl INVALID_EVIDENCE)
      | _ \<Rightarrow> Inl INVALID_EVIDENCE)"

definition evidenceHash :: "jsval \<Rightarrow> exn + jstr" where
  "evidenceHash v = checkEvidence (isFixedHex v 32) (\<lambda>_. Inr (stringOf v))"

definition evidenceUint :: "jsval \<Rightarrow> exn + int" where
  "evidenceUint v =
     (case v of JBigint n \<Rightarrow> checkEvidence (0 \<le> n \<and> n < 2 ^ 256) (\<lambda>_. Inr n)
      | _ \<Rightarrow> Inl INVALID_EVIDENCE)"

definition evidenceBlock :: "jsval \<Rightarrow> exn + BlockAnchor" where
  "evidenceBlock v =
     bindE (evidenceField v ''blockNumber'') (\<lambda>a. bindE (evidenceUint a) (\<lambda>n.
     bindE (evidenceField v ''blockHash'') (\<lambda>b. bindE (evidenceHash b) (\<lambda>h.
     Inr \<lparr>blockNumber = n, blockHash = h\<rparr>))))"

definition snapshotResolutionEvidence :: "jsval \<Rightarrow> exn + AttemptResolutionEvidence" where
  "snapshotResolutionEvidence input =
     bindE (evidenceField input ''anchor'') (\<lambda>v. bindE (evidenceBlock v) (\<lambda>anch.
     bindE (evidenceField input ''inclusion'') (\<lambda>v. bindE (evidenceBlock v) (\<lambda>incl.
     checkEvidence (blockNumber incl \<le> blockNumber anch) (\<lambda>_.
     checkEvidence (blockNumber incl = blockNumber anch \<longrightarrow>
         toLowerCase (blockHash incl) = toLowerCase (blockHash anch)) (\<lambda>_.
     bindE (evidenceField input ''outcome'') (\<lambda>outcome.
     if outcome = JString (js ''success'') \<or> outcome = JString (js ''reverted'') then
       bindE (evidenceField input ''transactionHash'') (\<lambda>v. bindE (evidenceHash v) (\<lambda>h.
       Inr (RecordedResolution anch incl
              (if outcome = JString (js ''success'') then Success else Reverted) h)))
     else
       checkEvidence (outcome = JString (js ''replaced'')) (\<lambda>_.
       bindE (evidenceField input ''replacementTransactionHash'') (\<lambda>v. bindE (evidenceHash v) (\<lambda>h.
       bindE (evidenceField input ''nonceAtAnchor'') (\<lambda>v. bindE (evidenceUint v) (\<lambda>n.
       Inr (ReplacedResolution anch incl h n)))))))))))))"

fun embEvidence :: "AttemptResolutionEvidence \<Rightarrow> jsval" where
  "embEvidence (RecordedResolution a i r h) = obj [
     (''outcome'', embOutcome r), (''anchor'', embAnchor a), (''inclusion'', embAnchor i),
     (''transactionHash'', JString h)]"
| "embEvidence (ReplacedResolution a i h n) = obj [
     (''outcome'', JString (js ''replaced'')), (''anchor'', embAnchor a),
     (''inclusion'', embAnchor i), (''replacementTransactionHash'', JString h),
     (''nonceAtAnchor'', JBigint n)]"

definition captureEvidence :: "AttemptResolutionEvidence \<Rightarrow> exn + AttemptResolutionEvidence" where
  "captureEvidence e = snapshotResolutionEvidence (embEvidence e)"

fun wfEvidence :: "AttemptResolutionEvidence \<Rightarrow> bool" where
  "wfEvidence (RecordedResolution a i r h) = (wfInclusionAnchors i a \<and> fixedHex h 32)"
| "wfEvidence (ReplacedResolution a i h n) = (wfInclusionAnchors i a \<and> fixedHex h 32 \<and> uint256 n)"

lemma evidenceField_obj [simp]:
  "evidenceField (obj kvs) name =
     (case map_of kvs name of Some v \<Rightarrow> Inr v | None \<Rightarrow> Inl INVALID_EVIDENCE)"
  by (simp add: evidenceField_def obj_def)

lemma evidenceUint_iff [simp]: "evidenceUint v = Inr n \<longleftrightarrow> v = JBigint n \<and> uint256 n"
  by (cases v) (auto simp: evidenceUint_def checkE_def uint256_def MAX_UINT256_def)

lemma evidenceHash_iff [simp]: "evidenceHash v = Inr h \<longleftrightarrow> v = JString h \<and> fixedHex h 32"
  by (auto simp: evidenceHash_def checkE_Inr isFixedHex_iff)

lemma evidenceBlock_emb [simp]: "evidenceBlock (embAnchor a) = Inr b \<longleftrightarrow> b = a \<and> wfAnchor a"
  by (cases a) (auto simp: evidenceBlock_def embAnchor_def bindE_Inr wfAnchor_def)

lemma evidenceBlock_wf: "evidenceBlock v = Inr b \<Longrightarrow> wfAnchor b"
  by (auto simp: evidenceBlock_def bindE_Inr wfAnchor_def)

lemma captureEvidence_iff: "captureEvidence e = Inr f \<longleftrightarrow> f = e \<and> wfEvidence e"
proof (cases e)
  case (RecordedResolution a i r h)
  then show ?thesis
    by (cases r) (auto simp: captureEvidence_def snapshotResolutionEvidence_def bindE_Inr checkE_Inr
        embOutcome_def wfInclusionAnchors_def)
next
  case (ReplacedResolution a i h n)
  then show ?thesis
    by (auto simp: captureEvidence_def snapshotResolutionEvidence_def bindE_Inr checkE_Inr
        wfInclusionAnchors_def)
qed

lemma snapshotResolutionEvidence_wf: "snapshotResolutionEvidence v = Inr e \<Longrightarrow> wfEvidence e"
  by (auto simp: snapshotResolutionEvidence_def bindE_Inr checkE_Inr wfInclusionAnchors_def
      split: if_splits dest: evidenceBlock_wf)

text \<open>The transaction named by the evidence is of this attempt, or, for a replacement, is not.\<close>

definition assertResolutionTransaction ::
  "int \<Rightarrow> JournalSignedTransaction list \<Rightarrow> AttemptResolutionEvidence \<Rightarrow> exn + unit" where
  "assertResolutionTransaction n ts e =
     checkEvidence (ts \<noteq> []) (\<lambda>_.
     case e of
       ReplacedResolution a i h k \<Rightarrow>
         checkEvidence (\<not> containsHash ts h) (\<lambda>_. checkEvidence (n < k) (\<lambda>_. Inr ()))
     | RecordedResolution a i r h \<Rightarrow> checkEvidence (containsHash ts h) (\<lambda>_. Inr ()))"

text \<open>Evidence for an attempt: what an inclusion record of it would have to satisfy.\<close>

fun evidenceInclusionRecord :: "AttemptResolutionEvidence \<Rightarrow> JournalInclusionObservation" where
  "evidenceInclusionRecord (RecordedResolution a i r h) = RecordedInclusion i a r h"
| "evidenceInclusionRecord (ReplacedResolution a i h k) = ReplacedInclusion i a h k"

lemma evidence_wfInclusion:
  "wfEvidence e \<Longrightarrow> assertResolutionTransaction n ts e = Inr () \<Longrightarrow>
    wfInclusion n ts (evidenceInclusionRecord e)"
  by (cases e) (auto simp: assertResolutionTransaction_def checkE_Inr)

subsection \<open>Reading the receipts of an attempt\<close>

datatype AttemptReceiptResult =
    ReceiptVerified AttemptResolutionEvidence
  | ReceiptNotFound
  | ReceiptAnchorChanged BlockAnchor
  | IncludedNotDurable jstr receipt_outcome BlockAnchor
  | ForkServedReceipt BlockAnchor BlockAnchor

definition bigintVal :: "jsval \<Rightarrow> int option" where
  "bigintVal v = (case v of JBigint n \<Rightarrow> Some n | _ \<Rightarrow> None)"

definition receiptStatus :: "jsval \<Rightarrow> receipt_outcome option" where
  "receiptStatus v =
     (if v = JString (js ''success'') then Some Success
      else if v = JString (js ''reverted'') then Some Reverted else None)"

text \<open>\<^verbatim>\<open>getTransactionReceipt\<close> where a missing receipt is a result and other failures propagate.\<close>

definition findReceipt :: "'w chain_client \<Rightarrow> jstr \<Rightarrow> ('w, receipt_response option) io" where
  "findReceipt C h =
     tryCatch (andThen (getTransactionReceipt C h) (\<lambda>r. ret (Some r)))
       (\<lambda>e. if e = ReceiptNotFoundError then ret None else throw e)"

definition sameHash :: "jsval \<Rightarrow> jstr \<Rightarrow> bool" where
  "sameHash v h = (isFixedHex v 32 \<and> toLowerCase (stringOf v) = toLowerCase h)"

definition readReceipt ::
  "'w chain_client \<Rightarrow> jstr \<Rightarrow> BlockAnchor \<Rightarrow> ('w, AttemptReceiptResult) io" where
  "readReceipt C h anch =
     andThen (findReceipt C h) (\<lambda>found.
     case found of None \<Rightarrow> ret ReceiptNotFound | Some r \<Rightarrow>
       (case (bigintVal (rrBlockNumber r), receiptStatus (rrStatus r)) of
          (Some n, Some outcome) \<Rightarrow>
            andThen (unlessThrow (sameHash (rrTransactionHash r) h \<and> 0 \<le> n \<and>
                isFixedHex (rrBlockHash r) 32) (TypeError ''Invalid attempt receipt response.'')) (\<lambda>_.
            let incl = \<lparr>blockNumber = n, blockHash = stringOf (rrBlockHash r)\<rparr> in
            andThen (getBlockAnchor C n) (\<lambda>canonical.
            if \<not> blockAnchorsMatch incl canonical then ret (ForkServedReceipt incl canonical)
            else if blockNumber anch < n then ret (IncludedNotDurable h outcome incl)
            else andThen (liftPure (captureEvidence (RecordedResolution anch incl outcome h)))
                   (\<lambda>e. ret (ReceiptVerified e))))
        | _ \<Rightarrow> throw (TypeError ''Invalid attempt receipt response.'')))"

text \<open>The loop over the hashes, with the first inclusion, the first fork and the conflict flag.\<close>

fun readReceipts ::
  "'w chain_client \<Rightarrow> BlockAnchor \<Rightarrow> AttemptReceiptResult option \<Rightarrow> AttemptReceiptResult option \<Rightarrow>
   bool \<Rightarrow> jstr list \<Rightarrow>
   ('w, AttemptReceiptResult option \<times> AttemptReceiptResult option \<times> bool) io" where
  "readReceipts C anch included fork conflict [] = ret (included, fork, conflict)"
| "readReceipts C anch included fork conflict (h # hs) =
     andThen (readReceipt C h anch) (\<lambda>r.
       case r of
         ReceiptVerified _ \<Rightarrow>
           (if included \<noteq> None then readReceipts C anch included fork True hs
            else readReceipts C anch (Some r) fork conflict hs)
       | IncludedNotDurable _ _ _ \<Rightarrow>
           (if included \<noteq> None then readReceipts C anch included fork True hs
            else readReceipts C anch (Some r) fork conflict hs)
       | ForkServedReceipt _ _ \<Rightarrow>
           readReceipts C anch included (if fork = None then Some r else fork) conflict hs
       | _ \<Rightarrow> readReceipts C anch included fork conflict hs)"

fun distinctHashes :: "jstr set \<Rightarrow> jstr list \<Rightarrow> bool" where
  "distinctHashes seen [] = True"
| "distinctHashes seen (h # hs) =
     (fixedHex h 32 \<and> toLowerCase h \<notin> seen \<and> distinctHashes (insert (toLowerCase h) seen) hs)"

definition reconcileAttemptReceipt ::
  "'w chain_client \<Rightarrow> jstr list \<Rightarrow> BlockAnchor \<Rightarrow> ('w, AttemptReceiptResult) io" where
  "reconcileAttemptReceipt C hashes anch =
     andThen (unlessThrow (hashes \<noteq> [] \<and> 0 \<le> blockNumber anch \<and> fixedHex (blockHash anch) 32 \<and>
         distinctHashes {} hashes) (TypeError ''Invalid receipt reconciliation input.'')) (\<lambda>_.
     andThen (checkBlockAnchor C anch) (\<lambda>prior.
     case prior of Some o1 \<Rightarrow> ret (ReceiptAnchorChanged o1) | None \<Rightarrow>
     andThen (readReceipts C anch None None False hashes) (\<lambda>(included, fork, conflict).
     andThen (checkBlockAnchor C anch) (\<lambda>after.
     case after of Some o2 \<Rightarrow> ret (ReceiptAnchorChanged o2) | None \<Rightarrow>
     andThen (unlessThrow (\<not> conflict) (TypeError ''Conflicting attempt receipt observations.'')) (\<lambda>_.
     ret (case included of Some r \<Rightarrow> r | None \<Rightarrow>
            (case fork of Some r \<Rightarrow> r | None \<Rightarrow> ReceiptNotFound)))))))"

subsection \<open>What a verified receipt means\<close>

text \<open>
  The client served a receipt of the hash with this outcome and block, and at once confirmed the
  block as canonical.
\<close>

definition receiptServed ::
  "'w chain_client \<Rightarrow> jstr \<Rightarrow> receipt_outcome \<Rightarrow> BlockAnchor \<Rightarrow> bool" where
  "receiptServed C h outcome incl =
     (\<exists>w1 r w2 a w3.
        getTransactionReceipt C h w1 = (Inr r, w2) \<and> sameHash (rrTransactionHash r) h \<and>
        rrBlockNumber r = JBigint (blockNumber incl) \<and> rrBlockHash r = JString (blockHash incl) \<and>
        receiptStatus (rrStatus r) = Some outcome \<and>
        getBlockAnchor C (blockNumber incl) w2 = (Inr a, w3) \<and> blockAnchorsMatch incl a)"

fun receiptResultOk ::
  "'w chain_client \<Rightarrow> BlockAnchor \<Rightarrow> jstr set \<Rightarrow> AttemptReceiptResult \<Rightarrow> bool" where
  "receiptResultOk C anch hs (ReceiptVerified e) =
     (\<exists>incl outcome h. e = RecordedResolution anch incl outcome h \<and> h \<in> hs \<and> wfEvidence e \<and>
        receiptServed C h outcome incl)"
| "receiptResultOk C anch hs (IncludedNotDurable h outcome incl) =
     (h \<in> hs \<and> blockNumber anch < blockNumber incl \<and> receiptServed C h outcome incl)"
| "receiptResultOk C anch hs (ForkServedReceipt incl canonical) = (\<not> blockAnchorsMatch incl canonical)"
| "receiptResultOk C anch hs _ = True"

lemma findReceipt_Some: "findReceipt C h w = (Inr (Some r), v) \<longleftrightarrow> getTransactionReceipt C h w = (Inr r, v)"
  by (auto simp: findReceipt_def tryCatch_def andThen_def ret_def throw_def
      split: prod.splits sum.splits)

lemma readReceipt_ok:
  assumes "readReceipt C h anch w = (Inr r, v)"
  shows "receiptResultOk C anch {h} r \<and> (\<forall>a. r \<noteq> ReceiptAnchorChanged a)"
proof -
  obtain found u where f: "findReceipt C h w = (Inr found, u)"
    using assms by (auto simp: readReceipt_def andThen_Inr)
  show ?thesis
  proof (cases found)
    case None
    with assms f show ?thesis by (auto simp: readReceipt_def andThen_def)
  next
    case (Some rr)
    with assms f obtain n outcome where
      n: "bigintVal (rrBlockNumber rr) = Some n" and o1: "receiptStatus (rrStatus rr) = Some outcome"
      by (auto simp: readReceipt_def andThen_def split: option.splits)
    define incl where "incl = \<lparr>blockNumber = n, blockHash = stringOf (rrBlockHash rr)\<rparr>"
    from assms f Some n o1 obtain a x where
      same: "sameHash (rrTransactionHash rr) h" and hex: "isFixedHex (rrBlockHash rr) 32" and
      a: "getBlockAnchor C n u = (Inr a, x)" and
      r: "(if \<not> blockAnchorsMatch incl a then ret (ForkServedReceipt incl a)
            else if blockNumber anch < n then ret (IncludedNotDurable h outcome incl)
            else andThen (liftPure (captureEvidence (RecordedResolution anch incl outcome h)))
                   (\<lambda>e. ret (ReceiptVerified e))) x = (Inr r, v)"
      by (auto simp: readReceipt_def andThen_Inr Let_def simp flip: incl_def)
    have rr: "getTransactionReceipt C h w = (Inr rr, u)"
      using f Some by (simp add: findReceipt_Some)
    have bn: "rrBlockNumber rr = JBigint n"
      using n by (simp add: bigintVal_def split: jsval.splits)
    have served: "blockAnchorsMatch incl a \<Longrightarrow> receiptServed C h outcome incl"
      unfolding receiptServed_def using rr same bn hex o1 a
      by (intro exI [of _ w] exI [of _ rr] exI [of _ u] exI [of _ a] exI [of _ x])
        (auto simp: incl_def isFixedHex_iff)
    show ?thesis
      using r served by (auto simp: io_cases andThen_Inr captureEvidence_iff incl_def)
  qed
qed

lemma receiptResultOk_mono: "receiptResultOk C anch hs r \<Longrightarrow> hs \<subseteq> hs' \<Longrightarrow> receiptResultOk C anch hs' r"
  by (cases r) auto

lemma readReceipts_ok:
  assumes "readReceipts C anch included fork conflict hs w = (Inr (included', fork', conflict'), v)"
    and "case included of None \<Rightarrow> True | Some r \<Rightarrow> receiptResultOk C anch H r \<and> (\<forall>a. r \<noteq> ReceiptAnchorChanged a)"
    and "case fork of None \<Rightarrow> True | Some r \<Rightarrow> receiptResultOk C anch H r \<and> (\<forall>a. r \<noteq> ReceiptAnchorChanged a)"
    and "set hs \<subseteq> H"
  shows "(case included' of None \<Rightarrow> True | Some r \<Rightarrow> receiptResultOk C anch H r \<and> (\<forall>a. r \<noteq> ReceiptAnchorChanged a)) \<and>
    (case fork' of None \<Rightarrow> True | Some r \<Rightarrow> receiptResultOk C anch H r \<and> (\<forall>a. r \<noteq> ReceiptAnchorChanged a))"
  using assms
proof (induction hs arbitrary: included fork conflict w)
  case Nil
  then show ?case by simp
next
  case (Cons h hs)
  obtain r u where r: "readReceipt C h anch w = (Inr r, u)"
    using Cons.prems(1) by (auto simp: andThen_Inr)
  have ok: "receiptResultOk C anch H r \<and> (\<forall>a. r \<noteq> ReceiptAnchorChanged a)"
    using readReceipt_ok [OF r] receiptResultOk_mono [of C anch "{h}" r H] Cons.prems(4) by auto
  from Cons.prems(1) r have step: "(case r of
         ReceiptVerified _ \<Rightarrow>
           (if included \<noteq> None then readReceipts C anch included fork True hs
            else readReceipts C anch (Some r) fork conflict hs)
       | IncludedNotDurable _ _ _ \<Rightarrow>
           (if included \<noteq> None then readReceipts C anch included fork True hs
            else readReceipts C anch (Some r) fork conflict hs)
       | ForkServedReceipt _ _ \<Rightarrow>
           readReceipts C anch included (if fork = None then Some r else fork) conflict hs
       | _ \<Rightarrow> readReceipts C anch included fork conflict hs) u =
       (Inr (included', fork', conflict'), v)"
    by (simp add: andThen_def)
  have sub: "set hs \<subseteq> H" using Cons.prems(4) by simp
  show ?case
    using step Cons.IH [OF _ Cons.prems(2) Cons.prems(3) sub]
      Cons.IH [of "Some r" fork, OF _ _ Cons.prems(3) sub]
      Cons.IH [of included "Some r", OF _ Cons.prems(2) _ sub] ok
    by (cases r) (auto split: if_splits)
qed

text \<open>The result of a reconciliation is what one of the recorded hashes was served.\<close>

lemma reconcileAttemptReceipt_ok:
  assumes "reconcileAttemptReceipt C hashes anch w = (Inr r, v)"
  shows "receiptResultOk C anch (set hashes) r \<and>
    ((\<exists>a. r = ReceiptAnchorChanged a) \<or>
     (\<exists>u1 u2. checkBlockAnchor C anch w = (Inr None, u1) \<and> checkBlockAnchor C anch u2 = (Inr None, v)))"
proof (cases "\<exists>a. r = ReceiptAnchorChanged a")
  case True
  then show ?thesis by auto
next
  case False
  with assms obtain u1 included fork conflict u2 where
    b: "checkBlockAnchor C anch w = (Inr None, u1)" and
    l: "readReceipts C anch None None False hashes u1 = (Inr (included, fork, conflict), u2)" and
    a: "checkBlockAnchor C anch u2 = (Inr None, v)" and
    r: "r = (case included of Some r \<Rightarrow> r | None \<Rightarrow>
            (case fork of Some r \<Rightarrow> r | None \<Rightarrow> ReceiptNotFound))"
    by (auto simp: reconcileAttemptReceipt_def andThen_Inr io_cases)
  from readReceipts_ok [OF l, of "set hashes"] r
  have "receiptResultOk C anch (set hashes) r" by (auto split: option.splits)
  with a b show ?thesis by blast
qed

subsection \<open>Rechecking a recorded inclusion\<close>

datatype InclusionRecheckResult =
    VerifiedUnchanged BlockAnchor
  | InclusionBlockChanged BlockAnchor BlockAnchor
  | ReceiptUnavailable
  | HeadBehindInclusion
  | RecheckAnchorChanged BlockAnchor

text \<open>\<^verbatim>\<open>{ ...observation, anchor: observation.observedAt }\<close> as evidence.\<close>

fun inclusionEvidence :: "JournalInclusionObservation \<Rightarrow> AttemptResolutionEvidence" where
  "inclusionEvidence (RecordedInclusion i p r h) = RecordedResolution p i r h"
| "inclusionEvidence (ReplacedInclusion i p h k) = ReplacedResolution p i h k"

definition captureInclusionRecheck ::
  "JournalInclusionObservation \<Rightarrow> BlockAnchor \<Rightarrow> exn + AttemptResolutionEvidence" where
  "captureInclusionRecheck observation head =
     bindE (captureEvidence (inclusionEvidence observation)) (\<lambda>saved.
     checkE (0 \<le> blockNumber head \<and> fixedHex (blockHash head) 32)
       (TypeError ''Invalid inclusion recheck input.'') (\<lambda>_. Inr saved))"

fun evidenceTransaction :: "AttemptResolutionEvidence \<Rightarrow> jstr" where
  "evidenceTransaction (RecordedResolution a i r h) = h"
| "evidenceTransaction (ReplacedResolution a i h k) = h"

fun outcomeAllowed :: "AttemptResolutionEvidence \<Rightarrow> receipt_outcome \<Rightarrow> bool" where
  "outcomeAllowed (RecordedResolution a i r h) outcome = (outcome = r)"
| "outcomeAllowed (ReplacedResolution a i h k) outcome = True"

definition inspectInclusionEvidence ::
  "'w chain_client \<Rightarrow> AttemptResolutionEvidence \<Rightarrow> BlockAnchor \<Rightarrow> ('w, InclusionRecheckResult) io" where
  "inspectInclusionEvidence C saved head =
     (let incl = evidenceInclusion saved in
      if blockNumber head < blockNumber incl then ret HeadBehindInclusion
      else
        andThen (getBlockAnchor C (blockNumber incl)) (\<lambda>canonical.
        if \<not> blockAnchorsMatch incl canonical then ret (InclusionBlockChanged incl canonical)
        else
          andThen (findReceipt C (evidenceTransaction saved)) (\<lambda>found.
          case found of None \<Rightarrow> ret ReceiptUnavailable | Some r \<Rightarrow>
            andThen (unlessThrow
              (sameHash (rrTransactionHash r) (evidenceTransaction saved) \<and>
               bigintVal (rrBlockNumber r) = Some (blockNumber incl) \<and>
               sameHash (rrBlockHash r) (blockHash incl) \<and>
               (case receiptStatus (rrStatus r) of None \<Rightarrow> False
                | Some outcome \<Rightarrow> outcomeAllowed saved outcome))
              (TypeError ''Inconsistent inclusion receipt response.'')) (\<lambda>_.
            ret (VerifiedUnchanged head)))))"

definition recheckAttemptInclusion ::
  "'w chain_client \<Rightarrow> JournalInclusionObservation \<Rightarrow> BlockAnchor \<Rightarrow> ('w, InclusionRecheckResult) io"
where
  "recheckAttemptInclusion C observation head =
     andThen (liftPure (captureInclusionRecheck observation head)) (\<lambda>saved.
     if blockNumber head < blockNumber (evidenceInclusion saved) then ret HeadBehindInclusion
     else
       andThen (checkBlockAnchor C head) (\<lambda>prior.
       case prior of Some o1 \<Rightarrow> ret (RecheckAnchorChanged o1) | None \<Rightarrow>
       andThen (inspectInclusionEvidence C saved head) (\<lambda>result.
       andThen (checkBlockAnchor C head) (\<lambda>after.
       case after of Some o2 \<Rightarrow> ret (RecheckAnchorChanged o2) | None \<Rightarrow> ret result))))"

definition recheckAttemptInclusionWithinPass ::
  "'w chain_client \<Rightarrow> JournalInclusionObservation \<Rightarrow> BlockAnchor \<Rightarrow> ('w, InclusionRecheckResult) io"
where
  "recheckAttemptInclusionWithinPass C observation head =
     andThen (liftPure (captureInclusionRecheck observation head)) (\<lambda>saved.
       inspectInclusionEvidence C saved head)"

text \<open>
  A recheck says "unchanged" only for the head it was given and with a canonical inclusion block;
  it says "changed" only when another block is canonical at that height.
\<close>

lemma recheckWithinPass_ok:
  assumes "recheckAttemptInclusionWithinPass C obs head w = (Inr r, v)"
  shows "case r of
      VerifiedUnchanged p \<Rightarrow> p = head \<and> blockNumber (inclusionOf obs) \<le> blockNumber head \<and>
        0 \<le> blockNumber head \<and> fixedHex (blockHash head) 32 \<and>
        (\<exists>w1 a w2. getBlockAnchor C (blockNumber (inclusionOf obs)) w1 = (Inr a, w2) \<and>
           blockAnchorsMatch (inclusionOf obs) a)
    | InclusionBlockChanged i c \<Rightarrow> i = inclusionOf obs \<and> \<not> blockAnchorsMatch i c
    | RecheckAnchorChanged _ \<Rightarrow> False
    | _ \<Rightarrow> True"
proof -
  have [simp]: "evidenceInclusion (inclusionEvidence obs) = inclusionOf obs" by (cases obs) simp_all
  from assms show ?thesis
    by (auto simp: recheckAttemptInclusionWithinPass_def captureInclusionRecheck_def andThen_Inr
        bindE_Inr checkE_Inr captureEvidence_iff inspectInclusionEvidence_def Let_def io_cases) blast
qed

end
