(* ===== verification/ReplacementSearch.thy ===== *)
theory ReplacementSearch
  imports Receipts
begin

text \<open>
  \<^verbatim>\<open>chain/search-attempt-replacement.ts\<close> and \<^verbatim>\<open>chain/resolve-replacement-search.ts\<close>: the bounded
  scan of full blocks for the transaction that consumed an attempt's nonce. A scan proceeds from
  the saved boundary over blocks that link to each other by parent hash, and what it reports as
  searched it has looked through.
\<close>

definition resolveReplacementSearch ::
  "int \<Rightarrow> Journal.ReplacementSearch option \<Rightarrow> AnchoredNonceObservation \<Rightarrow>
   Journal.ReplacementSearch option" where
  "resolveReplacementSearch n search lastObs =
     (case search of
        Some s \<Rightarrow> Some s
      | None \<Rightarrow> if obsNonce lastObs \<le> n then Some \<lparr>lowerBound = lastObs, searchedThrough = None\<rparr>
                else None)"

datatype search_boundary = LowerBoundary | SearchedThroughBoundary

datatype ReplacementSearchResult =
    MissingLowerBound
  | AnchorBehindSearch
  | SearchAnchorChanged BlockAnchor
  | BoundaryChanged search_boundary BlockAnchor
  | RecordedTransactionFound jstr BlockAnchor BlockAnchor
  | ReplacementFound AttemptResolutionEvidence
  | SearchNotFound BlockAnchor int int

subsection \<open>One block\<close>

text \<open>A field of a transaction in the answer; the answers are plain data, without accessors.\<close>

definition property :: "jsval \<Rightarrow> string \<Rightarrow> jsval" where
  "property v name =
     (case v of JObject ps \<Rightarrow> (case ownData ps name of Some x \<Rightarrow> x | None \<Rightarrow> JUndefined)
      | _ \<Rightarrow> JUndefined)"

definition propertyValue :: "jprop \<Rightarrow> jsval" where
  "propertyValue p = (case p of DataProp v \<Rightarrow> v | NoData \<Rightarrow> JUndefined)"

definition typeofObject :: "jsval \<Rightarrow> bool" where
  "typeofObject v = (case v of JNull \<Rightarrow> True | JArray _ \<Rightarrow> True | JObject _ \<Rightarrow> True | JOpaque \<Rightarrow> True | _ \<Rightarrow> False)"

definition wellFormedTransaction :: "jsval \<Rightarrow> bool" where
  "wellFormedTransaction t =
     (typeofObject t \<and> t \<noteq> JNull \<and> isFixedHex (property t ''hash'') 32 \<and>
      isFixedHex (property t ''from'') 20 \<and> isNonNegativeSafeInteger (property t ''nonce''))"

definition consumesNonce :: "jstr \<Rightarrow> int \<Rightarrow> jsval \<Rightarrow> bool" where
  "consumesNonce who n t =
     (toLowerCase (stringOf (property t ''from'')) = toLowerCase who \<and>
      numInt (property t ''nonce'') = n)"

type_synonym search_match = "(jstr \<times> BlockAnchor) option"

fun scanTransactions ::
  "jstr \<Rightarrow> int \<Rightarrow> BlockAnchor \<Rightarrow> search_match \<Rightarrow> jsval list \<Rightarrow> exn + search_match" where
  "scanTransactions who n incl found [] = Inr found"
| "scanTransactions who n incl found (t # ts) =
     checkE (wellFormedTransaction t) (TypeError ''Invalid replacement search transaction.'') (\<lambda>_.
     if consumesNonce who n t then
       checkE (found = None) (TypeError ''Multiple transactions matched the recorded nonce.'') (\<lambda>_.
       scanTransactions who n incl (Some (stringOf (property t ''hash''), incl)) ts)
     else scanTransactions who n incl found ts)"

definition blockTransactions :: "block_response \<Rightarrow> jsval list option" where
  "blockTransactions b =
     (case brTransactions b of JArray ps \<Rightarrow> Some (map propertyValue ps) | _ \<Rightarrow> None)"

definition blockInclusion :: "int \<Rightarrow> block_response \<Rightarrow> BlockAnchor" where
  "blockInclusion n b = \<lparr>blockNumber = n, blockHash = stringOf (brHash b)\<rparr>"

definition linkedBlock :: "BlockAnchor \<Rightarrow> int \<Rightarrow> block_response \<Rightarrow> bool" where
  "linkedBlock previous n b =
     (brNumber b = JBigint n \<and> isFixedHex (brHash b) 32 \<and>
      sameHash (brParentHash b) (blockHash previous) \<and> isArray (brTransactions b))"

subsection \<open>The scan\<close>

datatype scan_result =
    ScanAnchorChanged BlockAnchor
  | ScanEnded BlockAnchor int search_match

text \<open>
  The \<^verbatim>\<open>for\<close> loop from block \<open>number\<close> to block \<open>through\<close>: the previous block, the number of blocks
  scanned and the match are its variables, and it stops at the first block with a match.
\<close>

function scanBlocks ::
  "'w chain_client \<Rightarrow> jstr \<Rightarrow> int \<Rightarrow> BlockAnchor \<Rightarrow> int \<Rightarrow> int \<Rightarrow> BlockAnchor \<Rightarrow> int \<Rightarrow>
   ('w, scan_result) io" where
  "scanBlocks C who n anch through number previous scanned =
     (if through < number then ret (ScanEnded previous scanned None)
      else
        andThen (getFullBlock C number) (\<lambda>b.
        andThen (unlessThrow (linkedBlock previous number b)
          (TypeError ''Invalid replacement search block.'')) (\<lambda>_.
        let incl = blockInclusion number b in
        if number = blockNumber anch \<and> \<not> blockAnchorsMatch anch incl then
          ret (ScanAnchorChanged incl)
        else
          andThen (liftPure (scanTransactions who n incl None (the (blockTransactions b)))) (\<lambda>found.
          if found \<noteq> None then ret (ScanEnded incl (scanned + 1) found)
          else scanBlocks C who n anch through (number + 1) incl (scanned + 1)))))"
  by pat_completeness auto
termination
  by (relation "measure (\<lambda>(C, who, n, anch, through, number, previous, scanned). nat (through + 1 - number))")
    auto

declare scanBlocks.simps [simp del]

definition isUint :: "int \<Rightarrow> bool" where
  "isUint v = (0 \<le> v \<and> v < 2 ^ 256)"

definition copyAnchor :: "BlockAnchor \<Rightarrow> exn + BlockAnchor" where
  "copyAnchor a =
     checkE (isUint (blockNumber a) \<and> fixedHex (blockHash a) 32)
       (TypeError ''Invalid replacement search anchor.'') (\<lambda>_. Inr a)"

abbreviation INVALID_SEARCH :: exn where
  "INVALID_SEARCH \<equiv> TypeError ''Invalid replacement search input.''"

text \<open>The part after the argument checks: the saved references, the scan, the closing check.\<close>

definition scanFromBoundary ::
  "'w chain_client \<Rightarrow> jstr \<Rightarrow> int \<Rightarrow> JournalSignedTransaction list \<Rightarrow> AnchoredNonceObservation \<Rightarrow> int \<Rightarrow>
   BlockAnchor \<Rightarrow> ('w, ReplacementSearchResult) io" where
  "scanFromBoundary C who n ts obs maxRange boundary =
     (let anch = anchor obs; through = min (blockNumber boundary + maxRange) (blockNumber anch) in
      andThen (scanBlocks C who n anch through (blockNumber boundary + 1) boundary 0) (\<lambda>r.
      case r of ScanAnchorChanged o1 \<Rightarrow> ret (SearchAnchorChanged o1)
      | ScanEnded previous scanned found \<Rightarrow>
        andThen (checkBlockAnchor C anch) (\<lambda>after.
        case after of Some o2 \<Rightarrow> ret (SearchAnchorChanged o2) | None \<Rightarrow>
        (case found of
           Some (h, incl) \<Rightarrow>
             (case find (\<lambda>t. toLowerCase (transactionHash t) = toLowerCase h) ts of
                Some t \<Rightarrow> ret (RecordedTransactionFound (transactionHash t) anch incl)
              | None \<Rightarrow> ret (ReplacementFound (ReplacedResolution anch incl h (obsNonce obs))))
         | None \<Rightarrow>
             ret (SearchNotFound previous scanned (blockNumber anch - blockNumber previous))))))"

definition searchAttemptReplacement ::
  "'w chain_client \<Rightarrow> jstr \<Rightarrow> int \<Rightarrow> JournalSignedTransaction list \<Rightarrow>
   Journal.ReplacementSearch option \<Rightarrow> AnchoredNonceObservation \<Rightarrow> int \<Rightarrow>
   ('w, ReplacementSearchResult) io" where
  "searchAttemptReplacement C who n ts search obs maxRange =
     andThen (unlessThrow (ts \<noteq> [] \<and> distinctHashes {} (map transactionHash ts)) INVALID_SEARCH) (\<lambda>_.
     andThen (liftPure (copyAnchor (anchor obs))) (\<lambda>anch.
     andThen (unlessThrow (fixedHex who 20 \<and> isUint n \<and> isUint (obsNonce obs) \<and> n < obsNonce obs \<and>
       isUint maxRange \<and> maxRange \<noteq> 0) INVALID_SEARCH) (\<lambda>_.
     case search of None \<Rightarrow> ret MissingLowerBound | Some s \<Rightarrow>
     andThen (liftPure (copyAnchor (anchor (lowerBound s)))) (\<lambda>lower.
     andThen (case searchedThrough s of None \<Rightarrow> ret lower
              | Some t \<Rightarrow> andThen (liftPure (copyAnchor t)) (\<lambda>b.
                  andThen (unlessThrow (blockNumber lower < blockNumber b)
                    (TypeError ''Invalid replacement search boundary.'')) (\<lambda>_. ret b))) (\<lambda>boundary.
     andThen (unlessThrow (isUint (obsNonce (lowerBound s)) \<and> obsNonce (lowerBound s) \<le> n)
       (TypeError ''Invalid replacement search lower bound.'')) (\<lambda>_.
     if blockNumber anch \<le> blockNumber lower \<or> blockNumber anch < blockNumber boundary then
       ret AnchorBehindSearch
     else
       andThen (checkBlockAnchor C anch) (\<lambda>prior.
       case prior of Some o1 \<Rightarrow> ret (SearchAnchorChanged o1) | None \<Rightarrow>
       andThen (getBlockAnchor C (blockNumber lower)) (\<lambda>observedLower.
       if \<not> blockAnchorsMatch lower observedLower then
         ret (BoundaryChanged LowerBoundary observedLower)
       else
         andThen (case searchedThrough s of None \<Rightarrow> ret None
                  | Some _ \<Rightarrow> andThen (getBlockAnchor C (blockNumber boundary)) (\<lambda>observed.
                      ret (if blockAnchorsMatch boundary observed then None else Some observed)))
           (\<lambda>moved.
         case moved of Some o2 \<Rightarrow> ret (BoundaryChanged SearchedThroughBoundary o2)
         | None \<Rightarrow> scanFromBoundary C who n ts obs maxRange boundary)))))))))"

subsection \<open>What a scan has looked through\<close>

text \<open>
  \<open>scannedChain C prev n bs last\<close>: the client served the blocks \<open>bs\<close> at the heights from \<open>n\<close> on, each
  one naming its predecessor as its parent, starting from \<open>prev\<close> and ending at \<open>last\<close>.
\<close>

fun scannedChain ::
  "'w chain_client \<Rightarrow> BlockAnchor \<Rightarrow> int \<Rightarrow> block_response list \<Rightarrow> BlockAnchor \<Rightarrow> bool" where
  "scannedChain C prev n [] final = (final = prev)"
| "scannedChain C prev n (b # bs) final =
     ((\<exists>w v. getFullBlock C n w = (Inr b, v)) \<and> linkedBlock prev n b \<and>
      scannedChain C (blockInclusion n b) (n + 1) bs final)"

definition transactionsOf :: "block_response \<Rightarrow> jsval list" where
  "transactionsOf b = the (blockTransactions b)"

text \<open>No transaction of the block is by the signer with the nonce.\<close>

definition clearOf :: "jstr \<Rightarrow> int \<Rightarrow> block_response \<Rightarrow> bool" where
  "clearOf who n b =
     (\<forall>t \<in> set (transactionsOf b). wellFormedTransaction t \<and> \<not> consumesNonce who n t)"

text \<open>Exactly one transaction of the block is, with the given hash.\<close>

definition consumedIn :: "jstr \<Rightarrow> int \<Rightarrow> jstr \<Rightarrow> block_response \<Rightarrow> bool" where
  "consumedIn who n h b =
     (\<exists>t. filter (consumesNonce who n) (transactionsOf b) = [t] \<and> wellFormedTransaction t \<and>
        h = stringOf (property t ''hash''))"

lemma scanTransactions_spec:
  "scanTransactions who n incl found ts = Inr found' \<Longrightarrow>
     list_all wellFormedTransaction ts \<and>
     (case found of
        Some _ \<Rightarrow> found' = found \<and> filter (consumesNonce who n) ts = []
      | None \<Rightarrow> (case found' of
          None \<Rightarrow> filter (consumesNonce who n) ts = []
        | Some (h, i) \<Rightarrow> i = incl \<and> (\<exists>t. filter (consumesNonce who n) ts = [t] \<and>
            h = stringOf (property t ''hash''))))"
  by (induction who n incl found ts rule: scanTransactions.induct)
    (auto simp: checkE_Inr split: if_splits option.splits)

lemma scan_none_clear:
  "scanTransactions who n incl None (transactionsOf b) = Inr None \<Longrightarrow> clearOf who n b"
  using scanTransactions_spec [of who n incl None "transactionsOf b" None]
  by (auto simp: clearOf_def list_all_iff filter_empty_conv)

lemma scan_some_consumed:
  assumes "scanTransactions who n incl None (transactionsOf b) = Inr (Some (h, i))"
  shows "i = incl \<and> consumedIn who n h b"
proof -
  obtain t where t: "filter (consumesNonce who n) (transactionsOf b) = [t]"
      "h = stringOf (property t ''hash'')" and i: "i = incl"
    and all: "list_all wellFormedTransaction (transactionsOf b)"
    using scanTransactions_spec [OF assms] by auto
  have "t \<in> set (filter (consumesNonce who n) (transactionsOf b))" using t by simp
  then have "wellFormedTransaction t" using all by (simp add: list_all_iff)
  with t i show ?thesis by (auto simp: consumedIn_def)
qed

lemma blockInclusion_simps [simp]:
  "blockNumber (blockInclusion n b) = n" "blockHash (blockInclusion n b) = stringOf (brHash b)"
  by (simp_all add: blockInclusion_def)

lemma scan_result_Inr [io_cases]:
  "(case r of ScanAnchorChanged a \<Rightarrow> f a | ScanEnded p k m \<Rightarrow> g p k m) s = (Inr y, t) \<longleftrightarrow>
     (\<exists>a. r = ScanAnchorChanged a \<and> f a s = (Inr y, t)) \<or>
     (\<exists>p k m. r = ScanEnded p k m \<and> g p k m s = (Inr y, t))"
  by (cases r) auto

lemma scanBlocks_spec:
  assumes "scanBlocks C who n anch through number prev scanned w = (Inr (ScanEnded final count found), v)"
    and "blockNumber prev = number - 1" and "number \<le> through + 1"
  shows "\<exists>bs. scannedChain C prev number bs final \<and> count = scanned + int (length bs) \<and>
    blockNumber final = number - 1 + int (length bs) \<and> blockNumber final \<le> through \<and>
    (case found of
       None \<Rightarrow> blockNumber final = through \<and> (\<forall>b \<in> set bs. clearOf who n b)
     | Some (h, i) \<Rightarrow> i = final \<and> bs \<noteq> [] \<and> consumedIn who n h (last bs) \<and>
         (\<forall>b \<in> set (butlast bs). clearOf who n b)) \<and>
    (bs \<noteq> [] \<and> blockNumber final = blockNumber anch \<longrightarrow> blockAnchorsMatch anch final)"
  using assms
proof (induction "nat (through + 1 - number)" arbitrary: number prev scanned w rule: less_induct)
  case less
  show ?case
  proof (cases "through < number")
    case True
    with less.prems have "final = prev" "count = scanned" "found = None"
      by (subst (asm) (1) scanBlocks.simps; simp)+
    with True less.prems show ?thesis by (intro exI [of _ "[]"]) simp
  next
    case False
    note run = less.prems(1) [unfolded scanBlocks.simps [of C who n anch through number prev scanned]]
    from run False obtain b u where b: "getFullBlock C number w = (Inr b, u)"
      and lk: "linkedBlock prev number b"
      and anc: "number = blockNumber anch \<Longrightarrow> blockAnchorsMatch anch (blockInclusion number b)"
      by (fastforce simp: andThen_Inr io_cases Let_def)
    define incl where "incl = blockInclusion number b"
    from run False b lk anc obtain f where f: "scanTransactions who n incl None (transactionsOf b) = Inr f"
      and rest: "(if f \<noteq> None then ret (ScanEnded incl (scanned + 1) f)
          else scanBlocks C who n anch through (number + 1) incl (scanned + 1)) u =
          (Inr (ScanEnded final count found), v)"
      by (auto simp: andThen_Inr io_cases Let_def transactionsOf_def incl_def)
    have served: "\<exists>w v. getFullBlock C number w = (Inr b, v)" using b by blast
    show ?thesis
    proof (cases f)
      case (Some p)
      obtain h i where p: "p = (h, i)" by (cases p)
      with f Some have "i = incl" "consumedIn who n h b" by (auto dest: scan_some_consumed)
      with rest Some p served lk anc False show ?thesis
        by (intro exI [of _ "[b]"]) (auto simp: incl_def)
    next
      case None
      then have step: "scanBlocks C who n anch through (number + 1) incl (scanned + 1) u =
          (Inr (ScanEnded final count found), v)" using rest by simp
      have "nat (through + 1 - (number + 1)) < nat (through + 1 - number)"
        "blockNumber incl = number + 1 - 1" "number + 1 \<le> through + 1"
        using False by (simp_all add: incl_def)
      from less.hyps [OF this(1) step this(2) this(3)] obtain bs where
        ih: "scannedChain C incl (number + 1) bs final"
          "count = scanned + 1 + int (length bs)"
          "blockNumber final = number + 1 - 1 + int (length bs)" "blockNumber final \<le> through"
          "case found of
             None \<Rightarrow> blockNumber final = through \<and> (\<forall>b \<in> set bs. clearOf who n b)
           | Some (h, i) \<Rightarrow> i = final \<and> bs \<noteq> [] \<and> consumedIn who n h (last bs) \<and>
               (\<forall>b \<in> set (butlast bs). clearOf who n b)"
          "bs \<noteq> [] \<and> blockNumber final = blockNumber anch \<longrightarrow> blockAnchorsMatch anch final"
        by blast
      have "clearOf who n b" using f None by (auto dest: scan_none_clear)
      with ih served lk anc show ?thesis
        by (intro exI [of _ "b # bs"])
          (cases "bs = []"; auto simp: incl_def split: option.splits)
    qed
  qed
qed

subsection \<open>What a search reports\<close>

text \<open>The last block already searched, or the lower bound before any search.\<close>

definition searchBoundary :: "Journal.ReplacementSearch \<Rightarrow> BlockAnchor" where
  "searchBoundary s = (case searchedThrough s of None \<Rightarrow> anchor (lowerBound s) | Some t \<Rightarrow> t)"

fun scanOutcome :: "ReplacementSearchResult \<Rightarrow> bool" where
  "scanOutcome (RecordedTransactionFound _ _ _) = True"
| "scanOutcome (ReplacementFound _) = True"
| "scanOutcome (SearchNotFound _ _ _) = True"
| "scanOutcome _ = False"

lemma searchAttemptReplacement_scan:
  assumes "searchAttemptReplacement C who n ts search obs maxRange w = (Inr r, v)" "scanOutcome r"
  shows "\<exists>s u. search = Some s \<and>
    scanFromBoundary C who n ts obs maxRange (searchBoundary s) u = (Inr r, v) \<and>
    wfAnchor (anchor obs) \<and> wfAnchor (searchBoundary s) \<and> n < obsNonce obs \<and> uint256 (obsNonce obs) \<and>
    0 < maxRange \<and> obsNonce (lowerBound s) \<le> n \<and>
    blockNumber (anchor (lowerBound s)) < blockNumber (anchor obs) \<and>
    blockNumber (searchBoundary s) \<le> blockNumber (anchor obs)"
  using assms
  by (auto simp: searchAttemptReplacement_def andThen_Inr io_cases copyAnchor_def checkE_Inr
      searchBoundary_def wfAnchor_def isUint_def uint256_def MAX_UINT256_def)

lemma scannedChain_wf:
  assumes "scannedChain C prev n bs final" "wfAnchor prev" "blockNumber prev = n - 1"
    "blockNumber final \<le> MAX_UINT256"
  shows "wfAnchor final \<and> blockNumber final = n - 1 + int (length bs)"
  using assms
proof (induction bs arbitrary: prev n)
  case (Cons b bs)
  have "blockNumber final = n - 1 + int (length (b # bs)) " if "scannedChain C p m cs final"
    "blockNumber p = m - 1" "n - 1 + int (length (b # bs)) = m - 1 + int (length cs)" for p m cs
    using that by (induction cs arbitrary: p m) auto
  from this [OF Cons.prems(1) Cons.prems(3)] have "blockNumber final = n + int (length bs)" by simp
  with Cons.prems have "n \<le> MAX_UINT256" "0 \<le> n" by (auto simp: wfAnchor_def uint256_def)
  with Cons.prems have "wfAnchor (blockInclusion n b)"
    by (auto simp: wfAnchor_def uint256_def linkedBlock_def isFixedHex_iff)
  with Cons.prems Cons.IH [of "blockInclusion n b" "n + 1"] show ?case by simp
qed simp

text \<open>
  Reporting "not found": the new boundary is the end of the requested range or the anchor, the
  blocks from the old boundary to it were all served in one linked chain, and none holds the
  transaction that was looked for.
\<close>

definition searchedClear ::
  "'w chain_client \<Rightarrow> jstr \<Rightarrow> int \<Rightarrow> BlockAnchor \<Rightarrow> BlockAnchor \<Rightarrow> bool" where
  "searchedClear C who n boundary final =
     (\<exists>bs. scannedChain C boundary (blockNumber boundary + 1) bs final \<and>
        int (length bs) = blockNumber final - blockNumber boundary \<and>
        (\<forall>b \<in> set bs. clearOf who n b))"

lemma search_notFound:
  assumes "searchAttemptReplacement C who n ts search obs maxRange w = (Inr (SearchNotFound t k rest), v)"
  obtains s where "search = Some s"
    "blockNumber t = min (blockNumber (searchBoundary s) + maxRange) (blockNumber (anchor obs))"
    "k = blockNumber t - blockNumber (searchBoundary s)" "rest = blockNumber (anchor obs) - blockNumber t"
    "searchedClear C who n (searchBoundary s) t" "wfAnchor t"
    "0 < k \<Longrightarrow> rest = 0 \<Longrightarrow> blockAnchorsMatch (anchor obs) t"
    "0 < maxRange" "blockNumber (searchBoundary s) \<le> blockNumber (anchor obs)"
    "blockNumber (anchor (lowerBound s)) < blockNumber (anchor obs)" "obsNonce (lowerBound s) \<le> n"
proof -
  from searchAttemptReplacement_scan [OF assms] obtain s u where s: "search = Some s"
    and run: "scanFromBoundary C who n ts obs maxRange (searchBoundary s) u =
      (Inr (SearchNotFound t k rest), v)"
    and wf: "wfAnchor (anchor obs)" "wfAnchor (searchBoundary s)"
    and pos: "0 < maxRange" and low: "obsNonce (lowerBound s) \<le> n"
      "blockNumber (anchor (lowerBound s)) < blockNumber (anchor obs)"
    and le: "blockNumber (searchBoundary s) \<le> blockNumber (anchor obs)" by auto
  define through where "through = min (blockNumber (searchBoundary s) + maxRange) (blockNumber (anchor obs))"
  from run obtain x where
    scan: "scanBlocks C who n (anchor obs) through (blockNumber (searchBoundary s) + 1)
      (searchBoundary s) 0 u = (Inr (ScanEnded t k None), x)" and
    rest: "rest = blockNumber (anchor obs) - blockNumber t"
    by (auto simp: scanFromBoundary_def Let_def andThen_Inr io_cases through_def split: option.splits)
  have "blockNumber (searchBoundary s) + 1 \<le> through + 1"
    using le pos by (simp add: through_def)
  from scanBlocks_spec [OF scan _ this] obtain bs where
    bs: "scannedChain C (searchBoundary s) (blockNumber (searchBoundary s) + 1) bs t"
      "k = 0 + int (length bs)"
      "blockNumber t = blockNumber (searchBoundary s) + 1 - 1 + int (length bs)"
      "blockNumber t = through" "\<forall>b \<in> set bs. clearOf who n b"
      "bs \<noteq> [] \<and> blockNumber t = blockNumber (anchor obs) \<longrightarrow> blockAnchorsMatch (anchor obs) t"
    by force
  have "searchedClear C who n (searchBoundary s) t"
    using bs by (auto simp: searchedClear_def)
  moreover have "blockNumber t \<le> MAX_UINT256"
    using bs(4) wf(1) by (auto simp: through_def wfAnchor_def uint256_def min_def)
  then have "wfAnchor t" using scannedChain_wf [OF bs(1) wf(2)] by simp
  ultimately show ?thesis
    using s bs rest pos low le by (intro that) (auto simp: through_def)
qed

lemma find_hash_None:
  "find (\<lambda>t. toLowerCase (transactionHash t) = toLowerCase h) ts = None \<longleftrightarrow> \<not> containsHash ts h"
  by (auto simp: find_None_iff containsHash_def list_ex_iff)

text \<open>
  Reporting a replacement: a linked chain leads from the boundary to the block that holds the one
  transaction by the signer with the nonce, and its hash is none of the recorded ones.
\<close>

lemma search_replacementFound:
  assumes "searchAttemptReplacement C who n ts search obs maxRange w = (Inr (ReplacementFound e), v)"
  obtains s incl h bs where "search = Some s"
    "e = ReplacedResolution (anchor obs) incl h (obsNonce obs)" "wfEvidence e"
    "\<not> containsHash ts h" "n < obsNonce obs"
    "scannedChain C (searchBoundary s) (blockNumber (searchBoundary s) + 1) bs incl"
    "bs \<noteq> []" "consumedIn who n h (last bs)" "\<forall>b \<in> set (butlast bs). clearOf who n b"
proof -
  from searchAttemptReplacement_scan [OF assms] obtain s u where s: "search = Some s"
    and run: "scanFromBoundary C who n ts obs maxRange (searchBoundary s) u =
      (Inr (ReplacementFound e), v)"
    and wf: "wfAnchor (anchor obs)" "wfAnchor (searchBoundary s)" "uint256 (obsNonce obs)"
    and pos: "0 < maxRange" and n: "n < obsNonce obs"
    and le: "blockNumber (searchBoundary s) \<le> blockNumber (anchor obs)" by auto
  define through where "through = min (blockNumber (searchBoundary s) + maxRange) (blockNumber (anchor obs))"
  from run obtain final k h incl x where
    scan: "scanBlocks C who n (anchor obs) through (blockNumber (searchBoundary s) + 1)
      (searchBoundary s) 0 u = (Inr (ScanEnded final k (Some (h, incl))), x)" and
    e: "e = ReplacedResolution (anchor obs) incl h (obsNonce obs)" and
    no: "find (\<lambda>t. toLowerCase (transactionHash t) = toLowerCase h) ts = None"
    by (auto simp: scanFromBoundary_def Let_def andThen_Inr io_cases through_def split: option.splits)
  have "blockNumber (searchBoundary s) + 1 \<le> through + 1"
    using le pos by (simp add: through_def)
  from scanBlocks_spec [OF scan _ this] obtain bs where
    bs: "scannedChain C (searchBoundary s) (blockNumber (searchBoundary s) + 1) bs final"
      "incl = final" "bs \<noteq> []" "consumedIn who n h (last bs)" "\<forall>b \<in> set (butlast bs). clearOf who n b"
      "blockNumber final \<le> through" "blockNumber final = blockNumber (anchor obs) \<longrightarrow>
        blockAnchorsMatch (anchor obs) final"
    by auto
  have top: "through \<le> blockNumber (anchor obs)" by (simp add: through_def)
  then have "blockNumber final \<le> MAX_UINT256"
    using bs(6) wf(1) by (simp add: wfAnchor_def uint256_def)
  then have "wfAnchor final" using scannedChain_wf [OF bs(1) wf(2)] by simp
  moreover have "fixedHex h 32"
    using bs(4) by (auto simp: consumedIn_def wellFormedTransaction_def isFixedHex_iff)
  ultimately have "wfEvidence e"
    using bs wf top by (auto simp: e wfInclusionAnchors_def blockAnchorsMatch_def)
  then show ?thesis
    using that s e no n bs by (auto simp: find_hash_None)
qed

end
