(* ===== verification/SignerInspect.thy ===== *)
theory SignerInspect
  imports ReplacementSearch
begin

text \<open>
  \<^verbatim>\<open>chain/inspect-signer-recovery.ts\<close> and \<^verbatim>\<open>chain/inspect-signer-inclusions.ts\<close>: what the chain says
  about the oldest retained attempt at a durable block, and about every retained attempt at the
  current head. Both only report: the coordinator applies what they return.
\<close>

subsection \<open>Recovery at a durable block\<close>

datatype SignerRecoveryInspection =
    RecoveryAnchorChanged BlockAnchor
  | RecoveryNonceBehind AnchoredNonceObservation
  | RecoveryNoAttempt AnchoredNonceObservation
  | RecoveryInconsistent AnchoredNonceObservation
  | ResolutionAvailable AnchoredNonceObservation AttemptResolutionEvidence
  | RecoveryUnresolved AnchoredNonceObservation AttemptReceiptResult "ReplacementSearchResult option"

fun includedNotDurable :: "AttemptReceiptResult \<Rightarrow> bool" where
  "includedNotDurable (IncludedNotDurable _ _ _) = True"
| "includedNotDurable _ = False"

text \<open>The part after the nonce has been read, for an attempt whose receipts gave \<open>receipt\<close>.\<close>

definition decideRecovery ::
  "'w chain_client \<Rightarrow> TransactionJournalSnapshot \<Rightarrow> JournalAttempt \<Rightarrow> AttemptReceiptResult \<Rightarrow>
   AnchoredNonceObservation \<Rightarrow> int \<Rightarrow> ('w, SignerRecoveryInspection) io" where
  "decideRecovery C s a receipt obs maxRange =
     (let consumed = attemptNonce a < obsNonce obs in
      case receipt of
        ReceiptVerified e \<Rightarrow>
          ret (if \<not> consumed then RecoveryInconsistent obs else ResolutionAvailable obs e)
      | _ \<Rightarrow>
        if includedNotDurable receipt \<and> consumed then ret (RecoveryInconsistent obs)
        else if \<not> consumed then ret (RecoveryUnresolved obs receipt None)
        else
          andThen (searchAttemptReplacement C (signer (identity s)) (attemptNonce a)
            (signedTransactions a)
            (resolveReplacementSearch (attemptNonce a) (replacementSearch a) (lastObservation s))
            obs maxRange) (\<lambda>search.
          case search of
            SearchAnchorChanged o1 \<Rightarrow> ret (RecoveryAnchorChanged o1)
          | ReplacementFound e \<Rightarrow> ret (ResolutionAvailable obs e)
          | _ \<Rightarrow> ret (RecoveryUnresolved obs receipt (Some search))))"

definition inspectSignerRecovery ::
  "'w chain_client \<Rightarrow> TransactionJournalSnapshot \<Rightarrow> BlockAnchor \<Rightarrow> int \<Rightarrow>
   ('w, SignerRecoveryInspection) io" where
  "inspectSignerRecovery C snapshot anch maxRange =
     andThen (liftPure (validateSnapshot snapshot (identity snapshot))) (\<lambda>s.
     andThen (unlessThrow (0 \<le> blockNumber anch \<and> fixedHex (blockHash anch) 32 \<and> 0 < maxRange \<and>
         maxRange < 2 ^ 256) (TypeError ''Invalid signer recovery input.'')) (\<lambda>_.
     andThen (case attempts s of [] \<Rightarrow> ret None
              | a # _ \<Rightarrow> andThen (reconcileAttemptReceipt C (attemptHashes a) anch)
                           (\<lambda>r. ret (Some r))) (\<lambda>receipt.
     case receipt of Some (ReceiptAnchorChanged o1) \<Rightarrow> ret (RecoveryAnchorChanged o1) | _ \<Rightarrow>
     andThen (readAnchoredNonce C (signer (identity s)) anch) (\<lambda>nonce.
     case nonce of NonceAnchorChanged o2 \<Rightarrow> ret (RecoveryAnchorChanged o2) | NonceVerified obs \<Rightarrow>
       if obsNonce obs < durableNextNonce s then ret (RecoveryNonceBehind obs)
       else (case (attempts s, receipt) of
               (a # _, Some r) \<Rightarrow> decideRecovery C s a r obs maxRange
             | _ \<Rightarrow> ret (RecoveryNoAttempt obs))))))"

subsection \<open>Inclusions at the head\<close>

datatype SignerInclusionInspection =
    InclusionsAnchorChanged BlockAnchor
  | InclusionsNonceBehind AnchoredNonceObservation
  | InclusionsInconsistent AnchoredNonceObservation
  | Inspected AnchoredNonceObservation "JournalAttempt list" bool "jstr option"

text \<open>The accumulators of the pass: \<^verbatim>\<open>attempts\<close>, \<^verbatim>\<open>verifiedNonces\<close>, \<^verbatim>\<open>verifiedIndices\<close> and
  \<^verbatim>\<open>replacementCandidates\<close>.\<close>

record inclusion_pass =
  passAttempts :: "JournalAttempt list"
  passNonces :: "int list"
  passVerified :: "nat set"
  passCandidates :: "nat list"

definition emptyPass :: inclusion_pass where
  "emptyPass = \<lparr>passAttempts = [], passNonces = [], passVerified = {}, passCandidates = []\<rparr>"

definition pushAttempt :: "JournalAttempt \<Rightarrow> inclusion_pass \<Rightarrow> inclusion_pass" where
  "pushAttempt a p = p\<lparr>passAttempts := passAttempts p @ [a]\<rparr>"

definition pushVerified :: "JournalAttempt \<Rightarrow> inclusion_pass \<Rightarrow> inclusion_pass" where
  "pushVerified a p =
     p\<lparr>passAttempts := passAttempts p @ [a], passNonces := passNonces p @ [attemptNonce a],
       passVerified := insert (length (passAttempts p)) (passVerified p)\<rparr>"

definition pushCandidate :: "JournalAttempt \<Rightarrow> inclusion_pass \<Rightarrow> inclusion_pass" where
  "pushCandidate a p =
     p\<lparr>passAttempts := passAttempts p @ [a],
       passCandidates := passCandidates p @ [length (passAttempts p)]\<rparr>"

fun observeAt :: "BlockAnchor \<Rightarrow> JournalInclusionObservation \<Rightarrow> JournalInclusionObservation" where
  "observeAt p (RecordedInclusion i _ r h) = RecordedInclusion i p r h"
| "observeAt p (ReplacedInclusion i _ h k) = ReplacedInclusion i p h k"

text \<open>An inclusion that a reorganisation removed: back to unresolved, its search starting over.\<close>

definition revertInclusion :: "JournalAttempt \<Rightarrow> JournalAttempt" where
  "revertInclusion a =
     a\<lparr>phase := BroadcastMayHaveOccurred,
       replacementSearch := map_option (\<lambda>s. s\<lparr>searchedThrough := None\<rparr>) (replacementSearch a)\<rparr>"

definition recordInclusion :: "JournalAttempt \<Rightarrow> AttemptResolutionEvidence \<Rightarrow> BlockAnchor \<Rightarrow> JournalAttempt" where
  "recordInclusion a e head = a\<lparr>phase := Included (observeAt head (evidenceInclusionRecord e))\<rparr>"

fun inspectAttempts ::
  "'w chain_client \<Rightarrow> BlockAnchor \<Rightarrow> inclusion_pass \<Rightarrow> JournalAttempt list \<Rightarrow>
   ('w, BlockAnchor + inclusion_pass) io" where
  "inspectAttempts C head p [] = ret (Inr p)"
| "inspectAttempts C head p (a # as) =
     (case phase a of
        Included inc \<Rightarrow>
          andThen (recheckAttemptInclusionWithinPass C inc head) (\<lambda>result.
          case result of
            RecheckAnchorChanged o1 \<Rightarrow> ret (Inl o1)
          | VerifiedUnchanged seen \<Rightarrow>
              inspectAttempts C head (pushVerified (a\<lparr>phase := Included (observeAt seen inc)\<rparr>) p) as
          | InclusionBlockChanged _ _ \<Rightarrow> inspectAttempts C head (pushAttempt (revertInclusion a) p) as
          | _ \<Rightarrow> inspectAttempts C head (pushAttempt a p) as)
      | _ \<Rightarrow>
          andThen (reconcileAttemptReceipt C (attemptHashes a) head) (\<lambda>receipt.
          case receipt of
            ReceiptAnchorChanged o1 \<Rightarrow> ret (Inl o1)
          | ReceiptVerified e \<Rightarrow> inspectAttempts C head (pushVerified (recordInclusion a e head) p) as
          | IncludedNotDurable _ _ _ \<Rightarrow> inspectAttempts C head (pushAttempt a p) as
          | _ \<Rightarrow> inspectAttempts C head (pushCandidate a p) as))"

text \<open>The second loop: unresolved attempts whose nonce was consumed, where a range is configured.\<close>

fun searchCandidates ::
  "'w chain_client \<Rightarrow> TransactionJournalSnapshot \<Rightarrow> BlockAnchor \<Rightarrow> AnchoredNonceObservation \<Rightarrow> int \<Rightarrow>
   inclusion_pass \<Rightarrow> nat list \<Rightarrow> ('w, BlockAnchor + inclusion_pass) io" where
  "searchCandidates C s head obs rng p [] = ret (Inr p)"
| "searchCandidates C s head obs rng p (i # is) =
     (let a = passAttempts p ! i in
      if obsNonce obs \<le> attemptNonce a then searchCandidates C s head obs rng p is
      else
        andThen (searchAttemptReplacement C (signer (identity s)) (attemptNonce a)
          (signedTransactions a)
          (if replacementSearch a = None \<and> obsNonce (lastObservation s) \<le> attemptNonce a
           then Some \<lparr>lowerBound = lastObservation s, searchedThrough = None\<rparr>
           else replacementSearch a) obs rng) (\<lambda>search.
        case search of
          SearchAnchorChanged o1 \<Rightarrow> ret (Inl o1)
        | ReplacementFound e \<Rightarrow>
            searchCandidates C s head obs rng
              (p\<lparr>passAttempts := (passAttempts p)[i := recordInclusion a e head],
                 passVerified := insert i (passVerified p)\<rparr>) is
        | _ \<Rightarrow> searchCandidates C s head obs rng p is))"

definition optionalSearch ::
  "'w chain_client \<Rightarrow> TransactionJournalSnapshot \<Rightarrow> BlockAnchor \<Rightarrow> AnchoredNonceObservation \<Rightarrow>
   int option \<Rightarrow> inclusion_pass \<Rightarrow> ('w, BlockAnchor + inclusion_pass) io" where
  "optionalSearch C s head obs rng p =
     (case rng of None \<Rightarrow> ret (Inr p)
      | Some m \<Rightarrow> searchCandidates C s head obs m p (passCandidates p))"

fun findUnresolved :: "nat \<Rightarrow> JournalAttempt list \<Rightarrow> nat option" where
  "findUnresolved i [] = None"
| "findUnresolved i (a # as) = (if \<not> isIncluded a then Some i else findUnresolved (Suc i) as)"

definition broadcastCandidate :: "inclusion_pass \<Rightarrow> AnchoredNonceObservation \<Rightarrow> jstr option" where
  "broadcastCandidate p obs =
     (case findUnresolved 0 (passAttempts p) of
        None \<Rightarrow> None
      | Some i \<Rightarrow>
          if i \<in> set (passCandidates p) \<and> obsNonce obs = attemptNonce (passAttempts p ! i) \<and>
             list_all (\<lambda>j. j \<in> passVerified p) [0..<i]
          then Some (attemptId (passAttempts p ! i)) else None)"

definition outerCheck :: "'w chain_client \<Rightarrow> bool \<Rightarrow> BlockAnchor \<Rightarrow> ('w, BlockAnchor option) io" where
  "outerCheck C b head = (if b then checkBlockAnchor C head else ret None)"

definition inspectSignerInclusionsInternal ::
  "'w chain_client \<Rightarrow> TransactionJournalSnapshot \<Rightarrow> BlockAnchor \<Rightarrow> int option \<Rightarrow> bool \<Rightarrow>
   ('w, SignerInclusionInspection) io" where
  "inspectSignerInclusionsInternal C snapshot head rng checkOuterHead =
     andThen (liftPure (validateSnapshot snapshot (identity snapshot))) (\<lambda>s.
     andThen (unlessThrow (0 \<le> blockNumber head \<and> blockNumber head < 2 ^ 256 \<and>
         fixedHex (blockHash head) 32 \<and>
         (case rng of None \<Rightarrow> True | Some m \<Rightarrow> 0 < m \<and> m < 2 ^ 256))
       (TypeError ''Invalid signer inclusion input.'')) (\<lambda>_.
     andThen (outerCheck C (checkOuterHead \<and> attempts s \<noteq> []) head) (\<lambda>opening.
     case opening of Some o1 \<Rightarrow> ret (InclusionsAnchorChanged o1) | None \<Rightarrow>
     andThen (inspectAttempts C head emptyPass (attempts s)) (\<lambda>pass1.
     case pass1 of Inl o2 \<Rightarrow> ret (InclusionsAnchorChanged o2) | Inr p \<Rightarrow>
     andThen (readAnchoredNonce C (signer (identity s)) head) (\<lambda>nonce.
     case nonce of NonceAnchorChanged o3 \<Rightarrow> ret (InclusionsAnchorChanged o3) | NonceVerified obs \<Rightarrow>
       if obsNonce obs < durableNextNonce s then ret (InclusionsNonceBehind obs)
       else if list_ex (\<lambda>n. obsNonce obs \<le> n) (passNonces p) then ret (InclusionsInconsistent obs)
       else
         andThen (optionalSearch C s head obs rng p) (\<lambda>pass2.
         case pass2 of Inl o4 \<Rightarrow> ret (InclusionsAnchorChanged o4) | Inr q \<Rightarrow>
         andThen (outerCheck C (checkOuterHead \<and> attempts s \<noteq> []) head) (\<lambda>closing.
         case closing of Some o5 \<Rightarrow> ret (InclusionsAnchorChanged o5) | None \<Rightarrow>
         andThen (liftPure (validateSnapshot
             (s\<lparr>lastObservation := obs, attempts := passAttempts q\<rparr>) (identity s))) (\<lambda>t.
         ret (Inspected (lastObservation t) (attempts t)
           (card (passVerified q) = length (passAttempts q)) (broadcastCandidate q obs))))))))))"

definition inspectSignerInclusions ::
  "'w chain_client \<Rightarrow> TransactionJournalSnapshot \<Rightarrow> BlockAnchor \<Rightarrow> int option \<Rightarrow>
   ('w, SignerInclusionInspection) io" where
  "inspectSignerInclusions C s head rng = inspectSignerInclusionsInternal C s head rng True"

definition inspectSignerInclusionsWithinPass ::
  "'w chain_client \<Rightarrow> TransactionJournalSnapshot \<Rightarrow> BlockAnchor \<Rightarrow> int option \<Rightarrow>
   ('w, SignerInclusionInspection) io" where
  "inspectSignerInclusionsWithinPass C s head rng =
     inspectSignerInclusionsInternal C s head rng False"

subsection \<open>What a recovery inspection promises\<close>

lemma AttemptReceiptResult_Inr [io_cases]:
  "(case r of ReceiptVerified e \<Rightarrow> f1 e | ReceiptNotFound \<Rightarrow> f2 | ReceiptAnchorChanged a \<Rightarrow> f3 a
     | IncludedNotDurable h q i \<Rightarrow> f4 h q i | ForkServedReceipt i c \<Rightarrow> f5 i c) s = (Inr y, t) \<longleftrightarrow>
     (\<exists>e. r = ReceiptVerified e \<and> f1 e s = (Inr y, t)) \<or> r = ReceiptNotFound \<and> f2 s = (Inr y, t) \<or>
     (\<exists>a. r = ReceiptAnchorChanged a \<and> f3 a s = (Inr y, t)) \<or>
     (\<exists>h q i. r = IncludedNotDurable h q i \<and> f4 h q i s = (Inr y, t)) \<or>
     (\<exists>i c. r = ForkServedReceipt i c \<and> f5 i c s = (Inr y, t))"
  by (cases r) auto

lemma ReplacementSearchResult_Inr [io_cases]:
  "(case r of MissingLowerBound \<Rightarrow> f1 | AnchorBehindSearch \<Rightarrow> f2 | SearchAnchorChanged a \<Rightarrow> f3 a
     | BoundaryChanged b a \<Rightarrow> f4 b a | RecordedTransactionFound h a i \<Rightarrow> f5 h a i
     | ReplacementFound e \<Rightarrow> f6 e | SearchNotFound a k m \<Rightarrow> f7 a k m) s = (Inr y, t) \<longleftrightarrow>
     r = MissingLowerBound \<and> f1 s = (Inr y, t) \<or> r = AnchorBehindSearch \<and> f2 s = (Inr y, t) \<or>
     (\<exists>a. r = SearchAnchorChanged a \<and> f3 a s = (Inr y, t)) \<or>
     (\<exists>b a. r = BoundaryChanged b a \<and> f4 b a s = (Inr y, t)) \<or>
     (\<exists>h a i. r = RecordedTransactionFound h a i \<and> f5 h a i s = (Inr y, t)) \<or>
     (\<exists>e. r = ReplacementFound e \<and> f6 e s = (Inr y, t)) \<or>
     (\<exists>a k m. r = SearchNotFound a k m \<and> f7 a k m s = (Inr y, t))"
  by (cases r) auto

text \<open>
  Evidence for the oldest attempt: a receipt of one of its own transactions, confirmed canonical, or
  a foreign transaction by the signer with its nonce, found by a linked scan. Either way the nonce
  at the anchor is past the attempt's.
\<close>

definition consumedByOther ::
  "'w chain_client \<Rightarrow> jstr \<Rightarrow> JournalAttempt \<Rightarrow> jstr \<Rightarrow> BlockAnchor \<Rightarrow> bool" where
  "consumedByOther C who a h incl =
     (\<exists>prev n bs. scannedChain C prev n bs incl \<and> bs \<noteq> [] \<and>
        consumedIn who (attemptNonce a) h (last bs) \<and> \<not> containsHash (signedTransactions a) h)"

fun justifiedEvidence ::
  "'w chain_client \<Rightarrow> jstr \<Rightarrow> JournalAttempt \<Rightarrow> AttemptResolutionEvidence \<Rightarrow> bool" where
  "justifiedEvidence C who a (RecordedResolution anch incl outcome h) =
     (h \<in> set (attemptHashes a) \<and> receiptServed C h outcome incl)"
| "justifiedEvidence C who a (ReplacedResolution anch incl h k) =
     (consumedByOther C who a h incl \<and> attemptNonce a < k)"

fun inspectionOk ::
  "'w chain_client \<Rightarrow> TransactionJournalSnapshot \<Rightarrow> BlockAnchor \<Rightarrow> int \<Rightarrow> SignerRecoveryInspection \<Rightarrow> bool" where
  "inspectionOk C s anch rng (RecoveryAnchorChanged _) = True"
| "inspectionOk C s anch rng (RecoveryNonceBehind obs) =
     (anchor obs = anch \<and> obsNonce obs < durableNextNonce s)"
| "inspectionOk C s anch rng (RecoveryNoAttempt obs) =
     (anchor obs = anch \<and> attempts s = [] \<and> durableNextNonce s \<le> obsNonce obs)"
| "inspectionOk C s anch rng (RecoveryInconsistent obs) = (anchor obs = anch)"
| "inspectionOk C s anch rng (ResolutionAvailable obs e) =
     (\<exists>a as. attempts s = a # as \<and> anchor obs = anch \<and> attemptNonce a < obsNonce obs \<and>
        evidenceAnchor e = anch \<and> wfEvidence e \<and> justifiedEvidence C (signer (identity s)) a e)"
| "inspectionOk C s anch rng (RecoveryUnresolved obs receipt search) =
     (\<exists>a as. attempts s = a # as \<and> anchor obs = anch \<and> durableNextNonce s \<le> obsNonce obs \<and>
        (\<forall>e. receipt \<noteq> ReceiptVerified e) \<and>
        (case search of
           None \<Rightarrow> obsNonce obs \<le> attemptNonce a
         | Some r \<Rightarrow> attemptNonce a < obsNonce obs \<and> \<not> includedNotDurable receipt \<and>
             (\<exists>w v. searchAttemptReplacement C (signer (identity s)) (attemptNonce a) (signedTransactions a)
                 (resolveReplacementSearch (attemptNonce a) (replacementSearch a) (lastObservation s))
                 obs rng w = (Inr r, v))))"

lemma decideRecovery_ok:
  assumes "decideRecovery C s a receipt obs rng w = (Inr r, v)"
    and "receiptResultOk C anch (set (attemptHashes a)) receipt"
    and "attempts s = a # as" "anchor obs = anch" "durableNextNonce s \<le> obsNonce obs"
  shows "inspectionOk C s anch rng r"
proof (cases "\<exists>e. receipt = ReceiptVerified e")
  case True
  with assms show ?thesis by (auto simp: decideRecovery_def Let_def io_cases split: if_splits)
next
  case False
  note nv = this
  show ?thesis
  proof (cases "attemptNonce a < obsNonce obs \<and> \<not> includedNotDurable receipt")
    case False
    with nv assms show ?thesis
      by (auto simp: decideRecovery_def Let_def io_cases split: if_splits)
  next
    case True
    with nv assms(1) obtain search u where
      s: "searchAttemptReplacement C (signer (identity s)) (attemptNonce a) (signedTransactions a)
            (resolveReplacementSearch (attemptNonce a) (replacementSearch a) (lastObservation s))
            obs rng w = (Inr search, u)" and
      r: "(case search of
            SearchAnchorChanged o1 \<Rightarrow> ret (RecoveryAnchorChanged o1)
          | ReplacementFound e \<Rightarrow> ret (ResolutionAvailable obs e)
          | _ \<Rightarrow> ret (RecoveryUnresolved obs receipt (Some search))) u = (Inr r, v)"
      by (cases receipt) (auto simp: decideRecovery_def Let_def andThen_Inr)
    show ?thesis
    proof (cases "\<exists>e. search = ReplacementFound e")
      case True
      then obtain e where e: "search = ReplacementFound e" by blast
      obtain b incl h bs where
        "resolveReplacementSearch (attemptNonce a) (replacementSearch a) (lastObservation s) = Some b"
        "e = ReplacedResolution (anchor obs) incl h (obsNonce obs)" "wfEvidence e"
        "\<not> containsHash (signedTransactions a) h" "attemptNonce a < obsNonce obs"
        "scannedChain C (searchBoundary b) (blockNumber (searchBoundary b) + 1) bs incl"
        "bs \<noteq> []" "consumedIn (signer (identity s)) (attemptNonce a) h (last bs)"
        "\<forall>b \<in> set (butlast bs). clearOf (signer (identity s)) (attemptNonce a) b"
        by (rule search_replacementFound [OF s [unfolded e]])
      with r e assms show ?thesis by (auto simp: consumedByOther_def)
    next
      case False
      with r s nv True assms show ?thesis by (cases search) auto
    qed
  qed
qed

lemma inspectSignerRecovery_ok:
  assumes "inspectSignerRecovery C s anch rng w = (Inr r, v)"
  shows "inspectionOk C s anch rng r \<and> wfSnapshot (identity s) s"
proof -
  from assms obtain u1 receipt u2 where
    val: "validateSnapshot s (identity s) = Inr s" and
    rc: "(case attempts s of [] \<Rightarrow> ret None
          | a # _ \<Rightarrow> andThen (reconcileAttemptReceipt C (attemptHashes a) anch)
                       (\<lambda>r. ret (Some r))) w = (Inr receipt, u1)" and
    nx: "(case receipt of Some (ReceiptAnchorChanged o1) \<Rightarrow> ret (RecoveryAnchorChanged o1) | _ \<Rightarrow>
     andThen (readAnchoredNonce C (signer (identity s)) anch) (\<lambda>nonce.
     case nonce of NonceAnchorChanged o2 \<Rightarrow> ret (RecoveryAnchorChanged o2) | NonceVerified obs \<Rightarrow>
       if obsNonce obs < durableNextNonce s then ret (RecoveryNonceBehind obs)
       else (case (attempts s, receipt) of
               (a # _, Some r) \<Rightarrow> decideRecovery C s a r obs rng
             | _ \<Rightarrow> ret (RecoveryNoAttempt obs)))) u1 = (Inr r, v)"
    by (auto simp: inspectSignerRecovery_def andThen_Inr dest: validate_emb_same)
  have wf: "wfSnapshot (identity s) s" using val by (simp add: validate_emb)
  have ok: "inspectionOk C s anch rng r"
  proof (cases "attempts s")
    case Nil
    with rc nx show ?thesis
      by (auto simp: andThen_Inr io_cases readAnchoredNonce_Inr split: if_splits)
  next
    case (Cons a as)
    with rc obtain q where q: "receipt = Some q" "reconcileAttemptReceipt C (attemptHashes a) anch w = (Inr q, u1)"
      by (auto simp: andThen_Inr)
    have qok: "receiptResultOk C anch (set (attemptHashes a)) q"
      using reconcileAttemptReceipt_ok [OF q(2)] by simp
    show ?thesis
    proof (cases "\<exists>o1. q = ReceiptAnchorChanged o1")
      case True
      with nx q show ?thesis by auto
    next
      case False
      then have step: "andThen (readAnchoredNonce C (signer (identity s)) anch) (\<lambda>nonce.
         case nonce of NonceAnchorChanged o2 \<Rightarrow> ret (RecoveryAnchorChanged o2) | NonceVerified obs \<Rightarrow>
           if obsNonce obs < durableNextNonce s then ret (RecoveryNonceBehind obs)
           else decideRecovery C s a q obs rng) u1 = (Inr r, v)"
        using nx [unfolded Cons q(1) prod.case list.case option.case] by (cases q) simp_all
      then show ?thesis
        using decideRecovery_ok [OF _ qok Cons]
        by (auto simp: andThen_Inr io_cases readAnchoredNonce_Inr)
    qed
  qed
  show ?thesis using ok wf by simp
qed

subsection \<open>What an inclusion inspection promises\<close>

definition canonicalNow :: "'w chain_client \<Rightarrow> BlockAnchor \<Rightarrow> bool" where
  "canonicalNow C i =
     (\<exists>w a v. getBlockAnchor C (blockNumber i) w = (Inr a, v) \<and> blockAnchorsMatch i a)"

text \<open>
  How one attempt may change in a pass: it stays as it is, its inclusion is confirmed at the head
  by a canonical block, its inclusion is withdrawn because another block took its place, or an
  inclusion is recorded for it on evidence.
\<close>

definition inclusionStep ::
  "'w chain_client \<Rightarrow> jstr \<Rightarrow> BlockAnchor \<Rightarrow> JournalAttempt \<Rightarrow> JournalAttempt \<Rightarrow> bool" where
  "inclusionStep C who head a b =
     (b = a \<or>
      (\<exists>inc. phase a = Included inc \<and> b = a\<lparr>phase := Included (observeAt head inc)\<rparr> \<and>
         canonicalNow C (inclusionOf inc)) \<or>
      (\<exists>inc other. phase a = Included inc \<and> b = revertInclusion a \<and>
         \<not> blockAnchorsMatch (inclusionOf inc) other) \<or>
      (\<not> isIncluded a \<and> (\<exists>e. b = recordInclusion a e head \<and> evidenceAnchor e = head \<and>
         justifiedEvidence C who a e)))"

definition sameCore :: "JournalAttempt \<Rightarrow> JournalAttempt \<Rightarrow> bool" where
  "sameCore a b =
     (attemptId a = attemptId b \<and> attemptWorkId a = attemptWorkId b \<and>
      attemptNonce a = attemptNonce b \<and> createdAt a = createdAt b \<and>
      signedTransactions a = signedTransactions b)"

lemma inclusionStep_core: "inclusionStep C who head a b \<Longrightarrow> sameCore a b"
  by (auto simp: inclusionStep_def sameCore_def revertInclusion_def recordInclusion_def)

definition verifiedAt :: "BlockAnchor \<Rightarrow> JournalAttempt \<Rightarrow> bool" where
  "verifiedAt head a = (case phase a of Included inc \<Rightarrow> observedAt inc = head | _ \<Rightarrow> False)"

definition passInv ::
  "'w chain_client \<Rightarrow> jstr \<Rightarrow> BlockAnchor \<Rightarrow> JournalAttempt list \<Rightarrow> inclusion_pass \<Rightarrow> bool" where
  "passInv C who head old p =
     (list_all2 (inclusionStep C who head) old (passAttempts p) \<and>
      (\<forall>i \<in> passVerified p. i < length old \<and> verifiedAt head (passAttempts p ! i) \<and>
         attemptNonce (passAttempts p ! i) \<in> set (passNonces p)) \<and>
      (\<forall>i \<in> set (passCandidates p). i < length old \<and> passAttempts p ! i = old ! i \<and>
         \<not> isIncluded (old ! i)) \<and>
      distinct (passCandidates p))"

lemma passInv_length: "passInv C who head old p \<Longrightarrow> length (passAttempts p) = length old"
  by (auto simp: passInv_def dest: list_all2_lengthD)

lemma passInv_push:
  "passInv C who head old p \<Longrightarrow> inclusionStep C who head a b \<Longrightarrow>
    passInv C who head (old @ [a]) (pushAttempt b p)"
  using passInv_length [of C who head old p]
  by (auto simp: passInv_def pushAttempt_def nth_append list_all2_appendI intro: less_SucI)

lemma passInv_verified:
  "passInv C who head old p \<Longrightarrow> inclusionStep C who head a b \<Longrightarrow> verifiedAt head b \<Longrightarrow>
    passInv C who head (old @ [a]) (pushVerified b p)"
  using passInv_length [of C who head old p]
  by (auto simp: passInv_def pushVerified_def nth_append list_all2_appendI intro: less_SucI)

lemma passInv_candidate:
  "passInv C who head old p \<Longrightarrow> \<not> isIncluded a \<Longrightarrow>
    passInv C who head (old @ [a]) (pushCandidate a p)"
  using passInv_length [of C who head old p]
  by (auto simp: passInv_def pushCandidate_def nth_append list_all2_appendI inclusionStep_def
      intro: less_SucI)

lemma observeAt_simps [simp]:
  "observedAt (observeAt p i) = p" "inclusionOf (observeAt p i) = inclusionOf i"
  by (cases i; simp)+

lemma verifiedAt_record [simp]: "verifiedAt head (recordInclusion a e head)"
  by (simp add: verifiedAt_def recordInclusion_def)

lemma InclusionRecheckResult_Inr [io_cases]:
  "(case r of VerifiedUnchanged a \<Rightarrow> f1 a | InclusionBlockChanged i c \<Rightarrow> f2 i c | ReceiptUnavailable \<Rightarrow> f3
     | HeadBehindInclusion \<Rightarrow> f4 | RecheckAnchorChanged a \<Rightarrow> f5 a) s = (Inr y, t) \<longleftrightarrow>
     (\<exists>a. r = VerifiedUnchanged a \<and> f1 a s = (Inr y, t)) \<or>
     (\<exists>i c. r = InclusionBlockChanged i c \<and> f2 i c s = (Inr y, t)) \<or>
     r = ReceiptUnavailable \<and> f3 s = (Inr y, t) \<or> r = HeadBehindInclusion \<and> f4 s = (Inr y, t) \<or>
     (\<exists>a. r = RecheckAnchorChanged a \<and> f5 a s = (Inr y, t))"
  by (cases r) auto

lemma inspectAttempts_open:
  "\<not> isIncluded a \<Longrightarrow> inspectAttempts C head p (a # as) =
     andThen (reconcileAttemptReceipt C (attemptHashes a) head) (\<lambda>receipt.
       case receipt of
         ReceiptAnchorChanged o1 \<Rightarrow> ret (Inl o1)
       | ReceiptVerified e \<Rightarrow> inspectAttempts C head (pushVerified (recordInclusion a e head) p) as
       | IncludedNotDurable _ _ _ \<Rightarrow> inspectAttempts C head (pushAttempt a p) as
       | _ \<Rightarrow> inspectAttempts C head (pushCandidate a p) as)"
  by (cases "phase a") (simp_all add: isIncluded_def)

lemma inspectAttempts_inv:
  assumes "inspectAttempts C head p as w = (Inr (Inr q), v)" "passInv C who head old p"
  shows "passInv C who head (old @ as) q"
  using assms
proof (induction as arbitrary: p old w)
  case Nil
  then show ?case by simp
next
  case (Cons a as)
  have next1: ?case if "inspectAttempts C head p' as u = (Inr (Inr q), v)"
    "passInv C who head (old @ [a]) p'" for p' u
    using Cons.IH [OF that] by simp
  have open_case: ?case if ni: "\<not> isIncluded a"
  proof -
    obtain r u where r: "reconcileAttemptReceipt C (attemptHashes a) head w = (Inr r, u)"
      using Cons.prems(1)
      by (auto simp: inspectAttempts_open [OF ni] andThen_Inr simp del: inspectAttempts.simps)
    have run: "(case r of
         ReceiptAnchorChanged o1 \<Rightarrow> ret (Inl o1)
       | ReceiptVerified e \<Rightarrow> inspectAttempts C head (pushVerified (recordInclusion a e head) p) as
       | IncludedNotDurable _ _ _ \<Rightarrow> inspectAttempts C head (pushAttempt a p) as
       | _ \<Rightarrow> inspectAttempts C head (pushCandidate a p) as) u = (Inr (Inr q), v)"
      using Cons.prems(1) r
      by (simp add: inspectAttempts_open [OF ni] andThen_def del: inspectAttempts.simps)
    note ok = reconcileAttemptReceipt_ok [OF r]
    have same: "inclusionStep C who head a a" by (simp add: inclusionStep_def)
    show ?thesis
    proof (cases r)
      case (ReceiptVerified e)
      with ok ni have "inclusionStep C who head a (recordInclusion a e head)"
        by (auto simp: inclusionStep_def)
      with ReceiptVerified run Cons.prems(2) show ?thesis
        by (intro next1 [OF _ passInv_verified]) auto
    next
      case ReceiptNotFound
      with run Cons.prems(2) ni show ?thesis by (intro next1 [OF _ passInv_candidate]) auto
    next
      case (ForkServedReceipt i c)
      with run Cons.prems(2) ni show ?thesis by (intro next1 [OF _ passInv_candidate]) auto
    next
      case (IncludedNotDurable h q i)
      with run Cons.prems(2) same show ?thesis by (intro next1 [OF _ passInv_push]) auto
    next
      case (ReceiptAnchorChanged x)
      with run show ?thesis by simp
    qed
  qed
  show ?case
  proof (cases "phase a")
    case (Included inc)
    with Cons.prems(1) obtain r u where r: "recheckAttemptInclusionWithinPass C inc head w = (Inr r, u)"
      by (auto simp: andThen_Inr)
    note ok = recheckWithinPass_ok [OF r]
    have step: "inclusionStep C who head a (a\<lparr>phase := Included (observeAt head inc)\<rparr>)"
      if "canonicalNow C (inclusionOf inc)" using that Included by (auto simp: inclusionStep_def)
    have v: "verifiedAt head (a\<lparr>phase := Included (observeAt head inc)\<rparr>)"
      by (simp add: verifiedAt_def)
    have same: "inclusionStep C who head a a" by (simp add: inclusionStep_def)
    show ?thesis
    proof (cases r)
      case (VerifiedUnchanged p2)
      with ok have "p2 = head" "canonicalNow C (inclusionOf inc)" by (auto simp: canonicalNow_def)
      with VerifiedUnchanged Cons.prems r Included step v show ?thesis
        by (intro next1 [OF _ passInv_verified]) (auto simp: andThen_def)
    next
      case (InclusionBlockChanged i c)
      with ok Included have "inclusionStep C who head a (revertInclusion a)"
        by (auto simp: inclusionStep_def)
      with InclusionBlockChanged Cons.prems r Included show ?thesis
        by (intro next1 [OF _ passInv_push]) (auto simp: andThen_def)
    next
      case ReceiptUnavailable
      with Cons.prems r Included same show ?thesis
        by (intro next1 [OF _ passInv_push]) (auto simp: andThen_def)
    next
      case HeadBehindInclusion
      with Cons.prems r Included same show ?thesis
        by (intro next1 [OF _ passInv_push]) (auto simp: andThen_def)
    next
      case (RecheckAnchorChanged x)
      with ok show ?thesis by simp
    qed
  qed (use open_case in \<open>auto simp: isIncluded_def\<close>)
qed

definition searchInv ::
  "'w chain_client \<Rightarrow> jstr \<Rightarrow> BlockAnchor \<Rightarrow> int \<Rightarrow> JournalAttempt list \<Rightarrow> inclusion_pass \<Rightarrow> bool" where
  "searchInv C who head n old p =
     (list_all2 (inclusionStep C who head) old (passAttempts p) \<and>
      (\<forall>i \<in> passVerified p. i < length old \<and> verifiedAt head (passAttempts p ! i) \<and>
         attemptNonce (passAttempts p ! i) < n))"

lemma searchInv_record:
  assumes "searchInv C who head n old p" "i < length old"
    "inclusionStep C who head (old ! i) (recordInclusion (old ! i) e head)"
    "attemptNonce (old ! i) < n"
  shows "searchInv C who head n old
    (p\<lparr>passAttempts := (passAttempts p)[i := recordInclusion (old ! i) e head],
       passVerified := insert i (passVerified p)\<rparr>)"
proof -
  have len: "length (passAttempts p) = length old"
    using assms(1) by (auto simp: searchInv_def dest: list_all2_lengthD)
  have "list_all2 (inclusionStep C who head) old
      ((passAttempts p)[i := recordInclusion (old ! i) e head])"
    using assms len by (auto simp: searchInv_def list_all2_conv_all_nth nth_list_update)
  moreover have "attemptNonce (recordInclusion (old ! i) e head) < n"
    using assms(4) by (simp add: recordInclusion_def)
  ultimately show ?thesis
    using assms len by (auto simp: searchInv_def nth_list_update)
qed

lemma searchCandidates_inv:
  assumes "searchCandidates C s head obs m p is w = (Inr (Inr q), v)"
    and "searchInv C (signer (identity s)) head (obsNonce obs) old p" and "anchor obs = head"
    and "distinct is"
    and "\<forall>i \<in> set is. i < length old \<and> passAttempts p ! i = old ! i \<and> \<not> isIncluded (old ! i)"
  shows "searchInv C (signer (identity s)) head (obsNonce obs) old q \<and>
    passCandidates q = passCandidates p"
  using assms
proof (induction "is" arbitrary: p w)
  case Nil
  then show ?case by simp
next
  case (Cons i "is")
  define a where "a = passAttempts p ! i"
  have old: "i < length old" "a = old ! i" "\<not> isIncluded a"
    using Cons.prems(5) by (auto simp: a_def)
  have skip: ?case if "searchCandidates C s head obs m p is u = (Inr (Inr q), v)" for u
    using Cons.IH [OF that Cons.prems(2,3)] Cons.prems(4,5) by simp
  show ?case
  proof (cases "obsNonce obs \<le> attemptNonce a")
    case True
    with Cons.prems(1) skip show ?thesis by (simp add: a_def [symmetric])
  next
    case False
    with Cons.prems(1) obtain search r u where
      r: "searchAttemptReplacement C (signer (identity s)) (attemptNonce a) (signedTransactions a)
          search obs m w = (Inr r, u)" and
      run: "(case r of
          SearchAnchorChanged o1 \<Rightarrow> ret (Inl o1)
        | ReplacementFound e \<Rightarrow>
            searchCandidates C s head obs m
              (p\<lparr>passAttempts := (passAttempts p)[i := recordInclusion a e head],
                 passVerified := insert i (passVerified p)\<rparr>) is
        | _ \<Rightarrow> searchCandidates C s head obs m p is) u = (Inr (Inr q), v)"
      by (auto simp: a_def [symmetric] andThen_Inr Let_def)
    show ?thesis
    proof (cases "\<exists>e. r = ReplacementFound e")
      case False
      with run skip show ?thesis by (cases r) auto
    next
      case True
      then obtain e where e: "r = ReplacementFound e" by blast
      obtain b incl h bs where
        ev: "search = Some b" "e = ReplacedResolution (anchor obs) incl h (obsNonce obs)"
        "wfEvidence e" "\<not> containsHash (signedTransactions a) h" "attemptNonce a < obsNonce obs"
        "scannedChain C (searchBoundary b) (blockNumber (searchBoundary b) + 1) bs incl"
        "bs \<noteq> []" "consumedIn (signer (identity s)) (attemptNonce a) h (last bs)"
        "\<forall>b \<in> set (butlast bs). clearOf (signer (identity s)) (attemptNonce a) b"
        by (rule search_replacementFound [OF r [unfolded e]])
      then have "justifiedEvidence C (signer (identity s)) a e" "evidenceAnchor e = head"
        using Cons.prems(3) by (auto simp: consumedByOther_def)
      then have step: "inclusionStep C (signer (identity s)) head (old ! i) (recordInclusion a e head)"
        using old by (auto simp: inclusionStep_def)
      define p2 where "p2 = p\<lparr>passAttempts := (passAttempts p)[i := recordInclusion a e head],
        passVerified := insert i (passVerified p)\<rparr>"
      have p2: "searchCandidates C s head obs m p2 is u = (Inr (Inr q), v)"
        using run e by (simp add: p2_def)
      have "searchInv C (signer (identity s)) head (obsNonce obs) old p2"
        unfolding p2_def using searchInv_record [OF Cons.prems(2)] old step ev(5) by simp
      moreover have "\<forall>j \<in> set is. j < length old \<and> passAttempts p2 ! j = old ! j \<and> \<not> isIncluded (old ! j)"
      proof
        fix j assume j: "j \<in> set is"
        then have "i \<noteq> j" using Cons.prems(4) by auto
        then show "j < length old \<and> passAttempts p2 ! j = old ! j \<and> \<not> isIncluded (old ! j)"
          using j Cons.prems(5) by (simp add: p2_def)
      qed
      ultimately show ?thesis
        using Cons.IH [OF p2] Cons.prems(3,4) by (simp add: p2_def)
    qed
  qed
qed

lemma findUnresolved_Some:
  "findUnresolved k as = Some i \<Longrightarrow>
     k \<le> i \<and> i < k + length as \<and> \<not> isIncluded (as ! (i - k)) \<and>
     (\<forall>j < i - k. isIncluded (as ! j))"
proof (induction k as rule: findUnresolved.induct)
  case (2 k a as)
  show ?case
  proof (cases "isIncluded a")
    case True
    with 2 have ih: "Suc k \<le> i" "i < Suc k + length as" "\<not> isIncluded (as ! (i - Suc k))"
      "\<forall>j < i - Suc k. isIncluded (as ! j)" by auto
    then have "i - k = Suc (i - Suc k)" by simp
    with ih True show ?thesis by (auto simp: less_Suc_eq_0_disj)
  qed (use 2 in auto)
qed simp

text \<open>
  A completed inspection at \<open>head\<close>: every attempt kept its identity and changed only in the allowed
  way; "complete" means every attempt is included, confirmed at this head, and its nonce consumed;
  and the attempt named for broadcast is the oldest one not included, its nonce is the next one of
  the signer, and every attempt before it is confirmed.
\<close>

definition inclusionsOk ::
  "'w chain_client \<Rightarrow> TransactionJournalSnapshot \<Rightarrow> BlockAnchor \<Rightarrow> AnchoredNonceObservation \<Rightarrow>
   JournalAttempt list \<Rightarrow> bool \<Rightarrow> jstr option \<Rightarrow> bool" where
  "inclusionsOk C s head obs as allDone bid =
     (anchor obs = head \<and> durableNextNonce s \<le> obsNonce obs \<and>
      wfSnapshot (identity s) (s\<lparr>lastObservation := obs, attempts := as\<rparr>) \<and>
      list_all2 (inclusionStep C (signer (identity s)) head) (attempts s) as \<and>
      (allDone \<longrightarrow> (\<forall>a \<in> set as. verifiedAt head a \<and> attemptNonce a < obsNonce obs)) \<and>
      (\<forall>b. bid = Some b \<longrightarrow>
         (\<exists>i < length as. attemptId (as ! i) = b \<and> \<not> isIncluded (as ! i) \<and>
            attemptNonce (as ! i) = obsNonce obs \<and>
            (\<forall>j < i. verifiedAt head (as ! j)))))"

lemma verifiedAt_included: "verifiedAt head a \<Longrightarrow> isIncluded a"
  by (simp add: verifiedAt_def isIncluded_def split: attempt_phase.splits)

lemma searchInv_final:
  assumes "searchInv C who head n old q"
  shows "card (passVerified q) = length (passAttempts q) \<Longrightarrow> a \<in> set (passAttempts q) \<Longrightarrow>
    verifiedAt head a \<and> attemptNonce a < n"
proof -
  assume card: "card (passVerified q) = length (passAttempts q)" and a: "a \<in> set (passAttempts q)"
  have len: "length (passAttempts q) = length old"
    using assms by (auto simp: searchInv_def dest: list_all2_lengthD)
  have sub: "passVerified q \<subseteq> {..<length old}" using assms by (auto simp: searchInv_def)
  then have all: "passVerified q = {..<length old}"
    using card len by (intro card_subset_eq) auto
  from a obtain i where "i < length old" "a = passAttempts q ! i"
    using len by (auto simp: in_set_conv_nth)
  with all assms show "verifiedAt head a \<and> attemptNonce a < n" by (auto simp: searchInv_def)
qed

lemma broadcastCandidate_Some:
  assumes "broadcastCandidate p obs = Some b" "searchInv C who head n old p"
  shows "\<exists>i < length (passAttempts p). attemptId (passAttempts p ! i) = b \<and>
    \<not> isIncluded (passAttempts p ! i) \<and> attemptNonce (passAttempts p ! i) = obsNonce obs \<and>
    (\<forall>j < i. verifiedAt head (passAttempts p ! j))"
  using assms
  by (auto simp: broadcastCandidate_def searchInv_def list_all_iff split: option.splits if_splits
      dest!: findUnresolved_Some intro!: exI)

lemma option_sum_Inr [io_cases]:
  "(case x of Inl a \<Rightarrow> f a | Inr b \<Rightarrow> g b) s = (Inr y, t) \<longleftrightarrow>
     (\<exists>a. x = Inl a \<and> f a s = (Inr y, t)) \<or> (\<exists>b. x = Inr b \<and> g b s = (Inr y, t))"
  by (cases x) auto

lemma inspectInternal_ok:
  assumes "inspectSignerInclusionsInternal C s head m outer w = (Inr (Inspected obs as allDone bid), v)"
  shows "inclusionsOk C s head obs as allDone bid"
proof -
  from assms obtain u1 p u2 u3 q u4 where
    p: "inspectAttempts C head emptyPass (attempts s) u1 = (Inr (Inr p), u2)" and
    n: "readAnchoredNonce C (signer (identity s)) head u2 = (Inr (NonceVerified obs), u3)" and
    ge: "durableNextNonce s \<le> obsNonce obs" and
    lt: "\<forall>k \<in> set (passNonces p). k < obsNonce obs" and
    q: "optionalSearch C s head obs m p u3 = (Inr (Inr q), u4)" and
    val: "wfSnapshot (identity s) (s\<lparr>lastObservation := obs, attempts := passAttempts q\<rparr>)" and
    as: "as = passAttempts q" and
    done1: "allDone \<longleftrightarrow> card (passVerified q) = length (passAttempts q)" and
    bid: "bid = broadcastCandidate q obs"
    by (auto simp: inspectSignerInclusionsInternal_def andThen_Inr io_cases list_ex_iff not_le not_less
        validate_emb)
  have who: "anchor obs = head" using n by (simp add: readAnchoredNonce_Inr)
  have "passInv C (signer (identity s)) head [] emptyPass" by (simp add: passInv_def emptyPass_def)
  from inspectAttempts_inv [OF p this]
  have inv: "passInv C (signer (identity s)) head (attempts s) p" by simp
  then have si: "searchInv C (signer (identity s)) head (obsNonce obs) (attempts s) p"
    using lt by (auto simp: passInv_def searchInv_def)
  then have fin: "searchInv C (signer (identity s)) head (obsNonce obs) (attempts s) q"
  proof (cases m)
    case None
    then have "q = p" using q by (simp add: optionalSearch_def)
    then show ?thesis using si by simp
  next
    case (Some k)
    then have "searchCandidates C s head obs k p (passCandidates p) u3 = (Inr (Inr q), u4)"
      using q by (simp add: optionalSearch_def)
    from searchCandidates_inv [OF this si who] inv show ?thesis by (simp add: passInv_def)
  qed
  show ?thesis
    using who ge val searchInv_final [OF fin] broadcastCandidate_Some [OF _ fin] fin
    by (auto simp: inclusionsOk_def as done1 bid searchInv_def)
qed

end
