(* ===== verification/Signing.thy ===== *)
theory Signing
  imports ChainReads
begin

text \<open>
  \<^verbatim>\<open>chain/sign-prepared-transaction.ts\<close>: signing a prepared transaction with the journal's chain and
  nonce, and checking that the returned bytes are that transaction. The account that signs is
  viem's \<^verbatim>\<open>LocalAccount\<close>, a parameter; \<^verbatim>\<open>chain/prepare-relayer-transaction.ts\<close> follows.
\<close>

subsection \<open>Prepared transactions\<close>

datatype prepared_fees =
    LegacyFees int
  | Eip2930Fees int jsval
  | Eip1559Fees int int "jsval option"

record PreparedRelayerTransaction =
  ptTo :: jstr
  ptData :: jstr
  ptValue :: int
  ptGas :: int
  ptFees :: prepared_fees

record 'w local_account =
  accountIsLocal :: bool
  accountAddress :: jstr
  signTransaction :: "ParsedTransaction \<Rightarrow> ('w, jstr) io"

record SignedRelayerTransaction =
  signedNonce :: int
  signedRecord :: JournalSignedTransaction

text \<open>\<^verbatim>\<open>/^0x(?:[0-9a-fA-F]{2})*$/\<close>.\<close>

definition hexBytes :: "jstr \<Rightarrow> bool" where
  "hexBytes s = (take 2 s = js ''0x'' \<and> even (length s) \<and> list_all isHexUnit (drop 2 s))"

fun validFees :: "prepared_fees \<Rightarrow> bool" where
  "validFees (LegacyFees price) = (0 \<le> price)"
| "validFees (Eip2930Fees price _) = (0 \<le> price)"
| "validFees (Eip1559Fees cap tip _) = (0 \<le> tip \<and> tip \<le> cap)"

text \<open>The transaction as viem sees it before signing.\<close>

definition unsignedCall :: "PreparedRelayerTransaction \<Rightarrow> jsval option \<Rightarrow> jsval" where
  "unsignedCall t accessList =
     obj ([(''to'', JString (ptTo t)), (''data'', JString (ptData t)), (''value'', JBigint (ptValue t)),
           (''gas'', JBigint (ptGas t))] @
          (case accessList of None \<Rightarrow> [] | Some l \<Rightarrow> [(''accessList'', l)]))"

definition unsignedTransaction :: "JournalIdentity \<Rightarrow> int \<Rightarrow> PreparedRelayerTransaction \<Rightarrow> ParsedTransaction" where
  "unsignedTransaction ident n t =
     (let blank = \<lparr>txType = [], txChainId = JNum (of_int (chainId ident)), txNonce = JNum (of_int n),
            txGasPrice = JUndefined, txMaxFeePerGas = JUndefined, txMaxPriorityFeePerGas = JUndefined,
            txR = JUndefined, txS = JUndefined, txV = JUndefined, txYParity = JUndefined,
            txCall = unsignedCall t None\<rparr>
      in case ptFees t of
           LegacyFees price \<Rightarrow> blank\<lparr>txType := js ''legacy'', txGasPrice := JBigint price\<rparr>
         | Eip2930Fees price l \<Rightarrow>
             blank\<lparr>txType := js ''eip2930'', txGasPrice := JBigint price,
                   txCall := unsignedCall t (Some l)\<rparr>
         | Eip1559Fees cap tip l \<Rightarrow>
             blank\<lparr>txType := js ''eip1559'', txMaxFeePerGas := JBigint cap,
                   txMaxPriorityFeePerGas := JBigint tip, txCall := unsignedCall t l\<rparr>)"

definition signPreparedTransaction ::
  "viem \<Rightarrow> JournalIdentity \<Rightarrow> int \<Rightarrow> 'w local_account \<Rightarrow> PreparedRelayerTransaction \<Rightarrow>
   ('w, SignedRelayerTransaction) io" where
  "signPreparedTransaction V ident n account t =
     tryCatch
       (andThen (unlessThrow (0 < chainId ident \<and> chainId ident \<le> MAX_SAFE_INTEGER \<and>
            fixedHex (signer ident) 20 \<and> accountIsLocal account \<and>
            toLowerCase (accountAddress account) = toLowerCase (signer ident) \<and>
            0 \<le> n \<and> n \<le> MAX_SAFE_INTEGER \<and> fixedHex (ptTo t) 20 \<and> hexBytes (ptData t) \<and>
            0 \<le> ptValue t \<and> 0 < ptGas t \<and> validFees (ptFees t)) (TypeError '''')) (\<lambda>_.
        andThen (liftPure (serializeTransaction V (unsignedTransaction ident n t) None)) (\<lambda>unsig.
        andThen (liftPure (parseTransaction V unsig)) (\<lambda>request.
        andThen (signTransaction account request) (\<lambda>bytes.
        andThen (liftPure (keccak256 V bytes)) (\<lambda>h.
        let entry = \<lparr>transactionHash = h, signedTransaction = bytes\<rparr> in
        andThen (liftPure (verifyJournalAttempt V ident n [entry])) (\<lambda>_.
        andThen (liftPure (parseTransaction V bytes)) (\<lambda>parsed.
        andThen (liftPure (serializeTransaction V (dropSignature parsed) None)) (\<lambda>actual.
        andThen (unlessThrow (toLowerCase actual = toLowerCase unsig) (TypeError '''')) (\<lambda>_.
        ret \<lparr>signedNonce = n, signedRecord = entry\<rparr>))))))))))
       (\<lambda>_. throw (PlainError ''Could not sign the prepared relayer transaction.''))"

text \<open>
  What is returned was signed by the journal's signer for its chain and exactly this nonce, and its
  unsigned content is that of the requested transaction.
\<close>

definition carriesCall :: "viem \<Rightarrow> JournalSignedTransaction \<Rightarrow> ParsedTransaction \<Rightarrow> bool" where
  "carriesCall V e t =
     (\<exists>parsed actual wanted. parseTransaction V (signedTransaction e) = Inr parsed \<and>
        serializeTransaction V (dropSignature parsed) None = Inr actual \<and>
        serializeTransaction V t None = Inr wanted \<and> toLowerCase actual = toLowerCase wanted)"

lemma verifyJournalAttempt_single:
  assumes "verifyJournalAttempt V ident n [e] = Inr u"
  shows "\<exists>intent. authentic V ident n e intent"
proof -
  from assms have "verifyTransactions V ident n {} None [e] = Inr ()"
    by (auto simp: verifyJournalAttempt_def checkE_def split: sum.splits if_splits)
  from verifyTransactions_authentic [OF this] show ?thesis by auto
qed

lemma tryCatch_rethrow_Inr [simp]:
  "tryCatch m (\<lambda>_. throw e) s = (Inr x, t) \<longleftrightarrow> m s = (Inr x, t)"
  by (auto simp: tryCatch_def throw_def split: prod.splits sum.splits)

lemma signPreparedTransaction_ok:
  assumes "signPreparedTransaction V ident n account t w = (Inr r, v)"
  shows "signedNonce r = n \<and> (\<exists>intent. authentic V ident n (signedRecord r) intent) \<and>
    carriesCall V (signedRecord r) (unsignedTransaction ident n t)"
  using assms verifyJournalAttempt_single
  by (fastforce simp: signPreparedTransaction_def andThen_Inr Let_def carriesCall_def)

subsection \<open>\<^verbatim>\<open>prepare-relayer-transaction.ts\<close>\<close>

text \<open>The answer of viem's \<^verbatim>\<open>prepareTransactionRequest\<close>, a parameter.\<close>

record prepared_request =
  prType :: jstr
  prGas :: int
  prGasPrice :: int
  prMaxFeePerGas :: int
  prMaxPriorityFeePerGas :: int

definition prepareRelayerTransaction ::
  "(jstr \<Rightarrow> jstr \<Rightarrow> jstr \<Rightarrow> int \<Rightarrow> int option \<Rightarrow> ('w, prepared_request) io) \<Rightarrow>
   jstr \<Rightarrow> jstr \<Rightarrow> jstr \<Rightarrow> int \<Rightarrow> int option \<Rightarrow> ('w, PreparedRelayerTransaction) io" where
  "prepareRelayerTransaction request who dest data val gas =
     andThen (request who dest data val gas) (\<lambda>p.
       let common = \<lparr>ptTo = dest, ptData = data, ptValue = val, ptGas = prGas p, ptFees = LegacyFees 0\<rparr> in
       if prType p = js ''legacy'' then ret (common\<lparr>ptFees := LegacyFees (prGasPrice p)\<rparr>)
       else if prType p = js ''eip1559'' then
         ret (common\<lparr>ptFees := Eip1559Fees (prMaxFeePerGas p) (prMaxPriorityFeePerGas p) None\<rparr>)
       else throw (TypeError ''Unsupported prepared transaction type.''))"

end
