(* ===== verification/Coordinator.thy ===== *)
theory Coordinator
  imports SignerInspect Signing
begin

text \<open>
  \<^verbatim>\<open>state/signer-coordinator.ts\<close>: the owner of one signer's journal. Its state is the object's
  fields; every operation runs on the pair of that state and the world. The operations exclude one
  another with the flags \<open>busy\<close>, \<open>emitting\<close> and the inspection owner, which are part of the model:
  an operation called while another one runs is rejected without effect (\<open>CoordinatorProofs\<close>), so
  an operation's steps are composed without interleaving. The one exception of the source, the
  abandonment of an inspection whose operation is still running, is split in two.

  Log records are the list \<open>events\<close>; each carries the redaction policy (the signed bytes hidden from
  diagnostics) in force when it was written. Log sinks that throw are ignored by the source and
  are not modelled.
\<close>

subsection \<open>State\<close>

record ResolutionEvent =
  reSigner :: jstr
  reAttemptId :: jstr
  reTransactionHash :: jstr
  reNonce :: int
  reResolution :: AttemptResolutionEvidence

datatype PendingWrite =
    PendingBootstrap
  | PendingResolution ResolutionEvent
  | PendingObservation
  | PendingSearchProgress bool
  | PendingPrepared
  | PendingBroadcast

datatype SignerEventOperation = PrepareAttemptOp | BroadcastAttemptOp | ReconcileAttemptOp

record PreparedAttempt =
  paAttemptId :: jstr
  paTransactionHash :: jstr
  paNonce :: int

datatype not_acknowledged = RequestError exn | InvalidResponse | HashMismatch jstr

datatype SignerEvent =
    AttemptResolved ResolutionEvent
  | SignerBootstrapDeferred AnchoredNonceObservation int int
  | SignerBlocked "SignerBlocker option" "SignerBlocker list" "jstr option"
  | SignerGateReleased "SignerBlocker list" jstr
  | AttemptBroadcastNotAcknowledged PreparedAttempt not_acknowledged
  | AttemptBroadcastAccepted PreparedAttempt

record emitted =
  emEvent :: SignerEvent
  emPolicy :: "jstr list option"
  emOperation :: SignerEventOperation
  emCycle :: "nat option"

datatype InspectionHeadBracket =
    BracketNone
  | BracketOpen nat BlockAnchor
  | BracketClosed
  | BracketFailed

record InspectionOwner =
  ownGeneration :: int
  ownActiveOperation :: bool
  ownAbandoning :: bool
  ownCycle :: "nat option"
  ownHasRunOperation :: bool
  ownHeadBracket :: InspectionHeadBracket

record coordinator =
  recoveryComplete :: bool
  inclusionChecksComplete :: bool
  observationActive :: bool
  busy :: bool
  emitting :: bool
  broadcastPermit :: "jstr option"
  inspectionGeneration :: int
  inspectionOwner :: "InspectionOwner option"
  blockedSince :: "jstr option"
  previousBlockers :: "SignerBlocker list"
  pendingWrite :: "PendingWrite option"
  attemptLog :: "jstr list option"
  lastBootstrapDeferral :: "(int \<times> int \<times> int) option"
  committedRevision :: jstr
  blockers :: "SignerBlocker set"
  episodeReasons :: "SignerBlocker set"
  persistence :: JournalPersistence
  signerIdentity :: JournalIdentity
  capacity :: jsval
  events :: "emitted list"

text \<open>
  The services: viem, the journal store, the configured clock (which may throw or return any
  number), \<^verbatim>\<open>Date.now\<close>, \<^verbatim>\<open>randomUUID\<close>, and whether a redaction policy for the given bytes can be
  configured.
\<close>

record 'w coordinator_env =
  envViem :: viem
  envStore :: "'w journal_store"
  envNow :: "('w, jsval) io"
  envDateNow :: "'w \<Rightarrow> int \<times> 'w"
  envRandomUuid :: "('w, jstr) io"
  envSummaryOk :: "jstr list \<Rightarrow> bool"

type_synonym 'w cstate = "coordinator \<times> 'w"

definition upd :: "(coordinator \<Rightarrow> coordinator) \<Rightarrow> ('w cstate, unit) io" where
  "upd f = modifyState (\<lambda>(c, w). (f c, w))"

definition readC :: "(coordinator \<Rightarrow> ('w cstate, 'a) io) \<Rightarrow> ('w cstate, 'a) io" where
  "readC k = (\<lambda>s. k (fst s) s)"

definition onPersistence :: "(JournalPersistence \<times> 'w, 'a) io \<Rightarrow> ('w cstate, 'a) io" where
  "onPersistence m =
     (\<lambda>(c, w). case m (persistence c, w) of (r, (p, v)) \<Rightarrow> (r, (c\<lparr>persistence := p\<rparr>, v)))"

definition current :: "coordinator \<Rightarrow> TransactionJournalRead" where
  "current c = currentValue (persistence c)"

definition persistenceIdle :: "coordinator \<Rightarrow> bool" where
  "persistenceIdle c = (stateValue (persistence c) = Idle)"

subsection \<open>Guards and small helpers\<close>

abbreviation IN_PROGRESS :: exn where
  "IN_PROGRESS \<equiv> PlainError ''Signer coordinator operation is already in progress.''"

abbreviation INSPECTING :: exn where
  "INSPECTING \<equiv> PlainError ''Signer inspection is already in progress.''"

abbreviation NOT_ACTIVE :: exn where
  "NOT_ACTIVE \<equiv> PlainError ''Signer inspection is no longer active.''"

abbreviation ABANDONING :: exn where
  "ABANDONING \<equiv> PlainError ''Signer inspection is being abandoned.''"

abbreviation RETRY_FIRST :: exn where
  "RETRY_FIRST \<equiv> PlainError ''A pending journal write must be retried first.''"

text \<open>An inspection handle is the generation of its owner: only the current owner has one.\<close>

definition isOwner :: "coordinator \<Rightarrow> int \<Rightarrow> bool" where
  "isOwner c g =
     (case inspectionOwner c of None \<Rightarrow> False
      | Some i \<Rightarrow> ownGeneration i = g \<and> inspectionGeneration c = g)"

definition ownerOf :: "coordinator \<Rightarrow> InspectionOwner" where
  "ownerOf c = the (inspectionOwner c)"

definition assertAvailable :: "('w cstate, unit) io" where
  "assertAvailable =
     readC (\<lambda>c. andThen (unlessThrow (inspectionOwner c = None) INSPECTING)
       (\<lambda>_. unlessThrow (\<not> busy c \<and> \<not> emitting c) IN_PROGRESS))"

definition assertInspectionOwner :: "int \<Rightarrow> ('w cstate, unit) io" where
  "assertInspectionOwner g = readC (\<lambda>c. unlessThrow (isOwner c g) NOT_ACTIVE)"

definition assertAvailableTo :: "int \<Rightarrow> ('w cstate, unit) io" where
  "assertAvailableTo g =
     andThen (assertInspectionOwner g) (\<lambda>_.
     readC (\<lambda>c. andThen (unlessThrow (\<not> ownAbandoning (ownerOf c)) ABANDONING)
       (\<lambda>_. unlessThrow (\<not> busy c \<and> \<not> emitting c) IN_PROGRESS)))"

definition assertInspectionWorkAllowed :: "int \<Rightarrow> ('w cstate, unit) io" where
  "assertInspectionWorkAllowed g =
     andThen (assertAvailableTo g) (\<lambda>_.
     readC (\<lambda>c. andThen (unlessThrow (ownHeadBracket (ownerOf c) \<noteq> BracketFailed)
         (PlainError ''Signer inspection head bracket failed.''))
       (\<lambda>_. unlessThrow (ownHeadBracket (ownerOf c) \<noteq> BracketClosed)
         (PlainError ''Signer inspection head bracket is already closed.''))))"

definition assertNoPendingWrite :: "('w cstate, unit) io" where
  "assertNoPendingWrite =
     readC (\<lambda>c. unlessThrow (pendingWrite c = None \<and> persistenceIdle c) RETRY_FIRST)"

definition updOwner :: "(InspectionOwner \<Rightarrow> InspectionOwner) \<Rightarrow> coordinator \<Rightarrow> coordinator" where
  "updOwner f c = c\<lparr>inspectionOwner := map_option f (inspectionOwner c)\<rparr>"

definition setBracket :: "InspectionHeadBracket \<Rightarrow> coordinator \<Rightarrow> coordinator" where
  "setBracket b = updOwner (\<lambda>i. i\<lparr>ownHeadBracket := b\<rparr>)"

definition revokeActionAuthorization :: "coordinator \<Rightarrow> coordinator" where
  "revokeActionAuthorization c = c\<lparr>broadcastPermit := None, inclusionChecksComplete := False\<rparr>"

text \<open>\<^verbatim>\<open>new Date().toISOString()\<close>, which does not throw.\<close>

definition currentTimestamp :: "'w coordinator_env \<Rightarrow> ('w, jstr) io" where
  "currentTimestamp E = (\<lambda>w. case envDateNow E w of (t, v) \<Rightarrow> (Inr (toISOString t), v))"

definition timestamp :: "'w coordinator_env \<Rightarrow> ('w, jstr) io" where
  "timestamp E =
     andThen (tryCatch (andThen (envNow E) (\<lambda>v. ret (Some v))) (\<lambda>_. ret None)) (\<lambda>v.
       case v of
         Some (JNum q) \<Rightarrow>
           if 0 \<le> q \<and> q < 253402300800000 then ret (toISOString \<lfloor>q\<rfloor>)
           else currentTimestamp E
       | _ \<Rightarrow> currentTimestamp E)"

definition emit :: "SignerEvent \<Rightarrow> nat option \<Rightarrow> SignerEventOperation \<Rightarrow> coordinator \<Rightarrow> coordinator" where
  "emit e cycle oper c =
     c\<lparr>events := events c @
        [\<lparr>emEvent = e, emPolicy = attemptLog c, emOperation = oper, emCycle = cycle\<rparr>]\<rparr>"

subsection \<open>The gate as the coordinator sees it\<close>

definition coordinatorGate :: "coordinator \<Rightarrow> exn + SignerGateDecision" where
  "coordinatorGate c =
     evaluateSignerGate (stateValue (persistence c)) (current c) (recoveryComplete c)
       (inclusionChecksComplete c) (capacity c) (blockers c)"

definition statusOpen :: "coordinator \<Rightarrow> SignerGateDecision \<Rightarrow> bool" where
  "statusOpen c g = (gateOpen g \<and> \<not> busy c \<and> inspectionOwner c = None)"

definition oldestUnresolved :: "TransactionJournalSnapshot \<Rightarrow> JournalAttempt option" where
  "oldestUnresolved s = find (\<lambda>a. \<not> isIncluded a) (attempts s)"

definition canBroadcast :: "coordinator \<Rightarrow> bool" where
  "canBroadcast c =
     (if busy c \<or> emitting c \<or> pendingWrite c \<noteq> None \<or> inspectionOwner c \<noteq> None \<or>
         \<not> persistenceIdle c then False
      else case current c of
        Missing \<Rightarrow> False
      | Present s \<Rightarrow>
          (case oldestUnresolved s of
             None \<Rightarrow> False
           | Some a \<Rightarrow> recoveryComplete c \<and> broadcastPermit c = Some (attemptId a) \<and>
               blockers c = {} \<and> obsNonce (lastObservation s) = attemptNonce a))"

definition latchUnattributedActivity :: "coordinator \<Rightarrow> coordinator" where
  "latchUnattributedActivity c =
     (case current c of
        Missing \<Rightarrow> c
      | Present s \<Rightarrow>
          if nextNonce s < obsNonce (lastObservation s)
          then c\<lparr>blockers := insert UnattributedSignerActivity (blockers c)\<rparr> else c)"

definition searchExhausted :: "TransactionJournalSnapshot \<Rightarrow> bool" where
  "searchExhausted s =
     (case oldestUnresolved s of
        None \<Rightarrow> False
      | Some a \<Rightarrow>
          (case replacementSearch a of
             None \<Rightarrow> False
           | Some r \<Rightarrow>
               (case searchedThrough r of
                  None \<Rightarrow> False
                | Some through \<Rightarrow> attemptNonce a < obsNonce (lastObservation s) \<and>
                    blockAnchorsMatch through (anchor (lastObservation s)))))"

definition latchExhaustedSearch :: "coordinator \<Rightarrow> coordinator" where
  "latchExhaustedSearch c =
     (case current c of
        Missing \<Rightarrow> c
      | Present s \<Rightarrow>
          if searchExhausted s then c\<lparr>blockers := insert ConflictSearchExhausted (blockers c)\<rparr> else c)"

definition updateDurableRecoveryRevision :: "coordinator \<Rightarrow> coordinator" where
  "updateDurableRecoveryRevision c =
     c\<lparr>committedRevision := durableRecoveryRevision (current c) (blockers c)\<rparr>"

subsection \<open>Publishing gate transitions\<close>

definition refreshBlocked ::
  "'w coordinator_env \<Rightarrow> nat option \<Rightarrow> SignerEventOperation \<Rightarrow> SignerGateDecision \<Rightarrow> bool \<Rightarrow>
   ('w cstate, unit) io" where
  "refreshBlocked E cycle oper g changed =
     andThen (readC (\<lambda>c. if blockedSince c = None
        then andThen (onWorld (timestamp E)) (\<lambda>t. upd (\<lambda>c. c\<lparr>blockedSince := Some t\<rparr>))
        else ret ())) (\<lambda>_.
     andThen (upd (\<lambda>c. c\<lparr>episodeReasons := episodeReasons c \<union> set (gateBlockers g)\<rparr>)) (\<lambda>_.
     if changed then
       upd (\<lambda>c. emit (SignerBlocked (gatePrimaryReason g) (gateBlockers g) (blockedSince c)) cycle oper c)
     else ret ()))"

definition refreshReleased ::
  "nat option \<Rightarrow> SignerEventOperation \<Rightarrow> coordinator \<Rightarrow> coordinator" where
  "refreshReleased cycle oper c =
     (case blockedSince c of
        None \<Rightarrow> c
      | Some since \<Rightarrow>
          (emit (SignerGateReleased (filter (\<lambda>b. b \<in> episodeReasons c) BLOCKER_PRECEDENCE) since)
             cycle oper c)\<lparr>blockedSince := None, episodeReasons := {}\<rparr>)"

definition refresh ::
  "'w coordinator_env \<Rightarrow> nat option \<Rightarrow> SignerEventOperation \<Rightarrow> ('w cstate, unit) io" where
  "refresh E cycle oper =
     readC (\<lambda>c. if observationActive c then ret () else
     andThen (liftPure (coordinatorGate c)) (\<lambda>g.
     let isOpen = statusOpen c g; changed = gateBlockers g \<noteq> previousBlockers c in
     andThen (if gateBlockers g \<noteq> [] then refreshBlocked E cycle oper g changed else ret ()) (\<lambda>_.
     andThen (upd (\<lambda>c. c\<lparr>previousBlockers := gateBlockers g\<rparr>)) (\<lambda>_.
     andThen (if isOpen then upd (refreshReleased cycle oper) else ret ()) (\<lambda>_.
     if isOpen then
       upd (\<lambda>c. if pendingWrite c = None \<and> current c \<noteq> Missing \<and> currentAttempts (current c) = []
                then c\<lparr>attemptLog := None\<rparr> else c)
     else ret ())))))"

definition writeOperation :: "PendingWrite \<Rightarrow> SignerEventOperation" where
  "writeOperation p =
     (case p of PendingPrepared \<Rightarrow> PrepareAttemptOp | PendingBroadcast \<Rightarrow> BroadcastAttemptOp
      | _ \<Rightarrow> ReconcileAttemptOp)"

text \<open>The state part of \<^verbatim>\<open>finishWrite\<close>, which ends with \<^verbatim>\<open>refresh\<close>.\<close>

definition settleWrite :: "nat option \<Rightarrow> PendingWrite \<Rightarrow> coordinator \<Rightarrow> coordinator" where
  "settleWrite cycle p c =
     (let c1 = (case p of
                  PendingResolution ev \<Rightarrow>
                    emit (AttemptResolved ev) cycle ReconcileAttemptOp
                      (c\<lparr>blockers := blockers c - {ConflictSearchExhausted}\<rparr>)
                | PendingSearchProgress True \<Rightarrow> c\<lparr>blockers := insert ConflictSearchExhausted (blockers c)\<rparr>
                | PendingSearchProgress False \<Rightarrow> c\<lparr>blockers := blockers c - {ConflictSearchExhausted}\<rparr>
                | _ \<Rightarrow> c)
      in updateDurableRecoveryRevision (latchExhaustedSearch (latchUnattributedActivity
           (c1\<lparr>pendingWrite := None, busy := False\<rparr>))))"

definition finishWrite :: "'w coordinator_env \<Rightarrow> nat option \<Rightarrow> ('w cstate, unit) io" where
  "finishWrite E cycle =
     readC (\<lambda>c. case pendingWrite c of
        None \<Rightarrow> throw (TypeError ''pending'')
      | Some p \<Rightarrow> andThen (upd (settleWrite cycle p)) (\<lambda>_. refresh E cycle (writeOperation p)))"

subsection \<open>Creation\<close>

definition allSignedBytes :: "JournalAttempt list \<Rightarrow> jstr list" where
  "allSignedBytes as = concat (map (\<lambda>a. map signedTransaction (signedTransactions a)) as)"

definition freshCoordinator :: "JournalPersistence \<Rightarrow> JournalIdentity \<Rightarrow> jsval \<Rightarrow> coordinator" where
  "freshCoordinator p ident cap =
     \<lparr>recoveryComplete = False, inclusionChecksComplete = False, observationActive = False,
      busy = False, emitting = False, broadcastPermit = None, inspectionGeneration = 0,
      inspectionOwner = None, blockedSince = None, previousBlockers = [], pendingWrite = None,
      attemptLog = None, lastBootstrapDeferral = None, committedRevision = [], blockers = {},
      episodeReasons = {}, persistence = p, signerIdentity = ident, capacity = cap, events = []\<rparr>"

definition createCoordinator ::
  "'w coordinator_env \<Rightarrow> JournalIdentity \<Rightarrow> jsval \<Rightarrow> ('w, coordinator) io" where
  "createCoordinator E ident cap =
     andThen (unlessThrow (isPositiveSafeInteger cap)
       (TypeError ''Invalid retained attempt capacity.'')) (\<lambda>_.
     andThen (loadJournal (envStore E)) (\<lambda>initial.
     andThen (liftPure (createPersistence (envViem E) ident initial)) (\<lambda>p.
     let c0 = freshCoordinator p ident cap; as = currentAttempts (currentValue p) in
     andThen (unlessThrow (as = [] \<or> envSummaryOk E (allSignedBytes as))
       (PlainError ''Could not configure signed attempt diagnostics.'')) (\<lambda>_.
     let c1 = (case as of [] \<Rightarrow> c0
               | a # _ \<Rightarrow> c0\<lparr>attemptLog := Some (allSignedBytes as), blockedSince := Some (createdAt a)\<rparr>);
         c2 = latchExhaustedSearch (latchUnattributedActivity c1)
     in (\<lambda>w. case refresh E None ReconcileAttemptOp (c2, w) of
               (Inl e, (c, v)) \<Rightarrow> (Inl e, v)
             | (Inr _, (c, v)) \<Rightarrow> (Inr (updateDurableRecoveryRevision c), v))))))"

end
