(* ===== verification/CoordinatorOps.thy ===== *)
theory CoordinatorOps
  imports Coordinator
begin

text \<open>
  The operations of \<^verbatim>\<open>SignerCoordinator\<close>: preparing and broadcasting attempts, recovery and
  inclusion checks with the inspection that owns them, and the retry of a failed journal write.
\<close>

subsection \<open>Preparing an attempt\<close>

datatype PrepareAttemptResult =
    Prepared PreparedAttempt
  | AlreadyRetained jstr jstr

definition appendAttempt :: "TransactionJournalSnapshot \<Rightarrow> JournalAttempt \<Rightarrow> TransactionJournalSnapshot" where
  "appendAttempt s a = s\<lparr>nextNonce := nextNonce s + 1, attempts := attempts s @ [a]\<rparr>"

definition newAttempt ::
  "TransactionJournalSnapshot \<Rightarrow> jstr \<Rightarrow> jstr \<Rightarrow> jstr \<Rightarrow> SignedRelayerTransaction \<Rightarrow> JournalAttempt" where
  "newAttempt s aid wid created r =
     \<lparr>attemptId = aid, attemptWorkId = wid, attemptNonce = signedNonce r, createdAt = created,
      signedTransactions = [signedRecord r],
      replacementSearch = Some \<lparr>lowerBound = lastObservation s, searchedThrough = None\<rparr>,
      phase = Signed\<rparr>"

text \<open>The body of the \<^verbatim>\<open>try\<close> block: sign, protect the diagnostics, validate, save, grant the permit.\<close>

definition prepareBody ::
  "'w coordinator_env \<Rightarrow> 'w local_account \<Rightarrow> PreparedRelayerTransaction \<Rightarrow> jstr \<Rightarrow> nat option \<Rightarrow>
   TransactionJournalSnapshot \<Rightarrow> ('w cstate, PrepareAttemptResult) io" where
  "prepareBody E account tx wid cycle s =
     andThen (onWorld (envRandomUuid E)) (\<lambda>aid.
     andThen (onWorld (timestamp E)) (\<lambda>created.
     readC (\<lambda>c0.
     andThen (onWorld (signPreparedTransaction (envViem E) (signerIdentity c0) (nextNonce s) account tx))
       (\<lambda>r.
     let bytes = allSignedBytes (attempts s) @ [signedTransaction (signedRecord r)] in
     andThen (unlessThrow (envSummaryOk E bytes)
       (PlainError ''Could not configure signed attempt diagnostics.'')) (\<lambda>_.
     andThen (upd (\<lambda>c. c\<lparr>attemptLog := Some bytes\<rparr>)) (\<lambda>_.
     andThen (liftPure (validateSnapshot (appendAttempt s (newAttempt s aid wid created r))
         (signerIdentity c0))) (\<lambda>next.
     andThen (upd (\<lambda>c. c\<lparr>blockedSince := (case blockedSince c of None \<Rightarrow> Some created | x \<Rightarrow> x),
         inclusionChecksComplete := False, pendingWrite := Some PendingPrepared\<rparr>)) (\<lambda>_.
     andThen (onPersistence (savePersistence (envViem E) (envStore E) next)) (\<lambda>_.
     andThen (finishWrite E cycle) (\<lambda>_.
     andThen (upd (\<lambda>c. c\<lparr>broadcastPermit := Some aid\<rparr>)) (\<lambda>_.
     ret (Prepared \<lparr>paAttemptId = aid, paTransactionHash = transactionHash (signedRecord r),
            paNonce = signedNonce r\<rparr>))))))))))))"

text \<open>The \<^verbatim>\<open>catch\<close> block, with what the operation remembered of the state before it.\<close>

definition prepareRollback :: "coordinator \<Rightarrow> coordinator \<Rightarrow> coordinator" where
  "prepareRollback prior c =
     (if persistenceIdle c then
        c\<lparr>pendingWrite := None, attemptLog := attemptLog prior, blockedSince := blockedSince prior,
          inclusionChecksComplete := inclusionChecksComplete prior\<rparr>
      else c\<lparr>recoveryComplete := False, inclusionChecksComplete := False\<rparr>)"

definition leave :: "'w coordinator_env \<Rightarrow> nat option \<Rightarrow> SignerEventOperation \<Rightarrow> ('w cstate, unit) io" where
  "leave E cycle oper =
     andThen (upd (\<lambda>c. c\<lparr>busy := False\<rparr>)) (\<lambda>_. refresh E cycle oper)"

definition prepareAttempt ::
  "'w coordinator_env \<Rightarrow> 'w local_account \<Rightarrow> PreparedRelayerTransaction \<Rightarrow> jstr \<Rightarrow> nat option \<Rightarrow>
   ('w cstate, PrepareAttemptResult) io" where
  "prepareAttempt E account tx wid cycle =
     andThen assertAvailable (\<lambda>_.
     andThen assertNoPendingWrite (\<lambda>_.
     readC (\<lambda>prior.
     andThen (liftPure (coordinatorGate prior)) (\<lambda>g.
     case (statusOpen prior g, current prior) of
       (True, Present s) \<Rightarrow>
         andThen (unlessThrow (workId wid) (TypeError ''Invalid work identity.'')) (\<lambda>_.
         case find (\<lambda>a. attemptWorkId a = wid) (attempts s) of
           Some a \<Rightarrow> ret (AlreadyRetained (attemptId a) wid)
         | None \<Rightarrow>
             andThen (upd (\<lambda>c. c\<lparr>broadcastPermit := None, busy := True\<rparr>)) (\<lambda>_.
             finallyDo
               (onThrow (prepareBody E account tx wid cycle s) (\<lambda>(c, w). (prepareRollback prior c, w)))
               (leave E cycle PrepareAttemptOp)))
     | _ \<Rightarrow> throw (PlainError ''The signer gate must be open before preparing an attempt.'')))))"

subsection \<open>Broadcasting\<close>

datatype BroadcastAttemptResult = Acknowledged PreparedAttempt | NotAcknowledged PreparedAttempt

definition markBroadcast :: "JournalAttempt \<Rightarrow> JournalAttempt" where
  "markBroadcast a = a\<lparr>phase := BroadcastMayHaveOccurred\<rparr>"

definition markOldestUnresolved :: "TransactionJournalSnapshot \<Rightarrow> TransactionJournalSnapshot" where
  "markOldestUnresolved s =
     (case findUnresolved 0 (attempts s) of
        None \<Rightarrow> s
      | Some i \<Rightarrow> s\<lparr>attempts := (attempts s)[i := markBroadcast (attempts s ! i)]\<rparr>)"

definition sendRecorded ::
  "'w chain_client \<Rightarrow> JournalAttempt \<Rightarrow> nat option \<Rightarrow> ('w cstate, BroadcastAttemptResult) io" where
  "sendRecorded C a cycle =
     (let t = last (signedTransactions a);
          ident = \<lparr>paAttemptId = attemptId a, paTransactionHash = transactionHash t, paNonce = attemptNonce a\<rparr>;
          refused = (\<lambda>why. andThen
            (upd (emit (AttemptBroadcastNotAcknowledged ident why) cycle BroadcastAttemptOp))
            (\<lambda>_. ret (NotAcknowledged ident)))
      in andThen (tryCatch
           (andThen (onWorld (requestSendRaw C (signedTransaction t))) (\<lambda>v. ret (Inr v)))
           (\<lambda>e. ret (Inl e))) (\<lambda>answer.
         case answer of
           Inl e \<Rightarrow> refused (RequestError e)
         | Inr v \<Rightarrow>
             if \<not> isFixedHex v 32 then refused InvalidResponse
             else if toLowerCase (stringOf v) \<noteq> toLowerCase (transactionHash t) then
               refused (HashMismatch (stringOf v))
             else andThen (upd (emit (AttemptBroadcastAccepted ident) cycle BroadcastAttemptOp))
                    (\<lambda>_. ret (Acknowledged ident))))"

definition broadcastBody ::
  "'w coordinator_env \<Rightarrow> 'w chain_client \<Rightarrow> TransactionJournalSnapshot \<Rightarrow> JournalAttempt \<Rightarrow> nat option \<Rightarrow>
   ('w cstate, BroadcastAttemptResult) io" where
  "broadcastBody E C s a cycle =
     andThen (if phase a = Signed then
        andThen (upd (\<lambda>c. c\<lparr>pendingWrite := Some PendingBroadcast\<rparr>)) (\<lambda>_.
        andThen (onPersistence (savePersistence (envViem E) (envStore E) (markOldestUnresolved s))) (\<lambda>_.
        upd (\<lambda>c. c\<lparr>pendingWrite := None\<rparr>)))
      else ret ()) (\<lambda>_. sendRecorded C a cycle)"

definition dropPendingIfIdle :: "coordinator \<Rightarrow> coordinator" where
  "dropPendingIfIdle c = (if persistenceIdle c then c\<lparr>pendingWrite := None\<rparr> else c)"

definition broadcastAttempt ::
  "'w coordinator_env \<Rightarrow> 'w chain_client \<Rightarrow> jstr \<Rightarrow> nat option \<Rightarrow>
   ('w cstate, BroadcastAttemptResult) io" where
  "broadcastAttempt E C aid cycle =
     andThen assertAvailable (\<lambda>_.
     andThen assertNoPendingWrite (\<lambda>_.
     readC (\<lambda>prior.
     case current prior of
       Missing \<Rightarrow> throw (PlainError ''Broadcast does not match a recorded attempt.'')
     | Present s \<Rightarrow>
         (case oldestUnresolved s of
            None \<Rightarrow> throw (PlainError ''Broadcast does not match a recorded attempt.'')
          | Some a \<Rightarrow>
              andThen (unlessThrow (aid = attemptId a)
                (PlainError ''Broadcast does not match a recorded attempt.'')) (\<lambda>_.
              andThen (unlessThrow (canBroadcast prior)
                (PlainError ''Fresh reconciliation is required before broadcasting.'')) (\<lambda>_.
              andThen (upd (\<lambda>c. c\<lparr>broadcastPermit := None, recoveryComplete := False,
                  inclusionChecksComplete := False, busy := True\<rparr>)) (\<lambda>_.
              finallyDo
                (onThrow (broadcastBody E C s a cycle) (\<lambda>(c, w). (dropPendingIfIdle c, w)))
                (leave E cycle BroadcastAttemptOp))))))))"

subsection \<open>Inspections\<close>

definition beginInspection :: "('w cstate, int) io" where
  "beginInspection =
     andThen assertAvailable (\<lambda>_.
     andThen assertNoPendingWrite (\<lambda>_.
     andThen (upd (\<lambda>c. revokeActionAuthorization
        (c\<lparr>inspectionGeneration := inspectionGeneration c + 1,
          inspectionOwner := Some \<lparr>ownGeneration = inspectionGeneration c + 1,
            ownActiveOperation = False, ownAbandoning = False, ownCycle = None,
            ownHasRunOperation = False, ownHeadBracket = BracketNone\<rparr>\<rparr>))) (\<lambda>_.
     readC (\<lambda>c. ret (inspectionGeneration c)))))"

text \<open>
  \<^verbatim>\<open>runInspectionOperation\<close>: the guards, the operation as the owner's active one, and the failure
  of an open head bracket when the operation throws.
\<close>

definition enterOperation :: "int \<Rightarrow> nat option \<Rightarrow> ('w cstate, unit) io" where
  "enterOperation g cycle =
     andThen (assertInspectionWorkAllowed g) (\<lambda>_.
     readC (\<lambda>c. andThen (unlessThrow (\<not> ownActiveOperation (ownerOf c))
         (PlainError ''Signer inspection operation is already in progress.'')) (\<lambda>_.
       upd (updOwner (\<lambda>i. i\<lparr>ownCycle := cycle, ownActiveOperation := True\<rparr>)))))"

definition failOpenBracket :: "coordinator \<Rightarrow> coordinator" where
  "failOpenBracket c =
     (case inspectionOwner c of
        Some i \<Rightarrow> (case ownHeadBracket i of
            BracketOpen _ _ \<Rightarrow> revokeActionAuthorization (setBracket BracketFailed c)
          | _ \<Rightarrow> c)
      | None \<Rightarrow> c)"

definition runInspectionOperation ::
  "int \<Rightarrow> nat option \<Rightarrow> ('w cstate, 'a) io \<Rightarrow> ('w cstate, 'a) io" where
  "runInspectionOperation g cycle oper =
     andThen (enterOperation g cycle) (\<lambda>_.
     tryFinally
       (onThrow (andThen (assertInspectionWorkAllowed g) (\<lambda>_. oper)) (\<lambda>(c, w). (failOpenBracket c, w)))
       (\<lambda>(c, w). (updOwner (\<lambda>i. i\<lparr>ownActiveOperation := False\<rparr>) c, w)))"

definition openInspectionHeadOwned ::
  "'w chain_client \<Rightarrow> BlockAnchor \<Rightarrow> int \<Rightarrow> ('w cstate, BlockAnchor option) io" where
  "openInspectionHeadOwned C head g =
     andThen (assertInspectionWorkAllowed g) (\<lambda>_.
     readC (\<lambda>c. andThen (unlessThrow (\<not> ownHasRunOperation (ownerOf c) \<and>
         ownHeadBracket (ownerOf c) = BracketNone)
         (PlainError ''The head bracket must be opened before recovery or inclusion work.'')) (\<lambda>_.
     andThen (upd (setBracket BracketFailed)) (\<lambda>_.
     andThen (unlessThrow (0 \<le> blockNumber head \<and> blockNumber head < 2 ^ 256 \<and>
         fixedHex (blockHash head) 32) (TypeError ''Invalid signer inspection head.'')) (\<lambda>_.
     andThen (onWorld (checkBlockAnchor C head)) (\<lambda>changed.
     case changed of Some o1 \<Rightarrow> ret (Some o1)
     | None \<Rightarrow> andThen (upd (setBracket (BracketOpen (clientId C) head))) (\<lambda>_. ret None)))))))"

definition openHead ::
  "'w chain_client \<Rightarrow> BlockAnchor \<Rightarrow> int \<Rightarrow> ('w cstate, BlockAnchor option) io" where
  "openHead C head g = runInspectionOperation g None (openInspectionHeadOwned C head g)"

definition finishInspection :: "'w coordinator_env \<Rightarrow> int \<Rightarrow> ('w cstate, unit) io" where
  "finishInspection E g =
     andThen (assertInspectionOwner g) (\<lambda>_.
     readC (\<lambda>c.
     andThen (unlessThrow (\<not> ownAbandoning (ownerOf c)) ABANDONING) (\<lambda>_.
     andThen (unlessThrow (\<not> ownActiveOperation (ownerOf c))
       (PlainError ''Signer inspection operation is still running.'')) (\<lambda>_.
     andThen (unlessThrow (\<not> busy c \<and> \<not> emitting c) IN_PROGRESS) (\<lambda>_.
     andThen (unlessThrow (case ownHeadBracket (ownerOf c) of BracketOpen _ _ \<Rightarrow> False | _ \<Rightarrow> True)
       (PlainError ''Signer inspection head bracket is still open.'')) (\<lambda>_.
     andThen (unlessThrow (ownHeadBracket (ownerOf c) \<noteq> BracketFailed)
       (PlainError ''Signer inspection head bracket failed.'')) (\<lambda>_.
     andThen (unlessThrow (pendingWrite c = None \<and> persistenceIdle c)
       (PlainError ''Signer inspection has pending persistence.'')) (\<lambda>_.
     andThen (upd (\<lambda>c. c\<lparr>inspectionOwner := None\<rparr>)) (\<lambda>_.
     refresh E (ownCycle (ownerOf c)) ReconcileAttemptOp))))))))) "

text \<open>The request to abandon, and its completion once a running operation has settled.\<close>

definition requestAbandon :: "int \<Rightarrow> ('w cstate, unit) io" where
  "requestAbandon g =
     andThen (assertInspectionOwner g) (\<lambda>_.
     upd (\<lambda>c. revokeActionAuthorization (updOwner (\<lambda>i. i\<lparr>ownAbandoning := True\<rparr>) c)))"

definition completeAbandonment :: "'w coordinator_env \<Rightarrow> int \<Rightarrow> ('w cstate, unit) io" where
  "completeAbandonment E g =
     andThen (assertInspectionOwner g) (\<lambda>_.
     readC (\<lambda>c.
     andThen (upd (\<lambda>c. (revokeActionAuthorization c)\<lparr>inspectionOwner := None\<rparr>)) (\<lambda>_.
     refresh E (ownCycle (ownerOf c)) ReconcileAttemptOp)))"

definition abandonInspection :: "'w coordinator_env \<Rightarrow> int \<Rightarrow> ('w cstate, unit) io" where
  "abandonInspection E g = andThen (requestAbandon g) (\<lambda>_. completeAbandonment E g)"

subsection \<open>Recovery\<close>

datatype SignerRecoveryResult =
    RecoveryInspected SignerRecoveryInspection
  | RecoveryBootstrapDeferred AnchoredNonceObservation int int

definition bootstrapSnapshot :: "JournalIdentity \<Rightarrow> AnchoredNonceObservation \<Rightarrow> TransactionJournalSnapshot" where
  "bootstrapSnapshot ident obs =
     \<lparr>identity = ident, baseline = obs, lastObservation = obs, nextNonce = obsNonce obs,
      durableNextNonce = obsNonce obs, repairs = [], attempts = []\<rparr>"

definition recoverMissing ::
  "'w coordinator_env \<Rightarrow> 'w chain_client \<Rightarrow> BlockAnchor \<Rightarrow> nat option \<Rightarrow>
   ('w cstate, SignerRecoveryResult) io" where
  "recoverMissing E C anch cycle =
     readC (\<lambda>c0.
     andThen (unlessThrow (blockers c0 = {})
       (PlainError ''Cannot bootstrap while coordinator blockers remain.'')) (\<lambda>_.
     andThen (onWorld (inspectSignerBootstrap C (signer (signerIdentity c0)) anch)) (\<lambda>r.
     case r of
       BootstrapDeferred obs latest pend \<Rightarrow>
         andThen (if lastBootstrapDeferral c0 \<noteq> Some (obsNonce obs, latest, pend) then
            upd (\<lambda>c. emit (SignerBootstrapDeferred obs latest pend) cycle ReconcileAttemptOp
              (c\<lparr>lastBootstrapDeferral := Some (obsNonce obs, latest, pend)\<rparr>))
          else ret ()) (\<lambda>_. ret (RecoveryBootstrapDeferred obs latest pend))
     | BootstrapAnchorChanged a \<Rightarrow> ret (RecoveryInspected (RecoveryAnchorChanged a))
     | BootstrapReady obs \<Rightarrow>
         andThen (upd (\<lambda>c. c\<lparr>lastBootstrapDeferral := None, pendingWrite := Some PendingBootstrap\<rparr>)) (\<lambda>_.
         andThen (onPersistence (savePersistence (envViem E) (envStore E)
             (bootstrapSnapshot (signerIdentity c0) obs))) (\<lambda>_.
         andThen (upd (\<lambda>c. c\<lparr>recoveryComplete := True\<rparr>)) (\<lambda>_.
         andThen (finishWrite E cycle) (\<lambda>_.
         ret (RecoveryInspected (RecoveryNoAttempt obs)))))))))"

fun inspectionObservation :: "SignerRecoveryInspection \<Rightarrow> AnchoredNonceObservation option" where
  "inspectionObservation (RecoveryNoAttempt obs) = Some obs"
| "inspectionObservation (ResolutionAvailable obs _) = Some obs"
| "inspectionObservation (RecoveryUnresolved obs _ search) =
     (case search of
        Some (BoundaryChanged _ _) \<Rightarrow> None
      | Some AnchorBehindSearch \<Rightarrow> None
      | _ \<Rightarrow> Some obs)"
| "inspectionObservation _ = None"

text \<open>
  The journal after an inspection of \<open>s\<close>, with what the write means; an error for evidence that does
  not fit. \<open>keep\<close>: evidence of unattributed activity must not be overwritten.
\<close>

definition resolveOldest ::
  "jstr \<Rightarrow> JournalAttempt \<Rightarrow> AttemptResolutionEvidence \<Rightarrow> exn + PendingWrite" where
  "resolveOldest who a evidence =
     bindE (captureEvidence evidence) (\<lambda>e.
     bindE (assertResolutionTransaction (attemptNonce a) (signedTransactions a) e) (\<lambda>_.
     Inr (PendingResolution
       \<lparr>reSigner = who, reAttemptId = attemptId a,
        reTransactionHash = (case e of
            ReplacedResolution _ _ _ _ \<Rightarrow> transactionHash (hd (signedTransactions a))
          | RecordedResolution _ _ _ h \<Rightarrow> h),
        reNonce = attemptNonce a, reResolution = e\<rparr>)))"

definition oldestSearch ::
  "TransactionJournalSnapshot \<Rightarrow> JournalAttempt \<Rightarrow> AnchoredNonceObservation \<Rightarrow>
   Journal.ReplacementSearch option" where
  "oldestSearch s a obs =
     (case replacementSearch a of
        Some r \<Rightarrow> Some r
      | None \<Rightarrow>
          if obsNonce obs \<le> attemptNonce a then Some \<lparr>lowerBound = obs, searchedThrough = None\<rparr>
          else if obsNonce (lastObservation s) \<le> attemptNonce a
            then Some \<lparr>lowerBound = lastObservation s, searchedThrough = None\<rparr>
          else None)"

definition recoveryUpdate ::
  "jstr \<Rightarrow> TransactionJournalSnapshot \<Rightarrow> AnchoredNonceObservation \<Rightarrow> SignerRecoveryInspection \<Rightarrow>
   exn + PendingWrite \<times> TransactionJournalSnapshot" where
  "recoveryUpdate who s obs r =
     (case (r, attempts s) of
        (ResolutionAvailable _ evidence, a # as) \<Rightarrow>
          bindE (resolveOldest who a evidence) (\<lambda>p.
            Inr (p, s\<lparr>lastObservation := obs, durableNextNonce := attemptNonce a + 1, attempts := as\<rparr>))
      | (ResolutionAvailable _ _, []) \<Rightarrow>
          Inl (PlainError ''No recorded attempt is available to resolve.'')
      | (RecoveryUnresolved _ _ (Some (SearchNotFound through scanned remaining)), a # as) \<Rightarrow>
          (if 0 < scanned then
             (case oldestSearch s a obs of
                None \<Rightarrow> Inl (PlainError ''Search progress requires a recorded lower bound.'')
              | Some b \<Rightarrow>
                  Inr (PendingSearchProgress (remaining = 0),
                    s\<lparr>lastObservation := obs,
                      attempts := a\<lparr>replacementSearch := Some (b\<lparr>searchedThrough := Some through\<rparr>)\<rparr> # as\<rparr>))
           else
             Inr (PendingObservation,
               s\<lparr>lastObservation := obs, attempts := a\<lparr>replacementSearch := oldestSearch s a obs\<rparr> # as\<rparr>))
      | (_, a # as) \<Rightarrow>
          Inr (PendingObservation,
            s\<lparr>lastObservation := obs, attempts := a\<lparr>replacementSearch := oldestSearch s a obs\<rparr> # as\<rparr>)
      | (_, []) \<Rightarrow> Inr (PendingObservation, s\<lparr>lastObservation := obs\<rparr>))"

definition permitAfterRecovery ::
  "TransactionJournalSnapshot \<Rightarrow> SignerRecoveryInspection \<Rightarrow> coordinator \<Rightarrow> jstr option" where
  "permitAfterRecovery s r c =
     (case (r, attempts s) of
        (RecoveryUnresolved obs receipt None, a # _) \<Rightarrow>
          if \<not> isIncluded a \<and> obsNonce obs = attemptNonce a \<and> blockers c = {} \<and>
             (case receipt of ReceiptNotFound \<Rightarrow> True | ForkServedReceipt _ _ \<Rightarrow> True | _ \<Rightarrow> False)
          then Some (attemptId a) else broadcastPermit c
      | _ \<Rightarrow> broadcastPermit c)"

definition recoverPresent ::
  "'w coordinator_env \<Rightarrow> 'w chain_client \<Rightarrow> TransactionJournalSnapshot \<Rightarrow> BlockAnchor \<Rightarrow> int \<Rightarrow>
   nat option \<Rightarrow> ('w cstate, SignerRecoveryResult) io" where
  "recoverPresent E C s anch maxRange cycle =
     andThen (onWorld (inspectSignerRecovery C s anch maxRange)) (\<lambda>r.
     case inspectionObservation r of None \<Rightarrow> ret (RecoveryInspected r) | Some obs \<Rightarrow>
     readC (\<lambda>c0.
     let hides = UnattributedSignerActivity \<in> blockers c0 \<and> obsNonce obs < obsNonce (lastObservation s);
         resolves = (case r of ResolutionAvailable _ _ \<Rightarrow> True | _ \<Rightarrow> False)
     in if hides \<and> \<not> resolves then ret (RecoveryInspected r)
     else
       andThen (liftPure (recoveryUpdate (signer (signerIdentity c0)) s
         (if hides then lastObservation s else obs) r)) (\<lambda>(p, next).
       andThen (liftPure (validateSnapshot next (signerIdentity c0))) (\<lambda>snap.
       andThen (upd (\<lambda>c. c\<lparr>pendingWrite := Some p\<rparr>)) (\<lambda>_.
       andThen (onPersistence (savePersistence (envViem E) (envStore E) snap)) (\<lambda>_.
       andThen (upd (\<lambda>c. c\<lparr>recoveryComplete := True\<rparr>)) (\<lambda>_.
       andThen (finishWrite E cycle) (\<lambda>_.
       andThen (upd (\<lambda>c. c\<lparr>broadcastPermit := permitAfterRecovery s r c\<rparr>)) (\<lambda>_.
       ret (RecoveryInspected r))))))))))"

definition recoverOwned ::
  "'w coordinator_env \<Rightarrow> 'w chain_client \<Rightarrow> BlockAnchor \<Rightarrow> int \<Rightarrow> int \<Rightarrow> nat option \<Rightarrow>
   ('w cstate, SignerRecoveryResult) io" where
  "recoverOwned E C anch maxRange g cycle =
     andThen (assertInspectionWorkAllowed g) (\<lambda>_.
     andThen (upd (updOwner (\<lambda>i. i\<lparr>ownHasRunOperation := True\<rparr>))) (\<lambda>_.
     andThen (unlessThrow (0 < maxRange \<and> maxRange < 2 ^ 256)
       (TypeError ''Invalid signer recovery input.'')) (\<lambda>_.
     andThen assertNoPendingWrite (\<lambda>_.
     readC (\<lambda>prior.
     andThen (upd (\<lambda>c. c\<lparr>broadcastPermit := None, busy := True, recoveryComplete := False,
         inclusionChecksComplete := False\<rparr>)) (\<lambda>_.
     finallyDo
       (onThrow (case current prior of
            Missing \<Rightarrow> recoverMissing E C anch cycle
          | Present s \<Rightarrow> recoverPresent E C s anch maxRange cycle)
          (\<lambda>(c, w). (dropPendingIfIdle (c\<lparr>recoveryComplete := False\<rparr>), w)))
       (leave E cycle ReconcileAttemptOp)))))))"

definition recoverInspection ::
  "'w coordinator_env \<Rightarrow> 'w chain_client \<Rightarrow> BlockAnchor \<Rightarrow> int \<Rightarrow> int \<Rightarrow> nat option \<Rightarrow>
   ('w cstate, SignerRecoveryResult) io" where
  "recoverInspection E C anch maxRange g cycle =
     runInspectionOperation g cycle (recoverOwned E C anch maxRange g cycle)"

subsection \<open>Inclusion checks\<close>

definition bracketOf :: "coordinator \<Rightarrow> InspectionHeadBracket" where
  "bracketOf c = (case inspectionOwner c of None \<Rightarrow> BracketNone | Some i \<Rightarrow> ownHeadBracket i)"

definition isOpenBracket :: "InspectionHeadBracket \<Rightarrow> bool" where
  "isOpenBracket b = (case b of BracketOpen _ _ \<Rightarrow> True | _ \<Rightarrow> False)"

definition inspectInBracket ::
  "'w chain_client \<Rightarrow> TransactionJournalSnapshot \<Rightarrow> BlockAnchor \<Rightarrow> int option \<Rightarrow>
   InspectionHeadBracket \<Rightarrow> ('w cstate, SignerInclusionInspection) io" where
  "inspectInBracket C s head maxRange b =
     (case b of
        BracketOpen cid h \<Rightarrow>
          andThen (unlessThrow (clientId C = cid \<and> blockAnchorsMatch head h)
            (PlainError ''Inclusion checking must use the inspection head and client.'')) (\<lambda>_.
          onWorld (inspectSignerInclusionsWithinPass C s head maxRange))
      | _ \<Rightarrow> onWorld (inspectSignerInclusions C s head maxRange))"

fun inconsistentInclusions :: "SignerInclusionInspection \<Rightarrow> bool" where
  "inconsistentInclusions (InclusionsNonceBehind _) = True"
| "inconsistentInclusions (InclusionsInconsistent _) = True"
| "inconsistentInclusions _ = False"

definition failBracket :: "InspectionHeadBracket \<Rightarrow> coordinator \<Rightarrow> coordinator" where
  "failBracket b c =
     (if isOpenBracket b then revokeActionAuthorization (setBracket BracketFailed c) else c)"

text \<open>The closing head check of an open bracket, with the anchor observed when it changed.\<close>

definition closingCheck ::
  "'w chain_client \<Rightarrow> InspectionHeadBracket \<Rightarrow> ('w cstate, BlockAnchor option) io" where
  "closingCheck C b =
     (case b of BracketOpen _ h \<Rightarrow> onWorld (checkBlockAnchor C h) | _ \<Rightarrow> ret None)"

definition permitAfterInclusions ::
  "TransactionJournalSnapshot \<Rightarrow> jstr option \<Rightarrow> coordinator \<Rightarrow> jstr option" where
  "permitAfterInclusions next bid c =
     (case oldestUnresolved next of
        None \<Rightarrow> broadcastPermit c
      | Some a \<Rightarrow>
          if recoveryComplete c \<and> blockers c = {} \<and> bid = Some (attemptId a) \<and>
             obsNonce (lastObservation next) = attemptNonce a
          then Some (attemptId a) else broadcastPermit c)"

definition inclusionsBody ::
  "'w coordinator_env \<Rightarrow> 'w chain_client \<Rightarrow> TransactionJournalSnapshot \<Rightarrow> BlockAnchor \<Rightarrow> int option \<Rightarrow>
   nat option \<Rightarrow> ('w cstate, SignerInclusionInspection) io" where
  "inclusionsBody E C s head maxRange cycle =
     readC (\<lambda>c0. let b = bracketOf c0 in
     andThen (inspectInBracket C s head maxRange b) (\<lambda>r.
     case r of
       Inspected obs as complete1 bid \<Rightarrow>
         andThen (closingCheck C b) (\<lambda>changed.
         case changed of
           Some o1 \<Rightarrow> andThen (upd (failBracket b)) (\<lambda>_. ret (InclusionsAnchorChanged o1))
         | None \<Rightarrow>
             readC (\<lambda>c1.
             let seen = (if UnattributedSignerActivity \<in> blockers c1 \<and>
                            obsNonce obs < obsNonce (lastObservation s)
                         then lastObservation s else obs)
             in andThen (liftPure (validateSnapshot (s\<lparr>lastObservation := seen, attempts := as\<rparr>)
                  (signerIdentity c1))) (\<lambda>next.
                andThen (upd (\<lambda>c. c\<lparr>pendingWrite := Some PendingObservation\<rparr>)) (\<lambda>_.
                andThen (onPersistence (savePersistence (envViem E) (envStore E) next)) (\<lambda>_.
                andThen (upd (\<lambda>c. c\<lparr>inclusionChecksComplete := complete1\<rparr>)) (\<lambda>_.
                andThen (finishWrite E cycle) (\<lambda>_.
                andThen (upd (\<lambda>c. c\<lparr>broadcastPermit := permitAfterInclusions next bid c\<rparr>)) (\<lambda>_.
                andThen (upd (\<lambda>c. if isOpenBracket b then setBracket BracketClosed c else c)) (\<lambda>_.
                ret r)))))))))
     | _ \<Rightarrow>
         andThen (upd (failBracket b)) (\<lambda>_.
         andThen (upd (\<lambda>c. if inconsistentInclusions r then c\<lparr>recoveryComplete := False\<rparr> else c)) (\<lambda>_.
         ret r))))"

definition checkInclusionsOwned ::
  "'w coordinator_env \<Rightarrow> 'w chain_client \<Rightarrow> BlockAnchor \<Rightarrow> int option \<Rightarrow> int \<Rightarrow> nat option \<Rightarrow>
   ('w cstate, SignerInclusionInspection) io" where
  "checkInclusionsOwned E C head maxRange g cycle =
     andThen (assertInspectionWorkAllowed g) (\<lambda>_.
     andThen (upd (updOwner (\<lambda>i. i\<lparr>ownHasRunOperation := True\<rparr>))) (\<lambda>_.
     andThen assertNoPendingWrite (\<lambda>_.
     readC (\<lambda>prior.
     case current prior of
       Missing \<Rightarrow> throw (PlainError ''Cannot check inclusions without an initialized journal.'')
     | Present s \<Rightarrow>
         andThen (upd (\<lambda>c. c\<lparr>broadcastPermit := None, inclusionChecksComplete := False, busy := True\<rparr>)) (\<lambda>_.
         finallyDo
           (onThrow (inclusionsBody E C s head maxRange cycle)
             (\<lambda>(c, w). (dropPendingIfIdle (c\<lparr>inclusionChecksComplete := False\<rparr>), w)))
           (leave E cycle ReconcileAttemptOp))))))"

definition checkInclusionsInspection ::
  "'w coordinator_env \<Rightarrow> 'w chain_client \<Rightarrow> BlockAnchor \<Rightarrow> int option \<Rightarrow> int \<Rightarrow> nat option \<Rightarrow>
   ('w cstate, SignerInclusionInspection) io" where
  "checkInclusionsInspection E C head maxRange g cycle =
     runInspectionOperation g cycle (checkInclusionsOwned E C head maxRange g cycle)"

subsection \<open>The operations that open an inspection of their own\<close>

text \<open>\<^verbatim>\<open>try { result; finish } catch { abandon; throw }\<close>.\<close>

definition inOwnInspection ::
  "'w coordinator_env \<Rightarrow> (int \<Rightarrow> ('w cstate, 'a) io) \<Rightarrow> ('w cstate, 'a) io" where
  "inOwnInspection E oper =
     andThen beginInspection (\<lambda>g.
     tryCatch (andThen (oper g) (\<lambda>r. andThen (finishInspection E g) (\<lambda>_. ret r)))
       (\<lambda>e. andThen (abandonInspection E g) (\<lambda>_. throw e)))"

definition recover ::
  "'w coordinator_env \<Rightarrow> 'w chain_client \<Rightarrow> BlockAnchor \<Rightarrow> int \<Rightarrow> nat option \<Rightarrow>
   ('w cstate, SignerRecoveryResult) io" where
  "recover E C anch maxRange cycle =
     inOwnInspection E (\<lambda>g. recoverInspection E C anch maxRange g cycle)"

definition checkInclusions ::
  "'w coordinator_env \<Rightarrow> 'w chain_client \<Rightarrow> BlockAnchor \<Rightarrow> int option \<Rightarrow> nat option \<Rightarrow>
   ('w cstate, SignerInclusionInspection) io" where
  "checkInclusions E C head maxRange cycle =
     inOwnInspection E (\<lambda>g. checkInclusionsInspection E C head maxRange g cycle)"

definition observeReconciliation ::
  "'w coordinator_env \<Rightarrow> ('w cstate, 'a) io \<Rightarrow> nat option \<Rightarrow> ('w cstate, 'a) io" where
  "observeReconciliation E action cycle =
     readC (\<lambda>c. andThen (unlessThrow (\<not> observationActive c)
         (PlainError ''Signer reconciliation observation is already active.'')) (\<lambda>_.
     andThen assertAvailable (\<lambda>_.
     andThen (upd (\<lambda>c. c\<lparr>observationActive := True\<rparr>)) (\<lambda>_.
     finallyDo action
       (andThen (upd (\<lambda>c. c\<lparr>observationActive := False\<rparr>)) (\<lambda>_. refresh E cycle ReconcileAttemptOp))))))"

subsection \<open>Retrying a failed write\<close>

definition retryPersistence :: "'w coordinator_env \<Rightarrow> nat option \<Rightarrow> ('w cstate, unit) io" where
  "retryPersistence E cycle =
     andThen assertAvailable (\<lambda>_.
     readC (\<lambda>c. andThen (unlessThrow (pendingWrite c \<noteq> None \<and> stateValue (persistence c) = Failed)
         NO_FAILED_WRITE) (\<lambda>_.
     andThen (upd (\<lambda>c. c\<lparr>busy := True\<rparr>)) (\<lambda>_.
     andThen (tryCatch (onPersistence (retryPersistenceWrite (envStore E)))
       (\<lambda>e. andThen (upd (\<lambda>c. c\<lparr>busy := False\<rparr>)) (\<lambda>_.
            andThen (refresh E cycle ReconcileAttemptOp) (\<lambda>_. throw e)))) (\<lambda>_.
     finishWrite E cycle)))))"

subsection \<open>What the manager reads\<close>

record AttemptSummary =
  asAttemptId :: jstr
  asWorkId :: jstr
  asNonce :: int
  asPhase :: jstr
  asTransactionHashes :: "jstr list"

definition attemptSummaries :: "coordinator \<Rightarrow> AttemptSummary list" where
  "attemptSummaries c =
     map (\<lambda>a. \<lparr>asAttemptId = attemptId a, asWorkId = attemptWorkId a, asNonce = attemptNonce a,
               asPhase = phaseName (phase a), asTransactionHashes = attemptHashes a\<rparr>)
       (currentAttempts (current c))"

datatype SubmissionRecording =
    RecordingRetained jstr jstr
  | RecordingUncertain jstr jstr
  | RecordingNone

definition captureSubmissionRecording :: "coordinator \<Rightarrow> jstr \<Rightarrow> SubmissionRecording" where
  "captureSubmissionRecording c wid =
     (case find (\<lambda>a. attemptWorkId a = wid) (currentAttempts (current c)) of
        Some a \<Rightarrow> RecordingRetained (attemptWorkId a) (attemptId a)
      | None \<Rightarrow>
          if pendingWrite c = Some PendingPrepared then
            (case failedWriteAttemptIdentity (persistence c) wid of
               Some (w, i) \<Rightarrow> RecordingUncertain w i
             | None \<Rightarrow> RecordingNone)
          else RecordingNone)"

definition journalInitialized :: "coordinator \<Rightarrow> bool" where
  "journalInitialized c = (current c \<noteq> Missing)"

end
