(* ===== verification/CoordinatorProofs.thy ===== *)
theory CoordinatorProofs
  imports CoordinatorOps
begin

text \<open>
  What holds of the coordinator between operations: an invariant, its proof for every operation in
  every outcome, and the rejection of operations that overlap.
\<close>

named_theorems co_rules \<open>weakest preconditions of the coordinator's building blocks\<close>

subsection \<open>Rules for the building blocks\<close>

lemma wp_readC [wp_simps]: "wp (readC k) Q E (c, w) = wp (k c) Q E (c, w)"
  by (simp add: wp_def readC_def)

lemma wp_upd [wp_simps]: "wp (upd f) Q E (c, w) = Q () (f c, w)"
  by (simp add: upd_def wp_simps)

lemma wp_onPersistence:
  "wp (onPersistence m) Q E (c, w) =
     wp m (\<lambda>x (p, v). Q x (c\<lparr>persistence := p\<rparr>, v)) (\<lambda>e (p, v). E e (c\<lparr>persistence := p\<rparr>, v))
       (persistence c, w)"
  by (simp add: wp_def onPersistence_def split: prod.splits sum.splits)

lemma wp_world:
  assumes "\<And>x v. m w = (Inr x, v) \<Longrightarrow> Q x (c, v)" and "\<And>e v. m w = (Inl e, v) \<Longrightarrow> E e (c, v)"
  shows "wp (onWorld m) Q E (c, w)"
  using assms by (auto simp: wp_onWorld intro: wpI)

definition persisted :: "TransactionJournalSnapshot \<Rightarrow> coordinator \<Rightarrow> coordinator" where
  "persisted s c =
     c\<lparr>persistence := (persistence c)\<lparr>currentValue := Present s, pendingSnapshot := None,
       stateValue := Idle\<rparr>\<rparr>"

definition latchedWrite :: "TransactionJournalSnapshot \<Rightarrow> coordinator \<Rightarrow> coordinator" where
  "latchedWrite s c =
     c\<lparr>persistence := (persistence c)\<lparr>pendingSnapshot := Some s, stateValue := Failed\<rparr>\<rparr>"

lemma wp_save:
  assumes "persistenceIdle c"
    and "\<And>v. verified V (persistenceIdentity (persistence c)) s \<Longrightarrow> Q () (persisted s c, v)"
    and "\<And>e. E e (c, w)"
    and "\<And>e v. verified V (persistenceIdentity (persistence c)) s \<Longrightarrow> E e (latchedWrite s c, v)"
  shows "wp (onPersistence (savePersistence V S s)) Q E (c, w)"
  unfolding wp_onPersistence
  by (rule wp_mono [OF savePersistence_wp])
    (use assms in \<open>auto simp: persisted_def latchedWrite_def persistenceIdle_def\<close>)

lemma wp_retryWrite:
  assumes "\<And>v s. stateValue (persistence c) = Failed \<Longrightarrow> pendingSnapshot (persistence c) = Some s \<Longrightarrow>
      Q () (persisted s c, v)"
    and "\<And>e v. E e (c, v)"
  shows "wp (onPersistence (retryPersistenceWrite S)) Q E (c, w)"
  unfolding wp_onPersistence
  by (rule wp_mono [OF retryPersistenceWrite_wp]) (use assms in \<open>auto simp: persisted_def\<close>)

text \<open>\<open>refresh\<close> changes only what it publishes, and releases the policy of an empty journal.\<close>

definition published :: "coordinator \<Rightarrow> coordinator" where
  "published c =
     c\<lparr>blockedSince := None, previousBlockers := [], episodeReasons := {}, events := [],
       attemptLog := None\<rparr>"

definition refreshed :: "coordinator \<Rightarrow> coordinator \<Rightarrow> bool" where
  "refreshed c d =
     (published d = published c \<and>
      (attemptLog d = attemptLog c \<or>
       attemptLog d = None \<and> currentAttempts (current c) = [] \<and> pendingWrite c = None))"

lemma refreshed_refl [simp]: "refreshed c c"
  by (simp add: refreshed_def)

lemma published_fields:
  assumes "published d = published c"
  shows "recoveryComplete d = recoveryComplete c" "inclusionChecksComplete d = inclusionChecksComplete c"
    "observationActive d = observationActive c" "busy d = busy c" "emitting d = emitting c"
    "broadcastPermit d = broadcastPermit c" "inspectionGeneration d = inspectionGeneration c"
    "inspectionOwner d = inspectionOwner c" "pendingWrite d = pendingWrite c"
    "lastBootstrapDeferral d = lastBootstrapDeferral c" "committedRevision d = committedRevision c"
    "blockers d = blockers c" "persistence d = persistence c" "signerIdentity d = signerIdentity c"
    "capacity d = capacity c" "current d = current c"
  using assms by (cases c; cases d; simp add: published_def current_def)+

lemma published_emit [simp]: "published (emit e cy oper c) = published c"
  by (simp add: published_def emit_def)

lemma coordinatorGate_ok: "isPositiveSafeInteger (capacity c) \<Longrightarrow> \<exists>g. coordinatorGate c = Inr g"
  by (simp add: coordinatorGate_def evaluateSignerGate_def checkE_def Let_def)

lemma wp_currentTimestamp:
  assumes "\<And>t v. Q t v"
  shows "wp (currentTimestamp E) Q E' w"
  using assms by (simp add: wp_def currentTimestamp_def split: prod.splits)

lemma wp_timestamp:
  assumes "\<And>t v. Q t v"
  shows "wp (timestamp E) Q E' w"
proof -
  have "wp (case v of
         Some (JNum q) \<Rightarrow>
           if 0 \<le> q \<and> q < 253402300800000 then ret (toISOString \<lfloor>q\<rfloor>) else currentTimestamp E
       | _ \<Rightarrow> currentTimestamp E) Q E' u" for v u
    using assms by (cases v; cases "the v")
      (auto simp: wp_simps intro: wp_currentTimestamp)
  then show ?thesis by (auto simp: timestamp_def wp_simps intro: wpI)
qed

lemma wp_refresh:
  fixes w :: 'w and Q :: "unit \<Rightarrow> 'w cstate \<Rightarrow> bool"
  assumes cap: "isPositiveSafeInteger (capacity c)"
    and Q: "\<And>d v. refreshed c d \<Longrightarrow> Q () (d, v)"
  shows "wp (refresh E cy oper) Q E' (c, w)"
proof (cases "observationActive c")
  case True
  then show ?thesis using Q [of c] by (simp add: refresh_def wp_simps)
next
  case False
  obtain g where g: "coordinatorGate c = Inr g" using coordinatorGate_ok [OF cap] by blast
  define mid where "mid = (\<lambda>d. published d = published c \<and> attemptLog d = attemptLog c)"
  have blocked: "wp (refreshBlocked E cy oper g ch) (\<lambda>_ (d, _). mid d) (\<lambda>_ _. False) (c, w)" for ch
    by (cases "blockedSince c")
      (auto simp: refreshBlocked_def wp_simps mid_def published_def emit_def intro!: wp_timestamp)
  have fin: "Q () (d2, v)" if "mid d"
    "d2 = (if b then (\<lambda>c. if pendingWrite c = None \<and> current c \<noteq> Missing \<and> currentAttempts (current c) = []
       then c\<lparr>attemptLog := None\<rparr> else c) (refreshReleased cy oper (d\<lparr>previousBlockers := gateBlockers g\<rparr>))
       else d\<lparr>previousBlockers := gateBlockers g\<rparr>)" for d d2 b v
  proof -
    have rel: "published (refreshReleased cy oper x) = published x"
      "attemptLog (refreshReleased cy oper x) = attemptLog x" for x
      by (auto simp: refreshReleased_def published_def emit_def split: option.split)
    have pd: "published d2 = published c"
      using that rel by (auto simp: mid_def published_def)
    have "pendingWrite d = pendingWrite c" "current d = current c"
      using that published_fields [of d c] by (simp_all add: mid_def)
    moreover have "pendingWrite (refreshReleased cy oper x) = pendingWrite x"
      "current (refreshReleased cy oper x) = current x" for x
      using published_fields [OF rel(1)] by simp_all
    ultimately have "refreshed c d2"
      using that pd rel by (auto simp: refreshed_def mid_def current_def)
    then show ?thesis by (rule Q)
  qed
  define release where "release = (\<lambda>c. if pendingWrite c = None \<and> current c \<noteq> Missing \<and>
    currentAttempts (current c) = [] then c\<lparr>attemptLog := None\<rparr> else c)"
  define tail :: "('w cstate, unit) io" where "tail = andThen (upd (\<lambda>c. c\<lparr>previousBlockers := gateBlockers g\<rparr>)) (\<lambda>_.
     andThen (if statusOpen c g then upd (refreshReleased cy oper) else ret ()) (\<lambda>_.
     if statusOpen c g then upd release else ret ()))"
  have tail: "wp tail Q E' (d, v)" if "mid d" for d v
  proof (cases "statusOpen c g")
    case True
    then show ?thesis
      using fin [OF that, of _ True] by (simp add: tail_def wp_simps release_def)
  next
    case False
    then show ?thesis
      using fin [OF that, of _ False] by (simp add: tail_def wp_simps)
  qed
  have "wp (refresh E cy oper) Q E' (c, w) =
    wp (if gateBlockers g \<noteq> [] then refreshBlocked E cy oper g (gateBlockers g \<noteq> previousBlockers c) else ret ())
      (\<lambda>_ t. wp tail Q E' t) E' (c, w)"
    by (simp only: refresh_def wp_readC False if_False wp_andThen wp_liftPure g sum.case Let_def tail_def release_def)
  moreover have "wp (if gateBlockers g \<noteq> [] then refreshBlocked E cy oper g (gateBlockers g \<noteq> previousBlockers c) else ret ())
      (\<lambda>_ t. wp tail Q E' t) E' (c, w)"
  proof (cases "gateBlockers g = []")
    case True
    then show ?thesis using tail [of c w] by (simp add: wp_simps mid_def)
  next
    case False
    then show ?thesis
      by (simp only: if_True simp_thms) (rule wp_mono [OF blocked], auto intro: tail)
  qed
  ultimately show ?thesis by simp
qed

subsection \<open>The invariant\<close>

text \<open>The redaction policy in force hides the signed bytes of these attempts.\<close>

definition policyCovers :: "coordinator \<Rightarrow> JournalAttempt list \<Rightarrow> bool" where
  "policyCovers c as =
     (as = [] \<or> (\<exists>bs. attemptLog c = Some bs \<and> set (allSignedBytes as) \<subseteq> set bs))"

text \<open>What holds of the committed journal, up to the two latched blockers.\<close>

definition journalInv :: "viem \<Rightarrow> coordinator \<Rightarrow> bool" where
  "journalInv V c =
     (wfIdentity (signerIdentity c) \<and> persistenceIdentity (persistence c) = signerIdentity c \<and>
      isPositiveSafeInteger (capacity c) \<and> blockers c \<subseteq> Collect coordinatorBlocker \<and> \<not> emitting c \<and>
      (\<forall>s. current c = Present s \<longrightarrow> verified V (signerIdentity c) s \<and> policyCovers c (attempts s)) \<and>
      (\<forall>i. inspectionOwner c = Some i \<longrightarrow> ownGeneration i = inspectionGeneration c))"

text \<open>
  The latches: activity beyond the allocated nonces, and an exhausted search, block for as long as
  the committed journal shows them.
\<close>

definition latchInv :: "coordinator \<Rightarrow> bool" where
  "latchInv c =
     (\<forall>s. current c = Present s \<longrightarrow>
        (nextNonce s < obsNonce (lastObservation s) \<longrightarrow> UnattributedSignerActivity \<in> blockers c) \<and>
        (searchExhausted s \<longrightarrow> ConflictSearchExhausted \<in> blockers c))"

text \<open>
  How the committed journal may change: identity, baseline and repairs stay; the nonces do not
  decrease; an attempt at a nonce allocated before is one that was recorded before, with the same
  signed bytes; and an attempt leaves only when its nonce is settled.
\<close>

fun evolves :: "TransactionJournalRead \<Rightarrow> TransactionJournalRead \<Rightarrow> bool" where
  "evolves Missing after = True"
| "evolves (Present s) Missing = False"
| "evolves (Present s) (Present t) =
     (identity t = identity s \<and> baseline t = baseline s \<and> repairs t = repairs s \<and>
      durableNextNonce s \<le> durableNextNonce t \<and> nextNonce s \<le> nextNonce t \<and>
      (\<forall>a \<in> set (attempts t). attemptNonce a < nextNonce s \<longrightarrow> (\<exists>b \<in> set (attempts s). sameCore a b)) \<and>
      (\<forall>b \<in> set (attempts s). durableNextNonce t \<le> attemptNonce b \<longrightarrow>
         (\<exists>a \<in> set (attempts t). sameCore a b)))"

lemma sameCore_refl [simp]: "sameCore a a"
  by (simp add: sameCore_def)

lemma sameCore_trans: "sameCore a b \<Longrightarrow> sameCore b c \<Longrightarrow> sameCore a c"
  by (simp add: sameCore_def)

lemma sameCore_nonce: "sameCore a b \<Longrightarrow> attemptNonce a = attemptNonce b"
  by (simp add: sameCore_def)

lemma sameCore_sym: "sameCore a b \<Longrightarrow> sameCore b a"
  by (simp add: sameCore_def)

lemma core_kept:
  "a \<in> set as \<Longrightarrow> \<exists>b \<in> set as. sameCore a b" "a \<in> set as \<Longrightarrow> \<exists>b \<in> set as. sameCore b a"
  using sameCore_refl by blast+

lemma evolves_pointwise:
  assumes "identity t = identity s" "baseline t = baseline s" "repairs t = repairs s"
    "durableNextNonce s \<le> durableNextNonce t" "nextNonce s \<le> nextNonce t"
    and core: "list_all2 sameCore (attempts t) (attempts s)"
  shows "evolves (Present s) (Present t)"
proof -
  have "\<exists>b \<in> set (attempts s). sameCore a b" if "a \<in> set (attempts t)" for a
    using core that by (metis in_set_conv_nth list_all2_conv_all_nth)
  moreover have "\<exists>a \<in> set (attempts t). sameCore a b" if "b \<in> set (attempts s)" for b
    using core that by (metis in_set_conv_nth list_all2_conv_all_nth)
  ultimately show ?thesis using assms(1-5) by simp
qed

lemma evolves_refl [simp]: "evolves x x"
  by (cases x) (simp_all add: core_kept)

lemma evolves_trans:
  assumes "evolves x y" "evolves y z"
  shows "evolves x z"
proof (cases "x = Missing \<or> y = Missing \<or> z = Missing")
  case True
  then show ?thesis using assms by (cases x; cases y; cases z) auto
next
  case False
  then obtain s t u where x: "x = Present s" "y = Present t" "z = Present u"
    by (cases x; cases y; cases z) auto
  have "\<exists>b \<in> set (attempts s). sameCore a b"
    if a: "a \<in> set (attempts u)" "attemptNonce a < nextNonce s" for a
  proof -
    obtain b where b: "b \<in> set (attempts t)" "sameCore a b" using assms(2) a assms(1) by (auto simp: x)
    then have "attemptNonce b < nextNonce s" using a(2) sameCore_nonce by metis
    then obtain d where "d \<in> set (attempts s)" "sameCore b d" using assms(1) b(1) by (auto simp: x)
    then show ?thesis using b(2) sameCore_trans by blast
  qed
  moreover have "\<exists>a \<in> set (attempts u). sameCore a b"
    if b: "b \<in> set (attempts s)" "durableNextNonce u \<le> attemptNonce b" for b
  proof -
    obtain a where a: "a \<in> set (attempts t)" "sameCore a b" using assms b by (force simp: x)
    then have "durableNextNonce u \<le> attemptNonce a" using b(2) sameCore_nonce by metis
    then obtain d where "d \<in> set (attempts u)" "sameCore d a" using assms(2) a(1) by (auto simp: x)
    then show ?thesis using a(2) sameCore_trans by blast
  qed
  ultimately show ?thesis using assms by (simp add: x)
qed

text \<open>A failed write is kept whole, with what it meant, and takes away both authorizations.\<close>

definition writeInv :: "viem \<Rightarrow> coordinator \<Rightarrow> bool" where
  "writeInv V c =
     (case stateValue (persistence c) of
        Idle \<Rightarrow> pendingSnapshot (persistence c) = None \<and> pendingWrite c = None
      | Writing \<Rightarrow> False
      | Failed \<Rightarrow> pendingWrite c \<noteq> None \<and> broadcastPermit c = None \<and> \<not> inclusionChecksComplete c \<and>
          (\<exists>s. pendingSnapshot (persistence c) = Some s \<and> verified V (signerIdentity c) s \<and>
             policyCovers c (attempts s) \<and> evolves (current c) (Present s)))"

text \<open>
  Completed inclusion checks mean that every retained attempt is included; a broadcast permit names
  the oldest attempt that is not.
\<close>

definition authorityInv :: "coordinator \<Rightarrow> bool" where
  "authorityInv c =
     ((inclusionChecksComplete c \<longrightarrow>
         (\<exists>s. current c = Present s \<and> list_all isIncluded (attempts s))) \<and>
      (\<forall>b. broadcastPermit c = Some b \<longrightarrow>
         (\<exists>s a. current c = Present s \<and> oldestUnresolved s = Some a \<and> attemptId a = b)))"

text \<open>What holds inside an operation too, apart from a write in flight, and between operations.\<close>

definition workInv :: "viem \<Rightarrow> coordinator \<Rightarrow> bool" where
  "workInv V c = (journalInv V c \<and> latchInv c \<and> writeInv V c \<and> authorityInv c)"

definition restInv :: "viem \<Rightarrow> coordinator \<Rightarrow> bool" where
  "restInv V c = (workInv V c \<and> \<not> busy c)"

definition quiet :: "coordinator \<Rightarrow> bool" where
  "quiet c = (\<forall>i. inspectionOwner c = Some i \<longrightarrow> \<not> ownActiveOperation i)"

lemmas inv_defs = journalInv_def latchInv_def writeInv_def authorityInv_def workInv_def restInv_def

lemma refreshed_workInv:
  assumes "workInv V c" "refreshed c d"
  shows "workInv V d"
proof -
  have p: "published d = published c" using assms by (simp add: refreshed_def)
  note f = published_fields [OF p]
  have log: "attemptLog d = attemptLog c \<or> attemptLog d = None \<and> currentAttempts (current c) = [] \<and>
      pendingWrite c = None" using assms by (simp add: refreshed_def)
  have cov: "policyCovers d as" if "policyCovers c as"
    "as = currentAttempts (current c) \<or> pendingWrite c \<noteq> None" for as
    using that log by (auto simp: policyCovers_def)
  have "policyCovers d (attempts s)" if "current c = Present s" for s
    using assms(1) that by (intro cov) (auto simp: inv_defs currentAttempts_def)
  moreover have "policyCovers d (attempts s)"
    if "pendingSnapshot (persistence c) = Some s" "stateValue (persistence c) = Failed" for s
    using assms(1) that by (intro cov) (auto simp: inv_defs)
  ultimately have "journalInv V d" "writeInv V d" "latchInv d" "authorityInv d"
    using assms(1)
    by (simp_all add: journalInv_def f workInv_def writeInv_def latchInv_def authorityInv_def
        split: persistence_state.splits) blast+
  then show ?thesis by (simp add: workInv_def)
qed

lemma refreshed_restInv: "restInv V c \<Longrightarrow> refreshed c d \<Longrightarrow> restInv V d"
  using refreshed_workInv [of V c d] published_fields(4) [of d c]
  by (simp add: restInv_def refreshed_def)

lemma refreshed_quiet: "quiet c \<Longrightarrow> refreshed c d \<Longrightarrow> quiet d"
  using published_fields(8) [of d c] by (simp add: quiet_def refreshed_def)

lemma wp_refresh_inv:
  assumes "restInv V c" "\<And>d v. restInv V d \<Longrightarrow> refreshed c d \<Longrightarrow> Q () (d, v)"
  shows "wp (refresh E cy oper) Q E' (c, w)"
proof (rule wp_refresh)
  show "isPositiveSafeInteger (capacity c)" using assms(1) by (simp add: inv_defs)
  show "Q () (d, v)" if "refreshed c d" for d v
    by (rule assms(2) [OF refreshed_restInv [OF assms(1) that] that])
qed

subsection \<open>Settling a write\<close>

text \<open>The state just after a save: committed, with the pending write still to be applied.\<close>

definition savedInv :: "viem \<Rightarrow> coordinator \<Rightarrow> bool" where
  "savedInv V c =
     (journalInv V c \<and> persistenceIdle c \<and> pendingSnapshot (persistence c) = None)"

text \<open>The latches only add blockers of their own.\<close>

definition latchedBlockers :: "coordinator \<Rightarrow> SignerBlocker set" where
  "latchedBlockers c = blockers c \<union>
     (case current c of Present s \<Rightarrow>
        (if nextNonce s < obsNonce (lastObservation s) then {UnattributedSignerActivity} else {}) \<union>
        (if searchExhausted s then {ConflictSearchExhausted} else {})
      | Missing \<Rightarrow> {})"

lemma sameBlockers: "c\<lparr>blockers := B\<rparr> = c" "c = c\<lparr>blockers := B\<rparr>" if "B = blockers c"
  for c :: coordinator
  using that by simp_all

lemma latches_eq:
  "latchExhaustedSearch (latchUnattributedActivity c) = c\<lparr>blockers := latchedBlockers c\<rparr>"
proof -
  have cur: "current (c\<lparr>blockers := B\<rparr>) = current c" for B by (simp add: current_def)
  show ?thesis
  proof (cases "current c")
    case Missing
    then show ?thesis
      by (simp only: latchUnattributedActivity_def latchExhaustedSearch_def latchedBlockers_def
          TransactionJournalRead.case Un_empty_right sameBlockers)
  next
    case (Present s)
    show ?thesis
      by (cases "nextNonce s < obsNonce (lastObservation s)"; cases "searchExhausted s";
        simp only: latchUnattributedActivity_def latchExhaustedSearch_def latchedBlockers_def cur Present
          TransactionJournalRead.case if_True if_False simp_thms Un_empty_right Un_empty_left
          Un_insert_right sameBlockers; simp add: insert_commute)
  qed
qed

lemma latches_latchInv: "latchInv (latchExhaustedSearch (latchUnattributedActivity c))"
  by (simp add: latches_eq latchInv_def latchedBlockers_def current_def)

lemma latchedBlockers_bounds:
  "blockers c \<subseteq> latchedBlockers c" "latchedBlockers c \<subseteq> blockers c \<union> Collect coordinatorBlocker"
  by (cases "current c"; simp add: latchedBlockers_def coordinatorBlocker_def)+

lemma settleWrite_frame:
  "\<exists>B ev. settleWrite cy p c =
     c\<lparr>blockers := B, events := ev, pendingWrite := None, busy := False,
       committedRevision := durableRecoveryRevision (current c) B\<rparr> \<and>
     B \<subseteq> blockers c \<union> Collect coordinatorBlocker \<and>
     (UnattributedSignerActivity \<in> blockers c \<longrightarrow> UnattributedSignerActivity \<in> B)"
proof -
  define c1 where "c1 = (case p of
                  PendingResolution ev \<Rightarrow>
                    emit (AttemptResolved ev) cy ReconcileAttemptOp
                      (c\<lparr>blockers := blockers c - {ConflictSearchExhausted}\<rparr>)
                | PendingSearchProgress True \<Rightarrow> c\<lparr>blockers := insert ConflictSearchExhausted (blockers c)\<rparr>
                | PendingSearchProgress False \<Rightarrow> c\<lparr>blockers := blockers c - {ConflictSearchExhausted}\<rparr>
                | _ \<Rightarrow> c)"
  have c1: "\<exists>B ev. c1 = c\<lparr>blockers := B, events := ev\<rparr> \<and> B \<subseteq> blockers c \<union> Collect coordinatorBlocker \<and>
     (UnattributedSignerActivity \<in> blockers c \<longrightarrow> UnattributedSignerActivity \<in> B)"
    by (rule exI [of _ "blockers c1"], rule exI [of _ "events c1"])
      (cases c, auto simp: c1_def emit_def coordinatorBlocker_def split: PendingWrite.splits bool.splits)
  then obtain B ev where B: "c1 = c\<lparr>blockers := B, events := ev\<rparr>"
    "B \<subseteq> blockers c \<union> Collect coordinatorBlocker"
    "UnattributedSignerActivity \<in> blockers c \<longrightarrow> UnattributedSignerActivity \<in> B" by blast
  define B2 where "B2 = latchedBlockers (c1\<lparr>pendingWrite := None, busy := False\<rparr>)"
  have B2: "latchExhaustedSearch (latchUnattributedActivity (c1\<lparr>pendingWrite := None, busy := False\<rparr>))
      = c1\<lparr>pendingWrite := None, busy := False, blockers := B2\<rparr>"
    "blockers c1 \<subseteq> B2" "B2 \<subseteq> blockers c1 \<union> Collect coordinatorBlocker"
    using latchedBlockers_bounds [of "c1\<lparr>pendingWrite := None, busy := False\<rparr>"]
    by (simp_all add: latches_eq B2_def)
  have "settleWrite cy p c = c\<lparr>blockers := B2, events := ev, pendingWrite := None, busy := False,
       committedRevision := durableRecoveryRevision (current c) B2\<rparr>"
    using B B2 by (simp add: settleWrite_def c1_def [symmetric] updateDurableRecoveryRevision_def
        current_def Let_def)
  then show ?thesis using B B2 by (intro exI [of _ B2] exI [of _ ev]) auto
qed

lemma settleWrite_latchInv: "latchInv (settleWrite cy p c)"
proof -
  have "latchInv (updateDurableRecoveryRevision d) = latchInv d" for d
    by (simp add: latchInv_def updateDurableRecoveryRevision_def current_def)
  then show ?thesis by (simp add: settleWrite_def Let_def latches_latchInv)
qed

lemma settleWrite_restInv:
  assumes "savedInv V c" "authorityInv c"
  shows "restInv V (settleWrite cy p c)"
proof -
  obtain B ev where eq: "settleWrite cy p c =
     c\<lparr>blockers := B, events := ev, pendingWrite := None, busy := False,
       committedRevision := durableRecoveryRevision (current c) B\<rparr>"
    and B: "B \<subseteq> blockers c \<union> Collect coordinatorBlocker" using settleWrite_frame by blast
  have cur: "current (settleWrite cy p c) = current c" by (simp add: eq current_def)
  show ?thesis
    using assms settleWrite_latchInv [of cy p c] B unfolding restInv_def workInv_def
    by (auto simp: eq savedInv_def journalInv_def writeInv_def authorityInv_def policyCovers_def
        persistenceIdle_def current_def)
qed

text \<open>What no step of an operation changes, apart from the inspection's own steps.\<close>

definition frame :: "coordinator \<Rightarrow> coordinator \<Rightarrow> bool" where
  "frame c d =
     (inspectionOwner d = inspectionOwner c \<and> inspectionGeneration d = inspectionGeneration c \<and>
      signerIdentity d = signerIdentity c \<and> capacity d = capacity c \<and>
      observationActive d = observationActive c \<and>
      (UnattributedSignerActivity \<in> blockers c \<longrightarrow> UnattributedSignerActivity \<in> blockers d))"

text \<open>The journal and the authorizations are as they were.\<close>

definition authKept :: "coordinator \<Rightarrow> coordinator \<Rightarrow> bool" where
  "authKept c d =
     (persistence d = persistence c \<and> recoveryComplete d = recoveryComplete c \<and>
      inclusionChecksComplete d = inclusionChecksComplete c \<and> broadcastPermit d = broadcastPermit c)"

lemma frame_refl [simp]: "frame c c" "authKept c c"
  by (simp_all add: frame_def authKept_def)

lemma frame_trans: "frame a b \<Longrightarrow> frame b c \<Longrightarrow> frame a c"
  by (simp add: frame_def)

lemma authKept_trans: "authKept a b \<Longrightarrow> authKept b c \<Longrightarrow> authKept a c"
  by (simp add: authKept_def)

lemma authKept_current: "authKept c d \<Longrightarrow> current d = current c \<and> persistenceIdle d = persistenceIdle c"
  by (simp add: authKept_def current_def persistenceIdle_def)

lemma refreshed_frame: "refreshed c d \<Longrightarrow> frame c d \<and> authKept c d \<and> blockers d = blockers c"
  using published_fields [of d c] by (simp add: refreshed_def frame_def authKept_def)

lemma settleWrite_kept: "frame c (settleWrite cy p c) \<and> authKept c (settleWrite cy p c)"
  using settleWrite_frame [of cy p c] by (auto simp: frame_def authKept_def)

lemma wp_finishWrite:
  assumes "savedInv V c" "authorityInv c" "pendingWrite c = Some p"
    and Q: "\<And>d v. restInv V d \<Longrightarrow> frame c d \<Longrightarrow> authKept c d \<Longrightarrow> pendingWrite d = None \<Longrightarrow> Q () (d, v)"
  shows "wp (finishWrite E cy) Q E' (c, w)"
proof -
  have "wp (finishWrite E cy) Q E' (c, w) =
    wp (refresh E cy (writeOperation p)) Q E' (settleWrite cy p c, w)"
    by (simp add: finishWrite_def wp_simps assms(3))
  also have "\<dots>"
  proof (rule wp_refresh_inv [OF settleWrite_restInv [OF assms(1,2)]])
    fix d :: coordinator and v :: 'a
    assume d: "restInv V d" "refreshed (settleWrite cy p c) d"
    have "pendingWrite (settleWrite cy p c) = None" using settleWrite_frame [of cy p c] by auto
    then have "pendingWrite d = None" using d(2) published_fields(9) [of d "settleWrite cy p c"]
      by (simp add: refreshed_def)
    then show "Q () (d, v)"
      using d settleWrite_kept [of c cy p] refreshed_frame [OF d(2)]
      by (blast intro: Q frame_trans authKept_trans)
  qed
  finally show ?thesis .
qed

text \<open>
  Saving a snapshot while a write is announced: committed and still to be settled, refused with no
  change, or latched.
\<close>

definition writable :: "viem \<Rightarrow> coordinator \<Rightarrow> bool" where
  "writable V c =
     (journalInv V c \<and> latchInv c \<and> persistenceIdle c \<and> pendingSnapshot (persistence c) = None \<and>
      broadcastPermit c = None \<and> \<not> inclusionChecksComplete c \<and> pendingWrite c \<noteq> None)"

lemma wp_saveStep:
  assumes "writable V c" "policyCovers c (attempts s)" "evolves (current c) (Present s)"
    and ok: "\<And>v. savedInv V (persisted s c) \<Longrightarrow> authorityInv (persisted s c) \<Longrightarrow>
      verified V (signerIdentity c) s \<Longrightarrow> Q () (persisted s c, v)"
    and refused: "\<And>e. E e (c, w)"
    and latched: "\<And>e v. workInv V (latchedWrite s c) \<Longrightarrow> E e (latchedWrite s c, v)"
  shows "wp (onPersistence (savePersistence V S s)) Q E (c, w)"
proof (rule wp_save)
  show "persistenceIdle c" using assms(1) by (simp add: writable_def)
  have w: "journalInv V c" "broadcastPermit c = None" "\<not> inclusionChecksComplete c"
    "pendingWrite c \<noteq> None" "latchInv c"
    using assms(1) by (simp_all add: writable_def)
  have facts: "savedInv V (persisted s c) \<and> authorityInv (persisted s c) \<and>
      workInv V (latchedWrite s c) \<and> verified V (signerIdentity c) s"
    if "verified V (persistenceIdentity (persistence c)) s"
  proof -
    have v: "verified V (signerIdentity c) s" using w(1) that by (simp add: journalInv_def)
    have "savedInv V (persisted s c)" "authorityInv (persisted s c)"
      using w(1-3) v assms(2)
      by (simp_all add: savedInv_def journalInv_def persisted_def current_def policyCovers_def
          persistenceIdle_def authorityInv_def)
    moreover have "workInv V (latchedWrite s c)"
      using w v assms(2,3)
      by (simp add: workInv_def journalInv_def latchInv_def writeInv_def authorityInv_def
          latchedWrite_def current_def policyCovers_def)
    ultimately show ?thesis using v by blast
  qed
  show "Q () (persisted s c, v)" if "verified V (persistenceIdentity (persistence c)) s" for v
    using ok facts [OF that] by blast
  show "E e (latchedWrite s c, v)" if "verified V (persistenceIdentity (persistence c)) s" for e v
    using latched facts [OF that] by blast
  show "\<And>e. E e (c, w)" by (rule refused)
qed

lemma latchedWrite_frame: "frame c (latchedWrite s c) \<and> current (latchedWrite s c) = current c"
  by (simp add: frame_def latchedWrite_def current_def)

lemma persisted_frame: "frame c (persisted s c) \<and> current (persisted s c) = Present s"
  by (simp add: frame_def persisted_def current_def)

lemma workInv_irrelevant [simp]:
  "workInv V (c\<lparr>busy := b\<rparr>) = workInv V c" "workInv V (c\<lparr>recoveryComplete := b\<rparr>) = workInv V c"
  "workInv V (c\<lparr>observationActive := b\<rparr>) = workInv V c"
  by (cases "stateValue (persistence c)"; simp add: inv_defs current_def policyCovers_def)+

lemma wp_leave:
  assumes "workInv V c" and Q: "\<And>d v. restInv V d \<Longrightarrow> frame c d \<Longrightarrow> authKept c d \<Longrightarrow>
      pendingWrite d = pendingWrite c \<Longrightarrow> blockers d = blockers c \<Longrightarrow> Q () (d, v)"
  shows "wp (leave E cy oper) Q E' (c, w)"
proof -
  have "restInv V (c\<lparr>busy := False\<rparr>)" using assms(1) by (simp add: restInv_def)
  then have "wp (refresh E cy oper) Q E' (c\<lparr>busy := False\<rparr>, w)"
  proof (rule wp_refresh_inv)
    fix d :: coordinator and v :: 'a
    assume d: "restInv V d" "refreshed (c\<lparr>busy := False\<rparr>) d"
    have "frame c (c\<lparr>busy := False\<rparr>)" "authKept c (c\<lparr>busy := False\<rparr>)"
      by (simp_all add: frame_def authKept_def)
    moreover have "pendingWrite d = pendingWrite c"
      using published_fields(9) [of d "c\<lparr>busy := False\<rparr>"] d(2) by (simp add: refreshed_def)
    moreover have "blockers d = blockers c" using refreshed_frame [OF d(2)] by simp
    ultimately show "Q () (d, v)"
      using d refreshed_frame [OF d(2)] by (blast intro: Q frame_trans authKept_trans)
  qed
  then show ?thesis by (simp add: leave_def wp_simps)
qed

text \<open>Taking authorizations away, and the inspection's own flags, keep the invariant.\<close>

lemma workInv_revoked:
  assumes "workInv V c"
  shows "workInv V (c\<lparr>broadcastPermit := None\<rparr>)" "workInv V (c\<lparr>inclusionChecksComplete := False\<rparr>)"
    "workInv V (revokeActionAuthorization c)"
  using assms by (cases "stateValue (persistence c)";
      simp add: inv_defs current_def policyCovers_def revokeActionAuthorization_def)+

lemma workInv_updOwner:
  "(\<And>i. ownGeneration (f i) = ownGeneration i) \<Longrightarrow> workInv V c \<Longrightarrow> workInv V (updOwner f c)"
  by (cases "stateValue (persistence c)")
    (auto simp: inv_defs current_def policyCovers_def updOwner_def)

end
