(* ===== verification/PrepareProofs.thy ===== *)
theory PrepareProofs
  imports CoordinatorProofs
begin

text \<open>
  \<^verbatim>\<open>prepareAttempt\<close>: what each of its outcomes leaves behind. A prepared attempt is durably recorded,
  with the next free nonce, before its permit exists; a rejected one leaves the authorizations but
  for the permit as they were; a failed write blocks further work.
\<close>

text \<open>What a successful preparation did: the attempt \<open>a\<close> was appended to \<open>s\<close>.\<close>

definition preparedAs ::
  "viem \<Rightarrow> PreparedRelayerTransaction \<Rightarrow> jstr \<Rightarrow> PreparedAttempt \<Rightarrow> coordinator \<Rightarrow> coordinator \<Rightarrow>
   TransactionJournalSnapshot \<Rightarrow> JournalAttempt \<Rightarrow> bool" where
  "preparedAs V tx wid p c d s a =
     (current c = Present s \<and> current d = Present (appendAttempt s a) \<and>
      attemptId a = paAttemptId p \<and> attemptNonce a = paNonce p \<and> attemptWorkId a = wid \<and>
      paNonce p = nextNonce s \<and> phase a = Signed \<and>
      (\<exists>e intent. signedTransactions a = [e] \<and> transactionHash e = paTransactionHash p \<and>
         authentic V (signerIdentity c) (paNonce p) e intent \<and>
         carriesCall V e (unsignedTransaction (signerIdentity c) (nextNonce s) tx)))"

lemma coordinatorGate_open:
  assumes "coordinatorGate c = Inr g" "statusOpen c g"
  shows "persistenceIdle c \<and> recoveryComplete c \<and> inclusionChecksComplete c \<and> blockers c = {} \<and>
    \<not> busy c \<and> inspectionOwner c = None \<and>
    (\<exists>s. current c = Present s \<and> list_all isIncluded (attempts s) \<and>
       int (length (attempts s)) < numInt (capacity c))"
  using assms evaluateSignerGate_open_iff
  by (auto simp: coordinatorGate_def statusOpen_def persistenceIdle_def)

lemma oldestUnresolved_append:
  "list_all isIncluded (attempts s) \<Longrightarrow> \<not> isIncluded a \<Longrightarrow>
    oldestUnresolved (appendAttempt s a) = Some a"
proof -
  have "list_all isIncluded xs \<Longrightarrow> \<not> isIncluded a \<Longrightarrow> find (\<lambda>a. \<not> isIncluded a) (xs @ [a]) = Some a" for xs
    by (induction xs) auto
  then show "list_all isIncluded (attempts s) \<Longrightarrow> \<not> isIncluded a \<Longrightarrow> ?thesis"
    by (simp add: oldestUnresolved_def appendAttempt_def)
qed

lemma allSignedBytes_append:
  "allSignedBytes (as @ bs) = allSignedBytes as @ allSignedBytes bs"
  by (simp add: allSignedBytes_def)

lemma workInv_permit:
  assumes "restInv V d" "current d = Present s" "oldestUnresolved s = Some a" "pendingWrite d = None"
  shows "restInv V (d\<lparr>broadcastPermit := Some (attemptId a)\<rparr>)"
  using assms by (cases "stateValue (persistence d)") (simp_all add: inv_defs current_def policyCovers_def)

lemma prepareRollback_refused:
  assumes "persistenceIdle c" "pendingWrite c = None" "c1 = c\<lparr>broadcastPermit := None, busy := True\<rparr>"
  shows "prepareRollback c (c1\<lparr>attemptLog := l, blockedSince := b, inclusionChecksComplete := i,
      pendingWrite := p\<rparr>) = c1"
  using assms by (cases c) (simp add: prepareRollback_def persistenceIdle_def)

lemma prepareRollback_refused1:
  assumes "persistenceIdle c" "pendingWrite c = None" "c1 = c\<lparr>broadcastPermit := None, busy := True\<rparr>"
  shows "prepareRollback c (c1\<lparr>attemptLog := l\<rparr>) = c1" "prepareRollback c c1 = c1"
  using assms by (cases c; simp add: prepareRollback_def persistenceIdle_def)+

lemma prepareBody_wp:
  fixes c :: coordinator and w :: 'w
  assumes inv: "restInv V c" and V: "V = envViem E" and cur: "current c = Present s"
    and inc: "list_all isIncluded (attempts s)" and idle: "persistenceIdle c"
    and c1: "c1 = c\<lparr>broadcastPermit := None, busy := True\<rparr>"
    and Q: "\<And>d v p a. restInv V d \<Longrightarrow> frame c d \<Longrightarrow> preparedAs V tx wid p c d s a \<Longrightarrow>
      broadcastPermit d = Some (attemptId a) \<Longrightarrow> Q (Prepared p) (d, v)"
    and thr: "\<And>e d v. workInv V (prepareRollback c d) \<Longrightarrow> frame c (prepareRollback c d) \<Longrightarrow>
      current (prepareRollback c d) = current c \<Longrightarrow> broadcastPermit (prepareRollback c d) = None \<Longrightarrow>
      Thr e (d, v)"
  shows "wp (prepareBody E account tx wid cy s) Q Thr (c1, w)"
proof -
  have pend: "pendingWrite c = None" and snap: "pendingSnapshot (persistence c) = None"
    using inv idle by (simp_all add: inv_defs persistenceIdle_def)
  have c1inv: "workInv V c1" "frame c c1" "current c1 = current c" "broadcastPermit c1 = None"
    using inv workInv_revoked(1) [of V c] unfolding c1
    by (simp_all add: restInv_def frame_def current_def)
  have refused: "Thr e (c1\<lparr>attemptLog := l, blockedSince := b, inclusionChecksComplete := i, pendingWrite := p\<rparr>, v)"
    "Thr e (c1\<lparr>attemptLog := l\<rparr>, v)" "Thr e (c1, v)" for e l b i p v
    using c1inv prepareRollback_refused [OF idle pend c1] prepareRollback_refused1 [OF idle pend c1]
    by (auto intro: thr)
  have commit: "wp (andThen (onPersistence (savePersistence (envViem E) (envStore E) nxt)) (\<lambda>_.
     andThen (finishWrite E cy) (\<lambda>_. andThen (upd (\<lambda>c. c\<lparr>broadcastPermit := Some aid\<rparr>)) (\<lambda>_.
     ret (Prepared \<lparr>paAttemptId = aid, paTransactionHash = transactionHash (signedRecord r),
            paNonce = signedNonce r\<rparr>))))) Q Thr
       (c1\<lparr>attemptLog := Some bytes, blockedSince := b, inclusionChecksComplete := False,
         pendingWrite := Some PendingPrepared\<rparr>, v)"
    if nxt: "nxt = appendAttempt s (newAttempt s aid wid created r)"
      and bytes: "bytes = allSignedBytes (attempts s) @ [signedTransaction (signedRecord r)]"
      and r: "signPreparedTransaction (envViem E) (signerIdentity c1) (nextNonce s) account tx x = (Inr r, y)"
    for nxt aid created r bytes b v x y
  proof -
    define c2 where "c2 = c1\<lparr>attemptLog := Some bytes, blockedSince := b, inclusionChecksComplete := False,
         pendingWrite := Some PendingPrepared\<rparr>"
    define a where "a = newAttempt s aid wid created r"
    have f: "frame c c2" "signerIdentity c2 = signerIdentity c" "current c2 = current c"
      by (simp_all add: c2_def c1 frame_def current_def)
    have "policyCovers c2 (attempts s)" by (auto simp: policyCovers_def c2_def bytes)
    then have w: "writable V c2"
      using inv snap idle cur
      by (simp add: writable_def inv_defs c2_def c1 current_def persistenceIdle_def)
    have "wp (onPersistence (savePersistence V (envStore E) nxt)) (\<lambda>_ t. wp (andThen (finishWrite E cy)
        (\<lambda>_. andThen (upd (\<lambda>c. c\<lparr>broadcastPermit := Some aid\<rparr>)) (\<lambda>_.
       ret (Prepared \<lparr>paAttemptId = aid, paTransactionHash = transactionHash (signedRecord r),
            paNonce = signedNonce r\<rparr>)))) Q Thr t) Thr (c2, v)"
    proof (rule wp_saveStep [OF w])
      show "policyCovers c2 (attempts nxt)"
        by (simp add: policyCovers_def c2_def bytes nxt appendAttempt_def allSignedBytes_append)
          (auto simp: allSignedBytes_def newAttempt_def)
      show "evolves (current c2) (Present nxt)"
        using core_kept by (fastforce simp: f(3) cur nxt appendAttempt_def newAttempt_def
            conjunct1 [OF signPreparedTransaction_ok [OF r]])
      show "Thr e (c2, v)" for e unfolding c2_def by (rule refused)
      show "Thr e (latchedWrite nxt c2, u)" if "workInv V (latchedWrite nxt c2)" for e u
      proof (rule thr)
        have eq: "prepareRollback c (latchedWrite nxt c2) =
            (latchedWrite nxt c2)\<lparr>recoveryComplete := False, inclusionChecksComplete := False\<rparr>"
          by (simp add: prepareRollback_def latchedWrite_def persistenceIdle_def)
        show "workInv V (prepareRollback c (latchedWrite nxt c2))"
          unfolding eq using that workInv_revoked(2) [of V "(latchedWrite nxt c2)\<lparr>recoveryComplete := False\<rparr>"]
          by simp
        show "frame c (prepareRollback c (latchedWrite nxt c2))"
          "current (prepareRollback c (latchedWrite nxt c2)) = current c"
          "broadcastPermit (prepareRollback c (latchedWrite nxt c2)) = None"
          unfolding eq by (simp_all add: latchedWrite_def frame_def current_def c2_def c1)
      qed
      fix u :: 'w
      assume saved: "savedInv V (persisted nxt c2)" "authorityInv (persisted nxt c2)"
      have "pendingWrite (persisted nxt c2) = Some PendingPrepared"
        by (simp add: persisted_def c2_def)
      then show "wp (andThen (finishWrite E cy)
        (\<lambda>_. andThen (upd (\<lambda>c. c\<lparr>broadcastPermit := Some aid\<rparr>)) (\<lambda>_.
       ret (Prepared \<lparr>paAttemptId = aid, paTransactionHash = transactionHash (signedRecord r),
            paNonce = signedNonce r\<rparr>)))) Q Thr (persisted nxt c2, u)"
        unfolding wp_andThen
      proof (rule wp_finishWrite [OF saved])
        fix d :: coordinator and z :: 'w
        assume d: "restInv V d" "frame (persisted nxt c2) d" "authKept (persisted nxt c2) d"
          "pendingWrite d = None"
        have cd: "current d = Present nxt"
          using d(3) persisted_frame [of c2 nxt] authKept_current by metis
        have fd: "frame c d" using d(2) persisted_frame [of c2 nxt] f(1) by (meson frame_trans)
        have ai: "attemptId a = aid" "phase a = Signed" by (simp_all add: a_def newAttempt_def)
        have old: "oldestUnresolved nxt = Some a"
          unfolding nxt a_def by (rule oldestUnresolved_append [OF inc])
            (simp add: newAttempt_def isIncluded_def)
        show "wp (upd (\<lambda>c. c\<lparr>broadcastPermit := Some aid\<rparr>)) (\<lambda>_. wp (
           ret (Prepared \<lparr>paAttemptId = aid, paTransactionHash = transactionHash (signedRecord r),
            paNonce = signedNonce r\<rparr>)) Q Thr) Thr (d, z)"
          unfolding wp_upd wp_ret
        proof (rule Q)
          show "restInv V (d\<lparr>broadcastPermit := Some aid\<rparr>)"
            using workInv_permit [OF d(1) cd old d(4)] ai by simp
          show "frame c (d\<lparr>broadcastPermit := Some aid\<rparr>)" using fd by (simp add: frame_def)
          show "broadcastPermit (d\<lparr>broadcastPermit := Some aid\<rparr>) = Some (attemptId a)" using ai by simp
          show "preparedAs V tx wid \<lparr>paAttemptId = aid, paTransactionHash = transactionHash (signedRecord r),
            paNonce = signedNonce r\<rparr> c (d\<lparr>broadcastPermit := Some aid\<rparr>) s a"
            using signPreparedTransaction_ok [OF r] cur cd
            by (auto simp: preparedAs_def a_def newAttempt_def nxt current_def V c1)
        qed
      qed
    qed
    then show ?thesis by (simp only: wp_andThen c2_def V)
  qed
  show ?thesis
    unfolding prepareBody_def Let_def
    apply (intro wp_seqI, rule wp_world [rotated], rule refused)
    apply (intro wp_seqI, simp only: wp_onWorld, rule wp_timestamp)
    apply (simp only: wp_readC, intro wp_seqI, rule wp_world [rotated], rule refused)
    apply (intro wp_seqI, rule wp_unlessI [rotated], rule refused)
    apply (intro wp_seqI, simp only: wp_upd, intro wp_seqI, rule wp_liftI [rotated], rule refused)
    apply (intro wp_seqI, simp only: wp_upd)
    subgoal premises prems
      using validate_emb_same [OF prems(4)] commit [OF refl refl prems(2)]
      by (simp only: wp_andThen)
    done
qed

text \<open>The outcomes of the whole operation.\<close>

lemma prepareAttempt_wp:
  fixes w :: 'w
  assumes inv: "restInv V c" and V: "V = envViem E"
    and Q1: "\<And>d v p s a g. restInv V d \<Longrightarrow> frame c d \<Longrightarrow> preparedAs V tx wid p c d s a \<Longrightarrow>
      broadcastPermit d = Some (attemptId a) \<Longrightarrow> coordinatorGate c = Inr g \<Longrightarrow> statusOpen c g \<Longrightarrow>
      workId wid \<Longrightarrow> wid \<notin> attemptWorkId ` set (attempts s) \<Longrightarrow> Q (Prepared p) (d, v)"
    and Q2: "\<And>s a. current c = Present s \<Longrightarrow> a \<in> set (attempts s) \<Longrightarrow> attemptWorkId a = wid \<Longrightarrow>
      Q (AlreadyRetained (attemptId a) wid) (c, w)"
    and T1: "\<And>e. Thr e (c, w)"
    and T2: "\<And>e d v. restInv V d \<Longrightarrow> frame c d \<Longrightarrow> current d = current c \<Longrightarrow>
      broadcastPermit d = None \<Longrightarrow> Thr e (d, v)"
  shows "wp (prepareAttempt E account tx wid cy) Q Thr (c, w)"
proof -
  have main: "wp (case (statusOpen c g, current c) of
       (True, Present s) \<Rightarrow>
         andThen (unlessThrow (workId wid) (TypeError ''Invalid work identity.'')) (\<lambda>_.
         case find (\<lambda>a. attemptWorkId a = wid) (attempts s) of
           Some a \<Rightarrow> ret (AlreadyRetained (attemptId a) wid)
         | None \<Rightarrow>
             andThen (upd (\<lambda>c. c\<lparr>broadcastPermit := None, busy := True\<rparr>)) (\<lambda>_.
             finallyDo
               (onThrow (prepareBody E account tx wid cy s) (\<lambda>(x, w). (prepareRollback c x, w)))
               (leave E cy PrepareAttemptOp)))
     | _ \<Rightarrow> throw (PlainError ''The signer gate must be open before preparing an attempt.'')) Q Thr (c, w)"
    if g: "coordinatorGate c = Inr g" for g
  proof (cases "statusOpen c g \<and> current c \<noteq> Missing")
    case False
    then show ?thesis by (cases "current c"; cases "statusOpen c g") (simp_all add: wp_simps T1)
  next
    case True
    then obtain s where cur: "current c = Present s" and o: "statusOpen c g" by (cases "current c") auto
    from coordinatorGate_open [OF g o] cur
    have idle: "persistenceIdle c" and inc: "list_all isIncluded (attempts s)" by auto
    define c1 where "c1 = c\<lparr>broadcastPermit := None, busy := True\<rparr>"
    have fresh: "wp (finallyDo
               (onThrow (prepareBody E account tx wid cy s) (\<lambda>(x, w). (prepareRollback c x, w)))
               (leave E cy PrepareAttemptOp)) Q Thr (c1, w)"
      if "find (\<lambda>a. attemptWorkId a = wid) (attempts s) = None" "workId wid"
      unfolding wp_finallyDo wp_onThrow
    proof (rule prepareBody_wp [OF inv V cur inc idle c1_def])
      fix d p a v
      assume d: "restInv V d" "frame c d" "preparedAs V tx wid p c d s a"
        "broadcastPermit d = Some (attemptId a)"
      have wd: "workInv V d" using d(1) by (simp add: restInv_def)
      show "wp (leave E cy PrepareAttemptOp) (\<lambda>_. Q (Prepared p)) Thr (d, v)"
      proof (rule wp_leave [OF wd])
        fix d' v'
        assume d': "restInv V d'" "frame d d'" "authKept d d'"
        show "Q (Prepared p) (d', v')"
        proof (rule Q1 [OF d'(1) _ _ _ g o])
          show "frame c d'" using d(2) d'(2) by (rule frame_trans)
          show "preparedAs V tx wid p c d' s a"
            using d(3) unfolding preparedAs_def conjunct1 [OF authKept_current [OF d'(3)]] .
          show "broadcastPermit d' = Some (attemptId a)" using d(4) d'(3) by (simp add: authKept_def)
          show "workId wid" "wid \<notin> attemptWorkId ` set (attempts s)"
            using that by (auto simp: find_None_iff)
        qed
      qed
    next
      fix e d v
      assume d: "workInv V (prepareRollback c d)" "frame c (prepareRollback c d)"
        "current (prepareRollback c d) = current c" "broadcastPermit (prepareRollback c d) = None"
      show "wp (leave E cy PrepareAttemptOp) (\<lambda>_. Thr e) Thr
         (case (d, v) of (x, w) \<Rightarrow> (prepareRollback c x, w))"
        unfolding prod.case
      proof (rule wp_leave [OF d(1)])
        fix d' v'
        assume d': "restInv V d'" "frame (prepareRollback c d) d'" "authKept (prepareRollback c d) d'"
        show "Thr e (d', v')"
          using d' d authKept_current [OF d'(3)]
          by (intro T2) (auto simp: authKept_def intro: frame_trans)
      qed
    qed
    show ?thesis
      using fresh find_Some_set [of "\<lambda>a. attemptWorkId a = wid" "attempts s"] Q2 [OF cur] T1
      by (cases "find (\<lambda>a. attemptWorkId a = wid) (attempts s)")
        (auto simp: cur o wp_simps c1_def [symmetric])
  qed
  show ?thesis
    unfolding prepareAttempt_def assertAvailable_def assertNoPendingWrite_def
    apply (intro wp_seqI, simp only: wp_readC, intro wp_seqI, rule wp_unlessI [rotated], rule T1)
    apply (rule wp_unlessI [rotated], rule T1, intro wp_seqI, simp only: wp_readC)
    apply (rule wp_unlessI [rotated], rule T1, simp only: wp_readC)
    apply (intro wp_seqI, rule wp_liftI [rotated], rule T1)
    apply (rule main, assumption)
    done
qed

end
