(* ===== verification/BroadcastProofs.thy ===== *)
theory BroadcastProofs
  imports PrepareProofs
begin

text \<open>
  \<^verbatim>\<open>broadcastAttempt\<close>: it needs the permit of the oldest unresolved attempt, consumes it, records
  durably that a broadcast may have occurred, and only then sends the recorded bytes.
\<close>

lemma findUnresolved_shift: "findUnresolved (n + k) xs = map_option ((+) k) (findUnresolved n xs)"
  by (induction xs arbitrary: n) (auto simp flip: add_Suc)

lemma mark_oldest:
  assumes "oldestUnresolved s = Some a"
  shows "oldestUnresolved (markOldestUnresolved s) = Some (markBroadcast a)"
    and "allSignedBytes (attempts (markOldestUnresolved s)) = allSignedBytes (attempts s)"
    and "attempts (markOldestUnresolved s) = [] \<longleftrightarrow> attempts s = []"
proof -
  have main: "find (\<lambda>a. \<not> isIncluded a) xs = Some a \<Longrightarrow>
      \<exists>i. findUnresolved 0 xs = Some i \<and> i < length xs \<and> xs ! i = a \<and>
        find (\<lambda>a. \<not> isIncluded a) (xs[i := markBroadcast a]) = Some (markBroadcast a) \<and>
        allSignedBytes (xs[i := markBroadcast a]) = allSignedBytes xs" for xs
  proof (induction xs)
    case (Cons x xs)
    show ?case
    proof (cases "isIncluded x")
      case True
      with Cons obtain i where "findUnresolved 0 xs = Some i" "i < length xs" "xs ! i = a"
        "find (\<lambda>a. \<not> isIncluded a) (xs[i := markBroadcast a]) = Some (markBroadcast a)"
        "allSignedBytes (xs[i := markBroadcast a]) = allSignedBytes xs" by auto
      with True findUnresolved_shift [of 0 1 xs] show ?thesis
        by (simp add: allSignedBytes_def)
    next
      case False
      with Cons.prems show ?thesis
        by (auto simp: allSignedBytes_def markBroadcast_def isIncluded_def)
    qed
  qed simp
  from main [of "attempts s"] assms
  show "oldestUnresolved (markOldestUnresolved s) = Some (markBroadcast a)"
    "allSignedBytes (attempts (markOldestUnresolved s)) = allSignedBytes (attempts s)"
    "attempts (markOldestUnresolved s) = [] \<longleftrightarrow> attempts s = []"
    by (auto simp: oldestUnresolved_def markOldestUnresolved_def)
qed

lemma mark_fields [simp]:
  "nextNonce (markOldestUnresolved s) = nextNonce s"
  "durableNextNonce (markOldestUnresolved s) = durableNextNonce s"
  "lastObservation (markOldestUnresolved s) = lastObservation s"
  "identity (markOldestUnresolved s) = identity s" "baseline (markOldestUnresolved s) = baseline s"
  "repairs (markOldestUnresolved s) = repairs s"
  by (simp_all add: markOldestUnresolved_def split: option.split)

lemma mark_evolves: "evolves (Present s) (Present (markOldestUnresolved s))"
proof (cases "findUnresolved 0 (attempts s)")
  case None
  then have "markOldestUnresolved s = s" by (simp add: markOldestUnresolved_def)
  then show ?thesis by simp
next
  case (Some i)
  have i: "i < length (attempts s)" using findUnresolved_Some [OF Some] by simp
  have core: "sameCore (attempts (markOldestUnresolved s) ! j) (attempts s ! j)"
    if "j < length (attempts s)" for j
    using that by (cases "j = i") (simp_all add: markOldestUnresolved_def Some sameCore_def markBroadcast_def)
  have len: "length (attempts (markOldestUnresolved s)) = length (attempts s)"
    by (simp add: markOldestUnresolved_def Some)
  show ?thesis by (rule evolves_pointwise) (use core len in \<open>simp_all add: list_all2_conv_all_nth\<close>)
qed

lemma searchExhausted_mark:
  "oldestUnresolved s = Some a \<Longrightarrow> searchExhausted (markOldestUnresolved s) = searchExhausted s"
  by (simp add: searchExhausted_def mark_oldest(1)) (simp add: markBroadcast_def split: option.split)

lemma canBroadcast_iff:
  "canBroadcast c \<longleftrightarrow>
     \<not> busy c \<and> \<not> emitting c \<and> pendingWrite c = None \<and> inspectionOwner c = None \<and> persistenceIdle c \<and>
     recoveryComplete c \<and> blockers c = {} \<and>
     (\<exists>s a. current c = Present s \<and> oldestUnresolved s = Some a \<and>
        broadcastPermit c = Some (attemptId a) \<and> obsNonce (lastObservation s) = attemptNonce a)"
  by (auto simp: canBroadcast_def split: TransactionJournalRead.splits option.splits)

text \<open>The attempt as the result of its broadcast names it.\<close>

definition attemptIdentity :: "JournalAttempt \<Rightarrow> PreparedAttempt" where
  "attemptIdentity a =
     \<lparr>paAttemptId = attemptId a, paTransactionHash = transactionHash (last (signedTransactions a)),
      paNonce = attemptNonce a\<rparr>"

fun sentAttempt :: "BroadcastAttemptResult \<Rightarrow> PreparedAttempt" where
  "sentAttempt (Acknowledged p) = p"
| "sentAttempt (NotAcknowledged p) = p"

lemma wp_sendRecorded:
  assumes "\<And>r v ev. sentAttempt r = attemptIdentity a \<Longrightarrow> Q r (c\<lparr>events := ev\<rparr>, v)"
  shows "wp (sendRecorded C a cy) Q Thr (c, w)"
proof -
  have "wp (andThen (upd (emit e cy oper)) (\<lambda>_. ret r)) Q Thr (c, v)"
    if "sentAttempt r = attemptIdentity a" for e oper r v
    using assms [OF that] by (simp add: wp_simps emit_def)
  then show ?thesis
    by (auto simp: sendRecorded_def Let_def wp_simps attemptIdentity_def intro!: wpI)
qed


lemma broadcastAttempt_wp:
  fixes w :: 'w
  assumes inv: "restInv V c" and V: "V = envViem E"
    and Q: "\<And>r d v s a. restInv V d \<Longrightarrow> frame c d \<Longrightarrow> canBroadcast c \<Longrightarrow> current c = Present s \<Longrightarrow>
      oldestUnresolved s = Some a \<Longrightarrow> aid = attemptId a \<Longrightarrow> sentAttempt r = attemptIdentity a \<Longrightarrow>
      current d = Present (if phase a = Signed then markOldestUnresolved s else s) \<Longrightarrow>
      broadcastPermit d = None \<Longrightarrow> \<not> recoveryComplete d \<Longrightarrow> Q r (d, v)"
    and T1: "\<And>e. Thr e (c, w)"
    and T2: "\<And>e d v. restInv V d \<Longrightarrow> frame c d \<Longrightarrow> canBroadcast c \<Longrightarrow> current d = current c \<Longrightarrow>
      broadcastPermit d = None \<Longrightarrow> \<not> recoveryComplete d \<Longrightarrow> Thr e (d, v)"
  shows "wp (broadcastAttempt E C aid cy) Q Thr (c, w)"
proof -
  have main: "wp (finallyDo
                (onThrow (broadcastBody E C s a cy) (\<lambda>(c, w). (dropPendingIfIdle c, w)))
                (leave E cy BroadcastAttemptOp)) Q Thr (c1, w)"
    if cur: "current c = Present s" and old: "oldestUnresolved s = Some a" and aid: "aid = attemptId a"
      and can: "canBroadcast c"
      and c1: "c1 = c\<lparr>broadcastPermit := None, recoveryComplete := False,
                  inclusionChecksComplete := False, busy := True\<rparr>" for s a c1
  proof -
    from can have pend: "pendingWrite c = None" and idle: "persistenceIdle c" and bl: "blockers c = {}"
      by (simp_all add: canBroadcast_iff)
    have snap: "pendingSnapshot (persistence c) = None"
      using inv idle by (simp add: inv_defs persistenceIdle_def)
    have c1inv: "workInv V c1" "frame c c1" "current c1 = current c"
      using inv workInv_revoked [of V c] unfolding c1 revokeActionAuthorization_def
      by (simp_all add: restInv_def frame_def current_def)
        (cases "stateValue (persistence c)"; simp add: inv_defs current_def policyCovers_def)
    have leave: "wp (leave E cy BroadcastAttemptOp) (\<lambda>_. Q r) Thr (d, v)"
      if d: "workInv V d" "frame c d" "broadcastPermit d = None" "\<not> recoveryComplete d"
        "current d = Present (if phase a = Signed then markOldestUnresolved s else s)"
        "sentAttempt r = attemptIdentity a" for r d v
    proof (rule wp_leave [OF d(1)])
      fix d' v'
      assume d': "restInv V d'" "frame d d'" "authKept d d'"
      show "Q r (d', v')"
        using d d' authKept_current [OF d'(3)] cur old aid can
        by (intro Q [of d' s a]) (auto simp: authKept_def intro: frame_trans)
    qed
    have thrown: "wp (leave E cy BroadcastAttemptOp) (\<lambda>_. Thr e) Thr (d, v)"
      if d: "workInv V d" "frame c d" "broadcastPermit d = None" "\<not> recoveryComplete d"
        "current d = current c" for e d v
    proof (rule wp_leave [OF d(1)])
      fix d' v'
      assume d': "restInv V d'" "frame d d'" "authKept d d'"
      show "Thr e (d', v')"
        using d d' authKept_current [OF d'(3)] can
        by (intro T2) (auto simp: authKept_def intro: frame_trans)
    qed
    have send: "wp (sendRecorded C a cy) (\<lambda>r t. wp (leave E cy BroadcastAttemptOp) (\<lambda>_. Q r) Thr t) T (d, v)"
      if "workInv V d" "frame c d" "broadcastPermit d = None" "\<not> recoveryComplete d"
        "current d = Present (if phase a = Signed then markOldestUnresolved s else s)" for d v T
    proof (rule wp_sendRecorded)
      fix r v ev
      assume r: "sentAttempt r = attemptIdentity a"
      have "workInv V (d\<lparr>events := ev\<rparr>)"
        using that(1) by (cases "stateValue (persistence d)") (simp_all add: inv_defs current_def policyCovers_def)
      then show "wp (leave E cy BroadcastAttemptOp) (\<lambda>_. Q r) Thr (d\<lparr>events := ev\<rparr>, v)"
        by (rule leave) (use that r in \<open>simp_all add: frame_def current_def\<close>)
    qed
    show ?thesis
    proof (cases "phase a = Signed")
      case False
      have "wp (sendRecorded C a cy) (\<lambda>r t. wp (leave E cy BroadcastAttemptOp) (\<lambda>_. Q r) Thr t)
         (\<lambda>e t. wp (leave E cy BroadcastAttemptOp) (\<lambda>_. Thr e) Thr
            (case t of (c, w) \<Rightarrow> (dropPendingIfIdle c, w))) (c1, w)"
        using c1inv False cur by (intro send) (simp_all add: c1)
      with False show ?thesis by (simp add: broadcastBody_def wp_simps)
    next
      case True
      define c2 where "c2 = c1\<lparr>pendingWrite := Some PendingBroadcast\<rparr>"
      define s' where "s' = markOldestUnresolved s"
      note bytes = mark_oldest(2,3) [OF old]
      have f2: "frame c c2" "current c2 = current c" "broadcastPermit c2 = None" "\<not> recoveryComplete c2"
        by (simp_all add: c2_def c1 frame_def current_def)
      have wr: "writable V c2"
        using inv snap idle cur
        by (simp add: writable_def inv_defs c2_def c1 current_def persistenceIdle_def policyCovers_def)
      have "wp (onPersistence (savePersistence V (envStore E) s')) (\<lambda>_ t. wp (andThen
           (upd (\<lambda>c. c\<lparr>pendingWrite := None\<rparr>)) (\<lambda>_. sendRecorded C a cy))
         (\<lambda>r t. wp (leave E cy BroadcastAttemptOp) (\<lambda>_. Q r) Thr t)
         (\<lambda>e t. wp (leave E cy BroadcastAttemptOp) (\<lambda>_. Thr e) Thr
            (case t of (c, w) \<Rightarrow> (dropPendingIfIdle c, w))) t)
         (\<lambda>e t. wp (leave E cy BroadcastAttemptOp) (\<lambda>_. Thr e) Thr
            (case t of (c, w) \<Rightarrow> (dropPendingIfIdle c, w))) (c2, w)"
      proof (rule wp_saveStep [OF wr])
        have "policyCovers c2 (attempts s)"
          using inv cur by (simp add: inv_defs c2_def c1 policyCovers_def)
        then show "policyCovers c2 (attempts s')" by (simp add: policyCovers_def s'_def bytes)
        show "evolves (current c2) (Present s')" using mark_evolves by (simp add: f2 cur s'_def)
        have drop: "dropPendingIfIdle c2 = c1"
          using idle pend by (cases c) (simp add: dropPendingIfIdle_def c2_def c1 persistenceIdle_def)
        show "wp (leave E cy BroadcastAttemptOp) (\<lambda>_. Thr e) Thr
            (case (c2, w) of (c, w) \<Rightarrow> (dropPendingIfIdle c, w))" for e
          using c1inv by (simp add: drop, intro thrown) (simp_all add: c1)
        show "wp (leave E cy BroadcastAttemptOp) (\<lambda>_. Thr e) Thr
            (case (latchedWrite s' c2, v) of (c, w) \<Rightarrow> (dropPendingIfIdle c, w))"
          if "workInv V (latchedWrite s' c2)" for e v
        proof -
          have "dropPendingIfIdle (latchedWrite s' c2) = latchedWrite s' c2"
            by (simp add: dropPendingIfIdle_def latchedWrite_def persistenceIdle_def)
          then show ?thesis
            using that f2 latchedWrite_frame [of c2 s'] frame_trans [of c c2]
            by (simp, intro thrown) (auto simp: latchedWrite_def current_def)
        qed
        fix v :: 'w
        assume saved: "savedInv V (persisted s' c2)" "authorityInv (persisted s' c2)"
        define d where "d = (persisted s' c2)\<lparr>pendingWrite := None\<rparr>"
        have cd: "current d = Present s'" by (simp add: d_def persisted_def current_def)
        have "latchInv c" using inv by (simp add: inv_defs)
        then have "\<not> nextNonce s < obsNonce (lastObservation s)" "\<not> searchExhausted s"
          using cur bl by (auto simp: latchInv_def)
        then have "latchInv d" using cd by (simp add: latchInv_def s'_def searchExhausted_mark [OF old])
        moreover have "journalInv V d" "authorityInv d" "writeInv V d"
          using saved by (simp_all add: savedInv_def journalInv_def authorityInv_def writeInv_def
              persistenceIdle_def policyCovers_def d_def current_def)
        ultimately have "workInv V d" by (simp add: workInv_def)
        moreover have "frame c d" using f2 by (simp add: d_def persisted_def frame_def)
        ultimately show "wp (andThen
           (upd (\<lambda>c. c\<lparr>pendingWrite := None\<rparr>)) (\<lambda>_. sendRecorded C a cy))
         (\<lambda>r t. wp (leave E cy BroadcastAttemptOp) (\<lambda>_. Q r) Thr t)
         (\<lambda>e t. wp (leave E cy BroadcastAttemptOp) (\<lambda>_. Thr e) Thr
            (case t of (c, w) \<Rightarrow> (dropPendingIfIdle c, w))) (persisted s' c2, v)"
          using f2 cd True
          by (simp add: wp_simps d_def [symmetric], intro send)
            (simp_all add: d_def persisted_def s'_def)
      qed
      with True show ?thesis
        by (simp add: broadcastBody_def wp_simps c2_def s'_def V)
    qed
  qed
  show ?thesis
    unfolding broadcastAttempt_def assertAvailable_def assertNoPendingWrite_def
    apply (intro wp_seqI, simp only: wp_readC, intro wp_seqI, rule wp_unlessI [rotated], rule T1)
    apply (rule wp_unlessI [rotated], rule T1, intro wp_seqI, simp only: wp_readC)
    apply (rule wp_unlessI [rotated], rule T1, simp only: wp_readC)
    apply (cases "current c")
     apply (simp add: wp_simps T1)
    subgoal for s
      apply (cases "oldestUnresolved s")
       apply (simp add: wp_simps T1)
      using main T1 by (auto simp: wp_simps)
    done
qed

end
