(* ===== verification/InspectionProofs.thy ===== *)
theory InspectionProofs
  imports BroadcastProofs
begin

text \<open>
  The inspection that owns recovery and inclusion work: opening, running an operation inside it,
  finishing and abandoning, and the write that such an operation commits.
\<close>

text \<open>What an operation inside an inspection keeps: the owner's flags may change, the owner not.\<close>

definition loose :: "coordinator \<Rightarrow> coordinator \<Rightarrow> bool" where
  "loose c d =
     (map_option ownGeneration (inspectionOwner d) = map_option ownGeneration (inspectionOwner c) \<and>
      inspectionGeneration d = inspectionGeneration c \<and>
      signerIdentity d = signerIdentity c \<and> capacity d = capacity c \<and>
      observationActive d = observationActive c \<and>
      (UnattributedSignerActivity \<in> blockers c \<longrightarrow> UnattributedSignerActivity \<in> blockers d))"

text \<open>What every operation keeps: who the signer is, and evidence of unattributed activity.\<close>

definition steady :: "coordinator \<Rightarrow> coordinator \<Rightarrow> bool" where
  "steady c d =
     (signerIdentity d = signerIdentity c \<and> capacity d = capacity c \<and>
      (UnattributedSignerActivity \<in> blockers c \<longrightarrow> UnattributedSignerActivity \<in> blockers d))"

lemma loose_steady: "loose c d \<Longrightarrow> steady c d"
  by (simp add: loose_def steady_def)

lemma steady_trans: "steady a b \<Longrightarrow> steady b c \<Longrightarrow> steady a c"
  by (simp add: steady_def)

lemma steady_refl [simp]: "steady a a"
  by (simp add: steady_def)

lemma loose_refl [simp]: "loose c c"
  by (simp add: loose_def)

lemma loose_trans: "loose a b \<Longrightarrow> loose b c \<Longrightarrow> loose a c"
  by (simp add: loose_def)

lemma frame_loose: "frame c d \<Longrightarrow> loose c d"
  by (simp add: loose_def frame_def)

lemma map_owner [simp]:
  "(\<And>i. ownGeneration (f i) = ownGeneration i) \<Longrightarrow>
    map_option ownGeneration (map_option f x) = map_option ownGeneration x"
  by (cases x) simp_all

lemma loose_updOwner: "(\<And>i. ownGeneration (f i) = ownGeneration i) \<Longrightarrow> loose c (updOwner f c)"
  by (simp add: loose_def updOwner_def)

lemma updOwner_fields [simp]:
  "current (updOwner f c) = current c" "persistence (updOwner f c) = persistence c"
  "persistenceIdle (updOwner f c) = persistenceIdle c" "pendingWrite (updOwner f c) = pendingWrite c"
  "broadcastPermit (updOwner f c) = broadcastPermit c" "busy (updOwner f c) = busy c"
  "emitting (updOwner f c) = emitting c" "blockers (updOwner f c) = blockers c"
  "recoveryComplete (updOwner f c) = recoveryComplete c"
  "inclusionChecksComplete (updOwner f c) = inclusionChecksComplete c"
  "inspectionGeneration (updOwner f c) = inspectionGeneration c"
  "inspectionOwner (updOwner f c) = map_option f (inspectionOwner c)"
  "signerIdentity (updOwner f c) = signerIdentity c" "capacity (updOwner f c) = capacity c"
  "observationActive (updOwner f c) = observationActive c"
  by (simp_all add: updOwner_def current_def persistenceIdle_def)

lemma failOpenBracket_cases:
  "failOpenBracket c = c \<or>
   failOpenBracket c = revokeActionAuthorization (setBracket BracketFailed c)"
  by (auto simp: failOpenBracket_def split: option.split InspectionHeadBracket.split)

lemma revoke_fields [simp]:
  "current (revokeActionAuthorization c) = current c"
  "inspectionOwner (revokeActionAuthorization c) = inspectionOwner c"
  "broadcastPermit (revokeActionAuthorization c) = None"
  "busy (revokeActionAuthorization c) = busy c"
  "loose c (revokeActionAuthorization c)"
  by (simp_all add: revokeActionAuthorization_def current_def loose_def)

lemma failOpenBracket_kept:
  assumes "workInv V c"
  shows "workInv V (failOpenBracket c)" "loose c (failOpenBracket c)"
    "current (failOpenBracket c) = current c" "busy (failOpenBracket c) = busy c"
    "broadcastPermit c = None \<Longrightarrow> broadcastPermit (failOpenBracket c) = None"
  using failOpenBracket_cases [of c] workInv_revoked(3) [OF workInv_updOwner [OF _ assms]]
    loose_trans [OF loose_updOwner revoke_fields(5)] assms
  by (auto simp: setBracket_def)

abbreviation operationOff :: "coordinator \<Rightarrow> coordinator" where
  "operationOff \<equiv> updOwner (\<lambda>i. i\<lparr>ownActiveOperation := False\<rparr>)"

lemma operationOff_inv:
  assumes "restInv V c"
  shows "restInv V (operationOff c)" "loose c (operationOff c)" "quiet (operationOff c)"
proof -
  have "workInv V (operationOff c)"
    by (rule workInv_updOwner) (use assms in \<open>simp_all add: restInv_def\<close>)
  then show "restInv V (operationOff c)" using assms by (simp add: restInv_def)
  show "loose c (operationOff c)" by (rule loose_updOwner) simp
  show "quiet (operationOff c)" by (auto simp: quiet_def)
qed

text \<open>Running an operation inside the inspection.\<close>

lemma isOwner_flags [simp]:
  "(\<And>i. ownGeneration (f i) = ownGeneration i) \<Longrightarrow> isOwner (updOwner f c) g = isOwner c g"
  by (cases "inspectionOwner c") (simp_all add: isOwner_def)

lemma ownerOf_flags: "isOwner c g \<Longrightarrow> ownerOf (updOwner f c) = f (ownerOf c)"
  by (cases "inspectionOwner c") (simp_all add: isOwner_def ownerOf_def)

lemmas guard_defs = assertInspectionWorkAllowed_def assertAvailableTo_def assertInspectionOwner_def

text \<open>When inspection work is allowed.\<close>

definition workAllowed :: "coordinator \<Rightarrow> int \<Rightarrow> bool" where
  "workAllowed c g =
     (isOwner c g \<and> \<not> ownAbandoning (ownerOf c) \<and> \<not> busy c \<and> \<not> emitting c \<and>
      ownHeadBracket (ownerOf c) \<noteq> BracketFailed \<and> ownHeadBracket (ownerOf c) \<noteq> BracketClosed)"

lemma wp_workAllowed:
  assumes "workAllowed c g \<Longrightarrow> Q () (c, w)" and "\<And>e. \<not> workAllowed c g \<Longrightarrow> E e (c, w)"
  shows "wp (assertInspectionWorkAllowed g) Q E (c, w)"
  using assms by (auto simp: guard_defs wp_simps workAllowed_def)

lemma wp_runInspection:
  fixes w :: 'w
  assumes oper: "\<And>c1. c1 = updOwner (\<lambda>i. i\<lparr>ownCycle := cy, ownActiveOperation := True\<rparr>) c \<Longrightarrow>
      workAllowed c1 g \<Longrightarrow>
      wp oper (\<lambda>r (d, v). Q r (operationOff d, v)) (\<lambda>e (d, v). Thr e (operationOff (failOpenBracket d), v))
        (c1, w)"
    and T: "\<And>e. Thr e (c, w)"
  shows "wp (runInspectionOperation g cy oper) Q Thr (c, w)"
proof -
  define c1 where "c1 = updOwner (\<lambda>i. i\<lparr>ownCycle := cy, ownActiveOperation := True\<rparr>) c"
  have allowed: "workAllowed c1 g" if "workAllowed c g"
    using that by (auto simp: workAllowed_def c1_def ownerOf_flags)
  have "wp (tryFinally
       (onThrow (andThen (assertInspectionWorkAllowed g) (\<lambda>_. oper)) (\<lambda>(c, w). (failOpenBracket c, w)))
       (\<lambda>(c, w). (operationOff c, w))) Q Thr (c1, w)" if "workAllowed c g"
    unfolding wp_tryFinally wp_onThrow
    apply (rule wp_seqI, rule wp_workAllowed)
     apply (rule wp_mono [OF oper [OF c1_def]])
       apply (simp_all add: allowed that split: prod.splits)
    done
  then show ?thesis
    unfolding runInspectionOperation_def enterOperation_def
    apply (intro wp_seqI)
    apply (rule wp_workAllowed [rotated], rule T)
    apply (simp only: wp_readC, intro wp_seqI)
    apply (rule wp_unlessI [rotated], rule T)
    apply (simp only: wp_upd c1_def)
    done
qed


subsection \<open>The steps of the inspection itself\<close>

lemma quiet_owner: "quiet c \<Longrightarrow> isOwner c g \<Longrightarrow> \<not> ownActiveOperation (ownerOf c)"
  by (auto simp: quiet_def isOwner_def ownerOf_def split: option.splits)

lemma beginInspection_wp:
  assumes inv: "restInv V c"
    and Q: "\<And>d. restInv V d \<Longrightarrow> quiet d \<Longrightarrow> current d = current c \<Longrightarrow> broadcastPermit d = None \<Longrightarrow>
      inspectionOwner d \<noteq> None \<Longrightarrow> isOwner d (inspectionGeneration c + 1) \<Longrightarrow>
      signerIdentity d = signerIdentity c \<Longrightarrow> capacity d = capacity c \<Longrightarrow> blockers d = blockers c \<Longrightarrow>
      inspectionGeneration d = inspectionGeneration c + 1 \<Longrightarrow> inspectionOwner c = None \<Longrightarrow>
      Q (inspectionGeneration c + 1) (d, w)"
    and T: "\<And>e. Thr e (c, w)"
  shows "wp beginInspection Q Thr (c, w)"
proof -
  define d where "d = revokeActionAuthorization
        (c\<lparr>inspectionGeneration := inspectionGeneration c + 1,
          inspectionOwner := Some \<lparr>ownGeneration = inspectionGeneration c + 1,
            ownActiveOperation = False, ownAbandoning = False, ownCycle = None,
            ownHasRunOperation = False, ownHeadBracket = BracketNone\<rparr>\<rparr>)"
  have "restInv V d"
    using inv by (cases "stateValue (persistence c)")
      (simp_all add: d_def inv_defs revokeActionAuthorization_def current_def policyCovers_def)
  then have "Q (inspectionGeneration c + 1) (d, w)" if "inspectionOwner c = None"
    using that by (intro Q) (simp_all add: d_def quiet_def revokeActionAuthorization_def current_def isOwner_def)
  moreover have "inspectionGeneration d = inspectionGeneration c + 1"
    by (simp add: d_def revokeActionAuthorization_def)
  ultimately show ?thesis
    using T by (simp add: beginInspection_def assertAvailable_def assertNoPendingWrite_def wp_simps
        d_def [symmetric])
qed

text \<open>Releasing the owner and publishing: the end of both \<open>finish\<close> and \<open>abandon\<close>.\<close>

definition released :: "coordinator \<Rightarrow> coordinator" where
  "released c = c\<lparr>inspectionOwner := None\<rparr>"

text \<open>The journal, its identity and the blockers are as they were.\<close>

definition journalKept :: "coordinator \<Rightarrow> coordinator \<Rightarrow> bool" where
  "journalKept c d =
     (persistence d = persistence c \<and> signerIdentity d = signerIdentity c \<and> capacity d = capacity c \<and>
      blockers d = blockers c \<and> recoveryComplete d = recoveryComplete c)"

lemma wp_release:
  assumes inv: "restInv V c"
    and Q: "\<And>d v. restInv V d \<Longrightarrow> inspectionOwner d = None \<Longrightarrow> journalKept c d \<Longrightarrow>
      (broadcastPermit d = broadcastPermit c \<and> inclusionChecksComplete d = inclusionChecksComplete c) \<Longrightarrow>
      Q () (d, v)"
  shows "wp (refresh E cy oper) Q T (released c, w)"
proof (rule wp_refresh_inv)
  show "restInv V (released c)"
    using inv by (cases "stateValue (persistence c)") (simp_all add: released_def inv_defs current_def policyCovers_def)
  fix d v
  assume d: "restInv V d" "refreshed (released c) d"
  note f = refreshed_frame [OF d(2)]
  show "Q () (d, v)"
    by (rule Q) (use d f in \<open>simp_all add: frame_def authKept_def released_def journalKept_def\<close>)
qed

lemma finishInspection_wp:
  assumes inv: "restInv V c"
    and Q: "\<And>d v. restInv V d \<Longrightarrow> inspectionOwner d = None \<Longrightarrow> journalKept c d \<Longrightarrow>
      (broadcastPermit d = broadcastPermit c \<and> inclusionChecksComplete d = inclusionChecksComplete c) \<Longrightarrow>
      isOwner c g \<Longrightarrow> \<not> isOpenBracket (bracketOf c) \<Longrightarrow> Q () (d, v)"
    and T: "\<And>e. Thr e (c, w)"
  shows "wp (finishInspection E g) Q Thr (c, w)"
proof -
  have br: "(case ownHeadBracket (ownerOf c) of BracketOpen _ _ \<Rightarrow> False | _ \<Rightarrow> True) \<Longrightarrow>
    isOwner c g \<Longrightarrow> \<not> isOpenBracket (bracketOf c)"
    by (cases "ownHeadBracket (ownerOf c)")
      (auto simp: isOpenBracket_def bracketOf_def isOwner_def ownerOf_def split: option.splits)
  have rel: "wp (refresh E (ownCycle (ownerOf c)) ReconcileAttemptOp) Q Thr (c\<lparr>inspectionOwner := None\<rparr>, w)"
    if "isOwner c g" "case ownHeadBracket (ownerOf c) of BracketOpen _ _ \<Rightarrow> False | _ \<Rightarrow> True"
    using wp_release [OF inv, where Q = Q and T = Thr] Q br that unfolding released_def by blast
  show ?thesis
    unfolding finishInspection_def assertInspectionOwner_def
    apply (intro wp_seqI, simp only: wp_readC, rule wp_unlessI [rotated], rule T)
    apply (simp only: wp_readC, intro wp_seqI, rule wp_unlessI [rotated], rule T)
    apply (intro wp_seqI, rule wp_unlessI [rotated], rule T)
    apply (intro wp_seqI, rule wp_unlessI [rotated], rule T)
    apply (intro wp_seqI, rule wp_unlessI [rotated], rule T)
    apply (intro wp_seqI, rule wp_unlessI [rotated], rule T)
    apply (intro wp_seqI, rule wp_unlessI [rotated], rule T)
    apply (intro wp_seqI, simp only: wp_upd)
    apply (rule rel, assumption+)
    done
qed

lemma requestAbandon_wp:
  assumes inv: "restInv V c" and qu: "quiet c"
    and Q: "\<And>d. restInv V d \<Longrightarrow> quiet d \<Longrightarrow> loose c d \<Longrightarrow> journalKept c d \<Longrightarrow> broadcastPermit d = None \<Longrightarrow>
      \<not> inclusionChecksComplete d \<Longrightarrow> isOwner d g \<Longrightarrow> Q () (d, w)"
    and T: "\<And>e. \<not> isOwner c g \<Longrightarrow> Thr e (c, w)"
  shows "wp (requestAbandon g) Q Thr (c, w)"
proof -
  define d where "d = revokeActionAuthorization (updOwner (\<lambda>i. i\<lparr>ownAbandoning := True\<rparr>) c)"
  have "workInv V (updOwner (\<lambda>i. i\<lparr>ownAbandoning := True\<rparr>) c)"
    by (rule workInv_updOwner) (use inv in \<open>simp_all add: restInv_def\<close>)
  then have "restInv V d" using inv workInv_revoked(3) by (simp add: d_def restInv_def)
  then have "Q () (d, w)" if "isOwner c g"
    using that qu by (intro Q)
      (auto simp: d_def quiet_def revokeActionAuthorization_def loose_def journalKept_def isOwner_def
        split: option.splits)
  then show ?thesis
    using T by (auto simp: requestAbandon_def assertInspectionOwner_def wp_simps d_def [symmetric])
qed

lemma completeAbandonment_wp:
  assumes inv: "restInv V c"
    and Q: "\<And>d v. restInv V d \<Longrightarrow> inspectionOwner d = None \<Longrightarrow> journalKept c d \<Longrightarrow>
      broadcastPermit d = None \<Longrightarrow> \<not> inclusionChecksComplete d \<Longrightarrow> isOwner c g \<Longrightarrow> Q () (d, v)"
    and T: "\<And>e. \<not> isOwner c g \<Longrightarrow> Thr e (c, w)"
  shows "wp (completeAbandonment E g) Q Thr (c, w)"
proof -
  have r: "restInv V (revokeActionAuthorization c)"
    using inv workInv_revoked(3) by (simp add: restInv_def)
  have k: "journalKept (revokeActionAuthorization c) d \<Longrightarrow> journalKept c d" for d
    by (simp add: journalKept_def revokeActionAuthorization_def)
  have "wp (refresh E (ownCycle (ownerOf c)) ReconcileAttemptOp) Q Thr
      ((revokeActionAuthorization c)\<lparr>inspectionOwner := None\<rparr>, w)" if "isOwner c g"
    using wp_release [OF r, where Q = Q and T = Thr] Q k that
    unfolding released_def by (simp add: revokeActionAuthorization_def)
  then show ?thesis
    using T by (auto simp: completeAbandonment_def assertInspectionOwner_def wp_simps)
qed


subsection \<open>Committing inside an operation\<close>

text \<open>
  The write of recovery and inclusion work: the snapshot is committed, the flags \<open>F\<close> set and the write
  settled; or it is refused without effect; or it is latched.
\<close>

lemma policyCovers_sub:
  "policyCovers c as \<Longrightarrow> set (allSignedBytes bs) \<subseteq> set (allSignedBytes as) \<Longrightarrow>
    (as = [] \<Longrightarrow> bs = []) \<Longrightarrow> policyCovers c bs"
  by (auto simp: policyCovers_def)

lemma wp_commit:
  fixes w :: 'w
  assumes wr: "writable V c" and V: "V = envViem E" and cov: "policyCovers c (attempts s)"
    and evo: "evolves (current c) (Present s)"
    and p: "pendingWrite c = Some p"
    and F: "F (persisted s c) = (persisted s c)\<lparr>recoveryComplete := r, inclusionChecksComplete := i\<rparr>"
    and i: "i \<longrightarrow> list_all isIncluded (attempts s)"
    and ok: "\<And>d v. restInv V d \<Longrightarrow> frame c d \<Longrightarrow> current d = Present s \<Longrightarrow> persistenceIdle d \<Longrightarrow>
      pendingWrite d = None \<Longrightarrow> broadcastPermit d = None \<Longrightarrow> recoveryComplete d = r \<Longrightarrow>
      inclusionChecksComplete d = i \<Longrightarrow> wp k Q Thr (d, v)"
    and refused: "\<And>e. Thr e (c, w)"
    and latched: "\<And>e v. workInv V (latchedWrite s c) \<Longrightarrow> Thr e (latchedWrite s c, v)"
  shows "wp (andThen (onPersistence (savePersistence (envViem E) (envStore E) s)) (\<lambda>_.
     andThen (upd F) (\<lambda>_. andThen (finishWrite E cy) (\<lambda>_. k)))) Q Thr (c, w)"
  unfolding wp_andThen V [symmetric]
proof (rule wp_saveStep [OF wr cov evo])
  fix v :: 'w
  assume sv: "savedInv V (persisted s c)" "authorityInv (persisted s c)"
  define d0 where "d0 = F (persisted s c)"
  have d0: "d0 = (persisted s c)\<lparr>recoveryComplete := r, inclusionChecksComplete := i\<rparr>"
    by (simp only: d0_def F)
  have perm: "broadcastPermit (persisted s c) = None" using wr by (simp add: writable_def persisted_def)
  have sv': "savedInv V d0" "authorityInv d0"
    using sv i perm by (simp_all add: d0 savedInv_def journalInv_def persistenceIdle_def policyCovers_def
        authorityInv_def current_def persisted_def)
  have p': "pendingWrite d0 = Some p" by (simp add: d0 persisted_def p)
  show "wp (upd F) (\<lambda>_. wp (finishWrite E cy) (\<lambda>_. wp k Q Thr) Thr) Thr (persisted s c, v)"
    unfolding wp_upd d0_def [symmetric]
  proof (rule wp_finishWrite [OF sv' p'])
    fix d v'
    assume d: "restInv V d" "frame d0 d" "authKept d0 d" "pendingWrite d = None"
    have f0: "frame c d0" by (simp add: d0 persisted_def frame_def)
    note a = authKept_current [OF d(3)]
    have d0f: "current d0 = Present s" "persistenceIdle d0" "broadcastPermit d0 = None"
      "recoveryComplete d0 = r" "inclusionChecksComplete d0 = i"
      using perm by (simp_all add: d0 persisted_def current_def persistenceIdle_def)
    show "wp k Q Thr (d, v')"
      by (rule ok [OF d(1) frame_trans [OF f0 d(2)]])
        (use a d d0f in \<open>simp_all add: authKept_def\<close>)
  qed
next
  show "Thr e (c, w)" for e by (rule refused)
  show "Thr e (latchedWrite s c, v)" if "workInv V (latchedWrite s c)" for e v
    by (rule latched [OF that])
qed

text \<open>The clean-up of an operation that threw.\<close>

lemma drop_latched:
  "dropPendingIfIdle ((latchedWrite s c)\<lparr>recoveryComplete := r\<rparr>) = (latchedWrite s c)\<lparr>recoveryComplete := r\<rparr>"
  "dropPendingIfIdle ((latchedWrite s c)\<lparr>inclusionChecksComplete := r\<rparr>) =
     (latchedWrite s c)\<lparr>inclusionChecksComplete := r\<rparr>"
  by (simp_all add: dropPendingIfIdle_def latchedWrite_def persistenceIdle_def)

subsection \<open>The retry of a failed write\<close>

lemma retryPersistence_wp:
  fixes w :: 'w
  assumes inv: "restInv V c" and V: "V = envViem E"
    and Q: "\<And>d v s. restInv V d \<Longrightarrow> frame c d \<Longrightarrow> pendingSnapshot (persistence c) = Some s \<Longrightarrow>
      stateValue (persistence c) = Failed \<Longrightarrow> inspectionOwner c = None \<Longrightarrow>
      current d = Present s \<Longrightarrow> persistenceIdle d \<Longrightarrow> broadcastPermit d = None \<Longrightarrow>
      \<not> inclusionChecksComplete d \<Longrightarrow> evolves (current c) (current d) \<Longrightarrow> Q () (d, v)"
    and T1: "\<And>e. Thr e (c, w)"
    and T2: "\<And>e d v. restInv V d \<Longrightarrow> frame c d \<Longrightarrow> persistence d = persistence c \<Longrightarrow>
      stateValue (persistence c) = Failed \<Longrightarrow> pendingWrite d = pendingWrite c \<Longrightarrow> broadcastPermit d = None \<Longrightarrow> Thr e (d, v)"
  shows "wp (retryPersistence E cy) Q Thr (c, w)"
proof -
  have main: "wp (andThen (tryCatch (onPersistence (retryPersistenceWrite (envStore E)))
       (\<lambda>e. andThen (upd (\<lambda>c. c\<lparr>busy := False\<rparr>)) (\<lambda>_.
            andThen (refresh E cy ReconcileAttemptOp) (\<lambda>_. throw e)))) (\<lambda>_. finishWrite E cy)) Q Thr
       (c\<lparr>busy := True\<rparr>, w)"
    if pend: "pendingWrite c \<noteq> None" and failed: "stateValue (persistence c) = Failed"
      and own: "inspectionOwner c = None"
  proof (rule wp_seqI, unfold wp_tryCatch, rule wp_retryWrite)
    obtain p where p: "pendingWrite c = Some p" using pend by auto
    have fl: "broadcastPermit c = None" "\<not> inclusionChecksComplete c"
      using inv failed by (simp_all add: inv_defs)
    fix v :: 'w and s
    assume "pendingSnapshot (persistence (c\<lparr>busy := True\<rparr>)) = Some s"
    then have s: "pendingSnapshot (persistence c) = Some s" by simp
    define d0 where "d0 = persisted s (c\<lparr>busy := True\<rparr>)"
    have "savedInv V d0" "authorityInv d0"
      using inv failed s fl
      by (auto simp: d0_def savedInv_def inv_defs persisted_def current_def persistenceIdle_def policyCovers_def)
    moreover have "pendingWrite d0 = Some p" by (simp add: d0_def persisted_def p)
    ultimately show "wp (finishWrite E cy) Q Thr (persisted s (c\<lparr>busy := True\<rparr>), v)"
      unfolding d0_def [symmetric]
    proof (rule wp_finishWrite)
      fix d v'
      assume d: "restInv V d" "frame d0 d" "authKept d0 d"
      have f0: "frame c d0" "current d0 = Present s" "persistenceIdle d0"
        by (simp_all add: d0_def persisted_def frame_def current_def persistenceIdle_def)
      show "Q () (d, v')"
        by (rule Q [OF d(1) frame_trans [OF f0(1) d(2)] s failed own])
          (use f0 fl d authKept_current [OF d(3)] inv failed s in
            \<open>simp_all add: authKept_def d0_def persisted_def inv_defs\<close>)
    qed
  next
    fix e and v :: 'w
    have r: "restInv V (c\<lparr>busy := True, busy := False\<rparr>)" using inv by (simp add: restInv_def)
    show "wp (andThen (upd (\<lambda>c. c\<lparr>busy := False\<rparr>)) (\<lambda>_.
            andThen (refresh E cy ReconcileAttemptOp) (\<lambda>_. throw e))) (\<lambda>_. wp (finishWrite E cy) Q Thr)
        Thr (c\<lparr>busy := True\<rparr>, v)"
      unfolding wp_andThen wp_upd
    proof (rule wp_refresh_inv [OF r])
      fix d v'
      assume d: "restInv V d" "refreshed (c\<lparr>busy := True, busy := False\<rparr>) d"
      have "pendingWrite d = pendingWrite c"
        using published_fields(9) [of d "c\<lparr>busy := True, busy := False\<rparr>"] d(2) by (simp add: refreshed_def)
      then show "wp (throw e) (\<lambda>_. wp (finishWrite E cy) Q Thr) Thr (d, v')"
        using refreshed_frame [OF d(2)] failed inv unfolding wp_throw
        by (intro T2 [OF d(1)]) (auto simp: frame_def authKept_def inv_defs)
    qed
  qed
  show ?thesis
    unfolding retryPersistence_def assertAvailable_def
    apply (intro wp_seqI, simp only: wp_readC, intro wp_seqI, rule wp_unlessI [rotated], rule T1)
    apply (rule wp_unlessI [rotated], rule T1, simp only: wp_readC, intro wp_seqI)
    apply (rule wp_unlessI [rotated], rule T1, intro wp_seqI, simp only: wp_upd)
    using main by (simp only: wp_andThen) blast
qed

end
