(* ===== verification/RecoveryProofs.thy ===== *)
theory RecoveryProofs
  imports InspectionProofs
begin

text \<open>
  Recovery: the journal is created only when nothing blocks it; otherwise it changes only as
  \<^verbatim>\<open>recoveryUpdate\<close> says for the inspection that was made, and the permit is granted only for the
  oldest attempt, unresolved, at the signer's next nonce.
\<close>

text \<open>The state in which recovery and inclusion work starts.\<close>

definition ready :: "viem \<Rightarrow> coordinator \<Rightarrow> bool" where
  "ready V c =
     (workInv V c \<and> persistenceIdle c \<and> pendingWrite c = None \<and> broadcastPermit c = None \<and>
      \<not> inclusionChecksComplete c)"

lemma ready_writable: "ready V c \<Longrightarrow> writable V (c\<lparr>pendingWrite := Some p\<rparr>)"
  by (cases "stateValue (persistence c)")
    (simp_all add: ready_def writable_def inv_defs current_def persistenceIdle_def policyCovers_def)

lemma ready_covers: "ready V c \<Longrightarrow> current c = Present s \<Longrightarrow> policyCovers c (attempts s)"
  by (simp add: ready_def inv_defs)

lemma policyCovers_pending [simp]: "policyCovers (c\<lparr>pendingWrite := p\<rparr>) as = policyCovers c as"
  by (simp add: policyCovers_def)

lemma pending_noop: "pendingWrite c = None \<Longrightarrow> c\<lparr>pendingWrite := None\<rparr> = c"
  by (cases c) simp

text \<open>What a failed attempt at a write leaves after the clean-up.\<close>

definition cleaned :: "viem \<Rightarrow> coordinator \<Rightarrow> coordinator \<Rightarrow> bool" where
  "cleaned V c d =
     (workInv V d \<and> frame c d \<and> current d = current c \<and> broadcastPermit d = None \<and>
      \<not> inclusionChecksComplete d)"

lemma cleaned_refused:
  assumes "ready V c"
  shows "cleaned V c (dropPendingIfIdle (c\<lparr>pendingWrite := p, recoveryComplete := r\<rparr>))"
    and "cleaned V c (dropPendingIfIdle (c\<lparr>pendingWrite := p, inclusionChecksComplete := False\<rparr>))"
    and "cleaned V c (dropPendingIfIdle (c\<lparr>recoveryComplete := r\<rparr>))"
    and "cleaned V c (dropPendingIfIdle (c\<lparr>inclusionChecksComplete := False\<rparr>))"
proof -
  have eq: "dropPendingIfIdle (c\<lparr>pendingWrite := p, recoveryComplete := r\<rparr>) = c\<lparr>recoveryComplete := r\<rparr>"
    "dropPendingIfIdle (c\<lparr>pendingWrite := p, inclusionChecksComplete := False\<rparr>) = c"
    "dropPendingIfIdle (c\<lparr>recoveryComplete := r\<rparr>) = c\<lparr>recoveryComplete := r\<rparr>"
    "dropPendingIfIdle (c\<lparr>inclusionChecksComplete := False\<rparr>) = c"
    using assms by (cases c; simp add: ready_def dropPendingIfIdle_def persistenceIdle_def)+
  show "cleaned V c (dropPendingIfIdle (c\<lparr>pendingWrite := p, recoveryComplete := r\<rparr>))"
    "cleaned V c (dropPendingIfIdle (c\<lparr>pendingWrite := p, inclusionChecksComplete := False\<rparr>))"
    "cleaned V c (dropPendingIfIdle (c\<lparr>recoveryComplete := r\<rparr>))"
    "cleaned V c (dropPendingIfIdle (c\<lparr>inclusionChecksComplete := False\<rparr>))"
    unfolding eq using assms by (simp_all add: cleaned_def ready_def frame_def current_def)
qed

lemma cleaned_latched:
  assumes "workInv V (latchedWrite s c)" "broadcastPermit c = None" "\<not> inclusionChecksComplete c"
  shows "cleaned V c (dropPendingIfIdle ((latchedWrite s c)\<lparr>recoveryComplete := r\<rparr>))"
    and "cleaned V c (dropPendingIfIdle ((latchedWrite s c)\<lparr>inclusionChecksComplete := False\<rparr>))"
  unfolding drop_latched
  using assms workInv_revoked(2) [OF assms(1)]
  by (simp_all add: cleaned_def frame_def latchedWrite_def current_def)

text \<open>The journal after a recovery that inspected \<open>r\<close>.\<close>

definition recoverySeen :: "coordinator \<Rightarrow> TransactionJournalSnapshot \<Rightarrow> AnchoredNonceObservation \<Rightarrow>
    AnchoredNonceObservation" where
  "recoverySeen c s obs =
     (if UnattributedSignerActivity \<in> blockers c \<and> obsNonce obs < obsNonce (lastObservation s)
      then lastObservation s else obs)"

definition recoveredTo ::
  "coordinator \<Rightarrow> TransactionJournalSnapshot \<Rightarrow> SignerRecoveryInspection \<Rightarrow> TransactionJournalRead \<Rightarrow>
   bool" where
  "recoveredTo c s r after =
     (after = Present s \<or>
      (\<exists>obs p t. inspectionObservation r = Some obs \<and>
         recoveryUpdate (signer (signerIdentity c)) s (recoverySeen c s obs) r = Inr (p, t) \<and>
         after = Present t))"

definition permitJust ::
  "TransactionJournalSnapshot \<Rightarrow> SignerRecoveryInspection \<Rightarrow> coordinator \<Rightarrow> bool" where
  "permitJust s r d =
     (\<forall>b. broadcastPermit d = Some b \<longrightarrow>
        (\<exists>obs receipt a as. r = RecoveryUnresolved obs receipt None \<and> attempts s = a # as \<and>
           b = attemptId a \<and> \<not> isIncluded a \<and> obsNonce obs = attemptNonce a \<and> blockers d = {} \<and>
           recoveryComplete d \<and>
           (receipt = ReceiptNotFound \<or> (\<exists>h e. receipt = ForkServedReceipt h e))))"

lemma recoveryUpdate_attempts:
  assumes "recoveryUpdate who s obs r = Inr (p, t)"
  shows "attempts s = [] \<Longrightarrow> attempts t = []"
    and "attempts s = a # as \<Longrightarrow> attempts t = as \<or>
      (\<exists>rs. attempts t = a\<lparr>replacementSearch := rs\<rparr> # as)"
    and "attempts s = a # as \<Longrightarrow> r = RecoveryUnresolved o1 receipt None \<Longrightarrow>
      \<exists>rs. attempts t = a\<lparr>replacementSearch := rs\<rparr> # as"
  using assms by (auto simp: recoveryUpdate_def bindE_Inr split: SignerRecoveryInspection.splits
      list.splits option.splits ReplacementSearchResult.splits if_splits)

lemma recoveryUpdate_covers:
  assumes "recoveryUpdate who s obs r = Inr (p, t)" "policyCovers c (attempts s)"
  shows "policyCovers c (attempts t)"
proof (rule policyCovers_sub [OF assms(2)])
  show "attempts s = [] \<Longrightarrow> attempts t = []" by (rule recoveryUpdate_attempts(1) [OF assms(1)])
  show "set (allSignedBytes (attempts t)) \<subseteq> set (allSignedBytes (attempts s))"
    using recoveryUpdate_attempts(1,2) [OF assms(1)]
    by (cases "attempts s") (auto simp: allSignedBytes_def, force)
qed

lemma recoveryUpdate_nonces:
  assumes "recoveryUpdate who s obs r = Inr (p, t)"
  shows "nextNonce t = nextNonce s \<and> identity t = identity s \<and> baseline t = baseline s \<and>
    repairs t = repairs s \<and> (durableNextNonce t = durableNextNonce s \<or>
      (\<exists>o1 e a as. r = ResolutionAvailable o1 e \<and> attempts s = a # as \<and> attempts t = as \<and>
         durableNextNonce t = attemptNonce a + 1))"
  and "durableNextNonce t = durableNextNonce s \<Longrightarrow> (\<exists>o1 e a as. r = ResolutionAvailable o1 e \<and>
         attempts s = a # as \<and> attempts t = as \<and> durableNextNonce t = attemptNonce a + 1) \<or>
     (attempts t = attempts s \<or> (\<exists>a as rs. attempts s = a # as \<and>
       attempts t = a\<lparr>replacementSearch := rs\<rparr> # as))"
  using assms by (auto simp: recoveryUpdate_def bindE_Inr split: SignerRecoveryInspection.splits
      list.splits option.splits ReplacementSearchResult.splits if_splits)

lemma recoveryUpdate_evolves:
  assumes up: "recoveryUpdate who s obs r = Inr (p, t)" and wf: "wfSnapshot i s"
  shows "evolves (Present s) (Present t)"
proof (cases "\<exists>o1 e a as. r = ResolutionAvailable o1 e \<and> attempts s = a # as \<and> attempts t = as \<and>
    durableNextNonce t = attemptNonce a + 1")
  case True
  then obtain a as where a: "attempts s = a # as" "attempts t = as"
    "durableNextNonce t = attemptNonce a + 1" by blast
  moreover have "attemptNonce a = durableNextNonce s"
    using wf a(1) by (auto simp: wfSnapshot_def wfAttempts_def dest: spec [of _ 0])
  ultimately show ?thesis using recoveryUpdate_nonces(1) [OF up] core_kept [of _ as]
    by auto
next
  case False
  with recoveryUpdate_nonces [OF up]
  have k: "attempts t = attempts s \<or> (\<exists>a as rs. attempts s = a # as \<and>
       attempts t = a\<lparr>replacementSearch := rs\<rparr> # as)" "durableNextNonce t = durableNextNonce s"
    by blast+
  have "list_all2 sameCore (attempts t) (attempts s)"
    using k(1) by (auto simp: list_all2_refl) (simp add: sameCore_def)
  then show ?thesis using k(2) recoveryUpdate_nonces(1) [OF up] by (intro evolves_pointwise) simp_all
qed

lemma permitAfterRecovery_inv:
  assumes d: "restInv V d" "current d = Present t" "pendingWrite d = None" "broadcastPermit d = None"
    "recoveryComplete d"
    and up: "recoveryUpdate who s seen r = Inr (p, t)"
  shows "restInv V (d\<lparr>broadcastPermit := permitAfterRecovery s r d\<rparr>) \<and>
    permitJust s r (d\<lparr>broadcastPermit := permitAfterRecovery s r d\<rparr>)"
proof (cases "permitAfterRecovery s r d")
  case None
  have "d\<lparr>broadcastPermit := None\<rparr> = d" using d(4) by (cases d) simp
  then have "d\<lparr>broadcastPermit := permitAfterRecovery s r d\<rparr> = d" by (simp only: None)
  then show ?thesis using d(1,4) by (simp only: permitJust_def) simp
next
  case (Some b)
  then obtain obs receipt a as where r: "r = RecoveryUnresolved obs receipt None" and
    a: "attempts s = a # as" "\<not> isIncluded a" "obsNonce obs = attemptNonce a" "blockers d = {}"
    "b = attemptId a" and rc: "receipt = ReceiptNotFound \<or> (\<exists>h e. receipt = ForkServedReceipt h e)"
    using d(4) by (auto simp: permitAfterRecovery_def split: SignerRecoveryInspection.splits option.splits
        list.splits if_splits AttemptReceiptResult.splits)
  obtain rs where "attempts t = a\<lparr>replacementSearch := rs\<rparr> # as"
    using recoveryUpdate_attempts(3) [OF up a(1) r] by blast
  then have "oldestUnresolved t = Some (a\<lparr>replacementSearch := rs\<rparr>)"
    using a(2) by (simp add: oldestUnresolved_def isIncluded_def)
  from workInv_permit [OF d(1,2) this d(3)] r a rc d(5) Some
  show ?thesis by (auto simp: permitJust_def)
qed


lemma recoverPresent_wp:
  fixes w :: 'w
  assumes rd: "ready V c" and V: "V = envViem E" and cur: "current c = Present s"
    and Q: "\<And>r d v w'. workInv V d \<Longrightarrow> frame c d \<Longrightarrow> recoveredTo c s r (current d) \<Longrightarrow> permitJust s r d \<Longrightarrow>
      \<not> inclusionChecksComplete d \<Longrightarrow>
      inspectSignerRecovery C s anch rng w = (Inr r, w') \<Longrightarrow> Q (RecoveryInspected r) (d, v)"
    and T: "\<And>e d v. cleaned V c (dropPendingIfIdle (d\<lparr>recoveryComplete := False\<rparr>)) \<Longrightarrow> Thr e (d, v)"
  shows "wp (recoverPresent E C s anch rng cy) Q Thr (c, w)"
proof -
  note clean = cleaned_refused [OF rd]
  have rf: "pendingWrite c = None" "broadcastPermit c = None" "\<not> inclusionChecksComplete c" "workInv V c"
    using rd by (simp_all add: ready_def)
  have refused: "Thr e (c, v)" "Thr e (c\<lparr>pendingWrite := p\<rparr>, v)" for e p v
    using clean by (auto intro: T)
  have still: "Q (RecoveryInspected r) (c, v)"
    if "inspectSignerRecovery C s anch rng w = (Inr r, w')" for r v w'
    by (rule Q) (use that rf cur in \<open>simp_all add: recoveredTo_def permitJust_def\<close>)
  have commit: "wp (andThen (onPersistence (savePersistence (envViem E) (envStore E) t)) (\<lambda>_.
       andThen (upd (\<lambda>c. c\<lparr>recoveryComplete := True\<rparr>)) (\<lambda>_. andThen (finishWrite E cy) (\<lambda>_.
       andThen (upd (\<lambda>c. c\<lparr>broadcastPermit := permitAfterRecovery s r c\<rparr>)) (\<lambda>_.
         ret (RecoveryInspected r)))))) Q Thr (c\<lparr>pendingWrite := Some p\<rparr>, w1)"
    if up: "recoveryUpdate (signer (signerIdentity c)) s (recoverySeen c s obs) r = Inr (p, t)"
      and r: "inspectSignerRecovery C s anch rng w = (Inr r, w1)" and obs: "inspectionObservation r = Some obs"
    for p t r w1 obs
  proof (rule wp_commit [OF ready_writable [OF rd] V, where r = True and i = False])
    show "policyCovers (c\<lparr>pendingWrite := Some p\<rparr>) (attempts t)"
      using recoveryUpdate_covers [OF up ready_covers [OF rd cur]] by simp
    show "pendingWrite (c\<lparr>pendingWrite := Some p\<rparr>) = Some p" by simp
    have "wfSnapshot (signerIdentity c) s"
      using rf(4) cur verified_wf by (auto simp: workInv_def journalInv_def)
    then show "evolves (current (c\<lparr>pendingWrite := Some p\<rparr>)) (Present t)"
      using recoveryUpdate_evolves [OF up] cur by (simp add: current_def)
    show "Thr e (c\<lparr>pendingWrite := Some p\<rparr>, w1)" for e by (rule refused)
    show "Thr e (latchedWrite t (c\<lparr>pendingWrite := Some p\<rparr>), v)"
      if "workInv V (latchedWrite t (c\<lparr>pendingWrite := Some p\<rparr>))" for e v
      using cleaned_latched(1) [OF that, of False] rf
      by (intro T) (simp add: cleaned_def frame_def current_def)
    show "(persisted t (c\<lparr>pendingWrite := Some p\<rparr>))\<lparr>recoveryComplete := True\<rparr> =
      (persisted t (c\<lparr>pendingWrite := Some p\<rparr>))\<lparr>recoveryComplete := True, inclusionChecksComplete := False\<rparr>"
      using rf(3) by (cases c) (simp add: persisted_def)
  next
    fix d v
    assume d: "restInv V d" "frame (c\<lparr>pendingWrite := Some p\<rparr>) d" "current d = Present t"
      "pendingWrite d = None" "broadcastPermit d = None" "recoveryComplete d = True"
      "inclusionChecksComplete d = False"
    note perm = permitAfterRecovery_inv [OF d(1,3,4,5) _ up]
    show "wp (andThen (upd (\<lambda>c. c\<lparr>broadcastPermit := permitAfterRecovery s r c\<rparr>)) (\<lambda>_.
       ret (RecoveryInspected r))) Q Thr (d, v)"
      unfolding wp_andThen wp_upd wp_ret
      by (rule Q) (use perm d r up obs in \<open>auto simp: restInv_def frame_def recoveredTo_def current_def\<close>)
  qed simp
  show ?thesis
    unfolding recoverPresent_def
    apply (rule wp_seqI, rule wp_world [rotated], rule refused)
    subgoal for r w1
      apply (cases "inspectionObservation r")
       apply (simp only: option.case wp_ret)
       apply (rule still, assumption)
      apply (simp only: option.case wp_readC Let_def)
      apply (rule wp_ifI, simp only: wp_ret, rule still, assumption)
      apply (fold recoverySeen_def)
      apply (rule wp_seqI, rule wp_liftI [rotated], rule refused)
      subgoal for obs x
        apply (cases x)
        apply (simp only: prod.case)
        apply (rule wp_seqI, rule wp_liftI [rotated], rule refused)
        apply (drule validate_emb_same)
        apply (simp only: wp_andThen [of "upd _"] wp_upd)
        apply (rule commit, assumption+)
        done
      done
    done
qed


text \<open>Bootstrap writes the first snapshot from an observation to which the live counts agreed.\<close>

definition bootstrapReadyAt :: "'w chain_client \<Rightarrow> jstr \<Rightarrow> BlockAnchor \<Rightarrow> AnchoredNonceObservation \<Rightarrow> bool" where
  "bootstrapReadyAt C who anch obs =
     (\<exists>w v. inspectSignerBootstrap C who anch w = (Inr (BootstrapReady obs), v))"

definition bootstrappedTo ::
  "'w chain_client \<Rightarrow> BlockAnchor \<Rightarrow> coordinator \<Rightarrow> SignerRecoveryResult \<Rightarrow> TransactionJournalRead \<Rightarrow> bool" where
  "bootstrappedTo C anch c r after =
     (after = Missing \<or>
      (\<exists>obs. r = RecoveryInspected (RecoveryNoAttempt obs) \<and> blockers c = {} \<and>
         bootstrapReadyAt C (signer (signerIdentity c)) anch obs \<and>
         after = Present (bootstrapSnapshot (signerIdentity c) obs)))"

lemma recoverMissing_wp:
  fixes w :: 'w
  assumes rd: "ready V c" and V: "V = envViem E" and cur: "current c = Missing"
    and Q: "\<And>r d v. workInv V d \<Longrightarrow> frame c d \<Longrightarrow> bootstrappedTo C anch c r (current d) \<Longrightarrow>
      broadcastPermit d = None \<Longrightarrow> \<not> inclusionChecksComplete d \<Longrightarrow> Q r (d, v)"
    and T: "\<And>e d v. cleaned V c (dropPendingIfIdle (d\<lparr>recoveryComplete := False\<rparr>)) \<Longrightarrow> Thr e (d, v)"
  shows "wp (recoverMissing E C anch cy) Q Thr (c, w)"
proof -
  note clean = cleaned_refused [OF rd]
  have rf: "pendingWrite c = None" "broadcastPermit c = None" "\<not> inclusionChecksComplete c" "workInv V c"
    using rd by (simp_all add: ready_def)
  have refused: "Thr e (c, v)" for e v using clean by (auto intro: T)
  have stay: "Q r (d, v)" if "\<exists>l ev. d = c\<lparr>lastBootstrapDeferral := l, events := ev\<rparr>" for r d v
  proof -
    from that obtain l ev where d: "d = c\<lparr>lastBootstrapDeferral := l, events := ev\<rparr>" by blast
    have "workInv V d" using rf(4)
      by (cases "stateValue (persistence c)") (simp_all add: d inv_defs current_def policyCovers_def)
    then show ?thesis
      by (rule Q) (use rf cur in \<open>simp_all add: d frame_def bootstrappedTo_def current_def\<close>)
  qed
  have same: "\<exists>l ev. c = c\<lparr>lastBootstrapDeferral := l, events := ev\<rparr>"
    by (rule exI [of _ "lastBootstrapDeferral c"], rule exI [of _ "events c"]) simp
  define c1 where "c1 = c\<lparr>lastBootstrapDeferral := None\<rparr>"
  have rd1: "ready V c1" using rd
    by (cases "stateValue (persistence c)")
      (simp_all add: c1_def ready_def inv_defs current_def persistenceIdle_def policyCovers_def)
  have c1f: "frame c c1" "current c1 = current c" by (simp_all add: c1_def frame_def current_def)
  have cl1: "cleaned V c1 d \<Longrightarrow> cleaned V c d" for d
    using c1f frame_trans [of c c1 d] by (simp add: cleaned_def)
  have boot: "wp (andThen (onPersistence (savePersistence (envViem E) (envStore E)
             (bootstrapSnapshot (signerIdentity c) obs))) (\<lambda>_.
         andThen (upd (\<lambda>c. c\<lparr>recoveryComplete := True\<rparr>)) (\<lambda>_.
         andThen (finishWrite E cy) (\<lambda>_. ret (RecoveryInspected (RecoveryNoAttempt obs)))))) Q Thr
       (c1\<lparr>pendingWrite := Some PendingBootstrap\<rparr>, v)"
    if r: "inspectSignerBootstrap C (signer (signerIdentity c)) anch w = (Inr (BootstrapReady obs), v)"
      and bl: "blockers c = {}" for obs v
  proof (rule wp_commit [OF ready_writable [OF rd1] V, where r = True and i = False])
    let ?c = "c1\<lparr>pendingWrite := Some PendingBootstrap\<rparr>"
    let ?s = "bootstrapSnapshot (signerIdentity c) obs"
    show "policyCovers ?c (attempts ?s)" by (simp add: policyCovers_def bootstrapSnapshot_def)
    show "pendingWrite ?c = Some PendingBootstrap" by simp
    show "evolves (current ?c) (Present ?s)" using cur c1f by (simp add: current_def)
    show "(persisted ?s ?c)\<lparr>recoveryComplete := True\<rparr> =
      (persisted ?s ?c)\<lparr>recoveryComplete := True, inclusionChecksComplete := False\<rparr>"
      using rf(3) by (cases c) (simp add: persisted_def c1_def)
    show "Thr e (?c, v)" for e
      using cleaned_refused(1) [OF rd1] by (intro T cl1) simp
    show "Thr e (latchedWrite ?s ?c, u)" if "workInv V (latchedWrite ?s ?c)" for e u
      using cleaned_latched(1) [OF that, of False] rf c1f
      by (intro T) (simp add: cleaned_def frame_def current_def c1_def)
    fix d u
    assume d: "restInv V d" "frame ?c d" "current d = Present ?s" "broadcastPermit d = None"
      "inclusionChecksComplete d = False"
    show "wp (ret (RecoveryInspected (RecoveryNoAttempt obs))) Q Thr (d, u)"
      unfolding wp_ret
      by (rule Q) (use d c1f bl r in \<open>auto simp: restInv_def bootstrappedTo_def bootstrapReadyAt_def frame_def c1_def\<close>)
  qed simp
  have c1p: "c\<lparr>lastBootstrapDeferral := None, pendingWrite := x\<rparr> = c1\<lparr>pendingWrite := x\<rparr>" for x
    by (simp add: c1_def)
  show ?thesis
    unfolding recoverMissing_def
    apply (simp only: wp_readC, rule wp_seqI, rule wp_unlessI [rotated], rule refused)
    apply (rule wp_seqI, rule wp_world [rotated], rule refused)
    subgoal for r v
      apply (cases r; simp only: SignerBootstrapDecision.case)
      subgoal for obs
        using boot by (simp only: wp_andThen [of "upd _"] wp_upd c1p)
      subgoal for obs l p
        apply (rule wp_seqI, rule wp_ifI)
         apply (simp only: wp_upd wp_ret emit_def)
         apply (rule stay, rule exI [of _ "Some (obsNonce obs, l, p)"], rule exI, rule refl)
        apply (simp only: wp_ret)
        apply (rule stay [OF same])
        done
      subgoal by (simp only: wp_ret) (rule stay [OF same])
      done
    done
qed


subsection \<open>The operation as a whole\<close>

text \<open>The journal after a recovery, in both cases.\<close>

definition recoveryEffect ::
  "'w chain_client \<Rightarrow> BlockAnchor \<Rightarrow> int \<Rightarrow> coordinator \<Rightarrow> SignerRecoveryResult \<Rightarrow> coordinator \<Rightarrow> bool" where
  "recoveryEffect C anch rng c r d =
     (case current c of
        Missing \<Rightarrow> bootstrappedTo C anch c r (current d) \<and> broadcastPermit d = None
      | Present s \<Rightarrow> (\<exists>i. r = RecoveryInspected i \<and> inspectionOk C s anch rng i \<and>
           recoveredTo c s i (current d) \<and> permitJust s i d))"

lemma recoveryEffect_cong:
  assumes "recoveryEffect C anch rng c r d" "current c' = current c" "blockers c' = blockers c"
    "signerIdentity c' = signerIdentity c" "current d' = current d" "broadcastPermit d' = broadcastPermit d"
    "blockers d' = blockers d" "recoveryComplete d' = recoveryComplete d"
  shows "recoveryEffect C anch rng c' r d'"
  using assms(1)
  unfolding recoveryEffect_def bootstrappedTo_def recoveredTo_def permitJust_def recoverySeen_def assms(2-8) .

lemma recoverOwned_wp:
  fixes w :: 'w
  assumes inv: "restInv V c" and V: "V = envViem E"
    and Q: "\<And>r d v. restInv V d \<Longrightarrow> loose c d \<Longrightarrow> recoveryEffect C anch rng c r d \<Longrightarrow>
      \<not> inclusionChecksComplete d \<Longrightarrow> Q r (d, v)"
    and T: "\<And>e d v. restInv V d \<Longrightarrow> loose c d \<Longrightarrow> current d = current c \<Longrightarrow>
      (broadcastPermit d = None \<or> broadcastPermit d = broadcastPermit c) \<Longrightarrow> Thr e (d, v)"
  shows "wp (recoverOwned E C anch rng g cy) Q Thr (c, w)"
proof -
  define c1 where "c1 = updOwner (\<lambda>i. i\<lparr>ownHasRunOperation := True\<rparr>) c"
  have w1: "workInv V c1" unfolding c1_def
    by (rule workInv_updOwner) (use inv in \<open>simp_all add: restInv_def\<close>)
  then have c1inv: "restInv V c1" using inv by (simp add: restInv_def c1_def)
  have l1: "loose c c1" unfolding c1_def by (rule loose_updOwner) simp
  have c1f: "current c1 = current c" "blockers c1 = blockers c" "signerIdentity c1 = signerIdentity c"
    "broadcastPermit c1 = broadcastPermit c"
    by (simp_all add: c1_def)
  have t1: "Thr e (c1, v)" "Thr e (c, v)" for e v
    using c1inv l1 c1f inv by (auto intro: T)
  define c2 where "c2 = c1\<lparr>broadcastPermit := None, busy := True, recoveryComplete := False,
         inclusionChecksComplete := False\<rparr>"
  have c2f: "frame c1 c2" "current c2 = current c" "blockers c2 = blockers c"
    "signerIdentity c2 = signerIdentity c"
    by (simp_all add: c2_def c1_def frame_def current_def)
  have body: "wp (finallyDo
       (onThrow (case current c1 of
            Missing \<Rightarrow> recoverMissing E C anch cy
          | Present s \<Rightarrow> recoverPresent E C s anch rng cy)
          (\<lambda>(c, w). (dropPendingIfIdle (c\<lparr>recoveryComplete := False\<rparr>), w)))
       (leave E cy ReconcileAttemptOp)) Q Thr (c2, w)"
    if pend: "pendingWrite c1 = None \<and> persistenceIdle c1"
  proof -
    have rd: "ready V c2"
      using w1 workInv_revoked(3) [OF w1] pend
      by (simp add: c2_def ready_def revokeActionAuthorization_def persistenceIdle_def)
        (cases "stateValue (persistence c1)"; simp add: inv_defs current_def policyCovers_def)
    have fin: "wp (leave E cy ReconcileAttemptOp) (\<lambda>_. Q r) Thr (d, v)"
      if d: "workInv V d" "frame c2 d" "recoveryEffect C anch rng c2 r d" "\<not> inclusionChecksComplete d" for r d v
    proof (rule wp_leave [OF d(1)])
      fix d' v'
      assume d': "restInv V d'" "frame d d'" "authKept d d'" "blockers d' = blockers d"
      have "frame c1 d'" using c2f(1) d(2) d'(2) by (meson frame_trans)
      then have l: "loose c d'" using l1 frame_loose loose_trans by blast
      show "Q r (d', v')"
      proof (rule Q [OF d'(1) l])
        show "recoveryEffect C anch rng c r d'"
          by (rule recoveryEffect_cong [OF d(3)])
            (use c2f d' authKept_current [OF d'(3)] in \<open>simp_all add: authKept_def\<close>)
        show "\<not> inclusionChecksComplete d'" using d(4) d'(3) by (simp add: authKept_def)
      qed
    qed
    have thr: "wp (leave E cy ReconcileAttemptOp) (\<lambda>_. Thr e) Thr
         (case (d, v) of (c, w) \<Rightarrow> (dropPendingIfIdle (c\<lparr>recoveryComplete := False\<rparr>), w))"
      if "cleaned V c2 (dropPendingIfIdle (d\<lparr>recoveryComplete := False\<rparr>))" for e d v
    proof -
      have cl: "workInv V (dropPendingIfIdle (d\<lparr>recoveryComplete := False\<rparr>))"
        "frame c2 (dropPendingIfIdle (d\<lparr>recoveryComplete := False\<rparr>))"
        "current (dropPendingIfIdle (d\<lparr>recoveryComplete := False\<rparr>)) = current c2"
        "broadcastPermit (dropPendingIfIdle (d\<lparr>recoveryComplete := False\<rparr>)) = None"
        using that by (simp_all add: cleaned_def)
      show ?thesis unfolding prod.case
      proof (rule wp_leave [OF cl(1)])
        fix d' v'
        assume d': "restInv V d'" "frame (dropPendingIfIdle (d\<lparr>recoveryComplete := False\<rparr>)) d'"
          "authKept (dropPendingIfIdle (d\<lparr>recoveryComplete := False\<rparr>)) d'"
        have "frame c1 d'" using c2f(1) cl(2) d'(2) by (meson frame_trans)
        then have "loose c d'" using l1 frame_loose loose_trans by blast
        then show "Thr e (d', v')"
          by (rule T [OF d'(1)])
            (use d' cl c2f authKept_current [OF d'(3)] in \<open>simp_all add: authKept_def\<close>)
      qed
    qed
    show ?thesis
    proof (cases "current c1")
      case Missing
      then have cur: "current c2 = Missing" using c1f c2f by simp
      have "wp (recoverMissing E C anch cy)
          (\<lambda>r t. wp (leave E cy ReconcileAttemptOp) (\<lambda>_. Q r) Thr t)
          (\<lambda>e t. wp (leave E cy ReconcileAttemptOp) (\<lambda>_. Thr e) Thr
             (case t of (c, w) \<Rightarrow> (dropPendingIfIdle (c\<lparr>recoveryComplete := False\<rparr>), w))) (c2, w)"
        by (rule recoverMissing_wp [OF rd V cur], rule fin)
          (simp_all add: recoveryEffect_def cur thr [unfolded prod.case])
      then show ?thesis by (simp only: Missing TransactionJournalRead.case wp_finallyDo wp_onThrow)
    next
      case (Present s)
      then have cur: "current c2 = Present s" using c1f c2f by simp
      have "wp (recoverPresent E C s anch rng cy)
          (\<lambda>r t. wp (leave E cy ReconcileAttemptOp) (\<lambda>_. Q r) Thr t)
          (\<lambda>e t. wp (leave E cy ReconcileAttemptOp) (\<lambda>_. Thr e) Thr
             (case t of (c, w) \<Rightarrow> (dropPendingIfIdle (c\<lparr>recoveryComplete := False\<rparr>), w))) (c2, w)"
        by (rule recoverPresent_wp [OF rd V cur], rule fin)
          (simp_all add: recoveryEffect_def cur thr [unfolded prod.case] inspectSignerRecovery_ok)
      then show ?thesis by (simp only: Present TransactionJournalRead.case wp_finallyDo wp_onThrow)
    qed
  qed
  show ?thesis
    unfolding recoverOwned_def assertNoPendingWrite_def
    apply (rule wp_seqI, rule wp_workAllowed [rotated], rule t1)
    apply (rule wp_seqI, simp only: wp_upd c1_def [symmetric])
    apply (rule wp_seqI, rule wp_unlessI [rotated], rule t1)
    apply (rule wp_seqI, simp only: wp_readC, rule wp_unlessI [rotated], rule t1)
    apply (simp only: wp_readC, rule wp_seqI, simp only: wp_upd c2_def [symmetric])
    apply (rule body, assumption)
    done
qed


subsection \<open>Inside the inspection\<close>

text \<open>Between operations, with or without an inspection open.\<close>

definition calm :: "viem \<Rightarrow> coordinator \<Rightarrow> bool" where
  "calm V c = (restInv V c \<and> quiet c)"

lemma restInv_active:
  "restInv V c \<Longrightarrow> restInv V (updOwner (\<lambda>i. i\<lparr>ownCycle := cy, ownActiveOperation := True\<rparr>) c)"
  using workInv_updOwner [of "\<lambda>i. i\<lparr>ownCycle := cy, ownActiveOperation := True\<rparr>" V c]
  by (simp add: restInv_def)

lemma off_after_failure:
  assumes "restInv V d" "loose c d"
  shows "calm V (operationOff (failOpenBracket d))" "loose c (operationOff (failOpenBracket d))"
    "current (operationOff (failOpenBracket d)) = current d"
    "broadcastPermit d = None \<Longrightarrow> broadcastPermit (operationOff (failOpenBracket d)) = None"
proof -
  have w: "workInv V d" using assms by (simp add: restInv_def)
  note f = failOpenBracket_kept [OF w]
  have r: "restInv V (failOpenBracket d)" using f assms by (simp add: restInv_def)
  show "calm V (operationOff (failOpenBracket d))" using operationOff_inv [OF r] by (simp add: calm_def)
  show "loose c (operationOff (failOpenBracket d))"
    using assms(2) f(2) operationOff_inv(2) [OF r] by (blast intro: loose_trans)
  show "current (operationOff (failOpenBracket d)) = current d"
    "broadcastPermit d = None \<Longrightarrow> broadcastPermit (operationOff (failOpenBracket d)) = None"
    using f(3,5) by simp_all
qed

lemma recoverInspection_wp:
  fixes w :: 'w
  assumes inv: "calm V c" and V: "V = envViem E"
    and Q: "\<And>r d v. calm V d \<Longrightarrow> loose c d \<Longrightarrow> recoveryEffect C anch rng c r d \<Longrightarrow> Q r (d, v)"
    and T: "\<And>e d v. calm V d \<Longrightarrow> loose c d \<Longrightarrow> current d = current c \<Longrightarrow> Thr e (d, v)"
  shows "wp (recoverInspection E C anch rng g cy) Q Thr (c, w)"
  unfolding recoverInspection_def
proof (rule wp_runInspection)
  show "Thr e (c, w)" for e by (rule T) (use inv in simp_all)
  fix c1
  assume c1: "c1 = updOwner (\<lambda>i. i\<lparr>ownCycle := cy, ownActiveOperation := True\<rparr>) c"
  have r: "restInv V c1" unfolding c1 using inv by (intro restInv_active) (simp add: calm_def)
  have l: "loose c c1" unfolding c1 by (rule loose_updOwner) simp
  have f: "current c1 = current c" "blockers c1 = blockers c" "signerIdentity c1 = signerIdentity c"
    by (simp_all add: c1)
  show "wp (recoverOwned E C anch rng g cy) (\<lambda>r (d, v). Q r (operationOff d, v))
      (\<lambda>e (d, v). Thr e (operationOff (failOpenBracket d), v)) (c1, w)"
  proof (rule recoverOwned_wp [OF r V], unfold prod.case)
    fix r' d v
    assume d: "restInv V d" "loose c1 d" "recoveryEffect C anch rng c1 r' d"
    show "Q r' (operationOff d, v)"
    proof (rule Q)
      show "calm V (operationOff d)" using operationOff_inv [OF d(1)] by (simp add: calm_def)
      show "loose c (operationOff d)"
        using l d(2) operationOff_inv(2) [OF d(1)] by (blast intro: loose_trans)
      show "recoveryEffect C anch rng c r' (operationOff d)"
        by (rule recoveryEffect_cong [OF d(3)]) (simp_all add: f)
    qed
  next
    fix e d v
    assume d: "restInv V d" "loose c1 d" "current d = current c1"
    have "loose c d" using l d(2) by (rule loose_trans)
    note o = off_after_failure [OF d(1) this]
    show "Thr e (operationOff (failOpenBracket d), v)"
      by (rule T [OF o(1,2)]) (use o(3) d(3) f in simp)
  qed
qed

lemma openHead_wp:
  fixes w :: 'w
  assumes inv: "calm V c"
    and Q: "\<And>r d v. calm V d \<Longrightarrow> loose c d \<Longrightarrow> current d = current c \<Longrightarrow>
      (broadcastPermit d = broadcastPermit c \<or> broadcastPermit d = None) \<Longrightarrow>
      (r = None \<longrightarrow> bracketOf d = BracketOpen (clientId C) head) \<Longrightarrow>
      (r \<noteq> None \<longrightarrow> bracketOf d = BracketFailed) \<Longrightarrow> Q r (d, v)"
    and T: "\<And>e d v. calm V d \<Longrightarrow> loose c d \<Longrightarrow> current d = current c \<Longrightarrow> Thr e (d, v)"
  shows "wp (openHead C head g) Q Thr (c, w)"
  unfolding openHead_def
proof (rule wp_runInspection)
  show "Thr e (c, w)" for e by (rule T) (use inv in simp_all)
  fix c1
  assume c1: "c1 = updOwner (\<lambda>i. i\<lparr>ownCycle := None, ownActiveOperation := True\<rparr>) c"
    and allowed: "workAllowed c1 g"
  have r: "restInv V c1" unfolding c1 using inv by (intro restInv_active) (simp add: calm_def)
  have l: "loose c c1" unfolding c1 by (rule loose_updOwner) simp
  have step: "restInv V (setBracket b d) \<and> loose c (setBracket b d) \<and> current (setBracket b d) = current c
      \<and> broadcastPermit (setBracket b d) = broadcastPermit d"
    if "restInv V d" "loose c d" "current d = current c" for b d
    using that workInv_updOwner [of "\<lambda>i. i\<lparr>ownHeadBracket := b\<rparr>" V d]
      loose_trans [OF that(2) loose_updOwner [of "\<lambda>i. i\<lparr>ownHeadBracket := b\<rparr>"]]
    by (simp add: restInv_def setBracket_def)
  have cc1: "current c1 = current c" "broadcastPermit c1 = broadcastPermit c" by (simp_all add: c1)
  define c2 where "c2 = setBracket BracketFailed c1"
  note s2 = step [OF r l cc1(1), of BracketFailed, folded c2_def]
  note s3 = step [of c2]
  have fails: "Thr e (operationOff (failOpenBracket d), v)"
    if "restInv V d" "loose c d" "current d = current c" for e d v
    using off_after_failure [OF that(1,2)] that(3) by (intro T) simp_all
  have own: "inspectionOwner c1 \<noteq> None" using allowed by (cases "inspectionOwner c1") (simp_all add: workAllowed_def isOwner_def)
  have br: "bracketOf (operationOff c2) = BracketFailed"
    "bracketOf (operationOff (setBracket b c2)) = b" for b
    using own by (auto simp: bracketOf_def c2_def setBracket_def)
  have good: "Q r (operationOff d, v)"
    if "restInv V d" "loose c d" "current d = current c" "broadcastPermit d = broadcastPermit c"
      "r = None \<longrightarrow> bracketOf (operationOff d) = BracketOpen (clientId C) head"
      "r \<noteq> None \<longrightarrow> bracketOf (operationOff d) = BracketFailed" for r d v
    using operationOff_inv [OF that(1)] that
    by (intro Q) (auto simp: calm_def intro: loose_trans)
  show "wp (openInspectionHeadOwned C head g) (\<lambda>r (d, v). Q r (operationOff d, v))
      (\<lambda>e (d, v). Thr e (operationOff (failOpenBracket d), v)) (c1, w)"
    unfolding openInspectionHeadOwned_def
    apply (rule wp_seqI, rule wp_workAllowed [rotated], simp only: prod.case, rule fails [OF r l cc1(1)])
    apply (simp only: wp_readC, rule wp_seqI, rule wp_unlessI [rotated])
     apply (simp only: prod.case, rule fails [OF r l cc1(1)])
    apply (rule wp_seqI, simp only: wp_upd c2_def [symmetric])
    apply (rule wp_seqI, rule wp_unlessI [rotated], simp only: prod.case, rule fails, (use s2 in blast)+)
    apply (rule wp_seqI, rule wp_world [rotated], simp only: prod.case, rule fails, (use s2 in blast)+)
    subgoal for x v
      apply (cases x)
       apply (simp add: wp_simps)
      subgoal by (rule good) (use s2 s3 cc1 br in auto)
      subgoal by (simp add: wp_simps, rule good) (use s2 cc1 br in auto)
      done
    done
qed


subsection \<open>Operations that open an inspection of their own\<close>

lemma loose_owner: "loose d e \<Longrightarrow> isOwner d g \<Longrightarrow> isOwner e g"
  by (cases "inspectionOwner d"; cases "inspectionOwner e") (simp_all add: loose_def isOwner_def)

lemma journalKept_current: "journalKept e d \<Longrightarrow> current d = current e"
  by (simp add: journalKept_def current_def)

lemma quiet_none [simp]: "inspectionOwner d = None \<Longrightarrow> quiet d"
  by (simp add: quiet_def)

lemma inOwnInspection_wp:
  fixes w :: 'w
  assumes inv: "calm V c"
    and oper: "\<And>d u. calm V d \<Longrightarrow> current d = current c \<Longrightarrow> blockers d = blockers c \<Longrightarrow>
      signerIdentity d = signerIdentity c \<Longrightarrow>
      wp (oper (inspectionGeneration c + 1)) (\<lambda>r (e, v). calm V e \<and> loose d e \<and> P r e)
        (\<lambda>_ (e, v). calm V e \<and> loose d e \<and> current e = current c) (d, u)"
    and Q: "\<And>r e d v. calm V d \<Longrightarrow> inspectionOwner d = None \<Longrightarrow> P r e \<Longrightarrow> journalKept e d \<Longrightarrow>
      broadcastPermit d = broadcastPermit e \<Longrightarrow> inclusionChecksComplete d = inclusionChecksComplete e \<Longrightarrow>
      steady c d \<Longrightarrow> Q r (d, v)"
    and T1: "\<And>e. Thr e (c, w)"
    and T2: "\<And>x d v. calm V d \<Longrightarrow> inspectionOwner d = None \<Longrightarrow> broadcastPermit d = None \<Longrightarrow>
      current d = current c \<or> (\<exists>r e. P r e \<and> journalKept e d) \<Longrightarrow>
      steady c d \<Longrightarrow> Thr x (d, v)"
  shows "wp (inOwnInspection E oper) Q Thr (c, w)"
  unfolding inOwnInspection_def
proof (rule wp_seqI, rule beginInspection_wp)
  show "restInv V c" using inv by (simp add: calm_def)
  show "Thr e (c, w)" for e by (rule T1)
  fix d
  let ?g = "inspectionGeneration c + 1"
  assume d: "restInv V d" "quiet d" "current d = current c" "isOwner d ?g"
    "signerIdentity d = signerIdentity c" "capacity d = capacity c" "blockers d = blockers c"
  have giveUp: "wp (andThen (abandonInspection E ?g) (\<lambda>_. throw x)) Q Thr (e, v)"
    if e: "calm V e" "loose d e" "current e = current c \<or> (\<exists>r. P r e)" for e v x
    unfolding abandonInspection_def
  proof (rule wp_seqI, rule wp_seqI, rule requestAbandon_wp)
    show "restInv V e" "quiet e" using e(1) by (simp_all add: calm_def)
    note own = loose_owner [OF e(2) d(4)]
    show "Thr y (e, v)" if "\<not> isOwner e ?g" for y using own that by simp
    fix e1
    assume e1: "restInv V e1" "journalKept e e1" "isOwner e1 ?g"
    show "wp (completeAbandonment E ?g) (\<lambda>_. wp (throw x) Q Thr) Thr (e1, v)"
    proof (rule completeAbandonment_wp [OF e1(1)])
      show "Thr y (e1, v)" if "\<not> isOwner e1 ?g" for y using e1 that by simp
      fix e2 v2
      assume e2: "restInv V e2" "inspectionOwner e2 = None" "journalKept e1 e2" "broadcastPermit e2 = None"
      have k: "journalKept e e2" using e1(2) e2(3) by (simp add: journalKept_def)
      then have c2: "current e2 = current e" by (simp add: journalKept_def current_def)
      have "Thr x (e2, v2)"
      proof (rule T2)
        show "calm V e2" "inspectionOwner e2 = None" "broadcastPermit e2 = None"
          using e2 by (simp_all add: calm_def)
        show "current e2 = current c \<or> (\<exists>r e. P r e \<and> journalKept e e2)"
          using e(3) k c2 by auto
        show "steady c e2"
          using k e(2) d by (simp add: journalKept_def loose_def steady_def)
      qed
      then show "wp (throw x) Q Thr (e2, v2)" by (simp only: wp_throw)
    qed
  qed
  have d': "calm V d" using d by (simp add: calm_def)
  show "wp (tryCatch (andThen (oper ?g) (\<lambda>r. andThen (finishInspection E ?g) (\<lambda>_. ret r)))
       (\<lambda>e. andThen (abandonInspection E ?g) (\<lambda>_. throw e))) Q Thr (d, w)"
    unfolding wp_tryCatch
  proof (rule wp_seqI, rule wp_mono [OF oper [OF d' d(3,7,5)]]; unfold split_beta; (elim conjE)?)
    fix r and t :: "'w cstate"
    assume t: "calm V (fst t)" "loose d (fst t)" "P r (fst t)"
    obtain e v where tt: "t = (e, v)" by (cases t)
    show "wp (andThen (finishInspection E ?g) (\<lambda>_. ret r)) Q
        (\<lambda>e. wp (andThen (abandonInspection E ?g) (\<lambda>_. throw e)) Q Thr) t"
      unfolding tt
    proof (rule wp_seqI, rule finishInspection_wp)
      show "restInv V e" using t(1) tt by (simp add: calm_def)
      show "wp (andThen (abandonInspection E ?g) (\<lambda>_. throw x)) Q Thr (e, v)" for x
        by (rule giveUp) (use t tt in auto)
      fix d2 v2
      assume d2: "restInv V d2" "inspectionOwner d2 = None" "journalKept e d2"
        "broadcastPermit d2 = broadcastPermit e \<and> inclusionChecksComplete d2 = inclusionChecksComplete e"
      have "Q r (d2, v2)"
      proof (rule Q)
        show "calm V d2" "inspectionOwner d2 = None" using d2 by (simp_all add: calm_def)
        show "P r e" using t tt by simp
        show "journalKept e d2" "broadcastPermit d2 = broadcastPermit e"
          "inclusionChecksComplete d2 = inclusionChecksComplete e" using d2 by simp_all
        show "steady c d2"
          using d2(3) t(2) d tt by (simp add: journalKept_def loose_def steady_def)
      qed
      then show "wp (ret r) Q (\<lambda>e. wp (andThen (abandonInspection E ?g) (\<lambda>_. throw e)) Q Thr) (d2, v2)"
        by (simp only: wp_ret)
    qed
  next
    fix x and t :: "'w cstate"
    assume t: "calm V (fst t)" "loose d (fst t)" "current (fst t) = current c"
    show "wp (andThen (abandonInspection E ?g) (\<lambda>_. throw x)) Q Thr t"
      using giveUp [of "fst t" x "snd t"] t by simp
  qed
qed

lemma recover_wp:
  fixes w :: 'w
  assumes inv: "calm V c" and V: "V = envViem E"
    and Q: "\<And>r d v. calm V d \<Longrightarrow> inspectionOwner d = None \<Longrightarrow> recoveryEffect C anch rng c r d \<Longrightarrow>
      steady c d \<Longrightarrow> Q r (d, v)"
    and T1: "\<And>e. Thr e (c, w)"
    and T2: "\<And>x d v. calm V d \<Longrightarrow> inspectionOwner d = None \<Longrightarrow> broadcastPermit d = None \<Longrightarrow>
      current d = current c \<or> (\<exists>r e. recoveryEffect C anch rng c r e \<and> current d = current e) \<Longrightarrow>
      steady c d \<Longrightarrow> Thr x (d, v)"
  shows "wp (recover E C anch rng cy) Q Thr (c, w)"
  unfolding recover_def
proof (rule inOwnInspection_wp [OF inv, where P = "recoveryEffect C anch rng c"])
  show "Thr e (c, w)" for e by (rule T1)
  show "wp (recoverInspection E C anch rng (inspectionGeneration c + 1) cy)
      (\<lambda>r (e, v). calm V e \<and> loose d e \<and> recoveryEffect C anch rng c r e)
      (\<lambda>_ (e, v). calm V e \<and> loose d e \<and> current e = current c) (d, u)"
    if d: "calm V d" "current d = current c" "blockers d = blockers c" "signerIdentity d = signerIdentity c"
    for d and u :: 'w
  proof (rule recoverInspection_wp [OF d(1) V])
    fix r e and v :: 'w
    assume e: "calm V e" "loose d e" "recoveryEffect C anch rng d r e"
    then show "case (e, v) of (e, v) \<Rightarrow> calm V e \<and> loose d e \<and> recoveryEffect C anch rng c r e"
      using recoveryEffect_cong [OF e(3), of c e] d by simp
  qed (use d in auto)
next
  fix r e d v
  assume a: "calm V d" "inspectionOwner d = None" "recoveryEffect C anch rng c r e" "journalKept e d"
    "broadcastPermit d = broadcastPermit e" "steady c d"
  have "recoveryEffect C anch rng c r d"
    by (rule recoveryEffect_cong [OF a(3)]) (use a in \<open>simp_all add: journalKept_def current_def\<close>)
  with a show "Q r (d, v)" by (intro Q)
next
  fix x d v
  assume a: "calm V d" "inspectionOwner d = None" "broadcastPermit d = None"
    "current d = current c \<or> (\<exists>r e. recoveryEffect C anch rng c r e \<and> journalKept e d)"
    "steady c d"
  then show "Thr x (d, v)" using journalKept_current by (intro T2) blast+
qed

end
