(* ===== verification/InclusionProofs.thy ===== *)
theory InclusionProofs
  imports RecoveryProofs
begin

text \<open>
  Inclusion checks: the journal they commit is the one the inspection justifies, attempts keep their
  identity and signed bytes, and the check is complete only when every attempt is confirmed included.
\<close>

definition inclusionSeen :: "coordinator \<Rightarrow> TransactionJournalSnapshot \<Rightarrow> AnchoredNonceObservation \<Rightarrow>
    AnchoredNonceObservation" where
  "inclusionSeen c s obs =
     (if UnattributedSignerActivity \<in> blockers c \<and> obsNonce obs < obsNonce (lastObservation s)
      then lastObservation s else obs)"

fun inclusionEffect ::
  "'w chain_client \<Rightarrow> BlockAnchor \<Rightarrow> coordinator \<Rightarrow> TransactionJournalSnapshot \<Rightarrow>
   SignerInclusionInspection \<Rightarrow> coordinator \<Rightarrow> bool" where
  "inclusionEffect C head c s (Inspected obs as allDone bid) d =
     (inclusionsOk C s head obs as allDone bid \<and>
      current d = Present (s\<lparr>lastObservation := inclusionSeen c s obs, attempts := as\<rparr>) \<and>
      inclusionChecksComplete d = allDone \<and>
      (\<forall>b. broadcastPermit d = Some b \<longrightarrow> bid = Some b \<and> recoveryComplete d \<and> blockers d = {}))"
| "inclusionEffect C head c s r d =
     (current d = Present s \<and> \<not> inclusionChecksComplete d \<and> broadcastPermit d = None)"

lemma sameCore_bytes: "list_all2 sameCore as bs \<Longrightarrow> allSignedBytes as = allSignedBytes bs"
proof (induction rule: list_all2_induct)
  case (Cons a as b bs)
  then show ?case by (simp add: allSignedBytes_def sameCore_def)
qed (simp add: allSignedBytes_def)

lemma inclusions_core:
  assumes "inclusionsOk C s head obs as allDone bid"
  shows "list_all2 sameCore as (attempts s)"
proof -
  have "list_all2 (inclusionStep C (signer (identity s)) head) (attempts s) as"
    using assms by (simp add: inclusionsOk_def)
  then have "list_all2 sameCore (attempts s) as"
    by (rule list_all2_mono) (rule inclusionStep_core)
  then show ?thesis using sameCore_sym by (simp add: list_all2_conv_all_nth)
qed

lemma inclusions_evolves:
  "inclusionsOk C s head obs as allDone bid \<Longrightarrow>
    evolves (Present s) (Present (s\<lparr>lastObservation := seen, attempts := as\<rparr>))"
  by (rule evolves_pointwise) (simp_all add: inclusions_core)

lemma inclusions_covers:
  assumes "inclusionsOk C s head obs as allDone bid" "policyCovers c (attempts s)"
  shows "policyCovers c as"
proof (rule policyCovers_sub [OF assms(2)])
  note core = inclusions_core [OF assms(1)]
  show "set (allSignedBytes as) \<subseteq> set (allSignedBytes (attempts s))"
    using sameCore_bytes [OF core] by simp
  show "attempts s = [] \<Longrightarrow> as = []" using core by simp
qed

lemma inclusions_complete:
  "inclusionsOk C s head obs as True bid \<Longrightarrow> list_all isIncluded as"
  using verifiedAt_included by (auto simp: inclusionsOk_def list_all_iff)

lemma inspectInBracket_ok:
  assumes "inspectInBracket C s head m b (c, w) = (Inr (Inspected obs as allDone bid), t)"
  shows "inclusionsOk C s head obs as allDone bid"
  using assms inspectInternal_ok
  by (cases b) (auto simp: inspectInBracket_def andThen_Inr inspectSignerInclusions_def
      inspectSignerInclusionsWithinPass_def)

lemma wp_inspectInBracket:
  assumes "\<And>r v. (\<And>obs as allDone bid. r = Inspected obs as allDone bid \<Longrightarrow>
      inclusionsOk C s head obs as allDone bid) \<Longrightarrow> Q r (c, v)"
    and "\<And>e v. Thr e (c, v)"
  shows "wp (inspectInBracket C s head m b) Q Thr (c, w)"
proof (rule wpI)
  have st: "inspectInBracket C s head m b (c, w) = (r, t) \<Longrightarrow> fst t = c" for r t
    by (cases b) (auto simp: inspectInBracket_def andThen_def onWorld_def unlessThrow_def ret_def throw_def
        split: prod.splits sum.splits if_splits)
  fix r t
  assume r: "inspectInBracket C s head m b (c, w) = (Inr r, t)"
  then have "t = (c, snd t)" using st by (cases t) fastforce
  then show "Q r t" using assms(1) [of r "snd t"] inspectInBracket_ok r by metis
next
  have st: "inspectInBracket C s head m b (c, w) = (r, t) \<Longrightarrow> fst t = c" for r t
    by (cases b) (auto simp: inspectInBracket_def andThen_def onWorld_def unlessThrow_def ret_def throw_def
        split: prod.splits sum.splits if_splits)
  fix e t
  assume r: "inspectInBracket C s head m b (c, w) = (Inl e, t)"
  then have "t = (c, snd t)" using st by (cases t) fastforce
  then show "Thr e t" using assms(2) by metis
qed

lemma workInv_bracket:
  assumes "workInv V c"
  shows "workInv V (setBracket b c)" "loose c (setBracket b c)"
  using workInv_updOwner [of "\<lambda>i. i\<lparr>ownHeadBracket := b\<rparr>" V c] assms
    loose_updOwner [of "\<lambda>i. i\<lparr>ownHeadBracket := b\<rparr>" c]
  by (simp_all add: setBracket_def)

lemma failBracket_kept:
  assumes "ready V c"
  shows "workInv V (failBracket b c)" "loose c (failBracket b c)" "current (failBracket b c) = current c"
    "broadcastPermit (failBracket b c) = None" "\<not> inclusionChecksComplete (failBracket b c)"
proof -
  have w: "workInv V c" "broadcastPermit c = None" "\<not> inclusionChecksComplete c"
    using assms by (simp_all add: ready_def)
  note s = workInv_bracket [OF w(1), of BracketFailed]
  define x where "x = revokeActionAuthorization (setBracket BracketFailed c)"
  have "workInv V x" unfolding x_def by (rule workInv_revoked(3) [OF s(1)])
  moreover have "loose c x" unfolding x_def using s(2) revoke_fields(5) by (rule loose_trans)
  moreover have "current x = current c" by (simp add: x_def setBracket_def)
  moreover have "broadcastPermit x = None" "\<not> inclusionChecksComplete x"
    by (simp_all add: x_def revokeActionAuthorization_def)
  moreover have fb: "failBracket b c = (if isOpenBracket b then x else c)"
    unfolding failBracket_def x_def by (rule refl)
  ultimately show "workInv V (failBracket b c)" "loose c (failBracket b c)"
    "current (failBracket b c) = current c" "broadcastPermit (failBracket b c) = None"
    "\<not> inclusionChecksComplete (failBracket b c)"
    unfolding fb using w by simp_all
qed

lemma permitAfterInclusions_inv:
  assumes d: "restInv V d" "current d = Present t" "pendingWrite d = None" "broadcastPermit d = None"
  shows "restInv V (d\<lparr>broadcastPermit := permitAfterInclusions t bid d\<rparr>) \<and>
    (\<forall>b. permitAfterInclusions t bid d = Some b \<longrightarrow> bid = Some b \<and> recoveryComplete d \<and> blockers d = {})"
proof (cases "permitAfterInclusions t bid d")
  case None
  have "d\<lparr>broadcastPermit := None\<rparr> = d" using d(4) by (cases d) simp
  then show ?thesis using d(1) by (simp only: None) simp
next
  case (Some b)
  then obtain a where o: "oldestUnresolved t = Some a"
    using d(4) by (cases "oldestUnresolved t") (simp_all add: permitAfterInclusions_def)
  have a: "b = attemptId a" "bid = Some (attemptId a)" "recoveryComplete d" "blockers d = {}"
    using Some d(4) unfolding permitAfterInclusions_def o option.case
    by (simp_all only: split: if_split_asm) simp_all
  have "permitAfterInclusions t bid d = Some (attemptId a)" using Some a(1) by simp
  then show ?thesis using workInv_permit [OF d(1,2) o d(3)] a by simp
qed


lemma wp_closingCheck:
  assumes "\<And>x v. Q x (c, v)" and "\<And>e v. Thr e (c, v)"
  shows "wp (closingCheck C b) Q Thr (c, w)"
  using assms by (cases b) (auto simp: closingCheck_def wp_simps intro!: wpI)

lemma inclusionsBody_wp:
  fixes w :: 'w
  assumes rd: "ready V c" and V: "V = envViem E" and cur: "current c = Present s"
    and Q: "\<And>r d v. workInv V d \<Longrightarrow> loose c d \<Longrightarrow> inclusionEffect C head c s r d \<Longrightarrow> Q r (d, v)"
    and T: "\<And>e d v. cleaned V c (dropPendingIfIdle (d\<lparr>inclusionChecksComplete := False\<rparr>)) \<Longrightarrow> Thr e (d, v)"
  shows "wp (inclusionsBody E C s head m cy) Q Thr (c, w)"
proof -
  note clean = cleaned_refused [OF rd]
  define b where "b = bracketOf c"
  have rf: "pendingWrite c = None" "broadcastPermit c = None" "\<not> inclusionChecksComplete c" "workInv V c"
    using rd by (simp_all add: ready_def)
  have refused: "Thr e (c, v)" "Thr e (c\<lparr>pendingWrite := p\<rparr>, v)" for e p v
    using clean by (auto intro: T)
  note fb = failBracket_kept [OF rd, of b]
  have failed: "Q r (d, v)" if r: "\<And>obs as allDone bid. r \<noteq> Inspected obs as allDone bid"
      and d: "d = failBracket b c \<or> d = (failBracket b c)\<lparr>recoveryComplete := False\<rparr>" for r d v
  proof (rule Q)
    show "workInv V d" using d fb(1) by auto
    show "loose c d" using d fb(2) by (auto simp: loose_def)
    have "current d = Present s" "\<not> inclusionChecksComplete d" "broadcastPermit d = None"
      using d fb(3-5) cur by (auto simp: current_def)
    then show "inclusionEffect C head c s r d" using r
      by (cases r; simp only: inclusionEffect.simps; blast)
  qed
  have commit: "wp (andThen (onPersistence (savePersistence (envViem E) (envStore E) t)) (\<lambda>_.
       andThen (upd (\<lambda>c. c\<lparr>inclusionChecksComplete := allDone\<rparr>)) (\<lambda>_. andThen (finishWrite E cy) (\<lambda>_.
       andThen (upd (\<lambda>c. c\<lparr>broadcastPermit := permitAfterInclusions t bid c\<rparr>)) (\<lambda>_.
       andThen (upd (\<lambda>c. if isOpenBracket b then setBracket BracketClosed c else c)) (\<lambda>_.
         ret (Inspected obs as allDone bid))))))) Q Thr (c\<lparr>pendingWrite := Some PendingObservation\<rparr>, v)"
    if ok: "inclusionsOk C s head obs as allDone bid"
      and t: "t = s\<lparr>lastObservation := inclusionSeen c s obs, attempts := as\<rparr>" for obs as allDone bid t v
  proof (rule wp_commit [OF ready_writable [OF rd] V, where r = "recoveryComplete c" and i = allDone])
    let ?c = "c\<lparr>pendingWrite := Some PendingObservation\<rparr>"
    show "policyCovers ?c (attempts t)"
      using inclusions_covers [OF ok ready_covers [OF rd cur]] by (simp add: t)
    show "evolves (current ?c) (Present t)"
      using inclusions_evolves [OF ok] cur by (simp add: t current_def)
    show "pendingWrite ?c = Some PendingObservation" by simp
    show "(persisted t ?c)\<lparr>inclusionChecksComplete := allDone\<rparr> =
      (persisted t ?c)\<lparr>recoveryComplete := recoveryComplete c, inclusionChecksComplete := allDone\<rparr>"
      by (cases c) (simp add: persisted_def)
    show "allDone \<longrightarrow> list_all isIncluded (attempts t)"
      using ok inclusions_complete by (auto simp: t)
    show "Thr e (?c, v)" for e by (rule refused)
    show "Thr e (latchedWrite t ?c, u)" if "workInv V (latchedWrite t ?c)" for e u
      using cleaned_latched(2) [OF that] rf by (intro T) (simp add: cleaned_def frame_def current_def)
  next
    let ?c = "c\<lparr>pendingWrite := Some PendingObservation\<rparr>"
    fix d u
    assume d: "restInv V d" "frame ?c d" "current d = Present t" "pendingWrite d = None"
      "broadcastPermit d = None" "recoveryComplete d = recoveryComplete c" "inclusionChecksComplete d = allDone"
    define d1 where "d1 = d\<lparr>broadcastPermit := permitAfterInclusions t bid d\<rparr>"
    note perm = permitAfterInclusions_inv [OF d(1,3,4,5), of bid]
    have w1: "workInv V d1" using perm by (simp add: d1_def restInv_def)
    have l1: "loose c d1" using d(2) by (simp add: d1_def loose_def frame_def)
    have e1: "inclusionEffect C head c s (Inspected obs as allDone bid) d1"
      using ok d perm by (simp add: d1_def t current_def)
    define d2 where "d2 = (if isOpenBracket b then setBracket BracketClosed d1 else d1)"
    have "workInv V d2" using w1 workInv_bracket(1) by (simp add: d2_def)
    moreover have "loose c d2" using l1 workInv_bracket(2) [OF w1] loose_trans unfolding d2_def by (cases "isOpenBracket b") auto
    moreover have "inclusionEffect C head c s (Inspected obs as allDone bid) d2"
      using e1 by (simp add: d2_def setBracket_def)
    ultimately have "Q (Inspected obs as allDone bid) (d2, u)" by (rule Q)
    then show "wp (andThen (upd (\<lambda>c. c\<lparr>broadcastPermit := permitAfterInclusions t bid c\<rparr>)) (\<lambda>_.
       andThen (upd (\<lambda>c. if isOpenBracket b then setBracket BracketClosed c else c)) (\<lambda>_.
         ret (Inspected obs as allDone bid)))) Q Thr (d, u)"
      unfolding wp_andThen wp_upd wp_ret d2_def d1_def .
  qed
  show ?thesis
    unfolding inclusionsBody_def
    apply (simp only: wp_readC Let_def b_def [symmetric])
    apply (rule wp_seqI, rule wp_inspectInBracket [rotated], rule refused)
    subgoal for r v
      apply (cases r; simp only: SignerInclusionInspection.case wp_andThen wp_upd wp_ret)
      subgoal by (cases "inconsistentInclusions r"; rule failed) simp_all
      subgoal by (cases "inconsistentInclusions r"; rule failed) simp_all
      subgoal by (cases "inconsistentInclusions r"; rule failed) simp_all
      subgoal premises prems for obs as allDone bid
      proof -
        have ok: "inclusionsOk C s head obs as allDone bid" using prems by blast
        show ?thesis
          apply (rule wp_closingCheck [rotated], rule refused)
          subgoal for x u
            apply (cases x; simp only: option.case)
            subgoal
              apply (simp only: wp_readC inclusionSeen_def [symmetric])
              apply (rule wp_seqI, rule wp_liftI [rotated], rule refused)
              apply (drule validate_emb_same)
              apply (simp only: wp_andThen [of "upd (\<lambda>c. c\<lparr>pendingWrite := Some PendingObservation\<rparr>)"] wp_upd)
              apply (rule commit [OF ok refl])
              done
            subgoal by (simp only: wp_andThen wp_upd wp_ret, rule failed) simp_all
            done
          done
      qed
      done
    done
qed


lemma inclusionEffect_cong:
  assumes "inclusionEffect C head c s r d" "blockers c' = blockers c" "current d' = current d"
    "inclusionChecksComplete d' = inclusionChecksComplete d" "broadcastPermit d' = broadcastPermit d"
    "recoveryComplete d' = recoveryComplete d" "blockers d' = blockers d"
  shows "inclusionEffect C head c' s r d'"
proof -
  have "inclusionEffect C head c' s r d' = inclusionEffect C head c s r d"
    by (cases r; simp only: inclusionEffect.simps inclusionSeen_def assms(2-7))
  then show ?thesis using assms(1) by (simp only:)
qed

definition checkedEffect ::
  "'w chain_client \<Rightarrow> BlockAnchor \<Rightarrow> coordinator \<Rightarrow> SignerInclusionInspection \<Rightarrow> coordinator \<Rightarrow> bool" where
  "checkedEffect C head c r d = (\<exists>s. current c = Present s \<and> inclusionEffect C head c s r d)"

lemma checkInclusionsOwned_wp:
  fixes w :: 'w
  assumes inv: "restInv V c" and V: "V = envViem E"
    and Q: "\<And>r d v. restInv V d \<Longrightarrow> loose c d \<Longrightarrow> checkedEffect C head c r d \<Longrightarrow> Q r (d, v)"
    and T: "\<And>e d v. restInv V d \<Longrightarrow> loose c d \<Longrightarrow> current d = current c \<Longrightarrow> Thr e (d, v)"
  shows "wp (checkInclusionsOwned E C head m g cy) Q Thr (c, w)"
proof -
  define c1 where "c1 = updOwner (\<lambda>i. i\<lparr>ownHasRunOperation := True\<rparr>) c"
  have w1: "workInv V c1" unfolding c1_def
    by (rule workInv_updOwner) (use inv in \<open>simp_all add: restInv_def\<close>)
  then have c1inv: "restInv V c1" using inv by (simp add: restInv_def c1_def)
  have l1: "loose c c1" unfolding c1_def by (rule loose_updOwner) simp
  have t1: "Thr e (c1, v)" "Thr e (c, v)" for e v
    using c1inv l1 inv by (auto intro: T simp: c1_def)
  define c2 where "c2 = c1\<lparr>broadcastPermit := None, inclusionChecksComplete := False, busy := True\<rparr>"
  have c2f: "loose c c2" "current c2 = current c" "blockers c2 = blockers c"
    using l1 by (simp_all add: c2_def c1_def current_def loose_def)
  have body: "wp (finallyDo (onThrow (inclusionsBody E C s head m cy)
             (\<lambda>(c, w). (dropPendingIfIdle (c\<lparr>inclusionChecksComplete := False\<rparr>), w)))
           (leave E cy ReconcileAttemptOp)) Q Thr (c2, w)"
    if pend: "pendingWrite c1 = None \<and> persistenceIdle c1" and cur1: "current c1 = Present s" for s
  proof -
    have cur: "current c = Present s" "current c2 = Present s" using cur1 c2f by (simp_all add: c1_def)
    have rd: "ready V c2"
      using workInv_revoked(3) [OF w1] pend
      by (simp add: c2_def ready_def revokeActionAuthorization_def persistenceIdle_def)
    have fin: "wp (leave E cy ReconcileAttemptOp) (\<lambda>_. Q r) Thr (d, v)"
      if d: "workInv V d" "loose c2 d" "inclusionEffect C head c2 s r d" for r d v
    proof (rule wp_leave [OF d(1)])
      fix d' v'
      assume d': "restInv V d'" "frame d d'" "authKept d d'" "blockers d' = blockers d"
      have "inclusionEffect C head c s r d'"
        by (rule inclusionEffect_cong [OF d(3)])
          (use c2f d' authKept_current [OF d'(3)] in \<open>simp_all add: authKept_def\<close>)
      then have "checkedEffect C head c r d'" using cur by (simp add: checkedEffect_def)
      moreover have "loose c d'" using c2f(1) d(2) frame_loose [OF d'(2)] by (blast intro: loose_trans)
      ultimately show "Q r (d', v')" using d'(1) by (intro Q)
    qed
    have thr: "wp (leave E cy ReconcileAttemptOp) (\<lambda>_. Thr e) Thr
         (dropPendingIfIdle (d\<lparr>inclusionChecksComplete := False\<rparr>), v)"
      if "cleaned V c2 (dropPendingIfIdle (d\<lparr>inclusionChecksComplete := False\<rparr>))" for e d v
    proof -
      define x where "x = dropPendingIfIdle (d\<lparr>inclusionChecksComplete := False\<rparr>)"
      have cl: "workInv V x" "frame c2 x" "current x = current c2" using that by (simp_all add: cleaned_def x_def)
      show ?thesis unfolding x_def [symmetric]
      proof (rule wp_leave [OF cl(1)])
        fix d' v'
        assume d': "restInv V d'" "frame x d'" "authKept x d'"
        have "loose c d'" using c2f(1) frame_loose [OF cl(2)] frame_loose [OF d'(2)] by (blast intro: loose_trans)
        then show "Thr e (d', v')"
          by (rule T [OF d'(1)]) (use cl c2f authKept_current [OF d'(3)] in simp)
      qed
    qed
    show ?thesis
      unfolding wp_finallyDo wp_onThrow
      by (rule inclusionsBody_wp [OF rd V cur(2)], rule fin) (simp_all add: thr)
  qed
  show ?thesis
    unfolding checkInclusionsOwned_def assertNoPendingWrite_def
    apply (rule wp_seqI, rule wp_workAllowed [rotated], rule t1)
    apply (rule wp_seqI, simp only: wp_upd c1_def [symmetric])
    apply (rule wp_seqI, simp only: wp_readC, rule wp_unlessI [rotated], rule t1)
    apply (simp only: wp_readC)
    apply (cases "current c1"; simp only: TransactionJournalRead.case)
    subgoal by (simp only: wp_throw, rule t1)
    subgoal by (rule wp_seqI, simp only: wp_upd c2_def [symmetric], rule body)
    done
qed

lemma checkInclusionsInspection_wp:
  fixes w :: 'w
  assumes inv: "calm V c" and V: "V = envViem E"
    and Q: "\<And>r d v. calm V d \<Longrightarrow> loose c d \<Longrightarrow> checkedEffect C head c r d \<Longrightarrow> Q r (d, v)"
    and T: "\<And>e d v. calm V d \<Longrightarrow> loose c d \<Longrightarrow> current d = current c \<Longrightarrow> Thr e (d, v)"
  shows "wp (checkInclusionsInspection E C head m g cy) Q Thr (c, w)"
  unfolding checkInclusionsInspection_def
proof (rule wp_runInspection)
  show "Thr e (c, w)" for e by (rule T) (use inv in simp_all)
  fix c1
  assume c1: "c1 = updOwner (\<lambda>i. i\<lparr>ownCycle := cy, ownActiveOperation := True\<rparr>) c"
  have r: "restInv V c1" unfolding c1 using inv by (intro restInv_active) (simp add: calm_def)
  have l: "loose c c1" unfolding c1 by (rule loose_updOwner) simp
  have f: "current c1 = current c" "blockers c1 = blockers c" by (simp_all add: c1)
  show "wp (checkInclusionsOwned E C head m g cy) (\<lambda>r (d, v). Q r (operationOff d, v))
      (\<lambda>e (d, v). Thr e (operationOff (failOpenBracket d), v)) (c1, w)"
  proof (rule checkInclusionsOwned_wp [OF r V], unfold prod.case)
    fix r' d v
    assume d: "restInv V d" "loose c1 d" "checkedEffect C head c1 r' d"
    show "Q r' (operationOff d, v)"
    proof (rule Q)
      show "calm V (operationOff d)" using operationOff_inv [OF d(1)] by (simp add: calm_def)
      show "loose c (operationOff d)"
        using l d(2) operationOff_inv(2) [OF d(1)] by (blast intro: loose_trans)
      show "checkedEffect C head c r' (operationOff d)"
        using d(3) inclusionEffect_cong [of C head c1 _ r' d c "operationOff d"]
        by (auto simp: checkedEffect_def f)
    qed
  next
    fix e d v
    assume d: "restInv V d" "loose c1 d" "current d = current c1"
    have "loose c d" using l d(2) by (rule loose_trans)
    note o = off_after_failure [OF d(1) this]
    show "Thr e (operationOff (failOpenBracket d), v)"
      by (rule T [OF o(1,2)]) (use o(3) d(3) f in simp)
  qed
qed

lemma checkInclusions_wp:
  fixes w :: 'w
  assumes inv: "calm V c" and V: "V = envViem E"
    and Q: "\<And>r d v. calm V d \<Longrightarrow> inspectionOwner d = None \<Longrightarrow> checkedEffect C head c r d \<Longrightarrow>
      steady c d \<Longrightarrow> Q r (d, v)"
    and T1: "\<And>e. Thr e (c, w)"
    and T2: "\<And>x d v. calm V d \<Longrightarrow> inspectionOwner d = None \<Longrightarrow> broadcastPermit d = None \<Longrightarrow>
      current d = current c \<or> (\<exists>r e. checkedEffect C head c r e \<and> current d = current e) \<Longrightarrow>
      steady c d \<Longrightarrow> Thr x (d, v)"
  shows "wp (checkInclusions E C head m cy) Q Thr (c, w)"
  unfolding checkInclusions_def
proof (rule inOwnInspection_wp [OF inv, where P = "checkedEffect C head c"])
  show "Thr e (c, w)" for e by (rule T1)
  show "wp (checkInclusionsInspection E C head m (inspectionGeneration c + 1) cy)
      (\<lambda>r (e, v). calm V e \<and> loose d e \<and> checkedEffect C head c r e)
      (\<lambda>_ (e, v). calm V e \<and> loose d e \<and> current e = current c) (d, u)"
    if d: "calm V d" "current d = current c" "blockers d = blockers c" for d and u :: 'w
  proof (rule checkInclusionsInspection_wp [OF d(1) V])
    fix r e and v :: 'w
    assume e: "calm V e" "loose d e" "checkedEffect C head d r e"
    then show "case (e, v) of (e, v) \<Rightarrow> calm V e \<and> loose d e \<and> checkedEffect C head c r e"
      using d inclusionEffect_cong [of C head d _ r e c e] by (auto simp: checkedEffect_def)
  qed (use d in auto)
next
  fix r e d v
  assume a: "calm V d" "inspectionOwner d = None" "checkedEffect C head c r e" "journalKept e d"
    "broadcastPermit d = broadcastPermit e" "inclusionChecksComplete d = inclusionChecksComplete e"
    "steady c d"
  have "checkedEffect C head c r d"
    using a(3) inclusionEffect_cong [of C head c _ r e c d] a journalKept_current [OF a(4)]
    by (auto simp: checkedEffect_def journalKept_def)
  with a show "Q r (d, v)" by (intro Q)
next
  fix x d v
  assume a: "calm V d" "inspectionOwner d = None" "broadcastPermit d = None"
    "current d = current c \<or> (\<exists>r e. checkedEffect C head c r e \<and> journalKept e d)"
    "steady c d"
  then show "Thr x (d, v)" using journalKept_current by (intro T2) blast+
qed

end
