(* ===== verification/CoordinatorMachine.thy ===== *)
theory CoordinatorMachine
  imports InclusionProofs
begin

text \<open>
  The coordinator as a state machine: the states a run of its public operations can reach, in any
  order and against any chain, store and clock, and what holds of all of them.
\<close>

subsection \<open>Creation\<close>

lemma createCoordinator_calm:
  assumes "createCoordinator E ident cap w = (Inr c, v)"
  shows "calm (envViem E) c \<and> signerIdentity c = ident \<and> inspectionOwner c = None \<and>
    broadcastPermit c = None \<and> \<not> recoveryComplete c"
proof -
  from assms obtain initial u1 p where
    cap: "isPositiveSafeInteger cap" and
    p: "createPersistence (envViem E) ident initial = Inr p" and
    run: "(case refresh E None ReconcileAttemptOp
        (latchExhaustedSearch (latchUnattributedActivity
          (case currentAttempts (currentValue p) of [] \<Rightarrow> freshCoordinator p ident cap
           | a # _ \<Rightarrow> (freshCoordinator p ident cap)
              \<lparr>attemptLog := Some (allSignedBytes (currentAttempts (currentValue p))),
               blockedSince := Some (createdAt a)\<rparr>)), u1) of
           (Inl e, (c, v)) \<Rightarrow> (Inl e, v)
         | (Inr _, (c, v)) \<Rightarrow> (Inr (updateDurableRecoveryRevision c), v)) = (Inr c, v)"
    by (auto simp: createCoordinator_def andThen_Inr Let_def)
  define c1 where "c1 = (case currentAttempts (currentValue p) of [] \<Rightarrow> freshCoordinator p ident cap
           | a # _ \<Rightarrow> (freshCoordinator p ident cap)
              \<lparr>attemptLog := Some (allSignedBytes (currentAttempts (currentValue p))),
               blockedSince := Some (createdAt a)\<rparr>)"
  define c2 where "c2 = latchExhaustedSearch (latchUnattributedActivity c1)"
  note pinv = createPersistence_inv [OF p] createPersistence_fields [OF p]
  have c1f: "persistence c1 = p" "signerIdentity c1 = ident" "capacity c1 = cap" "blockers c1 = {}"
    "\<not> emitting c1" "\<not> busy c1" "inspectionOwner c1 = None" "broadcastPermit c1 = None"
    "\<not> inclusionChecksComplete c1" "\<not> recoveryComplete c1" "pendingWrite c1 = None"
    by (cases "currentAttempts (currentValue p)"; simp add: c1_def freshCoordinator_def)+
  have cov: "policyCovers c1 (attempts s)" if "currentValue p = Present s" for s
    using that by (cases "attempts s") (simp_all add: policyCovers_def c1_def currentAttempts_def)
  have l: "c2 = c1\<lparr>blockers := latchedBlockers c1\<rparr>" unfolding c2_def by (rule latches_eq)
  have "latchInv c2" unfolding c2_def by (rule latches_latchInv)
  moreover have "journalInv (envViem E) c2"
    using pinv c1f cov cap latchedBlockers_bounds(2) [of c1]
    by (auto simp: l journalInv_def persistenceInv_def policyCovers_def current_def)
  moreover have "writeInv (envViem E) c2" "authorityInv c2"
    using pinv c1f by (simp_all add: l writeInv_def authorityInv_def)
  ultimately have c2inv: "restInv (envViem E) c2"
    using c1f by (simp add: restInv_def workInv_def l)
  have fin: "restInv (envViem E) (updateDurableRecoveryRevision d) \<and>
      signerIdentity (updateDurableRecoveryRevision d) = ident \<and>
      inspectionOwner (updateDurableRecoveryRevision d) = None \<and>
      broadcastPermit (updateDurableRecoveryRevision d) = None \<and>
      \<not> recoveryComplete (updateDurableRecoveryRevision d)"
    if "restInv (envViem E) d" "refreshed c2 d" for d
    using that(1) refreshed_frame [OF that(2)] c1f
    by (cases "stateValue (persistence d)")
      (simp_all add: updateDurableRecoveryRevision_def inv_defs current_def policyCovers_def l
        frame_def authKept_def)
  have "wp (refresh E None ReconcileAttemptOp) (\<lambda>_ (d, _). restInv (envViem E) d \<and> refreshed c2 d)
      (\<lambda>_ _. True) (c2, u1)"
    by (rule wp_refresh_inv [OF c2inv]) simp
  with run show ?thesis
    unfolding c1_def [symmetric] c2_def [symmetric]
    using fin by (auto simp: wp_def calm_def split: prod.splits sum.splits)
qed

subsection \<open>Steps\<close>

text \<open>
  What a step lets the outside see: a nonce taken for a new attempt, a transaction handed to the
  network, or neither.
\<close>

datatype label = PreparedStep PreparedAttempt | SentStep PreparedAttempt | QuietStep

text \<open>
  One step of a run: a public operation with any arguments, against any chain client, with any
  outcome; the two parts of an abandonment; the two ends of an observation; or a change of the world
  outside. The operations are total functions, so an operation that is called makes its step.
\<close>

inductive coStep :: "'w coordinator_env \<Rightarrow> 'w cstate \<Rightarrow> label \<Rightarrow> 'w cstate \<Rightarrow> bool" for E where
  prepared: "prepareAttempt E account tx wid cy s = (Inr (Prepared p), t) \<Longrightarrow>
    coStep E s (PreparedStep p) t"
| not_prepared: "prepareAttempt E account tx wid cy s = (r, t) \<Longrightarrow> (\<And>p. r \<noteq> Inr (Prepared p)) \<Longrightarrow>
    coStep E s QuietStep t"
| sent: "broadcastAttempt E C aid cy s = (Inr r, t) \<Longrightarrow> coStep E s (SentStep (sentAttempt r)) t"
| not_sent: "broadcastAttempt E C aid cy s = (Inl e, t) \<Longrightarrow> coStep E s QuietStep t"
| begin_inspection: "beginInspection s = (r, t) \<Longrightarrow> coStep E s QuietStep t"
| open_head: "openHead C head g s = (r, t) \<Longrightarrow> coStep E s QuietStep t"
| owner_recover: "recoverInspection E C anch rng g cy s = (r, t) \<Longrightarrow> coStep E s QuietStep t"
| owner_check: "checkInclusionsInspection E C head m g cy s = (r, t) \<Longrightarrow> coStep E s QuietStep t"
| finish_inspection: "finishInspection E g s = (r, t) \<Longrightarrow> coStep E s QuietStep t"
| request_abandon: "requestAbandon g s = (r, t) \<Longrightarrow> coStep E s QuietStep t"
| complete_abandon: "completeAbandonment E g s = (r, t) \<Longrightarrow> coStep E s QuietStep t"
| recover_step: "recover E C anch rng cy s = (r, t) \<Longrightarrow> coStep E s QuietStep t"
| check_step: "checkInclusions E C head m cy s = (r, t) \<Longrightarrow> coStep E s QuietStep t"
| retry_step: "retryPersistence E cy s = (r, t) \<Longrightarrow> coStep E s QuietStep t"
| observe_begin: "coStep E (c, w) QuietStep (c\<lparr>observationActive := True\<rparr>, w)"
| observe_end: "refresh E cy ReconcileAttemptOp (c\<lparr>observationActive := False\<rparr>, w) = (r, t) \<Longrightarrow>
    coStep E (c, w) QuietStep t"
| world: "coStep E (c, w) QuietStep (c, v)"

text \<open>What every step keeps.\<close>

definition stepKept :: "viem \<Rightarrow> coordinator \<Rightarrow> coordinator \<Rightarrow> bool" where
  "stepKept V c d = (calm V d \<and> steady c d \<and> evolves (current c) (current d))"

lemma stepKept_refl: "calm V c \<Longrightarrow> stepKept V c c"
  by (simp add: stepKept_def)

lemma stepKept_trans: "stepKept V a b \<Longrightarrow> stepKept V b c \<Longrightarrow> stepKept V a c"
  using evolves_trans steady_trans by (auto simp: stepKept_def)

lemma wp_run:
  assumes "wp m (\<lambda>x t. P (fst t)) (\<lambda>e t. P (fst t)) s" "m s = (r, t)"
  shows "P (fst t)"
  using assms by (cases r) (simp_all add: wp_def)

lemma frame_quiet: "calm V c \<Longrightarrow> frame c d \<Longrightarrow> restInv V d \<Longrightarrow> calm V d"
  by (simp add: calm_def quiet_def frame_def)

lemma frame_steady: "frame c d \<Longrightarrow> steady c d"
  by (simp add: frame_def steady_def)

lemma calm_wf: "calm V c \<Longrightarrow> current c = Present s \<Longrightarrow> wfSnapshot (signerIdentity c) s"
  by (rule verified_wf [of V]) (simp add: calm_def inv_defs)

lemma recoveryEffect_evolves:
  assumes "calm V c" "recoveryEffect C anch rng c r d"
  shows "evolves (current c) (current d)"
proof (cases "current c")
  case (Present s)
  then obtain i where "recoveredTo c s i (current d)" using assms(2) by (auto simp: recoveryEffect_def)
  then show ?thesis
    using recoveryUpdate_evolves [OF _ calm_wf [OF assms(1) Present]] Present
    by (auto simp: recoveredTo_def simp del: evolves.simps)
qed simp

lemma checkedEffect_evolves:
  assumes "checkedEffect C head c r d"
  shows "evolves (current c) (current d)"
proof -
  obtain s where s: "current c = Present s" "inclusionEffect C head c s r d"
    using assms by (auto simp: checkedEffect_def)
  show ?thesis
  proof (cases r)
    case (Inspected obs as allDone bid)
    then show ?thesis using s inclusions_evolves by (simp del: evolves.simps) blast
  qed (use s in simp_all)
qed


lemma prepared_evolves:
  assumes "preparedAs V tx wid p c d s a"
  shows "evolves (current c) (current d)"
  using assms core_kept [of _ "attempts s"]
  by (fastforce simp: preparedAs_def appendAttempt_def)

text \<open>The steps without a label of their own.\<close>

lemma quiet_step_kept:
  fixes w :: 'w
  assumes inv: "calm V c" and V: "V = envViem E"
  shows "wp (recover E C anch rng cy) (\<lambda>_ t. stepKept V c (fst t)) (\<lambda>_ t. stepKept V c (fst t)) (c, w)"
    and "wp (checkInclusions E C head m cy) (\<lambda>_ t. stepKept V c (fst t)) (\<lambda>_ t. stepKept V c (fst t)) (c, w)"
    and "wp (recoverInspection E C anch rng g cy) (\<lambda>_ t. stepKept V c (fst t)) (\<lambda>_ t. stepKept V c (fst t)) (c, w)"
    and "wp (checkInclusionsInspection E C head m g cy) (\<lambda>_ t. stepKept V c (fst t)) (\<lambda>_ t. stepKept V c (fst t)) (c, w)"
    and "wp (retryPersistence E cy) (\<lambda>_ t. stepKept V c (fst t)) (\<lambda>_ t. stepKept V c (fst t)) (c, w)"
    and "wp (openHead C head g) (\<lambda>_ t. stepKept V c (fst t)) (\<lambda>_ t. stepKept V c (fst t)) (c, w)"
    and "wp beginInspection (\<lambda>_ t. stepKept V c (fst t)) (\<lambda>_ t. stepKept V c (fst t)) (c, w)"
    and "wp (finishInspection E g) (\<lambda>_ t. stepKept V c (fst t)) (\<lambda>_ t. stepKept V c (fst t)) (c, w)"
    and "wp (requestAbandon g) (\<lambda>_ t. stepKept V c (fst t)) (\<lambda>_ t. stepKept V c (fst t)) (c, w)"
    and "wp (completeAbandonment E g) (\<lambda>_ t. stepKept V c (fst t)) (\<lambda>_ t. stepKept V c (fst t)) (c, w)"
proof -
  note rf = stepKept_refl [OF inv]
  have r: "restInv V c" "quiet c" using inv by (simp_all add: calm_def)
  have eff: "recoveryEffect C anch rng c x d \<Longrightarrow> evolves (current c) (current d)" for C :: "'w chain_client" and anch rng x d
    by (rule recoveryEffect_evolves [OF inv])
  have released: "stepKept V c d"
    if "restInv V d" "inspectionOwner d = None" "journalKept c d" for d
    using that journalKept_current [OF that(3)]
    by (simp add: stepKept_def calm_def steady_def journalKept_def)
  show "wp (recover E C anch rng cy) (\<lambda>_ t. stepKept V c (fst t)) (\<lambda>_ t. stepKept V c (fst t)) (c, w)"
    by (rule recover_wp [OF inv V]) (use rf eff in \<open>auto simp: stepKept_def\<close>)
  show "wp (checkInclusions E C head m cy) (\<lambda>_ t. stepKept V c (fst t)) (\<lambda>_ t. stepKept V c (fst t)) (c, w)"
    by (rule checkInclusions_wp [OF inv V])
      (use rf checkedEffect_evolves in \<open>auto simp: stepKept_def\<close>)
  show "wp (recoverInspection E C anch rng g cy) (\<lambda>_ t. stepKept V c (fst t)) (\<lambda>_ t. stepKept V c (fst t)) (c, w)"
    by (rule recoverInspection_wp [OF inv V]) (use eff loose_steady in \<open>auto simp: stepKept_def\<close>)
  show "wp (checkInclusionsInspection E C head m g cy) (\<lambda>_ t. stepKept V c (fst t)) (\<lambda>_ t. stepKept V c (fst t)) (c, w)"
    by (rule checkInclusionsInspection_wp [OF inv V])
      (use checkedEffect_evolves loose_steady in \<open>auto simp: stepKept_def\<close>)
  show "wp (retryPersistence E cy) (\<lambda>_ t. stepKept V c (fst t)) (\<lambda>_ t. stepKept V c (fst t)) (c, w)"
    by (rule retryPersistence_wp [OF r(1) V])
      (use rf frame_quiet [OF inv] frame_steady in \<open>auto simp: stepKept_def current_def simp del: evolves.simps\<close>)
  show "wp (openHead C head g) (\<lambda>_ t. stepKept V c (fst t)) (\<lambda>_ t. stepKept V c (fst t)) (c, w)"
    by (rule openHead_wp [OF inv]) (use loose_steady in \<open>auto simp: stepKept_def\<close>)
  show "wp beginInspection (\<lambda>_ t. stepKept V c (fst t)) (\<lambda>_ t. stepKept V c (fst t)) (c, w)"
    by (rule beginInspection_wp [OF r(1)]) (use rf in \<open>auto simp: stepKept_def calm_def steady_def\<close>)
  show "wp (finishInspection E g) (\<lambda>_ t. stepKept V c (fst t)) (\<lambda>_ t. stepKept V c (fst t)) (c, w)"
    by (rule finishInspection_wp [OF r(1)]) (use rf released in auto)
  show "wp (requestAbandon g) (\<lambda>_ t. stepKept V c (fst t)) (\<lambda>_ t. stepKept V c (fst t)) (c, w)"
    by (rule requestAbandon_wp [OF r])
      (use rf loose_steady journalKept_current in \<open>auto simp: stepKept_def calm_def\<close>)
  show "wp (completeAbandonment E g) (\<lambda>_ t. stepKept V c (fst t)) (\<lambda>_ t. stepKept V c (fst t)) (c, w)"
    by (rule completeAbandonment_wp [OF r(1)]) (use rf released in auto)
qed

lemma observe_kept:
  fixes w :: 'w
  assumes inv: "calm V c"
  shows "stepKept V c (c\<lparr>observationActive := True\<rparr>)"
    and "wp (refresh E cy oper) (\<lambda>_ t. stepKept V c (fst t)) (\<lambda>_ t. stepKept V c (fst t))
       (c\<lparr>observationActive := False\<rparr>, w)"
proof -
  have r: "restInv V (c\<lparr>observationActive := b\<rparr>)" for b using inv by (simp add: calm_def restInv_def)
  show "stepKept V c (c\<lparr>observationActive := True\<rparr>)"
    using inv r by (simp add: stepKept_def calm_def quiet_def steady_def current_def)
  show "wp (refresh E cy oper) (\<lambda>_ t. stepKept V c (fst t)) (\<lambda>_ t. stepKept V c (fst t))
       (c\<lparr>observationActive := False\<rparr>, w)"
  proof (rule wp_refresh_inv [OF r])
    fix d and v :: 'w
    assume d: "restInv V d" "refreshed (c\<lparr>observationActive := False\<rparr>) d"
    note f = refreshed_frame [OF d(2)]
    then have "frame (c\<lparr>observationActive := False\<rparr>) d" "authKept (c\<lparr>observationActive := False\<rparr>) d"
      by simp_all
    then show "stepKept V c (fst (d, v))"
      using d(1) inv by (simp add: stepKept_def calm_def quiet_def steady_def frame_def authKept_def current_def)
  qed
qed

text \<open>What a labelled step did.\<close>

definition labelOk :: "viem \<Rightarrow> coordinator \<Rightarrow> label \<Rightarrow> coordinator \<Rightarrow> bool" where
  "labelOk V c l d =
     (case l of
        QuietStep \<Rightarrow> True
      | PreparedStep p \<Rightarrow> blockers c = {} \<and> (\<exists>tx wid s a. preparedAs V tx wid p c d s a)
      | SentStep p \<Rightarrow> (\<exists>s a. canBroadcast c \<and> current c = Present s \<and> oldestUnresolved s = Some a \<and>
           p = attemptIdentity a \<and> (\<exists>t b. current d = Present t \<and> oldestUnresolved t = Some b \<and>
             phase b = BroadcastMayHaveOccurred \<and> attemptIdentity b = p)))"

lemma prepare_step:
  fixes w :: 'w
  assumes inv: "calm V c" and V: "V = envViem E"
  shows "wp (prepareAttempt E account tx wid cy)
      (\<lambda>r t. stepKept V c (fst t) \<and> (\<forall>p. r = Prepared p \<longrightarrow> labelOk V c (PreparedStep p) (fst t)))
      (\<lambda>_ t. stepKept V c (fst t)) (c, w)"
proof (rule prepareAttempt_wp [OF _ V, where c = c])
  show "restInv V c" using inv by (simp add: calm_def)
qed (use inv frame_quiet [OF inv] frame_steady prepared_evolves coordinatorGate_open in
    \<open>auto simp: stepKept_def labelOk_def simp del: evolves.simps\<close>)

lemma broadcast_step:
  fixes w :: 'w
  assumes inv: "calm V c" and V: "V = envViem E"
  shows "wp (broadcastAttempt E C aid cy)
      (\<lambda>r t. stepKept V c (fst t) \<and> labelOk V c (SentStep (sentAttempt r)) (fst t))
      (\<lambda>_ t. stepKept V c (fst t)) (c, w)"
proof (rule broadcastAttempt_wp [OF _ V, where c = c])
  show "restInv V c" using inv by (simp add: calm_def)
  show "stepKept V c (fst (c, w))" using stepKept_refl [OF inv] by simp
  show "stepKept V c (fst (d, v))" if "restInv V d" "frame c d" "current d = current c" for d and v :: 'w
    using that frame_quiet [OF inv] frame_steady by (auto simp: stepKept_def)
  fix r d s a and v :: 'w
  assume d: "restInv V d" "frame c d" "canBroadcast c" "current c = Present s"
    "oldestUnresolved s = Some a" "sentAttempt r = attemptIdentity a"
    "current d = Present (if phase a = Signed then markOldestUnresolved s else s)"
  have "evolves (current c) (current d)" using mark_evolves [of s] d by (simp del: evolves.simps)
  moreover have "labelOk V c (SentStep (sentAttempt r)) d"
  proof (cases "phase a = Signed")
    case True
    have "phase (markBroadcast a) = BroadcastMayHaveOccurred" "attemptIdentity (markBroadcast a) = attemptIdentity a"
      by (simp_all add: markBroadcast_def attemptIdentity_def)
    then show ?thesis using d mark_oldest(1) [OF d(5)] True by (auto simp: labelOk_def)
  next
    case False
    have "\<not> isIncluded a" using d(5) find_Some_set by (fastforce simp: oldestUnresolved_def)
    with False have "phase a = BroadcastMayHaveOccurred"
      by (cases "phase a") (simp_all add: isIncluded_def)
    with False d show ?thesis by (auto simp: labelOk_def)
  qed
  ultimately show "stepKept V c (fst (d, v)) \<and> labelOk V c (SentStep (sentAttempt r)) (fst (d, v))"
    using d(1,2) frame_quiet [OF inv] frame_steady by (auto simp: stepKept_def simp del: evolves.simps)
qed

text \<open>Every step keeps the invariant and lets the journal evolve.\<close>

lemma coStep_kept:
  assumes "coStep E s l t" "calm (envViem E) (fst s)"
  shows "stepKept (envViem E) (fst s) (fst t) \<and> labelOk (envViem E) (fst s) l (fst t)"
proof -
  obtain c w where s: "s = (c, w)" by (cases s)
  with assms(2) have inv: "calm (envViem E) c" by simp
  note q = quiet_step_kept [OF inv refl, THEN wp_run]
  have lab [simp]: "labelOk V x QuietStep y" for V x y by (simp add: labelOk_def)
  from assms(1) show ?thesis
  proof cases
    case (prepared account tx wid cy p)
    with wp_Inr [OF prepare_step [OF inv refl]] show ?thesis by (simp add: s)
  next
    case (not_prepared account tx wid cy r)
    with wp_Inr [OF prepare_step [OF inv refl]] wp_Inl [OF prepare_step [OF inv refl]]
    show ?thesis by (cases r) (simp_all add: s)
  next
    case (sent C aid cy r)
    with wp_Inr [OF broadcast_step [OF inv refl]] show ?thesis by (simp add: s)
  next
    case (not_sent C aid cy e)
    with wp_Inl [OF broadcast_step [OF inv refl]] show ?thesis by (simp add: s)
  next
    case (observe_begin c' w')
    with observe_kept(1) [OF inv] show ?thesis by (simp add: s)
  next
    case (observe_end cy c' w' r)
    with wp_run [OF observe_kept(2) [OF inv]] show ?thesis by (simp add: s)
  next
    case (world c' w' v)
    with stepKept_refl [OF inv] show ?thesis by (simp add: s)
  qed (use q in \<open>simp_all add: s\<close>)
qed


subsection \<open>Runs\<close>

inductive coRun :: "'w coordinator_env \<Rightarrow> 'w cstate \<Rightarrow> label list \<Rightarrow> 'w cstate \<Rightarrow> bool" for E where
  stop: "coRun E s [] s"
| step: "coStep E s l t \<Longrightarrow> coRun E t ls u \<Longrightarrow> coRun E s (l # ls) u"

lemma coRun_kept:
  "coRun E s ls t \<Longrightarrow> calm (envViem E) (fst s) \<Longrightarrow> stepKept (envViem E) (fst s) (fst t)"
proof (induction rule: coRun.induct)
  case (stop s)
  then show ?case by (rule stepKept_refl)
next
  case (step s l t ls u)
  from coStep_kept [OF step.hyps(1) step.prems] have "stepKept (envViem E) (fst s) (fst t)" by simp
  moreover from this have "calm (envViem E) (fst t)" by (simp add: stepKept_def)
  ultimately show ?case using step.IH stepKept_trans by blast
qed

lemma coRun_label:
  assumes "coRun E s ls t" "calm (envViem E) (fst s)" "l \<in> set ls"
  shows "\<exists>c d. stepKept (envViem E) (fst s) c \<and> labelOk (envViem E) c l d \<and>
    stepKept (envViem E) d (fst t)"
  using assms
proof (induction rule: coRun.induct)
  case (step s k t ls u)
  from coStep_kept [OF step.hyps(1) step.prems(1)]
  have k: "stepKept (envViem E) (fst s) (fst t)" "labelOk (envViem E) (fst s) k (fst t)" by simp_all
  then have ct: "calm (envViem E) (fst t)" by (simp add: stepKept_def)
  show ?case
  proof (cases "l = k")
    case True
    with step k ct coRun_kept [OF step.hyps(2)] stepKept_refl [OF step.prems(1)] show ?thesis by blast
  next
    case False
    with step.prems(2) have "l \<in> set ls" by simp
    with step.IH [OF ct] k(1) stepKept_trans show ?thesis by blast
  qed
qed simp

text \<open>The nonce the journal gives out next; nonces given out by a run are below the one at its end.\<close>

definition nonceFloor :: "coordinator \<Rightarrow> int" where
  "nonceFloor c = (case current c of Missing \<Rightarrow> 0 | Present s \<Rightarrow> nextNonce s)"

lemma nonceFloor_mono:
  assumes "stepKept V c d" "calm V c"
  shows "nonceFloor c \<le> nonceFloor d"
proof (cases "current c")
  case Missing
  have "0 \<le> nonceFloor d"
  proof (cases "current d")
    case (Present s)
    then have "wfSnapshot (signerIdentity d) s" using assms(1) calm_wf by (auto simp: stepKept_def)
    then show ?thesis using Present by (simp add: nonceFloor_def wfSnapshot_def uint256_def)
  qed (simp add: nonceFloor_def)
  with Missing show ?thesis by (simp add: nonceFloor_def)
next
  case (Present s)
  then show ?thesis
    using assms(1) by (cases "current d") (auto simp: stepKept_def nonceFloor_def)
qed

fun preparedIn :: "label list \<Rightarrow> PreparedAttempt list" where
  "preparedIn [] = []"
| "preparedIn (PreparedStep p # ls) = p # preparedIn ls"
| "preparedIn (_ # ls) = preparedIn ls"

lemma preparedIn_set: "p \<in> set (preparedIn ls) \<Longrightarrow> PreparedStep p \<in> set ls"
  by (induction ls rule: preparedIn.induct) auto

lemma coRun_floor:
  assumes "coRun E s ls t" "calm (envViem E) (fst s)" "p \<in> set (preparedIn ls)"
  shows "nonceFloor (fst s) \<le> paNonce p"
proof -
  obtain u v where u: "stepKept (envViem E) (fst s) u" "labelOk (envViem E) u (PreparedStep p) v"
    using coRun_label [OF assms(1,2) preparedIn_set [OF assms(3)]] by blast
  have "nonceFloor u = paNonce p" using u(2) by (auto simp: labelOk_def preparedAs_def nonceFloor_def)
  with nonceFloor_mono [OF u(1) assms(2)] show ?thesis by simp
qed

lemma coRun_increasing:
  "coRun E s ls t \<Longrightarrow> calm (envViem E) (fst s) \<Longrightarrow> sorted_wrt (<) (map paNonce (preparedIn ls))"
proof (induction rule: coRun.induct)
  case (step s l t ls u)
  from coStep_kept [OF step.hyps(1) step.prems]
  have k: "stepKept (envViem E) (fst s) (fst t)" "labelOk (envViem E) (fst s) l (fst t)" by simp_all
  then have ct: "calm (envViem E) (fst t)" by (simp add: stepKept_def)
  show ?case
  proof (cases l)
    case (PreparedStep p)
    have "nonceFloor (fst t) = paNonce p + 1"
      using k(2) PreparedStep by (auto simp: labelOk_def preparedAs_def nonceFloor_def appendAttempt_def)
    then have "paNonce p < paNonce q" if "q \<in> set (preparedIn ls)" for q
      using coRun_floor [OF step.hyps(2) ct that] by simp
    with PreparedStep step.IH [OF ct] show ?thesis by simp
  qed (use step.IH [OF ct] in simp_all)
qed simp

text \<open>Attempts of one journal at the same nonce are the same attempt.\<close>

lemma wf_nonce_inj:
  assumes "wfSnapshot i s" "a \<in> set (attempts s)" "b \<in> set (attempts s)" "attemptNonce a = attemptNonce b"
  shows "a = b"
  using assms by (auto simp: wfSnapshot_def wfAttempts_def in_set_conv_nth)

lemma wf_nonce_bound:
  assumes "wfSnapshot i s" "a \<in> set (attempts s)"
  shows "attemptNonce a < nextNonce s" "durableNextNonce s \<le> attemptNonce a"
  using assms by (auto simp: wfSnapshot_def wfAttempts_def in_set_conv_nth)

lemma evolved_same:
  assumes ev: "evolves (Present s) (Present t)" and wf: "wfSnapshot i s"
    and a: "a \<in> set (attempts s)" and b: "b \<in> set (attempts t)" and n: "attemptNonce a = attemptNonce b"
  shows "attemptIdentity a = attemptIdentity b"
proof -
  have "attemptNonce b < nextNonce s" using wf_nonce_bound(1) [OF wf a] n by simp
  then obtain x where x: "x \<in> set (attempts s)" "sameCore b x" using ev b by auto
  then have "x = a" using wf_nonce_inj [OF wf x(1) a] n sameCore_nonce by metis
  with x(2) show ?thesis by (simp add: sameCore_def attemptIdentity_def)
qed

lemma oldestUnresolved_set: "oldestUnresolved s = Some a \<Longrightarrow> a \<in> set (attempts s)"
  using find_Some_set by (fastforce simp: oldestUnresolved_def)

text \<open>What was sent is in the journal from then on, until its nonce is settled.\<close>

lemma sent_same:
  "coRun E s ls t \<Longrightarrow> calm (envViem E) (fst s) \<Longrightarrow> current (fst s) = Present j \<Longrightarrow>
    a \<in> set (attempts j) \<Longrightarrow> SentStep q \<in> set ls \<Longrightarrow> paNonce q = attemptNonce a \<Longrightarrow> q = attemptIdentity a"
proof -
  assume r: "coRun E s ls t" "calm (envViem E) (fst s)" "current (fst s) = Present j"
    "a \<in> set (attempts j)" "SentStep q \<in> set ls" "paNonce q = attemptNonce a"
  obtain u v where u: "stepKept (envViem E) (fst s) u" "labelOk (envViem E) u (SentStep q) v"
    using coRun_label [OF r(1,2,5)] by blast
  from u(2) obtain k b where b: "current u = Present k" "oldestUnresolved k = Some b"
    "q = attemptIdentity b" by (auto simp: labelOk_def)
  have "attemptNonce a = attemptNonce b" using r(6) b(3) by (simp add: attemptIdentity_def)
  moreover have "evolves (Present j) (Present k)" using u(1) r(3) b(1) by (simp add: stepKept_def)
  ultimately show "q = attemptIdentity a"
    using evolved_same [OF _ calm_wf [OF r(2,3)] r(4) oldestUnresolved_set [OF b(2)]] b(3) by simp
qed

lemma coRun_sent:
  "coRun E s ls t \<Longrightarrow> calm (envViem E) (fst s) \<Longrightarrow> SentStep p \<in> set ls \<Longrightarrow> SentStep q \<in> set ls \<Longrightarrow>
    paNonce p = paNonce q \<Longrightarrow> p = q"
proof (induction rule: coRun.induct)
  case (step s l t ls u)
  from coStep_kept [OF step.hyps(1) step.prems(1)]
  have k: "stepKept (envViem E) (fst s) (fst t)" "labelOk (envViem E) (fst s) l (fst t)" by simp_all
  then have ct: "calm (envViem E) (fst t)" by (simp add: stepKept_def)
  have first: "y = x" if l: "l = SentStep x" and y: "SentStep y \<in> set ls" "paNonce y = paNonce x" for x y
  proof -
    obtain j b where b: "current (fst t) = Present j" "oldestUnresolved j = Some b" "attemptIdentity b = x"
      using k(2) l by (auto simp: labelOk_def)
    have "paNonce y = attemptNonce b" using y(2) b(3) by (auto simp: attemptIdentity_def)
    with sent_same [OF step.hyps(2) ct b(1) oldestUnresolved_set [OF b(2)] y(1)] b(3)
    show "y = x" by simp
  qed
  show ?case
  proof (cases "SentStep p = l \<or> SentStep q = l")
    case True
    then show ?thesis using first [of p q] first [of q p] step.prems by auto
  next
    case False
    then show ?thesis using step.IH [OF ct] step.prems by auto
  qed
qed simp

lemma coRun_latched:
  assumes "coRun E s ls t" "calm (envViem E) (fst s)" "UnattributedSignerActivity \<in> blockers (fst s)"
  shows "UnattributedSignerActivity \<in> blockers (fst t) \<and> set ls \<subseteq> {QuietStep}"
proof -
  have "l = QuietStep" if l: "l \<in> set ls" for l
  proof -
    obtain u v where u: "stepKept (envViem E) (fst s) u" "labelOk (envViem E) u l v"
      using coRun_label [OF assms(1,2) l] by blast
    from u(1) assms(3) have "UnattributedSignerActivity \<in> blockers u"
      by (simp add: stepKept_def steady_def)
    with u(2) show ?thesis by (cases l) (auto simp: labelOk_def canBroadcast_iff)
  qed
  moreover have "UnattributedSignerActivity \<in> blockers (fst t)"
    using coRun_kept [OF assms(1,2)] assms(3) by (simp add: stepKept_def steady_def)
  ultimately show ?thesis by auto
qed

end
