(* ===== verification/EffectLog.thy ===== *)
theory EffectLog
  imports CoordinatorMachine
begin

text \<open>
  The order of effects. Any world is extended by a log of what was written and what was sent: the
  store and the client make the entries, the other services leave the log alone. Nothing is assumed
  of the world underneath, so what is shown of the log holds of every world.

  The effects of a computation are followed with an order on states that each of its steps respects
  (the locale below): the orders for reading services and for the coordinator's own steps say that
  the log is untouched. Only \<open>broadcastAttempt\<close> sends: every other operation that is given a client is
  the same whatever the client's \<open>requestSendRaw\<close> does.
\<close>

subsection \<open>Computations along an order\<close>

definition along :: "('s \<Rightarrow> 's \<Rightarrow> bool) \<Rightarrow> ('s, 'a) io \<Rightarrow> bool" where
  "along R m = (\<forall>s. R s (snd (m s)))"

locale effect_order =
  fixes R :: "'s \<Rightarrow> 's \<Rightarrow> bool"
  assumes stay: "R s s"
    and onward: "R s t \<Longrightarrow> R t u \<Longrightarrow> R s u"
begin

lemma along_still:
  "along R (ret x)" "along R (throw e)" "along R (unlessThrow b e)" "along R (liftPure r)"
  by (simp_all add: along_def stay ret_def throw_def unlessThrow_def liftPure_def)

lemma along_andThen: "along R m \<Longrightarrow> (\<And>x. along R (k x)) \<Longrightarrow> along R (andThen m k)"
  unfolding along_def andThen_def
  by (auto split: prod.splits sum.splits) (metis onward snd_conv)+

lemma along_tryCatch: "along R m \<Longrightarrow> (\<And>e. along R (h e)) \<Longrightarrow> along R (tryCatch m h)"
  unfolding along_def tryCatch_def
  by (auto split: prod.splits sum.splits) (metis onward snd_conv)+

lemma along_finallyDo: "along R m \<Longrightarrow> along R f \<Longrightarrow> along R (finallyDo m f)"
  unfolding along_def finallyDo_def
  by (auto split: prod.splits sum.splits) (metis onward snd_conv)+

lemma along_onThrow: "along R m \<Longrightarrow> (\<And>s. R s (h s)) \<Longrightarrow> along R (onThrow m h)"
  unfolding along_def onThrow_def
  by (auto split: prod.splits sum.splits) (metis onward snd_conv)+

lemma along_tryFinally: "along R m \<Longrightarrow> (\<And>s. R s (h s)) \<Longrightarrow> along R (tryFinally m h)"
  unfolding along_def tryFinally_def
  by (auto split: prod.splits sum.splits) (metis onward snd_conv)+

lemmas along_rules = along_still along_andThen along_tryCatch along_finallyDo along_onThrow along_tryFinally

end

lemma along_modify: "(\<And>s. R s (f s)) \<Longrightarrow> along R (modifyState f)"
  by (simp add: along_def modifyState_def)

subsection \<open>The log\<close>

datatype effect =
    SavedSnapshot TransactionJournalSnapshot
  | SaveFailed TransactionJournalSnapshot
  | SentRaw jstr

definition unlogged :: "('w, 'a) io \<Rightarrow> ('w \<times> effect list, 'a) io" where
  "unlogged m = (\<lambda>(w, l). case m w of (r, v) \<Rightarrow> (r, (v, l)))"

definition loggedStore :: "'w journal_store \<Rightarrow> ('w \<times> effect list) journal_store" where
  "loggedStore S =
     \<lparr>loadJournal = unlogged (loadJournal S),
      saveJournal = (\<lambda>s (w, l). case saveJournal S s w of
          (Inr u, v) \<Rightarrow> (Inr u, (v, l @ [SavedSnapshot s]))
        | (Inl e, v) \<Rightarrow> (Inl e, (v, l @ [SaveFailed s])))\<rparr>"

definition loggedEnv :: "'w coordinator_env \<Rightarrow> ('w \<times> effect list) coordinator_env" where
  "loggedEnv E =
     \<lparr>envViem = envViem E, envStore = loggedStore (envStore E), envNow = unlogged (envNow E),
      envDateNow = (\<lambda>(w, l). case envDateNow E w of (t, v) \<Rightarrow> (t, (v, l))),
      envRandomUuid = unlogged (envRandomUuid E), envSummaryOk = envSummaryOk E\<rparr>"

definition loggedClient :: "'w chain_client \<Rightarrow> ('w \<times> effect list) chain_client" where
  "loggedClient C =
     \<lparr>clientId = clientId C, getBlock = (\<lambda>n. unlogged (getBlock C n)),
      getFullBlock = (\<lambda>n. unlogged (getFullBlock C n)),
      getTaggedBlockNumber = (\<lambda>t. unlogged (getTaggedBlockNumber C t)),
      getBlockNumber = unlogged (getBlockNumber C),
      getTransactionCountAt = (\<lambda>a n. unlogged (getTransactionCountAt C a n)),
      getTransactionCountTagged = (\<lambda>a t. unlogged (getTransactionCountTagged C a t)),
      getTransactionReceipt = (\<lambda>h. unlogged (getTransactionReceipt C h)),
      requestSendRaw = (\<lambda>b (w, l). case requestSendRaw C b w of (r, v) \<Rightarrow> (r, (v, l @ [SentRaw b])))\<rparr>"

definition loggedAccount :: "'w local_account \<Rightarrow> ('w \<times> effect list) local_account" where
  "loggedAccount A =
     \<lparr>accountIsLocal = accountIsLocal A, accountAddress = accountAddress A,
      signTransaction = (\<lambda>t. unlogged (signTransaction A t))\<rparr>"

lemma logged_fields [simp]:
  "envViem (loggedEnv E) = envViem E" "envSummaryOk (loggedEnv E) = envSummaryOk E"
  "envStore (loggedEnv E) = loggedStore (envStore E)" "clientId (loggedClient C) = clientId C"
  by (simp_all add: loggedEnv_def loggedClient_def)

subsection \<open>Reading leaves the log alone\<close>

definition sameLog :: "'w \<times> effect list \<Rightarrow> 'w \<times> effect list \<Rightarrow> bool" where
  "sameLog s t = (snd t = snd s)"

definition sameWorldLog :: "('w \<times> effect list) cstate \<Rightarrow> ('w \<times> effect list) cstate \<Rightarrow> bool" where
  "sameWorldLog s t = sameLog (snd s) (snd t)"

interpretation reading: effect_order sameLog
  by unfold_locales (simp_all add: sameLog_def)

interpretation working: effect_order sameWorldLog
  by unfold_locales (simp_all add: sameLog_def sameWorldLog_def)

named_theorems quiet_services \<open>services and functions that leave the log alone\<close>

lemma unlogged_quiet: "along sameLog (unlogged m)"
  by (simp add: along_def sameLog_def unlogged_def split: prod.split)

lemma services_quiet [quiet_services]:
  "along sameLog (envNow (loggedEnv E))"
  by (simp add: loggedEnv_def unlogged_quiet)

lemma currentTimestamp_quiet [quiet_services]: "along sameLog (currentTimestamp (loggedEnv E))"
  by (simp add: along_def sameLog_def currentTimestamp_def loggedEnv_def split: prod.split)

lemma timestamp_quiet [quiet_services]: "along sameLog (timestamp (loggedEnv E))"
  by (auto simp: timestamp_def intro!: reading.along_rules quiet_services split: option.split jsval.split)

lemma along_onWorld: "along sameLog m \<Longrightarrow> along sameWorldLog (onWorld m)"
  unfolding along_def sameLog_def sameWorldLog_def onWorld_def
  by (auto split: prod.splits) (metis snd_conv)

lemma along_upd: "along sameWorldLog (upd f)"
  by (simp add: upd_def along_def modifyState_def sameWorldLog_def sameLog_def split: prod.split)

lemma along_readC: "(\<And>c. along R (k c)) \<Longrightarrow> along R (readC k)"
  by (simp add: along_def readC_def)

lemma refresh_quiet: "along sameWorldLog (refresh (loggedEnv E) cy oper)"
  by (auto simp: refresh_def refreshBlocked_def refreshReleased_def Let_def
      intro!: working.along_rules along_readC along_upd along_onWorld quiet_services
      split: option.split)

lemma leave_quiet: "along sameWorldLog (leave (loggedEnv E) cy oper)"
  by (simp add: leave_def working.along_rules along_upd refresh_quiet)

subsection \<open>What a broadcast writes and sends\<close>

abbreviation logIn :: "'c \<times> 'w \<times> effect list \<Rightarrow> effect list" where
  "logIn s \<equiv> snd (snd s)"

lemma wp_quiet:
  assumes "along sameWorldLog m" "P (logIn s)"
  shows "wp m (\<lambda>_ t. P (logIn t)) (\<lambda>_ t. P (logIn t)) s"
proof -
  have "logIn (snd (m s)) = logIn s" using assms(1) by (cases s) (simp add: along_def sameWorldLog_def sameLog_def)
  with assms(2) show ?thesis by (intro wpI) simp_all
qed

lemma wp_loggedSave:
  "wp (onPersistence (savePersistence V (loggedStore S) s))
     (\<lambda>_ t. logIn t = l @ [SavedSnapshot s])
     (\<lambda>_ t. logIn t = l \<or> logIn t = l @ [SaveFailed s]) (c, (w, l))"
proof -
  have "wp (persistPending (loggedStore S) u) (\<lambda>_ t. logIn t = l @ [SavedSnapshot u])
     (\<lambda>_ t. logIn t = l @ [SaveFailed u]) (p, (w, l))" for u p
    by (cases "saveJournal S u w"; cases "fst (saveJournal S u w)")
      (auto simp: persistPending_def loggedStore_def wp_def andThen_def tryCatch_def onWorld_def
        modifyState_def throw_def)
  then have entry: "wp (persistPending (loggedStore S) u) (\<lambda>x (p, v). logIn (f p, v) = l @ [SavedSnapshot u])
     (\<lambda>e (p, v). logIn (f p, v) = l \<or> logIn (f p, v) = l @ [SaveFailed u]) (p, (w, l))" for u p and f :: "JournalPersistence \<Rightarrow> coordinator"
    by (rule wp_mono) auto
  show ?thesis
  proof (cases "verifyJournalSnapshot V (embSnapshot s) (persistenceIdentity (persistence c))")
    case (Inl e)
    then show ?thesis unfolding wp_onPersistence savePersistence_def by (simp add: wp_simps)
  next
    case (Inr t)
    then have "t = s" by (simp add: verify_same)
    with Inr show ?thesis
      unfolding wp_onPersistence savePersistence_def
      using entry [where f = "\<lambda>p. c\<lparr>persistence := p\<rparr>"] by (simp add: wp_simps)
  qed
qed

lemma wp_loggedSend:
  "wp (sendRecorded (loggedClient C) a cy)
     (\<lambda>_ t. logIn t = l @ [SentRaw (signedTransaction (last (signedTransactions a)))])
     (\<lambda>_ t. logIn t = l @ [SentRaw (signedTransaction (last (signedTransactions a)))]) (c, (w, l))"
  by (cases "requestSendRaw C (signedTransaction (last (signedTransactions a))) w";
      cases "fst (requestSendRaw C (signedTransaction (last (signedTransactions a))) w)")
    (auto simp: sendRecorded_def Let_def wp_andThen wp_tryCatch wp_onWorld wp_ret wp_upd loggedClient_def
      wp_def [of "\<lambda>(w, l). _ w l"])

definition broadcastEffects :: "TransactionJournalSnapshot \<Rightarrow> JournalAttempt \<Rightarrow> effect list set" where
  "broadcastEffects s a =
     (let sent = SentRaw (signedTransaction (last (signedTransactions a))) in
      if phase a = Signed then
        {[], [SaveFailed (markOldestUnresolved s)], [SavedSnapshot (markOldestUnresolved s), sent]}
      else {[sent]})"

lemma broadcast_logged:
  fixes w :: 'w
  shows "\<exists>added. logIn (snd (broadcastAttempt (loggedEnv E) (loggedClient C) aid cy (c, (w, l)))) = l @ added \<and>
     (added = [] \<or> (\<exists>s a. canBroadcast c \<and> current c = Present s \<and> oldestUnresolved s = Some a \<and>
        aid = attemptId a \<and> added \<in> broadcastEffects s a))"
proof -
  let ?good = "\<lambda>k. \<exists>added. k = l @ added \<and>
     (added = [] \<or> (\<exists>s a. canBroadcast c \<and> current c = Present s \<and> oldestUnresolved s = Some a \<and>
        aid = attemptId a \<and> added \<in> broadcastEffects s a))"
  have leave: "wp (leave (loggedEnv E) cy BroadcastAttemptOp) (\<lambda>_ t. ?good (logIn t)) (\<lambda>_ t. ?good (logIn t)) t"
    if "?good (logIn t)" for t :: "coordinator \<times> 'w \<times> effect list"
    by (rule wp_quiet [OF leave_quiet, where P = ?good]) (rule that)
  have main: "wp (finallyDo
                (onThrow (broadcastBody (loggedEnv E) (loggedClient C) s a cy) (\<lambda>(c, w). (dropPendingIfIdle c, w)))
                (leave (loggedEnv E) cy BroadcastAttemptOp))
       (\<lambda>_ t. ?good (logIn t)) (\<lambda>_ t. ?good (logIn t)) (d, (w, l))"
    if "canBroadcast c" "current c = Present s" "oldestUnresolved s = Some a" "aid = attemptId a" for s a d
  proof -
    have good: "?good (l @ added)" if "added \<in> broadcastEffects s a" for added
      using that \<open>canBroadcast c\<close> \<open>current c = Present s\<close> \<open>oldestUnresolved s = Some a\<close> \<open>aid = attemptId a\<close>
      by blast
    have "wp (broadcastBody (loggedEnv E) (loggedClient C) s a cy)
       (\<lambda>_ t. ?good (logIn t)) (\<lambda>_ t. ?good (logIn t)) (d, (w, l))"
    proof (cases "phase a = Signed")
      case False
      have "?good (l @ [SentRaw (signedTransaction (last (signedTransactions a)))])"
        by (rule good) (simp add: broadcastEffects_def False)
      then show ?thesis
        unfolding broadcastBody_def
        by (simp only: False if_False wp_simps) (rule wp_mono [OF wp_loggedSend]; simp only:)
    next
      case True
      have sent: "wp (sendRecorded (loggedClient C) a cy) (\<lambda>_ t. ?good (logIn t)) (\<lambda>_ t. ?good (logIn t))
          (d', (v, l @ [SavedSnapshot (markOldestUnresolved s)]))" for d' v
      proof -
        have "?good (l @ [SavedSnapshot (markOldestUnresolved s),
            SentRaw (signedTransaction (last (signedTransactions a)))])"
          by (rule good) (simp add: broadcastEffects_def True)
        then show ?thesis by (intro wp_mono [OF wp_loggedSend]) (simp_all only: append_assoc append_Cons append_Nil)
      qed
      have early: "?good l" "?good (l @ [SaveFailed (markOldestUnresolved s)])"
        using good [of "[]"] good [of "[SaveFailed (markOldestUnresolved s)]"]
        by (simp_all only: broadcastEffects_def True Let_def) simp_all
      show ?thesis
        unfolding broadcastBody_def
        apply (simp only: True refl if_True simp_thms wp_simps logged_fields)
        apply (rule wp_mono [OF wp_loggedSave])
        subgoal for x t using sent by (cases t) (simp only: wp_upd snd_conv prod.case)
        subgoal for e t using early by (elim disjE) (simp_all only:)
        done
    qed
    then show ?thesis
      unfolding wp_finallyDo wp_onThrow
      apply (rule wp_mono)
      subgoal for x t by (rule leave)
      subgoal for e t by (cases t) (simp only: prod.case, rule leave, simp only: snd_conv)
      done
  qed
  have "wp (broadcastAttempt (loggedEnv E) (loggedClient C) aid cy)
     (\<lambda>_ t. ?good (logIn t)) (\<lambda>_ t. ?good (logIn t)) (c, (w, l))"
    unfolding broadcastAttempt_def assertAvailable_def assertNoPendingWrite_def
    apply (intro wp_seqI, simp only: wp_readC, intro wp_seqI, rule wp_unlessI [rotated], simp)
    apply (rule wp_unlessI [rotated], simp, intro wp_seqI, simp only: wp_readC)
    apply (rule wp_unlessI [rotated], simp, simp only: wp_readC)
    apply (cases "current c")
     apply (simp add: wp_simps)
    subgoal for s
      apply (cases "oldestUnresolved s")
       apply (simp add: wp_simps)
      using main by (auto simp: wp_simps)
    done
  then show ?thesis by (simp add: wp_def split: prod.splits sum.splits)
qed

subsection \<open>No other operation sends\<close>

text \<open>
  The reads and inspections never apply the client's \<open>requestSendRaw\<close>: replacing it changes nothing.
\<close>

named_theorems unsent \<open>computations that do not depend on the send request\<close>

lemmas under_cases = option.case_cong list.case_cong sum.case_cong prod.case_cong AnchoredNonceResult.case_cong
  AttemptReceiptResult.case_cong InclusionRecheckResult.case_cong ReplacementSearchResult.case_cong
  scan_result.case_cong TransactionJournalRead.case_cong SignerBootstrapDecision.case_cong
  SignerInclusionInspection.case_cong attempt_phase.case_cong SignerRecoveryInspection.case_cong InspectionHeadBracket.case_cong if_cong

lemma anchors_unsent [unsent]:
  fixes C :: "'w chain_client"
  shows "getBlockAnchor (C\<lparr>requestSendRaw := f\<rparr>) n = getBlockAnchor C n"
    and "checkBlockAnchor (C\<lparr>requestSendRaw := f\<rparr>) b = checkBlockAnchor C b"
  by (simp_all add: getBlockAnchor_def checkBlockAnchor_def)

lemma nonces_unsent [unsent]:
  fixes C :: "'w chain_client"
  shows "readAnchoredNonce (C\<lparr>requestSendRaw := f\<rparr>) who b = readAnchoredNonce C who b"
    and "readLiveNonce (C\<lparr>requestSendRaw := f\<rparr>) who t = readLiveNonce C who t"
  by (simp_all add: readAnchoredNonce_def readLiveNonce_def unsent cong: under_cases)

lemma bootstrap_unsent [unsent]:
  "inspectSignerBootstrap (C\<lparr>requestSendRaw := f\<rparr>) who b = inspectSignerBootstrap C who b"
  by (simp add: inspectSignerBootstrap_def unsent cong: under_cases)

lemma receipts_unsent [unsent]:
  fixes C :: "'w chain_client"
  shows "findReceipt (C\<lparr>requestSendRaw := f\<rparr>) h = findReceipt C h"
    and "readReceipt (C\<lparr>requestSendRaw := f\<rparr>) h b = readReceipt C h b"
  by (simp_all add: findReceipt_def readReceipt_def unsent cong: under_cases)

lemma readReceipts_unsent [unsent]:
  "readReceipts (C\<lparr>requestSendRaw := f\<rparr>) b i k x hs = readReceipts C b i k x hs"
  by (induction hs arbitrary: i k x) (simp_all add: unsent cong: under_cases)

lemma reconcile_unsent [unsent]:
  "reconcileAttemptReceipt (C\<lparr>requestSendRaw := f\<rparr>) hs b = reconcileAttemptReceipt C hs b"
  by (simp add: reconcileAttemptReceipt_def unsent cong: under_cases)

lemma recheck_unsent [unsent]:
  "recheckAttemptInclusionWithinPass (C\<lparr>requestSendRaw := f\<rparr>) inc b = recheckAttemptInclusionWithinPass C inc b"
  by (simp add: recheckAttemptInclusionWithinPass_def inspectInclusionEvidence_def unsent
      findReceipt_def cong: under_cases)

lemma scan_unsent [unsent]:
  "scanBlocks (C\<lparr>requestSendRaw := f\<rparr>) who n b through number prev k = scanBlocks C who n b through number prev k"
proof (induction C who n b through number prev k rule: scanBlocks.induct)
  case (1 C who n b through number prev k)
  show ?case
    unfolding scanBlocks.simps [of C who n b through number prev k]
      scanBlocks.simps [of "C\<lparr>requestSendRaw := f\<rparr>" who n b through number prev k]
    by (simp add: 1 Let_def del: not_None_eq split_paired_Ex cong: under_cases)
qed

lemma search_unsent [unsent]:
  "searchAttemptReplacement (C\<lparr>requestSendRaw := f\<rparr>) who n ts s obs m = searchAttemptReplacement C who n ts s obs m"
  by (simp add: searchAttemptReplacement_def scanFromBoundary_def unsent cong: under_cases)

lemma attempts_unsent [unsent]:
  "inspectAttempts (C\<lparr>requestSendRaw := f\<rparr>) head p as = inspectAttempts C head p as"
  by (induction as arbitrary: p) (simp_all add: unsent cong: under_cases)

lemma candidates_unsent [unsent]:
  "searchCandidates (C\<lparr>requestSendRaw := f\<rparr>) s head obs m p is = searchCandidates C s head obs m p is"
  by (induction "is" arbitrary: p) (simp_all add: unsent Let_def cong: under_cases)

lemma decide_unsent [unsent]:
  "decideRecovery (C\<lparr>requestSendRaw := f\<rparr>) s a r obs m = decideRecovery C s a r obs m"
  by (simp add: decideRecovery_def unsent cong: under_cases)

lemma inspections_unsent [unsent]:
  fixes C :: "'w chain_client"
  shows "inspectSignerRecovery (C\<lparr>requestSendRaw := f\<rparr>) s b m = inspectSignerRecovery C s b m"
    and "inspectSignerInclusionsInternal (C\<lparr>requestSendRaw := f\<rparr>) s b m' k = inspectSignerInclusionsInternal C s b m' k"
  by (simp_all add: inspectSignerRecovery_def inspectSignerInclusionsInternal_def
      optionalSearch_def outerCheck_def unsent cong: under_cases)

lemma operations_unsent:
  fixes C :: "'w chain_client"
  shows "recover E (C\<lparr>requestSendRaw := f\<rparr>) b m cy = recover E C b m cy"
    and "checkInclusions E (C\<lparr>requestSendRaw := f\<rparr>) head k cy = checkInclusions E C head k cy"
    and "openHead (C\<lparr>requestSendRaw := f\<rparr>) head g = openHead C head g"
    and "recoverInspection E (C\<lparr>requestSendRaw := f\<rparr>) b m g cy = recoverInspection E C b m g cy"
    and "checkInclusionsInspection E (C\<lparr>requestSendRaw := f\<rparr>) head k g cy = checkInclusionsInspection E C head k g cy"
  by (simp_all add: recover_def checkInclusions_def openHead_def recoverInspection_def
      checkInclusionsInspection_def openInspectionHeadOwned_def recoverOwned_def recoverMissing_def
      recoverPresent_def checkInclusionsOwned_def inclusionsBody_def inspectInBracket_def closingCheck_def
      inspectSignerInclusions_def inspectSignerInclusionsWithinPass_def unsent cong: under_cases)

end
