(* ===== verification/FailedWrite.thy ===== *)
theory FailedWrite
  imports EffectLog
begin

text \<open>
  A write that has failed stands until it is retried: no other operation of the coordinator touches
  the journal, its pending snapshot or the pending write, or gains any authority to act.
\<close>

subsection \<open>What stands\<close>

definition writeStands :: "coordinator \<Rightarrow> coordinator \<Rightarrow> bool" where
  "writeStands c d =
     (persistence d = persistence c \<and> pendingWrite d = pendingWrite c \<and> blockers d = blockers c \<and>
      recoveryComplete d = recoveryComplete c \<and> committedRevision d = committedRevision c \<and>
      (broadcastPermit d = None \<or> broadcastPermit d = broadcastPermit c) \<and>
      (inclusionChecksComplete d \<longrightarrow> inclusionChecksComplete c))"

abbreviation standing :: "'w cstate \<Rightarrow> 'w cstate \<Rightarrow> bool" where
  "standing s t \<equiv> writeStands (fst s) (fst t)"

interpretation stands: effect_order standing
  by unfold_locales (auto simp: writeStands_def)

lemma stands_world: "along standing (onWorld m)"
  by (auto simp: along_def onWorld_def stands.stay split: prod.split) (auto simp: writeStands_def)

lemma stands_upd: "(\<And>c. writeStands c (f c)) \<Longrightarrow> along standing (upd f)"
  by (auto simp: along_def upd_def modifyState_def split: prod.split)

lemmas stands_rules = stands.along_rules stands_world stands_upd along_readC

lemma stands_changes:
  "writeStands c (updOwner f c)" "writeStands c (setBracket b c)" "writeStands c (revokeActionAuthorization c)"
  "writeStands c (failOpenBracket c)" "writeStands c (refreshReleased cy oper c)" "writeStands c (emit e cy oper c)"
  by (simp_all add: writeStands_def updOwner_def setBracket_def revokeActionAuthorization_def failOpenBracket_def
      refreshReleased_def emit_def split: option.split InspectionHeadBracket.split)

lemma stands_published:
  "published d = published c \<Longrightarrow> writeStands c d"
  using published_fields [of d c] by (simp add: writeStands_def)

lemma stands_refresh: "along standing (refresh E cy oper)"
  unfolding refresh_def refreshBlocked_def Let_def
  by (auto intro!: stands_rules stands_changes stands_published simp: published_def split: option.split)

subsection \<open>The operations that are not refused\<close>

lemma stands_guards:
  "along standing (assertInspectionOwner g)" "along standing (assertInspectionWorkAllowed g)" "along standing assertAvailable"
  unfolding assertInspectionOwner_def assertInspectionWorkAllowed_def assertAvailableTo_def assertAvailable_def
  by (intro stands_rules)+

lemma stands_operation:
  assumes "along standing m"
  shows "along standing (runInspectionOperation g cy m)"
  unfolding runInspectionOperation_def enterOperation_def
  by (intro stands_rules stands_guards assms) (auto intro: stands_changes split: prod.split)

lemma stands_openHead: "along standing (openHead C head g)"
  unfolding openHead_def openInspectionHeadOwned_def
  by (auto intro!: stands_operation stands_rules stands_guards stands_changes split: option.split)

lemma stands_abandon: "along standing (requestAbandon g)" "along standing (completeAbandonment E g)"
proof -
  have "writeStands c (revokeActionAuthorization (updOwner f c))" for f c
    by (simp add: writeStands_def updOwner_def revokeActionAuthorization_def)
  then show "along standing (requestAbandon g)"
    unfolding requestAbandon_def by (intro stands_rules stands_guards)
  have "writeStands c ((revokeActionAuthorization c)\<lparr>inspectionOwner := None\<rparr>)" for c
    by (simp add: writeStands_def revokeActionAuthorization_def)
  then show "along standing (completeAbandonment E g)"
    unfolding completeAbandonment_def by (intro stands_rules stands_guards stands_refresh)
qed

text \<open>An observation of a reconciliation adds nothing to what the reconciliation itself leaves.\<close>

definition observedAction :: "('w cstate, 'a) io \<Rightarrow> 'w cstate \<Rightarrow> 'w cstate \<Rightarrow> bool" where
  "observedAction action s t =
     (t = s \<or> (\<exists>x u. action ((fst s)\<lparr>observationActive := True\<rparr>, snd s) = (x, u) \<and> standing u t))"

lemma observed_stands: "observedAction action s (snd (observeReconciliation E action cy s))"
proof -
  have e: "along standing (andThen (upd (\<lambda>c. c\<lparr>observationActive := False\<rparr>)) (\<lambda>_. refresh E cy ReconcileAttemptOp))"
    by (intro stands_rules stands_refresh) (simp add: writeStands_def)
  obtain c w where s: "s = (c, w)" by (cases s)
  obtain x u where a: "action (c\<lparr>observationActive := True\<rparr>, w) = (x, u)" by (metis surj_pair)
  have "standing u (snd (andThen (upd (\<lambda>c. c\<lparr>observationActive := False\<rparr>)) (\<lambda>_. refresh E cy ReconcileAttemptOp) u))"
    using e unfolding along_def by blast
  then show ?thesis
    using a
    by (auto simp: s observedAction_def observeReconciliation_def assertAvailable_def readC_def io_defs upd_def
        split: prod.splits sum.splits if_splits)
qed

subsection \<open>The operations that are refused\<close>

definition refused :: "('w cstate, 'a) io \<Rightarrow> 'w cstate \<Rightarrow> bool" where
  "refused m s = (\<exists>e. m s = (Inl e, s))"

text \<open>An operation of an inspection ends with an error, the world as it was and the write standing.\<close>

definition repelled :: "('w cstate, 'a) io \<Rightarrow> 'w cstate \<Rightarrow> bool" where
  "repelled m s = (\<exists>e d. m s = (Inl e, (d, snd s)) \<and> writeStands (fst s) d)"

definition writeFailed :: "coordinator \<Rightarrow> bool" where
  "writeFailed c = (pendingWrite c \<noteq> None \<or> \<not> persistenceIdle c)"

lemma pending_refused:
  assumes "writeFailed c"
  shows "refused (andThen assertAvailable (\<lambda>_. andThen assertNoPendingWrite k)) (c, w)"
  using assms
  by (auto simp: refused_def writeFailed_def assertAvailable_def assertNoPendingWrite_def readC_def andThen_def
      unlessThrow_def ret_def throw_def)

lemma refused_andThen: "refused m s \<Longrightarrow> refused (andThen m k) s"
  by (auto simp: refused_def andThen_def)

lemma failed_refuses:
  assumes "writeFailed c"
  shows "refused (prepareAttempt E account tx wid cy) (c, w)" "refused (broadcastAttempt E C aid cy) (c, w)"
    "refused beginInspection (c, w)" "refused (recover E C b m cy) (c, w)"
    "refused (checkInclusions E C head k cy) (c, w)" "refused (finishInspection E g) (c, w)"
proof -
  show b: "refused beginInspection (c, w)"
    unfolding beginInspection_def by (rule pending_refused [OF assms])
  show "refused (prepareAttempt E account tx wid cy) (c, w)" "refused (broadcastAttempt E C aid cy) (c, w)"
    unfolding prepareAttempt_def broadcastAttempt_def by (rule pending_refused [OF assms])+
  show "refused (recover E C b m cy) (c, w)" "refused (checkInclusions E C head k cy) (c, w)"
    unfolding recover_def checkInclusions_def inOwnInspection_def by (rule refused_andThen [OF b])+
  show "refused (finishInspection E g) (c, w)"
    using assms
    by (auto simp: refused_def writeFailed_def finishInspection_def assertInspectionOwner_def readC_def andThen_def
        unlessThrow_def ret_def throw_def)
qed

text \<open>Guards and updates before the check for a pending write, and what ends at the check.\<close>

definition meek :: "('w cstate, 'a) io \<Rightarrow> bool" where
  "meek m = (\<forall>c w. \<exists>r d. m (c, w) = (r, (d, w)) \<and> writeStands c d)"

definition repels :: "('w cstate, 'a) io \<Rightarrow> bool" where
  "repels m = (\<forall>c w. writeFailed c \<longrightarrow> repelled m (c, w))"

lemma failed_stands: "writeStands c d \<Longrightarrow> writeFailed c \<Longrightarrow> writeFailed d"
  by (simp add: writeStands_def writeFailed_def persistenceIdle_def)

lemma stands_trans: "writeStands a b \<Longrightarrow> writeStands b c \<Longrightarrow> writeStands a c"
  using stands.onward [of "(a, ())" "(b, ())" "(c, ())"] by simp

lemma meek_guards:
  "meek (unlessThrow b e)" "(\<And>c. writeStands c (f c)) \<Longrightarrow> meek (upd f)" "(\<And>c. meek (k c)) \<Longrightarrow> meek (readC k)"
  "meek m \<Longrightarrow> (\<And>x. meek (h x)) \<Longrightarrow> meek (andThen m h)"
proof -
  show "meek (unlessThrow b e)"
    by (auto simp: meek_def unlessThrow_def ret_def throw_def writeStands_def)
  show "(\<And>c. writeStands c (f c)) \<Longrightarrow> meek (upd f)" by (auto simp: meek_def upd_def modifyState_def)
  show "(\<And>c. meek (k c)) \<Longrightarrow> meek (readC k)" by (simp add: meek_def readC_def)
  assume m: "meek m" and h: "\<And>x. meek (h x)"
  show "meek (andThen m h)"
    unfolding meek_def
  proof (intro allI)
    fix c w
    obtain r d where d: "m (c, w) = (r, (d, w))" "writeStands c d" using m unfolding meek_def by blast
    then show "\<exists>r d. andThen m h (c, w) = (r, (d, w)) \<and> writeStands c d"
      using h stands_trans [OF d(2)] by (cases r) (auto simp: andThen_def meek_def, metis)
  qed
qed

lemma meek_allowed: "meek (assertInspectionWorkAllowed g)" "meek (enterOperation g cy)"
proof -
  show a: "meek (assertInspectionWorkAllowed g)"
    unfolding assertInspectionWorkAllowed_def assertAvailableTo_def assertInspectionOwner_def
    by (intro meek_guards)
  show "meek (enterOperation g cy)"
    unfolding enterOperation_def by (intro meek_guards a stands_changes)
qed

lemma repels_andThen:
  assumes "meek m" "\<And>x. repels (k x)"
  shows "repels (andThen m k)"
  unfolding repels_def
proof (intro allI impI)
  fix c w assume c: "writeFailed c"
  obtain r d where d: "m (c, w) = (r, (d, w))" "writeStands c d" using assms(1) unfolding meek_def by blast
  show "repelled (andThen m k) (c, w)"
  proof (cases r)
    case (Inr x)
    have "repelled (k x) (d, w)" using assms(2) failed_stands [OF d(2) c] unfolding repels_def by blast
    then show ?thesis using d Inr stands_trans [OF d(2)] by (auto simp: repelled_def andThen_def)
  qed (use d in \<open>auto simp: repelled_def andThen_def\<close>)
qed

lemma repels_steps:
  "(\<And>c. repels (k c)) \<Longrightarrow> repels (readC k)" "repels (andThen assertNoPendingWrite h)"
  by (auto simp: repels_def repelled_def readC_def assertNoPendingWrite_def andThen_def unlessThrow_def ret_def
      throw_def writeFailed_def writeStands_def)

lemma repels_handlers:
  assumes "repels m" "\<And>c w. \<exists>d. h (c, w) = (d, w) \<and> writeStands c d"
  shows "repels (onThrow m h)" "repels (tryFinally m h)"
proof -
  have "\<exists>e d b. m (c, w) = (Inl e, (d, w)) \<and> h (d, w) = (b, w) \<and> writeStands c b" if "writeFailed c" for c w
    using assms that stands_trans unfolding repels_def repelled_def by fastforce
  note ends = this
  have "repelled (onThrow m h) (c, w) \<and> repelled (tryFinally m h) (c, w)" if c: "writeFailed c" for c w
  proof -
    obtain e d b where "m (c, w) = (Inl e, (d, w))" "h (d, w) = (b, w)" "writeStands c b" using ends [OF c] by blast
    then show ?thesis by (simp add: repelled_def onThrow_def tryFinally_def)
  qed
  then show "repels (onThrow m h)" "repels (tryFinally m h)" by (simp_all add: repels_def)
qed

lemma repels_operation: "repels m \<Longrightarrow> repels (runInspectionOperation g cy m)"
  unfolding runInspectionOperation_def
  by (intro repels_andThen repels_handlers meek_allowed) (auto intro: stands_changes)

lemma failed_repels:
  assumes "writeFailed c"
  shows "repelled (recoverInspection E C b m g cy) (c, w)" "repelled (checkInclusionsInspection E C head k g cy) (c, w)"
proof -
  have "repels (recoverInspection E C b m g cy)"
    unfolding recoverInspection_def recoverOwned_def
    by (intro repels_operation repels_andThen repels_steps meek_allowed meek_guards stands_changes)
  moreover have "repels (checkInclusionsInspection E C head k g cy)"
    unfolding checkInclusionsInspection_def checkInclusionsOwned_def
    by (intro repels_operation repels_andThen repels_steps meek_allowed meek_guards stands_changes)
  ultimately show "repelled (recoverInspection E C b m g cy) (c, w)"
    "repelled (checkInclusionsInspection E C head k g cy) (c, w)"
    using assms unfolding repels_def by blast+
qed

end
