(* ===== verification/Samples.thy ===== *)
theory Samples
  imports Gate
begin

text \<open>
  Concrete values at which the properties with hypotheses are applied: a chain identity, block
  anchors and observations, a recorded attempt and journals with and without one.
\<close>

definition zeros :: "nat \<Rightarrow> jstr" where
  "zeros n = replicate n 48"

definition hexId :: "nat \<Rightarrow> 16 word \<Rightarrow> jstr" where
  "hexId bytes c = js ''0x'' @ zeros (bytes * 2 - 1) @ [c]"

definition sampleIdentity :: JournalIdentity where
  "sampleIdentity = \<lparr>chainId = 1, signer = hexId 20 49\<rparr>"

definition sampleAnchor :: "int \<Rightarrow> BlockAnchor" where
  "sampleAnchor n = \<lparr>blockNumber = n, blockHash = hexId 32 50\<rparr>"

definition sampleObservation :: "int \<Rightarrow> int \<Rightarrow> AnchoredNonceObservation" where
  "sampleObservation b n = \<lparr>anchor = sampleAnchor b, obsNonce = n\<rparr>"

definition sampleTransaction :: JournalSignedTransaction where
  "sampleTransaction =
     \<lparr>transactionHash = hexId 32 51, signedTransaction = js ''0x02'' @ zeros 64\<rparr>"

definition sampleUuid :: jstr where
  "sampleUuid = js ''00000000-0000-4000-8000-000000000001''"

definition sampleTime :: jstr where
  "sampleTime = js ''2024-02-29T12:00:00.000Z''"

definition sampleAttempt :: "attempt_phase \<Rightarrow> JournalAttempt" where
  "sampleAttempt p =
     \<lparr>attemptId = sampleUuid, attemptWorkId = js ''round:7'', attemptNonce = 5,
      createdAt = sampleTime, signedTransactions = [sampleTransaction],
      replacementSearch = Some \<lparr>lowerBound = sampleObservation 10 5, searchedThrough = None\<rparr>,
      phase = p\<rparr>"

definition sampleSnapshot :: "JournalAttempt list \<Rightarrow> TransactionJournalSnapshot" where
  "sampleSnapshot as =
     \<lparr>identity = sampleIdentity, baseline = sampleObservation 1 5,
      lastObservation = sampleObservation 10 5, nextNonce = 5 + int (length as),
      durableNextNonce = 5, repairs = [], attempts = as\<rparr>"

named_theorems samples \<open>the sample values are well-formed\<close>

lemma sampleHex [samples]:
  "fixedHex (hexId 20 49) 20" "fixedHex (hexId 32 50) 32" "fixedHex (hexId 32 51) 32"
  by code_simp+

lemma sampleUuid [samples]: "uuidV4 sampleUuid"
  by code_simp

lemma sampleTime [samples]: "isoTimestamp sampleTime"
  by code_simp

lemma sampleWork [samples]: "workId (js ''round:7'')"
  by code_simp

lemma sampleBytes [samples]: "signedBytes (js ''0x02'' @ zeros 64)"
  by code_simp

lemma sampleIdentity_wf [samples]: "wfIdentity sampleIdentity"
  by (simp add: wfIdentity_def sampleIdentity_def MAX_SAFE_INTEGER_def samples)

lemma sampleAnchor_wf [samples]: "0 \<le> n \<Longrightarrow> n < 1000 \<Longrightarrow> wfAnchor (sampleAnchor n)"
  by (simp add: wfAnchor_def sampleAnchor_def uint256_def MAX_UINT256_def samples)

lemma sampleObservation_wf [samples]:
  "0 \<le> b \<Longrightarrow> b < 1000 \<Longrightarrow> 0 \<le> n \<Longrightarrow> n < 1000 \<Longrightarrow> wfObservation (sampleObservation b n)"
  by (simp add: wfObservation_def sampleObservation_def uint256_def MAX_UINT256_def samples)

lemma sampleAttempt_wf [samples]:
  "wfAttempt (sampleAttempt Signed)" "wfAttempt (sampleAttempt BroadcastMayHaveOccurred)"
  by (simp_all add: wfAttempt_def sampleAttempt_def samples uint256_def MAX_UINT256_def wfSearch_def
      wfSigned_def sampleTransaction_def wfPhase_def sampleObservation_def [of 10 5]
      samples [unfolded sampleObservation_def])

lemma sampleSnapshot_wf [samples]:
  "wfSnapshot sampleIdentity (sampleSnapshot [])"
  "wfSnapshot sampleIdentity (sampleSnapshot [sampleAttempt Signed])"
  "wfSnapshot sampleIdentity (sampleSnapshot [sampleAttempt BroadcastMayHaveOccurred])"
  by (simp_all add: wfSnapshot_def sampleSnapshot_def samples uint256_def MAX_UINT256_def
      wfRepairs_def repairsOrdered_def wfAttempts_def allHashes_def lowerHashes_def)
    (simp_all add: sampleAttempt_def sampleObservation_def)

end
