(* ===== verification/SampleWorld.thy ===== *)
theory SampleWorld
  imports CoordinatorMachine Samples
begin

text \<open>
  A concrete world for the witnesses: a store that keeps what it is given, a chain that answers every
  read consistently, a clock, and a codec that knows one transaction.
\<close>

definition sampleBytes :: jstr where
  "sampleBytes = js ''0x02'' @ zeros 64"

definition sampleParsed :: ParsedTransaction where
  "sampleParsed =
     \<lparr>txType = js ''legacy'', txChainId = JNum 1, txNonce = JNum 5, txGasPrice = JBigint 7,
      txMaxFeePerGas = JUndefined, txMaxPriorityFeePerGas = JUndefined, txR = JBigint 1, txS = JBigint 1,
      txV = JBigint 27, txYParity = JNum 0, txCall = JUndefined\<rparr>"

definition sampleViem :: viem where
  "sampleViem =
     \<lparr>keccak256 = (\<lambda>_. Inr (hexId 32 51)), parseTransaction = (\<lambda>_. Inr sampleParsed),
      serializeTransaction = (\<lambda>_ s. Inr (case s of None \<Rightarrow> js ''0xaa'' | Some _ \<Rightarrow> sampleBytes)),
      recoverTransactionAddress = (\<lambda>_. Inr (hexId 20 49))\<rparr>"

text \<open>The world: what the store holds, and what was sent.\<close>

type_synonym sample_world = "TransactionJournalRead \<times> jstr list"

definition sampleStore :: "sample_world journal_store" where
  "sampleStore =
     \<lparr>loadJournal = (\<lambda>(d, l). (Inr d, (d, l))), saveJournal = (\<lambda>s (d, l). (Inr (), (Present s, l)))\<rparr>"

definition sampleEnv :: "sample_world coordinator_env" where
  "sampleEnv =
     \<lparr>envViem = sampleViem, envStore = sampleStore, envNow = ret (JNum 1709208000000),
      envDateNow = (\<lambda>w. (0, w)), envRandomUuid = ret sampleUuid, envSummaryOk = (\<lambda>_. True)\<rparr>"

definition sampleClient :: "sample_world chain_client" where
  "sampleClient =
     \<lparr>clientId = 0,
      getBlock = (\<lambda>n. ret \<lparr>brNumber = JBigint n, brHash = JString (hexId 32 50), brParentHash = JString (hexId 32 50), brTransactions = JUndefined\<rparr>),
      getFullBlock = (\<lambda>n. throw (ExternalError 0)),
      getTaggedBlockNumber = (\<lambda>_. ret 20), getBlockNumber = ret 20,
      getTransactionCountAt = (\<lambda>_ _. ret (JNum 5)),
      getTransactionCountTagged = (\<lambda>_ _. ret (JNum 5)),
      getTransactionReceipt = (\<lambda>_. throw ReceiptNotFoundError),
      requestSendRaw = (\<lambda>b (d, l). (Inr (JString (hexId 32 51)), (d, l @ [b])))\<rparr>"


definition sampleCall :: PreparedRelayerTransaction where
  "sampleCall =
     \<lparr>ptTo = hexId 20 52, ptData = js ''0x'', ptValue = 0, ptGas = 21000, ptFees = LegacyFees 7\<rparr>"

definition sampleAccount :: "sample_world local_account" where
  "sampleAccount =
     \<lparr>accountIsLocal = True, accountAddress = hexId 20 49, signTransaction = (\<lambda>_. ret sampleBytes)\<rparr>"

definition samplePersistence :: "TransactionJournalSnapshot \<Rightarrow> JournalPersistence" where
  "samplePersistence s =
     \<lparr>stateValue = Idle, currentValue = Present s, pendingSnapshot = None,
      persistenceIdentity = sampleIdentity\<rparr>"

text \<open>A coordinator whose gate is open, and one that may broadcast the sample attempt.\<close>

definition openCoordinator :: coordinator where
  "openCoordinator =
     (freshCoordinator (samplePersistence (sampleSnapshot [])) sampleIdentity (JNum 4))
       \<lparr>recoveryComplete := True, inclusionChecksComplete := True\<rparr>"

definition sendingCoordinator :: coordinator where
  "sendingCoordinator =
     (freshCoordinator (samplePersistence (sampleSnapshot [sampleAttempt BroadcastMayHaveOccurred]))
        sampleIdentity (JNum 4))
       \<lparr>recoveryComplete := True, broadcastPermit := Some sampleUuid, attemptLog := Some [sampleBytes]\<rparr>"

lemma sampleVerified [samples]:
  "verified sampleViem sampleIdentity (sampleSnapshot [])"
  "verified sampleViem sampleIdentity (sampleSnapshot [sampleAttempt Signed])"
  "verified sampleViem sampleIdentity (sampleSnapshot [sampleAttempt BroadcastMayHaveOccurred])"
proof -
  have v: "verifyAttempts sampleViem sampleIdentity [sampleAttempt p] = Inr ()" for p
  proof -
    have "attemptNonce (sampleAttempt p) = 5" "signedTransactions (sampleAttempt p) = [sampleTransaction]"
      by (simp_all add: sampleAttempt_def)
    moreover have "verifyJournalAttempt sampleViem sampleIdentity 5 [sampleTransaction] = Inr ()"
      by code_simp
    ultimately show ?thesis by simp
  qed
  have i: "identity (sampleSnapshot as) = sampleIdentity" "attempts (sampleSnapshot as) = as" for as
    by (simp_all add: sampleSnapshot_def)
  show "verified sampleViem sampleIdentity (sampleSnapshot [])"
    "verified sampleViem sampleIdentity (sampleSnapshot [sampleAttempt Signed])"
    "verified sampleViem sampleIdentity (sampleSnapshot [sampleAttempt BroadcastMayHaveOccurred])"
    using wf_validate [OF sampleSnapshot_wf(1)] wf_validate [OF sampleSnapshot_wf(2)]
      wf_validate [OF sampleSnapshot_wf(3)]
    by (simp_all only: verified_def verifyJournalSnapshot_def validateSnapshot_def i v bindE_simps
        verifyAttempts.simps(1))
qed

lemma samplePositive [samples]: "isPositiveSafeInteger (JNum 4)"
  by code_simp

lemma openCoordinator_calm [samples]: "calm sampleViem openCoordinator"
  by (simp add: calm_def inv_defs quiet_def openCoordinator_def freshCoordinator_def samplePersistence_def
      current_def samples policyCovers_def)
    (simp add: sampleSnapshot_def sampleObservation_def searchExhausted_def oldestUnresolved_def)

lemma sendingCoordinator_calm [samples]: "calm sampleViem sendingCoordinator"
  by (simp add: calm_def inv_defs quiet_def sendingCoordinator_def freshCoordinator_def samplePersistence_def
      current_def samples policyCovers_def)
    (simp add: sampleSnapshot_def sampleObservation_def searchExhausted_def oldestUnresolved_def
      sampleAttempt_def isIncluded_def allSignedBytes_def sampleTransaction_def sampleBytes_def)


subsection \<open>One preparation and one broadcast\<close>

lemma sampleSigned [samples]:
  "signPreparedTransaction sampleViem sampleIdentity 5 sampleAccount sampleCall w =
     (Inr \<lparr>signedNonce = 5, signedRecord = sampleTransaction\<rparr>, w)"
  by code_simp

definition sampleWorld :: sample_world where
  "sampleWorld = (Missing, [])"

definition samplePrepared :: PreparedAttempt where
  "samplePrepared = \<lparr>paAttemptId = sampleUuid, paTransactionHash = hexId 32 51, paNonce = 5\<rparr>"

lemma sampleTimestamp [samples]: "timestamp sampleEnv (d, l) = (Inr sampleTime, (d, l))"
  by (simp add: timestamp_def sampleEnv_def io_defs) code_simp

lemma sampleAppended [samples]:
  "appendAttempt (sampleSnapshot []) (newAttempt (sampleSnapshot []) sampleUuid (js ''round:7'') sampleTime
      \<lparr>signedNonce = 5, signedRecord = sampleTransaction\<rparr>) = sampleSnapshot [sampleAttempt Signed]"
  by (simp add: appendAttempt_def newAttempt_def sampleSnapshot_def sampleAttempt_def)

lemma sampleValidated [samples]:
  "validateSnapshot (sampleSnapshot [sampleAttempt Signed]) sampleIdentity =
     Inr (sampleSnapshot [sampleAttempt Signed])"
  by (simp add: validate_emb samples)

lemma openGate [samples]:
  "coordinatorGate openCoordinator = Inr \<lparr>gateOpen = True, gateBlockers = [], gatePrimaryReason = None\<rparr>"
  by code_simp

lemma sampleFields [samples]:
  "envViem sampleEnv = sampleViem" "envSummaryOk sampleEnv b = True" "envRandomUuid sampleEnv = ret sampleUuid"
  "nextNonce (sampleSnapshot []) = 5" "attempts (sampleSnapshot []) = []"
  "saveJournal (envStore sampleEnv) s (d, l) = (Inr (), (Present s, l))"
  by (simp_all add: sampleEnv_def sampleSnapshot_def sampleStore_def)

lemma samplePrepare:
  "\<exists>t. prepareAttempt sampleEnv sampleAccount sampleCall (js ''round:7'') None (openCoordinator, sampleWorld) =
     (Inr (Prepared samplePrepared), t)"
proof -
  have v: "verifyJournalSnapshot sampleViem (embSnapshot (sampleSnapshot [sampleAttempt Signed])) sampleIdentity =
      Inr (sampleSnapshot [sampleAttempt Signed])"
    using sampleVerified(2) by (simp add: verified_def)
  have fin: "wp (finishWrite sampleEnv None) (\<lambda>_. Q) Thr (c, w)"
    if "pendingWrite c = Some p" "capacity c = JNum 4" "\<And>d v. capacity d = JNum 4 \<Longrightarrow> Q (d, v)"
    for c w Q Thr p
  proof -
    have c: "capacity (settleWrite None p c) = JNum 4"
      using settleWrite_kept [of c None p] that by (simp add: frame_def)
    have "wp (refresh sampleEnv None (writeOperation p)) (\<lambda>_. Q) Thr (settleWrite None p c, w)"
    proof (rule wp_refresh)
      show "isPositiveSafeInteger (capacity (settleWrite None p c))" using c samplePositive by simp
      show "Q (d, v)" if "refreshed (settleWrite None p c) d" for d v
        using \<open>\<And>d v. capacity d = JNum 4 \<Longrightarrow> Q (d, v)\<close> refreshed_frame [OF that] c by (simp add: frame_def)
    qed
    with that show ?thesis by (simp add: finishWrite_def wp_simps)
  qed
  have lv: "wp (leave sampleEnv None PrepareAttemptOp) (\<lambda>_. Q) Thr (c, w)"
    if "capacity c = JNum 4" "\<And>t. Q t" for c w Q Thr
    unfolding leave_def wp_andThen wp_upd
    by (rule wp_refresh) (use that samplePositive in simp_all)
  have steps: "wp (timestamp sampleEnv) Q Thr (d, l) = Q sampleTime (d, l)"
    "wp (signPreparedTransaction sampleViem sampleIdentity 5 sampleAccount sampleCall) R Thr'' w =
       R \<lparr>signedNonce = 5, signedRecord = sampleTransaction\<rparr> w" for Q R Thr Thr'' d l w
    by (simp_all add: wp_def samples)
  have save: "wp (saveJournal (envStore sampleEnv) s) P Thr' (d, l) = P () (Present s, l)" for P Thr' d l s
    by (simp_all add: wp_def samples)
  have openFields: "current openCoordinator = Present (sampleSnapshot [])"
    "persistence openCoordinator = samplePersistence (sampleSnapshot [])"
    "signerIdentity openCoordinator = sampleIdentity" "capacity openCoordinator = JNum 4"
    "inspectionOwner openCoordinator = None" "\<not> busy openCoordinator" "\<not> emitting openCoordinator"
    "pendingWrite openCoordinator = None" "persistenceIdle openCoordinator" "blockedSince openCoordinator = None"
    by (simp_all add: openCoordinator_def freshCoordinator_def samplePersistence_def current_def
        persistenceIdle_def)
  have workId: "workId (js ''round:7'')" by code_simp
  have "wp (prepareAttempt sampleEnv sampleAccount sampleCall (js ''round:7'') None)
     (\<lambda>r _. r = Prepared samplePrepared) (\<lambda>_ _. False) (openCoordinator, sampleWorld)"
    apply (simp add: prepareAttempt_def assertAvailable_def assertNoPendingWrite_def wp_simps samples
        openFields statusOpen_def workId)
    apply (simp add: prepareBody_def wp_simps samples steps openFields Let_def sampleWorld_def)
    apply (simp add: wp_onPersistence savePersistence_def persistPending_def wp_simps v openFields save
        samplePersistence_def)
    apply (rule fin; simp add: openFields wp_upd)
    apply (rule lv; simp add: samplePrepared_def sampleTransaction_def)
    done
  then show ?thesis by (auto simp: wp_def split: prod.splits sum.splits)
qed

lemma sampleSend:
  "fst (broadcastAttempt sampleEnv sampleClient sampleUuid None (sendingCoordinator, sampleWorld)) =
     Inr (Acknowledged samplePrepared)"
  by code_simp

end
