(* ===== verification/CoordinatorClaims.thy ===== *)
theory CoordinatorClaims
  imports FailedWrite SampleWorld
begin

text \<open>
  The properties of the coordinator's operations and of whole runs of it, drawn from the invariant,
  the rules of each operation, the step relation and the effect log.
\<close>

definition sampleHead :: BlockAnchor where
  "sampleHead = \<lparr>blockNumber = 20, blockHash = hexId 32 50\<rparr>"

subsection \<open>Runs\<close>

lemma sampleCreated: "\<exists>c v. createCoordinator sampleEnv sampleIdentity (JNum 4) sampleWorld = (Inr c, v)"
proof -
  have "case createCoordinator sampleEnv sampleIdentity (JNum 4) sampleWorld of (Inr _, _) \<Rightarrow> True | _ \<Rightarrow> False"
    by code_simp
  then show ?thesis by (auto split: prod.splits sum.splits)
qed

lemma samplePreparedRun:
  "\<exists>t. coRun sampleEnv (openCoordinator, sampleWorld) [PreparedStep samplePrepared] t"
  using samplePrepare coRun.intros coStep.prepared by metis

lemma sampleSentRun:
  "\<exists>t. coRun sampleEnv (sendingCoordinator, sampleWorld) [SentStep samplePrepared] t"
proof -
  obtain r t where b: "broadcastAttempt sampleEnv sampleClient sampleUuid None (sendingCoordinator, sampleWorld) = (r, t)"
    by (metis surj_pair)
  with sampleSend have "r = Inr (Acknowledged samplePrepared)" by simp
  with b have "coStep sampleEnv (sendingCoordinator, sampleWorld) (SentStep (sentAttempt (Acknowledged samplePrepared))) t"
    by (intro coStep.sent) simp
  then have "coStep sampleEnv (sendingCoordinator, sampleWorld) (SentStep samplePrepared) t" by simp
  from coRun.step [OF this coRun.stop] show ?thesis by blast
qed

text \<open>
  C1: however a coordinator was created and whatever sequence of public operations, abandonments and
  changes of the world follows, with any client, store, clock and account, its state satisfies the
  invariant and its journal has evolved from the loaded one: nonce counters never fall and no attempt
  was rewritten or dropped before its nonce was settled.
\<close>

theorem run_invariant:
  assumes "createCoordinator E ident cap w = (Inr c, v)" and "coRun E (c, v) ls (d, u)"
  shows "calm (envViem E) d \<and> signerIdentity c = ident \<and> evolves (current c) (current d)"
  using createCoordinator_calm [OF assms(1)] coRun_kept [OF assms(2)] by (simp add: stepKept_def)

theorem run_invariant_witness:
  "\<exists>c. calm sampleViem c \<and> signerIdentity c = sampleIdentity \<and> evolves (current c) (current c)"
proof -
  obtain c v where c: "createCoordinator sampleEnv sampleIdentity (JNum 4) sampleWorld = (Inr c, v)"
    using sampleCreated by blast
  show ?thesis using run_invariant [OF c coRun.stop] by (auto simp: sampleEnv_def)
qed

text \<open>
  C2: the nonces of the attempts a run prepares strictly increase, whatever fails, is retried,
  recovered or resolved in between: no nonce is ever given out twice.
\<close>

theorem prepared_nonces_increase:
  assumes "calm (envViem E) c" and "coRun E (c, w) ls t"
  shows "sorted_wrt (<) (map paNonce (preparedIn ls))"
  using coRun_increasing [OF assms(2)] assms(1) by simp

theorem prepared_nonces_increase_witness:
  "sorted_wrt (<) (map paNonce (preparedIn [PreparedStep samplePrepared]))"
proof -
  obtain t where "coRun sampleEnv (openCoordinator, sampleWorld) [PreparedStep samplePrepared] t"
    using samplePreparedRun by blast
  then show ?thesis by (rule prepared_nonces_increase [rotated]) (simp add: samples)
qed

text \<open>
  C3: two broadcasts of a run with the same nonce are broadcasts of the same attempt and transaction
  hash: the signer never puts two transactions of its own on the network for one nonce.
\<close>

theorem one_transaction_per_nonce:
  assumes "calm (envViem E) c" and "coRun E (c, w) ls t"
    and "SentStep p \<in> set ls" and "SentStep q \<in> set ls" and "paNonce p = paNonce q"
  shows "p = q"
  using coRun_sent [OF assms(2)] assms by simp

theorem one_transaction_per_nonce_witness:
  "\<exists>ls t. coRun sampleEnv (sendingCoordinator, sampleWorld) ls t \<and> SentStep samplePrepared \<in> set ls \<and>
     samplePrepared = samplePrepared"
proof -
  obtain t where t: "coRun sampleEnv (sendingCoordinator, sampleWorld) [SentStep samplePrepared] t"
    using sampleSentRun by blast
  have "samplePrepared = samplePrepared"
    by (rule one_transaction_per_nonce [OF _ t]) (simp_all add: samples)
  then show ?thesis using t by fastforce
qed

text \<open>
  C11: once a nonce beyond the journal's was observed for the signer, the block it puts on the
  coordinator is never lifted, and from then on no run prepares or sends anything.
\<close>

theorem unattributed_activity_is_final:
  assumes "calm (envViem E) c" and "coRun E (c, w) ls (d, v)"
    and "UnattributedSignerActivity \<in> blockers c"
  shows "UnattributedSignerActivity \<in> blockers d \<and> set ls \<subseteq> {QuietStep}"
  using coRun_latched [OF assms(2)] assms(1,3) by simp

definition latchedCoordinator :: coordinator where
  "latchedCoordinator = openCoordinator\<lparr>blockers := {UnattributedSignerActivity}\<rparr>"

lemma latchedCoordinator_calm [samples]: "calm sampleViem latchedCoordinator"
  by (simp add: calm_def inv_defs quiet_def coordinatorBlocker_def openCoordinator_def latchedCoordinator_def freshCoordinator_def
      samplePersistence_def current_def samples policyCovers_def)
    (simp add: sampleSnapshot_def sampleObservation_def searchExhausted_def oldestUnresolved_def)

theorem unattributed_activity_is_final_witness:
  "UnattributedSignerActivity \<in> blockers latchedCoordinator \<and> set [QuietStep] \<subseteq> {QuietStep}"
proof (rule unattributed_activity_is_final)
  show "calm (envViem sampleEnv) latchedCoordinator" by (simp add: samples)
  show "coRun sampleEnv (latchedCoordinator, sampleWorld) [QuietStep] (latchedCoordinator, (Missing, [sampleBytes]))"
    unfolding sampleWorld_def by (rule coRun.step [OF coStep.world coRun.stop])
  show "UnattributedSignerActivity \<in> blockers latchedCoordinator" by (simp add: latchedCoordinator_def)
qed

subsection \<open>Operations\<close>

text \<open>
  C4: a broadcast, in any world, has one of these traces: nothing (it was refused, or the marker was
  rejected); the failed save of the marker and no request; for an attempt not yet marked, the
  successful save of the journal with exactly this attempt marked and then one request with its last
  signed bytes; for a marked one, just the request. Every trace but the empty one needs the permit.
\<close>

theorem marker_saved_before_sending:
  "\<exists>added. logIn (snd (broadcastAttempt (loggedEnv E) (loggedClient C) aid cy (c, (w, l)))) = l @ added \<and>
     (added = [] \<or> (\<exists>s a. canBroadcast c \<and> current c = Present s \<and> oldestUnresolved s = Some a \<and>
        aid = attemptId a \<and> added \<in> broadcastEffects s a))"
  by (rule broadcast_logged)

text \<open>
  C15: no other operation that is given a client sends anything: recovery, inclusion checks and the
  opening of a head bracket are the same whatever the client's request to send would do.
\<close>

theorem only_broadcast_sends:
  fixes C :: "'w chain_client"
  shows "recover E (C\<lparr>requestSendRaw := f\<rparr>) b m cy = recover E C b m cy \<and>
    checkInclusions E (C\<lparr>requestSendRaw := f\<rparr>) head k cy = checkInclusions E C head k cy \<and>
    openHead (C\<lparr>requestSendRaw := f\<rparr>) head g = openHead C head g \<and>
    recoverInspection E (C\<lparr>requestSendRaw := f\<rparr>) b m g cy = recoverInspection E C b m g cy \<and>
    checkInclusionsInspection E (C\<lparr>requestSendRaw := f\<rparr>) head k g cy = checkInclusionsInspection E C head k g cy"
  by (simp add: operations_unsent)

text \<open>
  C7: a preparation that succeeds appends to the journal one attempt with the journal's next nonce,
  for a work identity it did not hold, whose only transaction is authentic for the signer, chain and
  nonce and carries the requested call, and grants the permit for it; it needs the open gate: every
  attempt included and verified, nothing blocked, capacity left. Work that is already retained
  changes nothing at all; a failure leaves the committed journal as it was and grants no permit.
\<close>

theorem prepare_outcomes:
  assumes "calm (envViem E) c"
  shows "case prepareAttempt E account tx wid cy (c, w) of
      (Inr (Prepared p), (d, v)) \<Rightarrow>
        (\<exists>s a g. preparedAs (envViem E) tx wid p c d s a \<and> broadcastPermit d = Some (attemptId a) \<and>
           wid \<notin> attemptWorkId ` set (attempts s) \<and> workId wid \<and> coordinatorGate c = Inr g \<and> statusOpen c g)
    | (Inr (AlreadyRetained aid wd), t) \<Rightarrow>
        t = (c, w) \<and> wd = wid \<and> (\<exists>s a. current c = Present s \<and> a \<in> set (attempts s) \<and>
           attemptWorkId a = wid \<and> attemptId a = aid)
    | (Inl e, (d, v)) \<Rightarrow> d = c \<or> current d = current c \<and> broadcastPermit d = None"
proof -
  have "restInv (envViem E) c" using assms by (simp add: calm_def)
  then have "wp (prepareAttempt E account tx wid cy)
     (\<lambda>r t. case r of
         Prepared p \<Rightarrow> (\<exists>s a g. preparedAs (envViem E) tx wid p c (fst t) s a \<and>
           broadcastPermit (fst t) = Some (attemptId a) \<and>
           wid \<notin> attemptWorkId ` set (attempts s) \<and> workId wid \<and> coordinatorGate c = Inr g \<and> statusOpen c g)
       | AlreadyRetained aid wd \<Rightarrow> t = (c, w) \<and> wd = wid \<and> (\<exists>s a. current c = Present s \<and>
           a \<in> set (attempts s) \<and> attemptWorkId a = wid \<and> attemptId a = aid))
     (\<lambda>_ t. fst t = c \<or> current (fst t) = current c \<and> broadcastPermit (fst t) = None) (c, w)"
    by (rule prepareAttempt_wp [OF _ refl]) auto
  then show ?thesis
    by (cases "prepareAttempt E account tx wid cy (c, w)")
      (simp add: wp_def split: prod.splits sum.splits PrepareAttemptResult.splits)
qed

theorem prepare_outcomes_witness:
  "\<exists>d s a g. preparedAs sampleViem sampleCall (js ''round:7'') samplePrepared openCoordinator d s a \<and>
     broadcastPermit d = Some (attemptId a) \<and> js ''round:7'' \<notin> attemptWorkId ` set (attempts s) \<and>
     workId (js ''round:7'') \<and> coordinatorGate openCoordinator = Inr g \<and> statusOpen openCoordinator g"
proof -
  obtain t where t: "prepareAttempt sampleEnv sampleAccount sampleCall (js ''round:7'') None
     (openCoordinator, sampleWorld) = (Inr (Prepared samplePrepared), t)" using samplePrepare by blast
  have "calm (envViem sampleEnv) openCoordinator" by (simp add: samples)
  from prepare_outcomes [OF this, where account = sampleAccount and tx = sampleCall and
      wid = "js ''round:7''" and cy = None and w = sampleWorld, unfolded t]
  show ?thesis by (cases t) (auto simp: samples)
qed

text \<open>
  At most the oldest attempt is gone, and then on evidence that settles its nonce, anchored at the
  block \<open>b\<close> where the nonce of the signer is already past it.
\<close>

definition removalJustified ::
  "'w chain_client \<Rightarrow> BlockAnchor \<Rightarrow> TransactionJournalSnapshot \<Rightarrow> TransactionJournalSnapshot \<Rightarrow> bool" where
  "removalJustified C b s t =
     (length (attempts t) = length (attempts s) \<and> durableNextNonce t = durableNextNonce s \<or>
     (\<exists>a (obs :: AnchoredNonceObservation) e. attempts s = a # attempts t \<and> durableNextNonce t = attemptNonce a + 1 \<and>
        anchor obs = b \<and> attemptNonce a < obsNonce obs \<and> evidenceAnchor e = b \<and>
        justifiedEvidence C (signer (identity s)) a e))"

lemma recovered_removal:
  fixes C :: "'w chain_client"
  assumes "recoveryEffect C b m c r d" and "current c = Present s"
  shows "\<exists>t. current d = Present t \<and> nextNonce t = nextNonce s \<and>
    removalJustified C b s t"
proof -
  obtain i where i: "inspectionOk C s b m i" "recoveredTo c s i (current d)"
    using assms by (auto simp: recoveryEffect_def)
  show ?thesis
  proof (cases "current d = Present s")
    case False
    with i(2) obtain obs p t where
      up: "recoveryUpdate (signer (signerIdentity c)) s (recoverySeen c s obs) i = Inr (p, t)"
      and t: "current d = Present t" by (auto simp: recoveredTo_def)
    note n = recoveryUpdate_nonces [OF up]
    show ?thesis
    proof (cases "\<exists>o1 e a as. i = ResolutionAvailable o1 e \<and> attempts s = a # as \<and> attempts t = as \<and>
        durableNextNonce t = attemptNonce a + 1")
      case True
      then obtain o1 e a where a: "i = ResolutionAvailable o1 e" "attempts s = a # attempts t"
        "durableNextNonce t = attemptNonce a + 1" by blast
      with i(1) have "anchor o1 = b \<and> attemptNonce a < obsNonce o1 \<and> evidenceAnchor e = b \<and>
        justifiedEvidence C (signer (identity s)) a e" by auto
      with a n(1) t show ?thesis unfolding removalJustified_def by blast
    next
      case False
      with n have "durableNextNonce t = durableNextNonce s" by blast
      moreover from n(2) [OF this] False have "length (attempts t) = length (attempts s)" by auto
      ultimately show ?thesis using n(1) t unfolding removalJustified_def by blast
    qed
  qed (auto simp: removalJustified_def)
qed

text \<open>
  C8: whatever a recovery ends with, it never gives a nonce back or away, and it takes at most one
  attempt out of the journal: the oldest, and only on evidence anchored at the requested block that
  settles its nonce: the canonical receipt of one of its own transactions, or a foreign transaction
  of the signer with its nonce found by a linked scan.
\<close>

theorem recovery_removes_only_justified:
  fixes C :: "'w chain_client" and w :: 'w
  assumes "calm (envViem E) c" and "current c = Present s" and "recover E C b m cy (c, w) = (r, (d, v))"
  shows "\<exists>t. current d = Present t \<and> nextNonce t = nextNonce s \<and>
    removalJustified C b s t"
proof -
  let ?P = "\<lambda>d. \<exists>t. current d = Present t \<and> nextNonce t = nextNonce s \<and>
    removalJustified C b s t"
  have "?P c" using assms(2) by (auto simp: removalJustified_def)
  moreover have "?P x" if "recoveryEffect C b m c q x" for q x by (rule recovered_removal [OF that assms(2)])
  ultimately have "wp (recover E C b m cy) (\<lambda>_ t. ?P (fst t)) (\<lambda>_ t. ?P (fst t)) (c, w)"
    by (intro recover_wp [OF assms(1) refl]) (simp_all only: fst_conv, metis)
  from wp_run [OF this assms(3)] show ?thesis by (simp only: fst_conv)
qed

theorem recovery_removes_only_justified_witness:
  "\<exists>r d v t. recover sampleEnv sampleClient sampleHead 100 None
      (sendingCoordinator, sampleWorld) = (r, (d, v)) \<and> current d = Present t \<and> nextNonce t = 6"
proof -
  obtain r d v where run: "recover sampleEnv sampleClient sampleHead 100 None
      (sendingCoordinator, sampleWorld) = (r, (d, v))" by (metis surj_pair)
  have c: "calm (envViem sampleEnv) sendingCoordinator" by (simp add: samples)
  have s: "current sendingCoordinator = Present (sampleSnapshot [sampleAttempt BroadcastMayHaveOccurred])"
    by (simp add: sendingCoordinator_def freshCoordinator_def samplePersistence_def current_def)
  have "nextNonce (sampleSnapshot [sampleAttempt BroadcastMayHaveOccurred]) = 6"
    by (simp add: sampleSnapshot_def)
  then show ?thesis using recovery_removes_only_justified [OF c s run] run by auto
qed

text \<open>
  C9: a recovery that returns leaves a permit to broadcast only for the oldest attempt of the
  journal, when it is not included, its nonce is exactly the signer's next one at the requested
  block, none of its transactions has a canonical receipt, and nothing blocks the coordinator.
\<close>

theorem recovery_permit_is_justified:
  fixes C :: "'w chain_client" and w :: 'w
  assumes "calm (envViem E) c"
  shows "case recover E C b m cy (c, w) of
      (Inr r, (d, v)) \<Rightarrow> broadcastPermit d = None \<or>
        (\<exists>s a as obs receipt. current c = Present s \<and> attempts s = a # as \<and>
           r = RecoveryInspected (RecoveryUnresolved obs receipt None) \<and>
           broadcastPermit d = Some (attemptId a) \<and> \<not> isIncluded a \<and>
           anchor obs = b \<and> obsNonce obs = attemptNonce a \<and> blockers d = {} \<and> recoveryComplete d \<and>
           (receipt = ReceiptNotFound \<or> (\<exists>h e. receipt = ForkServedReceipt h e)))
    | (Inl e, (d, v)) \<Rightarrow> d = c \<or> broadcastPermit d = None"
proof -
  let ?Q = "\<lambda>r d. broadcastPermit d = None \<or>
        (\<exists>s a as obs receipt. current c = Present s \<and> attempts s = a # as \<and>
           r = RecoveryInspected (RecoveryUnresolved obs receipt None) \<and>
           broadcastPermit d = Some (attemptId a) \<and> \<not> isIncluded a \<and>
           anchor obs = b \<and> obsNonce obs = attemptNonce a \<and> blockers d = {} \<and> recoveryComplete d \<and>
           (receipt = ReceiptNotFound \<or> (\<exists>h e. receipt = ForkServedReceipt h e)))"
  have q: "?Q r d" if "recoveryEffect C b m c r d" for r d
  proof (cases "current c")
    case (Present s)
    with that obtain i where "r = RecoveryInspected i" "inspectionOk C s b m i" "permitJust s i d"
      by (auto simp: recoveryEffect_def)
    with Present show ?thesis by (cases "broadcastPermit d") (auto simp: permitJust_def)
  qed (use that in \<open>simp add: recoveryEffect_def\<close>)
  have "wp (recover E C b m cy) (\<lambda>r t. ?Q r (fst t)) (\<lambda>_ t. fst t = c \<or> broadcastPermit (fst t) = None) (c, w)"
    by (rule recover_wp [OF assms refl]) (simp_all only: fst_conv q, simp_all)
  then show ?thesis
    by (cases "recover E C b m cy (c, w)") (simp add: wp_def split: prod.splits sum.splits)
qed

theorem recovery_permit_is_justified_witness:
  "case recover sampleEnv sampleClient sampleHead 100 None
      (openCoordinator, sampleWorld) of
      (Inr r, (d, v)) \<Rightarrow> broadcastPermit d = None
    | (Inl e, (d, v)) \<Rightarrow> broadcastPermit d = None"
proof -
  have c: "calm (envViem sampleEnv) openCoordinator" by (simp add: samples)
  have "current openCoordinator = Present (sampleSnapshot [])" "attempts (sampleSnapshot []) = []"
    "broadcastPermit openCoordinator = None"
    by (simp_all add: openCoordinator_def freshCoordinator_def samplePersistence_def current_def sampleSnapshot_def)
  then show ?thesis
    using recovery_permit_is_justified [OF c, where C = sampleClient and
        b = "sampleHead" and m = 100 and cy = None and w = sampleWorld]
    by (auto split: prod.splits sum.splits)
qed

text \<open>What the journal and the authorities are after the inclusion checks returned.\<close>

fun checkedOutcome ::
  "BlockAnchor \<Rightarrow> coordinator \<Rightarrow> TransactionJournalSnapshot \<Rightarrow> SignerInclusionInspection \<Rightarrow> coordinator \<Rightarrow> bool" where
  "checkedOutcome head c s (Inspected obs as allDone bid) d =
     (list_all2 sameCore as (attempts s) \<and> anchor obs = head \<and>
      current d = Present (s\<lparr>lastObservation := inclusionSeen c s obs, attempts := as\<rparr>) \<and>
      inclusionChecksComplete d = allDone \<and>
      (allDone \<longrightarrow> list_all (\<lambda>a. verifiedAt head a \<and> attemptNonce a < obsNonce obs) as) \<and>
      (broadcastPermit d = None \<or> broadcastPermit d = bid \<and> recoveryComplete d \<and> blockers d = {}))"
| "checkedOutcome head c s r d =
     (current d = current c \<and> \<not> inclusionChecksComplete d \<and> broadcastPermit d = None)"

text \<open>
  C10: when inclusion checks return with a complete inspection, the committed journal holds the same
  attempts, every one of them included, confirmed at the inspected head and with its nonce consumed
  there; an incomplete one never authorises a preparation; and a permit names the attempt the
  inspection chose. When they return without an inspection, the journal is untouched; when they
  throw, no permit is left that was not there before.
\<close>

theorem checked_inclusions:
  fixes C :: "'w chain_client" and w :: 'w
  assumes "calm (envViem E) c" and "current c = Present s"
  shows "case checkInclusions E C head m cy (c, w) of
      (Inr r, (d, v)) \<Rightarrow> checkedOutcome head c s r d
    | (Inl e, (d, v)) \<Rightarrow> d = c \<or> broadcastPermit d = None"
proof -
  have q: "checkedOutcome head c s r d" if "checkedEffect C head c r d" for r d
  proof -
    from that assms(2) have e: "inclusionEffect C head c s r d" by (simp add: checkedEffect_def)
    show ?thesis
    proof (cases r)
      case (Inspected obs as allDone bid)
      with e have ok: "inclusionsOk C s head obs as allDone bid" by simp
      have "list_all2 sameCore as (attempts s)" by (rule inclusions_core [OF ok])
      with ok e Inspected show ?thesis
        by (cases "broadcastPermit d") (auto simp: inclusionsOk_def list_all_iff)
    qed (use e assms(2) in auto)
  qed
  have "wp (checkInclusions E C head m cy) (\<lambda>r t. checkedOutcome head c s r (fst t))
      (\<lambda>_ t. fst t = c \<or> broadcastPermit (fst t) = None) (c, w)"
    by (rule checkInclusions_wp [OF assms(1) refl]) (simp_all only: fst_conv q, simp_all)
  then show ?thesis
    by (cases "checkInclusions E C head m cy (c, w)") (simp add: wp_def split: sum.splits)
qed

theorem checked_inclusions_witness:
  "case checkInclusions sampleEnv sampleClient sampleHead None None
      (openCoordinator, sampleWorld) of
      (Inr r, (d, v)) \<Rightarrow>
        checkedOutcome sampleHead openCoordinator (sampleSnapshot []) r d
    | (Inl e, (d, v)) \<Rightarrow> d = openCoordinator \<or> broadcastPermit d = None"
proof (rule checked_inclusions)
  show "calm (envViem sampleEnv) openCoordinator" by (simp add: samples)
  show "current openCoordinator = Present (sampleSnapshot [])"
    by (simp add: openCoordinator_def freshCoordinator_def samplePersistence_def current_def)
qed

lemma unavailable_refused:
  "inspectionOwner c \<noteq> None \<or> busy c \<or> emitting c \<Longrightarrow>
    (\<exists>e. andThen assertAvailable k (c, w) = (Inl e, (c, w)))"
  by (auto simp: assertAvailable_def readC_def andThen_def unlessThrow_def ret_def throw_def)

lemma andThen_refused: "m s = (Inl e, t) \<Longrightarrow> andThen m k s = (Inl e, t)"
  by (simp add: andThen_def)

lemma begin_refused:
  "inspectionOwner c \<noteq> None \<or> busy c \<or> emitting c \<Longrightarrow> \<exists>e. beginInspection (c, w) = (Inl e, (c, w))"
  unfolding beginInspection_def by (rule unavailable_refused)

text \<open>
  C13: a failed write stands until it is retried. While it stands, a preparation, a broadcast, a
  recovery, an inclusion check, the beginning of an inspection and its end are refused, with the
  coordinator and the world unchanged. A recovery or an inclusion check inside an inspection ends with
  an error before it reads the chain; opening a head bracket and abandoning an inspection may have an
  effect on the inspection; and the observation of a reconciliation is let through to what it
  observes. But none of these operations, however it ends, changes the committed journal, the pending
  snapshot, the kind of the pending write, the blockers or the recovery state, or gives a permit or a
  completed inclusion check that was not there.
\<close>

theorem failed_write_blocks:
  assumes "writeFailed c"
  shows "refused (prepareAttempt E account tx wid cy) (c, w) \<and>
    refused (broadcastAttempt E C aid cy) (c, w) \<and>
    refused (recover E C b m cy) (c, w) \<and>
    refused (checkInclusions E C head k cy) (c, w) \<and>
    refused beginInspection (c, w) \<and>
    refused (finishInspection E g) (c, w) \<and>
    repelled (recoverInspection E C b m g cy) (c, w) \<and>
    repelled (checkInclusionsInspection E C head k g cy) (c, w) \<and>
    standing (c, w) (snd (openHead C head g (c, w))) \<and>
    standing (c, w) (snd (requestAbandon g (c, w))) \<and>
    standing (c, w) (snd (completeAbandonment E g (c, w))) \<and>
    observedAction action (c, w) (snd (observeReconciliation E action cy (c, w)))"
proof -
  have "standing (c, w) (snd (openHead C head g (c, w)))" "standing (c, w) (snd (requestAbandon g (c, w)))"
    "standing (c, w) (snd (completeAbandonment E g (c, w)))"
    using stands_openHead stands_abandon unfolding along_def by blast+
  then show ?thesis
    by (intro conjI failed_refuses [OF assms] failed_repels [OF assms] observed_stands)
qed

definition failedCoordinator :: coordinator where
  "failedCoordinator =
     openCoordinator\<lparr>persistence := (samplePersistence (sampleSnapshot []))\<lparr>stateValue := Failed,
        pendingSnapshot := Some (sampleSnapshot [sampleAttempt Signed])\<rparr>,
        recoveryComplete := False, inclusionChecksComplete := False,
        pendingWrite := Some PendingPrepared, attemptLog := Some [sampleBytes]\<rparr>"

theorem failed_write_blocks_witness:
  "refused (recover sampleEnv sampleClient sampleHead 100 None) (failedCoordinator, sampleWorld) \<and>
   repelled (recoverInspection sampleEnv sampleClient sampleHead 100 1 None) (failedCoordinator, sampleWorld)"
proof -
  have "writeFailed failedCoordinator" by (simp add: failedCoordinator_def writeFailed_def)
  from failed_write_blocks [OF this, of sampleEnv sampleAccount sampleCall "[]" None sampleWorld sampleClient "[]"
      sampleHead 100 sampleHead None 1 "ret ()"]
  show ?thesis by blast
qed

text \<open>
  C12: the retry writes the very snapshot whose write failed: on success it is the committed journal,
  nothing is pending, and no permit or inclusion authority comes with it; otherwise the pending
  snapshot is still the same.
\<close>

theorem retry_commits_the_failed_snapshot:
  assumes "calm (envViem E) c" and "stateValue (persistence c) = Failed"
    and "pendingSnapshot (persistence c) = Some s"
  shows "case retryPersistence E cy (c, w) of
      (Inr _, (d, v)) \<Rightarrow> current d = Present s \<and> persistenceIdle d \<and> broadcastPermit d = None \<and>
        \<not> inclusionChecksComplete d \<and> evolves (current c) (Present s)
    | (Inl e, (d, v)) \<Rightarrow> persistence d = persistence c"
proof -
  have "restInv (envViem E) c" using assms(1) by (simp add: calm_def)
  then have "wp (retryPersistence E cy)
     (\<lambda>_ t. current (fst t) = Present s \<and> persistenceIdle (fst t) \<and> broadcastPermit (fst t) = None \<and>
        \<not> inclusionChecksComplete (fst t) \<and> evolves (current c) (Present s))
     (\<lambda>_ t. persistence (fst t) = persistence c) (c, w)"
    by (rule retryPersistence_wp [OF _ refl]) (use assms(3) in \<open>simp_all del: evolves.simps\<close>)
  then show ?thesis
    by (cases "retryPersistence E cy (c, w)") (simp add: wp_def split: sum.splits)
qed

theorem retry_commits_the_failed_snapshot_witness:
  "case retryPersistence sampleEnv None (failedCoordinator, sampleWorld) of
      (Inr _, (d, v)) \<Rightarrow> current d = Present (sampleSnapshot [sampleAttempt Signed])
    | (Inl e, (d, v)) \<Rightarrow> persistence d = persistence failedCoordinator"
proof -
  have c: "calm (envViem sampleEnv) failedCoordinator"
    by (simp add: calm_def inv_defs quiet_def failedCoordinator_def openCoordinator_def freshCoordinator_def
        samplePersistence_def current_def samples policyCovers_def)
      (simp add: sampleSnapshot_def sampleObservation_def searchExhausted_def oldestUnresolved_def
        sampleAttempt_def sampleTransaction_def sampleBytes_def allSignedBytes_def sampleIdentity_def)
  from retry_commits_the_failed_snapshot [OF this, where s = "sampleSnapshot [sampleAttempt Signed]" and
      cy = None and w = sampleWorld]
  show ?thesis by (auto simp: failedCoordinator_def split: prod.splits sum.splits)
qed

text \<open>
  C14: while an operation is running, an event is being logged or an inspection is owned, every
  operation of the coordinator itself is refused with the coordinator and the world unchanged.
\<close>

theorem operations_exclude_each_other:
  assumes "inspectionOwner c \<noteq> None \<or> busy c \<or> emitting c"
  shows "(\<exists>e. prepareAttempt E account tx wid cy (c, w) = (Inl e, (c, w))) \<and>
    (\<exists>e. broadcastAttempt E C aid cy (c, w) = (Inl e, (c, w))) \<and>
    (\<exists>e. beginInspection (c, w) = (Inl e, (c, w))) \<and>
    (\<exists>e. recover E C b m cy (c, w) = (Inl e, (c, w))) \<and>
    (\<exists>e. checkInclusions E C head k cy (c, w) = (Inl e, (c, w))) \<and>
    (\<exists>e. retryPersistence E cy (c, w) = (Inl e, (c, w)))"
proof (intro conjI)
  obtain e where "beginInspection (c, w) = (Inl e, (c, w))" using begin_refused [OF assms, of w] by metis
  then show "\<exists>e. recover E C b m cy (c, w) = (Inl e, (c, w))"
    "\<exists>e. checkInclusions E C head k cy (c, w) = (Inl e, (c, w))"
    "\<exists>e. beginInspection (c, w) = (Inl e, (c, w))"
    by (simp_all add: recover_def checkInclusions_def inOwnInspection_def andThen_def)
  show "\<exists>e. prepareAttempt E account tx wid cy (c, w) = (Inl e, (c, w))"
    unfolding prepareAttempt_def by (rule unavailable_refused [OF assms])
  show "\<exists>e. broadcastAttempt E C aid cy (c, w) = (Inl e, (c, w))"
    unfolding broadcastAttempt_def by (rule unavailable_refused [OF assms])
  show "\<exists>e. retryPersistence E cy (c, w) = (Inl e, (c, w))"
    unfolding retryPersistence_def by (rule unavailable_refused [OF assms])
qed

theorem operations_exclude_each_other_witness:
  "\<exists>e. recover sampleEnv sampleClient sampleHead 100 None (openCoordinator\<lparr>busy := True\<rparr>, sampleWorld) =
     (Inl e, (openCoordinator\<lparr>busy := True\<rparr>, sampleWorld))"
  using operations_exclude_each_other [of "openCoordinator\<lparr>busy := True\<rparr>" sampleEnv sampleAccount sampleCall "[]"
      None sampleWorld sampleClient "[]" sampleHead 100 sampleHead None]
  by simp

text \<open>
  C16: in every state of every run, the signed transactions the journal retains, and those of a
  snapshot whose write failed, are all covered by the policy that keeps them out of the logs.
\<close>

theorem signed_bytes_are_covered:
  assumes "createCoordinator E ident cap w = (Inr c, v)" and "coRun E (c, v) ls (d, u)"
  shows "(case current d of Missing \<Rightarrow> True | Present s \<Rightarrow> policyCovers d (attempts s)) \<and>
    (case (stateValue (persistence d), pendingSnapshot (persistence d)) of
       (Failed, Some s) \<Rightarrow> policyCovers d (attempts s) | _ \<Rightarrow> True)"
proof -
  have "calm (envViem E) d"
    using createCoordinator_calm [OF assms(1)] coRun_kept [OF assms(2)] by (simp add: stepKept_def)
  then show ?thesis
    by (auto simp: calm_def inv_defs split: TransactionJournalRead.split persistence_state.split option.split)
qed

theorem signed_bytes_are_covered_witness:
  "\<exists>c. case current c of Missing \<Rightarrow> True | Present s \<Rightarrow> policyCovers c (attempts s)"
proof -
  obtain c v where c: "createCoordinator sampleEnv sampleIdentity (JNum 4) sampleWorld = (Inr c, v)"
    using sampleCreated by blast
  show ?thesis using signed_bytes_are_covered [OF c coRun.stop] by blast
qed

end
