(* ===== verification/JournalText.thy ===== *)
theory JournalText
  imports JsonProofs JournalVerify
begin

text \<open>
  \<^verbatim>\<open>state/transaction-journal-serialization.ts\<close>: the journal as text. Encoding validates, prints,
  bounds and verifies; decoding bounds, parses, rebuilds the values and verifies. What is encoded
  decodes to the same snapshot, and only verified snapshots are ever decoded.
\<close>

definition MAX_JOURNAL_BYTES :: nat where
  "MAX_JOURNAL_BYTES = 1048576"

abbreviation INVALID_ENCODING :: exn where
  "INVALID_ENCODING \<equiv> TypeError ''Invalid transaction journal encoding.''"

subsection \<open>Encoding\<close>

text \<open>The loop over all signed transactions, with the length seen so far.\<close>

fun boundSignedBytes :: "nat \<Rightarrow> jstr list \<Rightarrow> exn + unit" where
  "boundSignedBytes n [] = Inr ()"
| "boundSignedBytes n (b # bs) =
     checkE (n + length b \<le> MAX_JOURNAL_BYTES) INVALID_ENCODING (\<lambda>_. boundSignedBytes (n + length b) bs)"

definition requireBoundedContents :: "jstr \<Rightarrow> exn + unit" where
  "requireBoundedContents contents =
     checkE (contents \<noteq> [] \<and> utf8Length contents \<le> MAX_JOURNAL_BYTES) INVALID_ENCODING (\<lambda>_. Inr ())"

definition stringify :: "number_format \<Rightarrow> jsval \<Rightarrow> jstr" where
  "stringify N v = (case toJson v of None \<Rightarrow> js ''undefined'' | Some j \<Rightarrow> printJson N j)"

definition invalidEncoding :: "exn + 'a \<Rightarrow> exn + 'a" where
  "invalidEncoding r = (case r of Inl _ \<Rightarrow> Inl INVALID_ENCODING | Inr x \<Rightarrow> Inr x)"

definition encodeJournalSnapshot ::
  "number_format \<Rightarrow> viem \<Rightarrow> TransactionJournalSnapshot \<Rightarrow> JournalIdentity \<Rightarrow> exn + jstr" where
  "encodeJournalSnapshot N V input expected = invalidEncoding (
     bindE (validateSnapshot input expected) (\<lambda>s.
     bindE (boundSignedBytes 0 (concat (map (\<lambda>a. map signedTransaction (signedTransactions a)) (attempts s)))) (\<lambda>_.
     let contents = stringify N (embSnapshot s) @ [10] in
     bindE (requireBoundedContents contents) (\<lambda>_.
     bindE (verifyJournalSnapshot V (embSnapshot s) expected) (\<lambda>_.
     Inr contents)))))"

subsection \<open>Decoding\<close>

text \<open>A property of a parsed object: \<^verbatim>\<open>undefined\<close> where it is missing.\<close>

definition getMember :: "jsval \<Rightarrow> string \<Rightarrow> jsval" where
  "getMember v name =
     (case v of JObject ps \<Rightarrow> (case ownData ps name of Some x \<Rightarrow> x | None \<Rightarrow> JUndefined) | _ \<Rightarrow> JUndefined)"

definition requireObject :: "jsval \<Rightarrow> exn + jsval" where
  "requireObject input = (case input of JObject _ \<Rightarrow> Inr input | _ \<Rightarrow> Inl INVALID_ENCODING)"

definition decimal :: "jsval \<Rightarrow> exn + jsval" where
  "decimal input =
     (case input of
        JString s \<Rightarrow>
          checkE (s \<noteq> [] \<and> length s \<le> 78 \<and> isDecimalInteger s \<and> (1 < length s \<longrightarrow> hd s \<noteq> 48)) INVALID_ENCODING
            (\<lambda>_. Inr (JBigint (parseBigint s)))
      | _ \<Rightarrow> Inl INVALID_ENCODING)"

definition decodeArray :: "jsval \<Rightarrow> (jsval \<Rightarrow> exn + jsval) \<Rightarrow> exn + jsval" where
  "decodeArray input decodeItem =
     (case input of
        JArray ps \<Rightarrow>
          bindE (mapE (\<lambda>p. case p of DataProp v \<Rightarrow> decodeItem v | NoData \<Rightarrow> decodeItem JUndefined) ps)
            (\<lambda>vs. Inr (arr vs))
      | _ \<Rightarrow> Inl INVALID_ENCODING)"

definition decodeAnchor :: "jsval \<Rightarrow> exn + jsval" where
  "decodeAnchor input =
     bindE (requireObject input) (\<lambda>v.
     bindE (decimal (getMember v ''blockNumber'')) (\<lambda>n.
     Inr (obj [(''blockNumber'', n), (''blockHash'', getMember v ''blockHash'')])))"

definition decodeObservation :: "jsval \<Rightarrow> exn + jsval" where
  "decodeObservation input =
     bindE (requireObject input) (\<lambda>v.
     bindE (decodeAnchor (getMember v ''anchor'')) (\<lambda>a.
     bindE (decimal (getMember v ''nonce'')) (\<lambda>n.
     Inr (obj [(''anchor'', a), (''nonce'', n)]))))"

definition decodeSignedTransaction :: "jsval \<Rightarrow> exn + jsval" where
  "decodeSignedTransaction input =
     bindE (requireObject input) (\<lambda>v.
     Inr (obj [(''transactionHash'', getMember v ''transactionHash''),
       (''signedTransaction'', getMember v ''signedTransaction'')]))"

definition decodeSearch :: "jsval \<Rightarrow> exn + jsval" where
  "decodeSearch input =
     (if input = JNull then Inr JNull else
      bindE (requireObject input) (\<lambda>v.
      bindE (if getMember v ''searchedThrough'' = JNull then Inr JNull
             else decodeAnchor (getMember v ''searchedThrough'')) (\<lambda>through.
      bindE (decodeObservation (getMember v ''lowerBound'')) (\<lambda>lower.
      Inr (obj [(''lowerBound'', lower), (''searchedThrough'', through)])))))"

definition decodeInclusion :: "jsval \<Rightarrow> exn + jsval" where
  "decodeInclusion input =
     (if input = JNull then Inr JNull else
      bindE (requireObject input) (\<lambda>v.
      bindE (decodeAnchor (getMember v ''inclusion'')) (\<lambda>incl.
      bindE (decodeAnchor (getMember v ''observedAt'')) (\<lambda>seen.
      let outcome = getMember v ''outcome'' in
      if outcome = JString (js ''success'') \<or> outcome = JString (js ''reverted'') then
        Inr (obj [(''inclusion'', incl), (''observedAt'', seen), (''outcome'', outcome),
          (''transactionHash'', getMember v ''transactionHash'')])
      else if outcome = JString (js ''replaced'') then
        bindE (decimal (getMember v ''nonceAtAnchor'')) (\<lambda>n.
        Inr (obj [(''inclusion'', incl), (''observedAt'', seen), (''outcome'', outcome),
          (''replacementTransactionHash'', getMember v ''replacementTransactionHash''),
          (''nonceAtAnchor'', n)]))
      else Inl INVALID_ENCODING))))"

definition decodeAttempt :: "jsval \<Rightarrow> exn + jsval" where
  "decodeAttempt input =
     bindE (requireObject input) (\<lambda>v.
     bindE (decimal (getMember v ''nonce'')) (\<lambda>n.
     bindE (decodeArray (getMember v ''signedTransactions'') decodeSignedTransaction) (\<lambda>ts.
     bindE (decodeSearch (getMember v ''replacementSearch'')) (\<lambda>search.
     bindE (decodeInclusion (getMember v ''inclusion'')) (\<lambda>inc.
     Inr (obj [(''attemptId'', getMember v ''attemptId''), (''workId'', getMember v ''workId''), (''nonce'', n),
       (''createdAt'', getMember v ''createdAt''), (''phase'', getMember v ''phase''),
       (''signedTransactions'', ts), (''replacementSearch'', search), (''inclusion'', inc)]))))))"

definition decodeRepair :: "jsval \<Rightarrow> exn + jsval" where
  "decodeRepair input =
     bindE (requireObject input) (\<lambda>v.
     bindE (decimal (getMember v ''previousNextNonce'')) (\<lambda>prev.
     bindE (decimal (getMember v ''nextNonce'')) (\<lambda>n.
     bindE (decodeObservation (getMember v ''observation'')) (\<lambda>seen.
     Inr (obj [(''kind'', getMember v ''kind''), (''at'', getMember v ''at''), (''previousNextNonce'', prev),
       (''nextNonce'', n), (''observation'', seen)])))))"

definition decodeRepairs :: "jsval \<Rightarrow> exn + jsval" where
  "decodeRepairs input =
     (case input of
        JArray ps \<Rightarrow>
          checkE (length ps \<le> MAX_RETAINED_NONCE_REPAIRS) INVALID_ENCODING (\<lambda>_. decodeArray input decodeRepair)
      | _ \<Rightarrow> Inl INVALID_ENCODING)"

definition decodeRoot :: "jsval \<Rightarrow> exn + jsval" where
  "decodeRoot input =
     bindE (requireObject input) (\<lambda>root.
     checkE (getMember root ''version'' = JNum 1) INVALID_ENCODING (\<lambda>_.
     bindE (decodeObservation (getMember root ''baseline'')) (\<lambda>base.
     bindE (decodeObservation (getMember root ''lastObservation'')) (\<lambda>seen.
     bindE (decimal (getMember root ''nextNonce'')) (\<lambda>next.
     bindE (decimal (getMember root ''durableNextNonce'')) (\<lambda>durable.
     bindE (decodeRepairs (getMember root ''repairs'')) (\<lambda>rs.
     bindE (decodeArray (getMember root ''attempts'') decodeAttempt) (\<lambda>as.
     Inr (obj [(''version'', getMember root ''version''), (''identity'', getMember root ''identity''),
       (''baseline'', base), (''lastObservation'', seen), (''nextNonce'', next),
       (''durableNextNonce'', durable), (''repairs'', rs), (''attempts'', as)])))))))))"

definition decodeJournalSnapshot ::
  "number_format \<Rightarrow> viem \<Rightarrow> jstr \<Rightarrow> JournalIdentity \<Rightarrow> exn + TransactionJournalSnapshot" where
  "decodeJournalSnapshot N V contents expected = invalidEncoding (
     bindE (requireBoundedContents contents) (\<lambda>_.
     case parseJson N contents of
       None \<Rightarrow> Inl (PlainError ''SyntaxError'')
     | Some v \<Rightarrow> bindE (decodeRoot v) (\<lambda>decoded. verifyJournalSnapshot V decoded expected)))"

subsection \<open>The round trip\<close>

text \<open>What a parsed value looks like: the printed value, with bigints as decimal strings.\<close>

definition reparsed :: "jsval \<Rightarrow> jsval" where
  "reparsed v = ofJson (the (toJson v))"

definition printable :: "jsval \<Rightarrow> bool" where
  "printable v = (case toJson v of Some j \<Rightarrow> plainJson j | None \<Rightarrow> False)"

lemma stringify_parse:
  assumes "exactIntegers N" "printable v"
  shows "parseJson N (stringify N v @ [10]) = Some (reparsed v)"
proof -
  obtain j where j: "toJson v = Some j" "plainJson j" using assms(2) by (auto simp: printable_def split: option.splits)
  have "stops [10]" by simp
  then have "parseValue N (printJson N j @ [10]) = Some (j, [10])"
    using parse_print [OF assms(1) j(2)] by (simp add: parsesBack_def)
  then show ?thesis by (simp add: parseJson_def stringify_def j reparsed_def skipWhite_def isWhite_def)
qed

lemma toJson_obj:
  assumes "list_all (\<lambda>(k, v). toJson v \<noteq> None) kvs"
  shows "toJson (obj kvs) = Some (JsonObject (map (\<lambda>(k, v). (js k, the (toJson v))) kvs))"
  using assms by (induction kvs) (auto simp: obj_def split: option.splits)

lemma toJson_arr:
  assumes "list_all (\<lambda>v. toJson v \<noteq> None) vs"
  shows "toJson (arr vs) = Some (JsonArray (map (\<lambda>v. the (toJson v)) vs))"
  using assms by (induction vs) (auto simp: arr_def split: option.splits)

lemma printable_obj:
  assumes "distinct (map fst kvs)" "list_all (\<lambda>(k, v). printable v) kvs"
  shows "printable (obj kvs)"
proof -
  have some: "list_all (\<lambda>(k, v). toJson v \<noteq> None) kvs"
    using assms(2) by (auto simp: list_all_iff printable_def split: option.splits)
  have keys: "map fst (map (\<lambda>(k, v). (js k, the (toJson v))) kvs) = map js (map fst kvs)" by auto
  have "distinct (map js (map fst kvs))" using assms(1) by (simp add: distinct_map inj_on_def)
  moreover have "list_all (\<lambda>(k, v). plainJson v) (map (\<lambda>(k, v). (js k, the (toJson v))) kvs)"
    using assms(2) by (auto simp: list_all_iff printable_def split: option.splits)
  ultimately show ?thesis
    unfolding printable_def toJson_obj [OF some] option.case plainJson.simps keys by simp
qed

lemma printable_arr:
  assumes "list_all printable vs"
  shows "printable (arr vs)"
proof -
  have "list_all (\<lambda>v. toJson v \<noteq> None) vs"
    using assms by (auto simp: list_all_iff printable_def split: option.splits)
  from toJson_arr [OF this] show ?thesis
    using assms by (auto simp: list_all_iff printable_def split: option.splits)
qed

lemma printable_some: "printable v \<Longrightarrow> toJson v \<noteq> None"
  by (auto simp: printable_def split: option.splits)

lemma reparsed_obj:
  assumes "list_all (\<lambda>(k, v). printable v) kvs"
  shows "reparsed (obj kvs) = obj (map (\<lambda>(k, v). (k, reparsed v)) kvs)"
proof -
  have "list_all (\<lambda>(k, v). toJson v \<noteq> None) kvs" using assms printable_some by (fastforce simp: list_all_iff)
  then show ?thesis by (simp add: reparsed_def toJson_obj) (auto simp: obj_def reparsed_def)
qed

lemma reparsed_arr:
  assumes "list_all printable vs"
  shows "reparsed (arr vs) = arr (map reparsed vs)"
proof -
  have "list_all (\<lambda>v. toJson v \<noteq> None) vs" using assms printable_some by (auto simp: list_all_iff)
  then show ?thesis by (simp add: reparsed_def toJson_arr) (auto simp: arr_def reparsed_def)
qed

lemma printable_base [simp]:
  "printable (JString s)" "printable (JBigint n)" "printable JNull" "printable (JNum 1)"
  "reparsed (JString s) = JString s" "reparsed (JBigint n) = JString (showBigint n)"
  "reparsed JNull = JNull" "reparsed (JNum q) = JNum q"
proof -
  have "isNonNegativeSafeInteger (JNum 1)" by (simp add: isNonNegativeSafeInteger_iff MAX_SAFE_INTEGER_def)
  then show "printable (JNum 1)" by (simp add: printable_def)
qed (simp_all add: printable_def reparsed_def)

lemma getMember_obj [simp]:
  "getMember (obj kvs) name = (case map_of kvs name of Some v \<Rightarrow> v | None \<Rightarrow> JUndefined)"
  by (simp add: getMember_def obj_def)

lemma requireObject_obj [simp]: "requireObject (obj kvs) = Inr (obj kvs)"
  by (simp add: requireObject_def obj_def)

lemma obj_not_null [simp]: "obj kvs \<noteq> JNull" "obj kvs \<noteq> JUndefined"
  by (simp_all add: obj_def)

lemma showNonNeg_length: "0 \<le> n \<Longrightarrow> n < 10 ^ Suc k \<Longrightarrow> length (showNonNeg n) \<le> Suc k"
proof (induction k arbitrary: n)
  case (Suc k)
  show ?case
  proof (cases "n < 10")
    case False
    then have "length (showNonNeg n) = Suc (length (showNonNeg (n div 10)))"
      by (subst showNonNeg.simps) simp
    moreover have "n div 10 < 10 ^ Suc k" using Suc.prems by simp
    ultimately show ?thesis using Suc.IH [of "n div 10"] Suc.prems by simp
  qed (simp add: showNonNeg.simps)
qed (simp add: showNonNeg.simps)

lemma decimal_show: "uint256 n \<Longrightarrow> decimal (JString (showBigint n)) = Inr (JBigint n)"
proof -
  assume n: "uint256 n"
  then have n': "0 \<le> n" "n < 10 ^ Suc 77" by (simp_all add: uint256_def MAX_UINT256_def)
  have "length (showBigint n) \<le> 78" using showNonNeg_length [OF n'] n' by (simp add: showBigint_def)
  moreover have "1 < length (showBigint n) \<longrightarrow> hd (showBigint n) \<noteq> 48"
    using showNonNeg_no_zero [of n] n' by (simp add: showBigint_def)
  moreover have "isDecimalInteger (showBigint n)" "showBigint n \<noteq> []"
    using isDecimalInteger_showBigint [of n] n' by (auto simp: isDecimalInteger_def)
  ultimately show ?thesis using parseBigint_showBigint [of n] n' by (simp add: decimal_def checkE_def)
qed

named_theorems texts \<open>printing and rereading the parts of a journal\<close>

lemma anchor_text [texts]:
  "printable (embAnchor a)" "wfAnchor a \<Longrightarrow> decodeAnchor (reparsed (embAnchor a)) = Inr (embAnchor a)"
proof -
  show "printable (embAnchor a)" unfolding embAnchor_def by (rule printable_obj) simp_all
  show "wfAnchor a \<Longrightarrow> decodeAnchor (reparsed (embAnchor a)) = Inr (embAnchor a)"
    by (simp add: embAnchor_def reparsed_obj decodeAnchor_def decimal_show wfAnchor_def)
qed

lemma observation_text [texts]:
  "printable (embObservation p)"
  "wfObservation p \<Longrightarrow> decodeObservation (reparsed (embObservation p)) = Inr (embObservation p)"
proof -
  show "printable (embObservation p)" unfolding embObservation_def by (rule printable_obj) (simp_all add: texts)
  show "wfObservation p \<Longrightarrow> decodeObservation (reparsed (embObservation p)) = Inr (embObservation p)"
    by (simp add: embObservation_def reparsed_obj texts decodeObservation_def decimal_show wfObservation_def)
qed

lemma signed_text [texts]:
  "printable (embSigned t)" "decodeSignedTransaction (reparsed (embSigned t)) = Inr (embSigned t)"
proof -
  show "printable (embSigned t)" unfolding embSigned_def by (rule printable_obj) simp_all
  show "decodeSignedTransaction (reparsed (embSigned t)) = Inr (embSigned t)"
    by (simp add: embSigned_def reparsed_obj decodeSignedTransaction_def)
qed

lemma search_text [texts]:
  "printable (embSearch s)" "wfSearch n s \<Longrightarrow> decodeSearch (reparsed (embSearch s)) = Inr (embSearch s)"
proof -
  have p: "printable (embNullable embAnchor x)" for x by (cases x) (simp_all add: texts)
  show "printable (embSearch s)" unfolding embSearch_def by (rule printable_obj) (simp_all add: texts p)
  have "reparsed (embAnchor a) \<noteq> JNull" for a by (simp add: embAnchor_def reparsed_obj)
  then show "wfSearch n s \<Longrightarrow> decodeSearch (reparsed (embSearch s)) = Inr (embSearch s)"
    by (cases "searchedThrough s")
      (simp_all add: embSearch_def reparsed_obj texts p decodeSearch_def wfSearch_def)
qed

lemma inclusion_text [texts]:
  "printable (embInclusion i)"
  "wfInclusion n ts i \<Longrightarrow> decodeInclusion (reparsed (embInclusion i)) = Inr (embInclusion i)"
proof -
  have o: "printable (embOutcome r)" "reparsed (embOutcome r) = embOutcome r" for r
    by (simp_all add: embOutcome_def)
  show "printable (embInclusion i)"
    by (cases i) (simp_all only: embInclusion.simps; rule printable_obj; simp add: texts o)+
  show "wfInclusion n ts i \<Longrightarrow> decodeInclusion (reparsed (embInclusion i)) = Inr (embInclusion i)"
  proof (cases i)
    case (RecordedInclusion a b r h)
    assume "wfInclusion n ts i"
    with RecordedInclusion show ?thesis
      by (cases r) (simp_all add: reparsed_obj texts o decodeInclusion_def wfInclusionAnchors_def embOutcome_def)
  next
    case (ReplacedInclusion a b h k)
    assume "wfInclusion n ts i"
    with ReplacedInclusion show ?thesis
      by (simp add: reparsed_obj texts decodeInclusion_def wfInclusionAnchors_def decimal_show)
  qed
qed

lemma repair_text [texts]:
  "printable (embRepair r)" "wfRepair r \<Longrightarrow> decodeRepair (reparsed (embRepair r)) = Inr (embRepair r)"
proof -
  show "printable (embRepair r)" unfolding embRepair_def by (rule printable_obj) (simp_all add: texts)
  show "wfRepair r \<Longrightarrow> decodeRepair (reparsed (embRepair r)) = Inr (embRepair r)"
    by (simp add: embRepair_def reparsed_obj texts decodeRepair_def wfRepair_def decimal_show)
qed

lemma decodeArray_arr: "decodeArray (arr vs) dec = bindE (mapE dec vs) (\<lambda>ws. Inr (arr ws))"
proof -
  have "mapE (\<lambda>p. case p of DataProp v \<Rightarrow> dec v | NoData \<Rightarrow> dec JUndefined) (map DataProp vs) = mapE dec vs"
    by (induction vs) auto
  then show ?thesis by (simp add: decodeArray_def arr_def)
qed

lemma array_text:
  assumes "\<forall>x \<in> set xs. printable (f x) \<and> dec (reparsed (f x)) = Inr (g x)"
  shows "printable (arr (map f xs)) \<and> decodeArray (reparsed (arr (map f xs))) dec = Inr (arr (map g xs))"
proof -
  have p: "list_all printable (map f xs)" using assms by (simp add: list_all_iff)
  have "mapE dec (map reparsed (map f xs)) = Inr (map g xs)"
    using assms by (induction xs) simp_all
  then show ?thesis
    using printable_arr [OF p] by (simp only: reparsed_arr [OF p] decodeArray_arr) simp
qed

text \<open>The decoded attempt has its fields in another order, which no reader observes.\<close>

definition decodedAttempt :: "JournalAttempt \<Rightarrow> jsval" where
  "decodedAttempt a = obj [
     (''attemptId'', JString (attemptId a)), (''workId'', JString (attemptWorkId a)),
     (''nonce'', JBigint (attemptNonce a)), (''createdAt'', JString (createdAt a)),
     (''phase'', JString (phaseName (phase a))),
     (''signedTransactions'', arr (map embSigned (signedTransactions a))),
     (''replacementSearch'', embNullable embSearch (replacementSearch a)),
     (''inclusion'', embNullable embInclusion (phaseInclusion (phase a)))]"

lemma readAttempt_decoded: "readAttempt (decodedAttempt a) = readAttempt (embAttempt a)"
  by (simp add: readAttempt_def decodedAttempt_def embAttempt_def)

lemma attempt_text [texts]:
  "printable (embAttempt a)" "wfAttempt a \<Longrightarrow> decodeAttempt (reparsed (embAttempt a)) = Inr (decodedAttempt a)"
proof -
  have s: "printable (embNullable embSearch x)" "decodeSearch JNull = Inr JNull" for x
    by (cases x) (simp_all add: texts decodeSearch_def)
  have i: "printable (embNullable embInclusion x)" "decodeInclusion JNull = Inr JNull" for x
    by (cases x) (simp_all add: texts decodeInclusion_def)
  have ts: "printable (arr (map embSigned ts))"
    "decodeArray (reparsed (arr (map embSigned ts))) decodeSignedTransaction = Inr (arr (map embSigned ts))" for ts
    using array_text [of ts embSigned decodeSignedTransaction embSigned] by (simp_all add: texts)
  show "printable (embAttempt a)" unfolding embAttempt_def by (rule printable_obj) (simp_all add: s i ts)
  assume wf: "wfAttempt a"
  have search: "decodeSearch (reparsed (embNullable embSearch (replacementSearch a))) =
      Inr (embNullable embSearch (replacementSearch a))"
    using wf by (cases "replacementSearch a") (simp_all add: s wfAttempt_def search_text(2) [where n = "attemptNonce a"])
  have inc: "decodeInclusion (reparsed (embNullable embInclusion (phaseInclusion (phase a)))) =
      Inr (embNullable embInclusion (phaseInclusion (phase a)))"
    using wf by (cases "phase a") 
        (simp_all add: i wfAttempt_def wfPhase_def phaseInclusion_def
          inclusion_text(2) [where n = "attemptNonce a" and ts = "signedTransactions a"])
  show "decodeAttempt (reparsed (embAttempt a)) = Inr (decodedAttempt a)"
    using wf by (simp add: embAttempt_def reparsed_obj s i ts decodeAttempt_def decodedAttempt_def search inc
        decimal_show wfAttempt_def)
qed

definition decodedSnapshot :: "TransactionJournalSnapshot \<Rightarrow> jsval" where
  "decodedSnapshot s = obj [
     (''version'', JNum 1), (''identity'', embIdentity (identity s)),
     (''baseline'', embObservation (baseline s)), (''lastObservation'', embObservation (lastObservation s)),
     (''nextNonce'', JBigint (nextNonce s)), (''durableNextNonce'', JBigint (durableNextNonce s)),
     (''repairs'', arr (map embRepair (repairs s))), (''attempts'', arr (map decodedAttempt (attempts s)))]"

lemma validate_decoded:
  "validateJournalSnapshotStructure (decodedSnapshot s) i = validateJournalSnapshotStructure (embSnapshot s) i"
proof -
  have "mapE readAttempt (map decodedAttempt as) = mapE readAttempt (map embAttempt as)" for as
    by (induction as) (simp_all add: readAttempt_decoded)
  then show ?thesis
    by (simp add: validateJournalSnapshotStructure_def decodedSnapshot_def embSnapshot_def readArray_arr)
qed

lemma verify_decoded: "verifyJournalSnapshot V (decodedSnapshot s) i = verifyJournalSnapshot V (embSnapshot s) i"
  by (simp add: verifyJournalSnapshot_def validate_decoded)

lemma identity_text:
  assumes "wfIdentity i"
  shows "printable (embIdentity i)" "reparsed (embIdentity i) = embIdentity i"
proof -
  have "isNonNegativeSafeInteger (JNum (of_int (chainId i)))"
    using assms by (auto simp: wfIdentity_def isNonNegativeSafeInteger_iff)
  then have c: "printable (JNum (of_int (chainId i)))" by (simp add: printable_def)
  then show "printable (embIdentity i)" unfolding embIdentity_def by (intro printable_obj) simp_all
  from c show "reparsed (embIdentity i) = embIdentity i"
    unfolding embIdentity_def by (subst reparsed_obj) simp_all
qed

lemma snapshot_text:
  assumes "wfSnapshot e s"
  shows "printable (embSnapshot s)" "decodeRoot (reparsed (embSnapshot s)) = Inr (decodedSnapshot s)"
proof -
  note wf = assms [unfolded wfSnapshot_def wfRepairs_def wfAttempts_def]
  have i: "printable (embIdentity (identity s))" "reparsed (embIdentity (identity s)) = embIdentity (identity s)"
    using wf identity_text by auto
  have rs: "printable (arr (map embRepair (repairs s)))"
    "decodeArray (reparsed (arr (map embRepair (repairs s)))) decodeRepair = Inr (arr (map embRepair (repairs s)))"
    using array_text [of "repairs s" embRepair decodeRepair embRepair] wf by (auto simp: texts list_all_iff)
  have as: "printable (arr (map embAttempt (attempts s)))"
    "decodeArray (reparsed (arr (map embAttempt (attempts s)))) decodeAttempt =
       Inr (arr (map decodedAttempt (attempts s)))"
    using array_text [of "attempts s" embAttempt decodeAttempt decodedAttempt] wf
    by (auto simp: texts list_all_iff)
  show "printable (embSnapshot s)"
    unfolding embSnapshot_def by (rule printable_obj) (simp_all add: texts i rs as)
  have "decodeRepairs (reparsed (arr (map embRepair (repairs s)))) = Inr (arr (map embRepair (repairs s)))"
  proof -
    have "reparsed (arr (map embRepair (repairs s))) = arr (map (reparsed \<circ> embRepair) (repairs s))"
      by (subst reparsed_arr) (simp_all add: list_all_iff texts)
    then show ?thesis using rs(2) wf by (simp add: decodeRepairs_def arr_def)
  qed
  then show "decodeRoot (reparsed (embSnapshot s)) = Inr (decodedSnapshot s)"
    using wf by (simp add: embSnapshot_def reparsed_obj texts i rs as decodeRoot_def decodedSnapshot_def decimal_show)
qed

lemma invalidEncoding_Inr [simp]: "invalidEncoding r = Inr x \<longleftrightarrow> r = Inr x"
  by (cases r) (simp_all add: invalidEncoding_def)

lemma decode_encode:
  assumes "exactIntegers N" "encodeJournalSnapshot N V s e = Inr c"
  shows "decodeJournalSnapshot N V c e = Inr s"
proof -
  from assms(2) have wf: "wfSnapshot e s" and c: "c = stringify N (embSnapshot s) @ [10]"
    and bounded: "requireBoundedContents c = Inr ()" and v: "verifyJournalSnapshot V (embSnapshot s) e = Inr s"
    by (auto simp: encodeJournalSnapshot_def bindE_Inr validate_emb Let_def dest: verifyJournalSnapshot_emb)
  have "parseJson N c = Some (reparsed (embSnapshot s))"
    unfolding c by (rule stringify_parse [OF assms(1) snapshot_text(1) [OF wf]])
  then show ?thesis
    by (simp add: decodeJournalSnapshot_def bounded snapshot_text(2) [OF wf] verify_decoded v)
qed

subsection \<open>Texts as an interface\<close>

text \<open>
  What the file stores rely on in a pair of functions between values and texts, for an owner \<open>i\<close> of
  the text: what was written reads back, and only good values are ever read. \<open>lawful\<close> is what the
  pair needs of its environment.
\<close>

locale text_codec =
  fixes enc :: "'a \<Rightarrow> 'i \<Rightarrow> exn + jstr"
    and dec :: "jstr \<Rightarrow> 'i \<Rightarrow> exn + 'a"
    and good :: "'i \<Rightarrow> 'a \<Rightarrow> bool"
    and lawful :: bool
  assumes reads_back: "lawful \<Longrightarrow> enc x i = Inr c \<Longrightarrow> dec c i = Inr x"
    and only_good: "dec c i = Inr x \<Longrightarrow> good i x"
begin

lemma enc_good: "lawful \<Longrightarrow> enc x i = Inr c \<Longrightarrow> good i x"
  by (rule only_good [OF reads_back])

lemma enc_inj: "lawful \<Longrightarrow> enc x i = Inr c \<Longrightarrow> enc y i = Inr c \<Longrightarrow> x = y"
  using reads_back [of x i c] reads_back [of y i c] by simp

text \<open>The value a store finds after a sequence of writes of texts it could encode.\<close>

lemma last_written:
  assumes "lawful" and "list_all (\<lambda>x. \<exists>c. enc x i = Inr c) xs" and "xs \<noteq> []"
  shows "dec (last (map (\<lambda>x. projr (enc x i)) xs)) i = Inr (last xs)"
proof -
  have "last xs \<in> set xs" using assms(3) by simp
  then obtain c where "enc (last xs) i = Inr c" using assms(2) by (auto simp: list_all_iff)
  with reads_back [OF assms(1)] assms(3) show ?thesis by (simp add: last_map)
qed

end

lemma decode_verified:
  assumes "decodeJournalSnapshot N V c e = Inr s"
  shows "wfSnapshot e s \<and> (\<forall>a \<in> set (attempts s). authenticAttempt V (identity s) a)"
  using assms verifyJournalSnapshot_sound
  by (auto simp: decodeJournalSnapshot_def bindE_Inr split: option.splits)

interpretation journal_text: text_codec
  "encodeJournalSnapshot N V" "decodeJournalSnapshot N V"
  "\<lambda>e s. wfSnapshot e s \<and> (\<forall>a \<in> set (attempts s). authenticAttempt V (identity s) a)" "exactIntegers N"
  by unfold_locales (auto dest: decode_encode decode_verified)

end
