(* ===== verification/TextClaims.thy ===== *)
theory TextClaims
  imports JournalText SampleWorld
begin

text \<open>The properties of the texts that are kept in files.\<close>

text \<open>A bound on the length of a text, from the lengths of the strings and names in the value.\<close>

fun textBound :: "number_format \<Rightarrow> json \<Rightarrow> nat" where
  "textBound N JsonNull = 4"
| "textBound N (JsonBool b) = 5"
| "textBound N (JsonNumber v) = (case v of JNum q \<Rightarrow> length (numberText N q) | _ \<Rightarrow> 4)"
| "textBound N (JsonString s) = 6 * length s + 2"
| "textBound N (JsonArray vs) = sum_list (map (\<lambda>j. textBound N j + 1) vs) + 2"
| "textBound N (JsonObject ms) = sum_list (map (\<lambda>(k, j). 6 * length k + textBound N j + 4) ms) + 2"

lemma length_js [simp]: "length (js s) = length s"
  by (simp add: js_def)

lemma length_escapeUnits: "length (escapeUnits s) \<le> 6 * length s"
  by (induction s rule: escapeUnits.induct) (auto simp: escapeUnit_def unicodeEscape_def)

lemma length_commaJoin: "length (commaJoin ts) \<le> sum_list (map (\<lambda>t. length t + 1) ts)"
  by (induction ts rule: commaJoin.induct) auto

lemma length_printJson: "length (printJson N j) \<le> textBound N j"
proof (induction j)
  case (JsonNumber v)
  show ?case by (cases v) (simp_all add: js_def)
next
  case (JsonArray xs)
  have "sum_list (map (\<lambda>t. length t + 1) (map (printJson N) xs)) \<le> sum_list (map (\<lambda>j. textBound N j + 1) xs)"
    using JsonArray by (simp add: o_def) (rule sum_list_mono, simp)
  with length_commaJoin [of "map (printJson N) xs"] show ?case by simp
next
  case (JsonObject ms)
  let ?f = "\<lambda>(k, v). quoteString k @ [58] @ printJson N v"
  have "length (?f m) + 1 \<le> (case m of (k, j) \<Rightarrow> 6 * length k + textBound N j + 4)" if "m \<in> set ms" for m
    using JsonObject that length_escapeUnits [of "fst m"] by (cases m) (fastforce simp: quoteString_def)
  then have "sum_list (map (\<lambda>t. length t + 1) (map ?f ms)) \<le>
      sum_list (map (\<lambda>(k, j). 6 * length k + textBound N j + 4) ms)"
    unfolding map_map o_def by (rule sum_list_mono)
  with length_commaJoin [of "map ?f ms"] show ?case by simp
qed (use length_escapeUnits in \<open>auto simp: quoteString_def js_def\<close>)

lemma utf8Length_bound: "utf8Length s \<le> 3 * length s"
  by (induction s rule: utf8Length.induct) auto

lemma sampleEncoded:
  "\<exists>c. encodeJournalSnapshot integerFormat sampleViem (sampleSnapshot []) sampleIdentity = Inr c"
proof -
  have shown: "length (showBigint 1) = 1" "length (showBigint 5) = 1" "length (showBigint 10) = 2"
    by code_simp+
  have wf: "validateSnapshot (sampleSnapshot []) sampleIdentity = Inr (sampleSnapshot [])"
    by (simp add: validate_emb samples)
  have v: "verifyJournalSnapshot sampleViem (embSnapshot (sampleSnapshot [])) sampleIdentity = Inr (sampleSnapshot [])"
    using sampleVerified(1) by (simp add: verified_def)
  have "requireBoundedContents (stringify integerFormat (embSnapshot (sampleSnapshot [])) @ [10]) = Inr ()" (is "requireBoundedContents ?c = _")
  proof -
    have "length (stringify integerFormat (embSnapshot (sampleSnapshot []))) \<le> 5000"
      unfolding stringify_def embSnapshot_def sampleSnapshot_def embIdentity_def embObservation_def
        sampleObservation_def sampleAnchor_def embAnchor_def sampleIdentity_def
      by (simp add: obj_def arr_def del: printJson.simps)
        (rule order_trans [OF length_printJson], simp add: shown hexId_def zeros_def integerFormat_def)
    with utf8Length_bound [of ?c] show ?thesis by (simp add: requireBoundedContents_def MAX_JOURNAL_BYTES_def)
  qed
  moreover have "attempts (sampleSnapshot []) = []" by (simp add: sampleSnapshot_def)
  ultimately show ?thesis by (simp add: encodeJournalSnapshot_def invalidEncoding_def bindE_def wf v Let_def)
qed

text \<open>
  C20: the text a journal is encoded to decodes to exactly that journal, for every journal that can be
  encoded, whatever strings and counters it holds.
\<close>

theorem journal_text_round_trip:
  assumes "exactIntegers N" and "encodeJournalSnapshot N V s expected = Inr contents"
  shows "decodeJournalSnapshot N V contents expected = Inr s"
  by (rule journal_text.reads_back [OF assms])

theorem journal_text_round_trip_witness:
  "\<exists>c. encodeJournalSnapshot integerFormat sampleViem (sampleSnapshot []) sampleIdentity = Inr c \<and>
     decodeJournalSnapshot integerFormat sampleViem c sampleIdentity = Inr (sampleSnapshot [])"
  using sampleEncoded journal_text_round_trip [OF integerFormat_exact] by blast

text \<open>
  C21: whatever text is found in the journal's file, if it decodes at all the result is well-formed
  for the expected identity and all its transactions are authentic; and two journals are never
  encoded to the same text.
\<close>

theorem decoded_journal_is_verified:
  assumes "decodeJournalSnapshot N V contents expected = Inr s"
  shows "wfSnapshot expected s \<and> list_all (authenticAttempt V (identity s)) (attempts s) \<and>
    (encodeJournalSnapshot N V s expected = Inr contents \<longrightarrow> exactIntegers N \<longrightarrow>
       (\<forall>t. encodeJournalSnapshot N V t expected = Inr contents \<longrightarrow> t = s))"
  using journal_text.only_good [OF assms] journal_text.enc_inj by (auto simp: list_all_iff)

theorem decoded_journal_is_verified_witness:
  "wfSnapshot sampleIdentity (sampleSnapshot [])"
proof -
  obtain c where c: "encodeJournalSnapshot integerFormat sampleViem (sampleSnapshot []) sampleIdentity = Inr c"
    using sampleEncoded by (rule exE)
  show ?thesis
    using decoded_journal_is_verified [OF journal_text.reads_back [OF integerFormat_exact c]] by blast
qed

end
