(* ===== verification/Simulation.thy ===== *)
theory Simulation
  imports CoordinatorMachine
begin

text \<open>
  How the components above the coordinator refine it: an interface for graded step relations, in
  which a composed computation is bounded by what its parts may do, and its instance, the runs of
  the coordinator's state machine with a bounded number of prepared and sent attempts.
\<close>

definition stepsIn :: "('s \<Rightarrow> 's \<Rightarrow> bool) \<Rightarrow> ('s, 'a) io \<Rightarrow> bool" where
  "stepsIn R m = (\<forall>s r t. m s = (r, t) \<longrightarrow> R s t)"

lemma stepsInI: "(\<And>s r t. m s = (r, t) \<Longrightarrow> R s t) \<Longrightarrow> stepsIn R m"
  by (simp add: stepsIn_def)

lemma stepsInD: "stepsIn R m \<Longrightarrow> m s = (r, t) \<Longrightarrow> R s t"
  by (simp add: stepsIn_def)

lemma stepsIn_mono: "stepsIn R m \<Longrightarrow> (\<And>s t. R s t \<Longrightarrow> S s t) \<Longrightarrow> stepsIn S m"
  by (auto simp: stepsIn_def)

subsection \<open>The interface\<close>

text \<open>
  \<open>R p n\<close> relates states between which at most \<open>p\<close> preparations and \<open>n\<close> sends happened. Only
  what does neither needs to be composed freely; the rules for a bound are one per place where the
  bounded work stands.
\<close>

locale graded_steps =
  fixes R :: "nat \<Rightarrow> nat \<Rightarrow> 's \<Rightarrow> 's \<Rightarrow> bool"
  assumes none: "R 0 0 s s"
    and more: "R p n s t \<Longrightarrow> R q m t u \<Longrightarrow> R (p + q) (n + m) s u"
    and weaken: "R p n s t \<Longrightarrow> p \<le> q \<Longrightarrow> n \<le> m \<Longrightarrow> R q m s t"
begin

lemma any_none: "R p n s s"
  by (rule weaken [OF none]) simp_all

lemma then_quiet: "R p n s t \<Longrightarrow> R 0 0 t u \<Longrightarrow> R p n s u"
  using more [of p n s t 0 0 u] by simp

lemma quiet_then: "R 0 0 s t \<Longrightarrow> R p n t u \<Longrightarrow> R p n s u"
  using more [of 0 0 s t p n u] by simp

lemma in_ret: "stepsIn (R p n) (ret x)"
  by (simp add: stepsIn_def ret_def any_none)

lemma in_throw: "stepsIn (R p n) (throw e)"
  by (simp add: stepsIn_def throw_def any_none)

lemma in_lift: "stepsIn (R p n) (liftPure r)"
  by (simp add: stepsIn_def liftPure_def any_none)

lemma in_unless: "stepsIn (R p n) (unlessThrow b e)"
  by (simp add: unlessThrow_def in_ret in_throw)

lemma in_get: "stepsIn (R p n) getState"
  by (simp add: stepsIn_def getState_def any_none)

lemma in_modify: "(\<And>s. R p n s (f s)) \<Longrightarrow> stepsIn (R p n) (modifyState f)"
  by (simp add: stepsIn_def modifyState_def)

lemma in_read:
  assumes "\<And>x. stepsIn (R p n) (k x)"
  shows "stepsIn (R p n) (\<lambda>s. k (f s) s)"
proof (rule stepsInI)
  fix s r t assume "k (f s) s = (r, t)"
  with assms [of "f s"] show "R p n s t" by (rule stepsInD)
qed

lemma in_if: "stepsIn (R p n) m \<Longrightarrow> stepsIn (R p n) k \<Longrightarrow> stepsIn (R p n) (if b then m else k)"
  by simp

lemma in_option: "stepsIn (R p n) m \<Longrightarrow> (\<And>y. stepsIn (R p n) (k y)) \<Longrightarrow>
    stepsIn (R p n) (case x of None \<Rightarrow> m | Some y \<Rightarrow> k y)"
  by (cases x) simp_all

lemma in_pair: "(\<And>y z. stepsIn (R p n) (k y z)) \<Longrightarrow> stepsIn (R p n) (case x of (y, z) \<Rightarrow> k y z)"
  by (cases x) simp

lemma in_seq_both:
  assumes "stepsIn (R p n) m" and "\<And>x. stepsIn (R q k) (f x)"
  shows "stepsIn (R (p + q) (n + k)) (andThen m f)"
proof (rule stepsInI)
  fix s r t assume "andThen m f s = (r, t)"
  then consider e where "m s = (Inl e, t)" | x u where "m s = (Inr x, u)" "f x u = (r, t)"
    by (auto simp: andThen_def split: prod.splits sum.splits)
  then show "R (p + q) (n + k) s t"
  proof cases
    case 1
    have "R p n s t" by (rule stepsInD [OF assms(1) 1])
    then show ?thesis by (rule weaken) simp_all
  next
    case 2
    show ?thesis by (rule more [OF stepsInD [OF assms(1) 2(1)] stepsInD [OF assms(2) 2(2)]])
  qed
qed

lemma in_seq:
  "stepsIn (R 0 0) m \<Longrightarrow> (\<And>x. stepsIn (R p n) (f x)) \<Longrightarrow> stepsIn (R p n) (andThen m f)"
  using in_seq_both [of 0 0 m p n f] by simp

lemma in_seq_first:
  "stepsIn (R p n) m \<Longrightarrow> (\<And>x. stepsIn (R 0 0) (f x)) \<Longrightarrow> stepsIn (R p n) (andThen m f)"
  using in_seq_both [of p n m 0 0 f] by simp

lemma in_catch:
  assumes "stepsIn (R p n) m" and "\<And>e. stepsIn (R 0 0) (h e)"
  shows "stepsIn (R p n) (tryCatch m h)"
  using assms then_quiet by (fastforce simp: stepsIn_def tryCatch_def split: prod.splits sum.splits)

lemma in_onThrow:
  assumes "stepsIn (R p n) m" and "\<And>s. R 0 0 s (h s)"
  shows "stepsIn (R p n) (onThrow m h)"
  using assms then_quiet by (fastforce simp: stepsIn_def onThrow_def split: prod.splits sum.splits)

lemma in_finally:
  assumes "stepsIn (R p n) m" and "\<And>s. R 0 0 s (h s)"
  shows "stepsIn (R p n) (tryFinally m h)"
  using assms then_quiet by (fastforce simp: stepsIn_def tryFinally_def split: prod.splits)

lemmas steps_rules =
  in_ret in_throw in_lift in_unless in_get in_modify in_if in_option in_pair in_seq in_catch
  in_onThrow in_finally

end

subsection \<open>Runs of the coordinator with bounded labels\<close>

fun sentIn :: "label list \<Rightarrow> PreparedAttempt list" where
  "sentIn [] = []"
| "sentIn (SentStep p # ls) = p # sentIn ls"
| "sentIn (_ # ls) = sentIn ls"

lemma labels_append [simp]:
  "preparedIn (ls @ ks) = preparedIn ls @ preparedIn ks" "sentIn (ls @ ks) = sentIn ls @ sentIn ks"
  by (induction ls rule: preparedIn.induct; simp) (induction ls rule: sentIn.induct; simp)

lemma coRun_append: "coRun E s ls t \<Longrightarrow> coRun E t ks u \<Longrightarrow> coRun E s (ls @ ks) u"
  by (induction rule: coRun.induct) (auto intro: coRun.step)

definition boundedRun :: "'w coordinator_env \<Rightarrow> nat \<Rightarrow> nat \<Rightarrow> 'w cstate \<Rightarrow> 'w cstate \<Rightarrow> bool" where
  "boundedRun E p n s t =
     (\<exists>ls. coRun E s ls t \<and> length (preparedIn ls) \<le> p \<and> length (sentIn ls) \<le> n)"

interpretation co: graded_steps "boundedRun E" for E :: "'w coordinator_env"
proof
  show "boundedRun E 0 0 s s" for s by (auto simp: boundedRun_def intro: coRun.stop)
  show "boundedRun E (p + q) (n + m) s u" if a: "boundedRun E p n s t" "boundedRun E q m t u" for p q n m s t u
  proof -
    obtain ls ks where "coRun E s ls t" "length (preparedIn ls) \<le> p" "length (sentIn ls) \<le> n"
      "coRun E t ks u" "length (preparedIn ks) \<le> q" "length (sentIn ks) \<le> m"
      using a by (auto simp: boundedRun_def)
    then show ?thesis unfolding boundedRun_def by (intro exI [of _ "ls @ ks"]) (auto intro: coRun_append)
  qed
  show "boundedRun E p n s t \<Longrightarrow> p \<le> q \<Longrightarrow> n \<le> m \<Longrightarrow> boundedRun E q m s t" for p q n m s t
    by (auto simp: boundedRun_def intro: order_trans)
qed

lemma one_step: "coStep E s l t \<Longrightarrow> boundedRun E (length (preparedIn [l])) (length (sentIn [l])) s t"
  unfolding boundedRun_def by (intro exI [of _ "[l]"]) (auto intro: coRun.intros)

lemma quiet_step: "coStep E s QuietStep t \<Longrightarrow> boundedRun E 0 0 s t"
  using one_step [of E s QuietStep t] by simp

text \<open>The public operations.\<close>

lemma co_operations:
  "stepsIn (boundedRun E 0 0) beginInspection"
  "stepsIn (boundedRun E 0 0) (openHead C head g)"
  "stepsIn (boundedRun E 0 0) (recoverInspection E C anch rng g cy)"
  "stepsIn (boundedRun E 0 0) (checkInclusionsInspection E C head m g cy)"
  "stepsIn (boundedRun E 0 0) (finishInspection E g)"
  "stepsIn (boundedRun E 0 0) (recover E C anch rng cy)"
  "stepsIn (boundedRun E 0 0) (checkInclusions E C head m cy)"
  "stepsIn (boundedRun E 0 0) (retryPersistence E cy)"
  by (rule stepsInI, erule quiet_step [OF coStep.begin_inspection])
    (rule stepsInI, erule quiet_step [OF coStep.open_head] quiet_step [OF coStep.owner_recover]
      quiet_step [OF coStep.owner_check] quiet_step [OF coStep.finish_inspection]
      quiet_step [OF coStep.recover_step] quiet_step [OF coStep.check_step] quiet_step [OF coStep.retry_step])+

lemma co_abandon: "stepsIn (boundedRun E 0 0) (abandonInspection E g)"
  unfolding abandonInspection_def
  by (intro co.in_seq stepsInI)
    (erule quiet_step [OF coStep.request_abandon], erule quiet_step [OF coStep.complete_abandon])

lemma co_broadcast: "stepsIn (boundedRun E 0 1) (broadcastAttempt E C aid cy)"
proof (rule stepsInI)
  fix s r t assume b: "broadcastAttempt E C aid cy s = (r, t)"
  show "boundedRun E 0 1 s t"
  proof (cases r)
    case (Inl e)
    then show ?thesis
      using b co.weaken [OF quiet_step [OF coStep.not_sent], of E C aid cy s e t 0 1] by simp
  next
    case (Inr x)
    then show ?thesis using one_step [OF coStep.sent, of E C aid cy s x t] b by simp
  qed
qed

lemma co_prepare: "stepsIn (boundedRun E 1 0) (prepareAttempt E account tx wid cy)"
proof (rule stepsInI)
  fix s r t assume b: "prepareAttempt E account tx wid cy s = (r, t)"
  show "boundedRun E 1 0 s t"
  proof (cases "\<exists>p. r = Inr (Prepared p)")
    case True
    then obtain p where "prepareAttempt E account tx wid cy s = (Inr (Prepared p), t)" using b by blast
    from one_step [OF coStep.prepared [OF this]] show ?thesis by simp
  next
    case False
    have "boundedRun E 0 0 s t"
      by (rule quiet_step [OF coStep.not_prepared [OF b]]) (use False in blast)
    then show ?thesis by (rule co.weaken) simp_all
  qed
qed

lemma co_world: "stepsIn (boundedRun E 0 0) (onWorld m)"
proof (rule stepsInI)
  fix s :: "'a cstate" and r t assume m: "onWorld m s = (r, t)"
  obtain c w where s: "s = (c, w)" by (cases s)
  with m obtain v where "t = (c, v)" by (auto simp: onWorld_def split: prod.splits)
  with s show "boundedRun E 0 0 s t" by (simp add: quiet_step coStep.world)
qed

text \<open>An observation: whatever runs inside it is bounded as before.\<close>

lemma co_observe:
  assumes "stepsIn (boundedRun E p n) action"
  shows "stepsIn (boundedRun E p n) (observeReconciliation E action cy)"
proof (rule stepsInI)
  fix s r t assume o: "observeReconciliation E action cy s = (r, t)"
  obtain c w where s: "s = (c, w)" by (cases s)
  define fin where "fin = andThen (upd (\<lambda>c. c\<lparr>observationActive := False\<rparr>)) (\<lambda>_. refresh E cy ReconcileAttemptOp)"
  have f: "boundedRun E 0 0 u v" if "fin u = (q, v)" for u q v
  proof -
    obtain d x where u: "u = (d, x)" by (cases u)
    with that have "refresh E cy ReconcileAttemptOp (d\<lparr>observationActive := False\<rparr>, x) = (q, v)"
      by (simp add: fin_def andThen_def upd_def modifyState_def)
    then show ?thesis unfolding u by (intro quiet_step coStep.observe_end)
  qed
  have run: "boundedRun E p n s t" if i: "finallyDo action fin (c\<lparr>observationActive := True\<rparr>, w) = (r, t)"
  proof -
    obtain x u where a: "action (c\<lparr>observationActive := True\<rparr>, w) = (x, u)" by (cases "action (c\<lparr>observationActive := True\<rparr>, w)")
    obtain q v where q: "fin u = (q, v)" by (cases "fin u")
    from i a q have "v = t" by (simp add: finallyDo_def split: sum.splits)
    with f [OF q] have "boundedRun E p n (c\<lparr>observationActive := True\<rparr>, w) t"
      using co.then_quiet [OF stepsInD [OF assms a]] by blast
    then show ?thesis unfolding s by (rule co.quiet_then [OF quiet_step [OF coStep.observe_begin]])
  qed
  show "boundedRun E p n s t"
  proof (cases "observationActive c \<or> inspectionOwner c \<noteq> None \<or> busy c \<or> emitting c")
    case True
    then have "t = s" using o s
      by (auto simp: observeReconciliation_def readC_def assertAvailable_def io_defs split: if_splits)
    then show ?thesis by (simp add: co.any_none)
  next
    case False
    then have "finallyDo action fin (c\<lparr>observationActive := True\<rparr>, w) = (r, t)"
      using o s by (simp add: observeReconciliation_def readC_def assertAvailable_def andThen_def
          unlessThrow_def ret_def upd_def modifyState_def fin_def)
    then show ?thesis by (rule run)
  qed
qed

end
