(* ===== verification/Schedules.thy ===== *)
theory Schedules
  imports Journal
begin

text \<open>
  The two clocks of recovery: \<^verbatim>\<open>state/broadcast-retry-schedule.ts\<close>, the exponential backoff between
  sends of one attempt, and \<^verbatim>\<open>state/durable-recovery-schedule.ts\<close>, which tells when a completed
  durable recovery must be repeated.

  Clock values are doubles, which need not be integers. Sums and differences of doubles round; how is
  the argument \<open>rnd\<close> of the operations, of which the proofs use what IEEE 754 promises: rounding is
  monotone, and exact on safe integers.
\<close>

definition faithfulRounding :: "(rat \<Rightarrow> rat) \<Rightarrow> bool" where
  "faithfulRounding rnd =
     ((\<forall>x y. x \<le> y \<longrightarrow> rnd x \<le> rnd y) \<and> (\<forall>i. \<bar>i\<bar> \<le> MAX_SAFE_INTEGER \<longrightarrow> rnd (of_int i) = of_int i))"

subsection \<open>The backoff between broadcasts\<close>

definition MAX_DELAY_MS :: int where
  "MAX_DELAY_MS = 2147483647"

record BroadcastRetrySchedule =
  trackedAttempt :: "jstr option"
  dueAt :: rat
  nextDelayMs :: int
  lastNow :: rat
  initialDelayMs :: int
  maxDelayMs :: int

definition validateBroadcastRetryOptions :: "jsval \<Rightarrow> jsval \<Rightarrow> exn + unit" where
  "validateBroadcastRetryOptions initial m =
     checkE (isPositiveSafeInteger initial \<and> isPositiveSafeInteger m \<and>
         numInt initial \<le> numInt m \<and> numInt m \<le> MAX_DELAY_MS)
       (RangeError ''Invalid broadcast retry delays.'') (\<lambda>_. Inr ())"

definition createRetrySchedule :: "jsval \<Rightarrow> jsval \<Rightarrow> exn + BroadcastRetrySchedule" where
  "createRetrySchedule initial m =
     bindE (validateBroadcastRetryOptions initial m) (\<lambda>_.
     Inr \<lparr>trackedAttempt = None, dueAt = 0, nextDelayMs = numInt initial, lastNow = 0,
          initialDelayMs = numInt initial, maxDelayMs = numInt m\<rparr>)"

abbreviation INVALID_RETRY_CLOCK :: exn where
  "INVALID_RETRY_CLOCK \<equiv> RangeError ''Invalid broadcast retry clock.''"

text \<open>The operations run on the schedule and the world, which holds the clock.\<close>

definition readNow :: "('w, jsval) io \<Rightarrow> (BroadcastRetrySchedule \<times> 'w, rat) io" where
  "readNow clock =
     andThen (tryCatch (onWorld clock)
       (\<lambda>_. throw (PlainError ''Could not read the broadcast retry clock.''))) (\<lambda>v.
     andThen getState (\<lambda>(b, _).
     case v of
       JNum q \<Rightarrow>
         andThen (unlessThrow (0 \<le> q \<and> q \<le> of_int (MAX_SAFE_INTEGER - maxDelayMs b)) INVALID_RETRY_CLOCK) (\<lambda>_.
         andThen (modifyState (\<lambda>(b, w). (b\<lparr>lastNow := max (lastNow b) q\<rparr>, w))) (\<lambda>_.
         ret (max (lastNow b) q)))
     | _ \<Rightarrow> throw INVALID_RETRY_CLOCK))"

text \<open>\<open>track\<close>: the attempt is its identity and phase, or null.\<close>

definition trackRetry ::
  "(rat \<Rightarrow> rat) \<Rightarrow> ('w, jsval) io \<Rightarrow> (jstr \<times> jstr) option \<Rightarrow> (BroadcastRetrySchedule \<times> 'w, unit) io" where
  "trackRetry rnd clock attempt =
     (case attempt of
        None \<Rightarrow> modifyState (\<lambda>(b, w).
          (b\<lparr>trackedAttempt := None, dueAt := 0, nextDelayMs := initialDelayMs b\<rparr>, w))
      | Some (aid, ph) \<Rightarrow>
          andThen (unlessThrow (uuidV4 aid \<and> (ph = js ''signed'' \<or> ph = js ''broadcast-may-have-occurred''))
            (TypeError ''Invalid broadcast retry attempt.'')) (\<lambda>_.
          andThen getState (\<lambda>(b, _).
          if trackedAttempt b = Some aid then ret ()
          else andThen (readNow clock) (\<lambda>now.
            modifyState (\<lambda>(b, w).
              (b\<lparr>trackedAttempt := Some aid,
                 dueAt := (if ph = js ''broadcast-may-have-occurred''
                           then rnd (now + of_int (initialDelayMs b)) else now),
                 nextDelayMs := initialDelayMs b\<rparr>, w))))))"

definition delayMs ::
  "(rat \<Rightarrow> rat) \<Rightarrow> ('w, jsval) io \<Rightarrow> (BroadcastRetrySchedule \<times> 'w, int option) io" where
  "delayMs rnd clock =
     andThen getState (\<lambda>(b, _).
     if trackedAttempt b = None then ret None
     else andThen (readNow clock) (\<lambda>now. ret (Some (max 0 \<lceil>rnd (dueAt b - now)\<rceil>))))"

definition claimRetry ::
  "(rat \<Rightarrow> rat) \<Rightarrow> ('w, jsval) io \<Rightarrow> jstr \<Rightarrow> (BroadcastRetrySchedule \<times> 'w, bool) io" where
  "claimRetry rnd clock aid =
     andThen getState (\<lambda>(b, _).
     if trackedAttempt b \<noteq> Some aid then ret False
     else andThen (readNow clock) (\<lambda>now.
       if now < dueAt b then ret False
       else andThen (modifyState (\<lambda>(b, w).
           (b\<lparr>dueAt := rnd (now + of_int (nextDelayMs b)),
              nextDelayMs := min (maxDelayMs b) (nextDelayMs b * 2)\<rparr>, w))) (\<lambda>_. ret True)))"

subsection \<open>What the schedule keeps\<close>

definition retryInv :: "BroadcastRetrySchedule \<Rightarrow> bool" where
  "retryInv b =
     (0 < initialDelayMs b \<and> initialDelayMs b \<le> nextDelayMs b \<and> nextDelayMs b \<le> maxDelayMs b \<and>
      maxDelayMs b \<le> MAX_DELAY_MS \<and> 0 \<le> lastNow b \<and> lastNow b \<le> of_int (MAX_SAFE_INTEGER - maxDelayMs b) \<and>
      dueAt b \<le> of_int (\<lceil>lastNow b\<rceil> + maxDelayMs b))"

lemma createRetrySchedule_inv: "createRetrySchedule initial m = Inr b \<Longrightarrow> retryInv b"
  by (auto simp: createRetrySchedule_def validateBroadcastRetryOptions_def bindE_Inr checkE_Inr retryInv_def
      isPositiveSafeInteger_iff MAX_DELAY_MS_def MAX_SAFE_INTEGER_def)

text \<open>Rounding a sum with an integer stays between the integers around it.\<close>

lemma rounded_between:
  assumes "faithfulRounding rnd" and "0 \<le> t" and "t \<le> of_int (MAX_SAFE_INTEGER - m)" and "0 \<le> d" and "d \<le> m"
  shows "of_int (\<lfloor>t\<rfloor> + d) \<le> rnd (t + of_int d)" and "rnd (t + of_int d) \<le> of_int (\<lceil>t\<rceil> + d)"
proof -
  from assms have mono: "\<And>x y. x \<le> y \<Longrightarrow> rnd x \<le> rnd y"
    and exact: "\<And>i. \<bar>i\<bar> \<le> MAX_SAFE_INTEGER \<Longrightarrow> rnd (of_int i) = of_int i"
    by (auto simp: faithfulRounding_def)
  have c: "0 \<le> \<lceil>t\<rceil>" "\<lceil>t\<rceil> \<le> MAX_SAFE_INTEGER - m" "0 \<le> \<lfloor>t\<rfloor>" "\<lfloor>t\<rfloor> \<le> \<lceil>t\<rceil>"
    using assms by (simp_all add: ceiling_le_iff le_floor_iff floor_le_ceiling)
  have "rnd (of_int (\<lfloor>t\<rfloor> + d)) = of_int (\<lfloor>t\<rfloor> + d)" "rnd (of_int (\<lceil>t\<rceil> + d)) = of_int (\<lceil>t\<rceil> + d)"
    using c assms by (intro exact; linarith)+
  moreover have "rnd (of_int (\<lfloor>t\<rfloor> + d)) \<le> rnd (t + of_int d)" "rnd (t + of_int d) \<le> rnd (of_int (\<lceil>t\<rceil> + d))"
    by (rule mono; simp)+
  ultimately show "of_int (\<lfloor>t\<rfloor> + d) \<le> rnd (t + of_int d)" "rnd (t + of_int d) \<le> of_int (\<lceil>t\<rceil> + d)"
    by simp_all
qed

lemma readNow_wp:
  assumes "\<And>q w. clock u = (Inr (JNum q), w) \<Longrightarrow> 0 \<le> q \<Longrightarrow> q \<le> of_int (MAX_SAFE_INTEGER - maxDelayMs b) \<Longrightarrow>
      Q (max (lastNow b) q) (b\<lparr>lastNow := max (lastNow b) q\<rparr>, w)"
    and "\<And>e w. E e (b, w)"
  shows "wp (readNow clock) Q E (b, u)"
proof (cases "clock u")
  case (Pair r w)
  show ?thesis
  proof (cases r)
    case (Inr v)
    show ?thesis
    proof (cases v)
      case (JNum q)
      then show ?thesis using assms(1) [of q w] assms(2) Pair Inr by (simp add: readNow_def wp_def io_defs)
    qed (use assms(2) Pair Inr in \<open>simp_all add: readNow_def wp_def io_defs\<close>)
  qed (use assms(2) Pair in \<open>simp add: readNow_def wp_def io_defs\<close>)
qed

lemmas schedule_defs = trackRetry_def delayMs_def claimRetry_def

text \<open>The clock of the schedule never runs backwards, whatever the clock it reads does.\<close>

definition later :: "BroadcastRetrySchedule \<Rightarrow> rat \<Rightarrow> BroadcastRetrySchedule" where
  "later b t = b\<lparr>lastNow := t\<rparr>"

lemma later_inv:
  "retryInv b \<Longrightarrow> lastNow b \<le> t \<Longrightarrow> t \<le> of_int (MAX_SAFE_INTEGER - maxDelayMs b) \<Longrightarrow> retryInv (later b t)"
  using ceiling_mono [of "lastNow b" t] by (auto simp: retryInv_def later_def elim: order_trans)

lemma readNow_inv:
  assumes "retryInv b"
    and "\<And>t w. lastNow b \<le> t \<Longrightarrow> retryInv (later b t) \<Longrightarrow> Q t (later b t, w)" and "\<And>e w. E e (b, w)"
  shows "wp (readNow clock) Q E (b, u)"
proof (rule readNow_wp)
  fix q :: rat and w assume "q \<le> of_int (MAX_SAFE_INTEGER - maxDelayMs b)"
  then have "max (lastNow b) q \<le> of_int (MAX_SAFE_INTEGER - maxDelayMs b)"
    using assms(1) by (simp add: retryInv_def)
  then have "retryInv (later b (max (lastNow b) q))" by (intro later_inv assms) simp_all
  then have "Q (max (lastNow b) q) (later b (max (lastNow b) q), w)" by (intro assms) simp_all
  then show "Q (max (lastNow b) q) (b\<lparr>lastNow := max (lastNow b) q\<rparr>, w)" by (simp add: later_def)
qed (rule assms)

text \<open>What each operation does to the schedule.\<close>

definition tracked :: "(rat \<Rightarrow> rat) \<Rightarrow> jstr \<Rightarrow> jstr \<Rightarrow> BroadcastRetrySchedule \<Rightarrow> BroadcastRetrySchedule" where
  "tracked rnd aid ph b =
     b\<lparr>trackedAttempt := Some aid,
       dueAt := (if ph = js ''broadcast-may-have-occurred''
                 then rnd (lastNow b + of_int (initialDelayMs b)) else lastNow b),
       nextDelayMs := initialDelayMs b\<rparr>"

definition claimed :: "(rat \<Rightarrow> rat) \<Rightarrow> BroadcastRetrySchedule \<Rightarrow> BroadcastRetrySchedule" where
  "claimed rnd b =
     b\<lparr>dueAt := rnd (lastNow b + of_int (nextDelayMs b)), nextDelayMs := min (maxDelayMs b) (nextDelayMs b * 2)\<rparr>"

lemma trackRetry_wp:
  assumes "retryInv b" and "Q () (b, u)" and "\<And>e w. E e (b, w)"
    and "Q () (b\<lparr>trackedAttempt := None, dueAt := 0, nextDelayMs := initialDelayMs b\<rparr>, u)"
    and "\<And>aid ph t w. attempt = Some (aid, ph) \<Longrightarrow> trackedAttempt b \<noteq> Some aid \<Longrightarrow> uuidV4 aid \<Longrightarrow>
       lastNow b \<le> t \<Longrightarrow> retryInv (later b t) \<Longrightarrow> Q () (tracked rnd aid ph (later b t), w)"
  shows "wp (trackRetry rnd clock attempt) Q E (b, u)"
proof (cases attempt)
  case (Some p)
  obtain aid ph where p: "p = (aid, ph)" by (cases p)
  show ?thesis
    by (simp add: trackRetry_def Some p wp_simps, intro conjI impI assms readNow_inv [OF assms(1)])
      (use assms(5) [of _ _ _ u] assms(5) Some p in \<open>auto simp: wp_simps tracked_def later_def\<close>)
qed (use assms in \<open>simp add: trackRetry_def wp_simps\<close>)

lemma delayMs_wp:
  assumes "retryInv b" and "trackedAttempt b = None \<Longrightarrow> Q None (b, u)" and "\<And>e w. E e (b, w)"
    and "\<And>t w. trackedAttempt b \<noteq> None \<Longrightarrow> lastNow b \<le> t \<Longrightarrow> retryInv (later b t) \<Longrightarrow>
       Q (Some (max 0 \<lceil>rnd (dueAt b - t)\<rceil>)) (later b t, w)"
  shows "wp (delayMs rnd clock) Q E (b, u)"
proof (cases "trackedAttempt b = None")
  case False
  have "wp (readNow clock) (\<lambda>t. Q (Some (max 0 \<lceil>rnd (dueAt b - t)\<rceil>))) E (b, u)"
    by (rule readNow_inv [OF assms(1)]) (use assms(3,4) False in simp_all)
  with False show ?thesis by (simp add: delayMs_def wp_simps del: not_None_eq)
qed (use assms in \<open>simp add: delayMs_def wp_simps\<close>)

lemma claimRetry_wp:
  assumes "retryInv b" and "Q False (b, u)" and "\<And>e w. E e (b, w)"
    and "\<And>t w. trackedAttempt b = Some aid \<Longrightarrow> lastNow b \<le> t \<Longrightarrow> retryInv (later b t) \<Longrightarrow> t < dueAt b \<Longrightarrow>
       Q False (later b t, w)"
    and "\<And>t w. trackedAttempt b = Some aid \<Longrightarrow> lastNow b \<le> t \<Longrightarrow> retryInv (later b t) \<Longrightarrow> dueAt b \<le> t \<Longrightarrow>
       Q True (claimed rnd (later b t), w)"
  shows "wp (claimRetry rnd clock aid) Q E (b, u)"
proof (cases "trackedAttempt b = Some aid")
  case True
  have "wp (readNow clock) (\<lambda>t s. if t < dueAt b then Q False s else
      Q True (case s of (b, w) \<Rightarrow> (b\<lparr>dueAt := rnd (t + of_int (nextDelayMs b)),
        nextDelayMs := min (maxDelayMs b) (nextDelayMs b * 2)\<rparr>, w))) E (b, u)"
    by (rule readNow_inv [OF assms(1)]) (use assms(3,4,5) True in \<open>auto simp: claimed_def later_def\<close>)
  with True show ?thesis by (simp add: claimRetry_def wp_simps if_bool_eq_conj)
qed (use assms in \<open>simp add: claimRetry_def wp_simps\<close>)

lemma tracked_inv: "faithfulRounding rnd \<Longrightarrow> retryInv b \<Longrightarrow> retryInv (tracked rnd aid ph b)"
  using rounded_between(2) [of rnd "lastNow b" "maxDelayMs b" "initialDelayMs b"] le_of_int_ceiling [of "lastNow b"]
  by (auto simp: retryInv_def tracked_def intro: add_increasing2)

lemma claimed_inv: "faithfulRounding rnd \<Longrightarrow> retryInv b \<Longrightarrow> retryInv (claimed rnd b)"
  using rounded_between(2) [of rnd "lastNow b" "maxDelayMs b" "nextDelayMs b"]
  by (auto simp: retryInv_def claimed_def)

subsection \<open>The sends of one attempt\<close>

text \<open>
  Any use of the schedule while one attempt stays tracked: claims, reads of the delay, repeated
  observations of the attempt, and changes of the world, in any order. The list holds the times of
  the claims that were granted.
\<close>

inductive retryUse ::
  "(rat \<Rightarrow> rat) \<Rightarrow> ('w, jsval) io \<Rightarrow> jstr \<Rightarrow> BroadcastRetrySchedule \<times> 'w \<Rightarrow> rat list \<Rightarrow>
   BroadcastRetrySchedule \<times> 'w \<Rightarrow> bool" for rnd clock aid where
  unused: "retryUse rnd clock aid s [] s"
| granted: "claimRetry rnd clock aid s = (Inr True, t) \<Longrightarrow> retryUse rnd clock aid t ts u \<Longrightarrow>
    retryUse rnd clock aid s (lastNow (fst t) # ts) u"
| refused: "claimRetry rnd clock other s = (r, t) \<Longrightarrow> r \<noteq> Inr True \<Longrightarrow> retryUse rnd clock aid t ts u \<Longrightarrow>
    retryUse rnd clock aid s ts u"
| asked: "delayMs rnd clock s = (r, t) \<Longrightarrow> retryUse rnd clock aid t ts u \<Longrightarrow> retryUse rnd clock aid s ts u"
| observed: "trackRetry rnd clock (Some (aid, ph)) s = (r, t) \<Longrightarrow> retryUse rnd clock aid t ts u \<Longrightarrow>
    retryUse rnd clock aid s ts u"
| elsewhere: "retryUse rnd clock aid (b, v) ts u \<Longrightarrow> retryUse rnd clock aid (b, w) ts u"

text \<open>Each grant comes at least the current delay after the one before it, and the delay doubles.\<close>

fun backoffSpaced :: "int \<Rightarrow> int \<Rightarrow> rat list \<Rightarrow> bool" where
  "backoffSpaced d m (t # u # ts) = (of_int (\<lfloor>t\<rfloor> + d) \<le> u \<and> backoffSpaced (min m (d * 2)) m (u # ts))"
| "backoffSpaced d m _ = True"

definition usable :: "jstr \<Rightarrow> BroadcastRetrySchedule \<Rightarrow> bool" where
  "usable aid b = (retryInv b \<and> trackedAttempt b = Some aid)"

definition onlyLater :: "BroadcastRetrySchedule \<Rightarrow> BroadcastRetrySchedule \<Rightarrow> bool" where
  "onlyLater b c = (retryInv c \<and> (\<exists>t. lastNow b \<le> t \<and> c = later b t))"

lemma onlyLater_refl: "retryInv b \<Longrightarrow> onlyLater b b"
  by (auto simp: onlyLater_def later_def intro: exI [of _ "lastNow b"])

lemma wp_outcome:
  assumes "wp m (\<lambda>x t. P (Inr x) t) (\<lambda>e t. P (Inl e) t) s" and "m s = (r, t)"
  shows "P r t"
  using assms by (cases r) (simp_all add: wp_def)

lemma quiet_uses:
  assumes "retryInv b"
  shows "claimRetry rnd clock other (b, w) = (r, t) \<Longrightarrow> r \<noteq> Inr True \<Longrightarrow> onlyLater b (fst t)"
    and "delayMs rnd clock (b, w) = (r', t) \<Longrightarrow> onlyLater b (fst t)"
    and "trackedAttempt b = Some aid \<Longrightarrow> trackRetry rnd clock (Some (aid, ph)) (b, w) = (q, t) \<Longrightarrow> onlyLater b (fst t)"
proof -
  note r = onlyLater_refl [OF assms]
  have l: "onlyLater b (later b t)" if "lastNow b \<le> t" "retryInv (later b t)" for t
    using that by (auto simp: onlyLater_def)
  have "wp (claimRetry rnd clock other) (\<lambda>x t. Inr x \<noteq> Inr True \<longrightarrow> onlyLater b (fst t))
      (\<lambda>e t. Inl e \<noteq> Inr True \<longrightarrow> onlyLater b (fst t)) (b, w)"
    by (rule claimRetry_wp [OF assms]) (simp_all add: r l)
  then show "claimRetry rnd clock other (b, w) = (r, t) \<Longrightarrow> r \<noteq> Inr True \<Longrightarrow> onlyLater b (fst t)"
    using wp_outcome [of "claimRetry rnd clock other" "\<lambda>r t. r \<noteq> Inr True \<longrightarrow> onlyLater b (fst t)"] by blast
  have "wp (delayMs rnd clock) (\<lambda>x t. onlyLater b (fst t)) (\<lambda>e t. onlyLater b (fst t)) (b, w)"
    by (rule delayMs_wp [OF assms]) (simp_all add: r l)
  then show "delayMs rnd clock (b, w) = (r', t) \<Longrightarrow> onlyLater b (fst t)" by (rule wp_outcome)
  show "onlyLater b (fst t)" if "trackedAttempt b = Some aid" "trackRetry rnd clock (Some (aid, ph)) (b, w) = (q, t)"
  proof -
    have "wp (trackRetry rnd clock (Some (aid, ph))) (\<lambda>x t. onlyLater b (fst t)) (\<lambda>e t. onlyLater b (fst t)) (b, w)"
      using that(1) r by (simp add: trackRetry_def wp_simps)
    then show ?thesis using that(2) by (rule wp_outcome)
  qed
qed

lemma granted_use:
  assumes "retryInv b" and "faithfulRounding rnd" and "claimRetry rnd clock aid (b, w) = (Inr True, t)"
  shows "retryInv (fst t)" and "trackedAttempt (fst t) = Some aid" and "maxDelayMs (fst t) = maxDelayMs b"
    and "nextDelayMs (fst t) = min (maxDelayMs b) (nextDelayMs b * 2)"
    and "dueAt b \<le> lastNow (fst t)" and "of_int (\<lfloor>lastNow (fst t)\<rfloor> + nextDelayMs b) \<le> dueAt (fst t)"
proof -
  let ?P = "\<lambda>x t. x \<longrightarrow> (\<exists>u. lastNow b \<le> u \<and> retryInv (later b u) \<and> dueAt b \<le> u \<and>
      trackedAttempt b = Some aid \<and> fst t = claimed rnd (later b u))"
  have "wp (claimRetry rnd clock aid) ?P (\<lambda>_ _. True) (b, w)"
    by (rule claimRetry_wp [OF assms(1)]) auto
  then obtain u where u: "lastNow b \<le> u" "retryInv (later b u)" "dueAt b \<le> u" "trackedAttempt b = Some aid"
    "fst t = claimed rnd (later b u)" using assms(3) by (auto simp: wp_def)
  show "retryInv (fst t)" unfolding u by (rule claimed_inv [OF assms(2) u(2)])
  have "of_int (\<lfloor>u\<rfloor> + nextDelayMs b) \<le> rnd (u + of_int (nextDelayMs b))"
    by (rule rounded_between [OF assms(2), of u "maxDelayMs b"]) (use u(2) in \<open>auto simp: retryInv_def later_def\<close>)
  with u show "trackedAttempt (fst t) = Some aid" "maxDelayMs (fst t) = maxDelayMs b"
    "nextDelayMs (fst t) = min (maxDelayMs b) (nextDelayMs b * 2)"
    "dueAt b \<le> lastNow (fst t)" "of_int (\<lfloor>lastNow (fst t)\<rfloor> + nextDelayMs b) \<le> dueAt (fst t)"
    by (simp_all add: claimed_def later_def)
qed

lemma onlyLater_usable:
  "onlyLater b c \<Longrightarrow> usable aid b \<Longrightarrow> usable aid c \<and> dueAt c = dueAt b \<and> nextDelayMs c = nextDelayMs b \<and>
    maxDelayMs c = maxDelayMs b"
  by (auto simp: onlyLater_def usable_def later_def)

lemma retryUse_spaced:
  assumes "faithfulRounding rnd"
  shows "retryUse rnd clock aid s ts u \<Longrightarrow> usable aid (fst s) \<Longrightarrow>
    backoffSpaced (nextDelayMs (fst s)) (maxDelayMs (fst s)) ts \<and> (ts \<noteq> [] \<longrightarrow> dueAt (fst s) \<le> hd ts)"
proof (induction rule: retryUse.induct)
  case (granted s t ts u)
  obtain b w where s: "s = (b, w)" by (cases s)
  have b: "retryInv b" using granted.prems s by (simp add: usable_def)
  note g = granted_use [OF b assms granted.hyps(1) [unfolded s]]
  from granted.IH g have "backoffSpaced (min (maxDelayMs b) (nextDelayMs b * 2)) (maxDelayMs b) ts"
    and "ts \<noteq> [] \<longrightarrow> dueAt (fst t) \<le> hd ts" by (simp_all add: usable_def)
  with g show ?case by (cases ts) (auto simp: s)
next
  case (refused other s r t ts u)
  then show ?case
    using quiet_uses(1) [of "fst s" rnd clock other "snd s" r t] onlyLater_usable [of "fst s" "fst t" aid]
    by (simp add: usable_def)
next
  case (asked s r t ts u)
  then show ?case
    using quiet_uses(2) [of "fst s" rnd clock "snd s" r t] onlyLater_usable [of "fst s" "fst t" aid]
    by (simp add: usable_def)
next
  case (observed ph s r t ts u)
  then show ?case
    using quiet_uses(3) [of "fst s" aid rnd clock ph "snd s" r t] onlyLater_usable [of "fst s" "fst t" aid]
    by (simp add: usable_def)
qed auto

text \<open>A claim is granted as soon as the clock is past the longest delay after its last reading.\<close>

lemma claim_granted:
  assumes "usable aid b" and "clock u = (Inr (JNum q), w)"
    and "of_int (\<lceil>lastNow b\<rceil> + maxDelayMs b) \<le> q" and "q \<le> of_int (MAX_SAFE_INTEGER - maxDelayMs b)"
  shows "fst (claimRetry rnd clock aid (b, u)) = Inr True"
proof -
  have q: "0 \<le> q" "dueAt b \<le> max (lastNow b) q"
    using assms by (auto simp: usable_def retryInv_def)
      (metis ceiling_mono ceiling_zero of_int_0_le_iff add_nonneg_nonneg order_trans less_imp_le of_int_add)
  then show ?thesis
    using assms by (simp add: claimRetry_def readNow_def io_defs usable_def max_def)
qed

subsection \<open>The schedule of durable recovery\<close>

record DurableRecoverySchedule =
  refreshIntervalMs :: int
  completedPass :: "(BlockAnchor \<times> rat) option"

definition createDurableSchedule :: "jsval \<Rightarrow> exn + DurableRecoverySchedule" where
  "createDurableSchedule interval =
     checkE (isPositiveSafeInteger interval) (TypeError ''Invalid durable recovery refresh interval.'') (\<lambda>_.
     Inr \<lparr>refreshIntervalMs = numInt interval, completedPass = None\<rparr>)"

text \<open>
  A clock value that is not a finite number makes the difference of times NaN or infinite. (A
  difference that overflows is infinite in the source and a large number here; both are due.)
\<close>

definition isDue ::
  "(rat \<Rightarrow> rat) \<Rightarrow> ('w, jsval) io \<Rightarrow> DurableRecoverySchedule \<Rightarrow> BlockAnchor \<Rightarrow> ('w, bool) io" where
  "isDue rnd clock d a =
     (case completedPass d of
        None \<Rightarrow> ret True
      | Some (b, since) \<Rightarrow>
          if blockNumber a \<noteq> blockNumber b \<or> toLowerCase (blockHash a) \<noteq> toLowerCase (blockHash b) then ret True
          else andThen clock (\<lambda>now.
            case now of
              JNum q \<Rightarrow>
                let elapsed = rnd (q - since) in
                ret (elapsed < 0 \<or> of_int (refreshIntervalMs d) \<le> elapsed)
            | _ \<Rightarrow> ret True))"

definition invalidateDurable :: "DurableRecoverySchedule \<Rightarrow> DurableRecoverySchedule" where
  "invalidateDurable d = d\<lparr>completedPass := None\<rparr>"

definition recordCompleted ::
  "('w, jsval) io \<Rightarrow> BlockAnchor \<Rightarrow> (DurableRecoverySchedule \<times> 'w, unit) io" where
  "recordCompleted clock a =
     andThen (onWorld clock) (\<lambda>now.
     modifyState (\<lambda>(d, w).
       (case now of JNum q \<Rightarrow> d\<lparr>completedPass := Some (a, q)\<rparr> | _ \<Rightarrow> invalidateDurable d, w)))"

text \<open>A pass is reused only for the anchor it was completed at and within the refresh interval.\<close>

lemma isDue_False:
  assumes "isDue rnd clock d a u = (Inr False, w)"
  obtains b since q where "completedPass d = Some (b, since)" "blockNumber b = blockNumber a"
    "toLowerCase (blockHash b) = toLowerCase (blockHash a)" "clock u = (Inr (JNum q), w)"
    "0 \<le> rnd (q - since)" "rnd (q - since) < of_int (refreshIntervalMs d)"
proof -
  from assms obtain b since now v where b: "completedPass d = Some (b, since)" "blockNumber b = blockNumber a"
    "toLowerCase (blockHash b) = toLowerCase (blockHash a)"
    and now: "clock u = (Inr now, v)" and out: "(case now of JNum q \<Rightarrow> let elapsed = rnd (q - since) in
          ret (elapsed < 0 \<or> of_int (refreshIntervalMs d) \<le> elapsed) | _ \<Rightarrow> ret True) v = (Inr False, w)"
    by (auto simp: isDue_def andThen_Inr split: option.splits prod.splits if_splits)
  from out that b now show thesis by (cases now) (auto simp: Let_def)
qed

end
