(* ===== verification/Revision.thy ===== *)
theory Revision
  imports Gate
begin

text \<open>
  What \<^verbatim>\<open>durableRecoveryRevision\<close> identifies: two committed states have the same revision exactly
  when they agree in everything recovery depends on. The text is a faithful code of the projection
  because printed JSON parses back, and the projection forgets only the letter case of hashes, the
  work and creation data of attempts, the observation anchors and the repairs.
\<close>

subsection \<open>Printing is injective\<close>

lemma printJson_inj:
  assumes "exactIntegers N" "plainJson i" "plainJson j"
  shows "printJson N i = printJson N j \<longleftrightarrow> i = j"
proof
  assume eq: "printJson N i = printJson N j"
  have "parseValue N (printJson N i @ []) = Some (i, [])" "parseValue N (printJson N j @ []) = Some (j, [])"
    using parse_print [OF assms(1,2)] parse_print [OF assms(1,3)] by (auto simp: parsesBack_def stops_def)
  with eq show "i = j" by simp
qed simp

lemma showBigint_eq [simp]: "showBigint m = showBigint n \<longleftrightarrow> m = n"
proof -
  have head: "hd (showNonNeg k) \<noteq> 45 \<and> showNonNeg k \<noteq> []" if "0 \<le> k" for k
    using showBigint_hd [OF that] that by (auto simp: showBigint_def isDigitUnit_def word_le_nat_alt)
  have "showBigint m \<noteq> showBigint n" if "m < 0" "0 \<le> n" for m n
  proof
    assume "showBigint m = showBigint n"
    then have "45 # showNonNeg (- m) = showNonNeg n" using that by (simp add: showBigint_def js_def)
    then have "hd (showNonNeg n) = 45" by (metis list.sel(1))
    with head [of n] that show False by simp
  qed
  moreover have "m = n" if "m < 0" "n < 0" "showBigint m = showBigint n"
    using that showBigint_inj [of "- m" "- n"] by (simp add: showBigint_def)
  ultimately show ?thesis using showBigint_inj [of m n] by (metis not_le)
qed

subsection \<open>The state a revision stands for\<close>

definition sameHex :: "jstr \<Rightarrow> jstr \<Rightarrow> bool" where
  "sameHex g h = (toLowerCase g = toLowerCase h)"

definition sameAnchor :: "BlockAnchor \<Rightarrow> BlockAnchor \<Rightarrow> bool" where
  "sameAnchor a b = (blockNumber a = blockNumber b \<and> sameHex (blockHash a) (blockHash b))"

fun sameInclusion :: "JournalInclusionObservation \<Rightarrow> JournalInclusionObservation \<Rightarrow> bool" where
  "sameInclusion (RecordedInclusion i p r g) (RecordedInclusion j q s h) =
     (sameAnchor i j \<and> r = s \<and> sameHex g h)"
| "sameInclusion (ReplacedInclusion i p g m) (ReplacedInclusion j q h n) =
     (sameAnchor i j \<and> sameHex g h \<and> m = n)"
| "sameInclusion _ _ = False"

fun samePhase :: "attempt_phase \<Rightarrow> attempt_phase \<Rightarrow> bool" where
  "samePhase (Included i) (Included j) = sameInclusion i j"
| "samePhase p q = (p = q)"

definition sameSearch :: "ReplacementSearch \<Rightarrow> ReplacementSearch \<Rightarrow> bool" where
  "sameSearch s t =
     (sameAnchor (anchor (lowerBound s)) (anchor (lowerBound t)) \<and>
      obsNonce (lowerBound s) = obsNonce (lowerBound t) \<and>
      rel_option sameAnchor (searchedThrough s) (searchedThrough t))"

definition sameAttempt :: "JournalAttempt \<Rightarrow> JournalAttempt \<Rightarrow> bool" where
  "sameAttempt a b =
     (attemptId a = attemptId b \<and> attemptNonce a = attemptNonce b \<and> samePhase (phase a) (phase b) \<and>
      list_all2 sameHex (attemptHashes a) (attemptHashes b) \<and>
      rel_option sameSearch (replacementSearch a) (replacementSearch b))"

fun sameJournal :: "TransactionJournalRead \<Rightarrow> TransactionJournalRead \<Rightarrow> bool" where
  "sameJournal (Present s) (Present t) =
     (nextNonce s = nextNonce t \<and> durableNextNonce s = durableNextNonce t \<and>
      list_all2 sameAttempt (attempts s) (attempts t))"
| "sameJournal c d = (c = d)"

definition sameRecoveryState ::
  "TransactionJournalRead \<Rightarrow> SignerBlocker set \<Rightarrow> TransactionJournalRead \<Rightarrow> SignerBlocker set \<Rightarrow> bool" where
  "sameRecoveryState c B d D = (sameJournal c d \<and> (\<forall>b. coordinatorBlocker b \<longrightarrow> (b \<in> B \<longleftrightarrow> b \<in> D)))"

lemma jsonObj_eq [simp]: "jsonObj ps = jsonObj qs \<longleftrightarrow> ps = qs"
proof -
  have "inj (\<lambda>(k, v :: json). (js k, v))" by (auto intro!: injI)
  then show ?thesis by (simp add: jsonObj_def inj_map_eq_map)
qed

lemma jsonObj_null [simp]: "jsonObj ps \<noteq> JsonNull" "JsonNull \<noteq> jsonObj ps"
  by (simp_all add: jsonObj_def)

lemma projectAnchor_eq [simp]: "projectAnchor a = projectAnchor b \<longleftrightarrow> sameAnchor a b"
  by (simp add: projectAnchor_def sameAnchor_def sameHex_def)

lemma projectInclusion_eq [simp]: "projectInclusion i = projectInclusion j \<longleftrightarrow> sameInclusion i j"
  by (cases i; cases j) (auto simp: sameHex_def split: receipt_outcome.splits)

lemma projectInclusion_null [simp]: "projectInclusion i \<noteq> JsonNull" "JsonNull \<noteq> projectInclusion i"
  by (cases i; simp)+

lemma phase_eq:
  "phaseName p = phaseName q \<and>
   (case phaseInclusion p of None \<Rightarrow> JsonNull | Some i \<Rightarrow> projectInclusion i) =
     (case phaseInclusion q of None \<Rightarrow> JsonNull | Some i \<Rightarrow> projectInclusion i) \<longleftrightarrow> samePhase p q"
  by (cases p; cases q) (simp_all add: phaseName_def phaseInclusion_def)

lemma search_eq:
  "(case x of None \<Rightarrow> JsonNull | Some s \<Rightarrow> projectSearch s) =
     (case y of None \<Rightarrow> JsonNull | Some s \<Rightarrow> projectSearch s) \<longleftrightarrow> rel_option sameSearch x y"
proof -
  have "(case u of None \<Rightarrow> JsonNull | Some a \<Rightarrow> projectAnchor a) =
      (case v of None \<Rightarrow> JsonNull | Some a \<Rightarrow> projectAnchor a) \<longleftrightarrow> rel_option sameAnchor u v" for u v
    by (cases u; cases v) (simp_all add: projectAnchor_def sameAnchor_def sameHex_def)
  then have "projectSearch s = projectSearch t \<longleftrightarrow> sameSearch s t" for s t
    by (simp add: projectSearch_def sameSearch_def)
  moreover have "projectSearch s \<noteq> JsonNull" "JsonNull \<noteq> projectSearch s" for s
    by (simp_all add: projectSearch_def)
  ultimately show ?thesis by (cases x; cases y) simp_all
qed

lemma map_eq_rel: "(\<And>x y. f x = f y \<longleftrightarrow> R x y) \<Longrightarrow> map f xs = map f ys \<longleftrightarrow> list_all2 R xs ys"
  by (simp add: list_eq_iff_zip_eq list_all2_iff) (auto simp: zip_map1 zip_map2 split_beta set_zip)

lemma projectAttempt_eq: "projectAttempt a = projectAttempt b \<longleftrightarrow> sameAttempt a b"
proof -
  have "map (\<lambda>t. JsonString (toLowerCase (transactionHash t))) xs =
      map (\<lambda>t. JsonString (toLowerCase (transactionHash t))) ys \<longleftrightarrow>
      list_all2 sameHex (map transactionHash xs) (map transactionHash ys)"
    for xs ys :: "JournalSignedTransaction list"
    using map_eq_rel [of "\<lambda>t. JsonString (toLowerCase (transactionHash t))"
        "\<lambda>t u. sameHex (transactionHash t) (transactionHash u)" xs ys]
    by (simp add: sameHex_def list_all2_map1 list_all2_map2)
  with phase_eq [of "phase a" "phase b"] show ?thesis
    by (auto simp: projectAttempt_def sameAttempt_def attemptHashes_def search_eq)
qed

lemma blockers_eq:
  "map (\<lambda>b. JsonString (blockerName b)) (filter (\<lambda>b. coordinatorBlocker b \<and> b \<in> B) BLOCKER_PRECEDENCE) =
   map (\<lambda>b. JsonString (blockerName b)) (filter (\<lambda>b. coordinatorBlocker b \<and> b \<in> D) BLOCKER_PRECEDENCE) \<longleftrightarrow>
   (\<forall>b. coordinatorBlocker b \<longrightarrow> (b \<in> B \<longleftrightarrow> b \<in> D))" (is "map ?f ?x = map ?f ?y \<longleftrightarrow> ?r")
proof -
  have "inj ?f"
  proof (rule injI)
    fix b c assume "?f b = ?f c" then show "b = c" by (cases b; cases c) simp_all
  qed
  then have "map ?f ?x = map ?f ?y \<longleftrightarrow> ?x = ?y" by (rule inj_map_eq_map)
  also have "\<dots> \<longleftrightarrow> ?r"
  proof
    assume "?x = ?y"
    then have "set ?x = set ?y" by simp
    moreover have "b \<in> set BLOCKER_PRECEDENCE" for b by (cases b) (simp_all add: BLOCKER_PRECEDENCE_def)
    ultimately show ?r by auto
  qed (auto intro!: filter_cong)
  finally show ?thesis .
qed

lemma revisionProjection_eq:
  "revisionProjection c B = revisionProjection d D \<longleftrightarrow> sameRecoveryState c B d D"
  using blockers_eq [of B D]
  by (cases c; cases d) (auto simp: revisionProjection_def sameRecoveryState_def Let_def map_eq_rel [OF projectAttempt_eq])

subsection \<open>The text\<close>

lemma plain_obj: "distinct (map fst ps) \<Longrightarrow> list_all (plainJson \<circ> snd) ps \<Longrightarrow> plainJson (jsonObj ps)"
  by (auto simp: jsonObj_def distinct_map inj_on_def list_all_iff split_beta)

lemma plain_projections:
  "plainJson (projectAnchor a)" "plainJson (projectInclusion i)" "plainJson (projectSearch s)"
  "plainJson (projectAttempt t)"
proof -
  show a: "plainJson (projectAnchor a)" for a unfolding projectAnchor_def by (rule plain_obj) simp_all
  show i: "plainJson (projectInclusion i)" for i by (cases i) (simp_all add: plain_obj a)
  show s: "plainJson (projectSearch s)" for s
    unfolding projectSearch_def by (intro plain_obj) (simp_all add: a plain_obj split: option.splits)
  show "plainJson (projectAttempt t)"
    unfolding projectAttempt_def by (rule plain_obj) (simp_all add: i s list_all_iff split: option.splits)
qed

lemma plain_revision: "plainJson (revisionProjection c B)"
  by (cases c)
    (auto simp: revisionProjection_def Let_def list_all_iff plain_projections intro!: plain_obj)

lemma revision_eq:
  "durableRecoveryRevision c B = durableRecoveryRevision d D \<longleftrightarrow> sameRecoveryState c B d D"
  unfolding durableRecoveryRevision_def
  by (simp add: printJson_inj integerFormat_exact plain_revision revisionProjection_eq)

end
