(* ===== verification/RecoveryCycle.thy ===== *)
theory RecoveryCycle
  imports Simulation Schedules Revision
begin

text \<open>
  \<^verbatim>\<open>state/signer-recovery-cycle.ts\<close>, \<^verbatim>\<open>state/is-durable-recovery-complete.ts\<close> and
  \<^verbatim>\<open>state/recover-signer-at-heads.ts\<close>: one cycle of the daemon's work on a signer. The cycle owns
  the two schedules and drives the coordinator through its public operations; its state is paired
  with the coordinator's. An abort signal is a predicate on the world, read where the source calls
  \<^verbatim>\<open>throwIfAborted\<close>; an absent signal is never aborted.
\<close>

subsection \<open>When a durable pass is complete\<close>

definition isDurableRecoveryComplete ::
  "SignerRecoveryResult \<Rightarrow> bool \<Rightarrow> bool \<Rightarrow> AttemptSummary list \<Rightarrow> bool" where
  "isDurableRecoveryComplete r complete1 idle as =
     (if \<not> complete1 \<or> \<not> idle then False
      else case r of
        RecoveryInspected (RecoveryNoAttempt _) \<Rightarrow> as = []
      | RecoveryInspected (ResolutionAvailable _ _) \<Rightarrow> as = []
      | RecoveryInspected (RecoveryUnresolved obs receipt search) \<Rightarrow>
          (case as of
             [] \<Rightarrow> False
           | a # _ \<Rightarrow>
               if asNonce a < obsNonce obs then False
               else if search \<noteq> None \<or> (case receipt of ForkServedReceipt _ _ \<Rightarrow> True | _ \<Rightarrow> False) then False
               else True)
      | _ \<Rightarrow> False)"

subsection \<open>State\<close>

record recovery_cycle =
  cycleBusy :: bool
  completedDurableRevision :: "jstr option"
  retrySchedule :: BroadcastRetrySchedule
  durableSchedule :: "DurableRecoverySchedule option"

record 'w cycle_env =
  cycCoordinator :: "'w coordinator_env"
  cycRetryClock :: "('w, jsval) io"
  cycDurableClock :: "('w, jsval) io"
  cycRounding :: "rat \<Rightarrow> rat"

type_synonym 'w rstate = "recovery_cycle \<times> 'w cstate"

definition newRecoveryCycle ::
  "BroadcastRetrySchedule \<Rightarrow> DurableRecoverySchedule option \<Rightarrow> recovery_cycle" where
  "newRecoveryCycle b d =
     \<lparr>cycleBusy = False, completedDurableRevision = None, retrySchedule = b, durableSchedule = d\<rparr>"

definition updCycle :: "(recovery_cycle \<Rightarrow> recovery_cycle) \<Rightarrow> ('w rstate, unit) io" where
  "updCycle f = modifyState (\<lambda>(k, s). (f k, s))"

definition readCycle :: "(recovery_cycle \<Rightarrow> ('w rstate, 'a) io) \<Rightarrow> ('w rstate, 'a) io" where
  "readCycle f = (\<lambda>s. f (fst s) s)"

definition readCoordinator :: "(coordinator \<Rightarrow> ('w rstate, 'a) io) \<Rightarrow> ('w rstate, 'a) io" where
  "readCoordinator f = (\<lambda>s. f (fst (snd s)) s)"

text \<open>An operation of the retry schedule, inside the larger state.\<close>

definition onRetry :: "(BroadcastRetrySchedule \<times> 'w, 'a) io \<Rightarrow> ('w rstate, 'a) io" where
  "onRetry m = (\<lambda>(k, c, w). case m (retrySchedule k, w) of (r, b, v) \<Rightarrow> (r, k\<lparr>retrySchedule := b\<rparr>, c, v))"

definition throwIfAborted :: "('w \<Rightarrow> bool) \<Rightarrow> ('w rstate, unit) io" where
  "throwIfAborted aborted =
     onWorld (onWorld (\<lambda>w. (if aborted w then Inl AbortReason else Inr (), w)))"

text \<open>\<^verbatim>\<open>coordinator.status\<close>: the gate is evaluated each time the status is read.\<close>

definition readStatus ::
  "(coordinator \<Rightarrow> SignerGateDecision \<Rightarrow> ('w rstate, 'a) io) \<Rightarrow> ('w rstate, 'a) io" where
  "readStatus f = readCoordinator (\<lambda>c. andThen (liftPure (coordinatorGate c)) (f c))"

definition retryAttempt :: "coordinator \<Rightarrow> (jstr \<times> jstr) option" where
  "retryAttempt c =
     map_option (\<lambda>a. (asAttemptId a, asPhase a))
       (find (\<lambda>a. asPhase a \<noteq> js ''included'') (attemptSummaries c))"

definition trackCurrent :: "'w cycle_env \<Rightarrow> ('w rstate, unit) io" where
  "trackCurrent E =
     readCoordinator (\<lambda>c. onRetry (trackRetry (cycRounding E) (cycRetryClock E) (retryAttempt c)))"

definition invalidateDurableRecovery :: "recovery_cycle \<Rightarrow> recovery_cycle" where
  "invalidateDurableRecovery k =
     k\<lparr>completedDurableRevision := None, durableSchedule := map_option invalidateDurable (durableSchedule k)\<rparr>"

subsection \<open>One cycle\<close>

datatype cycle_inspection = CycleInspected SignerRecoveryResult | CycleSkipped

record SignerRecoveryCycleResult =
  cycleInspection :: cycle_inspection
  cycleInclusions :: "SignerInclusionInspection option"
  cycleBroadcast :: "BroadcastAttemptResult option"
  cycleRetryDelay :: "int option"

definition validHead :: "BlockAnchor \<Rightarrow> BlockAnchor \<Rightarrow> bool" where
  "validHead anch head =
     (0 \<le> blockNumber head \<and> blockNumber head < 2 ^ 256 \<and> fixedHex (blockHash head) 32 \<and>
      blockNumber anch \<le> blockNumber head \<and>
      (blockNumber head = blockNumber anch \<longrightarrow> toLowerCase (blockHash head) = toLowerCase (blockHash anch)))"

definition retryFailedWrite :: "'w cycle_env \<Rightarrow> nat option \<Rightarrow> ('w rstate, unit) io" where
  "retryFailedWrite E cycle =
     readStatus (\<lambda>c _.
     if stateValue (persistence c) = Failed then
       andThen (onWorld (retryPersistence (cycCoordinator E) cycle)) (\<lambda>_. trackCurrent E)
     else ret ())"

definition durableIsDue :: "'w cycle_env \<Rightarrow> BlockAnchor \<Rightarrow> DurableRecoverySchedule \<Rightarrow> ('w rstate, bool) io" where
  "durableIsDue E anch d = onWorld (onWorld (isDue (cycRounding E) (cycDurableClock E) d anch))"

definition canReuseDurablePass ::
  "'w cycle_env \<Rightarrow> BlockAnchor \<Rightarrow> BlockAnchor option \<Rightarrow> ('w rstate, bool) io" where
  "canReuseDurablePass E anch head =
     readStatus (\<lambda>c g. readCycle (\<lambda>k.
     case durableSchedule k of
       None \<Rightarrow> ret False
     | Some d \<Rightarrow>
         if head \<noteq> None \<and> recoveryComplete c \<and> inclusionChecksComplete c \<and> persistenceIdle c \<and>
            UnattributedSignerActivity \<notin> set (gateBlockers g) \<and>
            ConflictSearchExhausted \<notin> set (gateBlockers g) \<and>
            completedDurableRevision k = Some (committedRevision c)
         then andThen (durableIsDue E anch d) (\<lambda>due. ret (\<not> due))
         else ret False))"

definition resolutionAvailable :: "SignerRecoveryResult \<Rightarrow> bool" where
  "resolutionAvailable r = (case r of RecoveryInspected (ResolutionAvailable _ _) \<Rightarrow> True | _ \<Rightarrow> False)"

text \<open>The further passes, one attempt fewer to recover after each; \<open>n\<close> passes are left.\<close>

fun recoverPasses ::
  "'w cycle_env \<Rightarrow> 'w chain_client \<Rightarrow> BlockAnchor \<Rightarrow> int \<Rightarrow> ('w \<Rightarrow> bool) \<Rightarrow> int \<Rightarrow> nat option \<Rightarrow>
   nat \<Rightarrow> SignerRecoveryResult \<Rightarrow> ('w rstate, SignerRecoveryResult) io" where
  "recoverPasses E C anch maxRange aborted g cycle 0 r = ret r"
| "recoverPasses E C anch maxRange aborted g cycle (Suc n) r =
     readCoordinator (\<lambda>c.
     if resolutionAvailable r \<and> attemptSummaries c \<noteq> [] then
       andThen (throwIfAborted aborted) (\<lambda>_.
       andThen (onWorld (recoverInspection (cycCoordinator E) C anch maxRange g cycle)) (\<lambda>r'.
       recoverPasses E C anch maxRange aborted g cycle n r'))
     else ret r)"

definition recordDurablePass ::
  "'w cycle_env \<Rightarrow> BlockAnchor \<Rightarrow> SignerRecoveryResult \<Rightarrow> ('w rstate, unit) io" where
  "recordDurablePass E anch r =
     readStatus (\<lambda>c _. readCycle (\<lambda>k.
     case durableSchedule k of
       None \<Rightarrow> ret ()
     | Some d \<Rightarrow>
         if isDurableRecoveryComplete r (recoveryComplete c) (persistenceIdle c) (attemptSummaries c) then
           andThen (\<lambda>(k, c, w). case recordCompleted (cycDurableClock E) anch (d, w) of
               (x, e, v) \<Rightarrow> (x, k\<lparr>durableSchedule := Some e\<rparr>, c, v)) (\<lambda>_.
           updCycle (\<lambda>k. k\<lparr>completedDurableRevision := Some (committedRevision c)\<rparr>))
         else ret ()))"

definition durablePass ::
  "'w cycle_env \<Rightarrow> 'w chain_client \<Rightarrow> BlockAnchor \<Rightarrow> int \<Rightarrow> ('w \<Rightarrow> bool) \<Rightarrow> int \<Rightarrow> nat option \<Rightarrow>
   ('w rstate, cycle_inspection) io" where
  "durablePass E C anch maxRange aborted g cycle =
     andThen (updCycle invalidateDurableRecovery) (\<lambda>_.
     readCoordinator (\<lambda>c.
     let maxPasses = max 1 (length (attemptSummaries c)) in
     andThen (onWorld (recoverInspection (cycCoordinator E) C anch maxRange g cycle)) (\<lambda>first.
     andThen (recoverPasses E C anch maxRange aborted g cycle (maxPasses - 1) first) (\<lambda>r.
     andThen (recordDurablePass E anch r) (\<lambda>_.
     ret (CycleInspected r))))))"

definition inclusionPass ::
  "'w cycle_env \<Rightarrow> 'w chain_client \<Rightarrow> BlockAnchor \<Rightarrow> BlockAnchor option \<Rightarrow> int \<Rightarrow> int \<Rightarrow> nat option \<Rightarrow>
   ('w rstate, SignerInclusionInspection option) io" where
  "inclusionPass E C anch head maxRange g cycle =
     readStatus (\<lambda>c _.
     if recoveryComplete c \<and> (head \<noteq> None \<or> attemptSummaries c = []) then
       andThen (onWorld (checkInclusionsInspection (cycCoordinator E) C
           (case head of None \<Rightarrow> anch | Some h \<Rightarrow> h)
           (case head of None \<Rightarrow> None | Some _ \<Rightarrow> Some maxRange) g cycle)) (\<lambda>r. ret (Some r))
     else ret None)"

definition inclusionsConclusive :: "SignerInclusionInspection option \<Rightarrow> bool" where
  "inclusionsConclusive i = (case i of Some (Inspected _ _ complete1 _) \<Rightarrow> complete1 | _ \<Rightarrow> False)"

text \<open>The part that runs with the inspection of the coordinator open, up to its end.\<close>

definition inspectOwned ::
  "'w cycle_env \<Rightarrow> 'w chain_client \<Rightarrow> BlockAnchor \<Rightarrow> BlockAnchor option \<Rightarrow> int \<Rightarrow> ('w \<Rightarrow> bool) \<Rightarrow>
   bool \<Rightarrow> int \<Rightarrow> nat option \<Rightarrow> ('w rstate, cycle_inspection \<times> SignerInclusionInspection option) io" where
  "inspectOwned E C anch head maxRange aborted reuse g cycle =
     andThen (if reuse then ret CycleSkipped
        else durablePass E C anch maxRange aborted g cycle) (\<lambda>inspection.
     andThen (throwIfAborted aborted) (\<lambda>_.
     andThen (inclusionPass E C anch head maxRange g cycle) (\<lambda>inclusions.
     andThen (if inclusionsConclusive inclusions then ret () else updCycle invalidateDurableRecovery) (\<lambda>_.
     andThen (throwIfAborted aborted) (\<lambda>_.
     andThen (onWorld (finishInspection (cycCoordinator E) g)) (\<lambda>_.
     ret (inspection, inclusions)))))))"

definition inspectCycle ::
  "'w cycle_env \<Rightarrow> 'w chain_client \<Rightarrow> BlockAnchor \<Rightarrow> BlockAnchor option \<Rightarrow> int \<Rightarrow> ('w \<Rightarrow> bool) \<Rightarrow>
   bool \<Rightarrow> nat option \<Rightarrow> ('w rstate, cycle_inspection \<times> SignerInclusionInspection option) io" where
  "inspectCycle E C anch head maxRange aborted reuse cycle =
     andThen (onWorld beginInspection) (\<lambda>g.
     tryCatch (inspectOwned E C anch head maxRange aborted reuse g cycle)
       (\<lambda>e. andThen (onWorld (abandonInspection (cycCoordinator E) g)) (\<lambda>_. throw e)))"

definition sendWhenDue ::
  "'w cycle_env \<Rightarrow> 'w chain_client \<Rightarrow> ('w \<Rightarrow> bool) \<Rightarrow> nat option \<Rightarrow>
   ('w rstate, BroadcastAttemptResult option) io" where
  "sendWhenDue E C aborted cycle =
     readCoordinator (\<lambda>c. let attempt = retryAttempt c in
     andThen (onRetry (trackRetry (cycRounding E) (cycRetryClock E) attempt)) (\<lambda>_.
     andThen (throwIfAborted aborted) (\<lambda>_.
     readCoordinator (\<lambda>c.
     case attempt of
       None \<Rightarrow> ret None
     | Some (aid, _) \<Rightarrow>
         if canBroadcast c then
           andThen (onRetry (claimRetry (cycRounding E) (cycRetryClock E) aid)) (\<lambda>granted.
           if granted then
             andThen (onWorld (broadcastAttempt (cycCoordinator E) C aid cycle)) (\<lambda>r. ret (Some r))
           else ret None)
         else ret None))))"

definition runBody ::
  "'w cycle_env \<Rightarrow> 'w chain_client \<Rightarrow> BlockAnchor \<Rightarrow> BlockAnchor option \<Rightarrow> int \<Rightarrow> ('w \<Rightarrow> bool) \<Rightarrow>
   nat option \<Rightarrow> ('w rstate, SignerRecoveryCycleResult) io" where
  "runBody E C anch head maxRange aborted cycle =
     andThen (unlessThrow (case head of None \<Rightarrow> True | Some h \<Rightarrow> validHead anch h)
       (TypeError ''Invalid signer recovery head.'')) (\<lambda>_.
     andThen (throwIfAborted aborted) (\<lambda>_.
     andThen (trackCurrent E) (\<lambda>_.
     andThen (retryFailedWrite E cycle) (\<lambda>_.
     andThen (throwIfAborted aborted) (\<lambda>_.
     andThen (canReuseDurablePass E anch head) (\<lambda>reuse.
     andThen (inspectCycle E C anch head maxRange aborted reuse cycle) (\<lambda>(inspection, inclusions).
     andThen (sendWhenDue E C aborted cycle) (\<lambda>sent.
     andThen (onRetry (delayMs (cycRounding E) (cycRetryClock E))) (\<lambda>delay.
     ret \<lparr>cycleInspection = inspection, cycleInclusions = inclusions, cycleBroadcast = sent,
          cycleRetryDelay = delay\<rparr>)))))))))"

definition runCycle ::
  "'w cycle_env \<Rightarrow> 'w chain_client \<Rightarrow> BlockAnchor \<Rightarrow> BlockAnchor option \<Rightarrow> int \<Rightarrow> ('w \<Rightarrow> bool) \<Rightarrow>
   nat option \<Rightarrow> ('w rstate, SignerRecoveryCycleResult) io" where
  "runCycle E C anch head maxRange aborted cycle =
     readCycle (\<lambda>k.
     andThen (unlessThrow (\<not> cycleBusy k) (PlainError ''Signer recovery cycle is already in progress.'')) (\<lambda>_.
     andThen (updCycle (\<lambda>k. k\<lparr>cycleBusy := True\<rparr>)) (\<lambda>_.
     tryFinally
       (onThrow (runBody E C anch head maxRange aborted cycle) (\<lambda>(k, s). (invalidateDurableRecovery k, s)))
       (\<lambda>(k, s). (k\<lparr>cycleBusy := False\<rparr>, s)))))"

subsection \<open>Recovery at the chain heads\<close>

definition recoverSignerAtHeads ::
  "'w chain_client \<Rightarrow> ('w, ChainHeads) io \<Rightarrow> ('w \<Rightarrow> bool) \<Rightarrow>
   (BlockAnchor \<Rightarrow> BlockAnchor option \<Rightarrow> ('w rstate, 'a) io) \<Rightarrow> ('w rstate, 'a) io" where
  "recoverSignerAtHeads C heads aborted run =
     andThen (throwIfAborted aborted) (\<lambda>_.
     andThen (onWorld (onWorld heads)) (\<lambda>h.
     andThen (throwIfAborted aborted) (\<lambda>_.
     andThen (unlessThrow (durableBlock h \<le> latestBlock h)
       (PlainError ''Cannot recover a signer with the durable block ahead of latest.'')) (\<lambda>_.
     andThen (onWorld (onWorld (getBlockAnchor C (durableBlock h)))) (\<lambda>anch.
     andThen (throwIfAborted aborted) (\<lambda>_.
     andThen (if latestBlock h \<noteq> durableBlock h then
         andThen (onWorld (onWorld (getBlockAnchor C (latestBlock h)))) (\<lambda>head.
         andThen (throwIfAborted aborted) (\<lambda>_. ret head))
       else ret anch) (\<lambda>head.
     run anch (Some head))))))))"

end
