(* ===== verification/CycleProofs.thy ===== *)
theory CycleProofs
  imports RecoveryCycle
begin

text \<open>
  What a recovery cycle does to the coordinator it drives: it is a run of the coordinator's public
  operations in which nothing is prepared and at most one transaction sent; it ends with the
  inspection released; and a durable pass is reused only for the recovery state it was made for.
\<close>

subsection \<open>The cycle as a run of the coordinator\<close>

definition cycleRun :: "'w coordinator_env \<Rightarrow> nat \<Rightarrow> nat \<Rightarrow> 'w rstate \<Rightarrow> 'w rstate \<Rightarrow> bool" where
  "cycleRun E p n s t = boundedRun E p n (snd s) (snd t)"

interpretation cyc: graded_steps "cycleRun E" for E :: "'w coordinator_env"
  by unfold_locales (auto simp: cycleRun_def intro: co.none co.more co.weaken)

lemma cyc_coordinator: "stepsIn (boundedRun E p n) m \<Longrightarrow> stepsIn (cycleRun E p n) (onWorld m)"
  by (auto simp: stepsIn_def cycleRun_def onWorld_def split: prod.splits)

lemma cyc_world: "stepsIn (cycleRun E 0 0) (onWorld (onWorld m))"
  by (rule cyc_coordinator [OF co_world])

lemma cyc_upd: "stepsIn (cycleRun E 0 0) (updCycle f)"
  unfolding updCycle_def by (rule cyc.in_modify) (auto simp: cycleRun_def co.none split: prod.splits)

lemma world_moved: "boundedRun E 0 0 (c, w) (c, v)"
  by (rule quiet_step [OF coStep.world])

lemma cyc_retry: "stepsIn (cycleRun E 0 0) (onRetry m)"
  by (auto simp: stepsIn_def cycleRun_def onRetry_def world_moved split: prod.splits)

lemma cyc_aborted: "stepsIn (cycleRun E 0 0) (throwIfAborted a)"
  unfolding throwIfAborted_def by (rule cyc_world)

lemma cyc_readers:
  "(\<And>k. stepsIn (cycleRun E p n) (f k)) \<Longrightarrow> stepsIn (cycleRun E p n) (readCycle f)"
  "(\<And>c. stepsIn (cycleRun E p n) (f' c)) \<Longrightarrow> stepsIn (cycleRun E p n) (readCoordinator f')"
  "(\<And>c g. stepsIn (cycleRun E p n) (h c g)) \<Longrightarrow> stepsIn (cycleRun E p n) (readStatus h)"
proof -
  show "(\<And>k. stepsIn (cycleRun E p n) (f k)) \<Longrightarrow> stepsIn (cycleRun E p n) (readCycle f)"
    unfolding readCycle_def by (rule cyc.in_read [where f = fst])
  show r: "(\<And>c. stepsIn (cycleRun E p n) (f' c)) \<Longrightarrow> stepsIn (cycleRun E p n) (readCoordinator f')" for f'
    unfolding readCoordinator_def by (rule cyc.in_read [where f = "\<lambda>s. fst (snd s)"])
  show "(\<And>c g. stepsIn (cycleRun E p n) (h c g)) \<Longrightarrow> stepsIn (cycleRun E p n) (readStatus h)"
    unfolding readStatus_def by (intro r cyc.in_seq cyc.in_lift)
qed

lemmas cyc_ops = cyc_upd cyc_retry cyc_aborted cyc_world cyc_readers
  co_operations [THEN cyc_coordinator] co_abandon [THEN cyc_coordinator]
lemmas cyc_rules = cyc_ops cyc.steps_rules

lemma recordDurablePass_run: "stepsIn (cycleRun E 0 0) (recordDurablePass F anch r)"
proof -
  have "stepsIn (cycleRun E 0 0) (\<lambda>(k, c, w). case recordCompleted (cycDurableClock F) anch (d, w) of
      (x, e, v) \<Rightarrow> (x, k\<lparr>durableSchedule := Some e\<rparr>, c, v))" for d
    by (auto simp: stepsIn_def cycleRun_def world_moved split: prod.splits)
  then show ?thesis unfolding recordDurablePass_def by (intro cyc_rules)
qed

lemma recoverPasses_run:
  "stepsIn (cycleRun (cycCoordinator E) 0 0) (recoverPasses E C anch m a g cy n r)"
  by (induction n arbitrary: r) (auto intro!: cyc_rules)

lemma inspectCycle_run:
  "stepsIn (cycleRun (cycCoordinator E) 0 0) (inspectCycle E C anch head m a reuse cy)"
  unfolding inspectCycle_def inspectOwned_def durablePass_def inclusionPass_def Let_def
  by (intro cyc_rules recordDurablePass_run recoverPasses_run)

lemma beforeInspection_run:
  "stepsIn (cycleRun (cycCoordinator E) 0 0) (trackCurrent E)"
  "stepsIn (cycleRun (cycCoordinator E) 0 0) (retryFailedWrite E cy)"
  "stepsIn (cycleRun (cycCoordinator E) 0 0) (canReuseDurablePass E anch head)"
  unfolding trackCurrent_def retryFailedWrite_def canReuseDurablePass_def durableIsDue_def
  by (intro cyc_rules)+

lemma sendWhenDue_run: "stepsIn (cycleRun (cycCoordinator E) 0 1) (sendWhenDue E C a cy)"
  unfolding sendWhenDue_def Let_def
  by (intro cyc_rules cyc.in_seq_first [OF cyc_coordinator [OF co_broadcast]])

lemma runCycle_run: "stepsIn (cycleRun (cycCoordinator E) 0 1) (runCycle E C anch head m a cy)"
proof -
  have "stepsIn (cycleRun (cycCoordinator E) 0 1) (runBody E C anch head m a cy)"
    unfolding runBody_def
    by (intro cyc.in_seq cyc.in_pair cyc.in_unless cyc_aborted beforeInspection_run inspectCycle_run
        cyc.in_seq_first [OF sendWhenDue_run] cyc_retry cyc.in_ret)
  then show ?thesis
    unfolding runCycle_def
    by (intro cyc_readers cyc.in_seq cyc.in_unless cyc_upd cyc.in_finally cyc.in_onThrow)
      (auto simp: cycleRun_def co.none split: prod.splits)
qed

subsection \<open>The inspection is released\<close>

definition owned :: "viem \<Rightarrow> int \<Rightarrow> coordinator \<Rightarrow> bool" where
  "owned V g c = (calm V c \<and> isOwner c g)"

definition free :: "viem \<Rightarrow> coordinator \<Rightarrow> bool" where
  "free V c = (restInv V c \<and> inspectionOwner c = None)"

lemma free_calm: "free V c \<Longrightarrow> calm V c"
  by (simp add: free_def calm_def quiet_def)

lemma loose_owned: "loose c d \<Longrightarrow> calm V d \<Longrightarrow> owned V g c \<Longrightarrow> owned V g d"
  by (cases "inspectionOwner c"; cases "inspectionOwner d") (auto simp: owned_def loose_def isOwner_def)

text \<open>A predicate on the coordinator that a computation keeps, as a step relation.\<close>

definition keeps :: "(coordinator \<Rightarrow> bool) \<Rightarrow> nat \<Rightarrow> nat \<Rightarrow> 'w rstate \<Rightarrow> 'w rstate \<Rightarrow> bool" where
  "keeps P p n s t = (P (fst (snd s)) \<longrightarrow> P (fst (snd t)))"

interpretation kept: graded_steps "keeps P" for P
  by unfold_locales (simp_all add: keeps_def)

lemma keeps_coordinator:
  fixes m :: "('w cstate, 'a) io"
  assumes "\<And>c w. P c \<Longrightarrow> wp m (\<lambda>_ t. P (fst t)) (\<lambda>_ t. P (fst t)) (c, w)"
  shows "stepsIn (keeps P p n) (onWorld m)"
proof (rule stepsInI)
  fix s t :: "'w rstate" and r assume a: "onWorld m s = (r, t)"
  obtain k c w where s: "s = (k, c, w)" by (cases s)
  obtain c' w' where t: "t = (k, c', w')" "m (c, w) = (r, (c', w'))"
    using a by (auto simp: s onWorld_def split: prod.splits)
  have "P c \<Longrightarrow> P c'" using wp_run [OF assms t(2)] by simp
  then show "keeps P p n s t" by (simp add: keeps_def s t)
qed

lemma keeps_world: "stepsIn (keeps P p n) (onWorld (onWorld m))"
  by (auto simp: stepsIn_def keeps_def onWorld_def split: prod.splits)

lemma keeps_others:
  "stepsIn (keeps P p n) (updCycle f)" "stepsIn (keeps P p n) (onRetry m)"
  "stepsIn (keeps P p n) (throwIfAborted a)"
  by (auto simp: stepsIn_def keeps_def updCycle_def modifyState_def onRetry_def throwIfAborted_def onWorld_def
      split: prod.splits)

lemma keeps_readers:
  "(\<And>k. stepsIn (keeps P p n) (f k)) \<Longrightarrow> stepsIn (keeps P p n) (readCycle f)"
  "(\<And>c. stepsIn (keeps P p n) (f' c)) \<Longrightarrow> stepsIn (keeps P p n) (readCoordinator f')"
  "(\<And>c g. stepsIn (keeps P p n) (h c g)) \<Longrightarrow> stepsIn (keeps P p n) (readStatus h)"
proof -
  show "(\<And>k. stepsIn (keeps P p n) (f k)) \<Longrightarrow> stepsIn (keeps P p n) (readCycle f)"
    unfolding readCycle_def by (rule kept.in_read [where f = fst])
  show r: "(\<And>c. stepsIn (keeps P p n) (f' c)) \<Longrightarrow> stepsIn (keeps P p n) (readCoordinator f')" for f'
    unfolding readCoordinator_def by (rule kept.in_read [where f = "\<lambda>s. fst (snd s)"])
  show "(\<And>c g. stepsIn (keeps P p n) (h c g)) \<Longrightarrow> stepsIn (keeps P p n) (readStatus h)"
    unfolding readStatus_def by (intro r kept.in_seq kept.in_lift)
qed

lemmas keeps_rules = keeps_world keeps_others keeps_readers kept.steps_rules

lemma recordDurablePass_keeps: "stepsIn (keeps P 0 0) (recordDurablePass F anch r)"
proof -
  have "stepsIn (keeps P 0 0) (\<lambda>(k, c, w). case recordCompleted (cycDurableClock F) anch (d, w) of
      (x, e, v) \<Rightarrow> (x, k\<lparr>durableSchedule := Some e\<rparr>, c, v))" for d
    by (auto simp: stepsIn_def keeps_def split: prod.splits)
  then show ?thesis unfolding recordDurablePass_def by (intro keeps_rules)
qed

lemma owned_operations:
  fixes E :: "'w cycle_env"
  assumes V: "V = envViem (cycCoordinator E)"
  shows "stepsIn (keeps (owned V g) 0 0) (onWorld (recoverInspection (cycCoordinator E) C anch m g cy))"
    "stepsIn (keeps (owned V g) 0 0) (onWorld (checkInclusionsInspection (cycCoordinator E) C head k g cy))"
proof -
  show "stepsIn (keeps (owned V g) 0 0) (onWorld (recoverInspection (cycCoordinator E) C anch m g cy))"
  proof (rule keeps_coordinator)
    fix c and w :: 'w assume o: "owned V g c"
    then have c: "calm V c" by (simp add: owned_def)
    show "wp (recoverInspection (cycCoordinator E) C anch m g cy) (\<lambda>_ t. owned V g (fst t)) (\<lambda>_ t. owned V g (fst t)) (c, w)"
      by (rule recoverInspection_wp [OF c V]) (use o loose_owned in auto)
  qed
  show "stepsIn (keeps (owned V g) 0 0) (onWorld (checkInclusionsInspection (cycCoordinator E) C head k g cy))"
  proof (rule keeps_coordinator)
    fix c and w :: 'w assume o: "owned V g c"
    then have c: "calm V c" by (simp add: owned_def)
    show "wp (checkInclusionsInspection (cycCoordinator E) C head k g cy) (\<lambda>_ t. owned V g (fst t)) (\<lambda>_ t. owned V g (fst t)) (c, w)"
      by (rule checkInclusionsInspection_wp [OF c V]) (use o loose_owned in auto)
  qed
qed

lemma recoverPasses_owned:
  "V = envViem (cycCoordinator E) \<Longrightarrow> stepsIn (keeps (owned V g) 0 0) (recoverPasses E C anch m a g cy n r)"
  by (induction n arbitrary: r) (auto intro!: keeps_rules owned_operations)

lemma durablePass_owned:
  "V = envViem (cycCoordinator E) \<Longrightarrow> stepsIn (keeps (owned V g) 0 0) (durablePass E C anch m a g cy)"
  unfolding durablePass_def Let_def
  by (intro keeps_rules recordDurablePass_keeps recoverPasses_owned owned_operations)

lemma inclusionPass_owned:
  "V = envViem (cycCoordinator E) \<Longrightarrow> stepsIn (keeps (owned V g) 0 0) (inclusionPass E C anch head m g cy)"
  unfolding inclusionPass_def by (intro keeps_rules owned_operations)

lemma keeps_wp:
  assumes "stepsIn (keeps P p n) m" "P (fst (snd s))"
  shows "wp m (\<lambda>_ t. P (fst (snd t))) (\<lambda>_ t. P (fst (snd t))) s"
  using stepsInD [OF assms(1), of s] assms(2)
  by (auto simp: wp_def keeps_def split: prod.splits sum.splits)

text \<open>Inside the inspection; then its end, whichever it is.\<close>

definition coordIs :: "(coordinator \<Rightarrow> bool) \<Rightarrow> 'a \<Rightarrow> 'w rstate \<Rightarrow> bool" where
  "coordIs P x s = P (fst (snd s))"

lemma wp_keeps_seq:
  assumes m: "stepsIn (keeps P 0 0) m"
    and f: "\<And>x t. P (fst (snd t)) \<Longrightarrow> wp (f x) Q (coordIs P) t"
    and s: "P (fst (snd s))"
  shows "wp (andThen m f) Q (coordIs P) s"
  unfolding wp_andThen
  by (rule wp_mono [OF keeps_wp [OF m s]]) (simp_all add: f coordIs_def)

lemma inspectOwned_wp:
  fixes E :: "'w cycle_env"
  assumes V: "V = envViem (cycCoordinator E)" and s: "owned V g (fst (snd s))"
  shows "wp (inspectOwned E C anch head m a reuse g cy) (coordIs (free V)) (coordIs (owned V g)) s"
proof -
  have fin: "wp (andThen (onWorld (finishInspection (cycCoordinator E) g)) (\<lambda>_. ret r)) (coordIs (free V)) (coordIs (owned V g)) t"
    if "owned V g (fst (snd t))" for r and t :: "'w rstate"
  proof -
    obtain k c w where t: "t = (k, c, w)" by (cases t)
    have i: "restInv V c" using that by (simp add: t owned_def calm_def)
    show ?thesis
      unfolding t wp_andThen wp_onWorld wp_ret
      by (rule finishInspection_wp [OF i]) (use that in \<open>simp_all add: t coordIs_def free_def\<close>)
  qed
  show ?thesis
    unfolding inspectOwned_def
    by (intro wp_keeps_seq [where P = "owned V g"] keeps_others kept.in_if kept.in_ret
        durablePass_owned [OF V] inclusionPass_owned [OF V] fin s)
qed

lemma inspectCycle_wp:
  fixes E :: "'w cycle_env"
  assumes V: "V = envViem (cycCoordinator E)" and s: "free V (fst (snd s))"
  shows "wp (inspectCycle E C anch head m a reuse cy) (coordIs (free V)) (coordIs (free V)) s"
proof -
  obtain k c w where s': "s = (k, c, w)" by (cases s)
  have i: "restInv V c" using s by (simp add: s' free_def)
  have ab: "wp (abandonInspection (cycCoordinator E) g) (\<lambda>_ t. free V (fst t)) (\<lambda>_ t. free V (fst t)) (d, v)"
    if d: "owned V g d" for g d v
    unfolding abandonInspection_def
  proof (rule wp_seqI, rule requestAbandon_wp)
    fix e assume e: "restInv V e" "isOwner e g"
    show "wp (completeAbandonment (cycCoordinator E) g) (\<lambda>_ t. free V (fst t)) (\<lambda>_ t. free V (fst t)) (e, v)"
      by (rule completeAbandonment_wp [OF e(1)]) (use e in \<open>simp_all add: free_def\<close>)
  qed (use d in \<open>auto simp: owned_def calm_def\<close>)
  have body: "wp (tryCatch (inspectOwned E C anch head m a reuse g cy)
        (\<lambda>e. andThen (onWorld (abandonInspection (cycCoordinator E) g)) (\<lambda>_. throw e)))
        (coordIs (free V)) (coordIs (free V)) (k, d, v)" if d: "owned V g d" for g d v
    unfolding wp_tryCatch
  proof (rule wp_mono [OF inspectOwned_wp [OF V]])
    show "owned V g (fst (snd (k, d, v)))" using d by simp
    fix e :: exn and t :: "'w rstate" assume o: "coordIs (owned V g) e t"
    obtain k' c' w' where t: "t = (k', c', w')" by (cases t)
    show "wp (andThen (onWorld (abandonInspection (cycCoordinator E) g)) (\<lambda>_. throw e))
        (coordIs (free V)) (coordIs (free V)) t"
      unfolding t wp_andThen wp_onWorld wp_throw
      by (rule wp_mono [OF ab]) (use o in \<open>auto simp: coordIs_def t\<close>)
  qed
  show ?thesis
    unfolding inspectCycle_def s' wp_andThen wp_onWorld
  proof (rule beginInspection_wp [OF i])
    fix d assume "restInv V d" "quiet d" "isOwner d (inspectionGeneration c + 1)"
    then show "wp (tryCatch (inspectOwned E C anch head m a reuse (inspectionGeneration c + 1) cy)
        (\<lambda>e. andThen (onWorld (abandonInspection (cycCoordinator E) (inspectionGeneration c + 1))) (\<lambda>_. throw e)))
        (coordIs (free V)) (coordIs (free V)) (k, d, w)"
      by (intro body) (simp add: owned_def calm_def)
  qed (use s in \<open>simp add: coordIs_def s'\<close>)
qed

text \<open>The rest of the cycle runs without an inspection.\<close>

lemma frame_free: "frame c d \<Longrightarrow> restInv V d \<Longrightarrow> free V c \<Longrightarrow> free V d"
  by (simp add: free_def frame_def)

lemma free_operations:
  fixes E :: "'w cycle_env"
  assumes V: "V = envViem (cycCoordinator E)"
  shows "stepsIn (keeps (free V) 0 0) (onWorld (retryPersistence (cycCoordinator E) cy))"
    and "stepsIn (keeps (free V) 0 0) (onWorld (broadcastAttempt (cycCoordinator E) C aid cy))"
    and "stepsIn (keeps (free V) 0 0) (inspectCycle E C anch head m a reuse cy)"
proof -
  show "stepsIn (keeps (free V) 0 0) (onWorld (retryPersistence (cycCoordinator E) cy))"
  proof (rule keeps_coordinator)
    fix c and w :: 'w assume f: "free V c"
    then have i: "restInv V c" by (simp add: free_def)
    show "wp (retryPersistence (cycCoordinator E) cy) (\<lambda>_ t. free V (fst t)) (\<lambda>_ t. free V (fst t)) (c, w)"
      by (rule retryPersistence_wp [OF i V]) (use f frame_free in auto)
  qed
  show "stepsIn (keeps (free V) 0 0) (onWorld (broadcastAttempt (cycCoordinator E) C aid cy))"
  proof (rule keeps_coordinator)
    fix c and w :: 'w assume f: "free V c"
    then have i: "restInv V c" by (simp add: free_def)
    show "wp (broadcastAttempt (cycCoordinator E) C aid cy) (\<lambda>_ t. free V (fst t)) (\<lambda>_ t. free V (fst t)) (c, w)"
      by (rule broadcastAttempt_wp [OF i V]) (use f frame_free in auto)
  qed
  show "stepsIn (keeps (free V) 0 0) (inspectCycle E C anch head m a reuse cy)"
  proof (rule stepsInI)
    fix s t :: "'w rstate" and r assume "inspectCycle E C anch head m a reuse cy s = (r, t)"
    then show "keeps (free V) 0 0 s t"
      using inspectCycle_wp [OF V, of s C anch head m a reuse cy]
      by (cases r) (simp_all add: keeps_def wp_def coordIs_def)
  qed
qed

lemma runBody_free:
  fixes E :: "'w cycle_env"
  assumes V: "V = envViem (cycCoordinator E)"
  shows "stepsIn (keeps (free V) 0 0) (runBody E C anch head m a cy)"
  unfolding runBody_def trackCurrent_def retryFailedWrite_def canReuseDurablePass_def durableIsDue_def
    sendWhenDue_def Let_def
  by (intro keeps_rules free_operations [OF V])

lemma runCycle_free:
  fixes E :: "'w cycle_env"
  assumes V: "V = envViem (cycCoordinator E)"
  shows "stepsIn (keeps (free V) 0 0) (runCycle E C anch head m a cy)"
  unfolding runCycle_def
  by (intro keeps_rules runBody_free [OF V]) (auto simp: keeps_def split: prod.splits)

text \<open>What the cycle leaves of its own state.\<close>

lemma runCycle_state:
  assumes "runCycle E C anch head m a cy (k, s) = (r, (k', s'))" and "\<not> cycleBusy k"
  shows "\<not> cycleBusy k'"
    and "r = Inl e \<Longrightarrow> completedDurableRevision k' = None \<and>
      (\<forall>d. durableSchedule k' = Some d \<longrightarrow> completedPass d = None)"
  using assms
  by (auto simp: runCycle_def readCycle_def updCycle_def andThen_def unlessThrow_def ret_def modifyState_def
      tryFinally_def onThrow_def invalidateDurableRecovery_def invalidateDurable_def split: prod.splits sum.splits)

end
