(* ===== verification/RevisionProofs.thy ===== *)
theory RevisionProofs
  imports CycleProofs
begin

text \<open>
  The revision the coordinator publishes is that of its committed state whenever recovery is
  complete: every operation keeps this. (After a broadcast marker is committed the published
  revision is behind, but the broadcast has revoked the completion of recovery.)
\<close>

definition revisionHolds :: "coordinator \<Rightarrow> bool" where
  "revisionHolds c = (committedRevision c = durableRecoveryRevision (current c) (blockers c))"

definition revisionInv :: "coordinator \<Rightarrow> bool" where
  "revisionInv c = (recoveryComplete c \<longrightarrow> revisionHolds c)"

subsection \<open>What publishing leaves alone\<close>

definition revEqual :: "coordinator \<Rightarrow> coordinator \<Rightarrow> bool" where
  "revEqual c d =
     (committedRevision d = committedRevision c \<and> persistence d = persistence c \<and>
      blockers d = blockers c \<and> recoveryComplete d = recoveryComplete c \<and> pendingWrite d = pendingWrite c)"

definition revKept :: "nat \<Rightarrow> nat \<Rightarrow> 'w cstate \<Rightarrow> 'w cstate \<Rightarrow> bool" where
  "revKept p n s t = revEqual (fst s) (fst t)"

interpretation pub: graded_steps revKept
  by unfold_locales (simp_all add: revKept_def revEqual_def)

lemma pub_upd: "(\<And>c. revEqual c (f c)) \<Longrightarrow> stepsIn (revKept 0 0) (upd f)"
  unfolding upd_def by (rule pub.in_modify) (auto simp: revKept_def split: prod.splits)

lemma pub_read: "(\<And>c. stepsIn (revKept 0 0) (k c)) \<Longrightarrow> stepsIn (revKept 0 0) (readC k)"
  unfolding readC_def by (rule pub.in_read [where f = fst])

lemma pub_world: "stepsIn (revKept 0 0) (onWorld m)"
  by (auto simp: stepsIn_def revKept_def revEqual_def onWorld_def split: prod.splits)

lemma pub_refresh: "stepsIn (revKept 0 0) (refresh E cy oper)"
  unfolding refresh_def refreshBlocked_def Let_def
  by (intro pub_read pub.steps_rules pub_upd pub_world)
    (auto simp: revEqual_def emit_def refreshReleased_def split: option.splits)

lemma revKept_inv: "revKept p n s t \<Longrightarrow> revisionInv (fst s) \<Longrightarrow> revisionInv (fst t)"
  by (simp add: revKept_def revEqual_def revisionInv_def revisionHolds_def current_def)

lemma revKept_holds: "revKept p n s t \<Longrightarrow> revisionHolds (fst s) \<Longrightarrow> revisionHolds (fst t)"
  by (simp add: revKept_def revEqual_def revisionHolds_def current_def)

subsection \<open>Operations that keep the invariant step by step\<close>

definition revStep :: "nat \<Rightarrow> nat \<Rightarrow> 'w cstate \<Rightarrow> 'w cstate \<Rightarrow> bool" where
  "revStep p n s t = (revisionInv (fst s) \<longrightarrow> revisionInv (fst t))"

interpretation rv: graded_steps revStep
  by unfold_locales (simp_all add: revStep_def)

lemma rev_published: "stepsIn (revKept 0 0) m \<Longrightarrow> stepsIn (revStep 0 0) m"
  by (erule stepsIn_mono) (auto simp: revStep_def intro: revKept_inv)

lemma rev_upd: "(\<And>c. revisionInv c \<Longrightarrow> revisionInv (f c)) \<Longrightarrow> stepsIn (revStep 0 0) (upd f)"
  unfolding upd_def by (rule rv.in_modify) (auto simp: revStep_def split: prod.splits)

lemma rev_read: "(\<And>c. stepsIn (revStep 0 0) (k c)) \<Longrightarrow> stepsIn (revStep 0 0) (readC k)"
  unfolding readC_def by (rule rv.in_read [where f = fst])

lemma rev_world: "stepsIn (revStep 0 0) (onWorld m)"
  by (rule rev_published [OF pub_world])

lemma rev_refresh: "stepsIn (revStep 0 0) (refresh E cy oper)"
  by (rule rev_published [OF pub_refresh])

text \<open>Changes that touch neither the journal, the blockers nor the completion of recovery.\<close>

definition revSame :: "coordinator \<Rightarrow> coordinator \<Rightarrow> bool" where
  "revSame c d =
     (committedRevision d = committedRevision c \<and> persistence d = persistence c \<and>
      blockers d = blockers c \<and> (recoveryComplete d \<longrightarrow> recoveryComplete c))"

lemma revSame_inv: "revSame c d \<Longrightarrow> revisionInv c \<Longrightarrow> revisionInv d"
  by (simp add: revSame_def revisionInv_def revisionHolds_def current_def)

lemma rev_same: "(\<And>c. revSame c (f c)) \<Longrightarrow> stepsIn (revStep 0 0) (upd f)"
  by (rule rev_upd) (rule revSame_inv)

lemma revSame_pieces:
  "revSame c (updOwner f c)" "revSame c (setBracket b c)" "revSame c (revokeActionAuthorization c)"
  "revSame c (failBracket b c)" "revSame c (failOpenBracket c)" "revSame c (dropPendingIfIdle c)"
  "revSame c (prepareRollback p c)" "revSame c (emit ev cy oper c)"
  by (auto simp: revSame_def updOwner_def setBracket_def revokeActionAuthorization_def failBracket_def
      failOpenBracket_def dropPendingIfIdle_def prepareRollback_def emit_def
      split: option.splits InspectionHeadBracket.splits)

lemmas rev_rules = rev_read rev_world rev_refresh rev_same rv.steps_rules

lemma rev_guards:
  "stepsIn (revStep 0 0) assertAvailable" "stepsIn (revStep 0 0) assertNoPendingWrite"
  "stepsIn (revStep 0 0) (assertInspectionOwner g)" "stepsIn (revStep 0 0) (assertInspectionWorkAllowed g)"
  unfolding assertAvailable_def assertNoPendingWrite_def assertInspectionOwner_def
    assertInspectionWorkAllowed_def assertAvailableTo_def
  by (intro rev_rules)+

lemma rev_leave: "stepsIn (revStep 0 0) (leave E cy oper)"
  unfolding leave_def by (intro rev_rules) (simp add: revSame_def)

lemma rev_finally:
  assumes "stepsIn (revStep 0 0) m" "stepsIn (revStep 0 0) f"
  shows "stepsIn (revStep 0 0) (finallyDo m f)"
proof (rule stepsInI)
  fix s r t assume fd: "finallyDo m f s = (r, t)"
  obtain x u where m: "m s = (x, u)" by (cases "m s")
  obtain y v where f: "f u = (y, v)" by (cases "f u")
  have "v = t" using fd m f by (simp add: finallyDo_def split: sum.splits)
  with stepsInD [OF assms(1) m] stepsInD [OF assms(2) f] show "revStep 0 0 s t" by (simp add: revStep_def)
qed

lemma rev_onThrow:
  "stepsIn (revStep 0 0) m \<Longrightarrow> (\<And>c. revSame c (h c)) \<Longrightarrow> stepsIn (revStep 0 0) (onThrow m (\<lambda>(c, w). (h c, w)))"
  by (rule rv.in_onThrow) (auto simp: revStep_def, metis revSame_inv)

lemma rev_tryFinally:
  "stepsIn (revStep 0 0) m \<Longrightarrow> (\<And>c. revSame c (h c)) \<Longrightarrow> stepsIn (revStep 0 0) (tryFinally m (\<lambda>(c, w). (h c, w)))"
  by (rule rv.in_finally) (auto simp: revStep_def, metis revSame_inv)

lemma rev_inspection_steps:
  "stepsIn (revStep 0 0) beginInspection" "stepsIn (revStep 0 0) (finishInspection E g)"
  "stepsIn (revStep 0 0) (requestAbandon g)" "stepsIn (revStep 0 0) (completeAbandonment E g)"
  unfolding beginInspection_def finishInspection_def requestAbandon_def completeAbandonment_def
  by (intro rev_rules rev_guards; simp add: revSame_def revokeActionAuthorization_def updOwner_def)+

lemma rev_inspected:
  assumes "stepsIn (revStep 0 0) oper"
  shows "stepsIn (revStep 0 0) (runInspectionOperation g cy oper)"
  unfolding runInspectionOperation_def enterOperation_def
  by (intro rv.in_seq rev_read rv.in_unless rev_guards rev_tryFinally rev_onThrow assms revSame_pieces rev_same)

lemma rev_openHead: "stepsIn (revStep 0 0) (openHead C head g)"
  unfolding openHead_def openInspectionHeadOwned_def
  by (intro rev_inspected rev_rules rev_guards revSame_pieces)

subsection \<open>Operations that commit\<close>

lemma settleWrite_holds: "revisionHolds (settleWrite cy p c)"
  by (simp add: settleWrite_def revisionHolds_def updateDurableRecoveryRevision_def Let_def current_def)

text \<open>Right after a commit the write is settled and the revision is that of the new state.\<close>

lemma finishWrite_holds:
  assumes "pendingWrite c \<noteq> None"
  shows "wp (finishWrite E cy) (\<lambda>_ t. revisionHolds (fst t)) (\<lambda>_ t. revisionHolds (fst t)) (c, w)"
proof -
  obtain p where p: "pendingWrite c = Some p" using assms by blast
  have "wp (refresh E cy oper) (\<lambda>_ t. revisionHolds (fst t)) (\<lambda>_ t. revisionHolds (fst t)) (settleWrite cy p c, w)" for oper
    by (rule wpI) (use stepsInD [OF pub_refresh] revKept_holds settleWrite_holds in fastforce)+
  then show ?thesis by (simp add: finishWrite_def wp_readC p wp_andThen wp_upd)
qed

definition uncommitted :: "coordinator \<Rightarrow> coordinator \<Rightarrow> bool" where
  "uncommitted c d = (\<exists>p. d = c\<lparr>persistence := p\<rparr> \<and> currentValue p = currentValue (persistence c))"

lemma uncommitted_refl [simp]: "uncommitted c c"
  by (auto simp: uncommitted_def intro!: exI [of _ "persistence c"])

lemma uncommitted_latched [simp]:
  "uncommitted c (c\<lparr>persistence := (persistence c)\<lparr>pendingSnapshot := q, stateValue := st\<rparr>\<rparr>)"
  by (auto simp: uncommitted_def)

lemma same_persistence [simp]: "c\<lparr>persistence := persistence c\<rparr> = (c :: coordinator)"
  by simp

lemma save_uncommitted:
  "wp (onPersistence (savePersistence V S s)) (\<lambda>_ t. \<exists>p. fst t = c\<lparr>persistence := p\<rparr>)
     (\<lambda>_ t. uncommitted c (fst t)) (c, w)"
  unfolding wp_onPersistence
  by (rule wp_mono [OF savePersistence_wp]) (auto split: prod.splits)

lemma retry_uncommitted:
  "wp (onPersistence (retryPersistenceWrite S)) (\<lambda>_ t. \<exists>p. fst t = c\<lparr>persistence := p\<rparr>)
     (\<lambda>_ t. uncommitted c (fst t)) (c, w)"
  unfolding wp_onPersistence
  by (rule wp_mono [OF retryPersistenceWrite_wp]) (auto split: prod.splits)

lemma uncommitted_inv: "uncommitted c d \<Longrightarrow> revisionInv c \<Longrightarrow> revisionInv d"
  by (auto simp: uncommitted_def revisionInv_def revisionHolds_def current_def)

text \<open>What runs between a commit and its settlement, and what may follow.\<close>

definition settles :: "('w cstate, 'a) io \<Rightarrow> bool" where
  "settles m = (\<forall>c w. pendingWrite c \<noteq> None \<longrightarrow>
     wp m (\<lambda>_ t. revisionInv (fst t)) (\<lambda>_ t. revisionInv (fst t)) (c, w))"

lemma rev_stepI:
  assumes "\<And>c w. revisionInv c \<Longrightarrow> wp m (\<lambda>_ t. revisionInv (fst t)) (\<lambda>_ t. revisionInv (fst t)) (c, w)"
  shows "stepsIn (revStep 0 0) m"
proof (rule stepsInI)
  fix s :: "'a cstate" and r t assume m: "m s = (r, t)"
  have "revisionInv (fst s) \<Longrightarrow> revisionInv (fst t)"
    using wp_run [OF assms [of "fst s" "snd s"]] m by simp
  then show "revStep 0 0 s t" by (simp add: revStep_def)
qed

lemma rev_stepD:
  assumes "stepsIn (revStep 0 0) m" "revisionInv (fst s)"
  shows "wp m (\<lambda>_ t. revisionInv (fst t)) (\<lambda>_ t. revisionInv (fst t)) s"
  by (rule wpI) (use stepsInD [OF assms(1)] assms(2) in \<open>auto simp: revStep_def\<close>)

lemma holds_inv: "revisionHolds c \<Longrightarrow> revisionInv c"
  by (simp add: revisionInv_def)

lemma settles_finish:
  assumes k: "\<And>x. stepsIn (revStep 0 0) (k x)"
  shows "settles (andThen (finishWrite E cy) k)"
  unfolding settles_def
proof (intro allI impI)
  fix c :: coordinator and w :: 'a assume p: "pendingWrite c \<noteq> None"
  show "wp (andThen (finishWrite E cy) k) (\<lambda>_ t. revisionInv (fst t)) (\<lambda>_ t. revisionInv (fst t)) (c, w)"
    unfolding wp_andThen
    by (rule wp_mono [OF finishWrite_holds [OF p]]) (auto intro!: rev_stepD k holds_inv)
qed

lemma settles_upd: "(\<And>d. pendingWrite (F d) = pendingWrite d) \<Longrightarrow> settles k \<Longrightarrow> settles (andThen (upd F) (\<lambda>_. k))"
  by (simp add: settles_def wp_andThen wp_upd)

lemma rev_commit:
  assumes f: "\<And>c. revSame c (f c)" "\<And>c. pendingWrite (f c) \<noteq> None"
    and k: "settles k"
  shows "stepsIn (revStep 0 0) (andThen (upd f) (\<lambda>_. andThen (onPersistence (savePersistence V S s)) (\<lambda>_. k)))"
proof (rule rev_stepI)
  fix c :: coordinator and w :: 'a assume c: "revisionInv c"
  have fc: "revisionInv (f c)" by (rule revSame_inv [OF f(1) c])
  show "wp (andThen (upd f) (\<lambda>_. andThen (onPersistence (savePersistence V S s)) (\<lambda>_. k)))
      (\<lambda>_ t. revisionInv (fst t)) (\<lambda>_ t. revisionInv (fst t)) (c, w)"
    unfolding wp_andThen wp_upd
  proof (rule wp_mono [OF save_uncommitted [of V S s "f c" w]])
    fix t :: "'a cstate" assume "\<exists>p. fst t = f c\<lparr>persistence := p\<rparr>"
    then obtain q v where t: "t = (f c\<lparr>persistence := q\<rparr>, v)" by (cases t) auto
    show "wp k (\<lambda>_ t. revisionInv (fst t)) (\<lambda>_ t. revisionInv (fst t)) t"
      using k f(2) [of c] by (simp add: settles_def t)
  qed (use fc uncommitted_inv in blast)
qed

lemma rev_case: "(\<And>x. stepsIn (revStep 0 0) (f x)) \<Longrightarrow> (\<And>y. stepsIn (revStep 0 0) (g y)) \<Longrightarrow>
    stepsIn (revStep 0 0) (case z of Inl x \<Rightarrow> f x | Inr y \<Rightarrow> g y)"
  by (cases z) simp_all

lemma rev_prepareBody: "stepsIn (revStep 0 0) (prepareBody E account tx wid cy s)"
  unfolding prepareBody_def Let_def
  by (intro rv.in_seq rev_world rev_read rv.in_unless rv.in_lift rev_same rev_commit settles_finish rv.in_ret)
    (simp_all add: revSame_def)

lemma rev_prepareAttempt: "stepsIn (revStep 0 0) (prepareAttempt E account tx wid cy)"
proof -
  have "stepsIn (revStep 0 0) (case (b, r) of
       (True, Present s) \<Rightarrow>
         andThen (unlessThrow (workId wid) (TypeError ''Invalid work identity.'')) (\<lambda>_.
         case find (\<lambda>a. attemptWorkId a = wid) (attempts s) of
           Some a \<Rightarrow> ret (AlreadyRetained (attemptId a) wid)
         | None \<Rightarrow>
             andThen (upd (\<lambda>c. c\<lparr>broadcastPermit := None, busy := True\<rparr>)) (\<lambda>_.
             finallyDo
               (onThrow (prepareBody E account tx wid cy s) (\<lambda>(c, w). (prepareRollback prior c, w)))
               (leave E cy PrepareAttemptOp)))
     | _ \<Rightarrow> throw e)" for b r prior e
    by (cases b; cases r; simp only: prod.case bool.case TransactionJournalRead.case)
      (intro rv.in_seq rv.in_unless rv.in_option rv.in_ret rv.in_throw rev_same rev_finally rev_onThrow rev_prepareBody
        rev_leave revSame_pieces; simp add: revSame_def)+
  then show ?thesis
    unfolding prepareAttempt_def by (intro rv.in_seq rev_guards rev_read rv.in_lift)
qed

lemma rev_retry: "stepsIn (revStep 0 0) (retryPersistence E cy)"
proof (rule rev_stepI)
  fix c :: coordinator and w :: 'a assume c: "revisionInv c"
  let ?I = "\<lambda>(t :: 'a cstate). revisionInv (fst t)"
  let ?h = "\<lambda>e. andThen (upd (\<lambda>c. c\<lparr>busy := False\<rparr>)) (\<lambda>_.
            andThen (refresh E cy ReconcileAttemptOp) (\<lambda>_. throw e))"
  have h: "stepsIn (revStep 0 0) (?h e :: ('a cstate, unit) io)" for e
    by (intro rev_rules) (simp add: revSame_def)
  define d where "d = c\<lparr>busy := True\<rparr>"
  have d: "revisionInv d" "pendingWrite d = pendingWrite c"
    using c by (simp_all add: d_def revisionInv_def revisionHolds_def current_def)
  have run: "wp (andThen (tryCatch (onPersistence (retryPersistenceWrite (envStore E))) ?h) (\<lambda>_. finishWrite E cy))
      (\<lambda>_ t. ?I t) (\<lambda>_ t. ?I t) (d, w)" if p: "pendingWrite c \<noteq> None"
    unfolding wp_andThen [of _ "\<lambda>_. finishWrite E cy"] wp_tryCatch
  proof (rule wp_mono [OF retry_uncommitted])
    fix t :: "'a cstate" assume "\<exists>p. fst t = d\<lparr>persistence := p\<rparr>"
    then obtain q v where t: "t = (d\<lparr>persistence := q\<rparr>, v)" by (cases t) auto
    show "wp (finishWrite E cy) (\<lambda>_ t. ?I t) (\<lambda>_ t. ?I t) t"
      unfolding t by (rule wp_mono [OF finishWrite_holds]) (use p d in \<open>simp_all add: holds_inv\<close>)
  next
    fix e and t :: "'a cstate" assume "uncommitted d (fst t)"
    then have "revisionInv (fst t)" using d uncommitted_inv by blast
    from rev_stepD [OF h this] show "wp (?h e) (\<lambda>_. wp (finishWrite E cy) (\<lambda>_ t. ?I t) (\<lambda>_ t. ?I t)) (\<lambda>_ t. ?I t) t"
      by (simp add: wp_simps)
  qed
  show "wp (retryPersistence E cy) (\<lambda>_ t. ?I t) (\<lambda>_ t. ?I t) (c, w)"
    unfolding retryPersistence_def
    using run c by (simp add: assertAvailable_def wp_readC wp_upd d_def [symmetric] wp_andThen wp_unlessThrow)
qed

subsection \<open>Recovery, inclusion checks, broadcasting\<close>

lemma steps_cases:
  "(\<And>a. stepsIn R (f1 a)) \<Longrightarrow> (\<And>a b c. stepsIn R (f2 a b c)) \<Longrightarrow> (\<And>a. stepsIn R (f3 a)) \<Longrightarrow>
    stepsIn R (case d of BootstrapReady a \<Rightarrow> f1 a | BootstrapDeferred a b c \<Rightarrow> f2 a b c
      | BootstrapAnchorChanged a \<Rightarrow> f3 a)"
  "(\<And>a. stepsIn R (g1 a)) \<Longrightarrow> (\<And>a. stepsIn R (g2 a)) \<Longrightarrow> (\<And>a. stepsIn R (g3 a)) \<Longrightarrow>
    (\<And>a b c e. stepsIn R (g4 a b c e)) \<Longrightarrow>
    stepsIn R (case i of InclusionsAnchorChanged a \<Rightarrow> g1 a | InclusionsNonceBehind a \<Rightarrow> g2 a
      | InclusionsInconsistent a \<Rightarrow> g3 a | Inspected a b c e \<Rightarrow> g4 a b c e)"
  "stepsIn R m \<Longrightarrow> (\<And>s. stepsIn R (k s)) \<Longrightarrow> stepsIn R (case j of Missing \<Rightarrow> m | Present s \<Rightarrow> k s)"
  "(\<And>x. stepsIn R (l1 x)) \<Longrightarrow> (\<And>y. stepsIn R (l2 y)) \<Longrightarrow>
    stepsIn R (case z of Inl x \<Rightarrow> l1 x | Inr y \<Rightarrow> l2 y)"
  subgoal by (cases d) simp_all
  subgoal by (cases i) simp_all
  subgoal by (cases j) simp_all
  subgoal by (cases z) simp_all
  done

lemma rev_recoverMissing: "stepsIn (revStep 0 0) (recoverMissing E C anch cy)"
  unfolding recoverMissing_def
  apply (intro rev_read rv.in_seq rv.in_unless rev_world)
  apply (intro rev_commit settles_upd settles_finish steps_cases rv.in_seq rv.in_if rv.in_ret rev_same;
      simp add: revSame_def emit_def)+
  done

lemma rev_recoverPresent: "stepsIn (revStep 0 0) (recoverPresent E C s anch m cy)"
  unfolding recoverPresent_def Let_def
  by (intro rev_commit settles_upd settles_finish rev_read rv.in_seq rev_world rv.in_option rv.in_ret rv.in_if
      rv.in_lift rv.in_pair rev_same)
    (simp_all add: revSame_def)

lemma rev_recoverInspection: "stepsIn (revStep 0 0) (recoverInspection E C anch m g cy)"
  unfolding recoverInspection_def recoverOwned_def
  apply (intro rev_inspected rv.in_seq rev_guards rev_same rv.in_unless rev_read rev_finally rev_onThrow rev_leave
      revSame_pieces)
    apply (simp add: revSame_def)
   apply (intro steps_cases rev_recoverMissing rev_recoverPresent)
  apply (simp add: revSame_def dropPendingIfIdle_def)
  done

lemma rev_inclusionsBody: "stepsIn (revStep 0 0) (inclusionsBody E C s head m cy)"
proof -
  have b: "stepsIn (revStep 0 0) (inspectInBracket C s head m b)" "stepsIn (revStep 0 0) (closingCheck C b)" for b
    unfolding inspectInBracket_def closingCheck_def
    by (cases b; simp only: InspectionHeadBracket.case; intro rv.in_seq rv.in_unless rev_world rv.in_ret)+
  show ?thesis
    unfolding inclusionsBody_def Let_def
    apply (intro rev_read rv.in_seq b)
    apply (intro steps_cases)
       apply (intro rv.in_seq rev_same revSame_pieces rv.in_ret; simp add: revSame_def)+
    apply (intro rev_commit settles_upd settles_finish rv.in_seq b rv.in_option rev_same revSame_pieces rv.in_ret
        rev_read rv.in_lift)
       apply (simp_all add: revSame_def setBracket_def updOwner_def)
    done
qed

lemma rev_checkInspection: "stepsIn (revStep 0 0) (checkInclusionsInspection E C head m g cy)"
  unfolding checkInclusionsInspection_def checkInclusionsOwned_def
  apply (intro rev_inspected rv.in_seq rev_guards rev_same rev_read revSame_pieces)
  apply (intro steps_cases rv.in_throw rv.in_seq rev_same rev_finally rev_onThrow rev_leave
      rev_inclusionsBody)
   apply (simp_all add: revSame_def dropPendingIfIdle_def)
  done

lemma rev_inOwn:
  assumes "\<And>g. stepsIn (revStep 0 0) (oper g)"
  shows "stepsIn (revStep 0 0) (inOwnInspection E oper)"
  unfolding inOwnInspection_def abandonInspection_def
  by (intro rv.in_seq rv.in_catch rv.in_ret rv.in_throw rev_inspection_steps assms)

lemma rev_owned:
  "stepsIn (revStep 0 0) (recover E C anch m cy)" "stepsIn (revStep 0 0) (checkInclusions E C head k cy)"
  unfolding recover_def checkInclusions_def
  by (intro rev_inOwn rev_recoverInspection rev_checkInspection)+

text \<open>A broadcast ends the completion of recovery before it commits the marker.\<close>

definition incomplete :: "nat \<Rightarrow> nat \<Rightarrow> 'w cstate \<Rightarrow> 'w cstate \<Rightarrow> bool" where
  "incomplete p n s t = (\<not> recoveryComplete (fst s) \<longrightarrow> \<not> recoveryComplete (fst t))"

interpretation inc: graded_steps incomplete
  by unfold_locales (simp_all add: incomplete_def)

lemma inc_upd: "(\<And>c. recoveryComplete (f c) = recoveryComplete c) \<Longrightarrow> stepsIn (incomplete 0 0) (upd f)"
  unfolding upd_def by (rule inc.in_modify) (auto simp: incomplete_def split: prod.splits)

lemma inc_others: "stepsIn (incomplete 0 0) (onWorld m)" "stepsIn (incomplete 0 0) (onPersistence k)"
  by (auto simp: stepsIn_def incomplete_def onWorld_def onPersistence_def split: prod.splits)

lemma inc_broadcastBody: "stepsIn (incomplete 0 0) (broadcastBody E C s a cy)"
  unfolding broadcastBody_def sendRecorded_def Let_def
  apply (intro inc.in_seq inc.in_if inc.in_ret inc_upd inc_others inc.in_catch)
      apply (simp_all add: emit_def)
  apply (intro steps_cases inc.in_seq inc_upd inc.in_ret inc.in_if)
      apply (simp_all add: emit_def)
  done

lemma inc_leave: "stepsIn (incomplete 0 0) (leave E cy oper)"
proof -
  have "stepsIn (incomplete 0 0) (refresh E cy oper)"
    by (rule stepsIn_mono [OF pub_refresh]) (simp add: revKept_def revEqual_def incomplete_def)
  then show ?thesis unfolding leave_def by (intro inc.in_seq inc_upd) simp_all
qed

lemma rev_broadcast: "stepsIn (revStep 0 0) (broadcastAttempt E C aid cy)"
proof -
  let ?start = "\<lambda>c. c\<lparr>broadcastPermit := None, recoveryComplete := False, inclusionChecksComplete := False, busy := True\<rparr>"
  let ?rest = "\<lambda>s a. finallyDo (onThrow (broadcastBody E C s a cy) (\<lambda>(c, w). (dropPendingIfIdle c, w)))
      (leave E cy BroadcastAttemptOp)"
  have "stepsIn (incomplete 0 0) (?rest s a)" for s a
  proof (rule stepsInI)
    fix u r t assume fd: "?rest s a u = (r, t)"
    obtain x v where m: "onThrow (broadcastBody E C s a cy) (\<lambda>(c, w). (dropPendingIfIdle c, w)) u = (x, v)"
      by (cases "onThrow (broadcastBody E C s a cy) (\<lambda>(c, w). (dropPendingIfIdle c, w)) u")
    have "stepsIn (incomplete 0 0) (onThrow (broadcastBody E C s a cy) (\<lambda>(c, w). (dropPendingIfIdle c, w)))"
      by (rule inc.in_onThrow [OF inc_broadcastBody]) (auto simp: incomplete_def dropPendingIfIdle_def split: if_splits)
    from stepsInD [OF this m] have i: "incomplete 0 0 u v" .
    obtain y z where l: "leave E cy BroadcastAttemptOp v = (y, z)" by (cases "leave E cy BroadcastAttemptOp v")
    have "z = t" using fd m l by (simp add: finallyDo_def split: sum.splits)
    with i stepsInD [OF inc_leave l] show "incomplete 0 0 u t" by (simp add: incomplete_def)
  qed
  then have b: "stepsIn (revStep 0 0) (andThen (upd ?start) (\<lambda>_. ?rest s a))" for s a
    by (fastforce simp: stepsIn_def andThen_def upd_def modifyState_def revStep_def incomplete_def revisionInv_def)
  show ?thesis
    unfolding broadcastAttempt_def
    by (intro b rv.in_seq rev_guards rev_read steps_cases rv.in_throw rv.in_option rv.in_unless)
qed

subsection \<open>Every run keeps it\<close>

lemma coStep_revision: "coStep E s l t \<Longrightarrow> revisionInv (fst s) \<Longrightarrow> revisionInv (fst t)"
proof (induction rule: coStep.induct)
  case (observe_begin c w)
  then show ?case by (simp add: revisionInv_def revisionHolds_def current_def)
next
  case (observe_end cy c w r t)
  then show ?case using stepsInD [OF rev_refresh observe_end(1)]
    by (simp add: revStep_def revisionInv_def revisionHolds_def current_def)
qed (use rev_prepareAttempt rev_broadcast rev_inspection_steps rev_openHead rev_recoverInspection
      rev_checkInspection rev_owned rev_retry in \<open>fastforce simp: stepsIn_def revStep_def\<close>)+

lemma coRun_revision: "coRun E s ls t \<Longrightarrow> revisionInv (fst s) \<Longrightarrow> revisionInv (fst t)"
  by (induction rule: coRun.induct) (auto dest: coStep_revision)

lemma created_last:
  "(case x of (Inl e, c, v) \<Rightarrow> (Inl e, v) | (Inr _, c, v) \<Rightarrow> (Inr (f c), v)) = (Inr d, u) \<Longrightarrow> \<exists>c. d = f c"
  by (auto split: prod.splits sum.splits)

lemma created_revision: "createCoordinator E ident cap w = (Inr c, v) \<Longrightarrow> revisionHolds c"
  by (auto simp: createCoordinator_def andThen_Inr Let_def dest!: created_last)
    (simp_all add: revisionHolds_def updateDurableRecoveryRevision_def current_def)

end
