(* ===== verification/CycleClaims.thy ===== *)
theory CycleClaims
  imports RevisionProofs SampleWorld
begin

text \<open>The properties of the retry schedule, the recovery revision and the recovery cycle.\<close>

subsection \<open>The backoff between broadcasts\<close>

definition sampleSchedule :: BroadcastRetrySchedule where
  "sampleSchedule =
     \<lparr>trackedAttempt = Some (js ''attempt''), dueAt = 0, nextDelayMs = 1000, lastNow = 0,
      initialDelayMs = 1000, maxDelayMs = 60000\<rparr>"

text \<open>A clock that reads the world and ticks two seconds each time.\<close>

definition tickingClock :: "(int, jsval) io" where
  "tickingClock = (\<lambda>w. (Inr (JNum (of_int w)), w + 2000))"

lemma sampleUsable: "usable (js ''attempt'') sampleSchedule"
  by (simp add: usable_def retryInv_def sampleSchedule_def MAX_DELAY_MS_def MAX_SAFE_INTEGER_def)

lemma identityRounding: "faithfulRounding (\<lambda>x. x)"
  by (simp add: faithfulRounding_def)

text \<open>
  C27: whatever is asked of the retry schedule while one attempt stays tracked, in any order and with
  any clock, the sends it grants are spaced by an exponential backoff: each comes at least the
  current delay after the one before, and the delay doubles up to the configured maximum.
\<close>

theorem backoff_spaces_sends:
  assumes "faithfulRounding rnd" and "usable aid b" and "retryUse rnd clock aid (b, w) ts u"
  shows "backoffSpaced (nextDelayMs b) (maxDelayMs b) ts \<and> (ts \<noteq> [] \<longrightarrow> dueAt b \<le> hd ts)"
  using retryUse_spaced [OF assms(1,3)] assms(2) by simp

theorem backoff_spaces_sends_witness: "\<exists>t. backoffSpaced 1000 60000 [0, t] \<and> 1000 \<le> t"
proof -
  let ?c = "claimRetry (\<lambda>x. x) tickingClock (js ''attempt'')"
  obtain s r where s: "?c (sampleSchedule, 0) = (r, s)" by (metis surj_pair)
  have r: "r = Inr True" "s = (sampleSchedule\<lparr>dueAt := 1000, nextDelayMs := 2000\<rparr>, 2000)"
    using s by (simp_all add: claimRetry_def readNow_def io_defs tickingClock_def sampleSchedule_def MAX_SAFE_INTEGER_def)
  obtain t q where t: "?c s = (q, t)" by (metis surj_pair)
  have q: "q = Inr True" "lastNow (fst t) = 2000"
    using t r by (auto simp: claimRetry_def readNow_def io_defs tickingClock_def sampleSchedule_def MAX_SAFE_INTEGER_def)
  have "retryUse (\<lambda>x. x) tickingClock (js ''attempt'') (sampleSchedule, 0) (lastNow (fst s) # [lastNow (fst t)]) t"
    using s t r q by (metis retryUse.granted retryUse.unused)
  then have "retryUse (\<lambda>x. x) tickingClock (js ''attempt'') (sampleSchedule, 0) [0, 2000] t"
    by (simp add: r q) (simp add: sampleSchedule_def)
  from backoff_spaces_sends [OF identityRounding sampleUsable this]
  show ?thesis by (intro exI [of _ 2000]) (simp add: sampleSchedule_def)
qed

text \<open>
  C28: sends are never starved: once the clock is past the longest delay after its last reading, the
  next claim for the tracked attempt is granted.
\<close>

theorem due_claim_is_granted:
  assumes "usable aid b" and "clock u = (Inr (JNum q), w)"
    and "of_int (\<lceil>lastNow b\<rceil> + maxDelayMs b) \<le> q" and "q \<le> of_int (MAX_SAFE_INTEGER - maxDelayMs b)"
  shows "fst (claimRetry rnd clock aid (b, u)) = Inr True"
  by (rule claim_granted [where q = q and w = w]) (fact assms)+

theorem due_claim_is_granted_witness:
  "fst (claimRetry (\<lambda>x. x) tickingClock (js ''attempt'') (sampleSchedule, 60000)) = Inr True"
  by (rule due_claim_is_granted [OF sampleUsable, of _ _ 60000])
    (simp_all add: tickingClock_def sampleSchedule_def MAX_SAFE_INTEGER_def)

subsection \<open>The recovery revision\<close>

text \<open>
  C26: two committed states have the same recovery revision exactly when they agree in everything that
  recovery depends on: the nonces, the attempts with their phases, hashes, inclusions and search
  progress (hashes up to letter case), and the blockers of the coordinator.
\<close>

theorem recovery_revision_is_exact:
  "durableRecoveryRevision c B = durableRecoveryRevision d D \<longleftrightarrow> sameRecoveryState c B d D"
  by (rule revision_eq)

text \<open>
  C25: a created coordinator publishes the revision of its committed state, and every run of its
  operations keeps this: whenever recovery is complete, the published revision is that of the
  committed journal and blockers of that moment.
\<close>

theorem published_revision_is_current:
  assumes "createCoordinator E ident cap w0 = (Inr c0, w1) \<or> recoveryComplete c0 \<and>
      committedRevision c0 = durableRecoveryRevision (current c0) (blockers c0)"
    and "coRun E (c0, w) ls (d, v)" and "recoveryComplete d"
  shows "committedRevision d = durableRecoveryRevision (current d) (blockers d)"
proof -
  have "revisionInv c0"
    using assms(1) holds_inv created_revision by (auto simp: revisionInv_def revisionHolds_def)
  then have "revisionInv d" using coRun_revision [OF assms(2)] by simp
  then show ?thesis using assms(3) by (simp add: revisionInv_def revisionHolds_def)
qed

definition revisedCoordinator :: coordinator where
  "revisedCoordinator = updateDurableRecoveryRevision openCoordinator"

lemma revisedCoordinator_fields [samples]:
  "recoveryComplete revisedCoordinator" "inclusionChecksComplete revisedCoordinator"
  "persistenceIdle revisedCoordinator" "current revisedCoordinator = Present (sampleSnapshot [])"
  "blockers revisedCoordinator = {}" "revisionHolds revisedCoordinator"
  "attemptSummaries revisedCoordinator = []" "capacity revisedCoordinator = JNum 4"
  by (simp_all add: revisedCoordinator_def updateDurableRecoveryRevision_def openCoordinator_def
      freshCoordinator_def samplePersistence_def current_def persistenceIdle_def revisionHolds_def
      attemptSummaries_def currentAttempts_def) (simp add: sampleSnapshot_def)

theorem published_revision_is_current_witness:
  "committedRevision revisedCoordinator =
     durableRecoveryRevision (current revisedCoordinator) (blockers revisedCoordinator)"
  by (rule published_revision_is_current [OF disjI2 coRun.stop])
    (use samples in \<open>simp_all add: revisionHolds_def\<close>)

subsection \<open>The recovery cycle\<close>

text \<open>
  C22: a recovery cycle, in any state and world and however it ends, is a run of the coordinator's
  public operations: it prepares nothing and sends at most one transaction.
\<close>

theorem cycle_is_a_coordinator_run:
  "\<exists>ls. coRun (cycCoordinator E) s ls (snd (snd (runCycle E C anch head m aborted cy (k, s)))) \<and>
     preparedIn ls = [] \<and> length (sentIn ls) \<le> 1"
proof -
  obtain r t where "runCycle E C anch head m aborted cy (k, s) = (r, t)" by (metis surj_pair)
  from stepsInD [OF runCycle_run this] this show ?thesis by (simp add: cycleRun_def boundedRun_def)
qed

text \<open>
  C23: however a cycle ends, also by an abort or a failed request in the middle, it leaves the
  coordinator consistent with no inspection open and itself ready for the next cycle; and after a
  cycle that threw, no durable pass counts as complete.
\<close>

theorem cycle_releases_the_signer:
  assumes "calm (envViem (cycCoordinator E)) c" and "inspectionOwner c = None" and "\<not> cycleBusy k"
    and "runCycle E C anch head m aborted cy (k, c, w) = (r, (k', c', w'))"
  shows "calm (envViem (cycCoordinator E)) c' \<and> inspectionOwner c' = None \<and> \<not> cycleBusy k' \<and>
    (\<forall>e. r = Inl e \<longrightarrow> completedDurableRevision k' = None \<and>
       (\<forall>d. durableSchedule k' = Some d \<longrightarrow> completedPass d = None))"
proof -
  have "free (envViem (cycCoordinator E)) c" using assms(1,2) by (simp add: free_def calm_def)
  then have "free (envViem (cycCoordinator E)) c'"
    using stepsInD [OF runCycle_free [OF refl] assms(4)] by (simp add: keeps_def)
  then show ?thesis
    using runCycle_state [OF assms(4,3)] free_calm by (auto simp: free_def)
qed

definition sampleCycle :: recovery_cycle where
  "sampleCycle = newRecoveryCycle sampleSchedule (Some \<lparr>refreshIntervalMs = 1000, completedPass = None\<rparr>)"

definition sampleCycleEnv :: "sample_world cycle_env" where
  "sampleCycleEnv =
     \<lparr>cycCoordinator = sampleEnv, cycRetryClock = (\<lambda>w. (Inr (JNum 0), w)),
      cycDurableClock = (\<lambda>w. (Inr (JNum 5), w)), cycRounding = (\<lambda>x. x)\<rparr>"

theorem cycle_releases_the_signer_witness:
  "\<exists>r k' c' w'. runCycle sampleCycleEnv sampleClient (sampleAnchor 10) None 100 (\<lambda>_. False) None
      (sampleCycle, openCoordinator, sampleWorld) = (r, (k', c', w')) \<and>
    inspectionOwner c' = None \<and> \<not> cycleBusy k'"
proof -
  obtain r k' c' w' where run: "runCycle sampleCycleEnv sampleClient (sampleAnchor 10) None 100 (\<lambda>_. False) None
      (sampleCycle, openCoordinator, sampleWorld) = (r, (k', c', w'))" by (metis surj_pair)
  have "calm (envViem (cycCoordinator sampleCycleEnv)) openCoordinator" "\<not> cycleBusy sampleCycle"
    by (simp_all add: samples sampleCycleEnv_def sampleCycle_def newRecoveryCycle_def)
  moreover have "inspectionOwner openCoordinator = None"
    by (simp add: openCoordinator_def freshCoordinator_def)
  ultimately show ?thesis using cycle_releases_the_signer [OF _ _ _ run] run by blast
qed

text \<open>
  C24: a durable pass is reused only for what it was made for. Suppose a pass was recorded in one state
  of the coordinator, and in a later state (with the cycle's record of it unchanged) a cycle decides
  to reuse it. Then the pass was complete when it was recorded, recovery and inclusion checks are
  complete when it is reused, the committed recovery state is the same in both, the anchor is the same,
  and by the cycle's clock the refresh interval has not passed in between.
\<close>

theorem reused_pass_is_current:
  assumes made: "recordDurablePass E a r (k1, c1, w1) = (Inr (), (k2, c2, w2))"
    and none: "completedDurableRevision k1 = None" and some: "completedDurableRevision k2 \<noteq> None"
    and same: "completedDurableRevision k3 = completedDurableRevision k2" "durableSchedule k3 = durableSchedule k2"
    and reuse: "canReuseDurablePass E b head (k3, c3, w3) = (Inr True, t)"
    and inv: "revisionInv c1" "revisionInv c3"
  shows "sameRecoveryState (current c1) (blockers c1) (current c3) (blockers c3) \<and>
    isDurableRecoveryComplete r (recoveryComplete c1) (persistenceIdle c1) (attemptSummaries c1) \<and>
    recoveryComplete c3 \<and> inclusionChecksComplete c3 \<and> persistenceIdle c3 \<and>
    blockAnchorsMatch a b \<and>
    (\<exists>d since q u v. durableSchedule k1 = Some d \<and> cycDurableClock E w1 = (Inr (JNum since), u) \<and>
       cycDurableClock E w3 = (Inr (JNum q), v) \<and> 0 \<le> cycRounding E (q - since) \<and>
       cycRounding E (q - since) < of_int (refreshIntervalMs d))"
proof -
  obtain d d' v where d: "durableSchedule k1 = Some d"
    "isDurableRecoveryComplete r (recoveryComplete c1) (persistenceIdle c1) (attemptSummaries c1)"
    and rec: "recordCompleted (cycDurableClock E) a (d, w1) = (Inr (), (d', v))"
    and k2: "k2 = k1\<lparr>durableSchedule := Some d', completedDurableRevision := Some (committedRevision c1)\<rparr>"
    using made none some
    by (auto simp: recordDurablePass_def readStatus_def readCoordinator_def readCycle_def andThen_Inr
        updCycle_def split: option.splits if_splits prod.splits)
  have c1: "recoveryComplete c1" using d(2) by (simp add: isDurableRecoveryComplete_def split: if_splits)
  obtain now u1 where now: "cycDurableClock E w1 = (Inr now, u1)"
      "d' = (case now of JNum q \<Rightarrow> d\<lparr>completedPass := Some (a, q)\<rparr> | _ \<Rightarrow> invalidateDurable d)"
    using rec by (auto simp: recordCompleted_def andThen_Inr onWorld_def split: prod.splits)
  have d': "d' = invalidateDurable d \<or> (\<exists>q. now = JNum q \<and> d' = d\<lparr>completedPass := Some (a, q)\<rparr>)"
    using now(2) by (cases now) auto
  obtain u where c3: "recoveryComplete c3" "inclusionChecksComplete c3" "persistenceIdle c3"
    "committedRevision c3 = committedRevision c1" and due: "isDue (cycRounding E) (cycDurableClock E) d' b w3 = (Inr False, u)"
    using reuse same
    by (auto simp: canReuseDurablePass_def readStatus_def readCoordinator_def readCycle_def andThen_Inr k2
        durableIsDue_def onWorld_def split: option.splits if_splits prod.splits)
  from due d' have "blockAnchorsMatch a b \<and> (\<exists>since q u v. cycDurableClock E w1 = (Inr (JNum since), u) \<and>
       cycDurableClock E w3 = (Inr (JNum q), v) \<and> 0 \<le> cycRounding E (q - since) \<and>
       cycRounding E (q - since) < of_int (refreshIntervalMs d))"
    by (elim isDue_False) (auto simp: invalidateDurable_def blockAnchorsMatch_def now(1))
  moreover have "durableRecoveryRevision (current c1) (blockers c1) = durableRecoveryRevision (current c3) (blockers c3)"
    using inv c1 c3 by (simp add: revisionInv_def revisionHolds_def)
  ultimately show ?thesis using c3 d revision_eq by blast
qed

lemma sampleGate: "\<exists>g. coordinatorGate revisedCoordinator = Inr g \<and>
    UnattributedSignerActivity \<notin> set (gateBlockers g) \<and> ConflictSearchExhausted \<notin> set (gateBlockers g)"
proof -
  obtain g where g: "coordinatorGate revisedCoordinator = Inr g"
    using coordinatorGate_ok [of revisedCoordinator] by (auto simp: samples)
  from evaluateSignerGate_reasons [OF g [unfolded coordinatorGate_def]] show ?thesis
    using g by (auto simp: gateReasons_def samples split: if_splits)
qed

theorem reused_pass_is_current_witness:
  "sameRecoveryState (Present (sampleSnapshot [])) {} (Present (sampleSnapshot [])) {} \<and>
    blockAnchorsMatch (sampleAnchor 10) (sampleAnchor 10)"
proof -
  let ?c = revisedCoordinator
  obtain g where g: "coordinatorGate ?c = Inr g" "UnattributedSignerActivity \<notin> set (gateBlockers g)"
    "ConflictSearchExhausted \<notin> set (gateBlockers g)" using sampleGate by blast
  define r where "r = RecoveryInspected (RecoveryNoAttempt (sampleObservation 10 5))"
  define k where "k = sampleCycle\<lparr>durableSchedule := Some \<lparr>refreshIntervalMs = 1000, completedPass = Some (sampleAnchor 10, 5)\<rparr>,
      completedDurableRevision := Some (committedRevision ?c)\<rparr>"
  have made: "recordDurablePass sampleCycleEnv (sampleAnchor 10) r (sampleCycle, ?c, sampleWorld) =
      (Inr (), (k, ?c, sampleWorld))"
    by (simp add: recordDurablePass_def readStatus_def readCoordinator_def readCycle_def io_defs g samples
        sampleCycle_def newRecoveryCycle_def isDurableRecoveryComplete_def r_def recordCompleted_def
        sampleCycleEnv_def updCycle_def k_def)
  have reuse: "canReuseDurablePass sampleCycleEnv (sampleAnchor 10) (Some (sampleAnchor 20)) (k, ?c, sampleWorld) =
      (Inr True, (k, ?c, sampleWorld))"
    by (simp add: canReuseDurablePass_def readStatus_def readCoordinator_def readCycle_def io_defs g samples
        k_def durableIsDue_def isDue_def sampleCycleEnv_def)
  have "revisionInv ?c" by (rule holds_inv) (simp add: samples)
  from reused_pass_is_current [OF made _ _ refl refl reuse this this] show ?thesis
    by (simp add: samples sampleCycle_def newRecoveryCycle_def k_def)
qed

end
