(* ===== verification/TransactionManager.thy ===== *)
theory TransactionManager
  imports RevisionProofs
begin

text \<open>
  \<^verbatim>\<open>state/transaction-manager.ts\<close> and \<^verbatim>\<open>execution/submit-transaction.ts\<close>: the manager that owns a
  signer. It reconciles the signer through the recovery cycle and submits new work, one operation
  at a time. A \<^verbatim>\<open>TransactionSubmissionError\<close> is the value \<open>SubmissionFailed\<close> of a submission.
\<close>

subsection \<open>State and services\<close>

record 'w manager_env =
  mgrCycle :: "'w cycle_env"
  mgrClient :: "'w chain_client"
  mgrRequest :: "jstr \<Rightarrow> jstr \<Rightarrow> jstr \<Rightarrow> int \<Rightarrow> int option \<Rightarrow> ('w, prepared_request) io"
  mgrAccount :: "'w local_account"
  mgrReadHeads :: "('w, ChainHeads) io"
  mgrMaxRange :: int
  mgrOnRecovery :: "(int option \<Rightarrow> ('w, unit) io) option"

type_synonym 'w mstate = "bool \<times> 'w rstate"

abbreviation mgrCoordinator :: "'w manager_env \<Rightarrow> 'w coordinator_env" where
  "mgrCoordinator M \<equiv> cycCoordinator (mgrCycle M)"

abbreviation inner :: "('w rstate, 'a) io \<Rightarrow> ('w mstate, 'a) io" where
  "inner \<equiv> onWorld"

definition readSigner :: "(coordinator \<Rightarrow> SignerGateDecision \<Rightarrow> ('w mstate, 'a) io) \<Rightarrow> ('w mstate, 'a) io" where
  "readSigner f =
     (\<lambda>s. andThen (liftPure (coordinatorGate (fst (snd (snd s))))) (f (fst (snd (snd s)))) s)"

definition readManager :: "(coordinator \<Rightarrow> ('w mstate, 'a) io) \<Rightarrow> ('w mstate, 'a) io" where
  "readManager f = (\<lambda>s. f (fst (snd (snd s))) s)"

subsection \<open>Creation\<close>

text \<open>
  The manager starts with the schedule tracking the oldest unresolved attempt of the loaded journal.
\<close>

definition createManager ::
  "'w manager_env \<Rightarrow> JournalIdentity \<Rightarrow> jsval \<Rightarrow> jsval \<Rightarrow> jsval \<Rightarrow> jsval option \<Rightarrow> ('w, bool \<times> recovery_cycle \<times> coordinator) io" where
  "createManager M ident cap initialDelay maxDelay interval =
     andThen (unlessThrow (0 < mgrMaxRange M \<and> mgrMaxRange M < 2 ^ 256)
       (TypeError ''Invalid transaction manager block range.'')) (\<lambda>_.
     andThen (liftPure (createRetrySchedule initialDelay maxDelay)) (\<lambda>b.
     andThen (case interval of None \<Rightarrow> ret None
        | Some i \<Rightarrow> andThen (liftPure (createDurableSchedule i)) (\<lambda>d. ret (Some d))) (\<lambda>d.
     andThen (createCoordinator (mgrCoordinator M) ident cap) (\<lambda>c.
     \<lambda>w. case onRetry (trackRetry (cycRounding (mgrCycle M)) (cycRetryClock (mgrCycle M)) (retryAttempt c))
              (newRecoveryCycle b d, c, w) of
          (Inl e, (_, _, v)) \<Rightarrow> (Inl e, v)
        | (Inr _, (k, c', v)) \<Rightarrow> (Inr (False, k, c'), v)))))"

subsection \<open>Status\<close>

record TransactionManagerStatus =
  tmChainId :: int
  tmJournalInitialized :: bool
  tmBusy :: bool
  tmOpen :: bool
  tmPrimaryReason :: "SignerBlocker option"
  tmBlockers :: "SignerBlocker list"
  tmRecoveryComplete :: bool
  tmInclusionChecksComplete :: bool
  tmPersistenceState :: persistence_state
  tmBlockedSince :: "jstr option"
  tmAttempts :: "AttemptSummary list"

definition captureStatus :: "bool \<Rightarrow> coordinator \<Rightarrow> exn + TransactionManagerStatus" where
  "captureStatus running c =
     bindE (coordinatorGate c) (\<lambda>g.
     Inr \<lparr>tmChainId = chainId (signerIdentity c), tmJournalInitialized = journalInitialized c, tmBusy = running,
          tmOpen = (statusOpen c g \<and> \<not> running), tmPrimaryReason = gatePrimaryReason g,
          tmBlockers = gateBlockers g, tmRecoveryComplete = recoveryComplete c,
          tmInclusionChecksComplete = inclusionChecksComplete c,
          tmPersistenceState = stateValue (persistence c), tmBlockedSince = blockedSince c,
          tmAttempts = attemptSummaries c\<rparr>)"

definition managerStatus :: "'w mstate \<Rightarrow> exn + TransactionManagerStatus" where
  "managerStatus s = captureStatus (fst s) (fst (snd (snd s)))"

subsection \<open>Reconciliation\<close>

text \<open>The two ends of \<^verbatim>\<open>observeReconciliation\<close>, around an action on the larger state.\<close>

definition observeBegin :: "('w cstate, unit) io" where
  "observeBegin =
     readC (\<lambda>c. andThen (unlessThrow (\<not> observationActive c)
         (PlainError ''Signer reconciliation observation is already active.'')) (\<lambda>_.
     andThen assertAvailable (\<lambda>_. upd (\<lambda>c. c\<lparr>observationActive := True\<rparr>))))"

definition observeEnd :: "'w coordinator_env \<Rightarrow> nat option \<Rightarrow> ('w cstate, unit) io" where
  "observeEnd E cycle =
     andThen (upd (\<lambda>c. c\<lparr>observationActive := False\<rparr>)) (\<lambda>_. refresh E cycle ReconcileAttemptOp)"

lemma andThen_assoc: "andThen (andThen m f) g = andThen m (\<lambda>x. andThen (f x) g)"
  by (auto simp: andThen_def fun_eq_iff split: prod.splits sum.splits)

lemma observe_ends:
  "observeReconciliation E action cy = andThen observeBegin (\<lambda>_. finallyDo action (observeEnd E cy))"
  by (simp add: observeReconciliation_def observeBegin_def observeEnd_def fun_eq_iff readC_def andThen_def
      split: prod.splits sum.splits)

definition reconcileOwned ::
  "'w manager_env \<Rightarrow> BlockAnchor \<Rightarrow> BlockAnchor \<Rightarrow> ('w \<Rightarrow> bool) \<Rightarrow> nat option \<Rightarrow>
   ('w rstate, SignerRecoveryCycleResult) io" where
  "reconcileOwned M head durable aborted cycle =
     andThen (andThen (onWorld observeBegin) (\<lambda>_.
        finallyDo (runCycle (mgrCycle M) (mgrClient M) durable (Some head) (mgrMaxRange M) aborted cycle)
          (onWorld (observeEnd (mgrCoordinator M) cycle)))) (\<lambda>result.
     andThen (case mgrOnRecovery M of None \<Rightarrow> ret ()
        | Some f \<Rightarrow> tryCatch (onWorld (onWorld (f (cycleRetryDelay result)))) (\<lambda>_. ret ())) (\<lambda>_.
     ret result))"

record TransactionBroadcastOutcome =
  boWorkId :: jstr
  boAttempt :: PreparedAttempt
  boAcknowledged :: bool

record TransactionReconciliationReport =
  rrState :: TransactionManagerStatus
  rrRecoveryStatus :: string
  rrInclusionStatus :: "string option"
  rrBroadcast :: "TransactionBroadcastOutcome option"
  rrRetryDelay :: "int option"

fun recoveryStatusName :: "cycle_inspection \<Rightarrow> string" where
  "recoveryStatusName CycleSkipped = ''skipped''"
| "recoveryStatusName (CycleInspected (RecoveryBootstrapDeferred _ _ _)) = ''bootstrap-deferred''"
| "recoveryStatusName (CycleInspected (RecoveryInspected (RecoveryAnchorChanged _))) = ''anchor-changed''"
| "recoveryStatusName (CycleInspected (RecoveryInspected (RecoveryNonceBehind _))) = ''nonce-behind-journal''"
| "recoveryStatusName (CycleInspected (RecoveryInspected (RecoveryNoAttempt _))) = ''no-attempt''"
| "recoveryStatusName (CycleInspected (RecoveryInspected (RecoveryInconsistent _))) = ''inconsistent-observations''"
| "recoveryStatusName (CycleInspected (RecoveryInspected (ResolutionAvailable _ _))) = ''resolution-available''"
| "recoveryStatusName (CycleInspected (RecoveryInspected (RecoveryUnresolved _ _ _))) = ''unresolved''"

fun inclusionStatusName :: "SignerInclusionInspection \<Rightarrow> string" where
  "inclusionStatusName (InclusionsAnchorChanged _) = ''anchor-changed''"
| "inclusionStatusName (InclusionsNonceBehind _) = ''nonce-behind-journal''"
| "inclusionStatusName (InclusionsInconsistent _) = ''inconsistent-observations''"
| "inclusionStatusName (Inspected _ _ _ _) = ''inspected''"

fun broadcastOutcome :: "BroadcastAttemptResult \<Rightarrow> PreparedAttempt \<times> bool" where
  "broadcastOutcome (Acknowledged p) = (p, True)"
| "broadcastOutcome (NotAcknowledged p) = (p, False)"

definition captureReconciliationReport ::
  "SignerRecoveryCycleResult \<Rightarrow> coordinator \<Rightarrow> exn + TransactionReconciliationReport" where
  "captureReconciliationReport r c =
     bindE (case cycleBroadcast r of
        None \<Rightarrow> Inr None
      | Some b \<Rightarrow>
          let (p, acknowledged) = broadcastOutcome b in
          (case find (\<lambda>a. asAttemptId a = paAttemptId p) (attemptSummaries c) of
             None \<Rightarrow> Inl (PlainError ''Broadcast outcome has no retained transaction identity.'')
           | Some a \<Rightarrow> Inr (Some \<lparr>boWorkId = asWorkId a, boAttempt = p, boAcknowledged = acknowledged\<rparr>))) (\<lambda>sent.
     bindE (captureStatus False c) (\<lambda>st.
     Inr \<lparr>rrState = st, rrRecoveryStatus = recoveryStatusName (cycleInspection r),
          rrInclusionStatus = map_option inclusionStatusName (cycleInclusions r),
          rrBroadcast = sent, rrRetryDelay = cycleRetryDelay r\<rparr>))"

definition enterManager :: "('w mstate, unit) io" where
  "enterManager =
     andThen getState (\<lambda>s.
     andThen (unlessThrow (\<not> fst s) (PlainError ''Transaction manager operation is already in progress.'')) (\<lambda>_.
     modifyState (\<lambda>(_, s). (True, s))))"

definition leaveManager :: "'w mstate \<Rightarrow> 'w mstate" where
  "leaveManager s = (False, snd s)"

definition reconcile ::
  "'w manager_env \<Rightarrow> BlockAnchor \<Rightarrow> BlockAnchor \<Rightarrow> ('w \<Rightarrow> bool) \<Rightarrow> nat option \<Rightarrow>
   ('w mstate, TransactionReconciliationReport) io" where
  "reconcile M head durable aborted cycle =
     andThen enterManager (\<lambda>_.
     tryFinally
       (andThen (inner (reconcileOwned M head durable aborted cycle)) (\<lambda>r.
        readManager (\<lambda>c. liftPure (captureReconciliationReport r c))))
       leaveManager)"

definition reconcileSelectedHeadsOwned ::
  "'w manager_env \<Rightarrow> ('w \<Rightarrow> bool) \<Rightarrow> nat option \<Rightarrow> ('w rstate, SignerRecoveryCycleResult) io" where
  "reconcileSelectedHeadsOwned M aborted cycle =
     recoverSignerAtHeads (mgrClient M) (mgrReadHeads M) aborted (\<lambda>anch head.
       case head of
         None \<Rightarrow> throw (PlainError ''Selected transaction head is missing.'')
       | Some h \<Rightarrow> reconcileOwned M h anch aborted cycle)"

subsection \<open>Submission\<close>

record TransactionCall =
  callTo :: jstr
  callData :: jstr
  callValue :: int
  callGas :: "int option"

text \<open>The abort check of the source, on the manager's state.\<close>

definition checkAborted :: "('w \<Rightarrow> bool) \<Rightarrow> ('w mstate, unit) io" where
  "checkAborted aborted = inner (throwIfAborted aborted)"

datatype SubmitTransactionResult = SubmitSent BroadcastAttemptResult | SubmitRetained jstr jstr

definition submitTransaction ::
  "'w manager_env \<Rightarrow> TransactionCall \<Rightarrow> jstr \<Rightarrow> ('w \<Rightarrow> bool) \<Rightarrow> nat option \<Rightarrow>
   ('w mstate, SubmitTransactionResult) io" where
  "submitTransaction M call wid aborted cycle =
     andThen (checkAborted aborted) (\<lambda>_.
     readSigner (\<lambda>c g.
     andThen (unlessThrow (statusOpen c g)
       (PlainError ''The signer gate must be open before submitting a transaction.'')) (\<lambda>_.
     andThen (inner (onWorld (onWorld (prepareRelayerTransaction (mgrRequest M) (accountAddress (mgrAccount M))
         (callTo call) (callData call) (callValue call) (callGas call))))) (\<lambda>tx.
     andThen (checkAborted aborted) (\<lambda>_.
     andThen (inner (onWorld (prepareAttempt (mgrCoordinator M) (mgrAccount M) tx wid cycle))) (\<lambda>attempt.
     andThen (checkAborted aborted) (\<lambda>_.
     case attempt of
       AlreadyRetained aid w \<Rightarrow> ret (SubmitRetained aid w)
     | Prepared p \<Rightarrow>
         andThen (inner (onWorld (broadcastAttempt (mgrCoordinator M) (mgrClient M) (paAttemptId p) cycle))) (\<lambda>r.
         ret (SubmitSent r))))))))) "

datatype SubmitTransactionWorkResult =
    SubmittedWork TransactionBroadcastOutcome
  | DeferredWork SignerBlocker "SignerBlocker list"
  | RetainedWork jstr jstr
  | SubmissionFailed exn SubmissionRecording

text \<open>The part before \<^verbatim>\<open>preparationStarted\<close>: \<open>None\<close> when preparation is to start.\<close>

definition admitWork ::
  "'w manager_env \<Rightarrow> jstr \<Rightarrow> ('w \<Rightarrow> bool) \<Rightarrow> nat option \<Rightarrow> ('w mstate, SubmitTransactionWorkResult option) io" where
  "admitWork M wid aborted cycle =
     andThen (checkAborted aborted) (\<lambda>_.
     andThen (inner (reconcileSelectedHeadsOwned M aborted cycle)) (\<lambda>_.
     andThen (checkAborted aborted) (\<lambda>_.
     readSigner (\<lambda>c g.
     if \<not> statusOpen c g then
       (case gatePrimaryReason g of
          None \<Rightarrow> throw (PlainError ''Signer gate is closed without a reported blocker.'')
        | Some p \<Rightarrow> ret (Some (DeferredWork p (p # drop 1 (gateBlockers g)))))
     else
       (case find (\<lambda>a. asWorkId a = wid) (attemptSummaries c) of
          Some a \<Rightarrow> ret (Some (RetainedWork (asWorkId a) (asAttemptId a)))
        | None \<Rightarrow> ret None)))))"

definition sendWork ::
  "'w manager_env \<Rightarrow> TransactionCall \<Rightarrow> jstr \<Rightarrow> ('w \<Rightarrow> bool) \<Rightarrow> nat option \<Rightarrow>
   ('w mstate, SubmitTransactionWorkResult) io" where
  "sendWork M call wid aborted cycle =
     andThen (submitTransaction M call wid aborted cycle) (\<lambda>r.
     case r of
       SubmitRetained aid w \<Rightarrow> ret (RetainedWork w aid)
     | SubmitSent b \<Rightarrow>
         let (p, acknowledged) = broadcastOutcome b in
         ret (SubmittedWork \<lparr>boWorkId = wid, boAttempt = p, boAcknowledged = acknowledged\<rparr>))"

definition submitBody ::
  "'w manager_env \<Rightarrow> TransactionCall \<Rightarrow> jstr \<Rightarrow> ('w \<Rightarrow> bool) \<Rightarrow> nat option \<Rightarrow>
   ('w mstate, SubmitTransactionWorkResult) io" where
  "submitBody M call wid aborted cycle =
     andThen (tryCatch (admitWork M wid aborted cycle) (\<lambda>e. ret (Some (SubmissionFailed e RecordingNone)))) (\<lambda>d.
     case d of
       Some r \<Rightarrow> ret r
     | None \<Rightarrow>
         tryCatch (sendWork M call wid aborted cycle) (\<lambda>e.
         readManager (\<lambda>c. ret (SubmissionFailed e (captureSubmissionRecording c wid)))))"

definition submit ::
  "'w manager_env \<Rightarrow> TransactionCall \<Rightarrow> jstr \<Rightarrow> ('w \<Rightarrow> bool) \<Rightarrow> nat option \<Rightarrow>
   ('w mstate, SubmitTransactionWorkResult) io" where
  "submit M call wid aborted cycle =
     andThen enterManager (\<lambda>_. tryFinally (submitBody M call wid aborted cycle) leaveManager)"

end
