(* ===== verification/ManagerProofs.thy ===== *)
theory ManagerProofs
  imports TransactionManager CycleProofs
begin

text \<open>
  The transaction manager over the coordinator it drives: its operations are runs of the
  coordinator with bounded preparations and sends, and what each result of a submission says about
  the journal it leaves.
\<close>

subsection \<open>Runs\<close>

context graded_steps
begin

lemma in_finallyDo:
  assumes "stepsIn (R p n) m" and "stepsIn (R 0 0) h"
  shows "stepsIn (R p n) (finallyDo m h)"
proof (rule stepsInI)
  fix s r t assume f: "finallyDo m h s = (r, t)"
  obtain x u where m: "m s = (x, u)" by (cases "m s")
  obtain y v where h: "h u = (y, v)" by (cases "h u")
  have "v = t" using f m h by (simp add: finallyDo_def split: sum.splits)
  then show "R p n s t" using then_quiet [OF stepsInD [OF assms(1) m] stepsInD [OF assms(2) h]] by simp
qed

end

definition managerRun :: "'w coordinator_env \<Rightarrow> nat \<Rightarrow> nat \<Rightarrow> 'w mstate \<Rightarrow> 'w mstate \<Rightarrow> bool" where
  "managerRun E p n s t = cycleRun E p n (snd s) (snd t)"

interpretation mgr: graded_steps "managerRun E" for E :: "'w coordinator_env"
  by unfold_locales (auto simp: managerRun_def intro: cyc.none cyc.more cyc.weaken)

lemma mgr_inner: "stepsIn (cycleRun E p n) m \<Longrightarrow> stepsIn (managerRun E p n) (inner m)"
  by (auto simp: stepsIn_def managerRun_def onWorld_def split: prod.splits)

lemma mgr_readers:
  "(\<And>c. stepsIn (managerRun E p n) (f c)) \<Longrightarrow> stepsIn (managerRun E p n) (readManager f)"
  "(\<And>c g. stepsIn (managerRun E p n) (h c g)) \<Longrightarrow> stepsIn (managerRun E p n) (readSigner h)"
proof -
  show "(\<And>c. stepsIn (managerRun E p n) (f c)) \<Longrightarrow> stepsIn (managerRun E p n) (readManager f)"
    unfolding readManager_def by (rule mgr.in_read [where f = "\<lambda>s. fst (snd (snd s))"])
  show "(\<And>c g. stepsIn (managerRun E p n) (h c g)) \<Longrightarrow> stepsIn (managerRun E p n) (readSigner h)"
    unfolding readSigner_def
    by (rule mgr.in_read [where f = "\<lambda>s. fst (snd (snd s))"], intro mgr.in_seq mgr.in_lift)
qed

lemma observe_runs:
  "stepsIn (boundedRun E 0 0) observeBegin" "stepsIn (boundedRun E 0 0) (observeEnd E cy)"
proof -
  show "stepsIn (boundedRun E 0 0) observeBegin"
    by (auto simp: stepsIn_def observeBegin_def assertAvailable_def readC_def io_defs upd_def co.any_none
        quiet_step [OF coStep.observe_begin] split: if_splits)
  show "stepsIn (boundedRun E 0 0) (observeEnd E cy)"
    by (auto simp: stepsIn_def observeEnd_def andThen_def upd_def modifyState_def
        intro: quiet_step [OF coStep.observe_end])
qed

lemma reconcileOwned_run:
  "stepsIn (cycleRun (mgrCoordinator M) 0 1) (reconcileOwned M head durable a cy)"
proof -
  have "stepsIn (cycleRun (mgrCoordinator M) 0 0) (case mgrOnRecovery M of None \<Rightarrow> ret ()
        | Some f \<Rightarrow> tryCatch (onWorld (onWorld (f (cycleRetryDelay result)))) (\<lambda>_. ret ()))" for result
    by (intro cyc_rules)
  then show ?thesis
    unfolding reconcileOwned_def
    by (intro cyc.in_seq_first [OF cyc.in_seq] cyc.in_finallyDo cyc.in_seq cyc.in_ret runCycle_run
        observe_runs [THEN cyc_coordinator])
qed

lemma recoverSignerAtHeads_run:
  assumes "\<And>anch head. stepsIn (cycleRun E p n) (run anch head)"
  shows "stepsIn (cycleRun E p n) (recoverSignerAtHeads C heads a run)"
  unfolding recoverSignerAtHeads_def
  by (intro cyc.in_seq cyc.in_unless cyc.in_if cyc.in_ret cyc_aborted cyc_world assms)

lemma reconcileSelectedHeadsOwned_run:
  "stepsIn (cycleRun (mgrCoordinator M) 0 1) (reconcileSelectedHeadsOwned M a cy)"
  unfolding reconcileSelectedHeadsOwned_def
  by (intro recoverSignerAtHeads_run cyc.in_option cyc.in_throw reconcileOwned_run)

lemma checkAborted_run: "stepsIn (managerRun E 0 0) (checkAborted a)"
  unfolding checkAborted_def by (rule mgr_inner [OF cyc_aborted])

lemma admitWork_run: "stepsIn (managerRun (mgrCoordinator M) 0 1) (admitWork M wid a cy)"
proof -
  have "stepsIn (managerRun (mgrCoordinator M) 0 0) (readSigner (\<lambda>c g.
     if \<not> statusOpen c g then
       (case gatePrimaryReason g of
          None \<Rightarrow> throw (PlainError ''Signer gate is closed without a reported blocker.'')
        | Some p \<Rightarrow> ret (Some (DeferredWork p (p # drop 1 (gateBlockers g)))))
     else
       (case find (\<lambda>a. asWorkId a = wid) (attemptSummaries c) of
          Some a \<Rightarrow> ret (Some (RetainedWork (asWorkId a) (asAttemptId a)))
        | None \<Rightarrow> ret None)))"
    by (intro mgr_readers mgr.steps_rules)
  then show ?thesis
    unfolding admitWork_def
    by (intro mgr.in_seq [OF checkAborted_run] mgr.in_seq_first [OF mgr_inner]
        reconcileSelectedHeadsOwned_run)
qed

lemma submitTransaction_run:
  "stepsIn (managerRun (mgrCoordinator M) 1 1) (submitTransaction M call wid a cy)"
proof -
  let ?E = "mgrCoordinator M"
  have send: "stepsIn (managerRun ?E 0 1) (case attempt of
       AlreadyRetained aid w \<Rightarrow> ret (SubmitRetained aid w)
     | Prepared p \<Rightarrow>
         andThen (inner (onWorld (broadcastAttempt ?E (mgrClient M) (paAttemptId p) cy))) (\<lambda>r.
         ret (SubmitSent r)))" for attempt
    by (cases attempt; simp del: One_nat_def)
      (intro mgr.in_ret mgr.in_seq_first [OF mgr_inner [OF cyc_coordinator [OF co_broadcast]]])+
  have both: "stepsIn (managerRun ?E 1 1) (andThen (inner (onWorld (prepareAttempt ?E account tx wid cy))) (\<lambda>attempt.
      andThen (checkAborted a) (\<lambda>_. case attempt of
       AlreadyRetained aid w \<Rightarrow> ret (SubmitRetained aid w)
     | Prepared p \<Rightarrow>
         andThen (inner (onWorld (broadcastAttempt ?E (mgrClient M) (paAttemptId p) cy))) (\<lambda>r.
         ret (SubmitSent r)))))" for account tx
    using mgr.in_seq_both [OF mgr_inner [OF cyc_coordinator [OF co_prepare]] mgr.in_seq [OF checkAborted_run send]]
    by simp
  show ?thesis
    unfolding submitTransaction_def
    by (intro both mgr.in_seq checkAborted_run mgr_readers mgr.in_unless mgr_inner [OF cyc_world])
qed

lemma sendWork_run: "stepsIn (managerRun (mgrCoordinator M) 1 1) (sendWork M call wid a cy)"
proof -
  have "stepsIn (managerRun E 0 0) (case r of
       SubmitRetained aid w \<Rightarrow> ret (RetainedWork w aid)
     | SubmitSent b \<Rightarrow>
         let (p, acknowledged) = broadcastOutcome b in
         ret (SubmittedWork \<lparr>boWorkId = wid, boAttempt = p, boAcknowledged = acknowledged\<rparr>))" for r E
    by (cases r) (auto intro!: mgr.in_ret split: prod.splits)
  then show ?thesis unfolding sendWork_def by (intro mgr.in_seq_first [OF submitTransaction_run])
qed

lemma submitBody_run: "stepsIn (managerRun (mgrCoordinator M) 1 2) (submitBody M call wid a cy)"
proof -
  have first: "stepsIn (managerRun (mgrCoordinator M) 0 1)
      (tryCatch (admitWork M wid a cy) (\<lambda>e. ret (Some (SubmissionFailed e RecordingNone))))"
    by (intro mgr.in_catch admitWork_run mgr.in_ret)
  have "stepsIn (managerRun (mgrCoordinator M) 1 1) (case d of Some r \<Rightarrow> ret r
     | None \<Rightarrow> tryCatch (sendWork M call wid a cy) (\<lambda>e.
         readManager (\<lambda>c. ret (SubmissionFailed e (captureSubmissionRecording c wid)))))" for d
    by (intro mgr.in_option mgr.in_catch sendWork_run mgr_readers mgr.in_ret)
  from mgr.in_seq_both [OF first this] show ?thesis unfolding submitBody_def by (simp add: numeral_2_eq_2)
qed

lemma enter_leave_run:
  "stepsIn (managerRun E 0 0) enterManager" "managerRun E 0 0 s (leaveManager s)"
  by (auto simp: enterManager_def managerRun_def leaveManager_def cyc.any_none
      intro!: mgr.in_seq mgr.in_get mgr.in_unless mgr.in_modify)

lemma submit_run: "stepsIn (managerRun (mgrCoordinator M) 1 2) (submit M call wid a cy)"
  unfolding submit_def by (intro mgr.in_seq enter_leave_run mgr.in_finally submitBody_run)

lemma reconcile_run: "stepsIn (managerRun (mgrCoordinator M) 0 1) (reconcile M head durable a cy)"
  unfolding reconcile_def
  by (intro mgr.in_seq enter_leave_run mgr.in_finally mgr.in_seq_first [OF mgr_inner [OF reconcileOwned_run]]
      mgr_readers mgr.in_lift)

end
