(* ===== verification/SubmissionProofs.thy ===== *)
theory SubmissionProofs
  imports ManagerProofs
begin

text \<open>
  What a submission leaves: the coordinator it found after its recovery, and what each result,
  failures included, says about the journal since.
\<close>

lemma mark_appended:
  assumes "list_all isIncluded (attempts s)" and "phase a = Signed"
  shows "markOldestUnresolved (appendAttempt s a) = appendAttempt s (markBroadcast a)"
proof -
  have "findUnresolved n (xs @ [a]) = Some (n + length xs)" if "list_all isIncluded xs" for n xs
    using that assms(2) by (induction xs arbitrary: n) (simp_all add: isIncluded_def)
  from this [of "attempts s" 0] assms(1) show ?thesis
    by (simp add: markOldestUnresolved_def appendAttempt_def)
qed

text \<open>The journal holds an attempt for the work; one was appended for it.\<close>

definition holdsWork :: "coordinator \<Rightarrow> jstr \<Rightarrow> jstr \<Rightarrow> bool" where
  "holdsWork c wid aid = (\<exists>a \<in> set (currentAttempts (current c)). attemptWorkId a = wid \<and> attemptId a = aid)"

definition appendedWork :: "coordinator \<Rightarrow> coordinator \<Rightarrow> jstr \<Rightarrow> JournalAttempt \<Rightarrow> bool" where
  "appendedWork c d wid a =
     (\<exists>s. current c = Present s \<and> current d = Present (appendAttempt s a) \<and>
        wid \<notin> attemptWorkId ` set (attempts s) \<and> attemptWorkId a = wid \<and> attemptNonce a = nextNonce s)"

definition sentOutcome :: "coordinator \<Rightarrow> coordinator \<Rightarrow> jstr \<Rightarrow> PreparedAttempt \<Rightarrow> bool" where
  "sentOutcome c d wid p =
     (\<exists>a. appendedWork c d wid a \<and> attemptIdentity a = p \<and> phase a = BroadcastMayHaveOccurred)"

definition failedOutcome :: "coordinator \<Rightarrow> coordinator \<Rightarrow> jstr \<Rightarrow> bool" where
  "failedOutcome c d wid = (current d = current c \<or> (\<exists>a. appendedWork c d wid a))"

lemma wp_checkAborted: "Q () (b, k, c, w) \<Longrightarrow> (\<And>e. E e (b, k, c, w)) \<Longrightarrow> wp (checkAborted a) Q E (b, k, c, w)"
  by (simp add: checkAborted_def throwIfAborted_def wp_simps) (simp add: wp_def)

lemma wp_readSigner:
  assumes "isPositiveSafeInteger (capacity c)"
    and "\<And>g. coordinatorGate c = Inr g \<Longrightarrow> wp (f c g) Q E (b, k, c, w)"
  shows "wp (readSigner f) Q E (b, k, c, w)"
proof -
  obtain g where "coordinatorGate c = Inr g" using coordinatorGate_ok [OF assms(1)] by blast
  with assms(2) show ?thesis
    by (auto simp: readSigner_def wp_def andThen_def liftPure_def)
qed

lemma wp_outside: "(\<And>x v. Q x (b, k, c, v)) \<Longrightarrow> (\<And>e v. E e (b, k, c, v)) \<Longrightarrow>
    wp (inner (onWorld (onWorld m))) Q E (b, k, c, w)"
  by (simp add: wp_simps wpI)

lemma restInv_capacity: "restInv V c \<Longrightarrow> isPositiveSafeInteger (capacity c)"
  by (simp add: inv_defs)

subsection \<open>Sending\<close>

lemma prepared_appended:
  assumes "preparedAs V tx wid p c d s a" and "wid \<notin> attemptWorkId ` set (attempts s)"
  shows "appendedWork c d wid a"
  using assms by (auto simp: preparedAs_def appendedWork_def)

lemma broadcast_appended:
  assumes a: "appendedWork c d wid a" and p: "preparedAs V tx wid p c d s a"
    and inc: "list_all isIncluded (attempts s)"
    and d: "current d = Present s'" "oldestUnresolved s' = Some a'"
      "current e = Present (if phase a' = Signed then markOldestUnresolved s' else s')"
  shows "a' = a" and "appendedWork c e wid (markBroadcast a)" and "attemptIdentity (markBroadcast a) = attemptIdentity a"
proof -
  have s': "s' = appendAttempt s a" and ph: "phase a = Signed" and c: "current c = Present s"
    using p d(1) by (auto simp: preparedAs_def)
  have "oldestUnresolved s' = Some a"
    unfolding s' by (rule oldestUnresolved_append [OF inc]) (simp add: isIncluded_def ph)
  then show a': "a' = a" using d(2) by simp
  have "current e = Present (appendAttempt s (markBroadcast a))"
    using d(3) by (simp add: a' ph s' mark_appended [OF inc ph])
  then show "appendedWork c e wid (markBroadcast a)"
    using a c by (auto simp: appendedWork_def markBroadcast_def)
  show "attemptIdentity (markBroadcast a) = attemptIdentity a"
    by (simp add: attemptIdentity_def markBroadcast_def)
qed

lemma submitTransaction_wp:
  fixes M :: "'w manager_env"
  assumes inv: "restInv V c" and V: "V = envViem (mgrCoordinator M)"
  shows "wp (submitTransaction M call wid ab cy)
    (\<lambda>r (b', k', d, v). b' = b \<and> (case r of
        SubmitSent x \<Rightarrow> sentOutcome c d wid (sentAttempt x)
      | SubmitRetained aid wd \<Rightarrow> wd = wid \<and> d = c \<and> holdsWork c wid aid))
    (\<lambda>_ (b', k', d, v). b' = b \<and> failedOutcome c d wid) (b, k, c, w)"
    (is "wp _ ?Q ?T _")
proof -
  note cap = restInv_capacity [OF inv]
  have same: "?T e (b, k, c, v)" for e v by (simp add: failedOutcome_def)
  have kept: "?T e (b, k, d, v)" if "current d = current c" for e d v using that by (simp add: failedOutcome_def)
  have added: "?T e (b, k, d, v)" if "appendedWork c d wid a" for e d v a using that by (auto simp: failedOutcome_def)
  have send: "wp (inner (onWorld (broadcastAttempt (mgrCoordinator M) (mgrClient M) (paAttemptId p) cy)))
      (\<lambda>r. ?Q (SubmitSent r)) ?T (b, k, d, v)"
    if d: "restInv V d" "preparedAs V tx wid p c d s a" "list_all isIncluded (attempts s)"
      "appendedWork c d wid a" for p d v s a tx
    unfolding wp_onWorld
  proof (rule broadcastAttempt_wp [OF d(1) V])
    fix r e u s' a'
    assume "current d = Present s'" "oldestUnresolved s' = Some a'" "sentAttempt r = attemptIdentity a'"
      "current e = Present (if phase a' = Signed then markOldestUnresolved s' else s')"
    with broadcast_appended [OF d(4,2,3) this(1,2,4)]
    show "?Q (SubmitSent r) (b, k, e, u)" by (auto simp: sentOutcome_def markBroadcast_def intro!: exI [of _ "markBroadcast a"])
  next
    fix e' e u assume "current e = current d"
    then have "appendedWork c e wid a" using d(4) by (simp add: appendedWork_def)
    then show "?T e' (b, k, e, u)" by (rule added)
  qed (rule added [OF d(4)])
  have prep: "wp (inner (onWorld (prepareAttempt (mgrCoordinator M) (mgrAccount M) tx wid cy)))
      (\<lambda>attempt. wp (andThen (checkAborted ab) (\<lambda>_. case attempt of
         AlreadyRetained aid w \<Rightarrow> ret (SubmitRetained aid w)
       | Prepared p \<Rightarrow>
           andThen (inner (onWorld (broadcastAttempt (mgrCoordinator M) (mgrClient M) (paAttemptId p) cy))) (\<lambda>r.
           ret (SubmitSent r)))) ?Q ?T) ?T (b, k, c, v)" for tx v
    unfolding wp_onWorld
  proof (rule prepareAttempt_wp [OF inv V])
    fix d u p s a g
    assume d: "restInv V d" "preparedAs V tx wid p c d s a" "coordinatorGate c = Inr g" "statusOpen c g"
      "wid \<notin> attemptWorkId ` set (attempts s)"
    have app: "appendedWork c d wid a" by (rule prepared_appended [OF d(2,5)])
    have "current c = Present s" using d(2) by (simp add: preparedAs_def)
    then have "list_all isIncluded (attempts s)" using coordinatorGate_open [OF d(3,4)] by simp
    from send [OF d(1,2) this app] added [OF app]
    show "wp (andThen (checkAborted ab) (\<lambda>_. case Prepared p of
         AlreadyRetained aid w \<Rightarrow> ret (SubmitRetained aid w)
       | Prepared p \<Rightarrow>
           andThen (inner (onWorld (broadcastAttempt (mgrCoordinator M) (mgrClient M) (paAttemptId p) cy))) (\<lambda>r.
           ret (SubmitSent r)))) ?Q ?T (b, k, d, u)"
      by (simp add: wp_andThen wp_ret wp_checkAborted)
  next
    fix s a assume "current c = Present s" "a \<in> set (attempts s)" "attemptWorkId a = wid"
    then have "holdsWork c wid (attemptId a)" by (auto simp: holdsWork_def currentAttempts_def)
    then show "wp (andThen (checkAborted ab) (\<lambda>_. case AlreadyRetained (attemptId a) wid of
         AlreadyRetained aid w \<Rightarrow> ret (SubmitRetained aid w)
       | Prepared p \<Rightarrow>
           andThen (inner (onWorld (broadcastAttempt (mgrCoordinator M) (mgrClient M) (paAttemptId p) cy))) (\<lambda>r.
           ret (SubmitSent r)))) ?Q ?T (b, k, c, v)"
      using same by (simp add: wp_andThen wp_ret wp_checkAborted)
  qed (simp_all add: failedOutcome_def)
  show ?thesis
    unfolding submitTransaction_def
    by (intro wp_seqI wp_checkAborted same wp_readSigner [OF cap] wp_unlessI wp_outside prep)
qed

subsection \<open>The whole submission\<close>

lemma sendWork_wp:
  fixes M :: "'w manager_env"
  assumes "restInv V c" and "V = envViem (mgrCoordinator M)"
  shows "wp (sendWork M call wid ab cy)
    (\<lambda>r (b', k', d, v). b' = b \<and> ((\<exists>aid. r = RetainedWork wid aid \<and> d = c \<and> holdsWork c wid aid) \<or>
       (\<exists>out. r = SubmittedWork out \<and> boWorkId out = wid \<and> sentOutcome c d wid (boAttempt out))))
    (\<lambda>_ (b', k', d, v). b' = b \<and> failedOutcome c d wid) (b, k, c, w)"
  unfolding sendWork_def wp_andThen
proof (rule wp_mono [OF submitTransaction_wp [OF assms]])
  fix r :: SubmitTransactionResult and t :: "'w mstate"
  assume "case t of (b', k', d, v) \<Rightarrow> b' = b \<and> (case r of
        SubmitSent x \<Rightarrow> sentOutcome c d wid (sentAttempt x)
      | SubmitRetained aid wd \<Rightarrow> wd = wid \<and> d = c \<and> holdsWork c wid aid)"
  moreover have "sentAttempt x = fst (broadcastOutcome x)" for x by (cases x) simp_all
  ultimately show "wp (case r of
       SubmitRetained aid w \<Rightarrow> ret (RetainedWork w aid)
     | SubmitSent b \<Rightarrow>
         let (p, acknowledged) = broadcastOutcome b in
         ret (SubmittedWork \<lparr>boWorkId = wid, boAttempt = p, boAcknowledged = acknowledged\<rparr>))
    (\<lambda>r (b', k', d, v). b' = b \<and> ((\<exists>aid. r = RetainedWork wid aid \<and> d = c \<and> holdsWork c wid aid) \<or>
       (\<exists>out. r = SubmittedWork out \<and> boWorkId out = wid \<and> sentOutcome c d wid (boAttempt out))))
    (\<lambda>_ (b', k', d, v). b' = b \<and> failedOutcome c d wid) t"
    by (cases r; cases t) (auto simp: wp_ret Let_def split: prod.splits)
qed simp

text \<open>What admission decides on the coordinator \<open>c\<close> that the recovery left.\<close>

definition admitted :: "coordinator \<Rightarrow> jstr \<Rightarrow> SubmitTransactionWorkResult option \<Rightarrow> bool" where
  "admitted c wid r =
     (\<exists>g. coordinatorGate c = Inr g \<and>
        (case r of
          None \<Rightarrow> statusOpen c g \<and> wid \<notin> attemptWorkId ` set (currentAttempts (current c))
        | Some (DeferredWork p ps) \<Rightarrow> \<not> statusOpen c g \<and> gatePrimaryReason g = Some p \<and> ps = gateBlockers g
        | Some (RetainedWork wd aid) \<Rightarrow> statusOpen c g \<and> wd = wid \<and> holdsWork c wid aid
        | _ \<Rightarrow> False))"

lemma gate_reasons_head:
  assumes "coordinatorGate c = Inr g" and "gatePrimaryReason g = Some p"
  shows "p # drop 1 (gateBlockers g) = gateBlockers g"
  using assms
  by (cases "gateBlockers g") (auto simp: coordinatorGate_def evaluateSignerGate_def checkE_Inr Let_def)

lemma find_summary:
  "find (\<lambda>a. asWorkId a = wid) (attemptSummaries c) = Some x \<Longrightarrow> asWorkId x = wid \<and> holdsWork c wid (asAttemptId x)"
  "find (\<lambda>a. asWorkId a = wid) (attemptSummaries c) = None \<longleftrightarrow>
     wid \<notin> attemptWorkId ` set (currentAttempts (current c))"
proof -
  assume "find (\<lambda>a. asWorkId a = wid) (attemptSummaries c) = Some x"
  then have "x \<in> set (attemptSummaries c)" "asWorkId x = wid" by (auto simp: find_Some_iff in_set_conv_nth)
  then show "asWorkId x = wid \<and> holdsWork c wid (asAttemptId x)"
    by (auto simp: attemptSummaries_def holdsWork_def)
qed (auto simp: find_None_iff attemptSummaries_def)

lemma admit_decides:
  fixes w :: 'w
  assumes "isPositiveSafeInteger (capacity c)"
  shows "wp (readSigner (\<lambda>c g.
     if \<not> statusOpen c g then
       (case gatePrimaryReason g of
          None \<Rightarrow> throw (PlainError ''Signer gate is closed without a reported blocker.'')
        | Some p \<Rightarrow> ret (Some (DeferredWork p (p # drop 1 (gateBlockers g)))))
     else
       (case find (\<lambda>a. asWorkId a = wid) (attemptSummaries c) of
          Some a \<Rightarrow> ret (Some (RetainedWork (asWorkId a) (asAttemptId a)))
        | None \<Rightarrow> ret None)))
     (\<lambda>r s. s = (b, k, c, w) \<and> admitted c wid r) (\<lambda>_ s. s = (b, k, c, w)) (b, k, c, w)"
proof (rule wp_readSigner [OF assms])
  fix g assume g: "coordinatorGate c = Inr g"
  show "wp (if \<not> statusOpen c g then
       (case gatePrimaryReason g of
          None \<Rightarrow> throw (PlainError ''Signer gate is closed without a reported blocker.'')
        | Some p \<Rightarrow> ret (Some (DeferredWork p (p # drop 1 (gateBlockers g)))))
     else
       (case find (\<lambda>a. asWorkId a = wid) (attemptSummaries c) of
          Some a \<Rightarrow> ret (Some (RetainedWork (asWorkId a) (asAttemptId a)))
        | None \<Rightarrow> ret None))
     (\<lambda>r s. s = (b, k, c, w) \<and> admitted c wid r) (\<lambda>_ s. s = (b, k, c, w)) (b, k, c, w)"
  proof (cases "statusOpen c g")
    case True
    then show ?thesis
      using g find_summary(1) [of wid c] find_summary(2) [of wid c]
      by (cases "find (\<lambda>a. asWorkId a = wid) (attemptSummaries c)") (simp_all add: wp_ret admitted_def)
  next
    case False
    then show ?thesis
      using g gate_reasons_head [OF g]
      by (cases "gatePrimaryReason g") (simp_all add: wp_ret wp_throw admitted_def)
  qed
qed

lemma reconciled_calm:
  fixes M :: "'w manager_env"
  assumes "calm (envViem (mgrCoordinator M)) c" and "managerRun (mgrCoordinator M) p n (b, k, c, w) (b', k', d, v)"
  shows "calm (envViem (mgrCoordinator M)) d"
  using assms coRun_kept by (fastforce simp: managerRun_def cycleRun_def boundedRun_def stepKept_def)

lemma wp_steps:
  assumes "stepsIn R m" and "\<And>x t. R s t \<Longrightarrow> Q x t" and "\<And>e t. R s t \<Longrightarrow> E e t"
  shows "wp m Q E s"
  by (rule wpI) (use assms in \<open>auto dest: stepsInD\<close>)

lemma admitWork_wp:
  fixes M :: "'w manager_env"
  assumes c: "calm (envViem (mgrCoordinator M)) c"
  shows "wp (admitWork M wid a cy) (\<lambda>r (b', k', d, v). b' = b \<and> admitted d wid r) (\<lambda>_ (b', k', d, v). b' = b) (b, k, c, w)"
    (is "wp _ ?Q ?T _")
proof -
  have "wp (inner (reconcileSelectedHeadsOwned M a cy))
     (\<lambda>_ (b', k', d, v). b' = b \<and> calm (envViem (mgrCoordinator M)) d) ?T (b, k, c, w)"
    unfolding wp_onWorld
    by (rule wp_steps [OF reconcileSelectedHeadsOwned_run])
      (use reconciled_calm [OF c] in \<open>auto simp: managerRun_def\<close>)
  then show ?thesis
    unfolding admitWork_def
  proof (intro wp_seqI wp_checkAborted, elim wp_mono)
    fix x and t :: "'w mstate"
    assume "case t of (b', k', d, v) \<Rightarrow> b' = b \<and> calm (envViem (mgrCoordinator M)) d"
    then obtain k' d v where t: "t = (b, k', d, v)" and d: "calm (envViem (mgrCoordinator M)) d" by auto
    have "isPositiveSafeInteger (capacity d)" using d restInv_capacity by (auto simp: calm_def)
    then show "wp (andThen (checkAborted a) (\<lambda>_. readSigner (\<lambda>c g.
     if \<not> statusOpen c g then
       (case gatePrimaryReason g of
          None \<Rightarrow> throw (PlainError ''Signer gate is closed without a reported blocker.'')
        | Some p \<Rightarrow> ret (Some (DeferredWork p (p # drop 1 (gateBlockers g)))))
     else
       (case find (\<lambda>a. asWorkId a = wid) (attemptSummaries c) of
          Some a \<Rightarrow> ret (Some (RetainedWork (asWorkId a) (asAttemptId a)))
        | None \<Rightarrow> ret None)))) ?Q ?T t"
      unfolding t by (intro wp_seqI wp_checkAborted wp_mono [OF admit_decides]) auto
  qed simp_all
qed

text \<open>The results of a submission, from the coordinator \<open>c\<close> after the recovery to the final one.\<close>

fun submissionResult :: "jstr \<Rightarrow> coordinator \<Rightarrow> coordinator \<Rightarrow> SubmitTransactionWorkResult \<Rightarrow> bool" where
  "submissionResult wid c d (SubmittedWork out) = (boWorkId out = wid \<and> sentOutcome c d wid (boAttempt out))"
| "submissionResult wid c d (DeferredWork p ps) =
     (d = c \<and> (\<exists>g. coordinatorGate c = Inr g \<and> \<not> statusOpen c g \<and> gatePrimaryReason g = Some p \<and> ps = gateBlockers g))"
| "submissionResult wid c d (RetainedWork wd aid) = (d = c \<and> wd = wid \<and> holdsWork c wid aid)"
| "submissionResult wid c d (SubmissionFailed e rec) =
     (case rec of
        RecordingRetained wd aid \<Rightarrow> wd = wid \<and> (\<exists>a. appendedWork c d wid a \<and> attemptId a = aid)
      | _ \<Rightarrow> current d = current c)"

lemma recording_tells:
  assumes "failedOutcome c d wid" and "wid \<notin> attemptWorkId ` set (currentAttempts (current c))"
  shows "submissionResult wid c d (SubmissionFailed e (captureSubmissionRecording d wid))"
  using assms(1)[unfolded failedOutcome_def]
proof
  assume same: "current d = current c"
  then have "find (\<lambda>a. attemptWorkId a = wid) (currentAttempts (current d)) = None"
    using assms(2) by (auto simp: find_None_iff)
  then show ?thesis using same by (auto simp: captureSubmissionRecording_def split: option.split)
next
  assume "\<exists>a. appendedWork c d wid a"
  then obtain a s where a: "appendedWork c d wid a" "attemptWorkId a = wid" and
    d: "current d = Present (appendAttempt s a)" and s: "wid \<notin> attemptWorkId ` set (attempts s)"
    by (auto simp: appendedWork_def)
  have "find (\<lambda>x. attemptWorkId x = wid) (xs @ [a]) = Some a" if "wid \<notin> attemptWorkId ` set xs" for xs
    using that a(2) by (induction xs) auto
  then have "find (\<lambda>x. attemptWorkId x = wid) (currentAttempts (current d)) = Some a"
    using s d by (simp add: currentAttempts_def appendAttempt_def)
  then show ?thesis using a by (auto simp: captureSubmissionRecording_def)
qed

lemma sendCaught_wp:
  fixes M :: "'w manager_env"
  assumes "calm (envViem (mgrCoordinator M)) c" and "wid \<notin> attemptWorkId ` set (currentAttempts (current c))"
  shows "wp (tryCatch (sendWork M call wid a cy) (\<lambda>e. readManager (\<lambda>c. ret (SubmissionFailed e (captureSubmissionRecording c wid)))))
    (\<lambda>r (b', k', d, v). submissionResult wid c d r) (\<lambda>_ _. False) (b, k, c, w)"
  unfolding wp_tryCatch
proof (rule wp_mono [OF sendWork_wp [OF _ refl]])
  show "restInv (envViem (mgrCoordinator M)) c" using assms(1) by (simp add: calm_def)
  fix e and t :: "'w mstate"
  assume "case t of (b', k', d, v) \<Rightarrow> b' = b \<and> failedOutcome c d wid"
  then obtain k' d v where t: "t = (b, k', d, v)" "failedOutcome c d wid" by auto
  from recording_tells [OF t(2) assms(2)]
  show "wp (readManager (\<lambda>c. ret (SubmissionFailed e (captureSubmissionRecording c wid))))
      (\<lambda>r (b', k', d, v). submissionResult wid c d r) (\<lambda>_ _. False) t"
    by (simp add: t(1) readManager_def wp_def ret_def)
qed auto

text \<open>The whole submission: the coordinator \<open>d\<close> its recovery left, and the result from there.\<close>

lemma admitted_result: "admitted d wid (Some x) \<Longrightarrow> submissionResult wid d d x"
  by (cases x) (auto simp: admitted_def)

lemma submitBody_outcome:
  fixes M :: "'w manager_env"
  assumes c: "calm (envViem (mgrCoordinator M)) c"
    and run: "submitBody M call wid a cy (b, k, c, w) = (r, t)"
  shows "\<exists>x d v ls. r = Inr x \<and> coRun (mgrCoordinator M) (c, w) ls (d, v) \<and> preparedIn ls = [] \<and>
    length (sentIn ls) \<le> 1 \<and> submissionResult wid d (fst (snd (snd t))) x"
proof -
  obtain r1 k1 d v where adm: "admitWork M wid a cy (b, k, c, w) = (r1, (b, k1, d, v))" and
    dec: "\<And>x. r1 = Inr x \<Longrightarrow> admitted d wid x"
    using admitWork_wp [OF c, of wid a cy b k w] by (cases "admitWork M wid a cy (b, k, c, w)") (auto simp: wp_def split: sum.splits)
  from stepsInD [OF admitWork_run adm] obtain ls where ls: "coRun (mgrCoordinator M) (c, w) ls (d, v)"
    "preparedIn ls = []" "length (sentIn ls) \<le> 1"
    by (auto simp: managerRun_def cycleRun_def boundedRun_def)
  have dc: "calm (envViem (mgrCoordinator M)) d"
    by (rule reconciled_calm [OF c stepsInD [OF admitWork_run adm]])
  have quick: ?thesis if "tryCatch (admitWork M wid a cy) (\<lambda>e. ret (Some (SubmissionFailed e RecordingNone))) (b, k, c, w) =
      (Inr (Some x), (b, k1, d, v))" "submissionResult wid d d x" for x
  proof -
    have "r = Inr x \<and> t = (b, k1, d, v)" using run that(1) by (simp add: submitBody_def andThen_def ret_def)
    then show ?thesis using ls that(2) by auto
  qed
  consider e where "r1 = Inl e" | x where "r1 = Inr (Some x)" | "r1 = Inr None" by (cases r1) auto
  then show ?thesis
  proof cases
    case (1 e)
    then show ?thesis using adm by (intro quick [of "SubmissionFailed e RecordingNone"]) (simp_all add: tryCatch_def ret_def)
  next
    case (2 x)
    show ?thesis by (rule quick [OF _ admitted_result [OF dec [OF 2]]]) (simp add: tryCatch_def adm 2)
  next
    case 3
    then have new: "wid \<notin> attemptWorkId ` set (currentAttempts (current d))"
      using dec [of None] by (auto simp: admitted_def)
    from run adm 3 have "tryCatch (sendWork M call wid a cy)
        (\<lambda>e. readManager (\<lambda>c. ret (SubmissionFailed e (captureSubmissionRecording c wid)))) (b, k1, d, v) = (r, t)"
      by (simp add: submitBody_def andThen_def tryCatch_def)
    with sendCaught_wp [OF dc new, of call a cy b k1 v] obtain x where
      "r = Inr x" "submissionResult wid d (fst (snd (snd t))) x"
      by (cases r) (auto simp: wp_def split: prod.splits)
    then show ?thesis using ls by blast
  qed
qed

lemma submit_outcome:
  fixes M :: "'w manager_env"
  assumes c: "calm (envViem (mgrCoordinator M)) c"
    and run: "submit M call wid a cy (False, k, c, w) = (r, (b', k', c', w'))"
  shows "\<not> b' \<and> (\<exists>x d v ls. r = Inr x \<and> coRun (mgrCoordinator M) (c, w) ls (d, v) \<and> preparedIn ls = [] \<and>
    length (sentIn ls) \<le> 1 \<and> submissionResult wid d c' x)"
proof -
  obtain r1 b1 k1 c1 w1 where body: "submitBody M call wid a cy (True, k, c, w) = (r1, (b1, k1, c1, w1))"
    by (metis prod.exhaust)
  have "enterManager (False, k, c, w) = (Inr (), (True, k, c, w))"
    by (simp add: enterManager_def andThen_def getState_def unlessThrow_def ret_def modifyState_def)
  with run body have "r1 = r \<and> c1 = c' \<and> \<not> b'"
    by (simp add: submit_def andThen_def tryFinally_def leaveManager_def)
  then show ?thesis using submitBody_outcome [OF c body] by simp
qed

end
