(* ===== verification/ManagerClaims.thy ===== *)
theory ManagerClaims
  imports SubmissionProofs SampleWorld CycleClaims
begin

text \<open>The properties of the transaction manager.\<close>

text \<open>
  C29: whatever state the manager is in and however its calls end, a submission is a run of the
  coordinator that prepares at most one attempt and sends at most two transactions (one of them the
  recovery's), and a reconciliation is a run that prepares nothing and sends at most one.
\<close>

theorem manager_refines_coordinator:
  "(\<exists>ls. coRun (mgrCoordinator M) s ls (snd (snd (snd (submit M call wid a cy (b, k, s))))) \<and>
      length (preparedIn ls) \<le> 1 \<and> length (sentIn ls) \<le> 2) \<and>
   (\<exists>ls. coRun (mgrCoordinator M) s ls (snd (snd (snd (reconcile M head durable a cy (b, k, s))))) \<and>
      preparedIn ls = [] \<and> length (sentIn ls) \<le> 1)"
proof
  obtain r t where "submit M call wid a cy (b, k, s) = (r, t)" by (metis surj_pair)
  from stepsInD [OF submit_run this] this
  show "\<exists>ls. coRun (mgrCoordinator M) s ls (snd (snd (snd (submit M call wid a cy (b, k, s))))) \<and>
      length (preparedIn ls) \<le> 1 \<and> length (sentIn ls) \<le> 2"
    by (simp add: managerRun_def cycleRun_def boundedRun_def)
  obtain q u where "reconcile M head durable a cy (b, k, s) = (q, u)" by (metis surj_pair)
  from stepsInD [OF reconcile_run this] this
  show "\<exists>ls. coRun (mgrCoordinator M) s ls (snd (snd (snd (reconcile M head durable a cy (b, k, s))))) \<and>
      preparedIn ls = [] \<and> length (sentIn ls) \<le> 1"
    by (simp add: managerRun_def cycleRun_def boundedRun_def)
qed

text \<open>
  C30: a submission on an idle manager leaves it idle and always has a result. Its recovery is a run
  of the coordinator that prepares nothing; from the state that run leaves, ``submitted'' means that
  one attempt for the work was appended with the journal's next nonce and is marked as possibly
  broadcast, ``deferred'' that nothing changed and the gate is closed for exactly the reported reasons,
  ``already-retained'' that nothing changed and the journal holds the work; and a failure reports a
  retained attempt just when this submission appended it, and otherwise left the journal unchanged.
\<close>

theorem submission_results:
  assumes "calm (envViem (mgrCoordinator M)) c"
    and "submit M call wid a cy (False, k, c, w) = (r, (b', k', c', w'))"
  shows "\<not> b' \<and> (\<exists>x d v ls. r = Inr x \<and> coRun (mgrCoordinator M) (c, w) ls (d, v) \<and> preparedIn ls = [] \<and>
    length (sentIn ls) \<le> 1 \<and> submissionResult wid d c' x)"
  by (rule submit_outcome [OF assms])

definition sampleManager :: "sample_world manager_env" where
  "sampleManager =
     \<lparr>mgrCycle = sampleCycleEnv, mgrClient = sampleClient,
      mgrRequest = (\<lambda>_ _ _ _ _. throw (PlainError ''request'')), mgrAccount = sampleAccount,
      mgrReadHeads = (\<lambda>w. (Inr \<lparr>latestBlock = 20, durableBlock = 10\<rparr>, w)), mgrMaxRange = 100,
      mgrOnRecovery = None\<rparr>"

theorem submission_results_witness:
  "\<exists>x k' d c' w'. submit sampleManager \<lparr>callTo = js ''0x'', callData = js ''0x'', callValue = 0, callGas = None\<rparr>
      (js ''round:7'') (\<lambda>_. False) None (False, sampleCycle, openCoordinator, sampleWorld) =
        (Inr x, (False, k', c', w')) \<and> submissionResult (js ''round:7'') d c' x"
proof -
  let ?run = "submit sampleManager \<lparr>callTo = js ''0x'', callData = js ''0x'', callValue = 0, callGas = None\<rparr>
    (js ''round:7'') (\<lambda>_. False) None (False, sampleCycle, openCoordinator, sampleWorld)"
  obtain r b' k' c' w' where run: "?run = (r, (b', k', c', w'))" by (metis prod.exhaust)
  have "calm (envViem (mgrCoordinator sampleManager)) openCoordinator"
    by (simp add: samples sampleManager_def sampleCycleEnv_def)
  from submission_results [OF this run] run show ?thesis by auto
qed

end
