(* ===== verification/FileSystem.thy ===== *)
theory FileSystem
  imports Json "HOL-Library.AList"
begin

text \<open>
  The part of \<^verbatim>\<open>node:fs/promises\<close> the stores use, on one directory, with the failures that matter to
  them: any operation may fail, and the machine may stop at any operation. What a stopped machine
  finds again is what POSIX promises: a file's bytes once they are synchronised, and a directory
  entry as it was at the last synchronisation of the directory or at any change since.
\<close>

subsection \<open>State\<close>

text \<open>
  Text that was written as UTF-8, or bytes that are no UTF-8 text, with their number and the text a
  decoder makes of them that replaces what it cannot decode.
\<close>

datatype file_content = Utf8Text jstr | OtherBytes nat jstr

datatype fault = Works | Fails exn | FailsLate exn | Stops

text \<open>
  \<open>fsLost\<close> are the entries of a name since the directory was synchronised last, other than the
  current one. \<open>fsFaults\<close> says what happens to the operation with a given number: it works, it fails
  without effect, it fails although it had its effect, or the machine stops before it. After a stop
  no operation has an effect. No fault is reported as a missing file.
\<close>

record file_system =
  fsEntries :: "(jstr \<times> nat) list"
  fsLost :: "jstr \<Rightarrow> nat option list"
  fsContent :: "nat \<Rightarrow> file_content"
  fsRegular :: "nat \<Rightarrow> bool"
  fsSynced :: "nat \<Rightarrow> bool"
  fsNext :: nat
  fsFaults :: "nat \<Rightarrow> fault"
  fsClock :: nat
  fsDown :: bool

definition entryOf :: "file_system \<Rightarrow> jstr \<Rightarrow> nat option" where
  "entryOf fs name = map_of (fsEntries fs) name"

definition fileAt :: "file_system \<Rightarrow> jstr \<Rightarrow> file_content option" where
  "fileAt fs name = map_option (fsContent fs) (entryOf fs name)"

text \<open>Whether a restart after a stop in this state may find \<open>x\<close> under the name.\<close>

definition mayFind :: "file_system \<Rightarrow> jstr \<Rightarrow> file_content option \<Rightarrow> bool" where
  "mayFind fs name x =
     list_ex (\<lambda>e. case e of
         None \<Rightarrow> x = None
       | Some i \<Rightarrow> (case x of None \<Rightarrow> False | Some c \<Rightarrow> fsSynced fs i \<longrightarrow> c = fsContent fs i))
       (entryOf fs name # fsLost fs name)"

definition setEntry :: "jstr \<Rightarrow> nat option \<Rightarrow> file_system \<Rightarrow> file_system" where
  "setEntry name e fs =
     fs\<lparr>fsEntries := (case e of None \<Rightarrow> AList.delete name (fsEntries fs) | Some i \<Rightarrow> AList.update name i (fsEntries fs)),
        fsLost := (fsLost fs)(name := entryOf fs name # fsLost fs name)\<rparr>"

subsection \<open>Operations\<close>

definition reported :: "exn \<Rightarrow> exn" where
  "reported e = (if e = NodeError ''ENOENT'' then NodeError ''EIO'' else e)"

definition fsOp :: "(file_system \<Rightarrow> (exn + 'a) \<times> file_system) \<Rightarrow> (file_system, 'a) io" where
  "fsOp f fs =
     (if fsDown fs then (Inl (NodeError ''stopped''), fs)
      else
        let gs = fs\<lparr>fsClock := fsClock fs + 1\<rparr> in
        case fsFaults fs (fsClock fs) of
          Works \<Rightarrow> f gs
        | Fails e \<Rightarrow> (Inl (reported e), gs)
        | FailsLate e \<Rightarrow> (case f gs of (_, hs) \<Rightarrow> (Inl (reported e), hs))
        | Stops \<Rightarrow> (Inl (NodeError ''stopped''), gs\<lparr>fsDown := True\<rparr>))"

text \<open>Opening the directory, and closing any handle, has no effect of its own.\<close>

definition fsNothing :: "(file_system, unit) io" where
  "fsNothing = fsOp (\<lambda>fs. (Inr (), fs))"

text \<open>\<^verbatim>\<open>open(name, 'wx')\<close>: a new empty file, never an existing one.\<close>

definition fsCreate :: "jstr \<Rightarrow> (file_system, nat) io" where
  "fsCreate name =
     fsOp (\<lambda>fs. case entryOf fs name of
        Some _ \<Rightarrow> (Inl (NodeError ''EEXIST''), fs)
      | None \<Rightarrow>
          let i = fsNext fs in
          (Inr i, (setEntry name (Some i) fs)\<lparr>fsNext := i + 1, fsContent := (fsContent fs)(i := Utf8Text []),
             fsRegular := (fsRegular fs)(i := True), fsSynced := (fsSynced fs)(i := False)\<rparr>))"

text \<open>Writing as UTF-8 replaces unpaired surrogates.\<close>

fun toWellFormed :: "jstr \<Rightarrow> jstr" where
  "toWellFormed [] = []"
| "toWellFormed [u] = (if isLeadSurrogate u \<or> isTrailSurrogate u then [0xFFFD] else [u])"
| "toWellFormed (u # v # r) =
     (if isLeadSurrogate u \<and> isTrailSurrogate v then u # v # toWellFormed r
      else (if isLeadSurrogate u \<or> isTrailSurrogate u then 0xFFFD else u) # toWellFormed (v # r))"

definition fsWrite :: "nat \<Rightarrow> jstr \<Rightarrow> (file_system, unit) io" where
  "fsWrite i text =
     fsOp (\<lambda>fs. (Inr (), fs\<lparr>fsContent := (fsContent fs)(i := Utf8Text (toWellFormed text)),
       fsSynced := (fsSynced fs)(i := False)\<rparr>))"

definition fsSync :: "nat \<Rightarrow> (file_system, unit) io" where
  "fsSync i = fsOp (\<lambda>fs. (Inr (), fs\<lparr>fsSynced := (fsSynced fs)(i := True)\<rparr>))"

definition fsRename :: "jstr \<Rightarrow> jstr \<Rightarrow> (file_system, unit) io" where
  "fsRename old new =
     fsOp (\<lambda>fs. case entryOf fs old of
        None \<Rightarrow> (Inl (NodeError ''ENOENT''), fs)
      | Some i \<Rightarrow> (Inr (), setEntry old None (setEntry new (Some i) fs)))"

definition fsSyncDirectory :: "(file_system, unit) io" where
  "fsSyncDirectory = fsOp (\<lambda>fs. (Inr (), fs\<lparr>fsLost := (\<lambda>_. [])\<rparr>))"

definition fsUnlink :: "jstr \<Rightarrow> (file_system, unit) io" where
  "fsUnlink name =
     fsOp (\<lambda>fs. case entryOf fs name of
        None \<Rightarrow> (Inl (NodeError ''ENOENT''), fs)
      | Some _ \<Rightarrow> (Inr (), setEntry name None fs))"

text \<open>A handle for reading is the number of the file; \<open>fsRead\<close> reads it to its end.\<close>

definition fsOpen :: "jstr \<Rightarrow> (file_system, nat) io" where
  "fsOpen name =
     fsOp (\<lambda>fs. case entryOf fs name of
        None \<Rightarrow> (Inl (NodeError ''ENOENT''), fs)
      | Some i \<Rightarrow> (Inr i, fs))"

definition fsRead :: "nat \<Rightarrow> (file_system, file_content) io" where
  "fsRead i = fsOp (\<lambda>fs. (Inr (fsContent fs i), fs))"

definition fsNames :: "(file_system, jstr list) io" where
  "fsNames = fsOp (\<lambda>fs. (Inr (map fst (fsEntries fs)), fs))"

record file_stat =
  statIsFile :: bool
  statLinks :: nat
  statSize :: nat

fun contentSize :: "file_content \<Rightarrow> nat" where
  "contentSize (Utf8Text s) = utf8Length s"
| "contentSize (OtherBytes n t) = n"

definition statOf :: "file_system \<Rightarrow> nat \<Rightarrow> file_stat" where
  "statOf fs i =
     \<lparr>statIsFile = fsRegular fs i, statLinks = length (filter (\<lambda>(_, j). j = i) (fsEntries fs)),
      statSize = contentSize (fsContent fs i)\<rparr>"

definition fsStat :: "nat \<Rightarrow> (file_system, file_stat) io" where
  "fsStat i = fsOp (\<lambda>fs. (Inr (statOf fs i), fs))"

definition fsLstat :: "jstr \<Rightarrow> (file_system, file_stat) io" where
  "fsLstat name =
     fsOp (\<lambda>fs. case entryOf fs name of
        None \<Rightarrow> (Inl (NodeError ''ENOENT''), fs)
      | Some i \<Rightarrow> (Inr (statOf fs i), fs))"

subsection \<open>What is always the case\<close>

text \<open>Files that a name refers to, or may refer to after a stop, are older than the next one.\<close>

definition fsOk :: "file_system \<Rightarrow> bool" where
  "fsOk fs = (\<forall>name i. Some i \<in> set (entryOf fs name # fsLost fs name) \<longrightarrow> i < fsNext fs)"

lemma fsOk_entry: "fsOk fs \<Longrightarrow> entryOf fs name = Some i \<Longrightarrow> i < fsNext fs"
  unfolding fsOk_def by (metis list.set_intros(1))

lemma mayFind_now: "mayFind fs name (fileAt fs name)"
  by (cases "entryOf fs name") (simp_all add: mayFind_def fileAt_def)

lemma entryOf_setEntry: "entryOf (setEntry name e fs) = (entryOf fs)(name := e)"
  by (cases e) (auto simp: entryOf_def setEntry_def update_conv' delete_conv' fun_eq_iff)

lemma reported_present: "reported e \<noteq> NodeError ''ENOENT''"
  by (simp add: reported_def)

text \<open>The rule of an operation: it failed with or without its effect, or it did what it does.\<close>

lemma wp_fsOp:
  assumes "\<And>e d k. e \<noteq> NodeError ''ENOENT'' \<Longrightarrow> E e (fs\<lparr>fsClock := k, fsDown := d\<rparr>)"
    and "\<And>e k. e \<noteq> NodeError ''ENOENT'' \<Longrightarrow> wp f (\<lambda>_. E e) (\<lambda>_. E e) (fs\<lparr>fsClock := k\<rparr>)"
    and "\<And>k. wp f Q E (fs\<lparr>fsClock := k\<rparr>)"
  shows "wp (fsOp f) Q E fs"
proof (cases "fsDown fs")
  case True
  have "fs\<lparr>fsClock := fsClock fs, fsDown := fsDown fs\<rparr> = fs" by simp
  then have "E e fs" if "e \<noteq> NodeError ''ENOENT''" for e using assms(1) [OF that, of "fsDown fs" "fsClock fs"] by metis
  then show ?thesis using True by (simp add: wp_def fsOp_def)
next
  case False
  show ?thesis
  proof (cases "fsFaults fs (fsClock fs)")
    case Works
    then show ?thesis using False assms(3) [of "fsClock fs + 1"] by (simp add: wp_def fsOp_def)
  next
    case (Fails e)
    have "fs\<lparr>fsClock := fsClock fs + 1, fsDown := fsDown fs\<rparr> = fs\<lparr>fsClock := fsClock fs + 1\<rparr>" by simp
    then have "E (reported e) (fs\<lparr>fsClock := fsClock fs + 1\<rparr>)"
      using assms(1) [OF reported_present, of e "fsDown fs" "fsClock fs + 1"] by metis
    then show ?thesis using Fails False by (simp add: wp_def fsOp_def)
  next
    case (FailsLate e)
    then show ?thesis using False assms(2) [OF reported_present, of e "fsClock fs + 1"]
      by (simp add: wp_def fsOp_def split: prod.splits sum.splits)
  next
    case Stops
    then show ?thesis using False assms(1) [of _ True "fsClock fs + 1"] by (simp add: wp_def fsOp_def)
  qed
qed

text \<open>With what is kept on every failure as one predicate that the clock does not change.\<close>

lemma fs_rule:
  assumes "I fs" and "\<And>g k d. I g \<Longrightarrow> I (g\<lparr>fsClock := k, fsDown := d\<rparr>)"
    and "\<And>k. wp f (\<lambda>x gs. I gs \<and> Q x gs) (\<lambda>_. I) (fs\<lparr>fsClock := k\<rparr>)"
    and "\<And>e gs. I gs \<Longrightarrow> E e gs"
  shows "wp (fsOp f) Q E fs"
  by (rule wp_fsOp) (auto intro!: assms(4) assms(2) [OF assms(1)] intro: wp_mono [OF assms(3)])

end
