(* ===== verification/IndentedJson.thy ===== *)
theory IndentedJson
  imports JsonProofs FileSystem
begin

text \<open>
  \<^verbatim>\<open>JSON.stringify(value, null, 2)\<close>: the text with two spaces of indentation, which parses back to the
  value, and the fact that printed JSON is well-formed UTF-16, so that writing it as UTF-8 keeps it.
\<close>

subsection \<open>Printing\<close>

fun joinLines :: "jstr \<Rightarrow> jstr list \<Rightarrow> jstr" where
  "joinLines indent [] = []"
| "joinLines indent [t] = 10 # indent @ t"
| "joinLines indent (t # ts) = 10 # indent @ t @ [44] @ joinLines indent ts"

fun printIndented :: "number_format \<Rightarrow> jstr \<Rightarrow> json \<Rightarrow> jstr" where
  "printIndented N indent (JsonArray vs) =
     (if vs = [] then [91, 93]
      else [91] @ joinLines (indent @ [32, 32]) (map (printIndented N (indent @ [32, 32])) vs) @ [10] @ indent @ [93])"
| "printIndented N indent (JsonObject ms) =
     (if ms = [] then [123, 125]
      else [123] @ joinLines (indent @ [32, 32])
             (map (\<lambda>(k, v). quoteString k @ [58, 32] @ printIndented N (indent @ [32, 32]) v) ms) @ [10] @ indent @ [125])"
| "printIndented N indent j = printJson N j"

subsection \<open>Parsing what is printed\<close>

definition blank :: "jstr \<Rightarrow> bool" where
  "blank s = list_all isWhite s"

lemma skipWhite_blank: "blank b \<Longrightarrow> skipWhite (b @ s) = skipWhite s"
  by (simp add: blank_def skipWhite_def dropWhile_append list_all_iff)

lemma blank_indent [simp]: "blank [] " "blank (10 # b) = blank b" "blank (32 # b) = blank b" "blank (a @ b) = (blank a \<and> blank b)"
  by (simp_all add: blank_def isWhite_def)

lemma parseValue_blank: "blank b \<Longrightarrow> parseValue N (b @ s) = parseValue N s"
  using skipWhite_blank [of b s] parseValue.simps [of N "b @ s"] parseValue.simps [of N s] by simp

definition indentedBack :: "number_format \<Rightarrow> json \<Rightarrow> bool" where
  "indentedBack N j = (\<forall>indent r. blank indent \<longrightarrow> stops r \<longrightarrow> parseValue N (printIndented N indent j @ r) = Some (j, r))"

lemma joinLines_Cons: "ts \<noteq> [] \<Longrightarrow> joinLines indent (t # ts) = 10 # indent @ t @ [44] @ joinLines indent ts"
  by (cases ts) simp_all

lemma skipWhite_line: "blank indent \<Longrightarrow> skipWhite (10 # indent @ s) = skipWhite s"
  using skipWhite_blank [of "10 # indent" s] by simp

lemma parseElements_indented:
  assumes "xs \<noteq> []" "\<forall>x \<in> set xs. indentedBack N x" and b: "blank indent" "blank outdent"
  shows "parseElements N (joinLines indent (map (printIndented N indent) xs) @ 10 # outdent @ 93 # r) = Some (xs, r)"
  using assms(1,2)
proof (induction xs)
  case (Cons x xs)
  have x: "parseValue N (10 # indent @ printIndented N indent x @ t) = Some (x, t)" if "stops t" for t
  proof -
    have "parseValue N (printIndented N indent x @ t) = Some (x, t)"
      using Cons.prems b that by (simp add: indentedBack_def)
    then show ?thesis using parseValue_blank [of "10 # indent" N "printIndented N indent x @ t"] b by simp
  qed
  show ?case
  proof (cases "xs = []")
    case True
    have "stops (10 # outdent @ 93 # r)" by (simp add: stops_def)
    then show ?thesis
      using True parseElements.simps [of N "10 # indent @ printIndented N indent x @ 10 # outdent @ 93 # r"]
      by (simp add: x skipWhite_line b isWhite_def)
  next
    case False
    define t where "t = joinLines indent (map (printIndented N indent) xs) @ 10 # outdent @ 93 # r"
    have more: "parseElements N t = Some (xs, r)" unfolding t_def by (rule Cons.IH) (use False Cons.prems in auto)
    have "joinLines indent (map (printIndented N indent) (x # xs)) @ 10 # outdent @ 93 # r =
        10 # indent @ printIndented N indent x @ 44 # t"
      using False by (simp add: joinLines_Cons t_def)
    then show ?thesis
      by (simp only: parseElements.simps [of N "10 # indent @ printIndented N indent x @ 44 # t"])
        (simp add: x more isWhite_def)
  qed
qed simp

lemma parseMembers_indented:
  assumes "ms \<noteq> []" "\<forall>(k, x) \<in> set ms. indentedBack N x" and b: "blank indent" "blank outdent"
  shows "parseMembers N (joinLines indent (map (\<lambda>(k, v). quoteString k @ [58, 32] @ printIndented N indent v) ms) @
      10 # outdent @ 125 # r) = Some (ms, r)"
  using assms(1,2)
proof (induction ms)
  case (Cons m ms)
  obtain k x where m: "m = (k, x)" by (cases m)
  have one: "parseMembers N (10 # indent @ quoteString k @ [58, 32] @ printIndented N indent x @ w @ u # t) =
      (if u = 125 then Some ([(k, x)], t)
       else map_option (\<lambda>(ms, t). ((k, x) # ms, t)) (parseMembers N t))"
    if "u = 125 \<or> u = 44" "w = [] \<or> hd w = 10" "blank w" for u t w
  proof -
    let ?s = "34 # escapeUnits k @ 34 # 58 # 32 # printIndented N indent x @ w @ u # t"
    have eq: "10 # indent @ quoteString k @ [58, 32] @ printIndented N indent x @ w @ u # t = (10 # indent) @ ?s"
      by (simp add: quoteString_def)
    have "stops (w @ u # t)" using that(1,2) by (cases w) (auto simp: stops_def)
    then have "parseValue N (printIndented N indent x @ w @ u # t) = Some (x, w @ u # t)"
      using Cons.prems b m by (simp add: indentedBack_def)
    then have v: "parseValue N (32 # printIndented N indent x @ w @ u # t) = Some (x, w @ u # t)"
      using parseValue_blank [of "[32]" N "printIndented N indent x @ w @ u # t"] by simp
    have u: "\<not> isWhite u" using that(1) by (auto simp: isWhite_def)
    have "skipWhite (w @ u # t) = u # t" using u by (simp add: skipWhite_blank [OF that(3)])
    moreover have "skipWhite ((10 # indent) @ ?s) = ?s" using skipWhite_line [OF b(1), of ?s] by (simp add: isWhite_def)
    ultimately show ?thesis
      unfolding eq using that(1) u v parseMembers.simps [of N "(10 # indent) @ ?s"]
      by (auto simp: isWhite_def parseChars_escaped)
  qed
  show ?case
  proof (cases "ms = []")
    case True
    then show ?thesis using one [of 125 "10 # outdent" r] b by (simp add: m)
  next
    case False
    define t where "t = joinLines indent (map (\<lambda>(k, v). quoteString k @ [58, 32] @ printIndented N indent v) ms) @
        10 # outdent @ 125 # r"
    have more: "parseMembers N t = Some (ms, r)" unfolding t_def by (rule Cons.IH) (use False Cons.prems in auto)
    have "joinLines indent (map (\<lambda>(k, v). quoteString k @ [58, 32] @ printIndented N indent v) (m # ms)) @
        10 # outdent @ 125 # r = 10 # indent @ quoteString k @ [58, 32] @ printIndented N indent x @ [] @ 44 # t"
      using False by (simp add: joinLines_Cons t_def m)
    then show ?thesis using one [of 44 "[]" t] more m by simp
  qed
qed simp

lemma joinLines_begins:
  assumes "ts \<noteq> []" "blank indent" "\<And>t r. t \<in> set ts \<Longrightarrow> begins (t @ r)"
  shows "\<exists>u t. skipWhite (joinLines indent ts @ r) = u # t \<and> u \<noteq> 93 \<and> u \<noteq> 125"
proof -
  obtain t ts' where ts: "ts = t # ts'" using assms(1) by (cases ts) auto
  obtain r' where "joinLines indent ts @ r = 10 # indent @ t @ r'"
    using ts by (cases ts') auto
  moreover have "begins (t @ r')" using assms(3) ts by simp
  ultimately show ?thesis using skipWhite_line [OF assms(2), of "t @ r'"] bracket_not_begins by simp
qed

lemma begins_indented: "exactIntegers N \<Longrightarrow> plainJson j \<Longrightarrow> begins (printIndented N indent j @ r)"
  using begins_print [of N j r] by (cases j) (auto simp: begins_def)

theorem parse_indented:
  assumes N: "exactIntegers N"
  shows "plainJson j \<Longrightarrow> indentedBack N j"
proof (induction j)
  case (JsonArray xs)
  have "parseValue N (printIndented N indent (JsonArray xs) @ r) = Some (JsonArray xs, r)" if b: "blank indent" for indent r
  proof (cases "xs = []")
    case True
    then show ?thesis by (simp add: parseValue.simps [of N "91 # _"] isWhite_def)
  next
    case False
    let ?t = "joinLines (indent @ [32, 32]) (map (printIndented N (indent @ [32, 32])) xs) @ 10 # indent @ 93 # r"
    have "\<And>t r. t \<in> set (map (printIndented N (indent @ [32, 32])) xs) \<Longrightarrow> begins (t @ r)"
      using JsonArray.prems begins_indented [OF N] by (auto simp: list_all_iff)
    then have "\<exists>u t. skipWhite ?t = u # t \<and> u \<noteq> 93 \<and> u \<noteq> 125"
      using False b by (intro joinLines_begins) auto
    then obtain u t where "skipWhite ?t = u # t" "u \<noteq> 93" by blast
    moreover have "parseElements N ?t = Some (xs, r)"
      by (rule parseElements_indented [OF False]) (use JsonArray b in \<open>auto simp: list_all_iff\<close>)
    ultimately show ?thesis using False parseValue.simps [of N "91 # ?t"] by (simp add: isWhite_def)
  qed
  then show ?case by (simp add: indentedBack_def)
next
  case (JsonObject ms)
  have "parseValue N (printIndented N indent (JsonObject ms) @ r) = Some (JsonObject ms, r)" if b: "blank indent" for indent r
  proof (cases "ms = []")
    case True
    then show ?thesis by (simp add: parseValue.simps [of N "123 # _"] isWhite_def)
  next
    case False
    let ?f = "\<lambda>(k, v). quoteString k @ [58, 32] @ printIndented N (indent @ [32, 32]) v"
    let ?t = "joinLines (indent @ [32, 32]) (map ?f ms) @ 10 # indent @ 125 # r"
    have "\<And>t r. t \<in> set (map ?f ms) \<Longrightarrow> begins (t @ r)" by (auto simp: begins_def quoteString_def)
    then have "\<exists>u t. skipWhite ?t = u # t \<and> u \<noteq> 93 \<and> u \<noteq> 125"
      using False b by (intro joinLines_begins) auto
    then obtain u t where "skipWhite ?t = u # t" "u \<noteq> 125" by blast
    moreover have "parseMembers N ?t = Some (ms, r)"
      by (rule parseMembers_indented [OF False]) (use JsonObject b in \<open>auto simp: list_all_iff\<close>)
    moreover have "objectOf ms = JsonObject ms" using JsonObject.prems by (intro objectOf_distinct) simp
    ultimately show ?thesis using False parseValue.simps [of N "123 # ?t"] by (simp add: isWhite_def)
  qed
  then show ?case by (simp add: indentedBack_def)
qed (insert parse_print [OF N], simp_all only: indentedBack_def parsesBack_def printIndented.simps, blast+)

subsection \<open>Well-formed text\<close>

lemma toWellFormed_id: "isWellFormed s \<Longrightarrow> toWellFormed s = s"
proof (induction s rule: isWellFormed.induct)
  case (3 c d cs)
  then show ?case by (cases "isLeadSurrogate c") (auto simp: isLeadSurrogate_def isTrailSurrogate_def)
qed auto

lemma isWellFormed_append: "isWellFormed a \<Longrightarrow> isWellFormed b \<Longrightarrow> isWellFormed (a @ b)"
proof (induction a rule: isWellFormed.induct)
  case (2 c)
  then show ?case by (cases b) auto
next
  case (3 c d cs)
  then show ?case by (cases "isLeadSurrogate c") auto
qed simp

lemma no_surrogates [simp]:
  "\<not> isLeadSurrogate 10" "\<not> isLeadSurrogate 32" "\<not> isLeadSurrogate 34" "\<not> isLeadSurrogate 44"
  "\<not> isLeadSurrogate 58" "\<not> isLeadSurrogate 91" "\<not> isLeadSurrogate 93" "\<not> isLeadSurrogate 123" "\<not> isLeadSurrogate 125"
  "\<not> isTrailSurrogate 10" "\<not> isTrailSurrogate 32" "\<not> isTrailSurrogate 34" "\<not> isTrailSurrogate 44"
  "\<not> isTrailSurrogate 58" "\<not> isTrailSurrogate 91" "\<not> isTrailSurrogate 93" "\<not> isTrailSurrogate 123" "\<not> isTrailSurrogate 125"
  by (simp_all add: isLeadSurrogate_def isTrailSurrogate_def)

text \<open>Text without surrogates.\<close>

definition plainUnit :: "16 word \<Rightarrow> bool" where
  "plainUnit u = (\<not> isLeadSurrogate u \<and> \<not> isTrailSurrogate u)"

lemma plain_wellFormed: "list_all plainUnit s \<Longrightarrow> isWellFormed s"
  by (induction s rule: isWellFormed.induct) (auto simp: plainUnit_def)

lemma plainUnit_small: "u < 0xD800 \<Longrightarrow> plainUnit u"
  by (auto simp: plainUnit_def isLeadSurrogate_def isTrailSurrogate_def word_le_nat_alt word_less_nat_alt)

lemma hexDigit_plain: "d < 16 \<Longrightarrow> plainUnit (hexDigit d)"
proof -
  assume "d < 16"
  then have "unat d < 16" by (simp add: word_less_nat_alt)
  then have "unat (48 + d) < 64" "unat (87 + d) < 128" by (unat_arith; simp)+
  then show ?thesis by (intro plainUnit_small) (simp add: hexDigit_def word_less_nat_alt)
qed

lemma unicodeEscape_plain: "list_all plainUnit (unicodeEscape u)"
proof -
  have small: "take_bit 4 w < 16" for w :: "16 word"
    by (simp add: take_bit_eq_mod word_less_nat_alt unat_mod)
  have "unat (drop_bit 12 u) < 16"
    using unsigned_less [of u, where 'a = nat] by (simp add: drop_bit_eq_div unat_div less_mult_imp_div_less)
  then have "drop_bit 12 u < 16" by (simp add: word_less_nat_alt)
  then show ?thesis using small by (simp add: unicodeEscape_def hexDigit_plain plainUnit_small)
qed

lemma escapeUnit_wellFormed: "plainUnit u \<Longrightarrow> isWellFormed (escapeUnit u)"
  using unicodeEscape_plain [of u]
  by (auto simp: escapeUnit_def plainUnit_small simp del: isWellFormed.simps intro!: plain_wellFormed)

lemma escapeUnits_wellFormed: "isWellFormed (escapeUnits s)"
proof (induction s rule: escapeUnits.induct)
  case (2 u)
  then show ?case
    using plain_wellFormed [OF unicodeEscape_plain] escapeUnit_wellFormed by (auto simp: plainUnit_def)
next
  case (3 u v r)
  show ?case
  proof (cases "isLeadSurrogate u \<and> isTrailSurrogate v")
    case True
    then show ?thesis using "3.IH"(1) by simp
  next
    case False
    have "isWellFormed (if isLeadSurrogate u \<or> isTrailSurrogate u then unicodeEscape u else escapeUnit u)"
      using plain_wellFormed [OF unicodeEscape_plain] escapeUnit_wellFormed by (auto simp: plainUnit_def)
    from isWellFormed_append [OF this "3.IH"(2) [OF False]] show ?thesis using False
      by (simp only: escapeUnits.simps if_False)
  qed
qed simp

lemma quoteString_wellFormed: "isWellFormed (quoteString s)"
  unfolding quoteString_def
  by (intro isWellFormed_append escapeUnits_wellFormed) (simp_all add: isLeadSurrogate_def isTrailSurrogate_def)

lemma showBigint_plain: "0 \<le> n \<Longrightarrow> isWellFormed (showBigint n)"
proof -
  assume n: "0 \<le> n"
  have "u < 0xD800" if "isDigitUnit u" for u
  proof -
    have "u \<le> 57" using that by (simp add: isDigitUnit_def)
    then show ?thesis by (simp add: word_le_nat_alt word_less_nat_alt)
  qed
  then have "list_all plainUnit (showBigint n)"
    using isDecimalInteger_showBigint [OF n] by (auto simp: isDecimalInteger_def list_all_iff plainUnit_small)
  then show ?thesis by (rule plain_wellFormed)
qed

lemma blank_wellFormed: "blank s \<Longrightarrow> isWellFormed s"
  by (rule plain_wellFormed) (auto simp: blank_def list_all_iff isWhite_def intro!: plainUnit_small)

lemma joinLines_wellFormed:
  "blank indent \<Longrightarrow> list_all isWellFormed ts \<Longrightarrow> isWellFormed (joinLines indent ts)"
proof (induction indent ts rule: joinLines.induct)
  case (2 indent t)
  then show ?case using isWellFormed_append [of "10 # indent" t] blank_wellFormed [of "10 # indent"] by simp
next
  case (3 indent t t' ts)
  have "isWellFormed [44]" by (simp add: isLeadSurrogate_def isTrailSurrogate_def)
  then have "isWellFormed ((10 # indent) @ t @ [44] @ joinLines indent (t' # ts))"
    using 3 blank_wellFormed [of "10 # indent"] by (intro isWellFormed_append) simp_all
  then show ?case by simp
qed simp

lemma commaJoin_wellFormed: "list_all isWellFormed ts \<Longrightarrow> isWellFormed (commaJoin ts)"
proof (induction ts rule: commaJoin.induct)
  case (3 t t' ts)
  have "isWellFormed [44]" by (simp add: isLeadSurrogate_def isTrailSurrogate_def)
  then show ?case using 3 unfolding commaJoin.simps by (intro isWellFormed_append) simp_all
qed simp_all

lemma small_wellFormed: "list_all (\<lambda>u. u < 0xD800) s \<Longrightarrow> isWellFormed s"
  by (rule plain_wellFormed) (auto simp: list_all_iff plainUnit_small)

lemma printJson_wellFormed:
  assumes N: "exactIntegers N"
  shows "plainJson j \<Longrightarrow> isWellFormed (printJson N j)"
proof (induction j)
  case (JsonNumber v)
  then have "isNonNegativeSafeInteger v" by simp
  then obtain n where "0 \<le> n" "printJson N (JsonNumber v) = showBigint n" by (rule number_shown [OF N])
  then show ?case by (simp add: showBigint_plain)
next
  case (JsonArray xs)
  have "isWellFormed ([91] @ commaJoin (map (printJson N) xs) @ [93])"
    using JsonArray by (intro isWellFormed_append commaJoin_wellFormed) (auto simp: list_all_iff)
  then show ?case by simp
next
  case (JsonObject ms)
  have "isWellFormed (quoteString k @ [58] @ printJson N v)" if "(k, v) \<in> set ms" for k v
    using JsonObject that by (intro isWellFormed_append quoteString_wellFormed) (auto simp: list_all_iff)
  then have "isWellFormed ([123] @ commaJoin (map (\<lambda>(k, v). quoteString k @ [58] @ printJson N v) ms) @ [125])"
    by (intro isWellFormed_append commaJoin_wellFormed) (auto simp: list_all_iff)
  then show ?case by simp
qed (simp_all add: js_null quoteString_wellFormed small_wellFormed del: isWellFormed.simps)

lemma printIndented_wellFormed:
  assumes N: "exactIntegers N"
  shows "plainJson j \<Longrightarrow> blank indent \<Longrightarrow> isWellFormed (printIndented N indent j)"
proof (induction j arbitrary: indent)
  case (JsonArray xs)
  have "isWellFormed (printIndented N (indent @ [32, 32]) x)" if "x \<in> set xs" for x
    using JsonArray that by (simp add: list_all_iff)
  then have "isWellFormed ([91] @ joinLines (indent @ [32, 32]) (map (printIndented N (indent @ [32, 32])) xs) @ [10] @ indent @ [93])"
    using JsonArray.prems blank_wellFormed [of indent]
    by (intro isWellFormed_append joinLines_wellFormed) (auto simp: list_all_iff)
  then show ?case by simp
next
  case (JsonObject ms)
  have "isWellFormed (quoteString k @ [58, 32] @ printIndented N (indent @ [32, 32]) v)" if "(k, v) \<in> set ms" for k v
    using JsonObject that by (intro isWellFormed_append quoteString_wellFormed) (auto simp: list_all_iff)
  then have "isWellFormed ([123] @ joinLines (indent @ [32, 32])
      (map (\<lambda>(k, v). quoteString k @ [58, 32] @ printIndented N (indent @ [32, 32]) v) ms) @ [10] @ indent @ [125])"
    using JsonObject.prems blank_wellFormed [of indent]
    by (intro isWellFormed_append joinLines_wellFormed) (auto simp: list_all_iff)
  then show ?case by simp
qed (insert printJson_wellFormed [OF N], simp_all only: printIndented.simps)

end
