(* ===== verification/DurableReplace.thy ===== *)
theory DurableReplace
  imports FileSystem
begin

text \<open>
  \<^verbatim>\<open>state/durable-replace.ts\<close>: replacing a file so that a stop at any moment leaves the old or the
  new contents. The local variables that decide what the error path cleans up are a record beside
  the state.
\<close>

subsection \<open>The procedure\<close>

datatype persistence_boundary = TempSynced | Renamed

record replace_locals =
  openFile :: "nat option"
  openDirectory :: bool
  ownsTemp :: bool

type_synonym 'w files = "file_system \<times> 'w"

type_synonym 'w boundary_hook = "(persistence_boundary \<Rightarrow> ('w, unit) io) option"

definition onFiles :: "(file_system, 'a) io \<Rightarrow> ('w files, 'a) io" where
  "onFiles m = (\<lambda>(fs, w). case m fs of (r, gs) \<Rightarrow> (r, (gs, w)))"

abbreviation inFiles :: "(file_system, 'a) io \<Rightarrow> (replace_locals \<times> 'w files, 'a) io" where
  "inFiles m \<equiv> onWorld (onFiles m)"

definition localLet :: "(replace_locals \<Rightarrow> replace_locals) \<Rightarrow> (replace_locals \<times> 'w files, unit) io" where
  "localLet f = modifyState (\<lambda>(l, s). (f l, s))"

definition atBoundary :: "'w boundary_hook \<Rightarrow> persistence_boundary \<Rightarrow> (replace_locals \<times> 'w files, unit) io" where
  "atBoundary hook b = (case hook of None \<Rightarrow> ret () | Some f \<Rightarrow> onWorld (onWorld (f b)))"

definition swallow :: "('s, unit) io \<Rightarrow> ('s, unit) io" where
  "swallow m = tryCatch m (\<lambda>_. ret ())"

definition replaceBody ::
  "'w boundary_hook \<Rightarrow> jstr \<Rightarrow> jstr \<Rightarrow> jstr \<Rightarrow> (replace_locals \<times> 'w files, unit) io" where
  "replaceBody hook temp path contents =
     andThen (inFiles fsNothing) (\<lambda>_.
     andThen (localLet (\<lambda>l. l\<lparr>openDirectory := True\<rparr>)) (\<lambda>_.
     andThen (inFiles (fsCreate temp)) (\<lambda>i.
     andThen (localLet (\<lambda>l. l\<lparr>openFile := Some i, ownsTemp := True\<rparr>)) (\<lambda>_.
     andThen (inFiles (fsWrite i contents)) (\<lambda>_.
     andThen (inFiles (fsSync i)) (\<lambda>_.
     andThen (localLet (\<lambda>l. l\<lparr>openFile := None\<rparr>)) (\<lambda>_.
     andThen (inFiles fsNothing) (\<lambda>_.
     andThen (atBoundary hook TempSynced) (\<lambda>_.
     andThen (inFiles (fsRename temp path)) (\<lambda>_.
     andThen (localLet (\<lambda>l. l\<lparr>ownsTemp := False\<rparr>)) (\<lambda>_.
     andThen (atBoundary hook Renamed) (\<lambda>_.
     andThen (inFiles fsSyncDirectory) (\<lambda>_.
     andThen (localLet (\<lambda>l. l\<lparr>openDirectory := False\<rparr>)) (\<lambda>_.
     swallow (inFiles fsNothing)))))))))))))))"

definition replaceCleanup :: "jstr \<Rightarrow> exn \<Rightarrow> (replace_locals \<times> 'w files, unit) io" where
  "replaceCleanup temp cause =
     andThen getState (\<lambda>(l, _).
     andThen (if openFile l \<noteq> None then swallow (inFiles fsNothing) else ret ()) (\<lambda>_.
     andThen (if openDirectory l then swallow (inFiles fsNothing) else ret ()) (\<lambda>_.
     andThen (if ownsTemp l then swallow (inFiles (fsUnlink temp)) else ret ()) (\<lambda>_.
     throw (CausedError ''Checkpoint persistence did not complete. The on-disk outcome may be uncertain.'' cause)))))"

text \<open>The name of the temporary file: the process and a fresh identifier.\<close>

definition tempName :: "jstr \<Rightarrow> jstr \<Rightarrow> jstr \<Rightarrow> jstr" where
  "tempName path pid uuid = path @ js ''.'' @ pid @ js ''.'' @ uuid @ js ''.tmp''"

record 'w replace_env =
  replPid :: jstr
  replUuid :: "('w, jstr) io"

definition durableReplace ::
  "'w replace_env \<Rightarrow> 'w boundary_hook \<Rightarrow> jstr \<Rightarrow> jstr \<Rightarrow> ('w files, unit) io" where
  "durableReplace R hook path contents =
     andThen (onWorld (replUuid R)) (\<lambda>uuid.
     let temp = tempName path (replPid R) uuid in
     (\<lambda>s. case tryCatch (replaceBody hook temp path contents) (replaceCleanup temp)
          (\<lparr>openFile = None, openDirectory = False, ownsTemp = False\<rparr>, s) of
        (r, (_, t)) \<Rightarrow> (r, t)))"

subsection \<open>The file while it is replaced\<close>

text \<open>
  \<open>fs\<close> is reached from \<open>fs0\<close> by a replacement of \<open>path\<close> by \<open>new\<close> through \<open>temp\<close>, at any of its
  moments: older files and other names are as they were, and the path still has its old file or
  already the new one, complete and synchronised.
\<close>

definition olderKept :: "file_system \<Rightarrow> jstr \<Rightarrow> jstr \<Rightarrow> file_system \<Rightarrow> bool" where
  "olderKept fs0 path temp fs =
     (fsOk fs \<and> fsNext fs0 \<le> fsNext fs \<and>
      (\<forall>i < fsNext fs0. fsContent fs i = fsContent fs0 i \<and> fsSynced fs i = fsSynced fs0 i) \<and>
      (\<forall>n. n \<noteq> temp \<longrightarrow> n \<noteq> path \<longrightarrow> entryOf fs n = entryOf fs0 n \<and> set (fsLost fs n) \<subseteq> set (fsLost fs0 n)))"

definition oldAt :: "file_system \<Rightarrow> jstr \<Rightarrow> file_system \<Rightarrow> bool" where
  "oldAt fs0 path fs = (entryOf fs path = entryOf fs0 path \<and> set (fsLost fs path) \<subseteq> set (fsLost fs0 path))"

definition newAt :: "file_system \<Rightarrow> jstr \<Rightarrow> jstr \<Rightarrow> file_system \<Rightarrow> bool" where
  "newAt fs0 path new fs =
     (\<exists>i. entryOf fs path = Some i \<and> fsContent fs i = Utf8Text new \<and> fsSynced fs i \<and>
        set (fsLost fs path) \<subseteq> set (entryOf fs0 path # fsLost fs0 path))"

definition replacing :: "file_system \<Rightarrow> jstr \<Rightarrow> jstr \<Rightarrow> jstr \<Rightarrow> file_system \<Rightarrow> bool" where
  "replacing fs0 path temp new fs =
     (olderKept fs0 path temp fs \<and> (oldAt fs0 path fs \<or> newAt fs0 path new fs))"

lemma clock_irrelevant [simp]:
  "fsOk (fs\<lparr>fsClock := k\<rparr>) = fsOk fs" "fsOk (fs\<lparr>fsDown := d\<rparr>) = fsOk fs"
  "entryOf (fs\<lparr>fsClock := k\<rparr>) = entryOf fs" "entryOf (fs\<lparr>fsDown := d\<rparr>) = entryOf fs"
  "olderKept fs0 path temp (fs\<lparr>fsClock := k\<rparr>) = olderKept fs0 path temp fs"
  "olderKept fs0 path temp (fs\<lparr>fsDown := d\<rparr>) = olderKept fs0 path temp fs"
  "oldAt fs0 path (fs\<lparr>fsClock := k\<rparr>) = oldAt fs0 path fs" "oldAt fs0 path (fs\<lparr>fsDown := d\<rparr>) = oldAt fs0 path fs"
  "newAt fs0 path new (fs\<lparr>fsClock := k\<rparr>) = newAt fs0 path new fs"
  "newAt fs0 path new (fs\<lparr>fsDown := d\<rparr>) = newAt fs0 path new fs"
  by (simp_all add: fsOk_def entryOf_def [abs_def] olderKept_def oldAt_def newAt_def)

lemma start_replacing: "fsOk fs \<Longrightarrow> olderKept fs path temp fs \<and> oldAt fs path fs"
  by (simp add: olderKept_def oldAt_def)

lemma wp_onFiles: "wp (onFiles m) Q E (fs, w) = wp m (\<lambda>x gs. Q x (gs, w)) (\<lambda>e gs. E e (gs, w)) fs"
  by (simp add: wp_def onFiles_def split: prod.splits sum.splits)

text \<open>What a stop may leave.\<close>

lemma replacing_mayFind:
  assumes r: "replacing fs0 path temp new fs" and ok: "fsOk fs0" and x: "mayFind fs path x"
  shows "mayFind fs0 path x \<or> x = Some (Utf8Text new)"
proof -
  from x obtain e where e: "e \<in> set (entryOf fs path # fsLost fs path)" and
    m: "case e of None \<Rightarrow> x = None
       | Some i \<Rightarrow> (case x of None \<Rightarrow> False | Some c \<Rightarrow> fsSynced fs i \<longrightarrow> c = fsContent fs i)"
    by (auto simp: mayFind_def list_ex_iff)
  have old: "mayFind fs0 path x" if "e \<in> set (entryOf fs0 path # fsLost fs0 path)"
  proof -
    have "case e of None \<Rightarrow> x = None
       | Some i \<Rightarrow> (case x of None \<Rightarrow> False | Some c \<Rightarrow> fsSynced fs0 i \<longrightarrow> c = fsContent fs0 i)"
    proof (cases e)
      case (Some i)
      then have "i < fsNext fs0" using ok that by (auto simp: fsOk_def)
      then show ?thesis using m r Some by (auto simp: replacing_def olderKept_def split: option.splits)
    qed (use m in simp)
    then show ?thesis using that unfolding mayFind_def list_ex_iff by blast
  qed
  show ?thesis
  proof (cases "oldAt fs0 path fs")
    case True
    then show ?thesis using old e by (auto simp: oldAt_def)
  next
    case False
    then obtain i where i: "entryOf fs path = Some i" "fsContent fs i = Utf8Text new" "fsSynced fs i"
      "set (fsLost fs path) \<subseteq> set (entryOf fs0 path # fsLost fs0 path)"
      using r by (auto simp: replacing_def newAt_def)
    show ?thesis
    proof (cases "e = Some i")
      case True
      then show ?thesis using m i by (auto split: option.splits)
    next
      case False
      then show ?thesis using old e i by auto
    qed
  qed
qed

lemma replacing_now:
  assumes "replacing fs0 path temp new fs" and "fsOk fs0"
  shows "fileAt fs path = fileAt fs0 path \<or> fileAt fs path = Some (Utf8Text new)"
proof (cases "oldAt fs0 path fs")
  case True
  have "fsContent fs i = fsContent fs0 i" if "entryOf fs0 path = Some i" for i
    using assms(1) fsOk_entry [OF assms(2) that] by (simp add: replacing_def olderKept_def)
  then show ?thesis using True by (cases "entryOf fs0 path") (auto simp: fileAt_def oldAt_def)
next
  case False
  then show ?thesis using assms(1) by (auto simp: replacing_def newAt_def fileAt_def)
qed

subsection \<open>Every step\<close>

lemma setEntry_fields [simp]:
  "fsContent (setEntry n e fs) = fsContent fs" "fsSynced (setEntry n e fs) = fsSynced fs"
  "fsNext (setEntry n e fs) = fsNext fs" "fsDown (setEntry n e fs) = fsDown fs"
  "fsLost (setEntry n e fs) = (fsLost fs)(n := entryOf fs n # fsLost fs n)"
  by (simp_all add: setEntry_def)

lemma setEntry_ok: "fsOk fs \<Longrightarrow> (\<And>i. e = Some i \<Longrightarrow> i < fsNext fs) \<Longrightarrow> fsOk (setEntry n e fs)"
  by (auto simp: fsOk_def entryOf_setEntry)

lemma entryOf_update [simp]:
  "entryOf (fs\<lparr>fsNext := k\<rparr>) = entryOf fs" "entryOf (fs\<lparr>fsContent := c\<rparr>) = entryOf fs"
  "entryOf (fs\<lparr>fsSynced := b\<rparr>) = entryOf fs" "entryOf (fs\<lparr>fsRegular := g\<rparr>) = entryOf fs"
  "entryOf (fs\<lparr>fsLost := l\<rparr>) = entryOf fs"
  by (simp_all add: entryOf_def [abs_def])

text \<open>Before the rename: the path is old, and the temporary file, once made, is a new one.\<close>

definition beforeRename :: "file_system \<Rightarrow> jstr \<Rightarrow> jstr \<Rightarrow> nat \<Rightarrow> file_system \<Rightarrow> bool" where
  "beforeRename fs0 path temp i fs =
     (olderKept fs0 path temp fs \<and> oldAt fs0 path fs \<and> fsNext fs0 \<le> i \<and> i < fsNext fs \<and> entryOf fs temp = Some i)"

lemma before_clock [simp]:
  "beforeRename fs0 path temp i (fs\<lparr>fsClock := k\<rparr>) = beforeRename fs0 path temp i fs"
  "beforeRename fs0 path temp i (fs\<lparr>fsDown := d\<rparr>) = beforeRename fs0 path temp i fs"
  by (simp_all add: beforeRename_def)

lemma create_step:
  assumes "olderKept fs0 path temp fs" "oldAt fs0 path fs" "temp \<noteq> path" "entryOf fs temp = None" "i = fsNext fs"
  shows "beforeRename fs0 path temp i ((setEntry temp (Some i) fs)\<lparr>fsNext := i + 1, fsContent := (fsContent fs)(i := Utf8Text []),
             fsRegular := (fsRegular fs)(i := True), fsSynced := (fsSynced fs)(i := False)\<rparr>)"
proof -
  have ok: "fsOk fs" using assms(1) by (simp add: olderKept_def)
  have "fsOk ((setEntry temp (Some i) fs)\<lparr>fsNext := i + 1, fsContent := (fsContent fs)(i := Utf8Text []),
             fsRegular := (fsRegular fs)(i := True), fsSynced := (fsSynced fs)(i := False)\<rparr>)"
    using ok assms(5) by (fastforce simp: fsOk_def entryOf_setEntry)
  then show ?thesis
    using assms by (auto simp: beforeRename_def olderKept_def oldAt_def entryOf_setEntry)
qed

lemma write_step:
  assumes "beforeRename fs0 path temp i fs"
  shows "beforeRename fs0 path temp i (fs\<lparr>fsContent := (fsContent fs)(i := c), fsSynced := (fsSynced fs)(i := b)\<rparr>)"
    and "beforeRename fs0 path temp i (fs\<lparr>fsSynced := (fsSynced fs)(i := b)\<rparr>)"
  using assms by (auto simp: beforeRename_def olderKept_def oldAt_def fsOk_def)

lemma rename_step:
  assumes b: "beforeRename fs0 path temp i fs" and c: "fsContent fs i = Utf8Text new" "fsSynced fs i"
    and t: "temp \<noteq> path"
  shows "olderKept fs0 path temp (setEntry temp None (setEntry path (Some i) fs)) \<and>
    newAt fs0 path new (setEntry temp None (setEntry path (Some i) fs))"
proof -
  have "fsOk (setEntry temp None (setEntry path (Some i) fs))"
    using b by (intro setEntry_ok) (auto simp: beforeRename_def olderKept_def)
  then show ?thesis
    using assms by (auto simp: beforeRename_def olderKept_def oldAt_def newAt_def entryOf_setEntry)
qed

lemma directory_step:
  assumes "olderKept fs0 path temp fs" "newAt fs0 path new fs"
  shows "olderKept fs0 path temp (fs\<lparr>fsLost := (\<lambda>_. [])\<rparr>) \<and> newAt fs0 path new (fs\<lparr>fsLost := (\<lambda>_. [])\<rparr>)"
  using assms by (auto simp: olderKept_def newAt_def fsOk_def)

lemma unlink_step:
  assumes "replacing fs0 path temp new fs" "temp \<noteq> path"
  shows "replacing fs0 path temp new (setEntry temp None fs)"
proof -
  have "fsOk (setEntry temp None fs)" using assms(1) by (intro setEntry_ok) (simp_all add: replacing_def olderKept_def)
  then show ?thesis
    using assms by (auto simp: replacing_def olderKept_def oldAt_def newAt_def entryOf_setEntry)
qed

subsection \<open>The whole replacement\<close>

lemma replacing_clock: "replacing fs0 path temp new g \<Longrightarrow> replacing fs0 path temp new (g\<lparr>fsClock := k, fsDown := d\<rparr>)"
  by (simp add: replacing_def)

lemma wp_inFiles:
  "wp (inFiles m) Q E (l, (fs, w)) = wp m (\<lambda>x gs. Q x (l, (gs, w))) (\<lambda>e gs. E e (l, (gs, w))) fs"
  by (simp add: wp_onWorld wp_onFiles)

lemma wp_localLet: "wp (localLet f) Q E (l, s) = Q () (f l, s)"
  by (simp add: localLet_def wp_modifyState)

text \<open>The rules of the operations, for a world in which only the file system counts.\<close>

abbreviation keeps :: "(file_system \<Rightarrow> bool) \<Rightarrow> exn \<Rightarrow> replace_locals \<times> 'w files \<Rightarrow> bool" where
  "keeps I \<equiv> (\<lambda>_ (_, (gs, _)). I gs)"

lemma op_rule:
  assumes i: "I fs" and k: "\<And>g k d. I g \<Longrightarrow> I (g\<lparr>fsClock := k, fsDown := d\<rparr>)"
    and f: "\<And>k. wp f (\<lambda>x gs. I gs \<and> Q x (l, (gs, w))) (\<lambda>_. I) (fs\<lparr>fsClock := k\<rparr>)"
    and e: "\<And>e g. I g \<Longrightarrow> E e (l, (g, w))"
  shows "wp (inFiles (fsOp f)) Q E (l, (fs, w))"
  unfolding wp_inFiles by (intro fs_rule [where I = I] i k f e)

lemma nothing_rule:
  assumes i: "J fs" and k: "\<And>g k d. J g \<Longrightarrow> J (g\<lparr>fsClock := k, fsDown := d\<rparr>)"
    and q: "\<And>g. J g \<Longrightarrow> Q () (l, (g, w))" and e: "\<And>e g. J g \<Longrightarrow> E e (l, (g, w))"
  shows "wp (inFiles fsNothing) Q E (l, (fs, w))"
proof -
  have "wp (\<lambda>fs. (Inr (), fs)) (\<lambda>x gs. J gs \<and> Q x (l, (gs, w))) (\<lambda>_. J) (fs\<lparr>fsClock := c\<rparr>)" for c
    using k [OF i, of "fsDown fs" c] q by (simp add: wp_def)
  then show ?thesis unfolding fsNothing_def by (intro op_rule [where I = J] i k e)
qed

lemma boundary_rule:
  assumes "\<And>v. Q () (l, (fs, v))" "\<And>e v. E e (l, (fs, v))"
  shows "wp (atBoundary hook b) Q E (l, (fs, w))"
proof (cases hook)
  case (Some f)
  have "wp (f b) (\<lambda>x v. Q x (l, (fs, v))) (\<lambda>e v. E e (l, (fs, v))) w" using assms by (intro wpI) auto
  then show ?thesis using Some by (simp add: atBoundary_def wp_simps)
qed (simp add: atBoundary_def wp_simps assms)

definition replaced :: "file_system \<Rightarrow> jstr \<Rightarrow> jstr \<Rightarrow> jstr \<Rightarrow> file_system \<Rightarrow> bool" where
  "replaced fs0 path temp new fs =
     (olderKept fs0 path temp fs \<and> newAt fs0 path new fs \<and> fsLost fs = (\<lambda>_. []))"

lemma replaced_clock: "replaced fs0 path temp new g \<Longrightarrow> replaced fs0 path temp new (g\<lparr>fsClock := k, fsDown := d\<rparr>)"
  by (simp add: replaced_def)

lemma before_replacing: "beforeRename fs0 path temp i fs \<Longrightarrow> replacing fs0 path temp new fs"
  by (simp add: beforeRename_def replacing_def)

lemma wp_pure: "wp (\<lambda>fs. (Inr (f fs), g fs)) Q E fs = Q (f fs) (g fs)"
  by (simp add: wp_def)

lemma create_rule:
  assumes s: "olderKept fs0 path temp fs" "oldAt fs0 path fs" "temp \<noteq> path"
    and q: "\<And>i g. beforeRename fs0 path temp i g \<Longrightarrow> Q i (l, (g, w))"
    and e: "\<And>e g. replacing fs0 path temp new g \<Longrightarrow> E e (l, (g, w))"
  shows "wp (inFiles (fsCreate temp)) Q E (l, (fs, w))"
  unfolding fsCreate_def
proof (rule op_rule [where I = "replacing fs0 path temp new"])
  fix k
  let ?fs = "fs\<lparr>fsClock := k\<rparr>"
  have o: "olderKept fs0 path temp ?fs" "oldAt fs0 path ?fs" using s by simp_all
  show "wp (\<lambda>fs. case entryOf fs temp of
        Some _ \<Rightarrow> (Inl (NodeError ''EEXIST''), fs)
      | None \<Rightarrow>
          let i = fsNext fs in
          (Inr i, (setEntry temp (Some i) fs)\<lparr>fsNext := i + 1, fsContent := (fsContent fs)(i := Utf8Text []),
             fsRegular := (fsRegular fs)(i := True), fsSynced := (fsSynced fs)(i := False)\<rparr>))
     (\<lambda>x gs. replacing fs0 path temp new gs \<and> Q x (l, gs, w)) (\<lambda>_. replacing fs0 path temp new) ?fs"
  proof (cases "entryOf ?fs temp")
    case None
    note b = create_step [OF o s(3) None refl]
    show ?thesis unfolding wp_def using None q [OF b] before_replacing [OF b] by (simp add: Let_def)
  qed (use s in \<open>simp add: wp_def replacing_def\<close>)
qed (use s e in \<open>simp_all add: replacing_def\<close>)

text \<open>Writing and synchronising the temporary file keep what holds before the rename.\<close>

definition written :: "file_system \<Rightarrow> jstr \<Rightarrow> jstr \<Rightarrow> jstr \<Rightarrow> nat \<Rightarrow> bool \<Rightarrow> file_system \<Rightarrow> bool" where
  "written fs0 path temp new i b fs =
     (beforeRename fs0 path temp i fs \<and> fsContent fs i = Utf8Text new \<and> (b \<longrightarrow> fsSynced fs i))"

lemma written_clock: "written fs0 path temp new i b g \<Longrightarrow> written fs0 path temp new i b (g\<lparr>fsClock := k, fsDown := d\<rparr>)"
  by (simp add: written_def)

lemma written_replacing: "written fs0 path temp new i b g \<Longrightarrow> replacing fs0 path temp new g"
  unfolding written_def by (blast intro: before_replacing)

lemma write_rule:
  assumes b: "beforeRename fs0 path temp i fs" and n: "new = toWellFormed contents"
    and q: "\<And>g. written fs0 path temp new i False g \<Longrightarrow> Q () (l, (g, w))"
    and e: "\<And>e g. replacing fs0 path temp new g \<Longrightarrow> E e (l, (g, w))"
  shows "wp (inFiles (fsWrite i contents)) Q E (l, (fs, w))"
  unfolding fsWrite_def
proof (rule op_rule [where I = "replacing fs0 path temp new", OF before_replacing [OF b] replacing_clock])
  fix k
  have c: "beforeRename fs0 path temp i (fs\<lparr>fsClock := k\<rparr>)" using b by simp
  note w = write_step(1) [where c = "Utf8Text (toWellFormed contents)" and b = False, OF c]
  have "written fs0 path temp new i False ((fs\<lparr>fsClock := k\<rparr>)\<lparr>
      fsContent := (fsContent (fs\<lparr>fsClock := k\<rparr>))(i := Utf8Text (toWellFormed contents)),
      fsSynced := (fsSynced (fs\<lparr>fsClock := k\<rparr>))(i := False)\<rparr>)"
    unfolding written_def by (intro conjI w) (simp_all add: n)
  from written_replacing [OF this] q [OF this]
  show "wp (\<lambda>fs. (Inr (), fs\<lparr>fsContent := (fsContent fs)(i := Utf8Text (toWellFormed contents)),
       fsSynced := (fsSynced fs)(i := False)\<rparr>))
     (\<lambda>x gs. replacing fs0 path temp new gs \<and> Q x (l, gs, w)) (\<lambda>_. replacing fs0 path temp new) (fs\<lparr>fsClock := k\<rparr>)"
    unfolding wp_pure by (rule conjI)
qed (assumption, rule e)

lemma sync_rule:
  assumes b: "written fs0 path temp new i False fs"
    and q: "\<And>g. written fs0 path temp new i True g \<Longrightarrow> Q () (l, (g, w))"
    and e: "\<And>e g. replacing fs0 path temp new g \<Longrightarrow> E e (l, (g, w))"
  shows "wp (inFiles (fsSync i)) Q E (l, (fs, w))"
  unfolding fsSync_def
proof (rule op_rule [where I = "replacing fs0 path temp new", OF written_replacing [OF b] replacing_clock])
  fix k
  have c: "beforeRename fs0 path temp i (fs\<lparr>fsClock := k\<rparr>)" using b by (simp add: written_def)
  have "written fs0 path temp new i True
      ((fs\<lparr>fsClock := k\<rparr>)\<lparr>fsSynced := (fsSynced (fs\<lparr>fsClock := k\<rparr>))(i := True)\<rparr>)"
    unfolding written_def by (intro conjI write_step(2) [OF c]) (use b in \<open>simp_all add: written_def\<close>)
  from written_replacing [OF this] q [OF this]
  show "wp (\<lambda>fs. (Inr (), fs\<lparr>fsSynced := (fsSynced fs)(i := True)\<rparr>))
     (\<lambda>x gs. replacing fs0 path temp new gs \<and> Q x (l, gs, w)) (\<lambda>_. replacing fs0 path temp new) (fs\<lparr>fsClock := k\<rparr>)"
    unfolding wp_pure by (rule conjI)
qed (assumption, rule e)

definition renamed :: "file_system \<Rightarrow> jstr \<Rightarrow> jstr \<Rightarrow> jstr \<Rightarrow> file_system \<Rightarrow> bool" where
  "renamed fs0 path temp new fs = (olderKept fs0 path temp fs \<and> newAt fs0 path new fs)"

lemma renamed_replacing: "renamed fs0 path temp new g \<Longrightarrow> replacing fs0 path temp new g"
  by (simp add: renamed_def replacing_def)

lemma rename_rule:
  assumes b: "written fs0 path temp new i True fs" and t: "temp \<noteq> path"
    and q: "\<And>g. renamed fs0 path temp new g \<Longrightarrow> Q () (l, (g, w))"
    and e: "\<And>e g. replacing fs0 path temp new g \<Longrightarrow> E e (l, (g, w))"
  shows "wp (inFiles (fsRename temp path)) Q E (l, (fs, w))"
  unfolding fsRename_def
proof (rule op_rule [where I = "replacing fs0 path temp new", OF written_replacing [OF b] replacing_clock])
  fix k
  have c: "beforeRename fs0 path temp i (fs\<lparr>fsClock := k\<rparr>)"
    "fsContent (fs\<lparr>fsClock := k\<rparr>) i = Utf8Text new" "fsSynced (fs\<lparr>fsClock := k\<rparr>) i"
    using b by (simp_all add: written_def)
  have r: "renamed fs0 path temp new (setEntry temp None (setEntry path (Some i) (fs\<lparr>fsClock := k\<rparr>)))"
    unfolding renamed_def by (rule rename_step [OF c t])
  have "entryOf (fs\<lparr>fsClock := k\<rparr>) temp = Some i" using c(1) by (simp only: beforeRename_def)
  then show "wp (\<lambda>fs. case entryOf fs temp of
        None \<Rightarrow> (Inl (NodeError ''ENOENT''), fs)
      | Some i \<Rightarrow> (Inr (), setEntry temp None (setEntry path (Some i) fs)))
     (\<lambda>x gs. replacing fs0 path temp new gs \<and> Q x (l, gs, w)) (\<lambda>_. replacing fs0 path temp new) (fs\<lparr>fsClock := k\<rparr>)"
    unfolding wp_def using renamed_replacing [OF r] q [OF r] by simp
qed (assumption, rule e)

lemma directory_rule:
  assumes r: "renamed fs0 path temp new fs"
    and q: "\<And>g. replaced fs0 path temp new g \<Longrightarrow> Q () (l, (g, w))"
    and e: "\<And>e g. replacing fs0 path temp new g \<Longrightarrow> E e (l, (g, w))"
  shows "wp (inFiles fsSyncDirectory) Q E (l, (fs, w))"
  unfolding fsSyncDirectory_def
proof (rule op_rule [where I = "replacing fs0 path temp new", OF renamed_replacing [OF r] replacing_clock])
  fix k
  have "replaced fs0 path temp new ((fs\<lparr>fsClock := k\<rparr>)\<lparr>fsLost := (\<lambda>_. [])\<rparr>)"
    using directory_step [of fs0 path temp "fs\<lparr>fsClock := k\<rparr>" new] r
    by (simp add: replaced_def renamed_def)
  moreover from this have "replacing fs0 path temp new ((fs\<lparr>fsClock := k\<rparr>)\<lparr>fsLost := (\<lambda>_. [])\<rparr>)"
    by (simp add: replaced_def replacing_def)
  ultimately show "wp (\<lambda>fs. (Inr (), fs\<lparr>fsLost := (\<lambda>_. [])\<rparr>))
     (\<lambda>x gs. replacing fs0 path temp new gs \<and> Q x (l, gs, w)) (\<lambda>_. replacing fs0 path temp new) (fs\<lparr>fsClock := k\<rparr>)"
    unfolding wp_pure using q by blast
qed (assumption, rule e)

lemma unlink_rule:
  assumes r: "replacing fs0 path temp new fs" and t: "temp \<noteq> path"
    and q: "\<And>g. replacing fs0 path temp new g \<Longrightarrow> Q () (l, (g, w))"
    and e: "\<And>e g. replacing fs0 path temp new g \<Longrightarrow> E e (l, (g, w))"
  shows "wp (inFiles (fsUnlink temp)) Q E (l, (fs, w))"
  unfolding fsUnlink_def
proof (rule op_rule [where I = "replacing fs0 path temp new", OF r replacing_clock])
  fix k
  have r: "replacing fs0 path temp new (fs\<lparr>fsClock := k\<rparr>)" using r by (simp add: replacing_def)
  note u = unlink_step [OF r t]
  show "wp (\<lambda>fs. case entryOf fs temp of
        None \<Rightarrow> (Inl (NodeError ''ENOENT''), fs)
      | Some _ \<Rightarrow> (Inr (), setEntry temp None fs))
     (\<lambda>x gs. replacing fs0 path temp new gs \<and> Q x (l, gs, w)) (\<lambda>_. replacing fs0 path temp new) (fs\<lparr>fsClock := k\<rparr>)"
    unfolding wp_def using r u q [OF u] by (simp split: option.splits)
qed (assumption, rule e)

lemma wp_swallow:
  assumes "wp m Q (\<lambda>_. Q ()) s"
  shows "wp (swallow m) Q E s"
  using assms by (simp add: swallow_def wp_simps)

lemma replaceBody_wp:
  assumes ok: "fsOk fs0" and t: "temp \<noteq> path" and n: "new = toWellFormed contents"
  shows "wp (replaceBody hook temp path contents) (\<lambda>_ (_, (g, _)). replaced fs0 path temp new g)
    (\<lambda>_ (_, (g, _)). replacing fs0 path temp new g) (l, (fs0, w))"
proof -
  let ?E = "\<lambda>_ (_, (g, _)). replacing fs0 path temp new g"
  note r = renamed_replacing written_replacing
  have start: "olderKept fs0 path temp g \<and> oldAt fs0 path g \<Longrightarrow> replacing fs0 path temp new g" for g
    by (simp add: replacing_def)
  show ?thesis
    unfolding replaceBody_def wp_andThen
    apply (rule nothing_rule [where J = "\<lambda>g. olderKept fs0 path temp g \<and> oldAt fs0 path g"])
       apply (rule start_replacing [OF ok])
      apply simp
     apply (simp add: wp_localLet)
     apply (rule create_rule [OF conjunct1 conjunct2 t], assumption, assumption)
      apply (simp add: wp_localLet)
      apply (rule write_rule [OF _ n], assumption)
       apply (rule sync_rule, assumption)
        apply (simp add: wp_localLet)
        apply (rule nothing_rule [where J = "written fs0 path temp new _ True"], assumption, erule written_clock)
         apply (rule boundary_rule)
          apply (rule rename_rule [OF _ t], assumption)
           apply (simp add: wp_localLet)
           apply (rule boundary_rule)
            apply (rule directory_rule, assumption)
             apply (simp add: wp_localLet)
             apply (rule wp_swallow)
             apply (rule nothing_rule [where J = "replaced fs0 path temp new"], assumption, erule replaced_clock)
              apply (use r start in auto)
    done
qed

lemma replaceCleanup_wp:
  assumes r: "replacing fs0 path temp new fs" and t: "temp \<noteq> path"
  shows "wp (replaceCleanup temp cause) (\<lambda>_ _. False) (\<lambda>_ (_, (g, _)). replacing fs0 path temp new g) (l, (fs, w))"
proof -
  have close: "wp (swallow (inFiles fsNothing)) Q E (l, (g, v))"
    if "replacing fs0 path temp new g" "\<And>g. replacing fs0 path temp new g \<Longrightarrow> Q () (l, (g, v))" for Q E g v
    by (rule wp_swallow, rule nothing_rule [where J = "replacing fs0 path temp new"])
      (auto intro: that replacing_clock)
  have remove: "wp (swallow (inFiles (fsUnlink temp))) Q E (l, (g, v))"
    if "replacing fs0 path temp new g" "\<And>g. replacing fs0 path temp new g \<Longrightarrow> Q () (l, (g, v))" for Q E g v
    by (rule wp_swallow, rule unlink_rule [OF that(1) t]) (auto intro: that)
  show ?thesis
    unfolding replaceCleanup_def wp_andThen wp_getState
    using r by (auto simp: wp_simps intro!: close remove)
qed

text \<open>The name of the temporary file is longer than the path.\<close>

lemma tempName_ne [simp]: "tempName path pid uuid \<noteq> path"
  by (simp add: tempName_def js_def)

lemma durableReplace_wp:
  assumes ok: "fsOk fs0"
  shows "wp (durableReplace R hook path contents)
    (\<lambda>_ (g, _). \<exists>temp. temp \<noteq> path \<and> replaced fs0 path temp (toWellFormed contents) g)
    (\<lambda>_ (g, _). \<exists>temp. temp \<noteq> path \<and> replacing fs0 path temp (toWellFormed contents) g) (fs0, w)"
proof -
  let ?new = "toWellFormed contents"
  have other: "\<exists>temp. temp \<noteq> path" by (rule exI [of _ "tempName path [] []"]) simp
  have body: "wp (\<lambda>s. case tryCatch (replaceBody hook temp path contents) (replaceCleanup temp)
          (\<lparr>openFile = None, openDirectory = False, ownsTemp = False\<rparr>, s) of (r, (_, t)) \<Rightarrow> (r, t))
      (\<lambda>_ (g, _). replaced fs0 path temp ?new g) (\<lambda>_ (g, _). replacing fs0 path temp ?new g) (fs0, v)"
    if t: "temp \<noteq> path" for temp v
  proof -
    have "wp (tryCatch (replaceBody hook temp path contents) (replaceCleanup temp))
        (\<lambda>_ (_, (g, _)). replaced fs0 path temp ?new g) (\<lambda>_ (_, (g, _)). replacing fs0 path temp ?new g)
        (\<lparr>openFile = None, openDirectory = False, ownsTemp = False\<rparr>, (fs0, v))"
      unfolding wp_tryCatch
      by (rule wp_mono [OF replaceBody_wp [OF ok t refl]])
        (auto intro: wp_mono [OF replaceCleanup_wp [OF _ t]])
    then show ?thesis by (simp add: wp_def split: prod.splits sum.splits)
  qed
  show ?thesis
    unfolding durableReplace_def wp_andThen wp_onWorld Let_def
  proof (rule wpI)
    fix u v assume "replUuid R w = (Inr u, v)"
    show "wp (\<lambda>s. case tryCatch (replaceBody hook (tempName path (replPid R) u) path contents)
            (replaceCleanup (tempName path (replPid R) u))
            (\<lparr>openFile = None, openDirectory = False, ownsTemp = False\<rparr>, s) of (r, (_, t)) \<Rightarrow> (r, t))
        (\<lambda>_ (g, _). \<exists>temp. temp \<noteq> path \<and> replaced fs0 path temp ?new g)
        (\<lambda>_ (g, _). \<exists>temp. temp \<noteq> path \<and> replacing fs0 path temp ?new g) (fs0, v)"
      by (rule wp_mono [OF body [OF tempName_ne]]) (clarsimp, metis tempName_ne)+
  next
    fix e v
    show "case (fs0, v) of (g, _) \<Rightarrow> \<exists>temp. temp \<noteq> path \<and> replacing fs0 path temp ?new g"
      using other start_replacing [OF ok] by (auto simp: replacing_def)
  qed
qed

text \<open>What a failed replacement leaves, and a completed one.\<close>

definition newContent :: "jstr \<Rightarrow> file_content" where
  "newContent contents = Utf8Text (toWellFormed contents)"

lemma replaced_found:
  assumes "replaced fs0 path temp new g"
  shows "fileAt g path = Some (Utf8Text new)" and "mayFind g path x \<longleftrightarrow> x = Some (Utf8Text new)"
  using assms by (auto simp: replaced_def newAt_def fileAt_def mayFind_def split: option.splits)

lemma durableReplace_result:
  assumes ok: "fsOk fs" and run: "durableReplace R hook path contents (fs, w) = (r, (gs, v))"
  shows "fsOk gs"
    and "fileAt gs path \<in> {fileAt fs path, Some (newContent contents)}"
    and "mayFind gs path x \<Longrightarrow> mayFind fs path x \<or> x = Some (newContent contents)"
    and "r = Inr () \<Longrightarrow> fileAt gs path = Some (newContent contents)"
    and "r = Inr () \<Longrightarrow> mayFind gs path x \<Longrightarrow> x = Some (newContent contents)"
proof -
  let ?new = "toWellFormed contents"
  obtain temp where t: "temp \<noteq> path" and g: "replacing fs path temp ?new gs"
    and d: "r = Inr () \<Longrightarrow> replaced fs path temp ?new gs"
  proof (cases r)
    case (Inl e)
    then show thesis using wp_Inl [OF durableReplace_wp [OF ok, of R hook path contents w]] run that by fastforce
  next
    case (Inr u)
    then obtain temp where "temp \<noteq> path" "replaced fs path temp ?new gs"
      using wp_Inr [OF durableReplace_wp [OF ok, of R hook path contents w]] run by fastforce
    then show thesis using that by (auto simp: replaced_def replacing_def)
  qed
  show "fsOk gs" using g by (simp add: replacing_def olderKept_def)
  show "fileAt gs path \<in> {fileAt fs path, Some (newContent contents)}"
    using replacing_now [OF g ok] by (auto simp: newContent_def)
  show "mayFind gs path x \<Longrightarrow> mayFind fs path x \<or> x = Some (newContent contents)"
    using replacing_mayFind [OF g ok] by (auto simp: newContent_def)
  show "r = Inr () \<Longrightarrow> fileAt gs path = Some (newContent contents)"
    using replaced_found [OF d] by (simp add: newContent_def)
  show "r = Inr () \<Longrightarrow> mayFind gs path x \<Longrightarrow> x = Some (newContent contents)"
    using replaced_found [OF d] by (simp add: newContent_def)
qed

end
