(* ===== verification/CheckpointFile.thy ===== *)
theory CheckpointFile
  imports IndentedJson DurableReplace JournalText
begin

text \<open>
  \<^verbatim>\<open>state/checkpoint-temp-files.ts\<close> and \<^verbatim>\<open>state/file-checkpoint-store.ts\<close>: the checkpoints of all
  consumers in one file. The operations of a store run one after the other (\<^verbatim>\<open>exclusive\<close>), so each is a
  computation on the cached snapshot and the files. A path stands for its name in the state directory.
\<close>

subsection \<open>Orphaned temporary files\<close>

fun splitOn :: "16 word \<Rightarrow> jstr \<Rightarrow> jstr list" where
  "splitOn d [] = [[]]"
| "splitOn d (u # s) =
     (if u = d then [] # splitOn d s
      else case splitOn d s of [] \<Rightarrow> [[u]] | p # ps \<Rightarrow> (u # p) # ps)"

fun joinOn :: "16 word \<Rightarrow> jstr list \<Rightarrow> jstr" where
  "joinOn d [] = []"
| "joinOn d [p] = p"
| "joinOn d (p # q # ps) = p @ [d] @ joinOn d (q # ps)"

fun popPart :: "jstr list \<Rightarrow> jstr option \<times> jstr list" where
  "popPart ps = (if ps = [] then (None, []) else (Some (last ps), butlast ps))"

text \<open>
  The number of a run of digits is a safe integer exactly when the run denotes one: all others round
  to at least two to the power of 53.
\<close>

definition isProcessId :: "jstr option \<Rightarrow> bool" where
  "isProcessId value =
     (case value of
        None \<Rightarrow> False
      | Some v \<Rightarrow> v \<noteq> [] \<and> hd v \<noteq> 48 \<and> list_all isDigitUnit v \<and> 0 < parseBigint v \<and> parseBigint v \<le> MAX_SAFE_INTEGER)"

definition isCheckpointTempName :: "jstr \<Rightarrow> jstr \<Rightarrow> bool" where
  "isCheckpointTempName name checkpointName =
     (case popPart (splitOn 46 name) of (suffix, ps) \<Rightarrow>
      if suffix \<noteq> Some (js ''tmp'') then False
      else case popPart ps of (uuid, ps1) \<Rightarrow>
        case popPart ps1 of (pid, ps2) \<Rightarrow>
          if joinOn 46 ps2 \<noteq> checkpointName then False
          else isProcessId pid \<and> (case uuid of None \<Rightarrow> False | Some u \<Rightarrow> uuidV4 u))"

definition isMissingFile :: "exn \<Rightarrow> bool" where
  "isMissingFile e = (e = NodeError ''ENOENT'')"

fun removeTempFiles :: "jstr \<Rightarrow> jstr list \<Rightarrow> (file_system, unit) io" where
  "removeTempFiles path [] = ret ()"
| "removeTempFiles path (name # names) =
     andThen
       (if \<not> isCheckpointTempName name path then ret ()
        else tryCatch
          (andThen (fsLstat name) (\<lambda>file.
           if \<not> statIsFile file \<or> statLinks file \<noteq> 1 then ret () else fsUnlink name))
          (\<lambda>e. if isMissingFile e then ret () else throw e))
       (\<lambda>_. removeTempFiles path names)"

definition removeCheckpointTempFiles :: "jstr \<Rightarrow> (file_system, unit) io" where
  "removeCheckpointTempFiles path = andThen fsNames (removeTempFiles path)"

subsection \<open>The file\<close>

type_synonym CheckpointState = "(jstr \<times> int) list"

record 'w checkpoint_env =
  ckPath :: jstr
  ckChainId :: int
  ckRegistry :: jstr
  ckNumbers :: number_format
  ckGetAddress :: "jstr \<Rightarrow> exn + jstr"
  ckReplace :: "'w replace_env"

definition requireJsObject :: "jsval \<Rightarrow> string \<Rightarrow> exn + jsval" where
  "requireJsObject v message = (case v of JObject _ \<Rightarrow> Inr v | _ \<Rightarrow> Inl (PlainError message))"

definition parseNextBlock :: "jsval \<Rightarrow> exn + int" where
  "parseNextBlock v =
     (case v of
        JString s \<Rightarrow> checkE (isDecimalInteger s) (PlainError ''Checkpoint contains an invalid nextBlock.'')
          (\<lambda>_. Inr (parseBigint s))
      | _ \<Rightarrow> Inl (PlainError ''Checkpoint contains an invalid nextBlock.''))"

definition withCause :: "string \<Rightarrow> exn + 'a \<Rightarrow> exn + 'a" where
  "withCause message r = (case r of Inl e \<Rightarrow> Inl (CausedError message e) | Inr x \<Rightarrow> Inr x)"

fun parseConsumers ::
  "(jstr \<Rightarrow> exn + jstr) \<Rightarrow> (jstr \<times> jprop) list \<Rightarrow> CheckpointState \<Rightarrow> exn + CheckpointState" where
  "parseConsumers getAddress [] acc = Inr acc"
| "parseConsumers getAddress ((raw, p) # ps) acc =
     bindE (withCause ''Checkpoint file contains an invalid consumer address.'' (getAddress raw)) (\<lambda>consumer.
     checkE (map_of acc consumer = None) (PlainError ''Checkpoint file contains duplicate consumer address.'') (\<lambda>_.
     bindE (requireJsObject (case p of DataProp v \<Rightarrow> v | NoData \<Rightarrow> JUndefined) ''Checkpoint must be an object.'') (\<lambda>checkpoint.
     bindE (parseNextBlock (getMember checkpoint ''nextBlock'')) (\<lambda>nextBlock.
     parseConsumers getAddress ps (acc @ [(consumer, nextBlock)])))))"

definition parseState :: "'w checkpoint_env \<Rightarrow> jsval \<Rightarrow> exn + CheckpointState" where
  "parseState K v =
     bindE (requireJsObject v ''Checkpoint file root must be an object.'') (\<lambda>root.
     checkE (getMember root ''version'' = JNum 1) (PlainError ''Unsupported checkpoint file version.'') (\<lambda>_.
     checkE (isPositiveSafeInteger (getMember root ''chainId'')) (PlainError ''Checkpoint file contains an invalid chainId.'') (\<lambda>_.
     checkE (getMember root ''chainId'' = JNum (of_int (ckChainId K)))
       (PlainError ''Checkpoint file chainId does not match configured chainId.'') (\<lambda>_.
     bindE (case getMember root ''registry'' of
         JString s \<Rightarrow> withCause ''Checkpoint file contains an invalid registry address.'' (ckGetAddress K s)
       | _ \<Rightarrow> Inl (PlainError ''Checkpoint file contains an invalid registry address.'')) (\<lambda>registry.
     checkE (registry = ckRegistry K) (PlainError ''Checkpoint file registry does not match configured registry.'') (\<lambda>_.
     bindE (requireJsObject (getMember root ''consumers'') ''Checkpoint file consumers must be an object.'') (\<lambda>consumers.
     case consumers of
       JObject ps \<Rightarrow> parseConsumers (ckGetAddress K) ps []
     | _ \<Rightarrow> Inr [])))))))"

text \<open>
  The keys of a snapshot are addresses, distinct, and neither array indices nor \<^verbatim>\<open>__proto__\<close>, so that the
  object made of it has them in the same order.
\<close>

definition serializedState :: "'w checkpoint_env \<Rightarrow> CheckpointState \<Rightarrow> jsval" where
  "serializedState K m =
     JObject [(js ''version'', DataProp (JNum 1)), (js ''chainId'', DataProp (JNum (of_int (ckChainId K)))),
       (js ''registry'', DataProp (JString (ckRegistry K))),
       (js ''consumers'', DataProp (JObject (map (\<lambda>(a, n).
          (a, DataProp (obj [(''nextBlock'', JString (showBigint n))]))) m)))]"

definition stringifyIndented :: "number_format \<Rightarrow> jsval \<Rightarrow> jstr" where
  "stringifyIndented N v = (case toJson v of None \<Rightarrow> js ''undefined'' | Some j \<Rightarrow> printIndented N [] j)"

definition checkpointText :: "'w checkpoint_env \<Rightarrow> CheckpointState \<Rightarrow> jstr" where
  "checkpointText K m = stringifyIndented (ckNumbers K) (serializedState K m) @ [10]"

definition parseCheckpointText :: "'w checkpoint_env \<Rightarrow> jstr \<Rightarrow> exn + CheckpointState" where
  "parseCheckpointText K contents =
     (case parseJson (ckNumbers K) contents of
        None \<Rightarrow> Inl (CausedError ''Checkpoint file contains invalid JSON.'' (PlainError ''SyntaxError''))
      | Some v \<Rightarrow> parseState K v)"

subsection \<open>The store\<close>

type_synonym 'w cstore = "CheckpointState option \<times> 'w files"

abbreviation inStore :: "(file_system, 'a) io \<Rightarrow> ('w cstore, 'a) io" where
  "inStore m \<equiv> onWorld (onFiles m)"

definition setCached :: "CheckpointState option \<Rightarrow> ('w cstore, unit) io" where
  "setCached c = modifyState (\<lambda>(_, s). (c, s))"

text \<open>\<^verbatim>\<open>readFile(path, 'utf8')\<close>: opening, reading to the end, decoding and closing.\<close>

fun decodedText :: "file_content \<Rightarrow> jstr" where
  "decodedText (Utf8Text s) = s"
| "decodedText (OtherBytes n t) = t"

definition readTextFile :: "jstr \<Rightarrow> (file_system, jstr) io" where
  "readTextFile name =
     andThen (fsOpen name) (\<lambda>i. andThen (finallyDo (fsRead i) fsNothing) (\<lambda>c. ret (decodedText c)))"

definition readState :: "'w checkpoint_env \<Rightarrow> (file_system, CheckpointState) io" where
  "readState K =
     andThen (tryCatch (andThen (readTextFile (ckPath K)) (\<lambda>t. ret (Some t)))
        (\<lambda>e. if isMissingFile e then ret None else throw (CausedError ''Failed to read checkpoint file.'' e))) (\<lambda>contents.
     case contents of
       None \<Rightarrow> ret []
     | Some t \<Rightarrow> liftPure (parseCheckpointText K t))"

definition writeState :: "'w checkpoint_env \<Rightarrow> CheckpointState \<Rightarrow> ('w files, unit) io" where
  "writeState K m = durableReplace (ckReplace K) None (ckPath K) (checkpointText K m)"

definition initializeState :: "'w checkpoint_env \<Rightarrow> ('w cstore, CheckpointState) io" where
  "initializeState K =
     andThen getState (\<lambda>(cached, _).
     case cached of
       Some m \<Rightarrow> ret m
     | None \<Rightarrow>
         andThen (inStore (readState K)) (\<lambda>m.
         andThen (inStore (removeCheckpointTempFiles (ckPath K))) (\<lambda>_.
         andThen (onWorld (writeState K m)) (\<lambda>_.
         andThen (setCached (Some m)) (\<lambda>_. ret m)))))"

definition loadCheckpoint :: "'w checkpoint_env \<Rightarrow> jstr \<Rightarrow> ('w cstore, int option) io" where
  "loadCheckpoint K consumer =
     andThen (liftPure (ckGetAddress K consumer)) (\<lambda>a.
     andThen (initializeState K) (\<lambda>m. ret (map_of m a)))"

definition saveCheckpointFile :: "'w checkpoint_env \<Rightarrow> jstr \<Rightarrow> int \<Rightarrow> ('w cstore, unit) io" where
  "saveCheckpointFile K consumer nextBlock =
     andThen (unlessThrow (0 \<le> nextBlock) (PlainError ''Checkpoint nextBlock must not be negative.'')) (\<lambda>_.
     andThen (liftPure (ckGetAddress K consumer)) (\<lambda>a.
     andThen (initializeState K) (\<lambda>m.
     andThen (unlessThrow (case map_of m a of None \<Rightarrow> True | Some c \<Rightarrow> c \<le> nextBlock)
       (PlainError ''Checkpoint cannot move backwards.'')) (\<lambda>_.
     let m' = AList.update a nextBlock m in
     andThen (tryCatch (onWorld (writeState K m'))
       (\<lambda>e. andThen (setCached None) (\<lambda>_. throw e))) (\<lambda>_.
     setCached (Some m'))))))"

text \<open>Opening a store: the configured registry is normalised, and the file is made durable.\<close>

definition openCheckpointStore :: "'w checkpoint_env \<Rightarrow> ('w cstore, 'w checkpoint_env) io" where
  "openCheckpointStore K =
     andThen (unlessThrow (ckPath K \<noteq> []) (PlainError ''Checkpoint file path must not be empty.'')) (\<lambda>_.
     andThen (liftPure (ckGetAddress K (ckRegistry K))) (\<lambda>registry.
     let store = K\<lparr>ckRegistry := registry\<rparr> in
     andThen (setCached None) (\<lambda>_.
     andThen (initializeState store) (\<lambda>_. ret store))))"

subsection \<open>Temporary names\<close>

lemma joinOn_length: "length (joinOn d ps) \<le> length (joinOn d (ps @ [q]))"
proof (induction d ps rule: joinOn.induct)
  case (3 d p q' ps)
  then show ?case by simp
qed simp_all

lemma joinOn_grows: "ps \<noteq> [] \<Longrightarrow> length (joinOn d ps) < length (joinOn d (ps @ [q]))"
proof (induction d ps rule: joinOn.induct)
  case (3 d p q' ps)
  then show ?case by simp
qed simp_all

lemma joinOn_splitOn: "joinOn d (splitOn d s) = s"
proof (induction s)
  case (Cons u s)
  show ?case
  proof (cases "splitOn d s")
    case Nil
    then show ?thesis using Cons by auto
  next
    case (Cons p ps)
    then show ?thesis using \<open>joinOn d (splitOn d s) = s\<close> by (cases ps) auto
  qed
qed simp

text \<open>The path itself is never taken for one of its temporary files.\<close>

lemma tempName_other: "isCheckpointTempName name path \<Longrightarrow> name \<noteq> path"
proof
  assume t: "isCheckpointTempName name path" and e: "name = path"
  define ps where "ps = splitOn 46 name"
  from t obtain qs u p where q: "ps = qs @ [p, u, js ''tmp'']" "joinOn 46 qs = path"
    by (auto simp: isCheckpointTempName_def ps_def [symmetric] isProcessId_def split: if_splits option.splits prod.splits)
      (metis append_Cons append_Nil append_assoc append_butlast_last_id)
  have "joinOn 46 ps = path" using joinOn_splitOn [of 46 name] e by (simp add: ps_def)
  moreover have "length (joinOn 46 qs) \<le> length (joinOn 46 (qs @ [p]))" by (rule joinOn_length)
  moreover have "length (joinOn 46 (qs @ [p])) < length (joinOn 46 ((qs @ [p]) @ [u]))" by (rule joinOn_grows) simp
  moreover have "length (joinOn 46 ((qs @ [p]) @ [u])) < length (joinOn 46 (((qs @ [p]) @ [u]) @ [js ''tmp'']))"
    by (rule joinOn_grows) simp
  ultimately show False using q by simp
qed

end
