(* ===== verification/Requests.thy ===== *)
theory Requests
  imports ChainReads Gate "HOL-Library.AList"
begin

text \<open>
  \<^verbatim>\<open>consumers/request-events.ts\<close>, \<^verbatim>\<open>consumers/request-scanner.ts\<close>,
  \<^verbatim>\<open>consumers/request-processor.ts\<close> and \<^verbatim>\<open>execution/is-operation-cancelled.ts\<close>: the requests for
  randomness found in a window of blocks, and the outcome of importing their rounds, each distinct
  round once. The importer is an argument, as in the source; observers are optional computations
  whose errors are swallowed.
\<close>

subsection \<open>Cancellation and observers\<close>

text \<open>An abort signal is a predicate on the world; an absent signal is never aborted.\<close>

definition abortCheck :: "('w \<Rightarrow> bool) \<Rightarrow> ('w, unit) io" where
  "abortCheck aborted = (\<lambda>w. (if aborted w then Inl AbortReason else Inr (), w))"

definition cancelError :: "exn \<Rightarrow> bool" where
  "cancelError e = (e = AbortReason \<or> e = TransactionSubmissionError AbortReason)"

definition isOperationCancelled :: "exn \<Rightarrow> ('w \<Rightarrow> bool) \<Rightarrow> 'w \<Rightarrow> bool" where
  "isOperationCancelled e aborted w = (aborted w \<and> cancelError e)"

definition observe :: "('x \<Rightarrow> ('w, unit) io) option \<Rightarrow> 'x \<Rightarrow> ('w, unit) io" where
  "observe f x = (case f of None \<Rightarrow> ret () | Some g \<Rightarrow> tryCatch (g x) (\<lambda>_. ret ()))"

lemma observe_Inr: "\<exists>v. observe f x w = (Inr (), v)"
  by (cases f; cases "the f x w"; cases "fst (the f x w)") (auto simp: observe_def tryCatch_def ret_def)

lemma wp_observe: "(\<And>v. Q () v) \<Longrightarrow> wp (observe f x) Q E w"
  using observe_Inr [of f x w] by (auto simp: wp_def)

lemma wp_abortCheck: "Q () w \<Longrightarrow> (aborted w \<Longrightarrow> E AbortReason w) \<Longrightarrow> wp (abortCheck aborted) Q E w"
  by (simp add: wp_def abortCheck_def)

subsection \<open>Request events\<close>

record QuicknetRandomnessRequest =
  reqConsumer :: jstr
  reqRound :: int
  reqBlock :: int
  reqTransactionHash :: jstr
  reqLogIndex :: int

record request_log =
  logAddress :: jstr
  logRound :: int
  logBlock :: "int option"
  logTransactionHash :: "jstr option"
  logIndex :: "int option"

text \<open>The events of the given contracts in a range of blocks, decoded by the client.\<close>

type_synonym 'w log_reader = "jstr list \<Rightarrow> int \<Rightarrow> int \<Rightarrow> ('w, request_log list) io"

definition requestOf :: "request_log \<Rightarrow> exn + QuicknetRandomnessRequest" where
  "requestOf l =
     (case (logBlock l, logTransactionHash l, logIndex l) of
        (Some b, Some h, Some i) \<Rightarrow>
          Inr \<lparr>reqConsumer = logAddress l, reqRound = logRound l, reqBlock = b,
               reqTransactionHash = h, reqLogIndex = i\<rparr>
      | _ \<Rightarrow> Inl (PlainError ''Quicknet randomness request log is missing canonical log metadata.''))"

definition getQuicknetRandomnessRequests ::
  "'w log_reader \<Rightarrow> jstr list \<Rightarrow> int \<Rightarrow> int \<Rightarrow> ('w, QuicknetRandomnessRequest list) io" where
  "getQuicknetRandomnessRequests L consumers fromB toB =
     andThen (unlessThrow (fromB \<le> toB) (PlainError ''fromBlock must not be greater than toBlock.'')) (\<lambda>_.
     if consumers = [] then ret []
     else andThen (L consumers fromB toB) (\<lambda>logs. liftPure (mapE requestOf logs)))"

subsection \<open>Scanning\<close>

datatype ScanQuicknetRequestsResult =
    ScanCaughtUp int int
  | Scanned int int int int "QuicknetRandomnessRequest list"

text \<open>The fields of a scan: through, from, to and next block, and the requests.\<close>

definition scanQuicknetRequests ::
  "'w log_reader \<Rightarrow> jstr list \<Rightarrow> int \<Rightarrow> int \<Rightarrow> int \<Rightarrow> ('w, ScanQuicknetRequestsResult) io" where
  "scanQuicknetRequests L consumers nextB through maxRange =
     andThen (unlessThrow (0 \<le> nextB) (PlainError ''nextBlock must not be negative.'')) (\<lambda>_.
     andThen (unlessThrow (0 \<le> through) (PlainError ''throughBlock must not be negative.'')) (\<lambda>_.
     andThen (unlessThrow (0 < maxRange) (PlainError ''maxBlockRange must be greater than zero.'')) (\<lambda>_.
     if through < nextB then ret (ScanCaughtUp through nextB)
     else
       let maximumTo = nextB + maxRange - 1;
           toB = (if maximumTo < through then maximumTo else through)
       in andThen (getQuicknetRandomnessRequests L consumers nextB toB) (\<lambda>rs.
          ret (Scanned through nextB toB (toB + 1) rs)))))"

lemma scan_Inr:
  "scanQuicknetRequests L cs n t m w = (Inr (Scanned t' f b n' rs), v) \<longleftrightarrow>
     0 \<le> n \<and> 0 < m \<and> n \<le> t \<and> t' = t \<and> f = n \<and> b = min (n + m - 1) t \<and> n' = b + 1 \<and>
     getQuicknetRandomnessRequests L cs n b w = (Inr rs, v)"
  by (auto simp: scanQuicknetRequests_def andThen_Inr Let_def split: if_splits)

subsection \<open>Importing the requested rounds\<close>

datatype witness_fallback = WitnessRejected | WitnessDecodeFailed

datatype submission_details = WitnessSubmission | CompressedSubmission witness_fallback

datatype pending_reason = BroadcastNotAcknowledged | ReceiptTimeout

datatype ImportQuicknetRoundResult =
    AlreadyStored int jstr
  | Imported int jstr jstr submission_details
  | ImportPending int jstr jstr pending_reason
  | ImportUnavailable int SignerBlocker
  | ImportRetained int jstr jstr

datatype round_status =
    RoundCompleted ImportQuicknetRoundResult
  | RoundPending ImportQuicknetRoundResult
  | RoundFailed exn
  | EarlierImportFailed
  | RoundUnavailable SignerBlocker
  | RoundRetained jstr jstr

record QuicknetRoundOutcome =
  outRound :: int
  outFirstBlock :: int
  outStatus :: round_status

text \<open>
  The map from rounds to the first block that requests them keeps the order of insertion, and a
  value set for a key that is present stays at its place: \<open>AList.update\<close> is \<^verbatim>\<open>Map.set\<close>.
\<close>

definition noteRequest :: "QuicknetRandomnessRequest \<Rightarrow> (int \<times> int) list \<Rightarrow> (int \<times> int) list" where
  "noteRequest r m =
     (case map_of m (reqRound r) of
        None \<Rightarrow> AList.update (reqRound r) (reqBlock r) m
      | Some previous \<Rightarrow>
          if reqBlock r < previous then AList.update (reqRound r) (reqBlock r) m else m)"

definition firstBlocks :: "QuicknetRandomnessRequest list \<Rightarrow> (int \<times> int) list" where
  "firstBlocks rs = fold noteRequest rs []"

record 'w process_options =
  procImport :: "int \<Rightarrow> ('w, ImportQuicknetRoundResult) io"
  procCompleted :: "(int \<times> ImportQuicknetRoundResult \<Rightarrow> ('w, unit) io) option"
  procIncomplete :: "(QuicknetRoundOutcome \<Rightarrow> ('w, unit) io) option"
  procAborted :: "'w \<Rightarrow> bool"

text \<open>
  One round, after no failure and while the signer is available: its status, with the observers
  told. A cancellation is rethrown, any other error is the status of the round.
\<close>

definition roundOutcome :: "int \<Rightarrow> int \<Rightarrow> round_status \<Rightarrow> QuicknetRoundOutcome" where
  "roundOutcome r b s = \<lparr>outRound = r, outFirstBlock = b, outStatus = s\<rparr>"

definition recordIncomplete ::
  "'w process_options \<Rightarrow> int \<Rightarrow> int \<Rightarrow> round_status \<Rightarrow> ('w, round_status) io" where
  "recordIncomplete P r b s = andThen (observe (procIncomplete P) (roundOutcome r b s)) (\<lambda>_. ret s)"

definition settleImport ::
  "'w process_options \<Rightarrow> int \<Rightarrow> int \<Rightarrow> ImportQuicknetRoundResult \<Rightarrow> ('w, round_status) io" where
  "settleImport P r b result =
     (case result of
        ImportPending _ _ _ _ \<Rightarrow> recordIncomplete P r b (RoundPending result)
      | ImportUnavailable _ blocker \<Rightarrow> recordIncomplete P r b (RoundUnavailable blocker)
      | ImportRetained _ aid wid \<Rightarrow> recordIncomplete P r b (RoundRetained aid wid)
      | _ \<Rightarrow> andThen (observe (procCompleted P) (r, result)) (\<lambda>_. ret (RoundCompleted result)))"

definition importOne :: "'w process_options \<Rightarrow> int \<Rightarrow> int \<Rightarrow> ('w, round_status) io" where
  "importOne P r b =
     tryCatch (andThen (procImport P r) (settleImport P r b))
       (\<lambda>e. \<lambda>w. if isOperationCancelled e (procAborted P) w then throw e w else ret (RoundFailed e) w)"

fun processRounds ::
  "'w process_options \<Rightarrow> bool \<Rightarrow> SignerBlocker option \<Rightarrow> (int \<times> int) list \<Rightarrow> QuicknetRoundOutcome list \<Rightarrow>
   ('w, QuicknetRoundOutcome list) io" where
  "processRounds P failed unavailable [] acc = ret acc"
| "processRounds P failed unavailable ((r, b) # rest) acc =
     (if failed then
        processRounds P failed unavailable rest (acc @ [roundOutcome r b EarlierImportFailed])
      else case unavailable of
        Some blocker \<Rightarrow>
          andThen (recordIncomplete P r b (RoundUnavailable blocker)) (\<lambda>s.
          processRounds P failed unavailable rest (acc @ [roundOutcome r b s]))
      | None \<Rightarrow>
          andThen (importOne P r b) (\<lambda>s.
          processRounds P (case s of RoundFailed _ \<Rightarrow> True | _ \<Rightarrow> False)
            (case s of RoundUnavailable blocker \<Rightarrow> Some blocker | _ \<Rightarrow> None)
            rest (acc @ [roundOutcome r b s])))"

definition processQuicknetRequestsWithOutcomes ::
  "'w process_options \<Rightarrow> QuicknetRandomnessRequest list \<Rightarrow> ('w, QuicknetRoundOutcome list) io" where
  "processQuicknetRequestsWithOutcomes P rs =
     andThen (abortCheck (procAborted P)) (\<lambda>_. processRounds P False None (firstBlocks rs) [])"

text \<open>The completed rounds, or the error of the failed one.\<close>

fun completedRounds :: "QuicknetRoundOutcome list \<Rightarrow> exn + (int \<times> ImportQuicknetRoundResult) list" where
  "completedRounds [] = Inr []"
| "completedRounds (x # xs) =
     (case outStatus x of
        RoundFailed e \<Rightarrow> Inl e
      | RoundCompleted result \<Rightarrow> bindE (completedRounds xs) (\<lambda>ys. Inr ((outRound x, result) # ys))
      | _ \<Rightarrow> completedRounds xs)"

definition processQuicknetRequests ::
  "'w process_options \<Rightarrow> QuicknetRandomnessRequest list \<Rightarrow> ('w, (int \<times> ImportQuicknetRoundResult) list) io" where
  "processQuicknetRequests P rs =
     andThen (processQuicknetRequestsWithOutcomes P rs) (\<lambda>os. liftPure (completedRounds os))"

end
