(* ===== verification/DurableRequests.thy ===== *)
theory DurableRequests
  imports Requests
begin

text \<open>
  \<^verbatim>\<open>consumers/durable-requests.ts\<close> with the registry reads of \<^verbatim>\<open>packages/registry-sdk\<close>: one pass over
  a window of durable blocks, between two reads of the anchor block, and how far the checkpoint may
  advance after it.
\<close>

subsection \<open>The registry\<close>

record RegistryDeployment =
  depChainId :: int
  depAddress :: jstr
  depRuntimeCodehash :: jstr
  depVerifierAddress :: jstr
  depVerifierCodehash :: jstr

text \<open>
  \<open>readContract address function arguments block\<close> is the client's contract read, at the latest block
  without a block number, with its integer arguments; the decoded answer is a value of any type.
\<close>

type_synonym 'w contract_reader = "jstr \<Rightarrow> string \<Rightarrow> int list \<Rightarrow> int option \<Rightarrow> ('w, jsval) io"

definition registryIsStored ::
  "'w contract_reader \<Rightarrow> RegistryDeployment \<Rightarrow> int \<Rightarrow> int option \<Rightarrow> ('w, jsval) io" where
  "registryIsStored R d r b = R (depAddress d) ''isStored'' [r] b"

definition registryGetBeacon ::
  "'w contract_reader \<Rightarrow> RegistryDeployment \<Rightarrow> int \<Rightarrow> int option \<Rightarrow> ('w, jsval) io" where
  "registryGetBeacon R d r b = R (depAddress d) ''getBeacon'' [r] b"

subsection \<open>Results\<close>

datatype DurableFulfillment = FulfilStored | FulfilNotStored | FulfilUnavailable exn

record DurableRoundOutcome =
  droRound :: int
  droFirstBlock :: int
  droFulfillment :: DurableFulfillment

datatype DurableCheckpointDecision =
    CheckpointVerified int
  | CheckpointAnchorChanged BlockAnchor
  | CheckpointUnavailable exn

record durable_scan =
  dsFrom :: int
  dsTo :: int
  dsAnchor :: BlockAnchor
  dsImports :: "QuicknetRoundOutcome list"
  dsFulfillment :: "DurableRoundOutcome list"
  dsCheckpoint :: DurableCheckpointDecision

datatype DurableRequestResult =
    DurableCaughtUp int
  | DurableAnchorUnavailable int exn
  | DurableScanned durable_scan

definition durableImports :: "DurableRequestResult \<Rightarrow> QuicknetRoundOutcome list" where
  "durableImports r = (case r of DurableScanned s \<Rightarrow> dsImports s | _ \<Rightarrow> [])"

definition durableCheckpoint :: "DurableRequestResult \<Rightarrow> DurableCheckpointDecision" where
  "durableCheckpoint r =
     (case r of
        DurableCaughtUp n \<Rightarrow> CheckpointVerified n
      | DurableAnchorUnavailable _ e \<Rightarrow> CheckpointUnavailable e
      | DurableScanned s \<Rightarrow> dsCheckpoint s)"

subsection \<open>Fulfillment\<close>

definition readFulfillment ::
  "'w contract_reader \<Rightarrow> RegistryDeployment \<Rightarrow> int \<Rightarrow> BlockAnchor \<Rightarrow> ('w, DurableFulfillment) io" where
  "readFulfillment R d r a =
     tryCatch
       (andThen (registryIsStored R d r (Some (blockNumber a))) (\<lambda>stored.
        if stored = JBool True then ret FulfilStored
        else if stored = JBool False then ret FulfilNotStored
        else throw (TypeError ''Invalid durable storage response.'')))
       (\<lambda>e. ret (FulfilUnavailable e))"

text \<open>The loop over the outcomes, with the checkpoint lowered to the first request not yet stored.\<close>

fun checkFulfillment ::
  "'w contract_reader \<Rightarrow> RegistryDeployment \<Rightarrow> ('w \<Rightarrow> bool) \<Rightarrow> BlockAnchor \<Rightarrow> QuicknetRoundOutcome list \<Rightarrow>
   DurableRoundOutcome list \<Rightarrow> int \<Rightarrow> ('w, DurableRoundOutcome list \<times> int) io" where
  "checkFulfillment R d aborted a [] acc nextB = ret (acc, nextB)"
| "checkFulfillment R d aborted a (x # xs) acc nextB =
     andThen (readFulfillment R d (outRound x) a) (\<lambda>state.
     andThen (abortCheck aborted) (\<lambda>_.
     checkFulfillment R d aborted a xs
       (acc @ [\<lparr>droRound = outRound x, droFirstBlock = outFirstBlock x, droFulfillment = state\<rparr>])
       (if state \<noteq> FulfilStored \<and> outFirstBlock x < nextB then outFirstBlock x else nextB)))"

definition checkpointDecision ::
  "'w chain_client \<Rightarrow> BlockAnchor \<Rightarrow> int \<Rightarrow> ('w, DurableCheckpointDecision) io" where
  "checkpointDecision C a nextB =
     tryCatch
       (andThen (getBlockAnchor C (blockNumber a)) (\<lambda>after.
        ret (if blockAnchorsMatch a after then CheckpointVerified nextB else CheckpointAnchorChanged after)))
       (\<lambda>e. ret (CheckpointUnavailable e))"

subsection \<open>The pass\<close>

record 'w durable_env =
  durClient :: "'w chain_client"
  durLogs :: "'w log_reader"
  durRegistry :: "'w contract_reader"
  durDeployment :: RegistryDeployment
  durConsumer :: jstr
  durProcess :: "'w process_options"

definition logInScan :: "jstr \<Rightarrow> int \<Rightarrow> int \<Rightarrow> QuicknetRandomnessRequest \<Rightarrow> bool" where
  "logInScan consumer fromB toB r =
     (toLowerCase (reqConsumer r) = toLowerCase consumer \<and> fromB \<le> reqBlock r \<and> reqBlock r \<le> toB)"

definition passOverScan ::
  "'w durable_env \<Rightarrow> BlockAnchor \<Rightarrow> int \<Rightarrow> int \<Rightarrow> int \<Rightarrow> QuicknetRandomnessRequest list \<Rightarrow>
   ('w, DurableRequestResult) io" where
  "passOverScan D a fromB toB nextB rs =
     andThen (unlessThrow (list_all (logInScan (durConsumer D) fromB toB) rs)
       (PlainError ''Request log is outside the durable scan.'')) (\<lambda>_.
     andThen (processQuicknetRequestsWithOutcomes (durProcess D) rs) (\<lambda>imports.
     andThen (abortCheck (procAborted (durProcess D))) (\<lambda>_.
     andThen (checkFulfillment (durRegistry D) (durDeployment D) (procAborted (durProcess D)) a imports [] nextB)
       (\<lambda>(fulfillment, upTo).
     andThen (checkpointDecision (durClient D) a upTo) (\<lambda>checkpoint.
     andThen (abortCheck (procAborted (durProcess D))) (\<lambda>_.
     ret (DurableScanned \<lparr>dsFrom = fromB, dsTo = toB, dsAnchor = a, dsImports = imports,
            dsFulfillment = fulfillment, dsCheckpoint = checkpoint\<rparr>)))))))"

definition reconcileDurableRequests ::
  "'w durable_env \<Rightarrow> int \<Rightarrow> int \<Rightarrow> int \<Rightarrow> ('w, DurableRequestResult) io" where
  "reconcileDurableRequests D nextB durable maxRange =
     andThen (unlessThrow (0 \<le> nextB \<and> 0 \<le> durable \<and> 0 < maxRange)
       (RangeError ''Invalid durable scan bounds.'')) (\<lambda>_.
     andThen (abortCheck (procAborted (durProcess D))) (\<lambda>_.
     if durable < nextB then ret (DurableCaughtUp nextB)
     else
       andThen (tryCatch
          (andThen (getBlockAnchor (durClient D) durable) (\<lambda>a. ret (Inr a)))
          (\<lambda>e. andThen (abortCheck (procAborted (durProcess D))) (\<lambda>_. ret (Inl e)))) (\<lambda>anchored.
       case anchored of
         Inl e \<Rightarrow> ret (DurableAnchorUnavailable durable e)
       | Inr a \<Rightarrow>
           andThen (abortCheck (procAborted (durProcess D))) (\<lambda>_.
           andThen (scanQuicknetRequests (durLogs D) [durConsumer D] nextB (blockNumber a) maxRange) (\<lambda>scan.
           case scan of
             ScanCaughtUp _ _ \<Rightarrow> ret (DurableCaughtUp nextB)
           | Scanned _ fromB toB afterB rs \<Rightarrow> passOverScan D a fromB toB afterB rs)))))"

end
