(* ===== verification/Quicknet.thy ===== *)
theory Quicknet
  imports Requests Json DurableRequests
begin

text \<open>
  \<^verbatim>\<open>packages/drand-quicknet\<close>: the schedule of the rounds, the compressed signature and its witness, and
  fetching a beacon from the endpoints in order, each with its own deadline. \<^verbatim>\<open>packages/registry-sdk\<close>:
  the configured deployment and its verification on the chain.
\<close>

subsection \<open>Rounds\<close>

definition QUICKNET_GENESIS_TIMESTAMP :: int where
  "QUICKNET_GENESIS_TIMESTAMP = 1692803367"

definition QUICKNET_PERIOD_SECONDS :: int where
  "QUICKNET_PERIOD_SECONDS = 3"

definition roundAt :: "int \<Rightarrow> int" where
  "roundAt timestamp =
     (if timestamp < QUICKNET_GENESIS_TIMESTAMP then 0
      else (timestamp - QUICKNET_GENESIS_TIMESTAMP) div QUICKNET_PERIOD_SECONDS + 1)"

definition roundScheduledTime :: "int \<Rightarrow> exn + int" where
  "roundScheduledTime r =
     (if r = 0 then Inl (RangeError ''Quicknet round must be greater than zero.'')
      else Inr (QUICKNET_GENESIS_TIMESTAMP + (r - 1) * QUICKNET_PERIOD_SECONDS))"

subsection \<open>Signatures\<close>

definition COMPRESSED_SIGNATURE_BYTES :: nat where
  "COMPRESSED_SIGNATURE_BYTES = 48"

definition parseCompressedSignature :: "jsval \<Rightarrow> exn + jstr" where
  "parseCompressedSignature v =
     (case v of
        JString s \<Rightarrow>
          checkE (length s = COMPRESSED_SIGNATURE_BYTES * 2)
            (PlainError ''Invalid compressed Quicknet signature: expected 48 bytes.'') (\<lambda>_.
          checkE (list_all isHexUnit s)
            (PlainError ''Invalid compressed Quicknet signature: contains non-hex characters'') (\<lambda>_.
          Inr (js ''0x'' @ toLowerCase s)))
      | _ \<Rightarrow> Inl (TypeError ''Invalid compressed Quicknet signature: expected a string''))"

text \<open>
  The curve of \<^verbatim>\<open>@noble/curves\<close> is a parameter: decoding a point, checking that it is valid, encoding it
  and its affine ordinate.
\<close>

record 'p g1_curve =
  g1FromBytes :: "8 word list \<Rightarrow> exn + 'p"
  g1AssertValidity :: "'p \<Rightarrow> exn + unit"
  g1ToBytes :: "'p \<Rightarrow> 8 word list"
  g1AffineY :: "'p \<Rightarrow> int"

record SignatureWitness =
  yHi :: int
  yLo :: int

fun signatureBytes :: "jstr \<Rightarrow> 8 word list" where
  "signatureBytes (a # b # s) = word_of_int (16 * uint (the (hexValue a)) + uint (the (hexValue b))) # signatureBytes s"
| "signatureBytes _ = []"

definition LOW_LIMB_BITS :: nat where
  "LOW_LIMB_BITS = 256"

definition LOW_LIMB_MASK :: int where
  "LOW_LIMB_MASK = 2 ^ LOW_LIMB_BITS - 1"

definition createSignatureWitness :: "'p g1_curve \<Rightarrow> jsval \<Rightarrow> exn + SignatureWitness" where
  "createSignatureWitness G v =
     (case v of
        JString s \<Rightarrow>
          checkE (take 2 s = js ''0x'') (PlainError ''Invalid compressed Quicknet signature: expected a 0x prefix'') (\<lambda>_.
          bindE (parseCompressedSignature (JString (drop 2 s))) (\<lambda>normalized.
          let bytes = signatureBytes (drop 2 normalized) in
          checkE (and (hd bytes) 0xC0 = 0x80)
            (PlainError ''Invalid compressed Quicknet signature: invalid encoding flags'') (\<lambda>_.
          bindE (g1FromBytes G bytes) (\<lambda>point.
          bindE (g1AssertValidity G point) (\<lambda>_.
          checkE (g1ToBytes G point = bytes)
            (PlainError ''Invalid compressed Quicknet signature: noncanonical encoding'') (\<lambda>_.
          let y = g1AffineY G point in
          Inr \<lparr>yHi = drop_bit LOW_LIMB_BITS y, yLo = and y LOW_LIMB_MASK\<rparr>))))))
      | _ \<Rightarrow> Inl (TypeError ''Invalid compressed Quicknet signature: expected a string''))"

subsection \<open>UTF-8\<close>

text \<open>\<^verbatim>\<open>new TextDecoder('utf-8', { fatal: true })\<close>: ill-formed input fails, a byte order mark is dropped.\<close>

definition continuation :: "8 word \<Rightarrow> bool" where
  "continuation b = (0x80 \<le> b \<and> b \<le> 0xBF)"

definition scalarUnits :: "int \<Rightarrow> jstr" where
  "scalarUnits c =
     (if c < 0x10000 then [word_of_int c]
      else [word_of_int (0xD800 + (c - 0x10000) div 0x400), word_of_int (0xDC00 + (c - 0x10000) mod 0x400)])"

fun utf8Units :: "8 word list \<Rightarrow> jstr option" where
  "utf8Units [] = Some []"
| "utf8Units (a # r) =
     (if a < 0x80 then map_option ((@) [ucast a]) (utf8Units r)
      else if 0xC2 \<le> a \<and> a \<le> 0xDF then
        (case r of
           b # s \<Rightarrow>
             if continuation b then
               map_option ((@) (scalarUnits ((uint a - 0xC0) * 64 + (uint b - 0x80)))) (utf8Units s)
             else None
         | _ \<Rightarrow> None)
      else if 0xE0 \<le> a \<and> a \<le> 0xEF then
        (case r of
           b # c # s \<Rightarrow>
             if continuation b \<and> continuation c \<and> (a = 0xE0 \<longrightarrow> 0xA0 \<le> b) \<and> (a = 0xED \<longrightarrow> b \<le> 0x9F) then
               map_option ((@) (scalarUnits ((uint a - 0xE0) * 4096 + (uint b - 0x80) * 64 + (uint c - 0x80))))
                 (utf8Units s)
             else None
         | _ \<Rightarrow> None)
      else if 0xF0 \<le> a \<and> a \<le> 0xF4 then
        (case r of
           b # c # d # s \<Rightarrow>
             if continuation b \<and> continuation c \<and> continuation d \<and> (a = 0xF0 \<longrightarrow> 0x90 \<le> b) \<and> (a = 0xF4 \<longrightarrow> b \<le> 0x8F) then
               map_option ((@) (scalarUnits ((uint a - 0xF0) * 262144 + (uint b - 0x80) * 4096 + (uint c - 0x80) * 64 +
                 (uint d - 0x80)))) (utf8Units s)
             else None
         | _ \<Rightarrow> None)
      else None)"

definition decodeUtf8 :: "8 word list \<Rightarrow> jstr option" where
  "decodeUtf8 bytes =
     map_option (\<lambda>s. case s of u # t \<Rightarrow> if u = 0xFEFF then t else s | [] \<Rightarrow> []) (utf8Units bytes)"

subsection \<open>Fetching a beacon\<close>

definition MAX_RESPONSE_BYTES :: nat where
  "MAX_RESPONSE_BYTES = 16 * 1024"

definition MAX_FETCH_TIMEOUT_MS :: int where
  "MAX_FETCH_TIMEOUT_MS = 60000"

definition DEFAULT_TIMEOUT_MS :: int where
  "DEFAULT_TIMEOUT_MS = 5000"

text \<open>
  A response and the reads of its body up to the end, which the deadline makes finite. A timer answers
  with a test whether it has fired.
\<close>

record 'w http_response =
  httpOk :: bool
  httpReads :: "('w, 8 word list) io list option"

record 'w http_env =
  htFetch :: "jstr \<Rightarrow> ('w, 'w http_response) io"
  htTimer :: "int \<Rightarrow> ('w, 'w \<Rightarrow> bool) io"
  htNumbers :: number_format

record QuicknetBeacon =
  beaconRound :: int
  beaconSignature :: jstr

abbreviation REQUEST_TIMED_OUT :: exn where
  "REQUEST_TIMED_OUT \<equiv> PlainError ''Quicknet endpoint request timed out.''"

text \<open>The caller's signal and the deadline together.\<close>

definition anyAbort :: "('w \<Rightarrow> bool) \<Rightarrow> ('w \<Rightarrow> bool) \<Rightarrow> ('w, unit) io" where
  "anyAbort aborted expired =
     (\<lambda>w. if aborted w then (Inl AbortReason, w) else if expired w then (Inl REQUEST_TIMED_OUT, w) else (Inr (), w))"

text \<open>\<^verbatim>\<open>catch (error) { signal.throwIfAborted(); throw error; }\<close>\<close>

definition abortFirst :: "('w, unit) io \<Rightarrow> ('w, 'a) io \<Rightarrow> ('w, 'a) io" where
  "abortFirst check m = tryCatch m (\<lambda>e. andThen check (\<lambda>_. throw e))"

fun readChunks :: "('w, unit) io \<Rightarrow> ('w, 8 word list) io list \<Rightarrow> 8 word list \<Rightarrow> ('w, 8 word list) io" where
  "readChunks check [] buffer = andThen check (\<lambda>_. andThen check (\<lambda>_. ret buffer))"
| "readChunks check (r # rs) buffer =
     andThen check (\<lambda>_.
     andThen r (\<lambda>chunk.
     andThen check (\<lambda>_.
     andThen (unlessThrow (length chunk \<le> MAX_RESPONSE_BYTES - length buffer)
       (PlainError ''Invalid Quicknet response: body exceeds 16384 bytes'')) (\<lambda>_.
     readChunks check rs (buffer @ chunk)))))"

definition readBeaconResponse ::
  "number_format \<Rightarrow> ('w, unit) io \<Rightarrow> 'w http_response \<Rightarrow> ('w, jsval) io" where
  "readBeaconResponse N check response =
     (case httpReads response of
        None \<Rightarrow> andThen check (\<lambda>_. throw (PlainError ''Invalid Quicknet response: missing body''))
      | Some reads \<Rightarrow>
          abortFirst check
            (andThen check (\<lambda>_.
             andThen (readChunks check reads []) (\<lambda>bytes.
             case decodeUtf8 bytes of
               None \<Rightarrow> throw (TypeError ''The encoded data was not valid for encoding utf-8'')
             | Some text \<Rightarrow>
                 (case parseJson N text of
                    None \<Rightarrow> throw (PlainError ''SyntaxError'')
                  | Some v \<Rightarrow> ret v)))))"

definition validateTimeout :: "int \<Rightarrow> exn + unit" where
  "validateTimeout value =
     checkE (0 < value \<and> value \<le> MAX_FETCH_TIMEOUT_MS)
       (RangeError ''timeoutMs must be a positive safe integer no greater than 60000.'') (\<lambda>_. Inr ())"

definition removeTrailingSlashes :: "jstr \<Rightarrow> jstr" where
  "removeTrailingSlashes value = rev (dropWhile (\<lambda>u. u = 47) (rev value))"

definition beaconUrl :: "jstr \<Rightarrow> int \<Rightarrow> jstr" where
  "beaconUrl endpoint r = removeTrailingSlashes endpoint @ js ''/beacons/quicknet/rounds/'' @ showBigint r"

definition validateBeacon :: "int \<Rightarrow> jsval \<Rightarrow> exn + QuicknetBeacon" where
  "validateBeacon r v =
     (case v of
        JObject ps \<Rightarrow>
          (case ownData ps ''round'' of
             Some (JNum q) \<Rightarrow>
               checkE (safeInteger q) (PlainError ''Invalid Quicknet response: invalid round'') (\<lambda>_.
               checkE (\<lfloor>q\<rfloor> = r) (PlainError ''Quicknet round mismatch'') (\<lambda>_.
               bindE (parseCompressedSignature
                   (case ownData ps ''signature'' of Some x \<Rightarrow> x | None \<Rightarrow> JUndefined)) (\<lambda>signature.
               Inr \<lparr>beaconRound = r, beaconSignature = signature\<rparr>)))
           | _ \<Rightarrow> Inl (PlainError ''Invalid Quicknet response: invalid round''))
      | _ \<Rightarrow> Inl (PlainError ''Invalid Quicknet response: invalid round''))"

definition fetchBeaconFromEndpoint ::
  "'w http_env \<Rightarrow> ('w \<Rightarrow> bool) \<Rightarrow> int option \<Rightarrow> jstr \<Rightarrow> int \<Rightarrow> ('w, QuicknetBeacon) io" where
  "fetchBeaconFromEndpoint H aborted timeoutMs endpoint r =
     andThen (abortCheck aborted) (\<lambda>_.
     let timeout = (case timeoutMs of None \<Rightarrow> DEFAULT_TIMEOUT_MS | Some t \<Rightarrow> t) in
     andThen (liftPure (validateTimeout timeout)) (\<lambda>_.
     andThen (unlessThrow (0 < r) (RangeError ''Quicknet round must be greater than zero.'')) (\<lambda>_.
     andThen (htTimer H timeout) (\<lambda>expired.
     let check = anyAbort aborted expired in
     abortFirst check
       (andThen (htFetch H (beaconUrl endpoint r)) (\<lambda>response.
        andThen check (\<lambda>_.
        andThen (unlessThrow (httpOk response) (PlainError ''Failed to fetch Quicknet round'')) (\<lambda>_.
        andThen (readBeaconResponse (htNumbers H) check response) (\<lambda>v.
        andThen check (\<lambda>_.
        liftPure (validateBeacon r v)))))))))))"

fun fetchFrom ::
  "'w http_env \<Rightarrow> ('w \<Rightarrow> bool) \<Rightarrow> int option \<Rightarrow> int \<Rightarrow> jstr list \<Rightarrow> exn list \<Rightarrow> ('w, QuicknetBeacon) io" where
  "fetchFrom H aborted timeoutMs r [] errors =
     throw (AggregateError errors ''Failed to fetch Quicknet round from all endpoints.'')"
| "fetchFrom H aborted timeoutMs r (e # es) errors =
     (\<lambda>w. case fetchBeaconFromEndpoint H aborted timeoutMs e r w of
        (Inr b, v) \<Rightarrow> (Inr b, v)
      | (Inl x, v) \<Rightarrow> andThen (abortCheck aborted) (\<lambda>_. fetchFrom H aborted timeoutMs r es (errors @ [x])) v)"

definition fetchBeacon ::
  "'w http_env \<Rightarrow> ('w \<Rightarrow> bool) \<Rightarrow> int option \<Rightarrow> jstr list \<Rightarrow> int \<Rightarrow> ('w, QuicknetBeacon) io" where
  "fetchBeacon H aborted timeoutMs endpoints r =
     andThen (abortCheck aborted) (\<lambda>_.
     andThen (liftPure (validateTimeout (case timeoutMs of None \<Rightarrow> DEFAULT_TIMEOUT_MS | Some t \<Rightarrow> t))) (\<lambda>_.
     andThen (unlessThrow (endpoints \<noteq> []) (PlainError ''At least one Quicknet endpoint is required.'')) (\<lambda>_.
     fetchFrom H aborted timeoutMs r endpoints [])))"

definition QUICKNET_ENDPOINTS :: "jstr list" where
  "QUICKNET_ENDPOINTS = [js ''https://api.drand.sh/v2'', js ''https://api2.drand.sh/v2'', js ''https://api3.drand.sh/v2'']"

subsection \<open>The deployment of the registry\<close>

record deployment_tools =
  dtGetAddress :: "jstr \<Rightarrow> exn + jstr"
  dtKeccak256 :: "jstr \<Rightarrow> jstr"

record CreateRegistryDeploymentOptions =
  cdChainId :: jsval
  cdAddress :: jsval
  cdRuntimeCodehash :: jsval
  cdVerifierAddress :: jsval
  cdVerifierCodehash :: jsval

definition normalizeAddress :: "deployment_tools \<Rightarrow> jsval \<Rightarrow> exn + jstr" where
  "normalizeAddress T v =
     (case v of
        JString s \<Rightarrow>
          (case dtGetAddress T s of
             Inl cause \<Rightarrow> Inl (CausedError ''Registry deployment address must be a valid address.'' cause)
           | Inr a \<Rightarrow> Inr a)
      | _ \<Rightarrow> Inl (PlainError ''Registry deployment address must be a valid address.''))"

definition validateCodehash :: "jsval \<Rightarrow> exn + jstr" where
  "validateCodehash v =
     checkE (isFixedHex v 32) (PlainError ''Registry deployment codehash must be a 32-byte hex value.'')
       (\<lambda>_. Inr (stringOf v))"

definition createDeployment :: "deployment_tools \<Rightarrow> CreateRegistryDeploymentOptions \<Rightarrow> exn + RegistryDeployment" where
  "createDeployment T opts =
     checkE (isPositiveSafeInteger (cdChainId opts))
       (PlainError ''Registry deployment chainId must be a positive safe integer.'') (\<lambda>_.
     bindE (normalizeAddress T (cdAddress opts)) (\<lambda>address.
     bindE (normalizeAddress T (cdVerifierAddress opts)) (\<lambda>verifier.
     bindE (validateCodehash (cdRuntimeCodehash opts)) (\<lambda>codehash.
     bindE (validateCodehash (cdVerifierCodehash opts)) (\<lambda>verifierCodehash.
     Inr \<lparr>depChainId = numInt (cdChainId opts), depAddress = address, depRuntimeCodehash = codehash,
          depVerifierAddress = verifier, depVerifierCodehash = verifierCodehash\<rparr>)))))"

record 'w deployment_client =
  dcChainId :: "('w, int) io"
  dcGetCode :: "jstr \<Rightarrow> ('w, jstr option) io"
  dcRead :: "'w contract_reader"

definition noCode :: "jstr option \<Rightarrow> bool" where
  "noCode code = (code = None \<or> code = Some (js ''0x''))"

text \<open>The decoded answers of the two getters are strings.\<close>

definition readText :: "'w contract_reader \<Rightarrow> jstr \<Rightarrow> string \<Rightarrow> ('w, jstr) io" where
  "readText R address name =
     andThen (R address name [] None) (\<lambda>v.
     case v of JString s \<Rightarrow> ret s | _ \<Rightarrow> throw (TypeError ''Unexpected contract response.''))"

definition verifyRegistryDeployment ::
  "deployment_tools \<Rightarrow> 'w deployment_client \<Rightarrow> RegistryDeployment \<Rightarrow> ('w, unit) io" where
  "verifyRegistryDeployment T C d =
     andThen (dcChainId C) (\<lambda>chain.
     andThen (unlessThrow (chain = depChainId d) (PlainError ''Registry chain mismatch'')) (\<lambda>_.
     andThen (dcGetCode C (depAddress d)) (\<lambda>code.
     andThen (unlessThrow (\<not> noCode code) (PlainError ''No contract deployed at registry address'')) (\<lambda>_.
     andThen (unlessThrow (toLowerCase (dtKeccak256 T (the code)) = toLowerCase (depRuntimeCodehash d))
       (PlainError ''Registry runtime codehash mismatch'')) (\<lambda>_.
     andThen (readText (dcRead C) (depAddress d) ''verifier'') (\<lambda>verifier.
     andThen (liftPure (dtGetAddress T verifier)) (\<lambda>address.
     andThen (unlessThrow (address = depVerifierAddress d) (PlainError ''Registry verifier address mismatch'')) (\<lambda>_.
     andThen (readText (dcRead C) (depAddress d) ''verifierCodehash'') (\<lambda>hash.
     andThen (unlessThrow (toLowerCase hash = toLowerCase (depVerifierCodehash d))
       (PlainError ''Registry verifier codehash mismatch'')) (\<lambda>_.
     andThen (dcGetCode C (depVerifierAddress d)) (\<lambda>verifierCode.
     andThen (unlessThrow (\<not> noCode verifierCode) (PlainError ''No contract deployed at verifier address'')) (\<lambda>_.
     unlessThrow (toLowerCase (dtKeccak256 T (the verifierCode)) = toLowerCase (depVerifierCodehash d))
       (PlainError ''Verifier runtime codehash mismatch'')))))))))))))"

subsection \<open>What they guarantee\<close>

text \<open>The round at a time is the last one scheduled by then.\<close>

lemma roundAt_scheduled: "0 < r \<Longrightarrow> roundScheduledTime r = Inr t \<Longrightarrow> r \<le> roundAt u \<longleftrightarrow> t \<le> u"
  by (auto simp: roundScheduledTime_def roundAt_def QUICKNET_GENESIS_TIMESTAMP_def QUICKNET_PERIOD_SECONDS_def)

lemma validateBeacon_Inr: "validateBeacon r v = Inr b \<Longrightarrow> beaconRound b = r \<and>
    (\<exists>s. parseCompressedSignature s = Inr (beaconSignature b))"
  by (auto simp: validateBeacon_def bindE_Inr checkE_Inr split: jsval.splits option.splits)

lemma abortFirst_Inr [simp]: "abortFirst check m w = (Inr x, t) \<longleftrightarrow> m w = (Inr x, t)"
  by (auto simp: abortFirst_def tryCatch_def andThen_def throw_def split: prod.splits sum.splits)

lemma endpoint_wp:
  "wp (fetchBeaconFromEndpoint H aborted timeoutMs e r)
     (\<lambda>b w. beaconRound b = r \<and> (\<exists>s. parseCompressedSignature s = Inr (beaconSignature b))) (\<lambda>_ _. True) w"
proof (rule wpI)
  fix b t assume "fetchBeaconFromEndpoint H aborted timeoutMs e r w = (Inr b, t)"
  then obtain v where "validateBeacon r v = Inr b"
    by (auto simp: fetchBeaconFromEndpoint_def andThen_Inr Let_def)
  then show "beaconRound b = r \<and> (\<exists>s. parseCompressedSignature s = Inr (beaconSignature b))"
    by (rule validateBeacon_Inr)
qed simp

lemma fetchFrom_wp:
  "wp (fetchFrom H aborted timeoutMs r es errors)
     (\<lambda>b u. beaconRound b = r \<and> (\<exists>s. parseCompressedSignature s = Inr (beaconSignature b)))
     (\<lambda>x u. x = AbortReason \<and> aborted u \<or>
        (\<exists>more m. length more = length es \<and> x = AggregateError (errors @ more) m)) w"
proof (induction es arbitrary: errors w)
  case (Cons e es errors w)
  obtain q v where q: "fetchBeaconFromEndpoint H aborted timeoutMs e r w = (q, v)" by (cases "fetchBeaconFromEndpoint H aborted timeoutMs e r w")
  show ?case
  proof (cases q)
    case (Inr b)
    then show ?thesis using q endpoint_wp [of H aborted timeoutMs e r w] by (simp add: wp_def)
  next
    case (Inl x)
    have "wp (abortCheck aborted) (\<lambda>_ v. wp (fetchFrom H aborted timeoutMs r es (errors @ [x]))
        (\<lambda>b u. beaconRound b = r \<and> (\<exists>s. parseCompressedSignature s = Inr (beaconSignature b)))
        (\<lambda>y u. y = AbortReason \<and> aborted u \<or>
          (\<exists>more m. length more = length (e # es) \<and> y = AggregateError (errors @ more) m)) v)
      (\<lambda>y u. y = AbortReason \<and> aborted u \<or>
          (\<exists>more m. length more = length (e # es) \<and> y = AggregateError (errors @ more) m)) v"
    proof (rule wp_abortCheck)
      show "wp (fetchFrom H aborted timeoutMs r es (errors @ [x]))
        (\<lambda>b u. beaconRound b = r \<and> (\<exists>s. parseCompressedSignature s = Inr (beaconSignature b)))
        (\<lambda>y u. y = AbortReason \<and> aborted u \<or>
          (\<exists>more m. length more = length (e # es) \<and> y = AggregateError (errors @ more) m)) v"
      proof (rule wp_mono [OF Cons.IH [of "errors @ [x]" v]], assumption)
        fix y u assume "y = AbortReason \<and> aborted u \<or>
          (\<exists>more m. length more = length es \<and> y = AggregateError ((errors @ [x]) @ more) m)"
        then show "y = AbortReason \<and> aborted u \<or>
          (\<exists>more m. length more = length (e # es) \<and> y = AggregateError (errors @ more) m)"
          by (auto intro: exI [of _ "x # _"])
      qed
    qed simp
    then have "wp (andThen (abortCheck aborted) (\<lambda>_. fetchFrom H aborted timeoutMs r es (errors @ [x])))
        (\<lambda>b u. beaconRound b = r \<and> (\<exists>s. parseCompressedSignature s = Inr (beaconSignature b)))
        (\<lambda>y u. y = AbortReason \<and> aborted u \<or>
          (\<exists>more m. length more = length (e # es) \<and> y = AggregateError (errors @ more) m)) v"
      by (simp only: wp_andThen)
    then show ?thesis using q Inl by (simp add: wp_def)
  qed
qed (simp add: wp_throw)

end
