(* ===== verification/DaemonIteration.thy ===== *)
theory DaemonIteration
  imports DurableRequests
begin

text \<open>
  \<^verbatim>\<open>daemon/daemon-iteration.ts\<close>: one pass of the daemon for one consumer, first over the durable
  blocks with the persisted checkpoint, then over the blocks after them with a cursor in memory.
  The local variable \<^verbatim>\<open>currentOperation\<close>, which the progress callback of an import sets, is a field
  of the state beside the world; the cycle extends this record with its own locals.
\<close>

subsection \<open>State and services\<close>

datatype import_phase =
    VerifyDeployment | CheckStored | WaitForBeacon | FetchBeacon | ValidateBeacon
  | PrepareSubmission | SubmitTransaction | WaitForReceipt jstr | VerifyStoredBeacon jstr

record RoundImportProgress =
  progRound :: int
  progPhase :: import_phase

datatype scan_type = DurableScan | SoftScan

datatype OperationContext =
    LoadCheckpoint
  | ReadChainHeads
  | ScanRequests scan_type int int int
  | ProcessRequests scan_type int int
  | SaveCheckpoint int
  | ImportRound scan_type int int RoundImportProgress

record iteration_locals =
  currentOperation :: "OperationContext option"

text \<open>
  All services work on the whole state, so nothing is assumed about what they leave alone. The
  binder of the importer takes the progress callback.
\<close>

record 's iteration_env =
  itClient :: "'s chain_client"
  itLogs :: "'s log_reader"
  itRegistry :: "'s contract_reader"
  itBind :: "(RoundImportProgress \<Rightarrow> ('s, unit) io) \<Rightarrow> int \<Rightarrow> ('s, ImportQuicknetRoundResult) io"
  itDeployment :: RegistryDeployment
  itLoad :: "jstr \<Rightarrow> ('s, int option) io"
  itSave :: "jstr \<Rightarrow> int \<Rightarrow> ('s, unit) io"
  itConsumer :: jstr
  itStartBlock :: int
  itMaxRange :: int
  itFinality :: FinalityPolicy
  itReadHeads :: "('s, ChainHeads) io option"
  itOnOperation :: "(OperationContext \<Rightarrow> ('s, unit) io) option"
  itOnCompleted :: "(scan_type \<times> int \<times> ImportQuicknetRoundResult \<Rightarrow> ('s, unit) io) option"
  itOnIncomplete :: "(scan_type \<times> QuicknetRoundOutcome \<Rightarrow> ('s, unit) io) option"
  itOnReconciliation :: "(DurableRequestResult \<Rightarrow> ('s, unit) io) option"
  itAborted :: "'s \<Rightarrow> bool"

type_synonym ('r, 'w) istate = "'r iteration_locals_scheme \<times> 'w"

record ProcessedDaemonScan =
  psFrom :: int
  psTo :: int
  psNext :: int
  psRounds :: "(int \<times> ImportQuicknetRoundResult) list"
  psReconciliation :: "DurableRequestResult option"

datatype iteration_status = IterationCaughtUp | IterationProcessed | IterationDeferred

record RunDaemonIterationResult =
  riStatus :: iteration_status
  riConsumer :: jstr
  riHeads :: ChainHeads
  riDurableNext :: int
  riHeadRegressed :: bool
  riSoftNext :: int
  riDurableScan :: "ProcessedDaemonScan option"
  riSoftScan :: "ProcessedDaemonScan option"

definition reportOperation :: "('r, 'w) istate iteration_env \<Rightarrow> OperationContext \<Rightarrow> (('r, 'w) istate, unit) io" where
  "reportOperation I oper =
     andThen (modifyState (\<lambda>(l, w). (l\<lparr>currentOperation := Some oper\<rparr>, w))) (\<lambda>_.
     observe (itOnOperation I) oper)"

definition processOptions ::
  "('r, 'w) istate iteration_env \<Rightarrow> scan_type \<Rightarrow> int \<Rightarrow> int \<Rightarrow> ('r, 'w) istate process_options" where
  "processOptions I t fromB toB =
     \<lparr>procImport = itBind I (\<lambda>p. reportOperation I (ImportRound t fromB toB p)),
      procCompleted = Some (\<lambda>r. observe (itOnCompleted I) (t, r)),
      procIncomplete = Some (\<lambda>x. observe (itOnIncomplete I) (t, x)),
      procAborted = itAborted I\<rparr>"

subsection \<open>The durable scan\<close>

fun importFailure :: "QuicknetRoundOutcome list \<Rightarrow> exn option" where
  "importFailure [] = None"
| "importFailure (x # xs) = (case outStatus x of RoundFailed e \<Rightarrow> Some e | _ \<Rightarrow> importFailure xs)"

fun completedOutcomes :: "QuicknetRoundOutcome list \<Rightarrow> (int \<times> ImportQuicknetRoundResult) list" where
  "completedOutcomes [] = []"
| "completedOutcomes (x # xs) =
     (case outStatus x of RoundCompleted r \<Rightarrow> (outRound x, r) # completedOutcomes xs | _ \<Rightarrow> completedOutcomes xs)"

definition durableEnv :: "('r, 'w) istate iteration_env \<Rightarrow> int \<Rightarrow> int \<Rightarrow> ('r, 'w) istate durable_env" where
  "durableEnv I nextB durable =
     \<lparr>durClient = itClient I, durLogs = itLogs I, durRegistry = itRegistry I, durDeployment = itDeployment I,
      durConsumer = itConsumer I,
      durProcess = processOptions I DurableScan nextB (min (nextB + itMaxRange I - 1) durable)\<rparr>"

text \<open>
  The checkpoint is saved only when the decision is verified and ahead; its failure after a failed
  import carries both errors.
\<close>

definition saveCheckpoint ::
  "('r, 'w) istate iteration_env \<Rightarrow> DurableCheckpointDecision \<Rightarrow> exn option \<Rightarrow> int \<Rightarrow> (('r, 'w) istate, int) io" where
  "saveCheckpoint I decision failure nextB =
     (case decision of
        CheckpointVerified n \<Rightarrow>
          if nextB < n then
            andThen (reportOperation I (SaveCheckpoint n)) (\<lambda>_.
            andThen (tryCatch (itSave I (itConsumer I) n) (\<lambda>saveError.
              case failure of
                Some e \<Rightarrow> throw (AggregateError [saveError, e]
                  ''Checkpoint persistence failed after a round import failed.'')
              | None \<Rightarrow> throw saveError)) (\<lambda>_. ret n))
          else ret nextB
      | _ \<Rightarrow> ret nextB)"

definition durablePart ::
  "('r, 'w) istate iteration_env \<Rightarrow> int \<Rightarrow> int \<Rightarrow> (('r, 'w) istate, int \<times> ProcessedDaemonScan option) io" where
  "durablePart I durable nextB =
     (if durable < nextB then ret (nextB, None)
      else
        andThen (reportOperation I (ScanRequests DurableScan nextB durable (itMaxRange I))) (\<lambda>_.
        andThen (reconcileDurableRequests (durableEnv I nextB durable) nextB durable (itMaxRange I)) (\<lambda>r.
        andThen (observe (itOnReconciliation I) r) (\<lambda>_.
        andThen getState (\<lambda>s.
        andThen (saveCheckpoint I (durableCheckpoint r) (importFailure (durableImports r)) nextB) (\<lambda>savedB.
        case importFailure (durableImports r) of
          Some e \<Rightarrow>
            andThen (case currentOperation (fst s) of None \<Rightarrow> ret () | Some oper \<Rightarrow> reportOperation I oper) (\<lambda>_.
            throw e)
        | None \<Rightarrow>
            ret (savedB, case r of
              DurableScanned d \<Rightarrow> Some \<lparr>psFrom = dsFrom d, psTo = dsTo d, psNext = savedB,
                psRounds = completedOutcomes (durableImports r), psReconciliation = Some r\<rparr>
            | _ \<Rightarrow> None)))))))"

subsection \<open>The soft scan\<close>

definition getSoftNextBlock :: "int option \<Rightarrow> int \<Rightarrow> int \<Rightarrow> int" where
  "getSoftNextBlock cursor durableNext durable =
     (let firstNonDurable = durable + 1;
          minimumSoft = (if durableNext < firstNonDurable then firstNonDurable else durableNext)
      in case cursor of
           None \<Rightarrow> minimumSoft
         | Some c \<Rightarrow> if c < minimumSoft then minimumSoft else c)"

definition softPart ::
  "('r, 'w) istate iteration_env \<Rightarrow> int \<Rightarrow> int \<Rightarrow> (('r, 'w) istate, int \<times> ProcessedDaemonScan option) io" where
  "softPart I latest nextB =
     andThen (reportOperation I (ScanRequests SoftScan nextB latest (itMaxRange I))) (\<lambda>_.
     andThen (abortCheck (itAborted I)) (\<lambda>_.
     andThen (scanQuicknetRequests (itLogs I) [itConsumer I] nextB latest (itMaxRange I)) (\<lambda>scan.
     andThen (abortCheck (itAborted I)) (\<lambda>_.
     case scan of
       ScanCaughtUp _ _ \<Rightarrow> ret (nextB, None)
     | Scanned _ fromB toB afterB rs \<Rightarrow>
         andThen (reportOperation I (ProcessRequests SoftScan fromB toB)) (\<lambda>_.
         andThen (processQuicknetRequests (processOptions I SoftScan fromB toB) rs) (\<lambda>rounds.
         andThen (abortCheck (itAborted I)) (\<lambda>_.
         ret (afterB, Some \<lparr>psFrom = fromB, psTo = toB, psNext = afterB, psRounds = rounds,
               psReconciliation = None\<rparr>))))))))"

subsection \<open>The iteration\<close>

definition iterationStatus ::
  "ProcessedDaemonScan option \<Rightarrow> ProcessedDaemonScan option \<Rightarrow> int \<Rightarrow> int \<Rightarrow> iteration_status" where
  "iterationStatus d s durableNext durable =
     (if d \<noteq> None \<or> s \<noteq> None then IterationProcessed
      else if durableNext \<le> durable then IterationDeferred else IterationCaughtUp)"

definition validateIterationOptions :: "int \<Rightarrow> int \<Rightarrow> int option \<Rightarrow> ('s, unit) io" where
  "validateIterationOptions start maxRange cursor =
     andThen (unlessThrow (0 \<le> start) (PlainError ''startBlock must not be negative.'')) (\<lambda>_.
     andThen (unlessThrow (0 < maxRange) (PlainError ''maxBlockRange must be greater than zero.'')) (\<lambda>_.
     unlessThrow (case cursor of None \<Rightarrow> True | Some c \<Rightarrow> 0 \<le> c)
       (PlainError ''Soft cursor nextBlock must not be negative.'')))"

definition headRegressed :: "int option \<Rightarrow> int \<Rightarrow> bool" where
  "headRegressed checkpoint durable =
     (case checkpoint of None \<Rightarrow> False | Some c \<Rightarrow> 0 < c \<and> durable < c - 1)"

definition runDaemonIteration ::
  "('r, 'w) istate iteration_env \<Rightarrow> int option \<Rightarrow> (('r, 'w) istate, RunDaemonIterationResult) io" where
  "runDaemonIteration I cursor =
     andThen (modifyState (\<lambda>(l, w). (l\<lparr>currentOperation := None\<rparr>, w))) (\<lambda>_.
     andThen (validateIterationOptions (itStartBlock I) (itMaxRange I) cursor) (\<lambda>_.
     andThen (abortCheck (itAborted I)) (\<lambda>_.
     andThen (reportOperation I LoadCheckpoint) (\<lambda>_.
     andThen (itLoad I (itConsumer I)) (\<lambda>checkpoint.
     andThen (abortCheck (itAborted I)) (\<lambda>_.
     andThen (reportOperation I ReadChainHeads) (\<lambda>_.
     andThen (case itReadHeads I of
         Some m \<Rightarrow> m | None \<Rightarrow> getChainHeads (itClient I) (itFinality I)) (\<lambda>heads.
     andThen (abortCheck (itAborted I)) (\<lambda>_.
     andThen (durablePart I (durableBlock heads)
         (case checkpoint of None \<Rightarrow> itStartBlock I | Some c \<Rightarrow> c)) (\<lambda>(durableNext, durableScan).
     andThen (softPart I (latestBlock heads)
         (getSoftNextBlock cursor durableNext (durableBlock heads))) (\<lambda>(softNext, softScan).
     ret \<lparr>riStatus = iterationStatus durableScan softScan durableNext (durableBlock heads),
          riConsumer = itConsumer I, riHeads = heads, riDurableNext = durableNext,
          riHeadRegressed = headRegressed checkpoint (durableBlock heads), riSoftNext = softNext,
          riDurableScan = durableScan, riSoftScan = softScan\<rparr>)))))))))))"

end
