(* ===== verification/Beacons.thy ===== *)
theory Beacons
  imports Quicknet TransactionManager DaemonIteration
begin

text \<open>
  \<^verbatim>\<open>rounds\<close>: importing one round into the registry. Waiting for the round, fetching its beacon with
  retries, choosing the submission by simulation, submitting it through the transaction manager and
  checking what was stored.
\<close>

subsection \<open>Work identity\<close>

definition createBeaconWorkId :: "int \<Rightarrow> jstr \<Rightarrow> int \<Rightarrow> exn + jstr" where
  "createBeaconWorkId chain registry r =
     checkE (0 < chain \<and> chain \<le> MAX_SAFE_INTEGER \<and> fixedHex registry 20 \<and> 0 < r \<and> r \<le> MAX_UINT64)
       (TypeError ''Invalid beacon work identity input.'') (\<lambda>_.
     let wid = js ''quicknet-round:v1:'' @ showBigint chain @ js '':'' @ toLowerCase registry @ js '':'' @ showBigint r
     in checkE (workId wid) (TypeError ''Invalid beacon work identity.'') (\<lambda>_. Inr wid))"

subsection \<open>Services\<close>

datatype submission_call =
    SubmitBeacon int jstr
  | SubmitBeaconWithWitness int jstr int int

record simulation_request =
  srAddress :: jstr
  srCall :: submission_call
  srGas :: "int option"

record simulation =
  simRequest :: simulation_request
  simResult :: jstr

datatype receipt_state = ReceiptSuccess | ReceiptReverted

record mined_receipt =
  mrStatus :: receipt_state
  mrTransactionHash :: jstr
  mrBlockNumber :: int

record 'w beacon_submitter =
  bsFindRetained :: "jstr \<Rightarrow> ('w, (jstr \<times> jstr) option) io"
  bsSubmit :: "simulation_request \<Rightarrow> ('w, SubmitTransactionWorkResult) io"

text \<open>
  The services of an import: the client's reads, its simulation of a call and its wait for a receipt,
  the endpoints, the clock and the timer, and the submitter.
\<close>

record ('w, 'p) import_env =
  imTools :: deployment_tools
  imClient :: "'w deployment_client"
  imDeployment :: RegistryDeployment
  imSimulate :: "jstr \<Rightarrow> submission_call \<Rightarrow> ('w, simulation) io"
  imWaitReceipt :: "jstr \<Rightarrow> int \<Rightarrow> ('w, mined_receipt) io"
  imCurve :: "'p g1_curve"
  imHttp :: "'w http_env"
  imNow :: "('w, int) io"
  imDelay :: "int \<Rightarrow> ('w, unit) io"
  imSubmitter :: "'w beacon_submitter"
  imReceiptTimeout :: "int option"
  imFetchTimeout :: "int option"
  imOnProgress :: "(RoundImportProgress \<Rightarrow> ('w, unit) io) option"
  imAborted :: "'w \<Rightarrow> bool"

definition DEFAULT_RECEIPT_TIMEOUT_MS :: int where
  "DEFAULT_RECEIPT_TIMEOUT_MS = 30000"

definition MAX_RECEIPT_TIMEOUT_MS :: int where
  "MAX_RECEIPT_TIMEOUT_MS = 2147483647"

definition validateReceiptTimeoutMs :: "int \<Rightarrow> exn + int" where
  "validateReceiptTimeoutMs value =
     checkE (0 < value \<and> value \<le> MAX_RECEIPT_TIMEOUT_MS) (TypeError ''Invalid receipt timeout.'') (\<lambda>_. Inr value)"

definition validateFetchTimeoutMs :: "int \<Rightarrow> exn + int" where
  "validateFetchTimeoutMs value =
     checkE (0 < value \<and> value \<le> MAX_FETCH_TIMEOUT_MS)
       (RangeError ''timeoutMs must be a positive safe integer no greater than 60000.'') (\<lambda>_. Inr value)"

definition optionalFetchTimeout :: "int option \<Rightarrow> exn + unit" where
  "optionalFetchTimeout t = (case t of None \<Rightarrow> Inr () | Some x \<Rightarrow> bindE (validateFetchTimeoutMs x) (\<lambda>_. Inr ()))"

definition progress :: "('w, 'p) import_env \<Rightarrow> int \<Rightarrow> import_phase \<Rightarrow> ('w, unit) io" where
  "progress E r p = observe (imOnProgress E) \<lparr>progRound = r, progPhase = p\<rparr>"

subsection \<open>Waiting and fetching\<close>

text \<open>\<^verbatim>\<open>sleepFor\<close>: a cancelled timer rejects with the reason of the signal.\<close>

definition sleepFor :: "('w, 'p) import_env \<Rightarrow> int \<Rightarrow> ('w, unit) io" where
  "sleepFor E ms = abortFirst (abortCheck (imAborted E)) (imDelay E ms)"

definition waitForQuicknetRound :: "('w, 'p) import_env \<Rightarrow> int \<Rightarrow> ('w, unit) io" where
  "waitForQuicknetRound E r =
     andThen (unlessThrow (0 < r) (RangeError ''Quicknet round must be greater than zero.'')) (\<lambda>_.
     andThen (abortCheck (imAborted E)) (\<lambda>_.
     andThen (liftPure (roundScheduledTime r)) (\<lambda>scheduled.
     andThen (imNow E) (\<lambda>nowMs.
     if scheduled * 1000 \<le> nowMs then ret ()
     else
       andThen (unlessThrow (scheduled * 1000 - nowMs \<le> MAX_SAFE_INTEGER)
         (RangeError ''Quicknet round is too far in the future to wait for safely.'')) (\<lambda>_.
       andThen (sleepFor E (scheduled * 1000 - nowMs)) (\<lambda>_.
       abortCheck (imAborted E)))))))"

definition DEFAULT_MAX_ATTEMPTS :: nat where
  "DEFAULT_MAX_ATTEMPTS = 8"

definition DEFAULT_RETRY_DELAY_MS :: int where
  "DEFAULT_RETRY_DELAY_MS = 250"

text \<open>One attempt, and the loop with the attempts that are left.\<close>

definition fetchAttempt :: "('w, 'p) import_env \<Rightarrow> int \<Rightarrow> ('w, QuicknetBeacon) io" where
  "fetchAttempt E r =
     andThen (fetchBeacon (imHttp E) (imAborted E) (imFetchTimeout E) QUICKNET_ENDPOINTS r) (\<lambda>beacon.
     andThen (abortCheck (imAborted E)) (\<lambda>_.
     andThen (unlessThrow (beaconRound beacon = r) (PlainError ''Quicknet round mismatch'')) (\<lambda>_.
     ret beacon)))"

fun fetchAttempts :: "('w, 'p) import_env \<Rightarrow> int \<Rightarrow> int \<Rightarrow> nat \<Rightarrow> ('w, QuicknetBeacon) io" where
  "fetchAttempts E r delay 0 = throw (CausedError ''Failed to fetch Quicknet round'' (PlainError ''undefined''))"
| "fetchAttempts E r delay (Suc n) =
     andThen (abortCheck (imAborted E)) (\<lambda>_.
     \<lambda>w. case fetchAttempt E r w of
       (Inr b, v) \<Rightarrow> (Inr b, v)
     | (Inl e, v) \<Rightarrow>
         andThen (abortCheck (imAborted E)) (\<lambda>_.
         if n = 0 then throw (CausedError ''Failed to fetch Quicknet round'' e)
         else andThen (sleepFor E delay) (\<lambda>_. fetchAttempts E r delay n)) v)"

definition fetchQuicknetBeaconWithRetry :: "('w, 'p) import_env \<Rightarrow> int \<Rightarrow> nat \<Rightarrow> int \<Rightarrow> ('w, QuicknetBeacon) io" where
  "fetchQuicknetBeaconWithRetry E r maxAttempts delay =
     andThen (unlessThrow (0 < r) (RangeError ''Quicknet round must be greater than zero.'')) (\<lambda>_.
     andThen (unlessThrow (0 < maxAttempts \<and> int maxAttempts \<le> MAX_SAFE_INTEGER)
       (RangeError ''maxAttempts must be a positive safe integer.'')) (\<lambda>_.
     andThen (unlessThrow (0 \<le> delay \<and> delay \<le> MAX_SAFE_INTEGER)
       (RangeError ''retryDelayMs must be a non-negative safe integer.'')) (\<lambda>_.
     andThen (liftPure (optionalFetchTimeout (imFetchTimeout E))) (\<lambda>_.
     fetchAttempts E r delay maxAttempts))))"

subsection \<open>Choosing the submission\<close>

definition simulateCompressed ::
  "('w, 'p) import_env \<Rightarrow> int \<Rightarrow> jstr \<Rightarrow> witness_fallback \<Rightarrow> ('w, simulation \<times> submission_details) io" where
  "simulateCompressed E r signature reason =
     andThen (imSimulate E (depAddress (imDeployment E)) (SubmitBeacon r signature)) (\<lambda>s.
     ret (s, CompressedSubmission reason))"

text \<open>The decoded error of a witness the verifier rejected, and nothing else, leads to the other call.\<close>

definition witnessRejected :: "RegistryDeployment \<Rightarrow> exn \<Rightarrow> bool" where
  "witnessRejected d e =
     (case e of
        ContractExecutionError (Some address) function (Some name) \<Rightarrow>
          toLowerCase address = toLowerCase (depAddress d) \<and> function = ''submitBeaconWithWitness'' \<and>
          name = ''InvalidBeacon''
      | _ \<Rightarrow> False)"

definition simulateBeaconSubmission ::
  "('w, 'p) import_env \<Rightarrow> int \<Rightarrow> jstr \<Rightarrow> ('w, simulation \<times> submission_details) io" where
  "simulateBeaconSubmission E r signature =
     (case createSignatureWitness (imCurve E) (JString signature) of
        Inl _ \<Rightarrow> simulateCompressed E r signature WitnessDecodeFailed
      | Inr witness \<Rightarrow>
          (\<lambda>w. case imSimulate E (depAddress (imDeployment E))
                (SubmitBeaconWithWitness r signature (yHi witness) (yLo witness)) w of
             (Inr s, v) \<Rightarrow> (Inr (s, WitnessSubmission), v)
           | (Inl e, v) \<Rightarrow>
               if witnessRejected (imDeployment E) e then simulateCompressed E r signature WitnessRejected v
               else (Inl e, v)))"

subsection \<open>Importing\<close>

fun outcomeHash :: "TransactionBroadcastOutcome \<Rightarrow> jstr" where
  "outcomeHash b = paTransactionHash (boAttempt b)"

text \<open>Five reads of the stored beacon, half a second apart.\<close>

fun readStoredBeacon :: "('w, 'p) import_env \<Rightarrow> int \<Rightarrow> int \<Rightarrow> nat \<Rightarrow> ('w, jsval) io" where
  "readStoredBeacon E r block 0 = throw (PlainError ''undefined'')"
| "readStoredBeacon E r block (Suc n) =
     (\<lambda>w. case registryGetBeacon (dcRead (imClient E)) (imDeployment E) r (Some block) w of
        (Inr x, v) \<Rightarrow> (Inr x, v)
      | (Inl e, v) \<Rightarrow>
          if n = 0 then (Inl e, v)
          else andThen (imDelay E 500) (\<lambda>_. readStoredBeacon E r block n) v)"

definition randomnessText :: "jsval \<Rightarrow> exn + jstr" where
  "randomnessText v = (case v of JString s \<Rightarrow> Inr s | _ \<Rightarrow> Inl (TypeError ''Unexpected contract response.''))"

definition afterReceipt ::
  "('w, 'p) import_env \<Rightarrow> int \<Rightarrow> simulation \<Rightarrow> submission_details \<Rightarrow> mined_receipt \<Rightarrow>
   ('w, ImportQuicknetRoundResult) io" where
  "afterReceipt E r sim details receipt =
     andThen (unlessThrow (mrStatus receipt = ReceiptSuccess) (PlainError ''Registry submission reverted'')) (\<lambda>_.
     andThen (progress E r (VerifyStoredBeacon (mrTransactionHash receipt))) (\<lambda>_.
     andThen (readStoredBeacon E r (mrBlockNumber receipt) 5) (\<lambda>v.
     andThen (liftPure (randomnessText v)) (\<lambda>stored.
     andThen (unlessThrow (toLowerCase stored = toLowerCase (simResult sim))
       (PlainError ''Stored randomness mismatch for Quicknet round'')) (\<lambda>_.
     ret (Imported r stored (mrTransactionHash receipt) details))))))"

definition awaitBroadcast ::
  "('w, 'p) import_env \<Rightarrow> int \<Rightarrow> int \<Rightarrow> simulation \<Rightarrow> submission_details \<Rightarrow> TransactionBroadcastOutcome \<Rightarrow>
   ('w, ImportQuicknetRoundResult) io" where
  "awaitBroadcast E r timeout sim details b =
     (let pending = ImportPending r (paAttemptId (boAttempt b)) (outcomeHash b) in
      if \<not> boAcknowledged b then ret (pending BroadcastNotAcknowledged)
      else
        andThen (progress E r (WaitForReceipt (outcomeHash b))) (\<lambda>_.
        \<lambda>w. case imWaitReceipt E (outcomeHash b) timeout w of
          (Inl e, v) \<Rightarrow> if e = ReceiptTimeoutError then (Inr (pending ReceiptTimeout), v) else (Inl e, v)
        | (Inr receipt, v) \<Rightarrow> afterReceipt E r sim details receipt v))"

definition checkRoundOptions :: "('w, 'p) import_env \<Rightarrow> int \<Rightarrow> ('w, int) io" where
  "checkRoundOptions E r =
     andThen (unlessThrow (0 < r) (RangeError ''Quicknet round must be greater than zero.'')) (\<lambda>_.
     andThen (liftPure (validateReceiptTimeoutMs
       (case imReceiptTimeout E of None \<Rightarrow> DEFAULT_RECEIPT_TIMEOUT_MS | Some t \<Rightarrow> t))) (\<lambda>timeout.
     andThen (liftPure (optionalFetchTimeout (imFetchTimeout E))) (\<lambda>_.
     andThen (abortCheck (imAborted E)) (\<lambda>_. ret timeout))))"

text \<open>The deployment is verified, and a stored round needs nothing more.\<close>

definition checkRegistry :: "('w, 'p) import_env \<Rightarrow> int \<Rightarrow> ('w, jstr option) io" where
  "checkRegistry E r =
     andThen (progress E r VerifyDeployment) (\<lambda>_.
     andThen (verifyRegistryDeployment (imTools E) (imClient E) (imDeployment E)) (\<lambda>_.
     andThen (progress E r CheckStored) (\<lambda>_.
     andThen (abortCheck (imAborted E)) (\<lambda>_.
     andThen (registryIsStored (dcRead (imClient E)) (imDeployment E) r None) (\<lambda>stored.
     andThen (abortCheck (imAborted E)) (\<lambda>_.
     if stored = JBool True then
       andThen (registryGetBeacon (dcRead (imClient E)) (imDeployment E) r None) (\<lambda>v.
       andThen (liftPure (randomnessText v)) (\<lambda>randomness. ret (Some randomness)))
     else ret None))))))"

definition submitRound ::
  "('w, 'p) import_env \<Rightarrow> int \<Rightarrow> int \<Rightarrow> QuicknetBeacon \<Rightarrow> ('w, ImportQuicknetRoundResult) io" where
  "submitRound E r timeout beacon =
     andThen (abortCheck (imAborted E)) (\<lambda>_.
     andThen (progress E r ValidateBeacon) (\<lambda>_.
     andThen (unlessThrow (beaconRound beacon = r) (PlainError ''Quicknet round mismatch'')) (\<lambda>_.
     andThen (progress E r PrepareSubmission) (\<lambda>_.
     andThen (simulateBeaconSubmission E r (beaconSignature beacon)) (\<lambda>(sim, details).
     andThen (progress E r SubmitTransaction) (\<lambda>_.
     andThen (abortCheck (imAborted E)) (\<lambda>_.
     andThen (bsSubmit (imSubmitter E) (simRequest sim)) (\<lambda>submitted.
     case submitted of
       RetainedWork wid aid \<Rightarrow> ret (ImportRetained r aid wid)
     | DeferredWork reason _ \<Rightarrow> ret (ImportUnavailable r reason)
     | SubmissionFailed e _ \<Rightarrow> throw (TransactionSubmissionError e)
     | SubmittedWork b \<Rightarrow> awaitBroadcast E r timeout sim details b))))))))"

definition importQuicknetRound ::
  "('w, 'p) import_env \<Rightarrow> int \<Rightarrow> QuicknetBeacon option \<Rightarrow> ('w, ImportQuicknetRoundResult) io" where
  "importQuicknetRound E r provided =
     andThen (checkRoundOptions E r) (\<lambda>timeout.
     andThen (checkRegistry E r) (\<lambda>stored.
     case stored of
       Some randomness \<Rightarrow> ret (AlreadyStored r randomness)
     | None \<Rightarrow>
         andThen (case provided of
             Some b \<Rightarrow> ret b
           | None \<Rightarrow>
               andThen (progress E r FetchBeacon) (\<lambda>_.
               andThen (abortCheck (imAborted E)) (\<lambda>_.
               fetchBeacon (imHttp E) (imAborted E) (imFetchTimeout E) QUICKNET_ENDPOINTS r))) (\<lambda>beacon.
         submitRound E r timeout beacon)))"

definition importQuicknetRoundWhenAvailable ::
  "('w, 'p) import_env \<Rightarrow> int \<Rightarrow> ('w, ImportQuicknetRoundResult) io" where
  "importQuicknetRoundWhenAvailable E r =
     andThen (checkRoundOptions E r) (\<lambda>timeout.
     andThen (checkRegistry E r) (\<lambda>stored.
     case stored of
       Some randomness \<Rightarrow> ret (AlreadyStored r randomness)
     | None \<Rightarrow>
         andThen (progress E r WaitForBeacon) (\<lambda>_.
         andThen (waitForQuicknetRound E r) (\<lambda>_.
         andThen (abortCheck (imAborted E)) (\<lambda>_.
         andThen (progress E r FetchBeacon) (\<lambda>_.
         andThen (fetchQuicknetBeaconWithRetry E r DEFAULT_MAX_ATTEMPTS DEFAULT_RETRY_DELAY_MS) (\<lambda>beacon.
         andThen (abortCheck (imAborted E)) (\<lambda>_.
         importQuicknetRound (E\<lparr>imReceiptTimeout := Some timeout, imFetchTimeout := None\<rparr>) r (Some beacon))))))))) "

text \<open>
  The importer of the daemon: work that is already retained is deferred without a transaction. The
  options that every round shares are checked once, when the importer is made.
\<close>

definition importRound :: "('w, 'p) import_env \<Rightarrow> int \<Rightarrow> ('w, ImportQuicknetRoundResult) io" where
  "importRound E r =
     andThen (unlessThrow (0 < r) (RangeError ''Quicknet round must be greater than zero.'')) (\<lambda>_.
     andThen (abortCheck (imAborted E)) (\<lambda>_.
     andThen (liftPure (createBeaconWorkId (depChainId (imDeployment E)) (depAddress (imDeployment E)) r)) (\<lambda>wid.
     andThen (bsFindRetained (imSubmitter E) wid) (\<lambda>retained.
     case retained of
       Some (aid, w) \<Rightarrow> ret (ImportRetained r aid w)
     | None \<Rightarrow> importQuicknetRoundWhenAvailable E r))))"

text \<open>
  The submitter and the observer are those of the binding; the options have the rest. The signal is the
  same for every binding.
\<close>

type_synonym 'w round_binder =
  "'w beacon_submitter \<Rightarrow> (RoundImportProgress \<Rightarrow> ('w, unit) io) \<Rightarrow> int \<Rightarrow> ('w, ImportQuicknetRoundResult) io"

definition createRoundImporter :: "('w, 'p) import_env \<Rightarrow> exn + 'w round_binder" where
  "createRoundImporter E =
     bindE (validateReceiptTimeoutMs
       (case imReceiptTimeout E of None \<Rightarrow> DEFAULT_RECEIPT_TIMEOUT_MS | Some t \<Rightarrow> t)) (\<lambda>_.
     bindE (optionalFetchTimeout (imFetchTimeout E)) (\<lambda>_.
     Inr (\<lambda>submitter onProgress. importRound (E\<lparr>imSubmitter := submitter, imOnProgress := Some onProgress\<rparr>))))"

subsection \<open>The submitter on the manager\<close>

text \<open>viem's \<^verbatim>\<open>encodeFunctionData\<close> for the registry's interface is a parameter.\<close>

definition encodeBeaconSubmission :: "(submission_call \<Rightarrow> exn + jstr) \<Rightarrow> simulation_request \<Rightarrow> exn + TransactionCall" where
  "encodeBeaconSubmission encode request =
     bindE (encode (srCall request)) (\<lambda>bytes.
     Inr \<lparr>callTo = srAddress request, callData = bytes, callValue = 0, callGas = None\<rparr>)"

fun submittedRound :: "submission_call \<Rightarrow> int" where
  "submittedRound (SubmitBeacon r _) = r"
| "submittedRound (SubmitBeaconWithWitness r _ _ _) = r"

definition submitBeaconTransaction ::
  "'w manager_env \<Rightarrow> (submission_call \<Rightarrow> exn + jstr) \<Rightarrow> ('w \<Rightarrow> bool) \<Rightarrow> nat option \<Rightarrow> simulation_request \<Rightarrow>
   ('w mstate, SubmitTransactionWorkResult) io" where
  "submitBeaconTransaction M encode aborted cycle request =
     andThen (checkAborted aborted) (\<lambda>_.
     andThen getState (\<lambda>s.
     andThen (liftPure (managerStatus s)) (\<lambda>st.
     andThen (liftPure (createBeaconWorkId (tmChainId st) (srAddress request) (submittedRound (srCall request)))) (\<lambda>wid.
     andThen (liftPure (encodeBeaconSubmission encode request)) (\<lambda>call.
     submit M (call\<lparr>callGas := srGas request\<rparr>) wid aborted cycle)))))"

definition findRetainedWork :: "jstr \<Rightarrow> ('w mstate, (jstr \<times> jstr) option) io" where
  "findRetainedWork wid =
     andThen getState (\<lambda>s.
     andThen (liftPure (managerStatus s)) (\<lambda>st.
     ret (map_option (\<lambda>a. (asAttemptId a, asWorkId a)) (find (\<lambda>a. asWorkId a = wid) (tmAttempts st)))))"

definition createBeaconSubmitter ::
  "'w manager_env \<Rightarrow> (submission_call \<Rightarrow> exn + jstr) \<Rightarrow> ('w \<Rightarrow> bool) \<Rightarrow> nat option \<Rightarrow> 'w mstate beacon_submitter" where
  "createBeaconSubmitter M encode aborted cycle =
     \<lparr>bsFindRetained = findRetainedWork, bsSubmit = submitBeaconTransaction M encode aborted cycle\<rparr>"

text \<open>Recovery at the heads of the chain, which the daemon runs before every cycle.\<close>

abbreviation outside :: "('w, 'a) io \<Rightarrow> ('w mstate, 'a) io" where
  "outside m \<equiv> onWorld (onWorld (onWorld m))"

definition recoverSubmitter ::
  "'w manager_env \<Rightarrow> ('w, ChainHeads) io \<Rightarrow> ('w \<Rightarrow> bool) \<Rightarrow> nat option \<Rightarrow> ('w mstate, TransactionReconciliationReport) io" where
  "recoverSubmitter M readHeads aborted cycle =
     andThen (checkAborted aborted) (\<lambda>_.
     andThen (outside readHeads) (\<lambda>heads.
     andThen (checkAborted aborted) (\<lambda>_.
     andThen (unlessThrow (durableBlock heads \<le> latestBlock heads)
       (PlainError ''Cannot recover a signer with the durable block ahead of latest.'')) (\<lambda>_.
     andThen (outside (getBlockAnchor (mgrClient M) (durableBlock heads))) (\<lambda>durable.
     andThen (checkAborted aborted) (\<lambda>_.
     andThen (if latestBlock heads = durableBlock heads then ret durable
        else andThen (outside (getBlockAnchor (mgrClient M) (latestBlock heads))) (\<lambda>head.
          andThen (checkAborted aborted) (\<lambda>_. ret head))) (\<lambda>head.
     reconcile M head durable aborted cycle)))))))"

end
