(* ===== verification/Daemon.thy ===== *)
theory Daemon
  imports Beacons
begin

text \<open>
  \<^verbatim>\<open>daemon/daemon-cycle.ts\<close> and \<^verbatim>\<open>daemon/daemon.ts\<close>: a cycle recovers the signer and then makes one
  pass per consumer, in which the failure of one consumer does not stop the others; the daemon
  repeats the cycle until it is aborted.
\<close>

subsection \<open>State\<close>

text \<open>The locals of the cycle that its callbacks write, and the cursors the daemon keeps.\<close>

record cycle_locals = iteration_locals +
  lastOperation :: "OperationContext option"
  completedImports :: "(scan_type \<times> int \<times> ImportQuicknetRoundResult) list"
  incompleteRounds :: "(scan_type \<times> QuicknetRoundOutcome) list"
  reconciliationOf :: "DurableRequestResult option"
  softCursors :: "jstr \<Rightarrow> int option"

type_synonym 'w dstate = "cycle_locals \<times> 'w"

record ValidatedQuicknetConsumer =
  consumerAddress :: jstr
  consumerRegistry :: jstr

text \<open>
  What the importer is created from, the submitter of each cycle, and the services of each cycle, whose
  importer is set when the daemon starts.
\<close>

record ('w, 'p) daemon_env =
  dmImport :: "('w dstate, 'p) import_env"
  dmSubmitter :: "int \<Rightarrow> 'w dstate beacon_submitter"
  dmServices :: "int \<Rightarrow> 'w dstate iteration_env"
  dmRecover :: "int \<Rightarrow> ('w dstate, unit) io"
  dmConsumers :: "ValidatedQuicknetConsumer list"
  dmPollInterval :: jsval
  dmSleep :: "jsval \<Rightarrow> ('w dstate, unit) io"
  dmAborted :: "'w dstate \<Rightarrow> bool"

datatype DaemonConsumerCycleResult =
    ConsumerSucceeded ValidatedQuicknetConsumer RunDaemonIterationResult
      "(scan_type \<times> QuicknetRoundOutcome) list" "DurableRequestResult option"
  | ConsumerFailed ValidatedQuicknetConsumer exn "OperationContext option"
      "(scan_type \<times> int \<times> ImportQuicknetRoundResult) list" "(scan_type \<times> QuicknetRoundOutcome) list"
      "DurableRequestResult option"

definition locally :: "(cycle_locals \<Rightarrow> cycle_locals) \<Rightarrow> ('w dstate, unit) io" where
  "locally f = modifyState (\<lambda>(l, w). (f l, w))"

subsection \<open>One cycle\<close>

text \<open>The services of an iteration for one consumer, with the callbacks that note its progress.\<close>

definition consumerEnv ::
  "'w dstate iteration_env \<Rightarrow> ValidatedQuicknetConsumer \<Rightarrow> 'w dstate iteration_env" where
  "consumerEnv I c =
     I\<lparr>itConsumer := consumerAddress c,
       itOnOperation := Some (\<lambda>oper. locally (\<lambda>l. l\<lparr>lastOperation := Some oper\<rparr>)),
       itOnCompleted := Some (\<lambda>x. locally (\<lambda>l. l\<lparr>completedImports := completedImports l @ [x]\<rparr>)),
       itOnIncomplete := Some (\<lambda>x. locally (\<lambda>l. l\<lparr>incompleteRounds := incompleteRounds l @ [x]\<rparr>)),
       itOnReconciliation := Some (\<lambda>r. locally (\<lambda>l. l\<lparr>reconciliationOf := Some r\<rparr>))\<rparr>"

definition freshLocals :: "cycle_locals \<Rightarrow> cycle_locals" where
  "freshLocals l =
     l\<lparr>lastOperation := None, completedImports := [], incompleteRounds := [], reconciliationOf := None\<rparr>"

definition iterateConsumer ::
  "'w dstate iteration_env \<Rightarrow> ValidatedQuicknetConsumer \<Rightarrow> ('w dstate, DaemonConsumerCycleResult) io" where
  "iterateConsumer I c =
     andThen (locally freshLocals) (\<lambda>_.
     tryCatch
       (andThen getState (\<lambda>s.
        andThen (runDaemonIteration (consumerEnv I c) (softCursors (fst s) (consumerAddress c))) (\<lambda>r.
        andThen (locally (\<lambda>l. l\<lparr>softCursors := (softCursors l)(consumerAddress c \<mapsto> riSoftNext r)\<rparr>)) (\<lambda>_.
        andThen getState (\<lambda>t.
        ret (ConsumerSucceeded c r (incompleteRounds (fst t)) (reconciliationOf (fst t))))))))
       (\<lambda>e. andThen getState (\<lambda>t.
        if isOperationCancelled e (itAborted I) t then throw e
        else ret (ConsumerFailed c e (lastOperation (fst t)) (completedImports (fst t))
               (incompleteRounds (fst t)) (reconciliationOf (fst t))))))"

fun iterateConsumers ::
  "'w dstate iteration_env \<Rightarrow> ValidatedQuicknetConsumer list \<Rightarrow> DaemonConsumerCycleResult list \<Rightarrow>
   ('w dstate, DaemonConsumerCycleResult list) io" where
  "iterateConsumers I [] acc = ret acc"
| "iterateConsumers I (c # cs) acc =
     andThen getState (\<lambda>s.
     if itAborted I s then ret acc
     else andThen (iterateConsumer I c) (\<lambda>r. iterateConsumers I cs (acc @ [r])))"

definition runDaemonCycle ::
  "'w dstate iteration_env \<Rightarrow> ('w dstate, unit) io \<Rightarrow> ValidatedQuicknetConsumer list \<Rightarrow>
   ('w dstate, DaemonConsumerCycleResult list) io" where
  "runDaemonCycle I recover1 consumers =
     andThen (abortCheck (itAborted I)) (\<lambda>_.
     andThen (tryCatch (andThen recover1 (\<lambda>_. ret None))
        (\<lambda>e. andThen getState (\<lambda>t. if isOperationCancelled e (itAborted I) t then throw e else ret (Some e)))) (\<lambda>failed.
     case failed of
       Some e \<Rightarrow> ret (map (\<lambda>c. ConsumerFailed c e None [] [] None) consumers)
     | None \<Rightarrow> iterateConsumers I consumers []))"

subsection \<open>The daemon\<close>

text \<open>
  The loop may run forever: \<open>None\<close> is a loop that never returns. \<open>onCycle\<close> is the optional
  observer of a finished cycle, whose error ends the daemon.
\<close>

definition oneCycle ::
  "('w, 'p) daemon_env \<Rightarrow> (DaemonConsumerCycleResult list \<Rightarrow> int \<Rightarrow> ('w dstate, unit) io) option \<Rightarrow> int \<Rightarrow>
   ('w dstate, bool) io" where
  "oneCycle D onCycle cycle =
     andThen (runDaemonCycle (dmServices D cycle) (dmRecover D cycle) (dmConsumers D)) (\<lambda>result.
     andThen (case onCycle of None \<Rightarrow> ret () | Some f \<Rightarrow> f result cycle) (\<lambda>_.
     andThen getState (\<lambda>s.
     if dmAborted D s then ret False
     else andThen (dmSleep D (dmPollInterval D)) (\<lambda>_. ret True))))"

partial_function (option) daemonLoop ::
  "('w, 'p) daemon_env \<Rightarrow> (DaemonConsumerCycleResult list \<Rightarrow> int \<Rightarrow> ('w dstate, unit) io) option \<Rightarrow> int \<Rightarrow> 'w dstate \<Rightarrow>
   ((exn + unit) \<times> 'w dstate) option" where
  "daemonLoop D onCycle cycle s =
     (if dmAborted D s then Some (Inr (), s)
      else if cycle = MAX_SAFE_INTEGER then Some (Inl (PlainError ''Daemon cycle counter exhausted.''), s)
      else case oneCycle D onCycle (cycle + 1) s of
        (Inl e, t) \<Rightarrow> Some (Inl e, t)
      | (Inr again, t) \<Rightarrow> if again then daemonLoop D onCycle (cycle + 1) t else Some (Inr (), t))"

definition cycleServices :: "('w, 'p) daemon_env \<Rightarrow> 'w dstate round_binder \<Rightarrow> int \<Rightarrow> 'w dstate iteration_env" where
  "cycleServices D bind cycle = (dmServices D cycle)\<lparr>itBind := bind (dmSubmitter D cycle)\<rparr>"

definition runDaemon ::
  "('w, 'p) daemon_env \<Rightarrow> (DaemonConsumerCycleResult list \<Rightarrow> int \<Rightarrow> ('w dstate, unit) io) option \<Rightarrow> 'w dstate \<Rightarrow>
   ((exn + unit) \<times> 'w dstate) option" where
  "runDaemon D onCycle s =
     (if \<not> isPositiveSafeInteger (dmPollInterval D)
      then Some (Inl (PlainError ''pollIntervalMs must be a positive safe integer.''), s)
      else case createRoundImporter (dmImport D) of
        Inl e \<Rightarrow> Some (Inl e, s)
      | Inr bind \<Rightarrow>
          daemonLoop (D\<lparr>dmServices := cycleServices D bind\<rparr>) onCycle 0
            (case s of (l, w) \<Rightarrow> (l\<lparr>softCursors := (\<lambda>_. None)\<rparr>, w)))"

end
