(* ===== verification/RequestProofs.thy ===== *)
theory RequestProofs
  imports DurableRequests
begin

text \<open>
  What a pass over requests establishes: the order and the meaning of its outcomes, and the
  checkpoint it may leave.
\<close>

subsection \<open>The distinct rounds\<close>

text \<open>The elements of a list in the order of their first occurrence.\<close>

definition firstOccurrences :: "'a list \<Rightarrow> 'a list" where
  "firstOccurrences xs = rev (remdups (rev xs))"

lemma firstOccurrences_snoc:
  "firstOccurrences (xs @ [x]) = (if x \<in> set xs then firstOccurrences xs else firstOccurrences xs @ [x])"
  by (simp add: firstOccurrences_def)

lemma firstOccurrences_distinct [simp]: "distinct (firstOccurrences xs)"
  by (simp add: firstOccurrences_def)

lemma firstOccurrences_set [simp]: "set (firstOccurrences xs) = set xs"
  by (simp add: firstOccurrences_def)

lemma firstBlocks_snoc: "firstBlocks (rs @ [r]) = noteRequest r (firstBlocks rs)"
  by (simp add: firstBlocks_def)

lemma firstBlocks_rounds: "map fst (firstBlocks rs) = firstOccurrences (map reqRound rs)"
proof (induction rs rule: rev_induct)
  case Nil
  show ?case by (simp add: firstBlocks_def firstOccurrences_def)
next
  case (snoc r rs)
  have "map fst (noteRequest r m) = (if reqRound r \<in> fst ` set m then map fst m else map fst m @ [reqRound r])" for m
  proof (cases "map_of m (reqRound r)")
    case None
    then have "reqRound r \<notin> fst ` set m" by (simp add: map_of_eq_None_iff)
    then show ?thesis using None by (simp add: noteRequest_def update_keys)
  next
    case (Some b)
    from map_of_SomeD [OF this] have "reqRound r \<in> fst ` set m" by force
    then show ?thesis using Some by (simp add: noteRequest_def update_keys)
  qed
  moreover have "fst ` set (firstBlocks rs) = reqRound ` set rs"
    using snoc.IH by (metis firstOccurrences_set list.set_map)
  ultimately show ?case using snoc.IH by (simp add: firstBlocks_snoc firstOccurrences_snoc)
qed

text \<open>The block of a round is the lowest that requests it.\<close>

definition lowestBlock :: "QuicknetRandomnessRequest list \<Rightarrow> int \<Rightarrow> int" where
  "lowestBlock rs r = Min (reqBlock ` {x \<in> set rs. reqRound x = r})"

lemma firstBlocks_lowest:
  "map_of (firstBlocks rs) r = (if r \<in> reqRound ` set rs then Some (lowestBlock rs r) else None)"
proof (induction rs rule: rev_induct)
  case Nil
  show ?case by (simp add: firstBlocks_def)
next
  case (snoc x rs)
  let ?S = "\<lambda>rs. {y \<in> set rs. reqRound y = r}"
  have S: "?S (rs @ [x]) = (if reqRound x = r then insert x (?S rs) else ?S rs)" by auto
  show ?case
  proof (cases "reqRound x = r")
    case False
    then have "map_of (noteRequest x (firstBlocks rs)) r = map_of (firstBlocks rs) r"
      by (simp add: noteRequest_def update_conv' split: option.split)
    moreover have "lowestBlock (rs @ [x]) r = lowestBlock rs r"
      unfolding lowestBlock_def S using False by simp
    ultimately show ?thesis using snoc False by (auto simp: firstBlocks_snoc)
  next
    case True
    have low: "lowestBlock (rs @ [x]) r = (if ?S rs = {} then reqBlock x else min (reqBlock x) (lowestBlock rs r))"
      unfolding lowestBlock_def S using True by (simp add: Min_insert2 del: Collect_empty_eq)
    show ?thesis
    proof (cases "r \<in> reqRound ` set rs")
      case True
      then have "?S rs \<noteq> {}" by auto
      then show ?thesis
        using snoc True \<open>reqRound x = r\<close> low
        by (auto simp: firstBlocks_snoc noteRequest_def update_conv' min_def simp del: Collect_empty_eq)
    next
      case False
      then have "?S rs = {}" by auto
      then show ?thesis
        using snoc False True low by (simp add: firstBlocks_snoc noteRequest_def update_conv')
    qed
  qed
qed

subsection \<open>The outcomes\<close>

text \<open>How the statuses of consecutive rounds follow each other.\<close>

fun statusesFollow :: "bool \<Rightarrow> SignerBlocker option \<Rightarrow> round_status list \<Rightarrow> bool" where
  "statusesFollow failed unavailable [] \<longleftrightarrow> True"
| "statusesFollow failed unavailable (s # ss) \<longleftrightarrow>
     (if failed then s = EarlierImportFailed \<and> statusesFollow failed unavailable ss
      else case unavailable of
        Some b \<Rightarrow> s = RoundUnavailable b \<and> statusesFollow failed unavailable ss
      | None \<Rightarrow> s \<noteq> EarlierImportFailed \<and>
          statusesFollow (case s of RoundFailed _ \<Rightarrow> True | _ \<Rightarrow> False)
            (case s of RoundUnavailable b \<Rightarrow> Some b | _ \<Rightarrow> None) ss)"

definition outcomesOf :: "(int \<times> int) list \<Rightarrow> round_status list \<Rightarrow> QuicknetRoundOutcome list" where
  "outcomesOf ms ss = map (\<lambda>((r, b), s). roundOutcome r b s) (zip ms ss)"

lemma outcomesOf_Cons [simp]: "outcomesOf ((r, b) # ms) (s # ss) = roundOutcome r b s # outcomesOf ms ss"
  by (simp add: outcomesOf_def)

lemma wp_recordIncomplete: "(\<And>v. Q s v) \<Longrightarrow> wp (recordIncomplete P r b s) Q E w"
  unfolding recordIncomplete_def by (intro wp_seqI wp_observe) (simp add: wp_ret)

lemma wp_importOne:
  assumes "\<And>s v. s \<noteq> EarlierImportFailed \<Longrightarrow> Q s v"
    and "\<And>e v. isOperationCancelled e (procAborted P) v \<Longrightarrow> E e v"
  shows "wp (importOne P r b) Q E w"
proof -
  have "wp (settleImport P r b result) Q E' v" for result v E'
    by (cases result) (auto simp: settleImport_def wp_andThen wp_ret intro!: wp_recordIncomplete wp_observe assms(1))
  note a = this
  have b: "wp (\<lambda>w. if isOperationCancelled e (procAborted P) w then throw e w else ret (RoundFailed e) w) Q E v" for e v
    using assms by (auto simp: wp_def throw_def ret_def)
  show ?thesis
    unfolding importOne_def wp_tryCatch by (rule wp_seqI, rule wpI) (rule a b)+
qed

lemma processRounds_wp:
  "wp (processRounds P f u ms acc)
     (\<lambda>os _. \<exists>ss. length ss = length ms \<and> os = acc @ outcomesOf ms ss \<and> statusesFollow f u ss)
     (\<lambda>e v. isOperationCancelled e (procAborted P) v) w"
proof (induction P f u ms acc arbitrary: w rule: processRounds.induct)
  case (1 P f u acc)
  show ?case by (simp add: wp_ret outcomesOf_def)
next
  case (2 P f u r b rest acc)
  have step: "wp m (\<lambda>os _. \<exists>ss. length ss = length ((r, b) # rest) \<and> os = acc @ outcomesOf ((r, b) # rest) ss \<and>
       statusesFollow f u ss) (\<lambda>e v. isOperationCancelled e (procAborted P) v) v"
    if r: "wp m (\<lambda>os _. \<exists>ss. length ss = length rest \<and> os = (acc @ [roundOutcome r b s]) @ outcomesOf rest ss \<and>
       statusesFollow f' u' ss) (\<lambda>e v. isOperationCancelled e (procAborted P) v) v"
      and s: "\<And>ss. statusesFollow f' u' ss \<Longrightarrow> statusesFollow f u (s # ss)" for m s f' u' v
  proof (rule wp_mono [OF r])
    fix os t assume "\<exists>ss. length ss = length rest \<and> os = (acc @ [roundOutcome r b s]) @ outcomesOf rest ss \<and> statusesFollow f' u' ss"
    then obtain ss where "length ss = length rest" "os = (acc @ [roundOutcome r b s]) @ outcomesOf rest ss"
      "statusesFollow f u (s # ss)" using s by blast
    then show "\<exists>ss. length ss = length ((r, b) # rest) \<and> os = acc @ outcomesOf ((r, b) # rest) ss \<and> statusesFollow f u ss"
      by (intro exI [of _ "s # ss"]) simp
  qed
  show ?case
  proof (cases f)
    case True
    have "wp (processRounds P f u rest (acc @ [roundOutcome r b EarlierImportFailed]))
        (\<lambda>os _. \<exists>ss. length ss = length ((r, b) # rest) \<and> os = acc @ outcomesOf ((r, b) # rest) ss \<and>
          statusesFollow f u ss) (\<lambda>e v. isOperationCancelled e (procAborted P) v) w"
      by (rule step [OF 2(1) [OF True]]) (simp add: True)
    then show ?thesis using True by simp
  next
    case f: False
    show ?thesis
    proof (cases u)
      case (Some blocker)
      have "wp (processRounds P f u rest (acc @ [roundOutcome r b (RoundUnavailable blocker)]))
        (\<lambda>os _. \<exists>ss. length ss = length ((r, b) # rest) \<and> os = acc @ outcomesOf ((r, b) # rest) ss \<and>
          statusesFollow f u ss) (\<lambda>e v. isOperationCancelled e (procAborted P) v) v" for v
        by (rule step [OF 2(3) [OF f Some]]) (simp add: f Some)
      then show ?thesis using f Some by (simp add: wp_andThen wp_recordIncomplete)
    next
      case None
      have "wp (processRounds P (case s of RoundFailed _ \<Rightarrow> True | _ \<Rightarrow> False)
            (case s of RoundUnavailable blocker \<Rightarrow> Some blocker | _ \<Rightarrow> None) rest (acc @ [roundOutcome r b s]))
        (\<lambda>os _. \<exists>ss. length ss = length ((r, b) # rest) \<and> os = acc @ outcomesOf ((r, b) # rest) ss \<and>
          statusesFollow f u ss) (\<lambda>e v. isOperationCancelled e (procAborted P) v) v"
        if "s \<noteq> EarlierImportFailed" for s v
        by (rule step [OF 2(2) [OF f None]]) (simp add: f None that)
      then show ?thesis using f None by (simp add: wp_andThen wp_importOne)
    qed
  qed
qed

lemma outcomesOf_parts:
  assumes "length ss = length ms"
  shows "map (\<lambda>x. (outRound x, outFirstBlock x)) (outcomesOf ms ss) = ms" and "map outStatus (outcomesOf ms ss) = ss"
  using assms by (induction ss ms rule: list_induct2) (auto simp: outcomesOf_def roundOutcome_def)

definition processedOutcomes :: "QuicknetRandomnessRequest list \<Rightarrow> QuicknetRoundOutcome list \<Rightarrow> bool" where
  "processedOutcomes rs os =
     (map outRound os = firstOccurrences (map reqRound rs) \<and>
      (\<forall>x \<in> set os. outFirstBlock x = lowestBlock rs (outRound x)) \<and>
      statusesFollow False None (map outStatus os))"

lemma processed_wp:
  "wp (processQuicknetRequestsWithOutcomes P rs) (\<lambda>os _. processedOutcomes rs os)
     (\<lambda>e v. isOperationCancelled e (procAborted P) v) w"
proof -
  have "wp (processRounds P False None (firstBlocks rs) []) (\<lambda>os _. processedOutcomes rs os)
     (\<lambda>e v. isOperationCancelled e (procAborted P) v) w"
  proof (rule wp_mono [OF processRounds_wp])
    fix os v assume "\<exists>ss. length ss = length (firstBlocks rs) \<and> os = [] @ outcomesOf (firstBlocks rs) ss \<and> statusesFollow False None ss"
    then obtain ss where l: "length ss = length (firstBlocks rs)" and os: "os = outcomesOf (firstBlocks rs) ss"
      and ss: "statusesFollow False None ss" by auto
    have m: "map (\<lambda>x. (outRound x, outFirstBlock x)) os = firstBlocks rs"
      using outcomesOf_parts(1) [OF l] os by simp
    then have rounds: "map outRound os = firstOccurrences (map reqRound rs)"
      by (metis (no_types, lifting) firstBlocks_rounds list.map_comp comp_apply fst_conv map_eq_conv)
    have "outFirstBlock x = lowestBlock rs (outRound x)" if "x \<in> set os" for x
    proof -
      have "(outRound x, outFirstBlock x) \<in> set (firstBlocks rs)" using that m by (metis (no_types, lifting) image_eqI list.set_map)
      moreover have "distinct (map fst (firstBlocks rs))" by (simp add: firstBlocks_rounds)
      ultimately have "map_of (firstBlocks rs) (outRound x) = Some (outFirstBlock x)" by simp
      then show ?thesis by (simp add: firstBlocks_lowest split: if_splits)
    qed
    then show "processedOutcomes rs os"
      using rounds ss outcomesOf_parts(2) [OF l] os by (simp add: processedOutcomes_def)
  qed simp
  then show ?thesis
    unfolding processQuicknetRequestsWithOutcomes_def
    by (intro wp_seqI wp_abortCheck) (simp_all add: isOperationCancelled_def cancelError_def)
qed

subsection \<open>The durable pass\<close>

text \<open>Some read of the registry at the anchor's block said that the round is stored.\<close>

definition readStored :: "'w durable_env \<Rightarrow> BlockAnchor \<Rightarrow> int \<Rightarrow> bool" where
  "readStored D a r =
     (\<exists>w v. registryIsStored (durRegistry D) (durDeployment D) r (Some (blockNumber a)) w = (Inr (JBool True), v))"

lemma wp_readFulfillment:
  assumes "\<And>s v. (s = FulfilStored \<Longrightarrow> readStored D a r) \<Longrightarrow> Q s v"
  shows "wp (readFulfillment (durRegistry D) (durDeployment D) r a) Q E w"
proof -
  have "wp (registryIsStored (durRegistry D) (durDeployment D) r (Some (blockNumber a)))
      (\<lambda>x _. x = JBool True \<longrightarrow> readStored D a r) (\<lambda>_ _. True) w"
    by (rule wpI) (auto simp: readStored_def)
  then show ?thesis
    unfolding readFulfillment_def wp_tryCatch wp_andThen
    by (rule wp_mono) (auto simp: wp_ret wp_throw wp_if intro: assms)
qed

text \<open>
  The checkpoint \<open>j\<close> reached from \<open>k\<close> over the outcomes: nothing below it is missing, and it is as
  far as that allows.
\<close>

definition reachedCheckpoint ::
  "'w durable_env \<Rightarrow> BlockAnchor \<Rightarrow> QuicknetRoundOutcome list \<Rightarrow> DurableRoundOutcome list \<Rightarrow> int \<Rightarrow> int \<Rightarrow> bool" where
  "reachedCheckpoint D a xs fs k j =
     (map (\<lambda>f. (droRound f, droFirstBlock f)) fs = map (\<lambda>x. (outRound x, outFirstBlock x)) xs \<and> j \<le> k \<and>
      (\<forall>f \<in> set fs. droFulfillment f = FulfilStored \<longrightarrow> readStored D a (droRound f)) \<and>
      (\<forall>f \<in> set fs. droFirstBlock f < j \<longrightarrow> droFulfillment f = FulfilStored) \<and>
      (j = k \<or> (\<exists>f \<in> set fs. droFirstBlock f = j \<and> droFulfillment f \<noteq> FulfilStored)))"

lemma reached_Cons:
  assumes "reachedCheckpoint D a xs fs (if s \<noteq> FulfilStored \<and> outFirstBlock x < k then outFirstBlock x else k) j"
    and "s = FulfilStored \<Longrightarrow> readStored D a (outRound x)"
  shows "reachedCheckpoint D a (x # xs)
    (\<lparr>droRound = outRound x, droFirstBlock = outFirstBlock x, droFulfillment = s\<rparr> # fs) k j"
  using assms by (auto simp: reachedCheckpoint_def split: if_splits)

lemma checkFulfillment_wp:
  fixes D :: "'w durable_env" and w :: 'w
  assumes "\<And>fs j v. reachedCheckpoint D a xs fs k j \<Longrightarrow> Q (acc @ fs, j) v"
    and "\<And>v. aborted v \<Longrightarrow> E AbortReason v"
  shows "wp (checkFulfillment (durRegistry D) (durDeployment D) aborted a xs acc k) Q E w"
  using assms(1)
proof (induction xs arbitrary: acc k w)
  case Nil
  then show ?case by (simp add: wp_ret reachedCheckpoint_def)
next
  case (Cons y ys)
  show ?case
    unfolding checkFulfillment.simps
  proof (intro wp_seqI wp_readFulfillment wp_abortCheck assms(2) Cons.IH)
    fix s fs j and v' :: 'w
    assume "s = FulfilStored \<Longrightarrow> readStored D a (outRound y)"
      "reachedCheckpoint D a ys fs (if s \<noteq> FulfilStored \<and> outFirstBlock y < k then outFirstBlock y else k) j"
    from Cons.prems [OF reached_Cons [OF this(2,1)]]
    show "Q ((acc @ [\<lparr>droRound = outRound y, droFirstBlock = outFirstBlock y, droFulfillment = s\<rparr>]) @ fs, j) v'" by simp
  qed simp_all
qed

text \<open>The facts a completed pass over a window rests on.\<close>

definition anchorRead :: "'w durable_env \<Rightarrow> int \<Rightarrow> BlockAnchor \<Rightarrow> bool" where
  "anchorRead D n a = (\<exists>w v. getBlockAnchor (durClient D) n w = (Inr a, v))"

definition requestsRead :: "'w durable_env \<Rightarrow> int \<Rightarrow> int \<Rightarrow> QuicknetRandomnessRequest list \<Rightarrow> bool" where
  "requestsRead D n m rs =
     (\<exists>w v. getQuicknetRandomnessRequests (durLogs D) [durConsumer D] n m w = (Inr rs, v))"

definition scannedPass :: "'w durable_env \<Rightarrow> int \<Rightarrow> int \<Rightarrow> int \<Rightarrow> durable_scan \<Rightarrow> QuicknetRandomnessRequest list \<Rightarrow> bool" where
  "scannedPass D n durable m s rs =
     (0 \<le> n \<and> n \<le> durable \<and> 0 < m \<and> dsFrom s = n \<and> dsTo s = min (n + m - 1) durable \<and>
      blockNumber (dsAnchor s) = durable \<and> anchorRead D durable (dsAnchor s) \<and>
      requestsRead D n (dsTo s) rs \<and> list_all (logInScan (durConsumer D) n (dsTo s)) rs \<and>
      processedOutcomes rs (dsImports s) \<and>
      (\<exists>k. reachedCheckpoint D (dsAnchor s) (dsImports s) (dsFulfillment s) (dsTo s + 1) k \<and>
         (\<forall>j. dsCheckpoint s = CheckpointVerified j \<longrightarrow>
            j = k \<and> (\<exists>a. anchorRead D durable a \<and> blockAnchorsMatch (dsAnchor s) a))))"

lemma wp_checkpointDecision:
  assumes "\<And>d v. (\<And>j. d = CheckpointVerified j \<Longrightarrow> j = k \<and> (\<exists>b. anchorRead D (blockNumber a) b \<and> blockAnchorsMatch a b)) \<Longrightarrow> Q d v"
  shows "wp (checkpointDecision (durClient D) a k) Q E w"
proof -
  have "wp (getBlockAnchor (durClient D) (blockNumber a)) (\<lambda>b _. anchorRead D (blockNumber a) b) (\<lambda>_ _. True) w"
    by (rule wpI) (auto simp: anchorRead_def)
  then show ?thesis
    unfolding checkpointDecision_def wp_tryCatch wp_andThen
    by (rule wp_mono) (auto simp: wp_ret intro: assms)
qed

lemma passOverScan_wp:
  fixes w :: 'w and D :: "'w durable_env"
  assumes start: "0 \<le> n" "n \<le> durable" "0 < m" "toB = min (n + m - 1) durable" "blockNumber a = durable"
    "anchorRead D durable a" "requestsRead D n toB rs"
  shows "wp (passOverScan D a n toB (toB + 1) rs)
    (\<lambda>r _. \<exists>s. r = DurableScanned s \<and> scannedPass D n durable m s rs) (\<lambda>_ _. True) w"
  unfolding passOverScan_def
proof (intro wp_seqI wp_unlessI wp_mono [OF processed_wp] wp_abortCheck)
  fix os and v :: 'w
  assume log: "list_all (logInScan (durConsumer D) n toB) rs" and outs: "processedOutcomes rs os"
  show "wp (checkFulfillment (durRegistry D) (durDeployment D) (procAborted (durProcess D)) a os [] (toB + 1))
      (\<lambda>x. wp (case x of (fulfillment, upTo) \<Rightarrow>
         andThen (checkpointDecision (durClient D) a upTo) (\<lambda>checkpoint.
         andThen (abortCheck (procAborted (durProcess D))) (\<lambda>_.
         ret (DurableScanned \<lparr>dsFrom = n, dsTo = toB, dsAnchor = a, dsImports = os,
            dsFulfillment = fulfillment, dsCheckpoint = checkpoint\<rparr>))))
        (\<lambda>r _. \<exists>s. r = DurableScanned s \<and> scannedPass D n durable m s rs) (\<lambda>_ _. True)) (\<lambda>_ _. True) v"
  proof (rule checkFulfillment_wp)
    fix fs k and v :: 'w assume k: "reachedCheckpoint D a os fs (toB + 1) k"
    show "wp (case ([] @ fs, k) of (fulfillment, upTo) \<Rightarrow>
         andThen (checkpointDecision (durClient D) a upTo) (\<lambda>checkpoint.
         andThen (abortCheck (procAborted (durProcess D))) (\<lambda>_.
         ret (DurableScanned \<lparr>dsFrom = n, dsTo = toB, dsAnchor = a, dsImports = os,
            dsFulfillment = fulfillment, dsCheckpoint = checkpoint\<rparr>))))
        (\<lambda>r _. \<exists>s. r = DurableScanned s \<and> scannedPass D n durable m s rs) (\<lambda>_ _. True) v"
      unfolding prod.case
    proof (intro wp_seqI wp_checkpointDecision wp_abortCheck)
      fix d and v :: 'w
      assume "\<And>j. d = CheckpointVerified j \<Longrightarrow> j = k \<and> (\<exists>b. anchorRead D (blockNumber a) b \<and> blockAnchorsMatch a b)"
      then show "wp (ret (DurableScanned \<lparr>dsFrom = n, dsTo = toB, dsAnchor = a, dsImports = os,
            dsFulfillment = [] @ fs, dsCheckpoint = d\<rparr>))
        (\<lambda>r _. \<exists>s. r = DurableScanned s \<and> scannedPass D n durable m s rs) (\<lambda>_ _. True) v"
        using start log outs k by (auto simp: wp_ret scannedPass_def)
    qed simp
  qed simp
qed simp_all

lemma reconcile_wp:
  fixes w :: 'w and D :: "'w durable_env"
  shows "wp (reconcileDurableRequests D n durable m)
    (\<lambda>r _. case r of DurableScanned s \<Rightarrow> \<exists>rs. scannedPass D n durable m s rs
       | DurableCaughtUp k \<Rightarrow> k = n | DurableAnchorUnavailable _ _ \<Rightarrow> True) (\<lambda>_ _. True) w"
  (is "wp _ ?Q _ _")
proof -
  have scan: "wp (andThen (scanQuicknetRequests (durLogs D) [durConsumer D] n (blockNumber a) m) (\<lambda>scan.
           case scan of
             ScanCaughtUp _ _ \<Rightarrow> ret (DurableCaughtUp n)
           | Scanned _ fromB toB afterB rs \<Rightarrow> passOverScan D a fromB toB afterB rs)) ?Q (\<lambda>_ _. True) v"
    if a: "blockNumber a = durable" "anchorRead D durable a" and n: "0 \<le> n" "n \<le> durable" "0 < m" for a and v :: 'w
  proof (rule wp_seqI, rule wpI)
    fix x u assume x: "scanQuicknetRequests (durLogs D) [durConsumer D] n (blockNumber a) m v = (Inr x, u)"
    show "wp (case x of
             ScanCaughtUp _ _ \<Rightarrow> ret (DurableCaughtUp n)
           | Scanned _ fromB toB afterB rs \<Rightarrow> passOverScan D a fromB toB afterB rs) ?Q (\<lambda>_ _. True) u"
    proof (cases x)
      case (Scanned t f b k rs)
      then have "f = n" "b = min (n + m - 1) durable" "k = b + 1" "requestsRead D n b rs"
        using x a by (auto simp: scan_Inr requestsRead_def)
      with passOverScan_wp [OF n this(2) a this(4), of u] show ?thesis
        by (simp add: Scanned) (erule wp_mono; auto)
    qed (simp add: wp_ret)
  qed simp
  have "wp (getBlockAnchor (durClient D) durable) (\<lambda>a _. blockNumber a = durable \<and> anchorRead D durable a)
      (\<lambda>_ _. True) v" for v
    using getBlockAnchor_wf [of "durClient D" durable v] by (auto simp: wp_def anchorRead_def split: prod.splits sum.splits)
  note anchored = this
  let ?after = "\<lambda>a. andThen (abortCheck (procAborted (durProcess D))) (\<lambda>_.
           andThen (scanQuicknetRequests (durLogs D) [durConsumer D] n (blockNumber a) m) (\<lambda>scan.
           case scan of
             ScanCaughtUp _ _ \<Rightarrow> ret (DurableCaughtUp n)
           | Scanned _ fromB toB afterB rs \<Rightarrow> passOverScan D a fromB toB afterB rs))"
  have after: "wp (?after a) ?Q (\<lambda>_ _. True) v"
    if "blockNumber a = durable \<and> anchorRead D durable a" "0 \<le> n" "\<not> durable < n" "0 < m" for a and v :: 'w
    by (intro wp_seqI [of "abortCheck _"] wp_abortCheck scan) (use that in simp_all)
  have start: "wp (tryCatch
          (andThen (getBlockAnchor (durClient D) durable) (\<lambda>a. ret (Inr a)))
          (\<lambda>e. andThen (abortCheck (procAborted (durProcess D))) (\<lambda>_. ret (Inl e))))
        (\<lambda>anchored. wp (case anchored of Inl e \<Rightarrow> ret (DurableAnchorUnavailable durable e) | Inr a \<Rightarrow> ?after a)
           ?Q (\<lambda>_ _. True)) (\<lambda>_ _. True) v"
    if "0 \<le> n" "\<not> durable < n" "0 < m" for v :: 'w
    unfolding wp_tryCatch wp_andThen wp_ret
  proof (rule wp_mono [OF anchored])
    fix a and u :: 'w assume "blockNumber a = durable \<and> anchorRead D durable a"
    from after [OF this that] show "wp (case Inr a of Inl e \<Rightarrow> ret (DurableAnchorUnavailable durable e) | Inr a \<Rightarrow> ?after a)
           ?Q (\<lambda>_ _. True) u" by simp
  qed (auto intro: wp_abortCheck simp: wp_ret)
  show ?thesis
    unfolding reconcileDurableRequests_def
    by (intro wp_seqI [of "unlessThrow _ _"] wp_seqI [of "abortCheck _"] wp_unlessI wp_abortCheck)
      (auto simp: wp_ret intro: wp_seqI start)
qed

text \<open>What a verified checkpoint stands for.\<close>

lemma scanned_checkpoint:
  assumes p: "scannedPass D n durable m s rs" and k: "dsCheckpoint s = CheckpointVerified k"
  shows "n \<le> k \<and> k \<le> dsTo s + 1"
    and "r \<in> set rs \<Longrightarrow> reqBlock r < k \<Longrightarrow> readStored D (dsAnchor s) (reqRound r)"
    and "k = dsTo s + 1 \<or> (\<exists>r \<in> set rs. \<exists>f \<in> set (dsFulfillment s). reqBlock r = k \<and> droRound f = reqRound r \<and>
      droFulfillment f \<noteq> FulfilStored)"
proof -
  define os fs where "os = dsImports s" and "fs = dsFulfillment s"
  have r: "reachedCheckpoint D (dsAnchor s) os fs (dsTo s + 1) k" and o: "processedOutcomes rs os"
    and n: "n \<le> dsTo s" and log: "list_all (logInScan (durConsumer D) n (dsTo s)) rs"
    using p k by (auto simp: scannedPass_def os_def fs_def)
  have pairs: "(droRound f, droFirstBlock f) \<in> (\<lambda>x. (outRound x, outFirstBlock x)) ` set os" if "f \<in> set fs" for f
    using r that unfolding reachedCheckpoint_def by (metis (mono_tags, lifting) image_eqI list.set_map)
  have rounds: "outRound ` set os = reqRound ` set rs"
    using o unfolding processedOutcomes_def by (metis firstOccurrences_set list.set_map)
  have low: "\<exists>q \<in> set rs. reqRound q = droRound f \<and> reqBlock q = droFirstBlock f" if f: "f \<in> set fs" for f
  proof -
    obtain x where x: "x \<in> set os" "outRound x = droRound f" "outFirstBlock x = droFirstBlock f"
      using pairs [OF f] by auto
    have b: "droFirstBlock f = Min (reqBlock ` {q \<in> set rs. reqRound q = droRound f})"
      using x o by (auto simp: processedOutcomes_def lowestBlock_def)
    have "{q \<in> set rs. reqRound q = droRound f} \<noteq> {}" using x rounds by force
    then have "Min (reqBlock ` {q \<in> set rs. reqRound q = droRound f}) \<in> reqBlock ` {q \<in> set rs. reqRound q = droRound f}"
      by (intro Min_in) auto
    then show ?thesis using b by auto
  qed
  show last: "k = dsTo s + 1 \<or> (\<exists>r \<in> set rs. \<exists>f \<in> set (dsFulfillment s). reqBlock r = k \<and> droRound f = reqRound r \<and>
      droFulfillment f \<noteq> FulfilStored)"
    using r low unfolding reachedCheckpoint_def fs_def by metis
  show "n \<le> k \<and> k \<le> dsTo s + 1"
    using last n log r by (auto simp: reachedCheckpoint_def list_all_iff logInScan_def)
  show "readStored D (dsAnchor s) (reqRound r)" if q: "r \<in> set rs" "reqBlock r < k"
  proof -
    obtain x where x: "x \<in> set os" "outRound x = reqRound r" using q rounds by (metis imageE imageI)
    have "(outRound x, outFirstBlock x) \<in> (\<lambda>f. (droRound f, droFirstBlock f)) ` set fs"
      using r x unfolding reachedCheckpoint_def by (metis (mono_tags, lifting) image_eqI list.set_map)
    then obtain f where f: "f \<in> set fs" "droRound f = reqRound r" "droFirstBlock f = outFirstBlock x"
      using x by auto
    have "outFirstBlock x = lowestBlock rs (reqRound r)" using x o by (auto simp: processedOutcomes_def)
    also have "\<dots> \<le> reqBlock r" unfolding lowestBlock_def using q by (intro Min_le) auto
    finally show ?thesis using r f q by (auto simp: reachedCheckpoint_def)
  qed
qed

end
