(* ===== verification/DaemonProofs.thy ===== *)
theory DaemonProofs
  imports Daemon RequestProofs Simulation
begin

text \<open>
  The daemon's loop always ends, and ends well only when it is aborted; what an iteration does to
  the persisted checkpoint; and which requests stay pending.
\<close>

subsection \<open>The loop\<close>

text \<open>The loop as a relation: the number of cycles it starts, and how it ends.\<close>

lemma daemonLoop_returns:
  assumes "0 \<le> cycle" "cycle \<le> MAX_SAFE_INTEGER"
  shows "\<exists>r t. daemonLoop D f cycle s = Some (r, t) \<and> (r = Inr () \<longrightarrow> dmAborted D t)"
  using assms
proof (induction "nat (MAX_SAFE_INTEGER - cycle)" arbitrary: cycle s rule: less_induct)
  case less
  show ?case
  proof (cases "dmAborted D s \<or> cycle = MAX_SAFE_INTEGER")
    case True
    then show ?thesis by (subst daemonLoop.simps) (cases s; auto)
  next
    case False
    then have go: "\<not> dmAborted D s" "cycle \<noteq> MAX_SAFE_INTEGER" by auto
    obtain r t where c: "oneCycle D f (cycle + 1) s = (r, t)" by (cases "oneCycle D f (cycle + 1) s")
    have stop: "r = Inr False \<Longrightarrow> dmAborted D t"
      using c by (auto simp: oneCycle_def andThen_Inr split: if_splits)
    show ?thesis
    proof (cases "r = Inr True")
      case True
      have "\<exists>r u. daemonLoop D f (cycle + 1) t = Some (r, u) \<and> (r = Inr () \<longrightarrow> dmAborted D u)"
        by (rule less.hyps) (use less.prems go in auto)
      then show ?thesis using go c True by (subst daemonLoop.simps) simp
    next
      case False
      then show ?thesis using go c stop by (subst daemonLoop.simps) (cases r; auto)
    qed
  qed
qed

subsection \<open>The checkpoint\<close>

text \<open>
  The checkpoint store, as the iteration uses it. \<open>found s\<close> are the checkpoints that the store, or a
  restart of the program after a stop in the state \<open>s\<close>, may find, and \<open>good\<close> is the invariant of the
  store. A failed save may or may not have taken place; a completed one is the only one to be found.
\<close>

type_synonym checkpoints = "jstr \<Rightarrow> int option"

definition movedTo :: "jstr \<Rightarrow> int \<Rightarrow> checkpoints \<Rightarrow> checkpoints \<Rightarrow> bool" where
  "movedTo a n m m' = ((\<forall>k. m a = Some k \<longrightarrow> k \<le> n) \<and> m' = m(a \<mapsto> n))"

locale checkpoint_store =
  fixes load :: "jstr \<Rightarrow> ('s, int option) io" and save :: "jstr \<Rightarrow> int \<Rightarrow> ('s, unit) io"
    and good :: "'s \<Rightarrow> bool" and found :: "'s \<Rightarrow> checkpoints set" and consumer :: jstr
  assumes load_keeps: "good s \<Longrightarrow> load consumer s = (r, t) \<Longrightarrow> good t \<and> found t \<subseteq> found s"
    and load_returns: "good s \<Longrightarrow> load consumer s = (Inr x, t) \<Longrightarrow> \<exists>m \<in> found s. x = m consumer"
    and save_moves: "good s \<Longrightarrow> save consumer n s = (q, t) \<Longrightarrow>
      good t \<and> (\<forall>m' \<in> found t. m' \<in> found s \<or> (\<exists>m \<in> found s. movedTo consumer n m m'))"
    and save_sets: "good s \<Longrightarrow> save consumer n s = (Inr (), t) \<Longrightarrow>
      \<exists>m \<in> found s. found t = {m(consumer \<mapsto> n)}"
begin

text \<open>After a completed save every load, also one after a restart, returns what was saved.\<close>

lemma load_after_save:
  assumes "good s" "save consumer n s = (Inr (), t)" "load consumer t = (Inr x, u)"
  shows "x = Some n"
  using save_sets [OF assms(1,2)] save_moves [OF assms(1,2)] load_returns [OF _ assms(3)] by auto

end

text \<open>A computation that leaves an observable part of the state alone.\<close>

definition leaves :: "('s \<Rightarrow> 'k) \<Rightarrow> nat \<Rightarrow> nat \<Rightarrow> 's \<Rightarrow> 's \<Rightarrow> bool" where
  "leaves f p n s t = (f t = f s)"

interpretation leaving: graded_steps "leaves f" for f
  by unfold_locales (simp_all add: leaves_def)

abbreviation unchanged :: "('s \<Rightarrow> 'k) \<Rightarrow> ('s, 'a) io \<Rightarrow> bool" where
  "unchanged f \<equiv> stepsIn (leaves f 0 0)"

context graded_steps
begin

abbreviation still :: "('s, 'a) io \<Rightarrow> bool" where
  "still \<equiv> stepsIn (R 0 0)"

lemma still_observe: "(\<And>g. k = Some g \<Longrightarrow> still (g x)) \<Longrightarrow> still (observe k x)"
  by (cases k) (auto simp: observe_def intro!: in_ret in_catch)

lemma still_abortCheck: "still (abortCheck a)"
  by (simp add: stepsIn_def abortCheck_def any_none)

lemma still_sum: "(\<And>x. still (m x)) \<Longrightarrow> (\<And>x. still (k x)) \<Longrightarrow> still (case r of Inl x \<Rightarrow> m x | Inr x \<Rightarrow> k x)"
  by (cases r) simp_all

lemma still_if_at: "still f \<Longrightarrow> still g \<Longrightarrow> still (\<lambda>w. if b w then f w else g w)"
  by (simp add: stepsIn_def)

lemmas still_rules = in_seq in_ret in_throw in_lift in_unless in_get in_if in_option in_pair in_catch
  still_abortCheck still_observe still_sum

lemma still_getBlockAnchor: "(\<And>n. still (getBlock C n)) \<Longrightarrow> still (getBlockAnchor C n)"
  unfolding getBlockAnchor_def by (intro still_rules)

end

text \<open>Processing requests, scanning and the durable pass, over services that do nothing that counts.\<close>

definition quietProcess :: "('s \<Rightarrow> 's \<Rightarrow> bool) \<Rightarrow> 's process_options \<Rightarrow> bool" where
  "quietProcess R P =
     ((\<forall>r. stepsIn R (procImport P r)) \<and> (\<forall>g x. procCompleted P = Some g \<longrightarrow> stepsIn R (g x)) \<and>
      (\<forall>g x. procIncomplete P = Some g \<longrightarrow> stepsIn R (g x)))"

context graded_steps
begin

lemma still_importOne:
  assumes "quietProcess (R 0 0) P"
  shows "still (recordIncomplete P r b s)" and "still (importOne P r b)"
proof -
  show i: "still (recordIncomplete P r b s)" for s
    unfolding recordIncomplete_def using assms
    by (intro still_rules) (auto simp: quietProcess_def)
  have "still (settleImport P r b x)" for x
    using assms
    by (cases x) (auto simp: settleImport_def quietProcess_def intro!: i in_seq in_ret still_observe)
  then show "still (importOne P r b)"
    unfolding importOne_def using assms
    by (intro still_rules still_if_at) (simp_all add: quietProcess_def)
qed

lemma still_process:
  assumes q: "quietProcess (R 0 0) P"
  shows "still (processQuicknetRequestsWithOutcomes P rs)" and "still (processQuicknetRequests P rs)"
proof -
  have "still (processRounds P a u ms acc)" for a u ms acc
  proof (induction ms arbitrary: a u acc)
    case (Cons m ms)
    obtain r b where m: "m = (r, b)" by (cases m)
    show ?case
      unfolding m processRounds.simps
      by (intro in_if in_option in_seq still_importOne q Cons.IH)
  qed (simp add: in_ret)
  then show a: "still (processQuicknetRequestsWithOutcomes P rs)"
    unfolding processQuicknetRequestsWithOutcomes_def by (intro still_rules)
  show "still (processQuicknetRequests P rs)"
    unfolding processQuicknetRequests_def by (intro still_rules a)
qed

lemma still_scan:
  assumes "\<And>cs a b. still (logs cs a b)"
  shows "still (scanQuicknetRequests logs cs a b k)"
  unfolding scanQuicknetRequests_def getQuicknetRandomnessRequests_def Let_def
  by (intro still_rules assms)

lemma still_reconcile:
  fixes D :: "'s durable_env"
  assumes "\<And>n. still (getBlock (durClient D) n)" and "\<And>cs a b. still (durLogs D cs a b)"
    and "\<And>a g rs b. still (durRegistry D a g rs b)" and "quietProcess (R 0 0) (durProcess D)"
  shows "still (reconcileDurableRequests D n durable m)"
proof -
  have "still (readFulfillment (durRegistry D) d r a)" for d r a
    unfolding readFulfillment_def registryIsStored_def by (intro still_rules assms)
  then have "still (checkFulfillment (durRegistry D) d ab a xs acc k)" for d ab a xs acc k
    by (induction xs arbitrary: acc k) (auto intro!: still_rules)
  then have pass: "still (passOverScan D a x y z rs)" for a x y z rs
    unfolding passOverScan_def checkpointDecision_def
    by (intro still_rules still_getBlockAnchor still_process assms)
  have "still (case r of ScanCaughtUp _ _ \<Rightarrow> ret (DurableCaughtUp n)
       | Scanned _ x y z rs \<Rightarrow> passOverScan D a x y z rs)" for a r
    by (cases r) (auto intro: in_ret pass)
  then show ?thesis
    unfolding reconcileDurableRequests_def
    by (intro still_rules still_getBlockAnchor assms still_scan)
qed

end

subsection \<open>An iteration\<close>

text \<open>Every service but the store, and the local variable, only make steps of \<open>R\<close>.\<close>

definition quietIteration ::
  "(('r, 'w) istate \<Rightarrow> ('r, 'w) istate \<Rightarrow> bool) \<Rightarrow> ('r, 'w) istate iteration_env \<Rightarrow> bool" where
  "quietIteration R I =
     ((\<forall>n. stepsIn R (getBlock (itClient I) n)) \<and> (\<forall>t. stepsIn R (getTaggedBlockNumber (itClient I) t)) \<and>
      stepsIn R (getBlockNumber (itClient I)) \<and> (\<forall>cs a b. stepsIn R (itLogs I cs a b)) \<and>
      (\<forall>a g rs b. stepsIn R (itRegistry I a g rs b)) \<and>
      (\<forall>p r. (\<forall>x. stepsIn R (p x)) \<longrightarrow> stepsIn R (itBind I p r)) \<and>
      (\<forall>m. itReadHeads I = Some m \<longrightarrow> stepsIn R m) \<and>
      (\<forall>g x. itOnOperation I = Some g \<longrightarrow> stepsIn R (g x)) \<and>
      (\<forall>g x. itOnCompleted I = Some g \<longrightarrow> stepsIn R (g x)) \<and>
      (\<forall>g x. itOnIncomplete I = Some g \<longrightarrow> stepsIn R (g x)) \<and>
      (\<forall>g x. itOnReconciliation I = Some g \<longrightarrow> stepsIn R (g x)) \<and>
      (\<forall>l w oper. R (l, w) (l\<lparr>currentOperation := oper\<rparr>, w)))"

lemma quiet_fields:
  assumes "quietIteration R I"
  shows "stepsIn R (getBlock (itClient I) n)" "stepsIn R (getTaggedBlockNumber (itClient I) t)"
    "stepsIn R (getBlockNumber (itClient I))" "stepsIn R (itLogs I cs a b)"
    "stepsIn R (itRegistry I d h rs k)" "R (l, w) (l\<lparr>currentOperation := oper\<rparr>, w)"
    "(\<And>x. stepsIn R (p x)) \<Longrightarrow> stepsIn R (itBind I p r)" "itReadHeads I = Some m \<Longrightarrow> stepsIn R m"
    "itOnOperation I = Some g1 \<Longrightarrow> stepsIn R (g1 x1)" "itOnCompleted I = Some g2 \<Longrightarrow> stepsIn R (g2 x2)"
    "itOnIncomplete I = Some g3 \<Longrightarrow> stepsIn R (g3 x3)" "itOnReconciliation I = Some g4 \<Longrightarrow> stepsIn R (g4 x4)"
  using assms by (simp_all add: quietIteration_def del: split_paired_All)

abbreviation quietServices :: "(('r, 'w) istate \<Rightarrow> 'k) \<Rightarrow> ('r, 'w) istate iteration_env \<Rightarrow> bool" where
  "quietServices f \<equiv> quietIteration (leaves f 0 0)"

locale iteration_steps = graded_steps R for R :: "nat \<Rightarrow> nat \<Rightarrow> ('r, 'w) istate \<Rightarrow> ('r, 'w) istate \<Rightarrow> bool" +
  fixes I :: "('r, 'w) istate iteration_env"
  assumes quiet_services: "quietIteration (R 0 0) I"
begin

lemma still_local: "still (modifyState (\<lambda>(l, w). (l\<lparr>currentOperation := x\<rparr>, w)))"
  by (rule in_modify) (auto intro: quiet_fields(6) [OF quiet_services])

lemma still_report: "still (reportOperation I oper)"
  unfolding reportOperation_def by (intro still_rules still_local) (auto intro: quiet_fields [OF quiet_services])

lemma process_still: "quietProcess (R 0 0) (processOptions I t a b)"
  by (auto simp: quietProcess_def processOptions_def intro!: still_observe quiet_fields(7) [OF quiet_services] still_report)
    (auto intro: quiet_fields [OF quiet_services])

lemma still_durable: "still (reconcileDurableRequests (durableEnv I n d) n d m)"
  by (rule still_reconcile) (simp_all add: durableEnv_def process_still quiet_fields [OF quiet_services])

lemma still_soft: "still (softPart I latest n)"
proof -
  have "still (case r of ScanCaughtUp _ _ \<Rightarrow> ret (n, None)
     | Scanned _ fromB toB afterB rs \<Rightarrow>
         andThen (reportOperation I (ProcessRequests SoftScan fromB toB)) (\<lambda>_.
         andThen (processQuicknetRequests (processOptions I SoftScan fromB toB) rs) (\<lambda>rounds.
         andThen (abortCheck (itAborted I)) (\<lambda>_.
         ret (afterB, Some \<lparr>psFrom = fromB, psTo = toB, psNext = afterB, psRounds = rounds,
               psReconciliation = None\<rparr>)))))" for r
    by (cases r) (auto intro!: still_rules still_process process_still still_report)
  then show ?thesis
    unfolding softPart_def by (intro still_rules still_report still_scan quiet_fields [OF quiet_services])
qed

lemma still_heads:
  "still (case itReadHeads I of Some m \<Rightarrow> m | None \<Rightarrow> getChainHeads (itClient I) (itFinality I))"
proof -
  have "still (getDurableBlockNumber (itClient I) p)" for p
    by (cases p) (auto simp: getDurableBlockNumber_def intro!: still_rules quiet_fields [OF quiet_services])
  then show ?thesis
    using quiet_fields(8) [OF quiet_services] unfolding getChainHeads_def
    by (cases "itReadHeads I") (auto intro!: still_rules quiet_fields(3) [OF quiet_services])
qed

text \<open>With a store that only makes such steps, so does the iteration.\<close>

lemma still_iteration:
  assumes load: "still (itLoad I (itConsumer I))" and save: "\<And>n. still (itSave I (itConsumer I) n)"
  shows "still (runDaemonIteration I cursor)"
proof -
  have "still (saveCheckpoint I d f n)" for d f n
    unfolding saveCheckpoint_def
    by (cases d) (auto intro!: still_rules still_report save)
  then have "still (durablePart I d n)" for d n
    unfolding durablePart_def
    by (intro still_rules still_report still_durable quiet_fields(12) [OF quiet_services] | auto intro!: still_rules split: DurableRequestResult.split)+
  then show ?thesis
    unfolding runDaemonIteration_def validateIterationOptions_def
    by (intro still_rules still_local still_report load still_heads still_soft)
qed

end

text \<open>
  A checkpoint may move from \<open>start\<close> to \<open>n\<close> when a pass over the blocks from \<open>start\<close> verified \<open>n\<close>.
\<close>

definition verifiedAdvance :: "('r, 'w) istate iteration_env \<Rightarrow> int \<Rightarrow> int \<Rightarrow> bool" where
  "verifiedAdvance I start n =
     (\<exists>durable d rs. scannedPass (durableEnv I start durable) start durable (itMaxRange I) d rs \<and>
        dsCheckpoint d = CheckpointVerified n \<and> start < n)"

definition advancedTo ::
  "('r, 'w) istate iteration_env \<Rightarrow> int set \<Rightarrow> bool \<times> checkpoints set \<Rightarrow> bool \<times> checkpoints set \<Rightarrow> bool" where
  "advancedTo I starts v v' =
     (fst v \<longrightarrow> fst v' \<and> (\<forall>m' \<in> snd v'. m' \<in> snd v \<or>
        (\<exists>m \<in> snd v. \<exists>n. (\<exists>start \<in> starts. verifiedAdvance I start n) \<and> movedTo (itConsumer I) n m m')))"

lemma advancedTo_refl [simp]: "advancedTo I starts v v"
  by (simp add: advancedTo_def)

lemma advancedTo_fewer:
  assumes "fst v \<longrightarrow> fst v1 \<and> snd v1 \<subseteq> snd v" "advancedTo I starts v1 v2" "fst v \<Longrightarrow> starts \<subseteq> starts'"
  shows "advancedTo I starts' v v2"
  unfolding advancedTo_def
proof (intro impI conjI ballI)
  assume v: "fst v"
  with assms show "fst v2" by (auto simp: advancedTo_def)
  have sub: "snd v1 \<subseteq> snd v" "fst v1" using assms(1) v by auto
  fix m' assume "m' \<in> snd v2"
  then have "m' \<in> snd v1 \<or> (\<exists>m \<in> snd v1. \<exists>n. (\<exists>start \<in> starts. verifiedAdvance I start n) \<and> movedTo (itConsumer I) n m m')"
    using assms(2) sub by (simp add: advancedTo_def)
  then show "m' \<in> snd v \<or> (\<exists>m \<in> snd v. \<exists>n. (\<exists>start \<in> starts'. verifiedAdvance I start n) \<and> movedTo (itConsumer I) n m m')"
    using sub(1) assms(3) [OF v] by blast
qed

text \<open>Composition of computations around the one that may advance.\<close>

lemma advance_seq:
  assumes "unchanged f m" and "\<And>x t. f t = f s \<Longrightarrow> m s = (Inr x, t) \<Longrightarrow> P' x t"
    and "\<And>x t r u. P' x t \<Longrightarrow> k x t = (r, u) \<Longrightarrow> R (f t) (f u)" and "\<And>a. R a a"
    and "andThen m k s = (r, u)"
  shows "R (f s) (f u)"
proof -
  consider e where "m s = (Inl e, u)" | x t where "m s = (Inr x, t)" "k x t = (r, u)"
    using assms(5) by (auto simp: andThen_def split: prod.splits sum.splits)
  then show ?thesis
  proof cases
    case 1
    then have "f u = f s" using stepsInD [OF assms(1)] by (simp add: leaves_def)
    then show ?thesis using assms(4) by simp
  next
    case 2
    then have e: "f t = f s" using stepsInD [OF assms(1)] by (simp add: leaves_def)
    from assms(3) [OF assms(2) [OF e 2(1)] 2(2)] e show ?thesis by simp
  qed
qed

locale checkpointed_iteration =
  checkpoint_store "itLoad I" "itSave I" good found "itConsumer I"
  for I :: "('r, 'w) istate iteration_env" and good and found +
  assumes quiet: "quietServices (\<lambda>s. (good s, found s)) I"
begin

text \<open>What the store shows to the rest of the program.\<close>

definition seen :: "('r, 'w) istate \<Rightarrow> bool \<times> checkpoints set" where
  "seen s = (good s, found s)"

lemma quiet_seen: "quietServices seen I"
  using quiet by (simp add: seen_def [abs_def])

end

sublocale checkpointed_iteration \<subseteq> quietly: iteration_steps "leaves seen" I
  by (intro iteration_steps.intro iteration_steps_axioms.intro leaving.graded_steps_axioms quiet_seen)

context checkpointed_iteration
begin

lemma saveCheckpoint_moves:
  assumes run: "saveCheckpoint I decision failure nextB s = (r, t)"
    and dec: "\<And>n. decision = CheckpointVerified n \<Longrightarrow> nextB < n \<Longrightarrow> verifiedAdvance I nextB n"
  shows "advancedTo I {nextB} (seen s) (seen t)"
proof (cases "\<exists>n. decision = CheckpointVerified n \<and> nextB < n")
  case False
  then have "t = s" using run by (auto simp: saveCheckpoint_def ret_def split: DurableCheckpointDecision.splits if_splits)
  then show ?thesis by simp
next
  case True
  then obtain n where n: "decision = CheckpointVerified n" "nextB < n" by blast
  obtain q u where u: "reportOperation I (SaveCheckpoint n) s = (q, u)" by (cases "reportOperation I (SaveCheckpoint n) s")
  have su: "seen u = seen s" using stepsInD [OF quietly.still_report u] by (simp add: leaves_def)
  obtain p v where v: "itSave I (itConsumer I) n u = (p, v)" by (cases "itSave I (itConsumer I) n u")
  have "t = u \<or> t = v"
    using run u v n by (auto simp: saveCheckpoint_def andThen_def tryCatch_def ret_def throw_def split: sum.splits option.splits)
  moreover have "advancedTo I {nextB} (seen u) (seen v)"
    using save_moves [OF _ v] dec [OF n] by (auto simp: advancedTo_def seen_def)
  ultimately show ?thesis using su by (metis advancedTo_refl)
qed

lemma durablePart_advances:
  assumes "durablePart I durable start s = (r, t)"
  shows "advancedTo I {start} (seen s) (seen t)"
proof (cases "durable < start")
  case True
  then show ?thesis using assms by (simp add: durablePart_def ret_def)
next
  case False
  let ?rec = "reconcileDurableRequests (durableEnv I start durable) start durable (itMaxRange I)"
  define k where "k = (\<lambda>r. andThen (observe (itOnReconciliation I) r) (\<lambda>_.
        andThen getState (\<lambda>s.
        andThen (saveCheckpoint I (durableCheckpoint r) (importFailure (durableImports r)) start) (\<lambda>savedB.
        case importFailure (durableImports r) of
          Some e \<Rightarrow>
            andThen (case currentOperation (fst s) of None \<Rightarrow> ret () | Some oper \<Rightarrow> reportOperation I oper) (\<lambda>_.
            throw e)
        | None \<Rightarrow>
            ret (savedB, case r of
              DurableScanned d \<Rightarrow> Some \<lparr>psFrom = dsFrom d, psTo = dsTo d, psNext = savedB,
                psRounds = completedOutcomes (durableImports r), psReconciliation = Some r\<rparr>
            | _ \<Rightarrow> None)))))"
  have rest: "advancedTo I {start} (seen u) (seen t)"
    if rec: "?rec w = (Inr x, u)" and k: "k x u = (q, t)" for w x u q t
  proof -
    have dec: "verifiedAdvance I start n" if "durableCheckpoint x = CheckpointVerified n" "start < n" for n
      using reconcile_wp [of "durableEnv I start durable" start durable "itMaxRange I" w] rec that
      by (auto simp: wp_def durableCheckpoint_def verifiedAdvance_def split: DurableRequestResult.splits)
    obtain u1 where u1: "observe (itOnReconciliation I) x u = (Inr (), u1)" using observe_Inr [of "itOnReconciliation I" x u] by auto
    have "unchanged seen (observe (itOnReconciliation I) x)"
      by (rule leaving.still_observe) (rule quiet_fields(12) [OF quiet_seen])
    then have s1: "seen u1 = seen u" using stepsInD u1 by (fastforce simp: leaves_def)
    obtain p u2 where u2: "saveCheckpoint I (durableCheckpoint x) (importFailure (durableImports x)) start u1 = (p, u2)"
      by (cases "saveCheckpoint I (durableCheckpoint x) (importFailure (durableImports x)) start u1")
    have s2: "advancedTo I {start} (seen u1) (seen u2)"
      by (rule saveCheckpoint_moves [OF u2 dec])
    have report: "unchanged seen (case currentOperation (fst u1) of None \<Rightarrow> ret () | Some oper \<Rightarrow> reportOperation I oper)"
      by (auto split: option.split intro: leaving.in_ret quietly.still_report)
    have "seen t = seen u2"
    proof (cases p)
      case (Inl e)
      then show ?thesis using k u1 u2 by (simp add: k_def andThen_def getState_def)
    next
      case (Inr savedB)
      show ?thesis
      proof (cases "importFailure (durableImports x)")
        case None
        then show ?thesis using k u1 u2 Inr by (simp add: k_def andThen_def getState_def ret_def)
      next
        case (Some e)
        then have "andThen (case currentOperation (fst u1) of None \<Rightarrow> ret () | Some oper \<Rightarrow> reportOperation I oper)
            (\<lambda>_. throw e) u2 = (q, t)"
          using k u1 u2 Inr by (simp add: k_def andThen_def getState_def)
        then show ?thesis using stepsInD [OF leaving.in_seq [OF report leaving.in_throw]] by (simp add: leaves_def)
      qed
    qed
    then show ?thesis using s1 s2 by simp
  qed
  have "andThen (reportOperation I (ScanRequests DurableScan start durable (itMaxRange I))) (\<lambda>_. andThen ?rec k) s = (r, t)"
    using assms False by (simp add: durablePart_def k_def)
  then show ?thesis
  proof (rule advance_seq [where P' = "\<lambda>_ _. True", OF quietly.still_report, rotated -1])
    fix x :: unit and t r u assume "andThen ?rec k t = (r, u)"
    then show "advancedTo I {start} (seen t) (seen u)"
      by (rule advance_seq [where P' = "\<lambda>x t. \<exists>w. ?rec w = (Inr x, t)", OF quietly.still_durable, rotated -1])
        (blast | (erule exE, rule rest, assumption+) | simp)+
  qed simp_all
qed

text \<open>The whole iteration, from the loaded checkpoint or, without one, the configured first block.\<close>

definition startOf :: "checkpoints \<Rightarrow> int" where
  "startOf m = (case m (itConsumer I) of None \<Rightarrow> itStartBlock I | Some c \<Rightarrow> c)"

definition starts :: "('r, 'w) istate \<Rightarrow> int set" where
  "starts s = startOf ` found s"

lemma starts_seen: "seen s = seen t \<Longrightarrow> starts s = starts t"
  by (simp add: starts_def seen_def)

lemma iteration_advances:
  assumes "runDaemonIteration I cursor s = (r, t)"
  shows "advancedTo I (starts s) (seen s) (seen t)"
proof -
  define k where "k = (\<lambda>checkpoint. andThen (abortCheck (itAborted I)) (\<lambda>_.
     andThen (reportOperation I ReadChainHeads) (\<lambda>_.
     andThen (case itReadHeads I of
         Some m \<Rightarrow> m | None \<Rightarrow> getChainHeads (itClient I) (itFinality I)) (\<lambda>heads.
     andThen (abortCheck (itAborted I)) (\<lambda>_.
     andThen (durablePart I (durableBlock heads)
         (case checkpoint of None \<Rightarrow> itStartBlock I | Some c \<Rightarrow> c)) (\<lambda>(durableNext, durableScan).
     andThen (softPart I (latestBlock heads)
         (getSoftNextBlock cursor durableNext (durableBlock heads))) (\<lambda>(softNext, softScan).
     ret \<lparr>riStatus = iterationStatus durableScan softScan durableNext (durableBlock heads),
          riConsumer = itConsumer I, riHeads = heads, riDurableNext = durableNext,
          riHeadRegressed = headRegressed checkpoint (durableBlock heads), riSoftNext = softNext,
          riDurableScan = durableScan, riSoftScan = softScan\<rparr>)))))))"
  let ?start = "\<lambda>x. case x of None \<Rightarrow> itStartBlock I | Some c \<Rightarrow> c"
  let ?adv = "\<lambda>start s t. advancedTo I {start} (seen s) (seen t)"
  have seq: "stepsIn (?adv start) (andThen m g)" if "unchanged seen m" "\<And>x. stepsIn (?adv start) (g x)"
    for start and m :: "(('r, 'w) istate, 'x) io" and g :: "'x \<Rightarrow> (('r, 'w) istate, 'y) io"
  proof (rule stepsInI)
    fix s r t assume "andThen m g s = (r, t)"
    then show "?adv start s t"
      by (rule advance_seq [where P' = "\<lambda>_ _. True", OF that(1), rotated -1]) (auto dest: stepsInD [OF that(2)])
  qed
  have after: "unchanged seen m \<Longrightarrow> stepsIn (?adv start) m" for start and m :: "(('r, 'w) istate, 'x) io"
    by (auto simp: stepsIn_def leaves_def)
  have durable: "stepsIn (?adv start) (andThen (durablePart I d start) g)"
    if "\<And>x. unchanged seen (g x)" for start d and g :: "int \<times> ProcessedDaemonScan option \<Rightarrow> (('r, 'w) istate, 'y) io"
  proof (rule stepsInI)
    fix s r t assume g: "andThen (durablePart I d start) g s = (r, t)"
    obtain x u where u: "durablePart I d start s = (x, u)" by (cases "durablePart I d start s")
    have "seen t = seen u"
      using g u stepsInD [OF that] by (cases x) (auto simp: andThen_def leaves_def)
    then show "?adv start s t" using durablePart_advances [OF u] by simp
  qed
  have ksteps: "stepsIn (?adv (?start x)) (k x)" for x
    unfolding k_def
    by (intro seq durable leaving.still_rules quietly.still_report quietly.still_soft quietly.still_heads)
  have main: "stepsIn (\<lambda>s t. advancedTo I (starts s) (seen s) (seen t)) (andThen (itLoad I (itConsumer I)) k)"
  proof (rule stepsInI)
    fix s r t assume l: "andThen (itLoad I (itConsumer I)) k s = (r, t)"
    obtain x u where u: "itLoad I (itConsumer I) s = (x, u)" by (cases "itLoad I (itConsumer I) s")
    have su: "fst (seen s) \<longrightarrow> fst (seen u) \<and> snd (seen u) \<subseteq> snd (seen s)"
      using load_keeps [OF _ u] by (simp add: seen_def)
    show "advancedTo I (starts s) (seen s) (seen t)"
    proof (cases x)
      case (Inl e)
      then show ?thesis using l u su by (auto simp: andThen_def advancedTo_def)
    next
      case (Inr c)
      then have "k c u = (r, t)" using l u by (simp add: andThen_def)
      from stepsInD [OF ksteps this] have adv: "advancedTo I {?start c} (seen u) (seen t)" .
      have "{?start c} \<subseteq> starts s" if "fst (seen s)"
        using load_returns [OF _ u [unfolded Inr]] that by (auto simp: starts_def startOf_def seen_def)
      with su adv show ?thesis by (rule advancedTo_fewer)
    qed
  qed
  have lead: "stepsIn (\<lambda>s t. advancedTo I (starts s) (seen s) (seen t)) (andThen m g)"
    if "unchanged seen m" "\<And>x. stepsIn (\<lambda>s t. advancedTo I (starts s) (seen s) (seen t)) (g x)"
    for m :: "(('r, 'w) istate, 'x) io" and g :: "'x \<Rightarrow> (('r, 'w) istate, 'y) io"
  proof (rule stepsInI)
    fix s r t assume g: "andThen m g s = (r, t)"
    obtain x u where u: "m s = (x, u)" by (cases "m s")
    have su: "seen u = seen s" using stepsInD [OF that(1) u] by (simp add: leaves_def)
    show "advancedTo I (starts s) (seen s) (seen t)"
      using g u su stepsInD [OF that(2)] starts_seen [OF su] by (cases x) (fastforce simp: andThen_def)+
  qed
  have "stepsIn (\<lambda>s t. advancedTo I (starts s) (seen s) (seen t)) (runDaemonIteration I cursor)"
    unfolding runDaemonIteration_def k_def [symmetric] validateIterationOptions_def
    by (intro main lead quietly.still_local quietly.still_report leaving.still_abortCheck leaving.in_seq leaving.in_unless)
  from stepsInD [OF this assms] show ?thesis .
qed

end

end
