(* ===== verification/CheckpointFileProofs.thy ===== *)
theory CheckpointFileProofs
  imports CheckpointFile DaemonProofs
begin

text \<open>
  The checkpoint file parses back to what was written, also after any stop, and the store on it keeps
  the laws the daemon relies on.
\<close>

subsection \<open>The round trip\<close>

text \<open>
  What the store relies on: the numbers of its file are printed and read exactly, the chain id is the
  positive safe integer its configuration requires, and viem's \<^verbatim>\<open>getAddress\<close> leaves what it returns as it is.
\<close>

definition properConfig :: "'w checkpoint_env \<Rightarrow> bool" where
  "properConfig K =
     (exactIntegers (ckNumbers K) \<and> 0 < ckChainId K \<and> ckChainId K \<le> MAX_SAFE_INTEGER \<and>
      ckGetAddress K (ckRegistry K) = Inr (ckRegistry K) \<and>
      (\<forall>x a. ckGetAddress K x = Inr a \<longrightarrow> ckGetAddress K a = Inr a))"

definition properState :: "'w checkpoint_env \<Rightarrow> CheckpointState \<Rightarrow> bool" where
  "properState K m = (distinct (map fst m) \<and> (\<forall>(a, n) \<in> set m. ckGetAddress K a = Inr a \<and> 0 \<le> n))"

definition checkpointJson :: "'w checkpoint_env \<Rightarrow> CheckpointState \<Rightarrow> json" where
  "checkpointJson K m =
     JsonObject [(js ''version'', JsonNumber (JNum 1)), (js ''chainId'', JsonNumber (JNum (of_int (ckChainId K)))),
       (js ''registry'', JsonString (ckRegistry K)),
       (js ''consumers'', JsonObject (map (\<lambda>(a, n). (a, JsonObject [(js ''nextBlock'', JsonString (showBigint n))])) m))]"

lemma serialized_json: "toJson (serializedState K m) = Some (checkpointJson K m)"
proof -
  have "toJson (JObject (map (\<lambda>(a, n). (a, DataProp (obj [(''nextBlock'', JString (showBigint n))]))) m)) =
    Some (JsonObject (map (\<lambda>(a, n). (a, JsonObject [(js ''nextBlock'', JsonString (showBigint n))])) m))"
    by (induction m) (auto simp: obj_def)
  then show ?thesis by (simp add: serializedState_def checkpointJson_def)
qed

lemma json_serialized: "ofJson (checkpointJson K m) = serializedState K m"
  by (auto simp: checkpointJson_def serializedState_def obj_def)

lemma checkpoint_plain:
  assumes "properConfig K" "properState K m"
  shows "plainJson (checkpointJson K m)"
proof -
  have one: "isNonNegativeSafeInteger (JNum 1)" by (simp add: isNonNegativeSafeInteger_iff MAX_SAFE_INTEGER_def)
  have chain: "isNonNegativeSafeInteger (JNum (of_int (ckChainId K)))"
    using assms(1) by (simp add: properConfig_def)
  have keys: "map fst (map (\<lambda>(a, n). (a, JsonObject [(js ''nextBlock'', JsonString (showBigint n))])) m) = map fst m"
    by auto
  have "plainJson (JsonObject (map (\<lambda>(a, n). (a, JsonObject [(js ''nextBlock'', JsonString (showBigint n))])) m))"
    unfolding plainJson.simps keys using assms(2) by (auto simp: properState_def list_all_iff)
  with one chain show ?thesis by (simp add: checkpointJson_def)
qed

lemma parseConsumers_serialized:
  assumes "properState K (acc @ m)"
  shows "parseConsumers (ckGetAddress K) (map (\<lambda>(a, n). (a, DataProp (obj [(''nextBlock'', JString (showBigint n))]))) m) acc =
    Inr (acc @ m)"
  using assms
proof (induction m arbitrary: acc)
  case (Cons x m)
  obtain a n where x: "x = (a, n)" by (cases x)
  have a: "ckGetAddress K a = Inr a" "0 \<le> n" "map_of acc a = None"
    using Cons.prems x by (auto simp: properState_def map_of_eq_None_iff)
  have "parseNextBlock (getMember (obj [(''nextBlock'', JString (showBigint n))]) ''nextBlock'') = Inr n"
    using a(2) by (simp add: parseNextBlock_def isDecimalInteger_showBigint parseBigint_showBigint)
  moreover have "requireJsObject (obj [(''nextBlock'', JString (showBigint n))]) msg =
      Inr (obj [(''nextBlock'', JString (showBigint n))])" for msg
    by (simp add: requireJsObject_def obj_def)
  ultimately show ?case using Cons.IH [of "acc @ [(a, n)]"] Cons.prems a x by (simp add: withCause_def)
qed simp

lemma requireJs_obj [simp]: "requireJsObject (JObject ps) msg = Inr (JObject ps)"
  by (simp add: requireJsObject_def)

lemma parseState_serialized:
  assumes K: "properConfig K" and m: "properState K m"
  shows "parseState K (serializedState K m) = Inr m"
proof -
  let ?cs = "map (\<lambda>(a, n). (a, DataProp (obj [(''nextBlock'', JString (showBigint n))]))) m"
  have mem: "getMember (serializedState K m) ''version'' = JNum 1"
    "getMember (serializedState K m) ''chainId'' = JNum (of_int (ckChainId K))"
    "getMember (serializedState K m) ''registry'' = JString (ckRegistry K)"
    "getMember (serializedState K m) ''consumers'' = JObject ?cs"
    by (simp_all add: serializedState_def getMember_def ownData_def)
  have obj: "requireJsObject (serializedState K m) msg = Inr (serializedState K m)" for msg
    by (simp add: requireJsObject_def serializedState_def)
  have "parseConsumers (ckGetAddress K) ?cs [] = Inr m" using parseConsumers_serialized [of K "[]" m] m by simp
  then show ?thesis
    using K by (simp add: parseState_def obj mem properConfig_def withCause_def)
qed

lemma checkpointText_wellFormed:
  assumes "properConfig K" "properState K m"
  shows "toWellFormed (checkpointText K m) = checkpointText K m"
proof (rule toWellFormed_id)
  have "isWellFormed (printIndented (ckNumbers K) [] (checkpointJson K m))"
    using assms checkpoint_plain by (intro printIndented_wellFormed) (auto simp: properConfig_def)
  then show "isWellFormed (checkpointText K m)"
    using isWellFormed_append [of _ "[10]"] by (simp add: checkpointText_def stringifyIndented_def serialized_json)
qed

text \<open>What a file with the given content, or no file, stands for.\<close>

definition decodeFile :: "'w checkpoint_env \<Rightarrow> file_content option \<Rightarrow> exn + CheckpointState" where
  "decodeFile K x = (case x of None \<Rightarrow> Inr [] | Some c \<Rightarrow> parseCheckpointText K (decodedText c))"

lemma decode_written:
  assumes K: "properConfig K" and m: "properState K m"
  shows "decodeFile K (Some (newContent (checkpointText K m))) = Inr m"
proof -
  have N: "exactIntegers (ckNumbers K)" using K by (simp add: properConfig_def)
  have "stops [10]" by simp
  then have "parseValue (ckNumbers K) (printIndented (ckNumbers K) [] (checkpointJson K m) @ [10]) =
      Some (checkpointJson K m, [10])"
    using parse_indented [OF N checkpoint_plain [OF K m]] by (simp add: indentedBack_def)
  then have "parseJson (ckNumbers K) (checkpointText K m) = Some (serializedState K m)"
    by (simp add: parseJson_def checkpointText_def stringifyIndented_def serialized_json json_serialized
        skipWhite_def isWhite_def)
  then show ?thesis
    using K m by (simp add: decodeFile_def newContent_def checkpointText_wellFormed parseCheckpointText_def parseState_serialized)
qed

text \<open>Whatever the file holds, a state that is read from it is proper.\<close>

lemma parseNextBlock_nonneg: "parseNextBlock v = Inr n \<Longrightarrow> 0 \<le> n"
  by (cases v) (auto simp: parseNextBlock_def checkE_Inr isDecimalInteger_def parseBigint_nonneg)

lemma parseConsumers_proper:
  assumes K: "properConfig K"
  shows "parseConsumers (ckGetAddress K) ps acc = Inr m \<Longrightarrow> properState K acc \<Longrightarrow> properState K m"
proof (induction ps arbitrary: acc)
  case (Cons p ps)
  obtain raw q where p: "p = (raw, q)" by (cases p)
  from Cons.prems(1) obtain a n v where a: "withCause ''Checkpoint file contains an invalid consumer address.'' (ckGetAddress K raw) = Inr a"
    "map_of acc a = None" "parseNextBlock v = Inr n" "parseConsumers (ckGetAddress K) ps (acc @ [(a, n)]) = Inr m"
    unfolding p by (auto simp: bindE_Inr checkE_Inr)
  have "ckGetAddress K raw = Inr a" using a(1) by (auto simp: withCause_def split: sum.splits)
  then have "ckGetAddress K a = Inr a" using K by (auto simp: properConfig_def)
  moreover have "a \<notin> fst ` set acc" using a(2) by (simp add: map_of_eq_None_iff)
  ultimately have "properState K (acc @ [(a, n)])"
    using Cons.prems(2) parseNextBlock_nonneg [OF a(3)] by (auto simp: properState_def)
  from Cons.IH [OF a(4) this] show ?case .
qed simp

lemma parsed_proper:
  assumes K: "properConfig K" and d: "decodeFile K x = Inr m"
  shows "properState K m"
proof -
  have "properState K []" by (simp add: properState_def)
  moreover have "properState K m" if v: "parseState K v = Inr m" for v
  proof -
    from v obtain cs where "(case cs of JObject ps \<Rightarrow> parseConsumers (ckGetAddress K) ps [] | _ \<Rightarrow> Inr []) = Inr m"
      unfolding parseState_def bindE_Inr checkE_Inr by blast
    then show ?thesis
      using parseConsumers_proper [OF K, of _ "[]" m] \<open>properState K []\<close> by (cases cs) auto
  qed
  ultimately show ?thesis
    using d by (auto simp: decodeFile_def parseCheckpointText_def split: option.splits)
qed

subsection \<open>What the file operations leave\<close>

text \<open>Two states of the directory in which the path is the same, also for a restart.\<close>

definition samePath :: "jstr \<Rightarrow> file_system \<Rightarrow> file_system \<Rightarrow> bool" where
  "samePath path fs gs =
     ((fsOk fs \<longrightarrow> fsOk gs) \<and> fileAt gs path = fileAt fs path \<and> mayFind gs path = mayFind fs path)"

lemma samePath_refl [simp]: "samePath path fs fs"
  by (simp add: samePath_def)

lemma samePath_trans: "samePath path fs gs \<Longrightarrow> samePath path gs hs \<Longrightarrow> samePath path fs hs"
  by (simp add: samePath_def)

lemma mayFind_clock [simp]:
  "mayFind (gs\<lparr>fsClock := k\<rparr>) = mayFind gs" "mayFind (gs\<lparr>fsDown := d\<rparr>) = mayFind gs"
  "fileAt (gs\<lparr>fsClock := k\<rparr>) = fileAt gs" "fileAt (gs\<lparr>fsDown := d\<rparr>) = fileAt gs"
  by (rule ext | simp add: mayFind_def fileAt_def cong: option.case_cong)+

lemma samePath_clock [simp]:
  "samePath path fs (gs\<lparr>fsClock := k\<rparr>) = samePath path fs gs" "samePath path fs (gs\<lparr>fsDown := d\<rparr>) = samePath path fs gs"
  "samePath path (fs\<lparr>fsClock := k\<rparr>) gs = samePath path fs gs"
  by (simp_all add: samePath_def)

definition pathKept :: "jstr \<Rightarrow> nat \<Rightarrow> nat \<Rightarrow> file_system \<Rightarrow> file_system \<Rightarrow> bool" where
  "pathKept path p n s t = samePath path s t"

interpretation onPath: graded_steps "pathKept path" for path
  by unfold_locales (auto simp: pathKept_def intro: samePath_trans)

text \<open>An operation that reads, or changes another name.\<close>

lemma pathKept_op:
  assumes "\<And>fs r gs. f fs = (r, gs) \<Longrightarrow> samePath path fs gs"
  shows "stepsIn (pathKept path 0 0) (fsOp f)"
proof (rule stepsInI)
  fix s r t assume run: "fsOp f s = (r, t)"
  have eff: "wp f (\<lambda>_. samePath path s) (\<lambda>_. samePath path s) (s\<lparr>fsClock := k\<rparr>)" for k
    by (rule wpI) (use assms samePath_clock(3) in blast)+
  have "wp (fsOp f) (\<lambda>_. samePath path s) (\<lambda>_. samePath path s) s"
    by (rule wp_fsOp) (simp_all add: eff)
  then show "pathKept path 0 0 s t" using run by (cases r) (auto simp: pathKept_def dest: wp_Inl wp_Inr)
qed

lemma samePath_other:
  assumes "name \<noteq> path"
  shows "samePath path fs (setEntry name None fs)"
proof -
  have "fsOk fs \<Longrightarrow> fsOk (setEntry name None fs)" by (rule setEntry_ok) simp_all
  moreover have "mayFind (setEntry name None fs) path = mayFind fs path"
    using assms by (intro ext) (simp add: mayFind_def entryOf_setEntry cong: option.case_cong)
  ultimately show ?thesis using assms by (simp add: samePath_def fileAt_def entryOf_setEntry)
qed

lemma pathKept_remove: "stepsIn (pathKept path 0 0) (removeCheckpointTempFiles path)"
proof -
  have "stepsIn (pathKept path 0 0) fsNames" "stepsIn (pathKept path 0 0) (fsLstat name)" for name
    unfolding fsNames_def fsLstat_def by (auto intro!: pathKept_op split: option.splits)
  moreover have "stepsIn (pathKept path 0 0) (fsUnlink name)" if "name \<noteq> path" for name
    using samePath_other [OF that] unfolding fsUnlink_def by (auto intro!: pathKept_op split: option.splits)
  ultimately have "stepsIn (pathKept path 0 0) (removeTempFiles path names)" for names
  proof (induction names)
    case (Cons name names)
    have "name \<noteq> path" if "isCheckpointTempName name path" by (rule tempName_other [OF that])
    then show ?case using Cons
      by (cases "isCheckpointTempName name path") (auto intro!: onPath.in_seq onPath.in_catch onPath.in_ret onPath.in_throw onPath.in_if)
  qed (simp add: onPath.in_ret)
  with \<open>stepsIn (pathKept path 0 0) fsNames\<close> show ?thesis
    unfolding removeCheckpointTempFiles_def by (intro onPath.in_seq)
qed

text \<open>Reading leaves everything but the clock.\<close>

definition onlyClock :: "file_system \<Rightarrow> file_system \<Rightarrow> bool" where
  "onlyClock fs gs = (\<exists>k d. gs = fs\<lparr>fsClock := k, fsDown := d\<rparr>)"

lemma onlyClock_step:
  "onlyClock fs g \<Longrightarrow> onlyClock fs (g\<lparr>fsClock := k, fsDown := d\<rparr>)" "onlyClock fs g \<Longrightarrow> onlyClock fs (g\<lparr>fsClock := k\<rparr>)"
proof -
  assume "onlyClock fs g"
  then obtain k' d' where g: "g = fs\<lparr>fsClock := k', fsDown := d'\<rparr>" by (auto simp: onlyClock_def)
  then have "g\<lparr>fsClock := k, fsDown := d\<rparr> = fs\<lparr>fsClock := k, fsDown := d\<rparr>"
    "g\<lparr>fsClock := k\<rparr> = fs\<lparr>fsClock := k, fsDown := d'\<rparr>" by simp_all
  then show "onlyClock fs (g\<lparr>fsClock := k, fsDown := d\<rparr>)" "onlyClock fs (g\<lparr>fsClock := k\<rparr>)"
    unfolding onlyClock_def by metis+
qed

lemma onlyClock_refl: "onlyClock fs fs"
proof -
  have "fs = fs\<lparr>fsClock := fsClock fs, fsDown := fsDown fs\<rparr>" by simp
  then show ?thesis unfolding onlyClock_def by metis
qed

lemma onlyClock_same:
  assumes "onlyClock fs g"
  shows "samePath path fs g" "fileAt g = fileAt fs" "entryOf g = entryOf fs" "fsContent g = fsContent fs"
  using assms by (auto simp: onlyClock_def)

lemma reading_rule:
  assumes g: "onlyClock fs g"
    and f: "\<And>h. onlyClock fs h \<Longrightarrow> snd (f h) = h \<and> (case fst (f h) of Inl e \<Rightarrow> E e h | Inr x \<Rightarrow> Q x h)"
    and e: "\<And>e h. e \<noteq> NodeError ''ENOENT'' \<Longrightarrow> onlyClock fs h \<Longrightarrow> E e h"
  shows "wp (fsOp f) Q E g"
proof (rule wp_fsOp)
  fix e k assume n: "e \<noteq> NodeError ''ENOENT''"
  show "E e (g\<lparr>fsClock := k, fsDown := d\<rparr>)" for d by (rule e [OF n onlyClock_step(1) [OF g]])
  show "wp f (\<lambda>_. E e) (\<lambda>_. E e) (g\<lparr>fsClock := k\<rparr>)"
    using f [OF onlyClock_step(2) [OF g], of k] e [OF n onlyClock_step(2) [OF g], of k]
    by (cases "f (g\<lparr>fsClock := k\<rparr>)") (simp add: wp_def split: sum.splits)
next
  fix k
  show "wp f Q E (g\<lparr>fsClock := k\<rparr>)"
    using f [OF onlyClock_step(2) [OF g], of k] by (auto simp: wp_def split: prod.splits sum.splits)
qed

lemma readTextFile_wp:
  "wp (readTextFile name) (\<lambda>t h. onlyClock fs h \<and> (\<exists>c. fileAt fs name = Some c \<and> t = decodedText c))
     (\<lambda>e h. onlyClock fs h \<and> (e = NodeError ''ENOENT'' \<longrightarrow> fileAt fs name = None)) fs"
proof -
  have close: "wp fsNothing (\<lambda>_ u. Q u) E u" if "onlyClock fs u" "\<And>h. onlyClock fs h \<Longrightarrow> Q h"
    "\<And>e h. e \<noteq> NodeError ''ENOENT'' \<Longrightarrow> onlyClock fs h \<Longrightarrow> E e h" for Q E u
    unfolding fsNothing_def by (rule reading_rule [OF that(1)]) (use that in auto)
  show ?thesis
    unfolding readTextFile_def wp_andThen fsOpen_def
    apply (rule reading_rule [OF onlyClock_refl])
     apply (auto split: option.splits simp: wp_simps onlyClock_same fileAt_def fsRead_def
        intro!: reading_rule close)
    done
qed

lemma readState_wp:
  "wp (readState K) (\<lambda>m h. onlyClock fs h \<and> decodeFile K (fileAt fs (ckPath K)) = Inr m) (\<lambda>_ h. onlyClock fs h) fs"
  unfolding readState_def wp_andThen wp_tryCatch
  by (rule wp_mono [OF readTextFile_wp [of "ckPath K" fs]])
    (auto simp: wp_simps isMissingFile_def decodeFile_def split: option.splits sum.splits)

subsection \<open>The store\<close>

text \<open>
  The invariant of a store: a cached snapshot is what the file holds. \<open>foundBy\<close> are the checkpoints
  that a restart may find, or that the file holds now.
\<close>

definition storeGood :: "'w checkpoint_env \<Rightarrow> 'w cstore \<Rightarrow> bool" where
  "storeGood K s =
     (case s of (cached, fs, _) \<Rightarrow>
        fsOk fs \<and> (\<forall>m. cached = Some m \<longrightarrow> decodeFile K (fileAt fs (ckPath K)) = Inr m))"

definition foundBy :: "'w checkpoint_env \<Rightarrow> 'w cstore \<Rightarrow> checkpoints set" where
  "foundBy K s =
     (case s of (_, fs, _) \<Rightarrow> {map_of m | m. \<exists>x. mayFind fs (ckPath K) x \<and> decodeFile K x = Inr m})"

lemma found_now: "decodeFile K (fileAt fs (ckPath K)) = Inr m \<Longrightarrow> map_of m \<in> foundBy K (c, fs, w)"
  using mayFind_now by (auto simp: foundBy_def)

lemma writeState_wp:
  assumes K: "properConfig K" and m: "properState K m" and ok: "fsOk fs"
  shows "wp (writeState K m)
    (\<lambda>_ (gs, _). fsOk gs \<and> decodeFile K (fileAt gs (ckPath K)) = Inr m \<and>
       (\<forall>x. mayFind gs (ckPath K) x \<longrightarrow> decodeFile K x = Inr m))
    (\<lambda>_ (gs, _). fsOk gs \<and> (\<forall>x. mayFind gs (ckPath K) x \<longrightarrow> mayFind fs (ckPath K) x \<or> decodeFile K x = Inr m))
    (fs, w)"
proof (rule wpI)
  fix u t assume run: "writeState K m (fs, w) = (Inr u, t)"
  obtain gs v where t: "t = (gs, v)" by (cases t)
  note r = durableReplace_result [OF ok run [unfolded writeState_def t]]
  show "case t of (gs, _) \<Rightarrow> fsOk gs \<and> decodeFile K (fileAt gs (ckPath K)) = Inr m \<and>
       (\<forall>x. mayFind gs (ckPath K) x \<longrightarrow> decodeFile K x = Inr m)"
    using r(1,4,5) decode_written [OF K m] by (auto simp: t)
next
  fix e t assume run: "writeState K m (fs, w) = (Inl e, t)"
  obtain gs v where t: "t = (gs, v)" by (cases t)
  note r = durableReplace_result [OF ok run [unfolded writeState_def t]]
  show "case t of (gs, _) \<Rightarrow> fsOk gs \<and> (\<forall>x. mayFind gs (ckPath K) x \<longrightarrow> mayFind fs (ckPath K) x \<or> decodeFile K x = Inr m)"
    using r(1,3) decode_written [OF K m] by (auto simp: t)
qed

lemma foundBy_subset:
  assumes "\<forall>x. mayFind gs (ckPath K) x \<longrightarrow> mayFind fs (ckPath K) x \<or> decodeFile K x = Inr m"
    and "m' \<in> foundBy K (c, gs, v)"
  shows "m' \<in> foundBy K (d, fs, w) \<or> m' = map_of m"
proof -
  obtain k x where k: "m' = map_of k" "mayFind gs (ckPath K) x" "decodeFile K x = Inr k"
    using assms(2) by (auto simp: foundBy_def)
  with assms(1) consider "mayFind fs (ckPath K) x" | "decodeFile K x = Inr m" by blast
  then show ?thesis using k by cases (auto simp: foundBy_def)
qed

lemma foundBy_only:
  assumes "decodeFile K (fileAt gs (ckPath K)) = Inr m" "\<forall>x. mayFind gs (ckPath K) x \<longrightarrow> decodeFile K x = Inr m"
  shows "foundBy K (c, gs, v) = {map_of m}"
  using found_now [OF assms(1)] assms(2) by (auto simp: foundBy_def)

text \<open>Initialisation caches what the file holds, and leaves nothing else to be found.\<close>

lemma initializeState_wp:
  assumes K: "properConfig K" and g: "storeGood K s"
  shows "wp (initializeState K)
    (\<lambda>m t. storeGood K t \<and> foundBy K t \<subseteq> foundBy K s \<and> map_of m \<in> foundBy K s \<and> properState K m \<and> fst t = Some m)
    (\<lambda>_ t. storeGood K t \<and> foundBy K t \<subseteq> foundBy K s) s"
proof -
  obtain c fs w where s: "s = (c, fs, w)" by (cases s) auto
  show ?thesis
  proof (cases c)
    case (Some m)
    then show ?thesis
      using g found_now [of K fs m] parsed_proper [OF K, of "fileAt fs (ckPath K)" m] by (simp add: s initializeState_def wp_simps storeGood_def)
  next
    case None
    have ok: "fsOk fs" using g by (simp add: s storeGood_def)
    let ?s = "(None, fs, w)"
    let ?fail = "\<lambda>t. storeGood K t \<and> foundBy K t \<subseteq> foundBy K ?s"
    have same: "?fail (None, h, v)" if "samePath (ckPath K) fs h" for h v
      using that ok by (simp add: samePath_def storeGood_def foundBy_def)
    have written: "wp (writeState K m)
        (\<lambda>_ t. storeGood K (Some m, t) \<and> foundBy K (Some m, t) \<subseteq> foundBy K ?s) (\<lambda>_ t. ?fail (None, t)) (h, v)"
      if m: "decodeFile K (fileAt fs (ckPath K)) = Inr m" and h: "samePath (ckPath K) fs h" for m h v
    proof -
      have eq: "mayFind h (ckPath K) = mayFind fs (ckPath K)" "fsOk h" using h ok by (simp_all add: samePath_def)
      have here: "foundBy K (None, h, w) = foundBy K ?s" by (simp add: foundBy_def eq)
      have now: "map_of m \<in> foundBy K ?s" using found_now [OF m] by simp
      show ?thesis
        by (rule wp_mono [OF writeState_wp [OF K parsed_proper [OF K m] eq(2)]])
          (use now foundBy_subset [of _ K h m _ None _ None w] foundBy_only [of K _ m] here in
            \<open>auto simp: storeGood_def split: prod.splits\<close>)
    qed
    have remove: "wp (removeCheckpointTempFiles (ckPath K)) (\<lambda>_. samePath (ckPath K) fs) (\<lambda>_. samePath (ckPath K) fs) h"
      if "samePath (ckPath K) fs h" for h
      by (rule wpI) (use stepsInD [OF pathKept_remove] that in \<open>auto simp: pathKept_def intro: samePath_trans\<close>)
    have steps: "wp (removeCheckpointTempFiles (ckPath K))
        (\<lambda>_ t. wp (writeState K m)
           (\<lambda>_ t. storeGood K (Some m, t) \<and> foundBy K (Some m, t) \<subseteq> foundBy K ?s \<and> map_of m \<in> foundBy K ?s \<and> properState K m)
           (\<lambda>_ t. ?fail (None, t)) (t, v))
        (\<lambda>_ t. ?fail (None, t, v)) h"
      if "onlyClock fs h" and m: "decodeFile K (fileAt fs (ckPath K)) = Inr m" for h m v
    proof (rule wp_mono [OF remove [OF onlyClock_same(1) [OF that(1)]]])
      fix h' assume h': "samePath (ckPath K) fs h'"
      show "wp (writeState K m)
           (\<lambda>_ t. storeGood K (Some m, t) \<and> foundBy K (Some m, t) \<subseteq> foundBy K ?s \<and> map_of m \<in> foundBy K ?s \<and> properState K m)
           (\<lambda>_ t. ?fail (None, t)) (h', v)"
        by (rule wp_mono [OF written [OF m h']]) (use found_now [OF m] parsed_proper [OF K m] in auto)
    qed (rule same)
    have "wp (readState K)
        (\<lambda>m h. wp (removeCheckpointTempFiles (ckPath K))
        (\<lambda>_ t. wp (writeState K m)
           (\<lambda>_ t. storeGood K (Some m, t) \<and> foundBy K (Some m, t) \<subseteq> foundBy K ?s \<and> map_of m \<in> foundBy K ?s \<and> properState K m)
           (\<lambda>_ t. ?fail (None, t)) (t, w))
        (\<lambda>_ t. ?fail (None, t, w)) h) (\<lambda>_ h. ?fail (None, h, w)) fs"
      by (rule wp_mono [OF readState_wp [where fs = fs]]) (blast intro: steps, rule same, erule onlyClock_same)
    then show ?thesis
      unfolding s None initializeState_def by (simp add: wp_simps wp_onFiles setCached_def)
  qed
qed

lemma set_update: "set (AList.update a n m) \<subseteq> insert (a, n) (set m)"
  by (induction m) auto

lemma properState_update:
  "properState K m \<Longrightarrow> ckGetAddress K a = Inr a \<Longrightarrow> 0 \<le> n \<Longrightarrow> properState K (AList.update a n m)"
  using set_update [of a n m] by (fastforce simp: properState_def distinct_update)

lemma saveCheckpointFile_wp:
  fixes K :: "'w checkpoint_env" and s :: "'w cstore"
  assumes K: "properConfig K" and g: "storeGood K s" and a: "ckGetAddress K consumer = Inr a"
  shows "wp (saveCheckpointFile K consumer n)
    (\<lambda>_ t. storeGood K t \<and> (\<exists>m \<in> foundBy K s. movedTo a n m (m(a \<mapsto> n)) \<and> foundBy K t = {m(a \<mapsto> n)}))
    (\<lambda>_ t. storeGood K t \<and> (\<forall>m' \<in> foundBy K t. m' \<in> foundBy K s \<or> (\<exists>m \<in> foundBy K s. movedTo a n m m'))) s"
proof -
  have aa: "ckGetAddress K a = Inr a" using K a by (auto simp: properConfig_def)
  show ?thesis
  proof (cases "0 \<le> n")
    case n: True
    have step: "wp (andThen (tryCatch (onWorld (writeState K (AList.update a n m)))
         (\<lambda>e. andThen (setCached None) (\<lambda>_. throw e))) (\<lambda>_. setCached (Some (AList.update a n m))))
      (\<lambda>_ t. storeGood K t \<and> (\<exists>m \<in> foundBy K s. movedTo a n m (m(a \<mapsto> n)) \<and> foundBy K t = {m(a \<mapsto> n)}))
      (\<lambda>_ t. storeGood K t \<and> (\<forall>m' \<in> foundBy K t. m' \<in> foundBy K s \<or> (\<exists>m \<in> foundBy K s. movedTo a n m m')))
      (c, fs, w)"
      if m: "map_of m \<in> foundBy K s" "properState K m" and t: "storeGood K (c, fs, w)" "foundBy K (c, fs, w) \<subseteq> foundBy K s"
        and c: "case map_of m a of None \<Rightarrow> True | Some c \<Rightarrow> c \<le> n" for m c fs w
    proof -
      let ?m = "AList.update a n m"
      have of: "map_of ?m = (map_of m)(a \<mapsto> n)" by (rule update_conv')
      have mv: "movedTo a n (map_of m) ((map_of m)(a \<mapsto> n))" using c by (simp add: movedTo_def split: option.splits)
      have ok: "fsOk fs" using t(1) by (simp add: storeGood_def)
      show ?thesis
        unfolding wp_andThen [where m = "tryCatch m h" for m h] wp_tryCatch wp_onWorld
      proof (rule wp_mono [OF writeState_wp [OF K properState_update [OF m(2) aa n] ok]])
        fix u :: unit and t' :: "'w files" assume w: "case t' of (gs, _) \<Rightarrow> fsOk gs \<and> decodeFile K (fileAt gs (ckPath K)) = Inr ?m \<and>
          (\<forall>x. mayFind gs (ckPath K) x \<longrightarrow> decodeFile K x = Inr ?m)"
        obtain gs v where t': "t' = (gs, v)" by (cases t')
        have "foundBy K (Some ?m, gs, v) = {(map_of m)(a \<mapsto> n)}" 
          using foundBy_only [of K gs ?m] w by (simp add: t' of)
        moreover have "storeGood K (Some ?m, gs, v)" using w by (simp add: t' storeGood_def)
        ultimately show "wp (setCached (Some ?m))
          (\<lambda>_ t. storeGood K t \<and> (\<exists>m \<in> foundBy K s. movedTo a n m (m(a \<mapsto> n)) \<and> foundBy K t = {m(a \<mapsto> n)}))
          (\<lambda>_ t. storeGood K t \<and> (\<forall>m' \<in> foundBy K t. m' \<in> foundBy K s \<or> (\<exists>m \<in> foundBy K s. movedTo a n m m'))) (c, t')"
          using m(1) mv by (auto simp: setCached_def wp_simps t')
      next
        fix e and t' :: "'w files" assume w: "case t' of (gs, _) \<Rightarrow> fsOk gs \<and>
          (\<forall>x. mayFind gs (ckPath K) x \<longrightarrow> mayFind fs (ckPath K) x \<or> decodeFile K x = Inr ?m)"
        obtain gs v where t': "t' = (gs, v)" by (cases t')
        have "m' \<in> foundBy K s \<or> m' = (map_of m)(a \<mapsto> n)" if "m' \<in> foundBy K (None, gs, v)" for m'
          using foundBy_subset [of gs K fs ?m m' None v c] that w t(2) by (auto simp: t' of)
        then show "wp (andThen (setCached None) (\<lambda>_. throw e))
          (\<lambda>x. wp (setCached (Some ?m))
            (\<lambda>_ t. storeGood K t \<and> (\<exists>m \<in> foundBy K s. movedTo a n m (m(a \<mapsto> n)) \<and> foundBy K t = {m(a \<mapsto> n)}))
            (\<lambda>_ t. storeGood K t \<and> (\<forall>m' \<in> foundBy K t. m' \<in> foundBy K s \<or> (\<exists>m \<in> foundBy K s. movedTo a n m m'))))
          (\<lambda>_ t. storeGood K t \<and> (\<forall>m' \<in> foundBy K t. m' \<in> foundBy K s \<or> (\<exists>m \<in> foundBy K s. movedTo a n m m'))) (c, t')"
          using w mv m(1) by (auto simp: setCached_def wp_simps t' storeGood_def)
      qed
    qed
    let ?Q = "\<lambda>_ t. storeGood K t \<and> (\<exists>m \<in> foundBy K s. movedTo a n m (m(a \<mapsto> n)) \<and> foundBy K t = {m(a \<mapsto> n)})"
    let ?E = "\<lambda>_ t. storeGood K t \<and> (\<forall>m' \<in> foundBy K t. m' \<in> foundBy K s \<or> (\<exists>m \<in> foundBy K s. movedTo a n m m'))"
    have "wp (andThen (unlessThrow (case map_of m a of None \<Rightarrow> True | Some c \<Rightarrow> c \<le> n)
        (PlainError ''Checkpoint cannot move backwards.'')) (\<lambda>_.
        andThen (tryCatch (onWorld (writeState K (AList.update a n m)))
         (\<lambda>e. andThen (setCached None) (\<lambda>_. throw e))) (\<lambda>_. setCached (Some (AList.update a n m))))) ?Q ?E t"
      if t: "storeGood K t" "foundBy K t \<subseteq> foundBy K s" and m: "map_of m \<in> foundBy K s" "properState K m" for m t
    proof -
      obtain c fs w where e: "t = (c, fs, w)" by (cases t) auto
      show ?thesis
        unfolding wp_andThen [where m = "unlessThrow b e" for b e] wp_unlessThrow e
        using step [OF m t [unfolded e]] t by (auto simp: e)
    qed
    then have "wp (initializeState K) (\<lambda>m t. wp (andThen (unlessThrow (case map_of m a of None \<Rightarrow> True | Some c \<Rightarrow> c \<le> n)
        (PlainError ''Checkpoint cannot move backwards.'')) (\<lambda>_.
        andThen (tryCatch (onWorld (writeState K (AList.update a n m)))
         (\<lambda>e. andThen (setCached None) (\<lambda>_. throw e))) (\<lambda>_. setCached (Some (AList.update a n m))))) ?Q ?E t) ?E s"
      by (intro wp_mono [OF initializeState_wp [OF K g]]) auto
    moreover have "andThen (unlessThrow True e) f = f ()" "andThen (liftPure (Inr x)) h = h x"
      for e and f :: "unit \<Rightarrow> ('w cstore, unit) io" and x :: jstr and h :: "jstr \<Rightarrow> ('w cstore, unit) io"
      by (simp_all add: io_defs)
    ultimately show ?thesis
      using n a by (simp add: saveCheckpointFile_def Let_def wp_andThen [where m = "initializeState K"])
  next
    case False
    then show ?thesis using g by (simp add: saveCheckpointFile_def wp_simps)
  qed
qed

lemma loadCheckpoint_wp:
  assumes K: "properConfig K" and g: "storeGood K s" and a: "ckGetAddress K consumer = Inr a"
  shows "wp (loadCheckpoint K consumer)
    (\<lambda>x t. storeGood K t \<and> foundBy K t \<subseteq> foundBy K s \<and> (\<exists>m \<in> foundBy K s. x = m a))
    (\<lambda>_ t. storeGood K t \<and> foundBy K t \<subseteq> foundBy K s) s"
  unfolding loadCheckpoint_def
  by (simp add: wp_simps a) (rule wp_mono [OF initializeState_wp [OF K g]]; auto)

end
