(* ===== verification/BeaconProofs.thy ===== *)
theory BeaconProofs
  imports Beacons DaemonProofs ManagerProofs
begin

text \<open>
  What importing a round may do: whatever its services do, in any graded relation, the import does no
  more than one submission. And what the identities of the work and the witness of a signature say.
\<close>

subsection \<open>The steps of an import\<close>

text \<open>Every service does nothing that counts, but a submission may do \<open>p\<close> and \<open>n\<close>.\<close>

definition importSteps :: "(nat \<Rightarrow> nat \<Rightarrow> 's \<Rightarrow> 's \<Rightarrow> bool) \<Rightarrow> nat \<Rightarrow> nat \<Rightarrow> ('s, 'p) import_env \<Rightarrow> bool" where
  "importSteps R p n E =
     (stepsIn (R 0 0) (dcChainId (imClient E)) \<and> (\<forall>a. stepsIn (R 0 0) (dcGetCode (imClient E) a)) \<and>
      (\<forall>a f xs b. stepsIn (R 0 0) (dcRead (imClient E) a f xs b)) \<and>
      (\<forall>a c. stepsIn (R 0 0) (imSimulate E a c)) \<and> (\<forall>h t. stepsIn (R 0 0) (imWaitReceipt E h t)) \<and>
      (\<forall>u. stepsIn (R 0 0) (htFetch (imHttp E) u)) \<and> (\<forall>t. stepsIn (R 0 0) (htTimer (imHttp E) t)) \<and>
      (\<forall>u w resp v reads m. htFetch (imHttp E) u w = (Inr resp, v) \<longrightarrow> httpReads resp = Some reads \<longrightarrow>
         m \<in> set reads \<longrightarrow> stepsIn (R 0 0) m) \<and>
      stepsIn (R 0 0) (imNow E) \<and> (\<forall>t. stepsIn (R 0 0) (imDelay E t)) \<and>
      (\<forall>x. stepsIn (R 0 0) (bsFindRetained (imSubmitter E) x)) \<and> (\<forall>x. stepsIn (R p n) (bsSubmit (imSubmitter E) x)) \<and>
      (\<forall>g x. imOnProgress E = Some g \<longrightarrow> stepsIn (R 0 0) (g x)))"

context graded_steps
begin

lemma in_run: "stepsIn (R 0 0) m \<Longrightarrow> (\<And>r. stepsIn (R p n) (k r)) \<Longrightarrow> stepsIn (R p n) (\<lambda>w. case m w of (r, v) \<Rightarrow> k r v)"
  using quiet_then by (fastforce simp: stepsIn_def split: prod.splits)

lemma in_run_last: "stepsIn (R p n) m \<Longrightarrow> (\<And>r. stepsIn (R 0 0) (k r)) \<Longrightarrow> stepsIn (R p n) (\<lambda>w. case m w of (r, v) \<Rightarrow> k r v)"
  using then_quiet by (fastforce simp: stepsIn_def split: prod.splits)

lemma in_result: "stepsIn (R p n) (\<lambda>v. (r, v))"
  by (simp add: stepsIn_def any_none)

lemma in_sum: "(\<And>e. stepsIn (R p n) (f e)) \<Longrightarrow> (\<And>x. stepsIn (R p n) (g x)) \<Longrightarrow>
    stepsIn (R p n) (case r of Inl e \<Rightarrow> f e | Inr x \<Rightarrow> g x)"
  by (cases r) simp_all

lemma in_sum_at: "(\<And>e. stepsIn (R p n) (f e)) \<Longrightarrow> (\<And>x. stepsIn (R p n) (g x)) \<Longrightarrow>
    stepsIn (R p n) (\<lambda>v. case r of Inl e \<Rightarrow> f e v | Inr x \<Rightarrow> g x v)"
  by (cases r) simp_all

lemma in_if_at: "stepsIn (R p n) f \<Longrightarrow> stepsIn (R p n) g \<Longrightarrow> stepsIn (R p n) (\<lambda>v. if b then f v else g v)"
  by (cases b) simp_all

lemma in_abort: "stepsIn (R p n) (abortCheck a)"
  by (simp add: stepsIn_def abortCheck_def any_none)

lemma in_anyAbort: "stepsIn (R p n) (anyAbort a e)"
  by (simp add: stepsIn_def anyAbort_def any_none split: if_splits)

lemma in_observe: "(\<And>g. f = Some g \<Longrightarrow> stepsIn (R 0 0) (g x)) \<Longrightarrow> stepsIn (R 0 0) (observe f x)"
  by (cases f) (auto simp: observe_def intro!: in_ret in_catch)

lemma in_abortFirst: "stepsIn (R 0 0) c \<Longrightarrow> stepsIn (R p n) m \<Longrightarrow> stepsIn (R p n) (abortFirst c m)"
  unfolding abortFirst_def by (intro in_catch in_seq in_throw)

lemmas import_rules = in_ret in_throw in_lift in_unless in_get in_abort in_anyAbort in_if in_option in_pair
  in_seq in_observe in_abortFirst in_result in_sum

lemma importSteps_parts:
  assumes "importSteps R p n E"
  shows "stepsIn (R 0 0) (dcChainId (imClient E))" "stepsIn (R 0 0) (dcGetCode (imClient E) a)"
    "stepsIn (R 0 0) (dcRead (imClient E) a f xs b)" "stepsIn (R 0 0) (imSimulate E a c)"
    "stepsIn (R 0 0) (imWaitReceipt E h t)" "stepsIn (R 0 0) (htFetch (imHttp E) a)"
    "stepsIn (R 0 0) (htTimer (imHttp E) t)" "stepsIn (R 0 0) (imNow E)" "stepsIn (R 0 0) (imDelay E t)"
    "stepsIn (R 0 0) (bsFindRetained (imSubmitter E) a)" "stepsIn (R p n) (bsSubmit (imSubmitter E) req)"
    "imOnProgress E = Some g \<Longrightarrow> stepsIn (R 0 0) (g x)"
    "htFetch (imHttp E) a w = (Inr resp, v) \<Longrightarrow> httpReads resp = Some reads \<Longrightarrow> m \<in> set reads \<Longrightarrow> stepsIn (R 0 0) m"
  using assms by (simp_all add: importSteps_def) blast+

lemma in_seq_from:
  assumes "stepsIn (R 0 0) m" and "\<And>s x t. m s = (Inr x, t) \<Longrightarrow> stepsIn (R p n) (f x)"
  shows "stepsIn (R p n) (andThen m f)"
proof (rule stepsInI)
  fix s r u assume run: "andThen m f s = (r, u)"
  show "R p n s u"
  proof (cases "fst (m s)")
    case (Inl e)
    then have "m s = (Inl e, u)" using run by (cases "m s") (simp add: andThen_def)
    from stepsInD [OF assms(1) this] show ?thesis by (rule weaken) simp_all
  next
    case (Inr x)
    then obtain t where t: "m s = (Inr x, t)" by (cases "m s") simp
    then have "f x t = (r, u)" using run by (simp add: andThen_def)
    with quiet_then [OF stepsInD [OF assms(1) t]] stepsInD [OF assms(2) [OF t]] show ?thesis by blast
  qed
qed

lemma in_verify:
  assumes "importSteps R p n E"
  shows "stepsIn (R 0 0) (verifyRegistryDeployment T (imClient E) d)"
proof -
  have "stepsIn (R 0 0) (readText (dcRead (imClient E)) a f)" for a f
    unfolding readText_def by (rule in_seq [OF importSteps_parts(3) [OF assms]]) (auto split: jsval.split intro: in_ret in_throw)
  then show ?thesis
    unfolding verifyRegistryDeployment_def by (intro import_rules importSteps_parts [OF assms])
qed

lemma in_fetch:
  assumes E: "importSteps R p n E"
  shows "stepsIn (R 0 0) (fetchBeacon (imHttp E) a t es r)"
proof -
  have chunks: "stepsIn (R 0 0) (readChunks c reads buf)"
    if "stepsIn (R 0 0) c" "\<And>m. m \<in> set reads \<Longrightarrow> stepsIn (R 0 0) m" for c reads buf
    using that(2)
  proof (induction reads arbitrary: buf)
    case (Cons m reads)
    then show ?case unfolding readChunks.simps by (intro import_rules that(1)) simp_all
  qed (simp add: in_seq that(1) in_ret)
  have response: "stepsIn (R 0 0) (readBeaconResponse N c resp)"
    if c: "stepsIn (R 0 0) c" and m: "\<And>reads m. httpReads resp = Some reads \<Longrightarrow> m \<in> set reads \<Longrightarrow> stepsIn (R 0 0) m" for N c resp
  proof (cases "httpReads resp")
    case None
    then show ?thesis by (simp add: readBeaconResponse_def in_seq c in_throw)
  next
    case (Some reads)
    have "stepsIn (R 0 0) (case decodeUtf8 bytes of
               None \<Rightarrow> throw (TypeError ''The encoded data was not valid for encoding utf-8'')
             | Some text \<Rightarrow>
                 (case parseJson N text of
                    None \<Rightarrow> throw (PlainError ''SyntaxError'')
                  | Some v \<Rightarrow> ret v))" for bytes :: "8 word list"
      by (auto split: option.split intro: in_throw in_ret)
    then have "stepsIn (R 0 0) (andThen c (\<lambda>_. andThen (readChunks c reads []) (\<lambda>bytes.
             case decodeUtf8 bytes of
               None \<Rightarrow> throw (TypeError ''The encoded data was not valid for encoding utf-8'')
             | Some text \<Rightarrow>
                 (case parseJson N text of
                    None \<Rightarrow> throw (PlainError ''SyntaxError'')
                  | Some v \<Rightarrow> ret v))))"
      by (intro in_seq c chunks) (rule m [OF Some])
    then show ?thesis by (simp add: readBeaconResponse_def Some in_abortFirst c)
  qed
  have endpoint: "stepsIn (R 0 0) (fetchBeaconFromEndpoint (imHttp E) a t e r)" for e
    unfolding fetchBeaconFromEndpoint_def Let_def
    by (intro in_seq_from [OF importSteps_parts(6) [OF E]] import_rules importSteps_parts(7) [OF E] response)
      (rule importSteps_parts(13) [OF E])
  have "stepsIn (R 0 0) (fetchFrom (imHttp E) a t r es errors)" for errors
  proof (induction es arbitrary: errors)
    case (Cons e es)
    have "stepsIn (R 0 0) (\<lambda>v. case x of Inr b \<Rightarrow> (Inr b, v)
        | Inl y \<Rightarrow> andThen (abortCheck a) (\<lambda>_. fetchFrom (imHttp E) a t r es (errors @ [y])) v)"
      for x :: "exn + QuicknetBeacon"
      by (cases x) (auto intro: in_result in_seq in_abort Cons.IH)
    then show ?case
      unfolding fetchFrom.simps by (intro in_run [OF endpoint])
  qed (simp add: in_throw)
  then show ?thesis unfolding fetchBeacon_def by (intro import_rules)
qed

lemma in_progress: "importSteps R p n E \<Longrightarrow> stepsIn (R 0 0) (progress E r ph)"
  unfolding progress_def by (rule in_observe) (rule importSteps_parts(12))

lemma in_waiting:
  assumes E: "importSteps R p n E"
  shows "stepsIn (R 0 0) (waitForQuicknetRound E r)" and "stepsIn (R 0 0) (fetchQuicknetBeaconWithRetry E r k d)"
proof -
  have sleep: "stepsIn (R 0 0) (sleepFor E ms)" for ms
    unfolding sleepFor_def by (intro import_rules importSteps_parts [OF E])
  show "stepsIn (R 0 0) (waitForQuicknetRound E r)"
    unfolding waitForQuicknetRound_def by (intro import_rules sleep importSteps_parts(8) [OF E])
  have once: "stepsIn (R 0 0) (fetchAttempt E r)"
    unfolding fetchAttempt_def by (intro import_rules in_fetch [OF E])
  have "stepsIn (R 0 0) (fetchAttempts E r d k)" for k
  proof (induction k)
    case (Suc k)
    have "stepsIn (R 0 0) (\<lambda>v. case x of Inr b \<Rightarrow> (Inr b, v)
        | Inl e \<Rightarrow> andThen (abortCheck (imAborted E)) (\<lambda>_.
            if k = 0 then throw (CausedError ''Failed to fetch Quicknet round'' e)
            else andThen (sleepFor E d) (\<lambda>_. fetchAttempts E r d k)) v)" for x :: "exn + QuicknetBeacon"
    proof (cases x)
      case (Inl e)
      have "stepsIn (R 0 0) (andThen (abortCheck (imAborted E)) (\<lambda>_.
            if k = 0 then throw (CausedError ''Failed to fetch Quicknet round'' e)
            else andThen (sleepFor E d) (\<lambda>_. fetchAttempts E r d k)))"
        by (intro import_rules sleep Suc.IH)
      then show ?thesis using Inl by simp
    qed (simp add: in_result)
    then show ?case unfolding fetchAttempts.simps by (intro in_seq in_abort in_run [OF once])
  qed (simp add: in_throw)
  then show "stepsIn (R 0 0) (fetchQuicknetBeaconWithRetry E r k d)"
    unfolding fetchQuicknetBeaconWithRetry_def by (intro import_rules)
qed

lemma in_simulation:
  assumes E: "importSteps R p n E"
  shows "stepsIn (R 0 0) (simulateBeaconSubmission E r sg)"
proof -
  have c: "stepsIn (R 0 0) (simulateCompressed E r sg x)" for x
    unfolding simulateCompressed_def by (intro import_rules importSteps_parts [OF E])
  have "stepsIn (R 0 0) (\<lambda>v. case x of Inr s \<Rightarrow> (Inr (s, WitnessSubmission), v)
      | Inl e \<Rightarrow> if witnessRejected (imDeployment E) e then simulateCompressed E r sg WitnessRejected v else (Inl e, v))" for x
    by (cases x) (auto intro: in_result in_if_at c)
  then show ?thesis
    unfolding simulateBeaconSubmission_def by (cases "createSignatureWitness (imCurve E) (JString sg)")
      (auto intro: c in_run importSteps_parts [OF E])
qed

lemma in_awaiting:
  assumes E: "importSteps R p n E"
  shows "stepsIn (R 0 0) (awaitBroadcast E r t sim details b)"
proof -
  have stored: "stepsIn (R 0 0) (readStoredBeacon E r block k)" for block k
  proof (induction k)
    case (Suc k)
    have "stepsIn (R 0 0) (\<lambda>v. case x of Inr y \<Rightarrow> (Inr y, v)
        | Inl e \<Rightarrow> if k = 0 then (Inl e, v) else andThen (imDelay E 500) (\<lambda>_. readStoredBeacon E r block k) v)"
      for x :: "exn + jsval"
      by (cases x) (auto intro: in_result in_if_at in_seq importSteps_parts [OF E] Suc.IH)
    then show ?case
      unfolding readStoredBeacon.simps registryGetBeacon_def by (intro in_run importSteps_parts(3) [OF E])
  qed (simp add: in_throw)
  have after: "stepsIn (R 0 0) (afterReceipt E r sim details rc)" for rc
    unfolding afterReceipt_def by (intro import_rules stored in_progress [OF E])
  have "stepsIn (R 0 0) (\<lambda>v. case x of
        Inl e \<Rightarrow> if e = ReceiptTimeoutError then (Inr y, v) else (Inl e, v)
      | Inr receipt \<Rightarrow> afterReceipt E r sim details receipt v)" for x y
    by (cases x) (auto intro: in_result in_if_at after)
  then have "stepsIn (R 0 0) (\<lambda>w. case imWaitReceipt E h t w of (x, v) \<Rightarrow> (case x of
        Inl e \<Rightarrow> if e = ReceiptTimeoutError then (Inr y, v) else (Inl e, v)
      | Inr receipt \<Rightarrow> afterReceipt E r sim details receipt v))" for h y
    by (intro in_run importSteps_parts(5) [OF E])
  then show ?thesis
    unfolding awaitBroadcast_def Let_def by (intro in_if in_ret in_seq in_progress [OF E])
qed

theorem import_steps:
  assumes E: "importSteps R p n E"
  shows "stepsIn (R p n) (importRound E r)"
proof -
  have opts: "stepsIn (R 0 0) (checkRoundOptions E' r)" for E' :: "('s, 'b) import_env"
    unfolding checkRoundOptions_def by (intro import_rules)
  have reg: "stepsIn (R 0 0) (checkRegistry E' r)" if "importSteps R p n E'" for E' :: "('s, 'b) import_env"
    unfolding checkRegistry_def registryIsStored_def registryGetBeacon_def
    by (intro import_rules in_progress [OF that] in_verify [OF that] importSteps_parts [OF that])
  have sub: "stepsIn (R p n) (submitRound E' r t b)" if "importSteps R p n E'" for E' :: "('s, 'b) import_env" and t b
  proof -
    have k: "stepsIn (R p n) (andThen (bsSubmit (imSubmitter E') req) (\<lambda>submitted.
       case submitted of
         RetainedWork wid aid \<Rightarrow> ret (ImportRetained r aid wid)
       | DeferredWork reason _ \<Rightarrow> ret (ImportUnavailable r reason)
       | SubmissionFailed e _ \<Rightarrow> throw (TransactionSubmissionError e)
       | SubmittedWork b \<Rightarrow> awaitBroadcast E' r t sim details b))" for req sim details
      by (rule in_seq_first [OF importSteps_parts(11) [OF that]])
        (auto split: SubmitTransactionWorkResult.split intro: in_ret in_throw in_awaiting [OF that])
    show ?thesis
      unfolding submitRound_def
      by (intro in_seq [OF in_simulation [OF that]] in_seq in_abort in_unless in_progress [OF that] in_pair k)
  qed
  have one: "stepsIn (R p n) (importQuicknetRound E' r (Some b))" if "importSteps R p n E'" for E' :: "('s, 'b) import_env" and b
    unfolding importQuicknetRound_def option.case
    by (intro in_seq opts reg that in_option in_ret sub)
  have again: "importSteps R p n (E\<lparr>imReceiptTimeout := t, imFetchTimeout := f\<rparr>)" for t f
    using E by (simp add: importSteps_def)
  have "stepsIn (R p n) (importQuicknetRoundWhenAvailable E r)"
    unfolding importQuicknetRoundWhenAvailable_def
    by (intro in_seq opts reg E in_option in_ret in_abort in_progress [OF E] in_waiting [OF E] one again)
  then show ?thesis
    unfolding importRound_def
    by (intro import_rules importSteps_parts [OF E]) (simp add: in_ret)
qed

end

subsection \<open>What a completed import says\<close>

text \<open>The evidence: the reads of the client from which the result was made.\<close>

definition storedEvidence :: "('w, 'p) import_env \<Rightarrow> int \<Rightarrow> int option \<Rightarrow> jstr \<Rightarrow> bool" where
  "storedEvidence E r block x =
     (\<exists>w v. registryGetBeacon (dcRead (imClient E)) (imDeployment E) r block w = (Inr (JString x), v))"

definition importEvidence :: "('w, 'p) import_env \<Rightarrow> int \<Rightarrow> ImportQuicknetRoundResult \<Rightarrow> bool" where
  "importEvidence E r res =
     (case res of
        AlreadyStored q x \<Rightarrow>
          q = r \<and> storedEvidence E r None x \<and>
          (\<exists>w v. registryIsStored (dcRead (imClient E)) (imDeployment E) r None w = (Inr (JBool True), v))
      | Imported q x h d \<Rightarrow>
          q = r \<and>
          (\<exists>hash t w v receipt. imWaitReceipt E hash t w = (Inr receipt, v) \<and> mrStatus receipt = ReceiptSuccess \<and>
             mrTransactionHash receipt = h \<and> storedEvidence E r (Some (mrBlockNumber receipt)) x) \<and>
          (\<exists>call w v sim. imSimulate E (depAddress (imDeployment E)) call w = (Inr sim, v) \<and> submittedRound call = r \<and>
             (d = WitnessSubmission \<longleftrightarrow> (\<exists>sg hi lo. call = SubmitBeaconWithWitness r sg hi lo)) \<and>
             toLowerCase x = toLowerCase (simResult sim))
      | ImportPending q _ _ _ \<Rightarrow> q = r | ImportUnavailable q _ \<Rightarrow> q = r | ImportRetained q _ _ \<Rightarrow> q = r)"

definition simulated :: "('w, 'p) import_env \<Rightarrow> int \<Rightarrow> simulation \<Rightarrow> submission_details \<Rightarrow> bool" where
  "simulated E r sim d =
     (\<exists>call w v. imSimulate E (depAddress (imDeployment E)) call w = (Inr sim, v) \<and> submittedRound call = r \<and>
        (d = WitnessSubmission \<longleftrightarrow> (\<exists>sg hi lo. call = SubmitBeaconWithWitness r sg hi lo)))"

lemma simulation_Inr:
  assumes "simulateBeaconSubmission E r sg w = (Inr (sim, d), v)"
  shows "simulated E r sim d"
proof -
  have c: "simulated E r sim d" if "simulateCompressed E r sg x w = (Inr (sim, d), v)" for x w v
    using that unfolding simulateCompressed_def andThen_Inr simulated_def
    by (auto intro!: exI [of _ "SubmitBeacon r sg"])
  show ?thesis
  proof (cases "createSignatureWitness (imCurve E) (JString sg)")
    case (Inl e)
    then show ?thesis using assms c by (simp add: simulateBeaconSubmission_def)
  next
    case (Inr wit)
    let ?call = "SubmitBeaconWithWitness r sg (yHi wit) (yLo wit)"
    obtain q u where q: "imSimulate E (depAddress (imDeployment E)) ?call w = (q, u)"
      by (cases "imSimulate E (depAddress (imDeployment E)) ?call w")
    show ?thesis
    proof (cases q)
      case (Inl e)
      then show ?thesis using assms c q Inr by (auto simp: simulateBeaconSubmission_def split: if_splits)
    next
      case r: (Inr s)
      then show ?thesis using assms q Inr
        by (auto simp: simulateBeaconSubmission_def simulated_def intro!: exI [of _ ?call])
    qed
  qed
qed

lemma readStored_Inr:
  "readStoredBeacon E r block k w = (Inr x, v) \<Longrightarrow>
    \<exists>w v. registryGetBeacon (dcRead (imClient E)) (imDeployment E) r (Some block) w = (Inr x, v)"
proof (induction k arbitrary: w)
  case (Suc k)
  obtain q u where q: "registryGetBeacon (dcRead (imClient E)) (imDeployment E) r (Some block) w = (q, u)"
    by (cases "registryGetBeacon (dcRead (imClient E)) (imDeployment E) r (Some block) w")
  show ?case
  proof (cases q)
    case (Inl e)
    then obtain w' where "readStoredBeacon E r block k w' = (Inr x, v)"
      using Suc.prems q by (auto simp: andThen_Inr split: if_splits)
    then show ?thesis by (rule Suc.IH)
  next
    case (Inr y)
    then show ?thesis using Suc.prems q by auto
  qed
qed simp

lemma randomness_Inr: "randomnessText v = Inr x \<longleftrightarrow> v = JString x"
  by (cases v) (auto simp: randomnessText_def)

lemma awaited_evidence:
  assumes s: "simulated E r sim d" and run: "awaitBroadcast E r t sim d b w = (Inr res, v)"
  shows "importEvidence E r res"
proof (cases "boAcknowledged b")
  case False
  then show ?thesis using run by (auto simp: awaitBroadcast_def importEvidence_def)
next
  case True
  then obtain w1 where w1: "(case imWaitReceipt E (outcomeHash b) t w1 of
          (Inl e, v) \<Rightarrow> if e = ReceiptTimeoutError then
             (Inr (ImportPending r (paAttemptId (boAttempt b)) (outcomeHash b) ReceiptTimeout), v) else (Inl e, v)
        | (Inr receipt, v) \<Rightarrow> afterReceipt E r sim d receipt v) = (Inr res, v)"
    using run by (auto simp: awaitBroadcast_def Let_def andThen_Inr simp del: outcomeHash.simps)
  obtain q u where q: "imWaitReceipt E (outcomeHash b) t w1 = (q, u)" by (cases "imWaitReceipt E (outcomeHash b) t w1")
  show ?thesis
  proof (cases q)
    case (Inl e)
    then show ?thesis using w1 q by (auto simp: importEvidence_def split: if_splits)
  next
    case (Inr receipt)
    then have "afterReceipt E r sim d receipt u = (Inr res, v)" using w1 q by simp
    then obtain y x w2 v2 where a: "mrStatus receipt = ReceiptSuccess" "readStoredBeacon E r (mrBlockNumber receipt) 5 w2 = (Inr y, v2)"
      "randomnessText y = Inr x" "toLowerCase x = toLowerCase (simResult sim)" "res = Imported r x (mrTransactionHash receipt) d"
      unfolding afterReceipt_def andThen_Inr by auto
    have "storedEvidence E r (Some (mrBlockNumber receipt)) x"
      using readStored_Inr [OF a(2)] a(3) by (simp add: storedEvidence_def randomness_Inr)
    moreover have "\<exists>hash t w v. imWaitReceipt E hash t w = (Inr receipt, v)" using q Inr by blast
    moreover obtain call w v where "imSimulate E (depAddress (imDeployment E)) call w = (Inr sim, v)" "submittedRound call = r"
      "d = WitnessSubmission \<longleftrightarrow> (\<exists>sg hi lo. call = SubmitBeaconWithWitness r sg hi lo)"
      using s unfolding simulated_def by blast
    ultimately show ?thesis using a(1,4) unfolding a(5) importEvidence_def by (simp, blast)
  qed
qed

lemma submitRound_evidence:
  assumes "submitRound E r t b w = (Inr res, v)"
  shows "importEvidence E r res"
proof -
  from assms obtain sim d w1 u sub w2 where s: "simulateBeaconSubmission E r (beaconSignature b) w1 = (Inr (sim, d), u)" and
    k: "(case sub of
       RetainedWork wid aid \<Rightarrow> ret (ImportRetained r aid wid)
     | DeferredWork reason _ \<Rightarrow> ret (ImportUnavailable r reason)
     | SubmissionFailed e _ \<Rightarrow> throw (TransactionSubmissionError e)
     | SubmittedWork b \<Rightarrow> awaitBroadcast E r t sim d b) w2 = (Inr res, v)"
    unfolding submitRound_def by (auto simp: andThen_Inr)
  show ?thesis
  proof (cases sub)
    case (SubmittedWork b)
    then show ?thesis using k awaited_evidence [OF simulation_Inr [OF s]] by simp
  qed (use k in \<open>auto simp: importEvidence_def\<close>)
qed

lemma registry_evidence:
  assumes "checkRegistry E r w = (Inr (Some x), v)"
  shows "importEvidence E r (AlreadyStored r x)"
proof -
  from assms obtain w1 w2 y u v' where
    "registryIsStored (dcRead (imClient E)) (imDeployment E) r None w1 = (Inr (JBool True), u)"
    "registryGetBeacon (dcRead (imClient E)) (imDeployment E) r None w2 = (Inr y, v')" "randomnessText y = Inr x"
    unfolding checkRegistry_def andThen_Inr by (auto split: if_splits simp: andThen_Inr)
  then show ?thesis unfolding importEvidence_def storedEvidence_def by (auto simp: randomness_Inr)
qed

lemma importQuicknet_evidence:
  assumes "importQuicknetRound E r (Some b) w = (Inr res, v)"
  shows "importEvidence E r res"
proof -
  from assms obtain t stored w1 w2 where s: "checkRegistry E r w1 = (Inr stored, w2)" and
    k: "(case stored of Some randomness \<Rightarrow> ret (AlreadyStored r randomness)
     | None \<Rightarrow> andThen (ret b) (\<lambda>beacon. submitRound E r t beacon)) w2 = (Inr res, v)"
    unfolding importQuicknetRound_def andThen_Inr option.case by blast
  show ?thesis
  proof (cases stored)
    case (Some x)
    then show ?thesis using k registry_evidence s by auto
  next
    case None
    then have "submitRound E r t b w2 = (Inr res, v)" using k by (simp add: andThen_def ret_def)
    then show ?thesis by (rule submitRound_evidence)
  qed
qed

theorem import_evidence:
  assumes "importRound E r w = (Inr res, v)"
  shows "importEvidence E r res"
proof -
  have same: "importEvidence (E\<lparr>imReceiptTimeout := t, imFetchTimeout := f\<rparr>) r x = importEvidence E r x" for t f x
    by (cases x) (simp_all add: importEvidence_def storedEvidence_def)
  have avail: "importEvidence E r res" if "importQuicknetRoundWhenAvailable E r w = (Inr res, v)" for w
  proof -
    from that obtain t stored w1 w2 where s: "checkRegistry E r w1 = (Inr stored, w2)" and
      k: "stored = None \<Longrightarrow> \<exists>b w3. importQuicknetRound (E\<lparr>imReceiptTimeout := Some t, imFetchTimeout := None\<rparr>) r (Some b) w3 = (Inr res, v)"
      and j: "\<And>x. stored = Some x \<Longrightarrow> res = AlreadyStored r x"
      unfolding importQuicknetRoundWhenAvailable_def by (auto simp: andThen_Inr split: option.splits) blast+
    show ?thesis
    proof (cases stored)
      case (Some x)
      then show ?thesis using j registry_evidence s by auto
    next
      case None
      obtain b w3 where "importQuicknetRound (E\<lparr>imReceiptTimeout := Some t, imFetchTimeout := None\<rparr>) r (Some b) w3 = (Inr res, v)"
        using k [OF None] by blast
      from importQuicknet_evidence [OF this] show ?thesis by (simp only: same)
    qed
  qed
  show ?thesis
    using assms avail unfolding importRound_def by (auto simp: andThen_Inr importEvidence_def split: option.splits)
qed

subsection \<open>Identities\<close>

text \<open>The identity of the work determines the chain, the registry and the round.\<close>

lemma split_colon:
  assumes "58 \<notin> set a" "58 \<notin> set b" "a @ 58 # s = b @ 58 # t"
  shows "a = b \<and> s = (t :: jstr)"
  using assms
proof (induction a arbitrary: b)
  case Nil
  then show ?case by (cases b) auto
next
  case (Cons u a)
  then show ?case by (cases b) auto
qed

lemma showBigint_no_colon: "0 \<le> n \<Longrightarrow> 58 \<notin> set (showBigint n)"
  using isDecimalInteger_showBigint [of n]
  by (auto simp: isDecimalInteger_def list_all_iff isDigitUnit_def word_le_nat_alt)

lemma lower_no_colon: "c \<noteq> 58 \<Longrightarrow> lowerUnit c \<noteq> 58"
proof
  assume c: "c \<noteq> 58" and l: "lowerUnit c = 58"
  then have "65 \<le> c \<and> c \<le> 90 \<and> c + 32 = 58" by (auto simp: lowerUnit_def split: if_splits)
  then have "c = 58 - 32" "65 \<le> c" by (auto simp: algebra_simps)
  then show False by simp
qed

lemma hex_no_colon: "fixedHex s k \<Longrightarrow> 58 \<notin> set (toLowerCase s)"
proof -
  assume f: "fixedHex s k"
  have "c \<noteq> 58" if "c \<in> set s" for c
  proof -
    have "c \<in> set (take 2 s) \<or> c \<in> set (drop 2 s)" using that by (metis UnE append_take_drop_id set_append)
    moreover have "58 \<notin> set (js ''0x'')" by (simp add: js_def)
    ultimately show ?thesis using f by (auto simp: fixedHex_def list_all_iff isHexUnit_def)
  qed
  then show ?thesis using lower_no_colon by (auto simp: toLowerCase_def)
qed

lemma workId_parts:
  assumes "createBeaconWorkId chain registry r = Inr w"
  shows "0 < chain" "fixedHex registry 20" "0 < r"
    "w = js ''quicknet-round:v1:'' @ showBigint chain @ 58 # toLowerCase registry @ 58 # showBigint r"
proof -
  have "js '':'' = [58]" by (simp add: js_def)
  then show "0 < chain" "fixedHex registry 20" "0 < r"
    "w = js ''quicknet-round:v1:'' @ showBigint chain @ 58 # toLowerCase registry @ 58 # showBigint r"
    using assms by (auto simp: createBeaconWorkId_def checkE_Inr Let_def)
qed

theorem workId_injective:
  assumes "createBeaconWorkId chain registry r = Inr w" and "createBeaconWorkId chain' registry' r' = Inr w"
  shows "chain = chain' \<and> toLowerCase registry = toLowerCase registry' \<and> r = r'"
proof -
  note a = workId_parts [OF assms(1)] and b = workId_parts [OF assms(2)]
  have "showBigint chain @ 58 # toLowerCase registry @ 58 # showBigint r =
      showBigint chain' @ 58 # toLowerCase registry' @ 58 # showBigint r'"
    using a(4) b(4) by simp
  from split_colon [OF _ _ this] have c: "showBigint chain = showBigint chain'"
    "toLowerCase registry @ 58 # showBigint r = toLowerCase registry' @ 58 # showBigint r'"
    using a(1) b(1) by (auto simp: showBigint_no_colon)
  from split_colon [OF hex_no_colon [OF a(2)] hex_no_colon [OF b(2)] c(2)] c(1) show ?thesis
    using a(1,3) b(1,3) by (simp add: showBigint_inj)
qed

text \<open>The limbs of a witness make up the ordinate, and fit their widths.\<close>

theorem witness_limbs:
  assumes "createSignatureWitness G v = Inr wit" and "\<And>bs p. g1FromBytes G bs = Inr p \<Longrightarrow> 0 \<le> g1AffineY G p \<and> g1AffineY G p < 2 ^ 381"
  shows "0 \<le> yHi wit \<and> yHi wit < 2 ^ 128 \<and> 0 \<le> yLo wit \<and> yLo wit < 2 ^ 256 \<and>
    (\<exists>bs p. g1FromBytes G bs = Inr p \<and> g1ToBytes G p = bs \<and> yHi wit * 2 ^ 256 + yLo wit = g1AffineY G p)"
proof -
  obtain bs p where p: "g1FromBytes G bs = Inr p" "g1ToBytes G p = bs"
    "wit = \<lparr>yHi = drop_bit LOW_LIMB_BITS (g1AffineY G p), yLo = and (g1AffineY G p) LOW_LIMB_MASK\<rparr>"
    using assms(1) by (auto simp: createSignatureWitness_def bindE_Inr checkE_Inr Let_def split: jsval.splits)
  let ?y = "g1AffineY G p"
  have y: "0 \<le> ?y" "?y < 2 ^ 381" using assms(2) [OF p(1)] by simp_all
  have hi: "yHi wit = ?y div 2 ^ 256" by (simp add: p(3) LOW_LIMB_BITS_def drop_bit_eq_div)
  have "LOW_LIMB_MASK = mask 256" by (simp add: LOW_LIMB_MASK_def LOW_LIMB_BITS_def mask_eq_exp_minus_1)
  then have "yLo wit = take_bit 256 ?y" by (simp only: p(3) take_bit_eq_mask SignatureWitness.simps)
  then have lo: "yLo wit = ?y mod 2 ^ 256" by (simp only: take_bit_eq_mod)
  have "?y div 2 ^ 256 < 2 ^ 128" using y(2) by (simp add: div_less_iff_less_mult)
  moreover have "?y div 2 ^ 256 * 2 ^ 256 + ?y mod 2 ^ 256 = ?y" by simp
  ultimately show ?thesis using p y(1) hi lo by (auto simp: pos_imp_zdiv_nonneg_iff)
qed

end
