(* ===== verification/DaemonSafety.thy ===== *)
theory DaemonSafety
  imports DaemonProofs
begin

text \<open>
  No request is passed over: the checkpoint of a consumer that the store holds, or that a restart of
  the program would find, stands for the storage of every round requested below it, through any
  iteration and any cycle over all consumers.
\<close>

subsection \<open>What a checkpoint stands for\<close>

text \<open>
  \<open>Q\<close> are the requests (round and block) on the chain and \<open>S\<close> the rounds whose storage is durable. The
  client's reads are complete when a successful read of the logs of a range returns every request
  of it, and sound when a registry read at an anchored block that says stored is right.
\<close>

definition completeReads :: "('r, 'w) istate iteration_env \<Rightarrow> (int \<times> int) set \<Rightarrow> int set \<Rightarrow> bool" where
  "completeReads I Q S =
     ((\<forall>n d m rs. requestsRead (durableEnv I n d) n m rs \<longrightarrow>
         (\<forall>(r, b) \<in> Q. n \<le> b \<and> b \<le> m \<longrightarrow> (\<exists>x \<in> set rs. reqRound x = r \<and> reqBlock x = b))) \<and>
      (\<forall>n d a r. readStored (durableEnv I n d) a r \<longrightarrow> r \<in> S))"

definition coveredBelow :: "(int \<times> int) set \<Rightarrow> int set \<Rightarrow> int \<Rightarrow> int option \<Rightarrow> bool" where
  "coveredBelow Q S start checkpoint =
     (case checkpoint of None \<Rightarrow> True | Some c \<Rightarrow> \<forall>(r, b) \<in> Q. start \<le> b \<and> b < c \<longrightarrow> r \<in> S)"

lemma verified_covers:
  assumes reads: "completeReads I Q S" and adv: "verifiedAdvance I from n"
    and old: "from = start \<or> coveredBelow Q S start (Some from)"
  shows "coveredBelow Q S start (Some n)"
proof -
  obtain durable d rs where p: "scannedPass (durableEnv I from durable) from durable (itMaxRange I) d rs"
    and k: "dsCheckpoint d = CheckpointVerified n"
    using adv by (auto simp: verifiedAdvance_def)
  have req: "requestsRead (durableEnv I from durable) from (dsTo d) rs" using p unfolding scannedPass_def by blast
  have "r \<in> S" if q: "(r, b) \<in> Q" "start \<le> b" "b < n" for r b
  proof (cases "b < from")
    case True
    then show ?thesis using old q by (auto simp: coveredBelow_def)
  next
    case False
    have "b \<le> dsTo d" using scanned_checkpoint(1) [OF p k] q by simp
    moreover have "\<forall>(r, b) \<in> Q. from \<le> b \<and> b \<le> dsTo d \<longrightarrow> (\<exists>x \<in> set rs. reqRound x = r \<and> reqBlock x = b)"
      using reads req unfolding completeReads_def by blast
    ultimately obtain x where x: "x \<in> set rs" "reqRound x = r" "reqBlock x = b"
      using False q(1) by auto
    then have "readStored (durableEnv I from durable) (dsAnchor d) r"
      using scanned_checkpoint(2) [OF p k x(1)] q by simp
    then show ?thesis using reads by (auto simp: completeReads_def)
  qed
  then show ?thesis by (auto simp: coveredBelow_def)
qed

context checkpointed_iteration
begin

lemma iteration_covers:
  assumes reads: "completeReads I Q S" and run: "runDaemonIteration I cursor s = (r, t)" and g: "good s"
    and s: "\<forall>m \<in> found s. coveredBelow Q S (itStartBlock I) (m (itConsumer I))"
  shows "good t" and "m' \<in> found t \<Longrightarrow> coveredBelow Q S (itStartBlock I) (m' (itConsumer I)) \<and>
    (\<exists>m \<in> found s. (\<forall>a. a \<noteq> itConsumer I \<longrightarrow> m' a = m a) \<and>
      (\<forall>k. m (itConsumer I) = Some k \<longrightarrow> (\<exists>d. m' (itConsumer I) = Some d \<and> k \<le> d)))"
proof -
  note adv = iteration_advances [OF run, unfolded advancedTo_def seen_def fst_conv snd_conv, THEN mp, OF g]
  show "good t" using adv by simp
  assume "m' \<in> found t"
  with adv consider "m' \<in> found s" |
    m m0 n where "m \<in> found s" "m0 \<in> found s" "verifiedAdvance I (startOf m0) n" "movedTo (itConsumer I) n m m'"
    by (auto simp: starts_def)
  then show "coveredBelow Q S (itStartBlock I) (m' (itConsumer I)) \<and>
    (\<exists>m \<in> found s. (\<forall>a. a \<noteq> itConsumer I \<longrightarrow> m' a = m a) \<and>
      (\<forall>k. m (itConsumer I) = Some k \<longrightarrow> (\<exists>d. m' (itConsumer I) = Some d \<and> k \<le> d)))"
  proof cases
    case 1
    then show ?thesis using s by force
  next
    case 2
    have "startOf m0 = itStartBlock I \<or> coveredBelow Q S (itStartBlock I) (Some (startOf m0))"
      using s 2(2) by (auto simp: startOf_def split: option.splits)
    from verified_covers [OF reads 2(3) this] show ?thesis
      using 2(1,4) by (auto simp: movedTo_def intro!: bexI [of _ m])
  qed
qed

end

subsection \<open>The steps of a cycle and of the daemon\<close>

text \<open>
  Steps that the cycle's locals make no part of. What an iteration for each consumer and the recovery
  keep to, the cycle keeps to, and then the daemon for as long as it runs.
\<close>

locale daemon_steps = graded_steps R for R :: "nat \<Rightarrow> nat \<Rightarrow> 'w dstate \<Rightarrow> 'w dstate \<Rightarrow> bool" +
  assumes still_locally: "still (locally f)"
begin

lemma consumer_steps:
  assumes "\<And>cursor. still (runDaemonIteration (consumerEnv I c) cursor)"
  shows "still (iterateConsumer I c)"
  unfolding iterateConsumer_def by (intro still_rules assms still_locally)

lemma cycle_steps:
  assumes cs: "\<And>c cursor. c \<in> set consumers \<Longrightarrow> still (runDaemonIteration (consumerEnv I c) cursor)"
    and r: "still recover1"
  shows "still (runDaemonCycle I recover1 consumers)"
proof -
  have "still (iterateConsumers I consumers acc)" for acc
    using cs
  proof (induction consumers arbitrary: acc)
    case (Cons c cs)
    then show ?case
      unfolding iterateConsumers.simps by (intro still_rules consumer_steps) auto
  qed (simp add: in_ret)
  then show ?thesis
    unfolding runDaemonCycle_def by (intro still_rules r)
qed

lemma loop_steps:
  assumes cs: "\<And>n c cursor. c \<in> set (dmConsumers D) \<Longrightarrow> still (runDaemonIteration (consumerEnv (dmServices D n) c) cursor)"
    and r: "\<And>n. still (dmRecover D n)" and sleep: "\<And>v. still (dmSleep D v)"
    and observer: "\<And>f x n. onCycle = Some f \<Longrightarrow> still (f x n)"
    and loop: "daemonLoop D onCycle cycle s = Some (q, t)"
  shows "R 0 0 s t"
proof -
  have one: "still (oneCycle D onCycle n)" for n
    unfolding oneCycle_def using observer
    by (cases onCycle) (auto intro!: still_rules cycle_steps cs r sleep)
  have "D = D \<longrightarrow> onCycle = onCycle \<longrightarrow> R 0 0 s (snd (q, t))"
  proof (rule daemonLoop.raw_induct [where P = "\<lambda>D' f' n v y. D' = D \<longrightarrow> f' = onCycle \<longrightarrow> R 0 0 v (snd y)", OF _ loop], intro impI)
    fix loop D' f' n v y
    assume IH: "\<And>D' f' n v y. loop D' f' n v = Some y \<Longrightarrow> D' = D \<longrightarrow> f' = onCycle \<longrightarrow> R 0 0 v (snd y)"
      and body: "(if dmAborted D' v then Some (Inr (), v)
        else if n = MAX_SAFE_INTEGER then Some (Inl (PlainError ''Daemon cycle counter exhausted.''), v)
        else case oneCycle D' f' (n + 1) v of
          (Inl e, t) \<Rightarrow> Some (Inl e, t)
        | (Inr again, t) \<Rightarrow> if again then loop D' f' (n + 1) t else Some (Inr (), t)) = Some y"
      and same: "D' = D" "f' = onCycle"
    show "R 0 0 v (snd y)"
    proof (cases "dmAborted D v \<or> n = MAX_SAFE_INTEGER")
      case True
      then show ?thesis using body same any_none [of 0 0 v] by (auto split: if_splits)
    next
      case False
      obtain r u where u: "oneCycle D onCycle (n + 1) v = (r, u)" by (cases "oneCycle D onCycle (n + 1) v")
      have su: "R 0 0 v u" using stepsInD [OF one u] .
      show ?thesis
      proof (cases "r = Inr True")
        case True
        then have "loop D onCycle (n + 1) u = Some y" using False u body same by simp
        from IH [OF this] su show ?thesis using more [of 0 0 v u 0 0 "snd y"] by simp
      next
        case r: False
        then have "y = (case r of Inl e \<Rightarrow> Inl e | Inr _ \<Rightarrow> Inr (), u)"
          using False u body same by (auto split: sum.splits)
        then show ?thesis using su by simp
      qed
    qed
  qed
  then show ?thesis by simp
qed

end

subsection \<open>A cycle over all consumers\<close>

text \<open>
  The services of the daemon: one store for all consumers, and everything else, with the locals of
  the cycle, leaves the persisted checkpoints alone.
\<close>

lemma quiet_consumer:
  assumes "quietIteration R I" and "\<And>g. stepsIn R (locally g)"
  shows "quietIteration R (consumerEnv I c)"
  using quiet_fields(1-8) [OF assms(1)] assms(2) by (simp add: quietIteration_def consumerEnv_def del: split_paired_All)

locale daemon_services =
  fixes I :: "'w dstate iteration_env" and good :: "'w dstate \<Rightarrow> bool" and found :: "'w dstate \<Rightarrow> checkpoints set"
    and addresses :: "jstr set"
  assumes stores: "a \<in> addresses \<Longrightarrow> checkpoint_store (itLoad I) (itSave I) good found a"
    and quiet: "quietServices (\<lambda>s. (good s, found s)) I"
    and locals: "good (l, w) = good (l', w)" "found (l, w) = found (l', w)"
begin

abbreviation "seen \<equiv> (\<lambda>s. (good s, found s))"

lemma locally_leaves: "unchanged seen (locally f)"
  unfolding locally_def by (rule leaving.in_modify) (clarsimp simp: leaves_def, metis locals)

lemma consumer_services:
  assumes "consumerAddress c \<in> addresses"
  shows "checkpointed_iteration (consumerEnv I c) good found"
proof -
  have "checkpoint_store (itLoad (consumerEnv I c)) (itSave (consumerEnv I c)) good found (itConsumer (consumerEnv I c))"
    using stores [OF assms] by (simp add: consumerEnv_def)
  moreover have "quietServices seen (consumerEnv I c)"
    by (rule quiet_consumer [OF quiet locally_leaves])
  ultimately show ?thesis by (simp add: checkpointed_iteration_def checkpointed_iteration_axioms_def)
qed

text \<open>The invariant of the checkpoints of all consumers.\<close>

definition covered :: "(jstr \<Rightarrow> (int \<times> int) set) \<Rightarrow> int set \<Rightarrow> 'w dstate \<Rightarrow> bool" where
  "covered Q S s =
     (good s \<and> (\<forall>m \<in> found s. \<forall>a \<in> addresses. coveredBelow (Q a) S (itStartBlock I) (m a)))"

lemma covered_same: "seen t = seen s \<Longrightarrow> covered Q S s \<Longrightarrow> covered Q S t"
  by (simp add: covered_def)

end

text \<open>A predicate on the whole state that a computation keeps.\<close>

definition preserves :: "('s \<Rightarrow> bool) \<Rightarrow> nat \<Rightarrow> nat \<Rightarrow> 's \<Rightarrow> 's \<Rightarrow> bool" where
  "preserves P p n s t = (P s \<longrightarrow> P t)"

interpretation preserving: graded_steps "preserves P" for P
  by unfold_locales (simp_all add: preserves_def)

context daemon_services
begin

lemma preserves_quiet: "unchanged seen m \<Longrightarrow> stepsIn (preserves (covered Q S) 0 0) m"
  by (auto simp: stepsIn_def leaves_def preserves_def intro: covered_same)

lemma preserves_iteration:
  assumes c: "consumerAddress c \<in> addresses" and reads: "completeReads (consumerEnv I c) (Q (consumerAddress c)) S"
  shows "stepsIn (preserves (covered Q S) 0 0) (runDaemonIteration (consumerEnv I c) cursor)"
proof (rule stepsInI)
  fix s r t assume run: "runDaemonIteration (consumerEnv I c) cursor s = (r, t)"
  have same: "itConsumer (consumerEnv I c) = consumerAddress c" "itStartBlock (consumerEnv I c) = itStartBlock I"
    by (simp_all add: consumerEnv_def)
  show "preserves (covered Q S) 0 0 s t"
    unfolding preserves_def
  proof
    assume s: "covered Q S s"
    have g: "good s" using s by (simp add: covered_def)
    have now: "\<forall>m \<in> found s. coveredBelow (Q (consumerAddress c)) S (itStartBlock (consumerEnv I c)) (m (itConsumer (consumerEnv I c)))"
      using s c by (simp add: covered_def same)
    note cov = checkpointed_iteration.iteration_covers [OF consumer_services [OF c] reads run g now]
    have "coveredBelow (Q a) S (itStartBlock I) (m' a)" if m: "m' \<in> found t" and a: "a \<in> addresses" for m' a
    proof (cases "a = consumerAddress c")
      case True
      then show ?thesis using cov(2) [OF m] by (simp add: same)
    next
      case False
      then obtain m where "m \<in> found s" "m' a = m a" using cov(2) [OF m] by (auto simp: same)
      then show ?thesis using s a by (auto simp: covered_def)
    qed
    then show "covered Q S t" using cov(1) by (simp add: covered_def)
  qed
qed

lemma covered_steps: "daemon_steps (preserves (covered Q S))"
  by (intro daemon_steps.intro daemon_steps_axioms.intro preserving.graded_steps_axioms preserves_quiet locally_leaves)

end

end
