(* ===== verification/Relayer.thy ===== *)
theory Relayer
  imports CheckpointFileProofs BeaconProofs DaemonSafety
begin

text \<open>
  The relayer put together: the daemon with its checkpoints in a file, its rounds imported through the
  transaction manager, and every service of the outside world on the world alone.
\<close>

subsection \<open>State\<close>

text \<open>From the outside in: the daemon's locals, the store's cache, the files, the manager, the world.\<close>

type_synonym 'w relayer_state = "'w mstate cstore dstate"

definition toManager :: "('w mstate, 'a) io \<Rightarrow> ('w relayer_state, 'a) io" where
  "toManager m = onWorld (onWorld (onWorld m))"

definition toWorld :: "('w, 'a) io \<Rightarrow> ('w relayer_state, 'a) io" where
  "toWorld m = toManager (outside m)"

definition worldOf :: "'w relayer_state \<Rightarrow> 'w" where
  "worldOf s = (case s of (_, _, _, _, _, _, w) \<Rightarrow> w)"

record ('w, 'p) relayer_base =
  rbManager :: "'w manager_env"
  rbCheckpoints :: "'w checkpoint_env"
  rbClient :: "'w chain_client"
  rbLogs :: "'w log_reader"
  rbContract :: "'w deployment_client"
  rbSimulate :: "jstr \<Rightarrow> submission_call \<Rightarrow> ('w, simulation) io"
  rbWaitReceipt :: "jstr \<Rightarrow> int \<Rightarrow> ('w, mined_receipt) io"
  rbHttp :: "'w http_env"
  rbNow :: "('w, int) io"
  rbDelay :: "int \<Rightarrow> ('w, unit) io"
  rbReadHeads :: "('w, ChainHeads) io"
  rbTools :: deployment_tools
  rbCurve :: "'p g1_curve"
  rbEncode :: "submission_call \<Rightarrow> exn + jstr"
  rbDeployment :: RegistryDeployment
  rbReceiptTimeout :: "int option"
  rbFetchTimeout :: "int option"
  rbStartBlock :: int
  rbMaxRange :: int
  rbFinality :: FinalityPolicy
  rbConsumers :: "ValidatedQuicknetConsumer list"
  rbPollInterval :: jsval
  rbAborted :: "'w \<Rightarrow> bool"

subsection \<open>The services on the whole state\<close>

definition liftClient :: "'w chain_client \<Rightarrow> 'w relayer_state chain_client" where
  "liftClient C =
     \<lparr>clientId = clientId C, getBlock = (\<lambda>n. toWorld (getBlock C n)), getFullBlock = (\<lambda>n. toWorld (getFullBlock C n)),
      getTaggedBlockNumber = (\<lambda>t. toWorld (getTaggedBlockNumber C t)), getBlockNumber = toWorld (getBlockNumber C),
      getTransactionCountAt = (\<lambda>a n. toWorld (getTransactionCountAt C a n)),
      getTransactionCountTagged = (\<lambda>a t. toWorld (getTransactionCountTagged C a t)),
      getTransactionReceipt = (\<lambda>h. toWorld (getTransactionReceipt C h)), requestSendRaw = (\<lambda>x. toWorld (requestSendRaw C x))\<rparr>"

definition liftContract :: "'w deployment_client \<Rightarrow> 'w relayer_state deployment_client" where
  "liftContract C =
     \<lparr>dcChainId = toWorld (dcChainId C), dcGetCode = (\<lambda>a. toWorld (dcGetCode C a)),
      dcRead = (\<lambda>a f xs b. toWorld (dcRead C a f xs b))\<rparr>"

definition liftHttp :: "'w http_env \<Rightarrow> 'w relayer_state http_env" where
  "liftHttp H =
     \<lparr>htFetch = (\<lambda>u. andThen (toWorld (htFetch H u)) (\<lambda>r.
        ret \<lparr>httpOk = httpOk r, httpReads = map_option (map toWorld) (httpReads r)\<rparr>)),
      htTimer = (\<lambda>t. andThen (toWorld (htTimer H t)) (\<lambda>expired. ret (\<lambda>s. expired (worldOf s)))),
      htNumbers = htNumbers H\<rparr>"

definition relayerAborted :: "('w, 'p) relayer_base \<Rightarrow> 'w relayer_state \<Rightarrow> bool" where
  "relayerAborted B s = rbAborted B (worldOf s)"

definition relayerSubmitter :: "('w, 'p) relayer_base \<Rightarrow> nat \<Rightarrow> 'w relayer_state beacon_submitter" where
  "relayerSubmitter B cycle =
     (let S = createBeaconSubmitter (rbManager B) (rbEncode B) (rbAborted B) (Some cycle) in
      \<lparr>bsFindRetained = (\<lambda>x. toManager (bsFindRetained S x)), bsSubmit = (\<lambda>x. toManager (bsSubmit S x))\<rparr>)"

text \<open>What the importer is created from: its submitter and its observer are replaced when it is bound.\<close>

definition relayerImporter :: "('w, 'p) relayer_base \<Rightarrow> ('w relayer_state, 'p) import_env" where
  "relayerImporter B =
     \<lparr>imTools = rbTools B, imClient = liftContract (rbContract B), imDeployment = rbDeployment B,
      imSimulate = (\<lambda>a c. toWorld (rbSimulate B a c)), imWaitReceipt = (\<lambda>h t. toWorld (rbWaitReceipt B h t)),
      imCurve = rbCurve B, imHttp = liftHttp (rbHttp B), imNow = toWorld (rbNow B),
      imDelay = (\<lambda>t. toWorld (rbDelay B t)), imSubmitter = relayerSubmitter B 0,
      imReceiptTimeout = rbReceiptTimeout B, imFetchTimeout = rbFetchTimeout B, imOnProgress = None,
      imAborted = relayerAborted B\<rparr>"

definition relayerImport ::
  "('w, 'p) relayer_base \<Rightarrow> nat \<Rightarrow> (RoundImportProgress \<Rightarrow> ('w relayer_state, unit) io) \<Rightarrow>
   ('w relayer_state, 'p) import_env" where
  "relayerImport B cycle p =
     \<lparr>imTools = rbTools B, imClient = liftContract (rbContract B), imDeployment = rbDeployment B,
      imSimulate = (\<lambda>a c. toWorld (rbSimulate B a c)), imWaitReceipt = (\<lambda>h t. toWorld (rbWaitReceipt B h t)),
      imCurve = rbCurve B, imHttp = liftHttp (rbHttp B), imNow = toWorld (rbNow B),
      imDelay = (\<lambda>t. toWorld (rbDelay B t)), imSubmitter = relayerSubmitter B cycle,
      imReceiptTimeout = rbReceiptTimeout B, imFetchTimeout = rbFetchTimeout B, imOnProgress = Some p,
      imAborted = relayerAborted B\<rparr>"

definition relayerCheckpoints :: "('w, 'p) relayer_base \<Rightarrow> 'w mstate checkpoint_env" where
  "relayerCheckpoints B =
     (let K = rbCheckpoints B in
      \<lparr>ckPath = ckPath K, ckChainId = ckChainId K, ckRegistry = ckRegistry K, ckNumbers = ckNumbers K,
       ckGetAddress = ckGetAddress K,
       ckReplace = \<lparr>replPid = replPid (ckReplace K), replUuid = outside (replUuid (ckReplace K))\<rparr>\<rparr>)"

definition relayerServices :: "('w, 'p) relayer_base \<Rightarrow> int \<Rightarrow> 'w relayer_state iteration_env" where
  "relayerServices B cycle =
     \<lparr>itClient = liftClient (rbClient B), itLogs = (\<lambda>cs a b. toWorld (rbLogs B cs a b)),
      itRegistry = dcRead (liftContract (rbContract B)),
      itBind = (\<lambda>p r. importRound (relayerImport B (nat cycle) p) r), itDeployment = rbDeployment B,
      itLoad = (\<lambda>a. onWorld (loadCheckpoint (relayerCheckpoints B) a)),
      itSave = (\<lambda>a n. onWorld (saveCheckpointFile (relayerCheckpoints B) a n)),
      itConsumer = [], itStartBlock = rbStartBlock B, itMaxRange = rbMaxRange B, itFinality = rbFinality B,
      itReadHeads = Some (toWorld (rbReadHeads B)), itOnOperation = None, itOnCompleted = None, itOnIncomplete = None,
      itOnReconciliation = None, itAborted = relayerAborted B\<rparr>"

definition relayerRecover :: "('w, 'p) relayer_base \<Rightarrow> int \<Rightarrow> ('w relayer_state, unit) io" where
  "relayerRecover B cycle =
     andThen (toManager (recoverSubmitter (rbManager B) (rbReadHeads B) (rbAborted B) (Some (nat cycle)))) (\<lambda>_. ret ())"

text \<open>The daemon's sleep never fails: an abort ends it like the timer does.\<close>

definition sleepUntilTimeoutOrAbort :: "('w, 'p) relayer_base \<Rightarrow> int \<Rightarrow> ('w relayer_state, unit) io" where
  "sleepUntilTimeoutOrAbort B ms =
     (\<lambda>s. if relayerAborted B s then ret () s else toWorld (\<lambda>w. case rbDelay B ms w of (_, v) \<Rightarrow> (Inr (), v)) s)"

definition relayerDaemon :: "('w, 'p) relayer_base \<Rightarrow> ('w mstate cstore, 'p) daemon_env" where
  "relayerDaemon B =
     \<lparr>dmImport = relayerImporter B, dmSubmitter = (\<lambda>n. relayerSubmitter B (nat n)), dmServices = relayerServices B,
      dmRecover = relayerRecover B, dmConsumers = rbConsumers B,
      dmPollInterval = rbPollInterval B,
      dmSleep = (\<lambda>v. sleepUntilTimeoutOrAbort B (numInt v)),
      dmAborted = relayerAborted B\<rparr>"

text \<open>Binding the importer gives the services of the cycle.\<close>

lemma relayer_bound:
  assumes "createRoundImporter (dmImport (relayerDaemon B)) = Inr bind"
  shows "(relayerDaemon B)\<lparr>dmServices := cycleServices (relayerDaemon B) bind\<rparr> = relayerDaemon B"
proof -
  have "bind = (\<lambda>submitter p. importRound ((relayerImporter B)\<lparr>imSubmitter := submitter, imOnProgress := Some p\<rparr>))"
    using assms by (auto simp: createRoundImporter_def bindE_Inr relayerDaemon_def)
  then have "cycleServices (relayerDaemon B) bind = relayerServices B"
    by (simp add: fun_eq_iff cycleServices_def relayerDaemon_def relayerServices_def relayerImporter_def relayerImport_def)
  then show ?thesis by (simp add: relayerDaemon_def)
qed

subsection \<open>The steps of the relayer\<close>

text \<open>
  Steps in which the world and the locals count for nothing, a submission may do as much as one
  preparation and two sends, and a recovery one send.
\<close>

locale relayer_steps = graded_steps R
  for R :: "nat \<Rightarrow> nat \<Rightarrow> 'w relayer_state \<Rightarrow> 'w relayer_state \<Rightarrow> bool" +
  fixes B :: "('w, 'p) relayer_base"
  assumes in_world: "R 0 0 (l, c, fs, b, k, d, w) (l, c, fs, b, k, d, v)"
    and in_locals: "R 0 0 (l, x) (l', x)"
    and in_find: "still (toManager (findRetainedWork wid))"
    and in_submit: "stepsIn (R 1 2) (toManager (submitBeaconTransaction (rbManager B) (rbEncode B) (rbAborted B) cy q))"
    and in_recover: "stepsIn (R 0 1) (toManager (recoverSubmitter (rbManager B) (rbReadHeads B) (rbAborted B) cy))"
begin

lemma still_world: "still (toWorld m)"
proof (rule stepsInI)
  fix s r t assume run: "toWorld m s = (r, t)"
  obtain l c fs b k d w where s: "s = (l, c, fs, b, k, d, w)" by (metis surj_pair)
  obtain q v where "m w = (q, v)" by (cases "m w")
  then have "t = (l, c, fs, b, k, d, v)" using run by (auto simp: toWorld_def toManager_def onWorld_def s)
  then show "R 0 0 s t" using in_world by (simp add: s)
qed

lemma still_here: "still (locally f)"
  unfolding locally_def by (rule in_modify) (auto intro: in_locals)

lemma graded_import:
  assumes p: "\<And>x. still (p x)"
  shows "stepsIn (R 1 2) (importRound (relayerImport B n p) r)"
proof (rule import_steps)
  have resp: "still m"
    if "htFetch (liftHttp (rbHttp B)) u w = (Inr resp, v)" "httpReads resp = Some reads" "m \<in> set reads" for u w resp v reads m
  proof -
    from that(1) have "\<exists>q x. toWorld (htFetch (rbHttp B) u) w = (Inr q, x) \<and>
        resp = \<lparr>httpOk = httpOk q, httpReads = map_option (map toWorld) (httpReads q)\<rparr>"
      by (simp add: liftHttp_def andThen_Inr) blast
    then obtain q :: "'w http_response" where "resp = \<lparr>httpOk = httpOk q, httpReads = map_option (map toWorld) (httpReads q)\<rparr>"
      by blast
    then show ?thesis using that(2,3) by (auto intro: still_world)
  qed
  show "importSteps R 1 2 (relayerImport B n p)"
    unfolding importSteps_def
    by (intro conjI allI impI)
      (auto simp: relayerImport_def liftContract_def liftHttp_def relayerSubmitter_def Let_def p createBeaconSubmitter_def
        intro!: still_world in_find in_submit [unfolded One_nat_def] in_seq in_ret intro: resp [unfolded liftHttp_def])
qed

lemma graded_recover: "stepsIn (R 0 1) (relayerRecover B n)"
  unfolding relayerRecover_def by (intro in_seq_first in_recover in_ret)

text \<open>Steps that do not count preparations and sends.\<close>

lemma quiet_relayer:
  assumes "\<And>p n s t. R p n s t \<Longrightarrow> R 0 0 s t"
  shows "quietIteration (R 0 0) (relayerServices B n)" and "still (relayerRecover B n)"
proof -
  have any: "stepsIn (R p n) m \<Longrightarrow> still m" for p n and m :: "('w relayer_state, 'x) io"
    by (erule stepsIn_mono) (rule assms)
  show "quietIteration (R 0 0) (relayerServices B n)"
    unfolding quietIteration_def
    by (intro conjI allI impI)
      (auto simp: relayerServices_def liftClient_def liftContract_def
        intro!: still_world any [OF graded_import] intro: in_locals)
  show "still (relayerRecover B n)" by (rule any [OF graded_recover])
qed

end

sublocale relayer_steps \<subseteq> daemon_steps R
  by unfold_locales (rule still_here)

subsection \<open>The store\<close>

text \<open>The laws of the store, on the file.\<close>

definition storeReady :: "'w checkpoint_env \<Rightarrow> 'w cstore \<Rightarrow> bool" where
  "storeReady K s = (properConfig K \<and> storeGood K s)"

lemma file_store_laws:
  fixes K :: "'w checkpoint_env"
  assumes "ckGetAddress K a = Inr a"
  shows "checkpoint_store (loadCheckpoint K) (saveCheckpointFile K) (storeReady K) (foundBy K) a"
proof
  fix s t :: "'w cstore" and r x
  assume g: "storeReady K s"
  note K = g [unfolded storeReady_def]
  show "storeReady K t \<and> foundBy K t \<subseteq> foundBy K s" if "loadCheckpoint K a s = (r, t)"
    using loadCheckpoint_wp [OF conjunct1 [OF K] conjunct2 [OF K] assms] that K
    by (cases r) (auto simp: wp_def storeReady_def)
  show "\<exists>m \<in> foundBy K s. x = m a" if "loadCheckpoint K a s = (Inr x, t)"
    using loadCheckpoint_wp [OF conjunct1 [OF K] conjunct2 [OF K] assms] that by (auto simp: wp_def)
next
  fix s t :: "'w cstore" and q n
  assume g: "storeReady K s"
  note K = g [unfolded storeReady_def]
  note w = saveCheckpointFile_wp [OF conjunct1 [OF K] conjunct2 [OF K] assms, of n]
  show "storeReady K t \<and> (\<forall>m' \<in> foundBy K t. m' \<in> foundBy K s \<or> (\<exists>m \<in> foundBy K s. movedTo a n m m'))"
    if "saveCheckpointFile K a n s = (q, t)"
    using w that K by (cases q) (auto simp: wp_def storeReady_def)
  show "\<exists>m \<in> foundBy K s. foundBy K t = {m(a \<mapsto> n)}" if "saveCheckpointFile K a n s = (Inr (), t)"
    using w that by (auto simp: wp_def)
qed

text \<open>For any configuration and any name of a consumer, with what they need in the invariant.\<close>

interpretation file_store: checkpoint_store "loadCheckpoint K" "saveCheckpointFile K"
  "\<lambda>s. ckGetAddress K a = Inr a \<and> storeReady K s" "foundBy K" a for K :: "'w checkpoint_env" and a
proof (cases "ckGetAddress K a = Inr a")
  case True
  show "checkpoint_store (loadCheckpoint K) (saveCheckpointFile K) (\<lambda>s. ckGetAddress K a = Inr a \<and> storeReady K s) (foundBy K) a"
    using file_store_laws [OF True] by (simp only: True simp_thms)
qed (unfold_locales, simp_all only: simp_thms)

subsection \<open>Everything else leaves the store alone\<close>

definition relayerGood :: "('w, 'p) relayer_base \<Rightarrow> 'w relayer_state \<Rightarrow> bool" where
  "relayerGood B s = storeReady (relayerCheckpoints B) (snd s)"

definition relayerFound :: "('w, 'p) relayer_base \<Rightarrow> 'w relayer_state \<Rightarrow> checkpoints set" where
  "relayerFound B s = foundBy (relayerCheckpoints B) (snd s)"

text \<open>What depends on the cache of the store and on the files only.\<close>

definition storeOnly :: "('w relayer_state \<Rightarrow> 'k) \<Rightarrow> bool" where
  "storeOnly f = (\<forall>l c fs m l' m'. f (l, c, fs, m) = f (l', c, fs, m'))"

lemma storeOnlyD: "storeOnly f \<Longrightarrow> f (l, c, fs, m) = f (l', c, fs, m')"
  unfolding storeOnly_def by blast

lemma storeOnly_pair: "storeOnly f \<Longrightarrow> storeOnly g \<Longrightarrow> storeOnly (\<lambda>s. (f s, g s))"
  unfolding storeOnly_def by blast

lemma storeOnly_found: "storeOnly (relayerGood B)" "storeOnly (relayerFound B)"
  by (simp_all add: storeOnly_def relayerGood_def relayerFound_def storeReady_def storeGood_def foundBy_def)

lemma quiet_toManager:
  assumes "storeOnly f"
  shows "stepsIn (leaves f p n) (toManager m)"
proof (rule stepsInI)
  fix s r t assume run: "toManager m s = (r, t)"
  obtain l c fs x where s: "s = (l, c, fs, x)" by (cases s) auto
  obtain r' x' where "m x = (r', x')" by (cases "m x")
  then have "t = (l, c, fs, x')" using run by (auto simp: toManager_def onWorld_def s)
  then show "leaves f p n s t" using storeOnlyD [OF assms] by (simp add: leaves_def s)
qed

lemma store_steps: "storeOnly f \<Longrightarrow> relayer_steps (leaves f) B"
  by (intro relayer_steps.intro relayer_steps_axioms.intro leaving.graded_steps_axioms quiet_toManager)
    (auto simp: leaves_def intro: storeOnlyD)

lemma quiet_store:
  assumes "storeOnly f"
  shows "quietServices f (relayerServices B n)" and "unchanged f (relayerRecover B n)"
    and "unchanged f (locally g)"
  using relayer_steps.quiet_relayer [OF store_steps [OF assms], of B n]
    relayer_steps.still_here [OF store_steps [OF assms]]
  by (auto simp: leaves_def)

lemma lifted_store:
  assumes "checkpoint_store l sv good found a"
  shows "checkpoint_store (\<lambda>a. onWorld (l a)) (\<lambda>a n. onWorld (sv a n)) (\<lambda>s. good (snd s)) (\<lambda>s. found (snd s)) a"
proof
  fix s t and r :: "exn + int option" assume g: "good (snd s)" and run: "onWorld (l a) s = (r, t)"
  obtain r' u where "l a (snd s) = (r', u)" by (cases "l a (snd s)")
  with run have "l a (snd s) = (r, snd t)" by (auto simp: onWorld_def split: prod.splits)
  from checkpoint_store.load_keeps [OF assms g this] show "good (snd t) \<and> found (snd t) \<subseteq> found (snd s)" .
next
  fix s t x assume g: "good (snd s)" and run: "onWorld (l a) s = (Inr x, t)"
  then have "l a (snd s) = (Inr x, snd t)" by (auto simp: onWorld_def split: prod.splits)
  from checkpoint_store.load_returns [OF assms g this] show "\<exists>m \<in> found (snd s). x = m a" .
next
  fix s t r n assume g: "good (snd s)" and run: "onWorld (sv a n) s = (r, t)"
  obtain r' u where "sv a n (snd s) = (r', u)" by (cases "sv a n (snd s)")
  with run have "sv a n (snd s) = (r, snd t)" by (auto simp: onWorld_def split: prod.splits)
  from checkpoint_store.save_moves [OF assms g this]
  show "good (snd t) \<and> (\<forall>m' \<in> found (snd t). m' \<in> found (snd s) \<or> (\<exists>m \<in> found (snd s). movedTo a n m m'))" .
next
  fix s t n assume g: "good (snd s)" and run: "onWorld (sv a n) s = (Inr (), t)"
  then have "sv a n (snd s) = (Inr (), snd t)" by (auto simp: onWorld_def split: prod.splits)
  from checkpoint_store.save_sets [OF assms g this]
  show "\<exists>m \<in> found (snd s). found (snd t) = {m(a \<mapsto> n)}" .
qed

text \<open>The invariants of the daemon hold of its real services.\<close>

interpretation relayer: daemon_services "relayerServices B n" "relayerGood B" "relayerFound B"
  "{a. ckGetAddress (relayerCheckpoints B) a = Inr a}" for B :: "('w, 'p) relayer_base" and n
proof (rule daemon_services.intro)
  fix a assume "a \<in> {a. ckGetAddress (relayerCheckpoints B) a = Inr a}"
  then have "ckGetAddress (relayerCheckpoints B) a = Inr a" by simp
  from lifted_store [OF file_store_laws [OF this]]
  show "checkpoint_store (itLoad (relayerServices B n)) (itSave (relayerServices B n)) (relayerGood B) (relayerFound B) a"
    by (simp add: relayerServices_def relayerGood_def [abs_def] relayerFound_def [abs_def])
next
  show "quietServices (\<lambda>s. (relayerGood B s, relayerFound B s)) (relayerServices B n)"
    by (rule quiet_store) (rule storeOnly_pair [OF storeOnly_found])
qed (simp_all add: relayerGood_def relayerFound_def)

text \<open>One consumer, with what its name needs in the invariant.\<close>

definition consumerGood :: "('w, 'p) relayer_base \<Rightarrow> jstr \<Rightarrow> 'w relayer_state \<Rightarrow> bool" where
  "consumerGood B a s = (ckGetAddress (relayerCheckpoints B) a = Inr a \<and> relayerGood B s)"

interpretation relayer_consumer: checkpointed_iteration "consumerEnv (relayerServices B n) c"
  "consumerGood B (consumerAddress c)" "relayerFound B" for B :: "('w, 'p) relayer_base" and n c
proof (rule checkpointed_iteration.intro [OF _ checkpointed_iteration_axioms.intro])
  let ?a = "consumerAddress c"
  have "checkpoint_store (\<lambda>a. onWorld (loadCheckpoint (relayerCheckpoints B) a)) (\<lambda>a n. onWorld (saveCheckpointFile (relayerCheckpoints B) a n))
      (\<lambda>s. ckGetAddress (relayerCheckpoints B) ?a = Inr ?a \<and> storeReady (relayerCheckpoints B) (snd s)) (\<lambda>s. foundBy (relayerCheckpoints B) (snd s)) ?a"
    by (rule lifted_store [OF file_store.checkpoint_store_axioms])
  then show "checkpoint_store (itLoad (consumerEnv (relayerServices B n) c)) (itSave (consumerEnv (relayerServices B n) c))
      (consumerGood B ?a) (relayerFound B) (itConsumer (consumerEnv (relayerServices B n) c))"
    by (simp add: consumerEnv_def relayerServices_def consumerGood_def [abs_def] relayerGood_def relayerFound_def [abs_def])
  have "storeOnly (consumerGood B ?a)"
    using storeOnly_found(1) [of B] unfolding storeOnly_def consumerGood_def by blast
  from storeOnly_pair [OF this storeOnly_found(2)]
  have "storeOnly (\<lambda>s. (consumerGood B ?a s, relayerFound B s))" .
  then show "quietServices (\<lambda>s. (consumerGood B ?a s, relayerFound B s)) (consumerEnv (relayerServices B n) c)"
    by (intro quiet_consumer quiet_store)
qed

end
