(* ===== verification/DaemonEndings.thy ===== *)
theory DaemonEndings
  imports DaemonSafety "HOL-Library.Sublist"
begin

text \<open>
  How a cycle and the daemon end: one consumer's failure is that consumer's result, and an error
  leaves the cycle only when the daemon is being stopped.
\<close>

fun consumerOf :: "DaemonConsumerCycleResult \<Rightarrow> ValidatedQuicknetConsumer" where
  "consumerOf (ConsumerSucceeded c r rounds rec) = c"
| "consumerOf (ConsumerFailed c e oper imported rounds rec) = c"

text \<open>The results of a cycle: one per consumer, in their order, or of the first few when it was stopped.\<close>

definition cycleResults ::
  "('w dstate \<Rightarrow> bool) \<Rightarrow> ValidatedQuicknetConsumer list \<Rightarrow> DaemonConsumerCycleResult list \<Rightarrow> 'w dstate \<Rightarrow> bool" where
  "cycleResults aborted cs rs t = (map consumerOf rs = cs \<or> aborted t \<and> prefix (map consumerOf rs) cs)"

lemma wp_getThen: "wp (andThen getState k) Q E s = wp (k s) Q E s"
  by (simp add: wp_def andThen_def getState_def)

lemma iterateConsumer_wp:
  "wp (iterateConsumer I c) (\<lambda>r _. consumerOf r = c) (\<lambda>e t. isOperationCancelled e (itAborted I) t) s"
proof -
  have fail: "wp (andThen getState (\<lambda>t. if isOperationCancelled e (itAborted I) t then throw e
        else ret (ConsumerFailed c e (lastOperation (fst t)) (completedImports (fst t)) (incompleteRounds (fst t)) (reconciliationOf (fst t)))))
      (\<lambda>r _. consumerOf r = c) (\<lambda>e t. isOperationCancelled e (itAborted I) t) u" for e u
    by (simp add: wp_getThen wp_ret wp_throw)
  have "wp (tryCatch (andThen getState (\<lambda>s.
        andThen (runDaemonIteration (consumerEnv I c) (softCursors (fst s) (consumerAddress c))) (\<lambda>r.
        andThen (locally (\<lambda>l. l\<lparr>softCursors := (softCursors l)(consumerAddress c \<mapsto> riSoftNext r)\<rparr>)) (\<lambda>_.
        andThen getState (\<lambda>t.
        ret (ConsumerSucceeded c r (incompleteRounds (fst t)) (reconciliationOf (fst t))))))))
     (\<lambda>e. andThen getState (\<lambda>t. if isOperationCancelled e (itAborted I) t then throw e
        else ret (ConsumerFailed c e (lastOperation (fst t)) (completedImports (fst t)) (incompleteRounds (fst t)) (reconciliationOf (fst t))))))
     (\<lambda>r _. consumerOf r = c) (\<lambda>e t. isOperationCancelled e (itAborted I) t) u" for u
    unfolding wp_tryCatch
    by (rule wpI) (auto simp: andThen_Inr fail)
  then show ?thesis
    unfolding iterateConsumer_def by (intro wp_seqI) (auto simp: locally_def wp_simps)
qed

lemma iterateConsumers_wp:
  "wp (iterateConsumers I cs acc)
     (\<lambda>rs t. \<exists>more. rs = acc @ more \<and> cycleResults (itAborted I) cs more t)
     (\<lambda>e t. isOperationCancelled e (itAborted I) t) s"
proof (induction cs arbitrary: acc s)
  case (Nil acc s)
  then show ?case by (simp add: wp_ret cycleResults_def)
next
  case (Cons c cs acc s)
  show ?case
  proof (cases "itAborted I s")
    case True
    then show ?thesis
      by (simp add: wp_getThen wp_ret cycleResults_def)
  next
    case False
    have "wp (andThen (iterateConsumer I c) (\<lambda>r. iterateConsumers I cs (acc @ [r])))
      (\<lambda>rs t. \<exists>more. rs = acc @ more \<and> cycleResults (itAborted I) (c # cs) more t)
      (\<lambda>e t. isOperationCancelled e (itAborted I) t) s"
      unfolding wp_andThen
    proof (rule wp_mono [OF iterateConsumer_wp])
      fix r t assume c: "consumerOf r = c"
      show "wp (iterateConsumers I cs (acc @ [r])) (\<lambda>rs t. \<exists>more. rs = acc @ more \<and> cycleResults (itAborted I) (c # cs) more t)
        (\<lambda>e t. isOperationCancelled e (itAborted I) t) t"
      proof (rule wp_mono [OF Cons.IH])
        fix rs u assume "\<exists>more. rs = (acc @ [r]) @ more \<and> cycleResults (itAborted I) cs more u"
        then obtain more where "rs = acc @ r # more" "cycleResults (itAborted I) cs more u" by auto
        then show "\<exists>more. rs = acc @ more \<and> cycleResults (itAborted I) (c # cs) more u"
          using c by (intro exI [of _ "r # more"]) (auto simp: cycleResults_def)
      qed
    qed
    then show ?thesis using False by (simp add: wp_getThen)
  qed
qed

text \<open>
  A cycle has a result for every consumer, unless it is stopped; when the recovery fails every
  consumer fails with its error. An error of the cycle itself is a cancellation.
\<close>

lemma runDaemonCycle_wp:
  "wp (runDaemonCycle I recover1 cs) (\<lambda>rs t. cycleResults (itAborted I) cs rs t)
     (\<lambda>e t. isOperationCancelled e (itAborted I) t) s"
proof -
  have abort: "isOperationCancelled AbortReason a v" if "a v" for a and v :: "'a dstate"
    using that by (simp add: isOperationCancelled_def cancelError_def)
  have first: "wp (tryCatch (andThen recover1 (\<lambda>_. ret None))
        (\<lambda>e. andThen getState (\<lambda>t. if isOperationCancelled e (itAborted I) t then throw e else ret (Some e))))
      (\<lambda>_ _. True) (\<lambda>e t. isOperationCancelled e (itAborted I) t) v" for v
    by (rule wpI) (auto simp: tryCatch_def andThen_def getState_def throw_def ret_def split: prod.splits sum.splits if_splits)
  have run: "wp (case failed of
       Some e \<Rightarrow> ret (map (\<lambda>c. ConsumerFailed c e None [] [] None) cs)
     | None \<Rightarrow> iterateConsumers I cs []) (\<lambda>rs t. cycleResults (itAborted I) cs rs t)
     (\<lambda>e t. isOperationCancelled e (itAborted I) t) v" for failed v
    using iterateConsumers_wp [of I cs "[]" v]
    by (cases failed) (auto simp: wp_ret cycleResults_def o_def elim: wp_mono)
  show ?thesis
    unfolding runDaemonCycle_def wp_andThen
    by (rule wp_abortCheck) (auto simp: abort intro: wp_mono [OF first] run)
qed

lemma andThen_InlE:
  assumes "andThen m k s = (Inl e, t)"
  obtains "m s = (Inl e, t)" | x u where "m s = (Inr x, u)" "k x u = (Inl e, t)"
  using assms by (auto simp: andThen_def split: prod.splits sum.splits)

lemma oneCycle_error:
  assumes "oneCycle D onCycle n s = (Inl e, t)"
  shows "(\<exists>u. isOperationCancelled e (itAborted (dmServices D n)) u) \<or>
    (\<exists>f rs u v. onCycle = Some f \<and> f rs n u = (Inl e, v)) \<or> (\<exists>u v. dmSleep D (dmPollInterval D) u = (Inl e, v))"
  using assms unfolding oneCycle_def
proof (elim andThen_InlE)
  assume "runDaemonCycle (dmServices D n) (dmRecover D n) (dmConsumers D) s = (Inl e, t)"
  then have "isOperationCancelled e (itAborted (dmServices D n)) t"
    using runDaemonCycle_wp [of "dmServices D n" "dmRecover D n" "dmConsumers D" s] by (simp add: wp_def)
  then show ?thesis by blast
next
  fix rs u assume "(case onCycle of None \<Rightarrow> ret () | Some f \<Rightarrow> f rs n) u = (Inl e, t)"
  then obtain f where "onCycle = Some f" "f rs n u = (Inl e, t)" by (cases onCycle) (auto simp: ret_def)
  then show ?thesis by blast
next
  fix u assume "getState u = (Inl e, t)"
  then show ?thesis by (simp add: getState_def)
next
  fix v u assume "(if dmAborted D v then ret False else andThen (dmSleep D (dmPollInterval D)) (\<lambda>_. ret True)) u = (Inl e, t)"
  then have "dmSleep D (dmPollInterval D) u = (Inl e, t)"
    by (cases "dmAborted D v") (auto simp: ret_def elim: andThen_InlE)
  then show ?thesis by blast
qed

text \<open>What the daemon may end with.\<close>

definition daemonError ::
  "('w, 'p) daemon_env \<Rightarrow> (DaemonConsumerCycleResult list \<Rightarrow> int \<Rightarrow> ('w dstate, unit) io) option \<Rightarrow> exn \<Rightarrow> bool" where
  "daemonError D onCycle e =
     (e = PlainError ''Daemon cycle counter exhausted.'' \<or>
      (\<exists>n u. isOperationCancelled e (itAborted (dmServices D n)) u) \<or>
      (\<exists>f rs n u v. onCycle = Some f \<and> f rs n u = (Inl e, v)) \<or> (\<exists>u v. dmSleep D (dmPollInterval D) u = (Inl e, v)))"

lemma daemonLoop_error:
  assumes "0 \<le> cycle" "cycle \<le> MAX_SAFE_INTEGER" "daemonLoop D onCycle cycle s = Some (Inl e, t)"
  shows "daemonError D onCycle e"
  using assms
proof (induction "nat (MAX_SAFE_INTEGER - cycle)" arbitrary: cycle s rule: less_induct)
  case less
  show ?case
  proof (cases "dmAborted D s \<or> cycle = MAX_SAFE_INTEGER")
    case True
    have "daemonLoop D onCycle cycle s =
        (if dmAborted D s then Some (Inr (), s) else Some (Inl (PlainError ''Daemon cycle counter exhausted.''), s))"
      using True by (subst daemonLoop.simps) auto
    then show ?thesis using less.prems(3) by (simp add: daemonError_def split: if_splits)
  next
    case False
    obtain r u where c: "oneCycle D onCycle (cycle + 1) s = (r, u)" by (cases "oneCycle D onCycle (cycle + 1) s")
    show ?thesis
    proof (cases r)
      case (Inl x)
      have "daemonLoop D onCycle cycle s = Some (Inl x, u)" using False c Inl by (subst daemonLoop.simps) simp
      then have "x = e" using less.prems(3) by simp
      then show ?thesis using oneCycle_error [OF c [unfolded Inl]] by (auto simp: daemonError_def)
    next
      case (Inr again)
      have "daemonLoop D onCycle cycle s = (if again then daemonLoop D onCycle (cycle + 1) u else Some (Inr (), u))"
        using False c Inr by (subst daemonLoop.simps) simp
      then have "daemonLoop D onCycle (cycle + 1) u = Some (Inl e, t)"
        using less.prems(3) by (simp split: if_splits)
      then show ?thesis using less.hyps [of "cycle + 1" u] less.prems(1,2) False by simp
    qed
  qed
qed

text \<open>What it ends with before its first cycle.\<close>

definition startError :: "('w, 'p) daemon_env \<Rightarrow> exn \<Rightarrow> bool" where
  "startError D e =
     (if \<not> isPositiveSafeInteger (dmPollInterval D)
      then e = PlainError ''pollIntervalMs must be a positive safe integer.''
      else (\<exists>t. imReceiptTimeout (dmImport D) = Some t \<and> \<not> (0 < t \<and> t \<le> MAX_RECEIPT_TIMEOUT_MS) \<and>
              e = TypeError ''Invalid receipt timeout.'') \<or>
           (\<exists>t. imFetchTimeout (dmImport D) = Some t \<and> \<not> (0 < t \<and> t \<le> MAX_FETCH_TIMEOUT_MS) \<and>
              e = RangeError ''timeoutMs must be a positive safe integer no greater than 60000.''))"

lemma importer_error:
  assumes "createRoundImporter E = Inl e"
  shows "(\<exists>t. imReceiptTimeout E = Some t \<and> \<not> (0 < t \<and> t \<le> MAX_RECEIPT_TIMEOUT_MS) \<and>
      e = TypeError ''Invalid receipt timeout.'') \<or>
    (\<exists>t. imFetchTimeout E = Some t \<and> \<not> (0 < t \<and> t \<le> MAX_FETCH_TIMEOUT_MS) \<and>
      e = RangeError ''timeoutMs must be a positive safe integer no greater than 60000.'')"
  using assms
  by (auto simp: createRoundImporter_def validateReceiptTimeoutMs_def validateFetchTimeoutMs_def optionalFetchTimeout_def
      bindE_def checkE_def DEFAULT_RECEIPT_TIMEOUT_MS_def MAX_RECEIPT_TIMEOUT_MS_def split: option.splits if_splits)

lemma importer_valid:
  assumes "createRoundImporter E = Inr bind"
  shows "(\<forall>t. imReceiptTimeout E = Some t \<longrightarrow> 0 < t \<and> t \<le> MAX_RECEIPT_TIMEOUT_MS) \<and>
    (\<forall>t. imFetchTimeout E = Some t \<longrightarrow> 0 < t \<and> t \<le> MAX_FETCH_TIMEOUT_MS)"
  using assms
  by (auto simp: createRoundImporter_def validateReceiptTimeoutMs_def validateFetchTimeoutMs_def optionalFetchTimeout_def
      bindE_Inr checkE_Inr split: option.splits)

text \<open>Either the start fails, and nothing has happened; or the loop runs, and returns.\<close>

lemma runDaemon_loop:
  obtains e where "startError D e" "runDaemon D f s = Some (Inl e, s)"
  | bind r t where "createRoundImporter (dmImport D) = Inr bind" "\<nexists>e. startError D e" "runDaemon D f s = Some (r, t)"
    "daemonLoop (D\<lparr>dmServices := cycleServices D bind\<rparr>) f 0 (fst s\<lparr>softCursors := (\<lambda>_. None)\<rparr>, snd s) = Some (r, t)"
    "r = Inr () \<longrightarrow> dmAborted D t"
proof (cases "isPositiveSafeInteger (dmPollInterval D)")
  case p: True
  show thesis
  proof (cases "createRoundImporter (dmImport D)")
    case (Inl e)
    then have "runDaemon D f s = Some (Inl e, s)" by (simp add: runDaemon_def p)
    then show thesis using that(1) [of e] importer_error [OF Inl] p by (auto simp: startError_def)
  next
    case (Inr bind)
    let ?D = "D\<lparr>dmServices := cycleServices D bind\<rparr>" and ?s = "(fst s\<lparr>softCursors := (\<lambda>_. None)\<rparr>, snd s)"
    obtain r t where "daemonLoop ?D f 0 ?s = Some (r, t)" "r = Inr () \<longrightarrow> dmAborted ?D t"
      using daemonLoop_returns [of 0 ?D f ?s] by (auto simp: MAX_SAFE_INTEGER_def)
    moreover have "\<nexists>e. startError D e" using importer_valid [OF Inr] p by (auto simp: startError_def)
    ultimately show thesis using that(2) [OF Inr] p Inr by (cases s) (simp add: runDaemon_def)
  qed
next
  case False
  then show thesis using that(1) by (simp add: runDaemon_def startError_def)
qed

lemma bound_error: "daemonError (D\<lparr>dmServices := cycleServices D bind\<rparr>) f e = daemonError D f e"
  by (simp add: daemonError_def cycleServices_def)

end
