(* ===== verification/RelayerRuns.thy ===== *)
theory RelayerRuns
  imports Relayer DaemonEndings
begin

text \<open>
  What the daemon does with the coordinator and with the checkpoints, however long it runs: all its
  work on the coordinator is a run of the coordinator's state machine, and no request is passed over.
\<close>

subsection \<open>Runs of the coordinator\<close>

definition managerOf :: "'w relayer_state \<Rightarrow> 'w mstate" where
  "managerOf s = snd (snd (snd s))"

definition relayerRun :: "'w coordinator_env \<Rightarrow> nat \<Rightarrow> nat \<Rightarrow> 'w relayer_state \<Rightarrow> 'w relayer_state \<Rightarrow> bool" where
  "relayerRun E p n s t = managerRun E p n (managerOf s) (managerOf t)"

interpretation running: graded_steps "relayerRun E" for E :: "'w coordinator_env"
  by unfold_locales (auto simp: relayerRun_def intro: mgr.none mgr.more mgr.weaken)

lemma run_toManager: "stepsIn (managerRun E p n) m \<Longrightarrow> stepsIn (relayerRun E p n) (toManager m)"
  by (auto simp: stepsIn_def toManager_def onWorld_def relayerRun_def managerOf_def split: prod.splits)

lemma run_outside: "stepsIn (managerRun E 0 0) (outside m)"
  by (rule mgr_inner [OF cyc_world])

lemma run_toWorld: "stepsIn (relayerRun E 0 0) (toWorld m)"
  unfolding toWorld_def by (rule run_toManager [OF run_outside])

lemma run_locally: "stepsIn (relayerRun E 0 0) (locally f)"
  unfolding locally_def by (rule running.in_modify) (auto simp: relayerRun_def managerOf_def mgr.none)

text \<open>The store of the checkpoints, which only takes its file names from the world.\<close>

definition storeRun :: "'w coordinator_env \<Rightarrow> nat \<Rightarrow> nat \<Rightarrow> 'w mstate cstore \<Rightarrow> 'w mstate cstore \<Rightarrow> bool" where
  "storeRun E p n s t = managerRun E p n (snd (snd s)) (snd (snd t))"

interpretation storing: graded_steps "storeRun E" for E :: "'w coordinator_env"
  by unfold_locales (auto simp: storeRun_def intro: mgr.none mgr.more mgr.weaken)

definition fileRun :: "'w coordinator_env \<Rightarrow> nat \<Rightarrow> nat \<Rightarrow> replace_locals \<times> 'w mstate files \<Rightarrow> replace_locals \<times> 'w mstate files \<Rightarrow> bool" where
  "fileRun E p n s t = managerRun E p n (snd (snd s)) (snd (snd t))"

interpretation filing: graded_steps "fileRun E" for E :: "'w coordinator_env"
  by unfold_locales (auto simp: fileRun_def intro: mgr.none mgr.more mgr.weaken)

lemma run_inFiles: "stepsIn (fileRun E 0 0) (inFiles m)"
  by (auto simp: stepsIn_def onWorld_def onFiles_def fileRun_def mgr.none split: prod.splits)

lemma run_localLet: "stepsIn (fileRun E 0 0) (localLet f)"
  unfolding localLet_def by (rule filing.in_modify) (auto simp: fileRun_def mgr.none)

lemma run_replace:
  assumes u: "stepsIn (managerRun E 0 0) (replUuid K)"
  shows "stepsIn (storeRun E 0 0) (onWorld (durableReplace K None path contents))"
proof -
  have body: "stepsIn (fileRun E 0 0) (tryCatch (replaceBody None temp path contents) (replaceCleanup temp))" for temp
    unfolding replaceBody_def replaceCleanup_def atBoundary_def swallow_def option.case
    by (intro filing.still_rules run_inFiles run_localLet)
  have inner: "managerRun E 0 0 w v"
    if r: "durableReplace K None path contents (fs, w) = (r, (gs, v))" for fs gs w v r
  proof -
    obtain q w1 where q: "replUuid K w = (q, w1)" by (cases "replUuid K w")
    have s1: "managerRun E 0 0 w w1" by (rule stepsInD [OF u q])
    show ?thesis
    proof (cases q)
      case (Inl e)
      then show ?thesis using r q s1 by (simp add: durableReplace_def andThen_def onWorld_def)
    next
      case (Inr x)
      let ?l = "\<lparr>openFile = None, openDirectory = False, ownsTemp = False\<rparr>"
      let ?temp = "tempName path (replPid K) x"
      obtain p l hs w2 where p: "tryCatch (replaceBody None ?temp path contents) (replaceCleanup ?temp) (?l, fs, w1) = (p, (l, hs, w2))"
        by (metis surj_pair)
      have "w2 = v" using r q Inr p by (simp add: durableReplace_def andThen_def onWorld_def Let_def)
      then show ?thesis using mgr.more [OF s1, of 0 0] stepsInD [OF body p] by (simp add: fileRun_def)
    qed
  qed
  show ?thesis
    by (auto simp: stepsIn_def onWorld_def storeRun_def split: prod.splits dest!: inner)
qed

lemma run_inStore: "stepsIn (storeRun E 0 0) (inStore m)"
  by (auto simp: stepsIn_def onWorld_def onFiles_def storeRun_def mgr.none split: prod.splits)

lemma run_store:
  assumes u: "stepsIn (managerRun E 0 0) (replUuid (ckReplace K))"
  shows "stepsIn (storeRun E 0 0) (loadCheckpoint K a)" and "stepsIn (storeRun E 0 0) (saveCheckpointFile K a n)"
proof -
  have cached: "stepsIn (storeRun E 0 0) (setCached c)" for c
    unfolding setCached_def by (rule storing.in_modify) (auto simp: storeRun_def mgr.none)
  have wr: "stepsIn (storeRun E 0 0) (onWorld (writeState K m))" for m
    unfolding writeState_def by (rule run_replace [OF u])
  have init: "stepsIn (storeRun E 0 0) (initializeState K)"
    unfolding initializeState_def by (intro storing.still_rules run_inStore wr cached)
  show "stepsIn (storeRun E 0 0) (loadCheckpoint K a)"
    unfolding loadCheckpoint_def by (intro storing.still_rules init)
  show "stepsIn (storeRun E 0 0) (saveCheckpointFile K a n)"
    unfolding saveCheckpointFile_def Let_def by (intro storing.still_rules init wr cached)
qed

lemma run_relayerStore:
  fixes B :: "('w, 'p) relayer_base" and E :: "'w coordinator_env"
  shows
  "stepsIn (relayerRun E 0 0) (itLoad (relayerServices B n) a)"
  "stepsIn (relayerRun E 0 0) (itSave (relayerServices B n) a k)"
proof -
  have lift: "stepsIn (storeRun E 0 0) m \<Longrightarrow> stepsIn (relayerRun E 0 0) (onWorld m)" for m :: "('w mstate cstore, 'x) io"
    by (auto simp: stepsIn_def onWorld_def relayerRun_def storeRun_def managerOf_def split: prod.splits)
  have u: "stepsIn (managerRun E 0 0) (replUuid (ckReplace (relayerCheckpoints B)))"
    by (simp add: relayerCheckpoints_def Let_def run_outside)
  show "stepsIn (relayerRun E 0 0) (itLoad (relayerServices B n) a)"
    "stepsIn (relayerRun E 0 0) (itSave (relayerServices B n) a k)"
    by (simp_all add: relayerServices_def lift run_store [OF u])
qed

text \<open>The work of the relayer on its manager.\<close>

lemma run_submit:
  "stepsIn (managerRun (mgrCoordinator M) 1 2) (submitBeaconTransaction M encode aborted cy x)"
  unfolding submitBeaconTransaction_def
  by (intro mgr.in_seq mgr.in_lift mgr.in_get checkAborted_run submit_run)

lemma run_find: "stepsIn (managerRun E 0 0) (findRetainedWork wid)"
  unfolding findRetainedWork_def by (intro mgr.in_seq mgr.in_get mgr.in_lift mgr.in_ret)

lemma run_recover:
  "stepsIn (managerRun (mgrCoordinator M) 0 1) (recoverSubmitter M heads aborted cy)"
proof -
  have anchor: "stepsIn (managerRun (mgrCoordinator M) 0 0)
      (if b then ret x else andThen (outside m) (\<lambda>h. andThen (checkAborted aborted) (\<lambda>_. ret h)))" for b x m
    by (intro mgr.in_if mgr.in_ret mgr.in_seq run_outside checkAborted_run)
  show ?thesis
    unfolding recoverSubmitter_def
    by (intro mgr.in_seq anchor checkAborted_run run_outside mgr.in_unless reconcile_run)
qed

lemma relayer_run_steps: "relayer_steps (relayerRun (mgrCoordinator (rbManager B))) B"
proof (intro relayer_steps.intro relayer_steps_axioms.intro running.graded_steps_axioms)
  let ?E = "mgrCoordinator (rbManager B)"
  show "relayerRun ?E 0 0 (l, c, fs, b, k, d, w) (l, c, fs, b, k, d, v)" for l c fs b k d w v
  proof -
    have "stepsIn (relayerRun ?E 0 0) (toWorld (\<lambda>_. (Inr (), v)))" by (rule run_toWorld)
    then show ?thesis by (auto simp: stepsIn_def toWorld_def toManager_def onWorld_def)
  qed
  show "relayerRun ?E 0 0 (l, x) (l', x)" for l l' x
    by (simp add: relayerRun_def managerOf_def mgr.none)
qed (intro run_toManager run_find run_submit run_recover)+

text \<open>Steps that do not count.\<close>

definition anyRun :: "'w coordinator_env \<Rightarrow> nat \<Rightarrow> nat \<Rightarrow> 'w relayer_state \<Rightarrow> 'w relayer_state \<Rightarrow> bool" where
  "anyRun E p n s t = (\<exists>q m. relayerRun E q m s t)"

lemma anyRun_same: "anyRun E p n s t \<Longrightarrow> anyRun E q m s t"
  by (simp add: anyRun_def)

lemma anyRun_I: "relayerRun E q m s t \<Longrightarrow> anyRun E p n s t"
  by (auto simp: anyRun_def)

interpretation anyhow: graded_steps "anyRun E" for E :: "'w coordinator_env"
  by unfold_locales (auto simp: anyRun_def intro: running.none running.more)

interpretation relaying: relayer_steps "anyRun (mgrCoordinator (rbManager B))" B for B :: "('w, 'p) relayer_base"
proof (intro relayer_steps.intro relayer_steps_axioms.intro anyhow.graded_steps_axioms)
  have any: "stepsIn (relayerRun E p n) m \<Longrightarrow> stepsIn (anyRun E q k) m" for E :: "'w coordinator_env" and p n q k
    and m :: "('w relayer_state, 'x) io"
    by (erule stepsIn_mono) (rule anyRun_I)
  show "anyRun (mgrCoordinator (rbManager B)) 0 0 (l, c, fs, b, k, d, w) (l, c, fs, b, k, d, v)" for l c fs b k d w v
    by (rule anyRun_I [OF relayer_steps.in_world [OF relayer_run_steps]])
  show "anyRun (mgrCoordinator (rbManager B)) 0 0 (l, x) (l', x)" for l l' x
    by (rule anyRun_I [OF relayer_steps.in_locals [OF relayer_run_steps]])
qed (rule stepsIn_mono, rule relayer_steps.in_find [OF relayer_run_steps] relayer_steps.in_submit [OF relayer_run_steps]
    relayer_steps.in_recover [OF relayer_run_steps], rule anyRun_I, assumption)+

text \<open>Whatever the daemon does, its coordinator makes a run.\<close>

lemma daemon_run:
  assumes observer: "\<And>f x n. onCycle = Some f \<Longrightarrow> stepsIn (anyRun (mgrCoordinator (rbManager B)) 0 0) (f x n)"
    and loop: "daemonLoop (relayerDaemon B) onCycle cycle s = Some (q, t)"
  shows "\<exists>p n. managerRun (mgrCoordinator (rbManager B)) p n (managerOf s) (managerOf t)"
proof -
  let ?R = "anyRun (mgrCoordinator (rbManager B)) 0 0"
  have iter: "stepsIn ?R (runDaemonIteration (consumerEnv (relayerServices B n) c) cursor)" for n c cursor
  proof (rule iteration_steps.still_iteration [where R = "anyRun (mgrCoordinator (rbManager B))"])
    show "iteration_steps (anyRun (mgrCoordinator (rbManager B))) (consumerEnv (relayerServices B n) c)"
      by (rule iteration_steps.intro [OF anyhow.graded_steps_axioms iteration_steps_axioms.intro])
        (rule quiet_consumer [OF relaying.quiet_relayer(1) [OF anyRun_same] relaying.still_here])
    show "stepsIn ?R (itLoad (consumerEnv (relayerServices B n) c) (itConsumer (consumerEnv (relayerServices B n) c)))"
      using stepsIn_mono [OF run_relayerStore(1) anyRun_I] by (simp add: consumerEnv_def)
    show "stepsIn ?R (itSave (consumerEnv (relayerServices B n) c) (itConsumer (consumerEnv (relayerServices B n) c)) k)" for k
      using stepsIn_mono [OF run_relayerStore(2) anyRun_I] by (simp add: consumerEnv_def)
  qed
  have "?R s t"
  proof (rule relaying.loop_steps [where onCycle = onCycle and D = "relayerDaemon B" and cycle = cycle and q = q])
    show "stepsIn ?R (f x n)" if "onCycle = Some f" for f x n by (rule observer [OF that])
    show "daemonLoop (relayerDaemon B) onCycle cycle s = Some (q, t)" by (rule loop)
    show "stepsIn ?R (dmRecover (relayerDaemon B) n)" for n
      using relaying.quiet_relayer(2) [OF anyRun_same] by (simp add: relayerDaemon_def)
    show "stepsIn ?R (dmSleep (relayerDaemon B) v)" for v
      unfolding relayerDaemon_def daemon_env.simps sleepUntilTimeoutOrAbort_def
      by (intro anyhow.still_if_at anyhow.in_ret relaying.still_world)
  qed (simp add: relayerDaemon_def iter)
  then show ?thesis by (auto simp: anyRun_def relayerRun_def)
qed

subsection \<open>No request is passed over\<close>

text \<open>
  The invariant of the whole program: the store is intact, and every checkpoint that it holds or a
  restart would find, of any consumer, stands for the durable storage of all rounds requested below it.
\<close>

definition relayerCovered ::
  "('w, 'p) relayer_base \<Rightarrow> (jstr \<Rightarrow> (int \<times> int) set) \<Rightarrow> int set \<Rightarrow> 'w relayer_state \<Rightarrow> bool" where
  "relayerCovered B Q S s =
     (relayerGood B s \<and>
      (\<forall>m \<in> relayerFound B s. \<forall>a. ckGetAddress (rbCheckpoints B) a = Inr a \<longrightarrow>
         coveredBelow (Q a) S (rbStartBlock B) (m a)))"

definition honestReads :: "('w, 'p) relayer_base \<Rightarrow> (jstr \<Rightarrow> (int \<times> int) set) \<Rightarrow> int set \<Rightarrow> bool" where
  "honestReads B Q S =
     (\<forall>c \<in> set (rbConsumers B). ckGetAddress (rbCheckpoints B) (consumerAddress c) = Inr (consumerAddress c) \<and>
        (\<forall>n. completeReads (consumerEnv (relayerServices B n) c) (Q (consumerAddress c)) S))"

lemma covered_relayer:
  "daemon_services.covered (relayerServices B n) (relayerGood B) (relayerFound B)
     {a. ckGetAddress (relayerCheckpoints B) a = Inr a} Q S = relayerCovered B Q S"
proof (rule ext)
  fix s
  have "itStartBlock (relayerServices B n) = rbStartBlock B" by (simp add: relayerServices_def)
  moreover have "ckGetAddress (relayerCheckpoints B) = ckGetAddress (rbCheckpoints B)"
    by (simp add: relayerCheckpoints_def Let_def)
  ultimately show "daemon_services.covered (relayerServices B n) (relayerGood B) (relayerFound B)
     {a. ckGetAddress (relayerCheckpoints B) a = Inr a} Q S s = relayerCovered B Q S s"
    unfolding relayer.covered_def relayerCovered_def by simp
qed

lemma daemon_covers:
  assumes reads: "honestReads B Q S"
    and observer: "\<And>f x n. onCycle = Some f \<Longrightarrow> stepsIn (preserves (relayerCovered B Q S) 0 0) (f x n)"
    and loop: "daemonLoop (relayerDaemon B) onCycle cycle s = Some (q, t)" and s: "relayerCovered B Q S s"
  shows "relayerCovered B Q S t"
proof -
  let ?R = "preserves (relayerCovered B Q S)"
  have steps: "daemon_steps ?R"
    using relayer.covered_steps [where B = B and n = 0 and Q = Q and S = S] by (simp only: covered_relayer)
  have quiet: "stepsIn (?R 0 0) m" if "unchanged (\<lambda>s. (relayerGood B s, relayerFound B s)) m"
    for m :: "('a relayer_state, 'x) io"
    using that by (auto simp: stepsIn_def leaves_def preserves_def relayerCovered_def)
  note storeSteps = store_steps [OF storeOnly_pair [OF storeOnly_found], of B B B]
  have "?R 0 0 s t"
  proof (rule daemon_steps.loop_steps [OF steps, where onCycle = onCycle and D = "relayerDaemon B" and cycle = cycle and q = q])
    show "stepsIn (?R 0 0) (f x n)" if "onCycle = Some f" for f x n by (rule observer [OF that])
    show "daemonLoop (relayerDaemon B) onCycle cycle s = Some (q, t)" by (rule loop)
    show "stepsIn (?R 0 0) (dmRecover (relayerDaemon B) n)" for n
      unfolding relayerDaemon_def daemon_env.simps
      by (rule quiet [OF quiet_store(2) [OF storeOnly_pair [OF storeOnly_found]]])
    show "stepsIn (?R 0 0) (dmSleep (relayerDaemon B) v)" for v
      unfolding relayerDaemon_def daemon_env.simps sleepUntilTimeoutOrAbort_def
      by (intro preserving.still_if_at preserving.in_ret quiet relayer_steps.still_world [OF storeSteps])
    show "stepsIn (?R 0 0) (runDaemonIteration (consumerEnv (dmServices (relayerDaemon B) n) c) cursor)"
      if c: "c \<in> set (dmConsumers (relayerDaemon B))" for n c cursor
    proof -
      have c: "consumerAddress c \<in> {a. ckGetAddress (relayerCheckpoints B) a = Inr a}"
        "completeReads (consumerEnv (relayerServices B n) c) (Q (consumerAddress c)) S"
        using c reads by (auto simp: relayerDaemon_def honestReads_def relayerCheckpoints_def Let_def)
      from relayer.preserves_iteration [where Q = Q, OF c] show ?thesis
        by (simp only: covered_relayer relayerDaemon_def daemon_env.simps)
    qed
  qed
  then show ?thesis using s by (simp add: preserves_def)
qed

text \<open>A daemon that starts runs the loop of the relayer.\<close>

lemma relayer_runs:
  obtains e where "runDaemon (relayerDaemon B) f s = Some (Inl e, s)"
  | r t where "runDaemon (relayerDaemon B) f s = Some (r, t)"
    "daemonLoop (relayerDaemon B) f 0 (fst s\<lparr>softCursors := (\<lambda>_. None)\<rparr>, snd s) = Some (r, t)"
proof (rule runDaemon_loop [of "relayerDaemon B" f s])
  fix bind r t assume "createRoundImporter (dmImport (relayerDaemon B)) = Inr bind"
    and "runDaemon (relayerDaemon B) f s = Some (r, t)"
    and "daemonLoop ((relayerDaemon B)\<lparr>dmServices := cycleServices (relayerDaemon B) bind\<rparr>) f 0
      (fst s\<lparr>softCursors := (\<lambda>_. None)\<rparr>, snd s) = Some (r, t)"
  then show thesis using that(2) by (simp add: relayer_bound)
qed (use that(1) in blast)

end
