(* ===== verification/SampleRelayer.thy ===== *)
theory SampleRelayer
  imports RelayerRuns ManagerClaims
begin

text \<open>
  A relayer for the witnesses: one consumer, that requested round 7 in block 12, a registry that has
  this round, and an empty directory for the checkpoints.
\<close>

definition sampleDeployment :: RegistryDeployment where
  "sampleDeployment =
     \<lparr>depChainId = 1, depAddress = hexId 20 53, depRuntimeCodehash = hexId 32 54, depVerifierAddress = hexId 20 55,
      depVerifierCodehash = hexId 32 56\<rparr>"

definition sampleReader :: "'w contract_reader" where
  "sampleReader a f xs b =
     ret (if f = ''isStored'' then JBool (xs = [7]) else if f = ''verifier'' then JString (hexId 20 55)
          else if f = ''verifierCodehash'' then JString (hexId 32 56) else JString (hexId 32 57))"

definition sampleContract :: "'w deployment_client" where
  "sampleContract =
     \<lparr>dcChainId = ret 1, dcGetCode = (\<lambda>a. ret (Some (if a = hexId 20 53 then hexId 32 54 else hexId 32 56))),
      dcRead = sampleReader\<rparr>"

definition sampleConsumer :: jstr where
  "sampleConsumer = hexId 20 58"

definition sampleLogs :: "'w log_reader" where
  "sampleLogs cs a b =
     ret [\<lparr>logAddress = sampleConsumer, logRound = 7, logBlock = Some 12, logTransactionHash = Some (hexId 32 59),
           logIndex = Some 0\<rparr>]"

definition sampleCheckpoints :: "'w checkpoint_env" where
  "sampleCheckpoints =
     \<lparr>ckPath = js ''cp'', ckChainId = 1, ckRegistry = hexId 20 53, ckNumbers = integerFormat,
      ckGetAddress = (\<lambda>a. Inr a), ckReplace = \<lparr>replPid = js ''1'', replUuid = ret sampleUuid\<rparr>\<rparr>"

definition sampleTools :: deployment_tools where
  "sampleTools = \<lparr>dtGetAddress = (\<lambda>a. Inr a), dtKeccak256 = (\<lambda>x. x)\<rparr>"

definition sampleCurve :: "unit g1_curve" where
  "sampleCurve =
     \<lparr>g1FromBytes = (\<lambda>_. Inr ()), g1AssertValidity = (\<lambda>_. Inr ()), g1ToBytes = (\<lambda>_. []), g1AffineY = (\<lambda>_. 0)\<rparr>"

definition sampleHttp :: "'w http_env" where
  "sampleHttp = \<lparr>htFetch = (\<lambda>_. throw (ExternalError 0)), htTimer = (\<lambda>_. ret (\<lambda>_. False)), htNumbers = integerFormat\<rparr>"

definition sampleRelayer :: "(sample_world, unit) relayer_base" where
  "sampleRelayer =
     \<lparr>rbManager = sampleManager, rbCheckpoints = sampleCheckpoints, rbClient = sampleClient, rbLogs = sampleLogs,
      rbContract = sampleContract, rbSimulate = (\<lambda>_ _. throw (ExternalError 0)),
      rbWaitReceipt = (\<lambda>_ _. throw (ExternalError 0)), rbHttp = sampleHttp, rbNow = ret 0, rbDelay = (\<lambda>_. ret ()),
      rbReadHeads = ret \<lparr>latestBlock = 20, durableBlock = 20\<rparr>, rbTools = sampleTools, rbCurve = sampleCurve,
      rbEncode = (\<lambda>_. Inr (js ''0x'')), rbDeployment = sampleDeployment, rbReceiptTimeout = None,
      rbFetchTimeout = None, rbStartBlock = 10, rbMaxRange = 100, rbFinality = SafeFinality,
      rbConsumers = [\<lparr>consumerAddress = sampleConsumer, consumerRegistry = hexId 20 53\<rparr>],
      rbPollInterval = JNum 1000, rbAborted = (\<lambda>_. False)\<rparr>"

text \<open>An empty directory, and a machine that stops at its sixth operation.\<close>

definition emptyDirectory :: "(nat \<Rightarrow> fault) \<Rightarrow> file_system" where
  "emptyDirectory faults =
     \<lparr>fsEntries = [], fsLost = (\<lambda>_. []), fsContent = (\<lambda>_. Utf8Text []), fsRegular = (\<lambda>_. True),
      fsSynced = (\<lambda>_. True), fsNext = 0, fsFaults = faults, fsClock = 0, fsDown = False\<rparr>"

definition stopsAtSixth :: "nat \<Rightarrow> fault" where
  "stopsAtSixth k = (if k = 5 then Stops else Works)"

definition sampleLocals :: cycle_locals where
  "sampleLocals =
     \<lparr>currentOperation = None, lastOperation = None, completedImports = [], incompleteRounds = [],
      reconciliationOf = None, softCursors = (\<lambda>_. None)\<rparr>"

definition sampleRelayerState :: "sample_world relayer_state" where
  "sampleRelayerState =
     (sampleLocals, None, emptyDirectory stopsAtSixth, False, sampleCycle, openCoordinator, sampleWorld)"

definition sampleRequests :: "jstr \<Rightarrow> (int \<times> int) set" where
  "sampleRequests a = (if a = sampleConsumer then {(7, 12)} else {})"

named_theorems relayer_samples \<open>the sample relayer is in order\<close>

lemma emptyDirectory_facts [relayer_samples]:
  "fsOk (emptyDirectory f)" "fileAt (emptyDirectory f) name = None" "mayFind (emptyDirectory f) name x \<longleftrightarrow> x = None"
  by (auto simp: fsOk_def emptyDirectory_def entryOf_def fileAt_def mayFind_def)

lemma sampleConfig [relayer_samples]: "properConfig sampleCheckpoints"
  by (simp add: properConfig_def sampleCheckpoints_def integerFormat_exact MAX_SAFE_INTEGER_def)

lemma sampleStoreGood [relayer_samples]:
  "storeGood K (None, emptyDirectory f, w)" "foundBy K (None, emptyDirectory f, w) = {\<lambda>_. None}"
  by (auto simp: storeGood_def foundBy_def relayer_samples decodeFile_def)

lemma sampleCovered [relayer_samples]:
  "relayerCovered sampleRelayer sampleRequests {7} sampleRelayerState"
proof -
  have "properConfig (relayerCheckpoints sampleRelayer)"
    by (simp add: properConfig_def relayerCheckpoints_def sampleRelayer_def sampleCheckpoints_def integerFormat_exact
        MAX_SAFE_INTEGER_def)
  then show ?thesis
    by (simp add: relayerCovered_def relayerGood_def relayerFound_def storeReady_def sampleRelayerState_def
        relayer_samples coveredBelow_def)
qed

lemma sampleHonest [relayer_samples]: "honestReads sampleRelayer sampleRequests {7}"
  unfolding honestReads_def completeReads_def
  by (auto simp: sampleRelayer_def sampleCheckpoints_def relayerServices_def consumerEnv_def durableEnv_def requestsRead_def
      readStored_def getQuicknetRandomnessRequests_def registryIsStored_def sampleLogs_def sampleContract_def
      sampleReader_def liftContract_def toWorld_def toManager_def onWorld_def ret_def andThen_def unlessThrow_def
      throw_def requestOf_def liftPure_def sampleRequests_def split: prod.splits sum.splits if_splits)

end
