(* ===== verification/DaemonClaims.thy ===== *)
theory DaemonClaims
  imports SampleRelayer
begin

text \<open>The properties of the daemon and of the whole relayer.\<close>

text \<open>
  C31: the daemon always ends, whatever its services do. It fails at once, with nothing changed, when its
  poll interval or a configured receipt or fetch timeout is invalid. Otherwise it ends well only when it
  was asked to stop, and with an error only when its cycle counter is exhausted, an operation was
  cancelled while it was being stopped, or its observer or its sleep failed; no failure of a recovery or
  of a consumer ends it.
\<close>

theorem daemon_ends:
  "\<exists>r t. runDaemon D onCycle s = Some (r, t) \<and>
     (if \<exists>e. startError D e then t = s \<and> (\<exists>e. r = Inl e \<and> startError D e)
      else r = Inr () \<and> dmAborted D t \<or> (\<exists>e. r = Inl e \<and> daemonError D onCycle e))"
proof (rule runDaemon_loop [of D onCycle s])
  fix bind r t assume run: "runDaemon D onCycle s = Some (r, t)" "r = Inr () \<longrightarrow> dmAborted D t" "\<nexists>e. startError D e"
    and loop: "daemonLoop (D\<lparr>dmServices := cycleServices D bind\<rparr>) onCycle 0 (fst s\<lparr>softCursors := (\<lambda>_. None)\<rparr>, snd s) =
      Some (r, t)"
  have "daemonError D onCycle e" if "r = Inl e" for e
    using daemonLoop_error [OF _ _ loop [unfolded that]] by (simp add: MAX_SAFE_INTEGER_def bound_error)
  then show ?thesis using run by (cases r) auto
qed auto

text \<open>
  C32: a cycle has one result for each consumer, in their order, however the recovery and the single
  passes fail: all consumers unless it is being stopped, and then the first few. Only a cancellation
  while it is being stopped leaves it as an error.
\<close>

theorem cycle_isolates_failures:
  "case runDaemonCycle I recover1 cs s of
     (Inr rs, t) \<Rightarrow> map consumerOf rs = cs \<or> itAborted I t \<and> prefix (map consumerOf rs) cs
   | (Inl e, t) \<Rightarrow> isOperationCancelled e (itAborted I) t"
  using runDaemonCycle_wp [of I recover1 cs s] by (simp add: wp_def cycleResults_def)

text \<open>
  C6: no request is passed over. Let every read of the chain's logs be complete for the requests on
  the chain, and every answer of the registry at a durable block that a round is stored be right. If the
  checkpoints, also those that a restart would find, stand for stored rounds when the daemon starts, they
  do so whenever it ends: for every consumer, whatever the other services do, and also when a write of
  the checkpoint file fails or the machine stops at any moment of one.
\<close>

theorem no_request_is_passed_over:
  assumes "honestReads B Q S" and "relayerCovered B Q S s"
    and "runDaemon (relayerDaemon B) None s = Some (r, t)"
  shows "relayerCovered B Q S t"
proof (rule relayer_runs [of B None s])
  fix q u assume run: "runDaemon (relayerDaemon B) None s = Some (q, u)"
    and loop: "daemonLoop (relayerDaemon B) None 0 (fst s\<lparr>softCursors := (\<lambda>_. None)\<rparr>, snd s) = Some (q, u)"
  have "relayerCovered B Q S (fst s\<lparr>softCursors := (\<lambda>_. None)\<rparr>, snd s)"
    using assms(2) by (simp add: relayerCovered_def relayerGood_def relayerFound_def)
  then show ?thesis using daemon_covers [OF assms(1), of None] loop run assms(3) by auto
qed (use assms(2,3) in auto)

theorem no_request_is_passed_over_witness:
  "\<exists>r t. runDaemon (relayerDaemon sampleRelayer) None sampleRelayerState = Some (r, t) \<and>
     relayerCovered sampleRelayer sampleRequests {7} t"
proof -
  obtain r t where "runDaemon (relayerDaemon sampleRelayer) None sampleRelayerState = Some (r, t)"
    by (rule relayer_runs [of sampleRelayer None sampleRelayerState])
  with no_request_is_passed_over [OF sampleHonest sampleCovered this] show ?thesis by blast
qed

text \<open>The state of the coordinator in that of the relayer.\<close>

definition coordinatorOf :: "'w relayer_state \<Rightarrow> 'w cstate" where
  "coordinatorOf s = snd (snd (managerOf s))"

text \<open>
  C33: all that the daemon does with the signer is a run of the coordinator's state machine, from the
  state it finds to the state it leaves, so that everything proved of those runs holds of the program;
  and the import of one round prepares at most one attempt and sends at most two transactions.
\<close>

theorem relayer_runs_the_coordinator:
  "(\<exists>r t ls. runDaemon (relayerDaemon B) None s = Some (r, t) \<and>
      coRun (mgrCoordinator (rbManager B)) (coordinatorOf s) ls (coordinatorOf t)) \<and>
   (\<exists>ls. coRun (mgrCoordinator (rbManager B)) (coordinatorOf s) ls
        (coordinatorOf (snd (importRound (relayerImport B n (\<lambda>_. ret ())) q s))) \<and>
      length (preparedIn ls) \<le> 1 \<and> length (sentIn ls) \<le> 2)"
proof
  let ?D = "relayerDaemon B" and ?E = "mgrCoordinator (rbManager B)"
  show "\<exists>r t ls. runDaemon ?D None s = Some (r, t) \<and> coRun ?E (coordinatorOf s) ls (coordinatorOf t)"
  proof (rule relayer_runs [of B None s])
    fix r t assume l: "runDaemon ?D None s = Some (r, t)"
      "daemonLoop ?D None 0 (fst s\<lparr>softCursors := (\<lambda>_. None)\<rparr>, snd s) = Some (r, t)"
    obtain p n where "managerRun ?E p n (managerOf s) (managerOf t)"
      using daemon_run [OF _ l(2)] by (auto simp: managerOf_def)
    then show ?thesis using l(1) by (auto simp: managerRun_def cycleRun_def boundedRun_def coordinatorOf_def)
  next
    fix e assume "runDaemon ?D None s = Some (Inl e, s)"
    then show ?thesis using coRun.stop [of ?E "coordinatorOf s"] by blast
  qed
  obtain x v where run: "importRound (relayerImport B n (\<lambda>_. ret ())) q s = (x, v)"
    by (cases "importRound (relayerImport B n (\<lambda>_. ret ())) q s")
  have "relayerRun (mgrCoordinator (rbManager B)) 1 2 s v"
    by (rule stepsInD [OF relayer_steps.graded_import [OF relayer_run_steps running.in_ret] run])
  then show "\<exists>ls. coRun (mgrCoordinator (rbManager B)) (coordinatorOf s) ls
        (coordinatorOf (snd (importRound (relayerImport B n (\<lambda>_. ret ())) q s))) \<and>
      length (preparedIn ls) \<le> 1 \<and> length (sentIn ls) \<le> 2"
    by (simp add: run relayerRun_def managerRun_def cycleRun_def boundedRun_def coordinatorOf_def)
qed

end
