(* ===== verification/JournalFile.thy ===== *)
theory JournalFile
  imports CheckpointFile Persistence
begin

text \<open>
  \<^verbatim>\<open>state/file-transaction-journal-store.ts\<close> and \<^verbatim>\<open>state/read-file-prefix.ts\<close>: the journal in a file. The
  operations of a store run one after the other (\<^verbatim>\<open>exclusive\<close>), so each is a computation on the files. A
  path stands for its name in the state directory, which has no symbolic links.
\<close>

subsection \<open>Reading a bounded prefix\<close>

text \<open>
  A read is told where in the buffer and in the file to read, and for how many bytes; it returns the
  bytes it put there, none at the end of the file. The buffer is what has been read so far.
\<close>

type_synonym ('s, 'b) read_bytes = "nat \<Rightarrow> nat \<Rightarrow> nat \<Rightarrow> ('s, 'b list) io"

function (sequential) readPrefixFrom :: "('s, 'b) read_bytes \<Rightarrow> nat \<Rightarrow> 'b list \<Rightarrow> ('s, 'b list) io" where
  "readPrefixFrom read maxBytes buffer =
     (if length buffer < maxBytes
      then andThen (read (length buffer) (maxBytes - length buffer) (length buffer)) (\<lambda>bytesRead.
           if bytesRead = [] then ret buffer else readPrefixFrom read maxBytes (buffer @ bytesRead))
      else ret buffer)"
  by pat_completeness auto
termination
  by (relation "measure (\<lambda>(read, maxBytes, buffer). maxBytes - length buffer)") (auto simp: neq_Nil_conv)

declare readPrefixFrom.simps [simp del]

definition readFilePrefix :: "('s, 'b) read_bytes \<Rightarrow> nat \<Rightarrow> ('s, 'b list) io" where
  "readFilePrefix read maxBytes = readPrefixFrom read maxBytes []"

text \<open>
  However short the single reads of a file with the given bytes are, the prefix has all bytes up to
  the limit.
\<close>

lemma readPrefixFrom_wp:
  assumes read: "\<And>n k s. 0 < k \<Longrightarrow> wp (read n k n)
      (\<lambda>bs _. \<exists>j. bs = take j (drop n content) \<and> j \<le> k \<and> (bs = [] \<longrightarrow> length content \<le> n)) (\<lambda>_ _. True) s"
  shows "buffer = take (length buffer) content \<Longrightarrow> length buffer \<le> maxBytes \<Longrightarrow>
    wp (readPrefixFrom read maxBytes buffer) (\<lambda>bs _. bs = take maxBytes content) (\<lambda>_ _. True) s"
proof (induction "maxBytes - length buffer" arbitrary: buffer s rule: less_induct)
  case (less buffer s)
  let ?n = "length buffer"
  show ?case
  proof (cases "?n < maxBytes")
    case True
    have next_part: "wp (if bs = [] then ret buffer else readPrefixFrom read maxBytes (buffer @ bs))
        (\<lambda>bs _. bs = take maxBytes content) (\<lambda>_ _. True) t"
      if bs: "bs = take j (drop ?n content)" "j \<le> maxBytes - ?n" "bs = [] \<longrightarrow> length content \<le> ?n" for bs j t
    proof (cases "bs = []")
      case True
      then have "length content \<le> ?n" using bs(3) by simp
      then have "take maxBytes content = content" "take ?n content = content" using \<open>?n < maxBytes\<close> by simp_all
      then have "buffer = take maxBytes content" using less.prems(1) by metis
      with True show ?thesis by (simp add: wp_simps)
    next
      case False
      have le: "length bs \<le> maxBytes - ?n" using bs(1,2) by simp
      have "buffer @ bs = take (?n + j) content" using less.prems(1) bs(1) by (metis take_add)
      then have "buffer @ bs = take (length (buffer @ bs)) content" by (auto simp: min_def)
      moreover have "maxBytes - length (buffer @ bs) < maxBytes - ?n" using False True by (cases bs) auto
      moreover have "length (buffer @ bs) \<le> maxBytes" using le True by simp
      ultimately have "wp (readPrefixFrom read maxBytes (buffer @ bs)) (\<lambda>bs _. bs = take maxBytes content) (\<lambda>_ _. True) t"
        using less.hyps [of "buffer @ bs" t] by blast
      with False show ?thesis by simp
    qed
    show ?thesis
      unfolding readPrefixFrom.simps [of read maxBytes buffer]
      using True by (auto simp: wp_andThen intro!: wp_mono [OF read [of "maxBytes - ?n" ?n s]] next_part)
  next
    case False
    then have "buffer = take maxBytes content" using less.prems by simp
    with False show ?thesis by (simp add: readPrefixFrom.simps wp_simps)
  qed
qed

subsection \<open>The store\<close>

record 'w journal_file_env =
  jfPath :: jstr
  jfIdentity :: JournalIdentity
  jfBounds :: "JournalBounds option"
  jfHook :: "'w boundary_hook"
  jfNumbers :: number_format
  jfViem :: viem
  jfReplace :: "'w replace_env"

text \<open>The constructor, on the options: the environment of the store it makes.\<close>

definition newJournalStore :: "'w journal_file_env \<Rightarrow> exn + 'w journal_file_env" where
  "newJournalStore options =
     checkE (jfPath options \<noteq> []) (TypeError ''Invalid journal file path.'') (\<lambda>_.
     bindE (case jfBounds options of None \<Rightarrow> Inr () | Some b \<Rightarrow> validateJournalBounds b) (\<lambda>_.
     bindE (captureJournalIdentity (JNum (of_int (chainId (jfIdentity options)))) (JString (signer (jfIdentity options)))) (\<lambda>i.
     Inr (options\<lparr>jfIdentity := i\<rparr>))))"

subsection \<open>File operations\<close>

datatype journal_file_operation = JOpen | JStat | JRead | JClose

fun operationText :: "journal_file_operation \<Rightarrow> string" where
  "operationText JOpen = ''open''"
| "operationText JStat = ''stat''"
| "operationText JRead = ''read''"
| "operationText JClose = ''close''"

definition FILE_ERROR_CODES :: "string list" where
  "FILE_ERROR_CODES =
     [''EACCES'', ''EAGAIN'', ''EBADF'', ''EINTR'', ''EIO'', ''EISDIR'', ''ELOOP'', ''EMFILE'', ''ENFILE'',
      ''ENOENT'', ''ENOTDIR'', ''EPERM'']"

text \<open>
  The message and the code of the error that replaces any other: of the original only a code of the
  list is kept. As an exception, an error with a message and a code is \<open>CausedError\<close> of the two.
\<close>

definition fileOperationError :: "journal_file_operation \<Rightarrow> exn \<Rightarrow> string \<times> string option" where
  "fileOperationError oper cause =
     (let code = (case cause of NodeError c \<Rightarrow> (if c \<in> set FILE_ERROR_CODES then Some c else None) | _ \<Rightarrow> None) in
      (case code of
         None \<Rightarrow> ''Journal file '' @ operationText oper @ '' failed.''
       | Some c \<Rightarrow> ''Journal file '' @ operationText oper @ '' failed ('' @ c @ '').'', code))"

definition fileError :: "string \<times> string option \<Rightarrow> exn" where
  "fileError failure =
     (case failure of (message, code) \<Rightarrow>
        case code of None \<Rightarrow> PlainError message | Some c \<Rightarrow> CausedError message (NodeError c))"

definition fileOperation :: "journal_file_operation \<Rightarrow> (file_system, 'a) io \<Rightarrow> (file_system, 'a) io" where
  "fileOperation oper action = tryCatch action (\<lambda>cause. throw (fileError (fileOperationError oper cause)))"

text \<open>The cleanup of \<^verbatim>\<open>try\<close>: closing, whose failure does not replace an earlier one.\<close>

definition thenClose :: "('s, 'a) io \<Rightarrow> ('s, unit) io \<Rightarrow> ('s, 'a) io" where
  "thenClose m close =
     (\<lambda>s. case m s of
        (Inl e, t) \<Rightarrow> (case close t of (_, u) \<Rightarrow> (Inl e, u))
      | (Inr x, t) \<Rightarrow> (case close t of (Inl e, u) \<Rightarrow> (Inl e, u) | (Inr _, u) \<Rightarrow> (Inr x, u)))"

text \<open>\<^verbatim>\<open>TextDecoder\<close>: bytes that are no UTF-8 are an error, and one byte order mark at the start is dropped.\<close>

definition dropMark :: "jstr \<Rightarrow> jstr" where
  "dropMark s = (case s of [] \<Rightarrow> [] | u # r \<Rightarrow> if u = 0xFEFF then r else s)"

fun decodeFileText :: "file_content \<Rightarrow> exn + jstr" where
  "decodeFileText (Utf8Text s) = Inr (dropMark s)"
| "decodeFileText (OtherBytes n t) = Inl (PlainError ''Journal file contains invalid UTF-8.'')"

text \<open>
  \<open>fsRead\<close> stands for the reads of \<open>readFilePrefix\<close>, which return the whole file up to one byte past the
  limit: a longer one is refused in either case.
\<close>

definition readBoundedJournal :: "jstr \<Rightarrow> (file_system, jstr option) io" where
  "readBoundedJournal path =
     andThen (tryCatch (andThen (fsOpen path) (\<lambda>i. ret (Some i)))
       (\<lambda>cause.
          let failure = fileOperationError JOpen cause in
          if snd failure = Some ''ENOENT'' then ret None else throw (fileError failure))) (\<lambda>file.
     case file of
       None \<Rightarrow> ret None
     | Some i \<Rightarrow>
         thenClose
           (andThen (fileOperation JStat (fsStat i)) (\<lambda>stat.
            andThen (unlessThrow (statIsFile stat) (PlainError ''Journal path is not a regular file.'')) (\<lambda>_.
            andThen (unlessThrow (statLinks stat = 1) (PlainError ''Journal file must have exactly one hard link.'')) (\<lambda>_.
            andThen (unlessThrow (statSize stat \<le> MAX_JOURNAL_BYTES) (PlainError ''Journal file exceeds its size limit.'')) (\<lambda>_.
            andThen (fileOperation JRead (fsRead i)) (\<lambda>buffer.
            andThen (unlessThrow (contentSize buffer \<le> MAX_JOURNAL_BYTES) (PlainError ''Journal file exceeds its size limit.'')) (\<lambda>_.
            andThen (liftPure (decodeFileText buffer)) (\<lambda>t. ret (Some t)))))))))
           (fileOperation JClose fsNothing))"

subsection \<open>Operations of the store\<close>

definition decodeContents :: "'w journal_file_env \<Rightarrow> jstr option \<Rightarrow> exn + TransactionJournalRead" where
  "decodeContents K contents =
     (case contents of
        None \<Rightarrow> Inr Missing
      | Some t \<Rightarrow>
          bindE (withCause ''Transaction journal could not be decoded.''
            (decodeJournalSnapshot (jfNumbers K) (jfViem K) t (jfIdentity K))) (\<lambda>snapshot.
          bindE (case jfBounds K of
              None \<Rightarrow> Inr ()
            | Some b \<Rightarrow> bindE (inspectJournalBounds snapshot b) (\<lambda>violations.
                checkE (violations = []) (boundsExceededError violations) (\<lambda>_. Inr ()))) (\<lambda>_.
          Inr (Present snapshot))))"

definition loadJournalFile :: "'w journal_file_env \<Rightarrow> ('w files, TransactionJournalRead) io" where
  "loadJournalFile K =
     onFiles (andThen (tryCatch (readBoundedJournal (jfPath K))
         (\<lambda>cause. throw (CausedError ''Transaction journal could not be loaded.'' cause))) (\<lambda>contents.
       liftPure (decodeContents K contents)))"

abbreviation JOURNAL_NOT_PERSISTED :: exn where
  "JOURNAL_NOT_PERSISTED \<equiv>
     PlainError ''Journal persistence did not complete. The on-disk outcome may be uncertain.''"

definition saveJournalFile :: "'w journal_file_env \<Rightarrow> TransactionJournalSnapshot \<Rightarrow> ('w files, unit) io" where
  "saveJournalFile K snapshot =
     tryCatch
       (andThen (liftPure (validateSnapshot snapshot (jfIdentity K))) (\<lambda>captured.
        andThen (liftPure (encodeJournalSnapshot (jfNumbers K) (jfViem K) captured (jfIdentity K))) (\<lambda>contents.
        durableReplace (jfReplace K) (jfHook K) (jfPath K) contents)))
       (\<lambda>_. throw JOURNAL_NOT_PERSISTED)"

definition readJournalFile :: "'w journal_file_env \<Rightarrow> ('w files, TransactionJournalRead) io" where
  "readJournalFile options = andThen (liftPure (newJournalStore options)) loadJournalFile"

text \<open>
  Opening makes what is found durable again: an earlier process may have stopped between the rename
  and the synchronisation of the directory.
\<close>

definition openJournalFile :: "'w journal_file_env \<Rightarrow> ('w files, 'w journal_file_env) io" where
  "openJournalFile options =
     andThen (liftPure (newJournalStore options)) (\<lambda>K.
     andThen (loadJournalFile K) (\<lambda>current.
     andThen (tryCatch (onFiles (removeCheckpointTempFiles (jfPath K)))
       (\<lambda>_. throw (PlainError ''Journal temporary-file cleanup failed.''))) (\<lambda>_.
     andThen (case current of Missing \<Rightarrow> ret () | Present snapshot \<Rightarrow> saveJournalFile K snapshot) (\<lambda>_.
     ret K))))"

text \<open>The store as the interface of the journal persistence.\<close>

definition fileJournalStore :: "'w journal_file_env \<Rightarrow> 'w files journal_store" where
  "fileJournalStore K = \<lparr>loadJournal = loadJournalFile K, saveJournal = saveJournalFile K\<rparr>"

end
