(* ===== verification/JournalFileProofs.thy ===== *)
theory JournalFileProofs
  imports JournalFile CheckpointFileProofs
begin

text \<open>
  What the journal file holds and what a restart may find in it, through saves, failures and stops;
  and with the latch of the journal persistence in front of it.
\<close>

subsection \<open>The text of the file\<close>

text \<open>What a file with the given content, or no file, stands for, whatever the bounds of the store are.\<close>

definition journalIn :: "'w journal_file_env \<Rightarrow> file_content option \<Rightarrow> exn + TransactionJournalRead" where
  "journalIn K x =
     (case x of
        None \<Rightarrow> Inr Missing
      | Some c \<Rightarrow>
          if MAX_JOURNAL_BYTES < contentSize c then Inl (PlainError ''Journal file exceeds its size limit.'')
          else bindE (decodeFileText c) (\<lambda>t. decodeContents (K\<lparr>jfBounds := None\<rparr>) (Some t)))"

definition admits :: "'w journal_file_env \<Rightarrow> TransactionJournalRead \<Rightarrow> bool" where
  "admits K r =
     (case (r, jfBounds K) of (Present s, Some b) \<Rightarrow> inspectJournalBounds s b = Inr [] | _ \<Rightarrow> True)"

lemma encoded_text:
  assumes N: "exactIntegers N" and e: "encodeJournalSnapshot N V s i = Inr c"
  shows "toWellFormed c = c" and "dropMark c = c" and "utf8Length c \<le> MAX_JOURNAL_BYTES"
proof -
  have c: "c = stringify N (embSnapshot s) @ [10]" and wf: "wfSnapshot i s"
    and b: "requireBoundedContents c = Inr ()"
    using e by (auto simp: encodeJournalSnapshot_def bindE_Inr validate_emb Let_def dest: verifyJournalSnapshot_emb)
  obtain j where j: "toJson (embSnapshot s) = Some j" "plainJson j"
    using snapshot_text(1) [OF wf] by (auto simp: printable_def split: option.splits)
  have t: "c = printJson N j @ [10]" using j by (simp add: c stringify_def)
  show "toWellFormed c = c"
    unfolding t using printJson_wellFormed [OF N j(2)] isWellFormed_append [of _ "[10]"] by (simp add: toWellFormed_id)
  show "dropMark c = c"
    using j(1) by (auto simp: t embSnapshot_def obj_def dropMark_def split: option.splits)
  show "utf8Length c \<le> MAX_JOURNAL_BYTES" using b by (simp add: requireBoundedContents_def checkE_Inr)
qed

text \<open>A snapshot that was written reads back, and only verified ones of the identity are ever read.\<close>

lemma journal_written:
  assumes N: "exactIntegers (jfNumbers K)" and e: "encodeJournalSnapshot (jfNumbers K) (jfViem K) s (jfIdentity K) = Inr c"
  shows "journalIn K (Some (newContent c)) = Inr (Present s)"
  using encoded_text [OF N e] decode_encode [OF N e]
  by (simp add: journalIn_def newContent_def decodeContents_def withCause_def)

lemma journalIn_verified: "journalIn K x = Inr (Present s) \<Longrightarrow> wfSnapshot (jfIdentity K) s"
proof -
  assume "journalIn K x = Inr (Present s)"
  then obtain t where "decodeJournalSnapshot (jfNumbers K) (jfViem K) t (jfIdentity K) = Inr s"
    unfolding journalIn_def decodeContents_def withCause_def bindE_Inr
    by (cases x) (auto simp: bindE_Inr split: if_splits sum.splits prod.splits; metis sum.exhaust)+
  then show ?thesis using decode_verified by blast
qed

lemma decodeContents_bounds:
  "decodeContents K x = Inr r \<longleftrightarrow> decodeContents (K\<lparr>jfBounds := None\<rparr>) x = Inr r \<and> admits K r"
proof (cases x)
  case (Some t)
  then show ?thesis
    by (cases "decodeJournalSnapshot (jfNumbers K) (jfViem K) t (jfIdentity K)"; cases "jfBounds K")
      (auto simp: decodeContents_def withCause_def admits_def bindE_Inr checkE_Inr)
qed (cases r; simp add: decodeContents_def admits_def)

subsection \<open>Reading\<close>

lemma wp_thenClose:
  "wp (thenClose m close) Q E s =
     wp m (\<lambda>x. wp close (\<lambda>_. Q x) E) (\<lambda>e. wp close (\<lambda>_. E e) (\<lambda>_. E e)) s"
  by (auto simp: wp_def thenClose_def split: prod.splits sum.splits)

lemma wp_fileOperation:
  "wp (fileOperation oper action) Q E s =
     wp action Q (\<lambda>e. E (fileError (fileOperationError oper e))) s"
  by (simp add: fileOperation_def wp_simps)

lemma missing_code:
  "snd (fileOperationError oper e) = Some ''ENOENT'' \<longleftrightarrow> e = NodeError ''ENOENT''"
  by (cases e) (auto simp: fileOperationError_def Let_def FILE_ERROR_CODES_def)

definition contentsAt :: "file_content option \<Rightarrow> jstr option \<Rightarrow> bool" where
  "contentsAt x t =
     (case x of None \<Rightarrow> t = None
      | Some c \<Rightarrow> contentSize c \<le> MAX_JOURNAL_BYTES \<and> (\<exists>u. t = Some u \<and> decodeFileText c = Inr u))"

lemma readBoundedJournal_wp:
  "wp (readBoundedJournal path) (\<lambda>t h. onlyClock fs h \<and> contentsAt (fileAt fs path) t) (\<lambda>_ h. onlyClock fs h) fs"
proof -
  have close: "wp fsNothing (\<lambda>_ u. Q u) (\<lambda>_ u. onlyClock fs u) u"
    if "onlyClock fs u" "\<And>h. onlyClock fs h \<Longrightarrow> Q h" for Q u
    unfolding fsNothing_def by (rule reading_rule [OF that(1)]) (use that in auto)
  show ?thesis
    unfolding readBoundedJournal_def wp_andThen wp_tryCatch Let_def fsOpen_def
    apply (rule reading_rule [OF onlyClock_refl])
     apply (auto split: option.splits
        simp: wp_simps wp_thenClose wp_fileOperation missing_code onlyClock_same fileAt_def fsRead_def fsStat_def contentsAt_def
        intro!: reading_rule [where fs = fs] close)
    subgoal for h i ha hb
      by (cases "decodeFileText (fsContent fs i)")
        (auto simp: wp_fileOperation intro!: close)
    done
qed

lemma decodeContents_none: "decodeContents K None = Inr Missing" "admits K Missing"
  by (simp_all add: decodeContents_def admits_def)

lemma loadJournalFile_wp:
  "wp (loadJournalFile K)
     (\<lambda>r (h, v). onlyClock fs h \<and> v = w \<and> journalIn K (fileAt fs (jfPath K)) = Inr r \<and> admits K r)
     (\<lambda>_ (h, v). onlyClock fs h \<and> v = w) (fs, w)"
  unfolding loadJournalFile_def wp_onFiles
  unfolding wp_andThen wp_tryCatch
  apply (rule wp_mono [OF readBoundedJournal_wp [of "jfPath K" fs]])
   apply (auto simp: wp_simps contentsAt_def journalIn_def bindE_Inr decodeContents_bounds [of K] decodeContents_none split: option.splits sum.splits)
  done

subsection \<open>Saving\<close>

text \<open>What a restart may read, for a store on the files.\<close>

definition journalsFound :: "'w journal_file_env \<Rightarrow> 'w files \<Rightarrow> (exn + TransactionJournalRead) set" where
  "journalsFound K s = (case s of (fs, _) \<Rightarrow> journalIn K ` {x. mayFind fs (jfPath K) x})"

lemma journal_now: "journalIn K (fileAt fs (jfPath K)) \<in> journalsFound K (fs, w)"
  using mayFind_now by (auto simp: journalsFound_def)

lemma journalsFound_same: "samePath (jfPath K) fs gs \<Longrightarrow> journalsFound K (gs, v) = journalsFound K (fs, w)"
  by (simp add: journalsFound_def samePath_def)

lemma saveJournalFile_wp:
  assumes N: "exactIntegers (jfNumbers K)" and ok: "fsOk fs"
  shows "wp (saveJournalFile K s)
    (\<lambda>_ t. fsOk (fst t) \<and> journalsFound K t = {Inr (Present s)})
    (\<lambda>_ t. fsOk (fst t) \<and> journalsFound K t \<subseteq> insert (Inr (Present s)) (journalsFound K (fs, w)))
    (fs, w)"
proof -
  let ?E = "\<lambda>_ t. fsOk (fst t) \<and> journalsFound K t \<subseteq> insert (Inr (Present s)) (journalsFound K (fs, w))"
  have "wp (durableReplace (jfReplace K) (jfHook K) (jfPath K) c)
      (\<lambda>_ t. fsOk (fst t) \<and> journalsFound K t = {Inr (Present s)}) ?E (fs, w)"
    if c: "encodeJournalSnapshot (jfNumbers K) (jfViem K) s (jfIdentity K) = Inr c" for c
  proof (rule wpI)
    fix u t assume run: "durableReplace (jfReplace K) (jfHook K) (jfPath K) c (fs, w) = (Inr u, t)"
    obtain gs v where t: "t = (gs, v)" by (cases t)
    note r = durableReplace_result [OF ok run [unfolded t]]
    show "fsOk (fst t) \<and> journalsFound K t = {Inr (Present s)}"
      using r(1,5) journal_now [of K gs v] r(4) journal_written [OF N c]
      by (auto simp: t journalsFound_def)
  next
    fix e t assume run: "durableReplace (jfReplace K) (jfHook K) (jfPath K) c (fs, w) = (Inl e, t)"
    obtain gs v where t: "t = (gs, v)" by (cases t)
    note r = durableReplace_result [OF ok run [unfolded t]]
    have "journalsFound K t \<subseteq> insert (Inr (Present s)) (journalsFound K (fs, w))"
      using r(3) journal_written [OF N c] by (fastforce simp: t journalsFound_def)
    then show "?E e t" using r(1) by (simp add: t)
  qed
  then show ?thesis
    using ok unfolding saveJournalFile_def wp_tryCatch wp_throw
    by (auto simp: wp_simps split: sum.splits dest: validate_emb_same)
qed

subsection \<open>Opening\<close>

lemma newJournalStore_same: "newJournalStore options = Inr K \<Longrightarrow> K = options"
  by (auto simp: newJournalStore_def captureJournalIdentity_def bindE_Inr checkE_Inr)

text \<open>
  An opened store has nothing on disk but what it loaded, if what the directory still holds under the
  path of an absent journal is nothing.
\<close>

lemma openJournalFile_wp:
  assumes N: "exactIntegers (jfNumbers K)" and ok: "fsOk fs"
  shows "wp (openJournalFile K)
    (\<lambda>S t. S = K \<and> fsOk (fst t) \<and> (\<exists>r. journalIn K (fileAt fs (jfPath K)) = Inr r \<and> admits K r \<and>
       journalsFound K t = (if r = Missing then journalsFound K (fs, w) else {Inr r})))
    (\<lambda>_ t. fsOk (fst t) \<and> journalsFound K t \<subseteq> journalsFound K (fs, w)) (fs, w)"
proof -
  let ?E = "\<lambda>_ t. fsOk (fst t) \<and> journalsFound K t \<subseteq> journalsFound K (fs, w)"
  have same: "?E e (h, v)" if "samePath (jfPath K) fs h" for e h v
    using that ok journalsFound_same [OF that, of v w] by (simp add: samePath_def)
  have remove: "wp (removeCheckpointTempFiles (jfPath K)) (\<lambda>_. samePath (jfPath K) fs) (\<lambda>_. samePath (jfPath K) fs) h"
    if "samePath (jfPath K) fs h" for h
    by (rule wpI) (use stepsInD [OF pathKept_remove] that in \<open>auto simp: pathKept_def intro: samePath_trans\<close>)
  have again: "wp (case r of Missing \<Rightarrow> ret () | Present s \<Rightarrow> saveJournalFile K s)
      (\<lambda>_ t. fsOk (fst t) \<and> journalsFound K t = (if r = Missing then journalsFound K (fs, w) else {Inr r})) ?E (h, v)"
    if r: "journalIn K (fileAt fs (jfPath K)) = Inr r" and h: "samePath (jfPath K) fs h" for r h v
  proof (cases r)
    case Missing
    then show ?thesis using same [OF h] journalsFound_same [OF h, of v w] by (simp add: wp_simps)
  next
    case (Present s)
    have okh: "fsOk h" using h ok by (simp add: samePath_def)
    have "Inr (Present s) \<in> journalsFound K (fs, w)" using journal_now [of K fs w] r Present by simp
    with Present show ?thesis
      by (auto intro!: wp_mono [OF saveJournalFile_wp [OF N okh]] simp: journalsFound_same [OF h, of v w])
  qed
  have clean: "wp (tryCatch (onFiles (removeCheckpointTempFiles (jfPath K))) (\<lambda>_. throw x))
      (\<lambda>_ t. \<exists>h. t = (h, v) \<and> samePath (jfPath K) fs h) ?E (h, v)" if "samePath (jfPath K) fs h" for h v x
    unfolding wp_tryCatch wp_onFiles wp_throw
    by (rule wp_mono [OF remove [OF that]]) (use same in auto)
  have "newJournalStore K = Inr K \<or> (\<exists>e. newJournalStore K = Inl e)"
    using newJournalStore_same by (cases "newJournalStore K") auto
  then show ?thesis
  proof
    assume "newJournalStore K = Inr K"
    then show ?thesis
      unfolding openJournalFile_def
      apply (simp add: wp_andThen wp_liftPure)
      apply (rule wp_mono [OF loadJournalFile_wp [of K fs w]])
       apply clarsimp
       apply (rule wp_mono [OF clean [OF onlyClock_same(1)]])
         apply assumption
        apply clarsimp
        apply (rule wp_mono [OF again])
           apply assumption+
         apply (auto simp: wp_simps)[1]
        apply blast
       apply blast
      apply (clarsimp intro!: same [unfolded atomize_conj] onlyClock_same(1))
      done
  next
    assume "\<exists>e. newJournalStore K = Inl e"
    then show ?thesis using ok by (auto simp: openJournalFile_def wp_simps)
  qed
qed

subsection \<open>Behind the latch\<close>

text \<open>
  The latch in front of a store that may be found, after a stop, with any of the values of \<open>found\<close>:
  \<open>seen\<close> is what a restart makes of a value, or of none.
\<close>

locale latched_store = write_latch saveOp retryOp committed latched
  for saveOp :: "'v \<Rightarrow> 's \<Rightarrow> (exn + unit) \<times> 's"
    and retryOp :: "'s \<Rightarrow> (exn + unit) \<times> 's"
    and committed :: "'s \<Rightarrow> 'v option"
    and latched :: "'s \<Rightarrow> 'v option" +
  fixes sound :: "'s \<Rightarrow> bool"
    and found :: "'s \<Rightarrow> 'x set"
    and seen :: "'v option \<Rightarrow> 'x"
  assumes save_found: "sound s \<Longrightarrow> saveOp v s = (Inr (), t) \<Longrightarrow> sound t \<and> found t \<subseteq> {seen (Some v)}"
    and save_kept: "sound s \<Longrightarrow> saveOp v s = (Inl e, t) \<Longrightarrow>
      sound t \<and> (found t \<subseteq> found s \<or> latched t = Some v \<and> found t \<subseteq> insert (seen (Some v)) (found s))"
    and retry_found: "sound s \<Longrightarrow> retryOp s = (Inr (), t) \<Longrightarrow> sound t \<and> found t \<subseteq> {seen (latched s)}"
    and retry_kept: "sound s \<Longrightarrow> retryOp s = (Inl e, t) \<Longrightarrow>
      sound t \<and> (found t \<subseteq> found s \<or> latched s \<noteq> None \<and> found t \<subseteq> insert (seen (latched s)) (found s))"
begin

text \<open>What is accounted for: the committed value, and the one that is still to be retried.\<close>

definition accounted :: "'s \<Rightarrow> 'x set" where
  "accounted s = insert (seen (committed s)) (seen ` Some ` set_option (latched s))"

lemma save_accounted:
  assumes s: "sound s" "found s \<subseteq> accounted s" and run: "saveOp v s = (r, t)"
  shows "sound t \<and> found t \<subseteq> accounted t"
proof (cases r)
  case (Inr u)
  then show ?thesis using save_found [OF s(1), of v t] save_ok [of v s t] run by (simp add: accounted_def)
next
  case (Inl e)
  have kept: "sound t" "found t \<subseteq> found s \<or> latched t = Some v \<and> found t \<subseteq> insert (seen (Some v)) (found s)"
    using save_kept [OF s(1)] run Inl by blast+
  have "accounted s \<subseteq> accounted t" using save_fail [of v s e t] run Inl by (auto simp: accounted_def)
  moreover have "seen (Some v) \<in> accounted t" if "latched t = Some v" using that by (simp add: accounted_def)
  ultimately show ?thesis using kept s(2) by blast
qed

lemma retry_accounted:
  assumes s: "sound s" "found s \<subseteq> accounted s" and run: "retryOp s = (r, t)"
  shows "sound t \<and> found t \<subseteq> accounted t"
proof (cases r)
  case (Inr u)
  then show ?thesis using retry_found [OF s(1), of t] retry_ok [of s t] run by (simp add: accounted_def)
next
  case (Inl e)
  have kept: "sound t" "found t \<subseteq> found s \<or> latched s \<noteq> None \<and> found t \<subseteq> insert (seen (latched s)) (found s)"
    using retry_kept [OF s(1)] run Inl by blast+
  have "accounted t = accounted s" using retry_fail [of s e t] run Inl by (simp add: accounted_def)
  moreover have "seen (latched s) \<in> accounted s" if "latched s \<noteq> None" using that by (auto simp: accounted_def)
  ultimately show ?thesis using kept s(2) by blast
qed

lemma runWrites_accounted:
  "sound s \<Longrightarrow> found s \<subseteq> accounted s \<Longrightarrow>
    sound (runWrites ops s) \<and> found (runWrites ops s) \<subseteq> accounted (runWrites ops s)"
proof (induction ops arbitrary: s)
  case (Cons x ops)
  show ?case
  proof (cases x)
    case None
    then show ?thesis
      using Cons retry_accounted [OF Cons.prems, of "fst (retryOp s)" "snd (retryOp s)"] by simp
  next
    case (Some v)
    then show ?thesis
      using Cons save_accounted [OF Cons.prems, of v "fst (saveOp v s)" "snd (saveOp v s)"] by simp
  qed
qed simp

end

text \<open>What the operations of the persistence do to the world: one save of the store, or nothing.\<close>

lemma savePersistence_world:
  assumes "savePersistence V S s (p, w) = (r, (q, v))"
  shows "(\<exists>e. r = Inl e) \<and> v = w \<or>
    (\<exists>x. saveJournal S s w = (x, v) \<and> (r = Inr () \<longleftrightarrow> x = Inr ()) \<and>
       (x \<noteq> Inr () \<longrightarrow> latchedSnapshot (q, v) = Some s))"
proof -
  have "wp (savePersistence V S s)
      (\<lambda>_ (_, v). saveJournal S s w = (Inr (), v))
      (\<lambda>_ (q, v). v = w \<or> (\<exists>e. saveJournal S s w = (Inl e, v) \<and> latchedSnapshot (q, v) = Some s)) (p, w)"
    by (auto simp: savePersistence_def persistPending_def wp_simps verify_same latchedSnapshot_def
        intro!: wpI split: sum.splits)
  then show ?thesis using assms by (cases r) (auto dest: wp_Inl wp_Inr)
qed

lemma retryPersistence_world:
  assumes "retryPersistenceWrite S (p, w) = (r, (q, v))"
  shows "(\<exists>e. r = Inl e) \<and> v = w \<or>
    (\<exists>x s. saveJournal S s w = (x, v) \<and> (r = Inr () \<longleftrightarrow> x = Inr ()) \<and> latchedSnapshot (p, w) = Some s)"
proof -
  have "wp (retryPersistenceWrite S)
      (\<lambda>_ (_, v). \<exists>s. saveJournal S s w = (Inr (), v) \<and> latchedSnapshot (p, w) = Some s)
      (\<lambda>_ (_, v). v = w \<or> (\<exists>e s. saveJournal S s w = (Inl e, v) \<and> latchedSnapshot (p, w) = Some s)) (p, w)"
    by (cases "stateValue p"; cases "pendingSnapshot p")
      (auto simp: retryPersistenceWrite_def persistPending_def wp_simps latchedSnapshot_def intro!: wpI)
  then show ?thesis using assms by (cases r) (auto dest: wp_Inl wp_Inr)
qed

definition restartSees :: "TransactionJournalSnapshot option \<Rightarrow> exn + TransactionJournalRead" where
  "restartSees s = Inr (case s of None \<Rightarrow> Missing | Some s \<Rightarrow> Present s)"

definition soundFiles :: "'w journal_file_env \<Rightarrow> JournalPersistence \<times> 'w files \<Rightarrow> bool" where
  "soundFiles K x = (exactIntegers (jfNumbers K) \<and> fsOk (fst (snd x)))"

lemma saveJournalFile_result:
  assumes "soundFiles K (p, w)" "saveJournalFile K s w = (x, v)"
  shows "soundFiles K (q, v)"
    and "x = Inr () \<Longrightarrow> journalsFound K v = {restartSees (Some s)}"
    and "journalsFound K v \<subseteq> insert (restartSees (Some s)) (journalsFound K w)"
proof -
  obtain fs u where w: "w = (fs, u)" by (cases w)
  have a: "exactIntegers (jfNumbers K)" "fsOk fs" using assms(1) by (simp_all add: soundFiles_def w)
  note r = saveJournalFile_wp [OF a, of s u]
  show "soundFiles K (q, v)" and "x = Inr () \<Longrightarrow> journalsFound K v = {restartSees (Some s)}"
    and "journalsFound K v \<subseteq> insert (restartSees (Some s)) (journalsFound K w)"
    using wp_Inl [OF r] wp_Inr [OF r] assms(2) a
    by (cases x; simp add: w soundFiles_def restartSees_def)+
qed

interpretation journal_latch: latched_store
  "savePersistence V (fileJournalStore K)" "retryPersistenceWrite (fileJournalStore K)"
  committedSnapshot latchedSnapshot "soundFiles K" "\<lambda>x. journalsFound K (snd x)" restartSees
proof (unfold_locales, goal_cases)
  case (1 x s y)
  obtain p w q v where e: "x = (p, w)" "y = (q, v)" by (cases x; cases y) auto
  show ?case
    using savePersistence_world [of V "fileJournalStore K" s p w "Inr ()" q v] saveJournalFile_result(1) [of K p w s _ v q] saveJournalFile_result(2,3) [of K p w s _ v] 1
    by (auto simp: e fileJournalStore_def)
next
  case (2 x s e' y)
  obtain p w q v where e: "x = (p, w)" "y = (q, v)" by (cases x; cases y) auto
  show ?case
    using savePersistence_world [of V "fileJournalStore K" s p w "Inl e'" q v] saveJournalFile_result(1) [of K p w s _ v q] saveJournalFile_result(2,3) [of K p w s _ v] 2
    by (auto simp: e fileJournalStore_def soundFiles_def)
next
  case (3 x y)
  obtain p w q v where e: "x = (p, w)" "y = (q, v)" by (cases x; cases y) auto
  show ?case
    using retryPersistence_world [of "fileJournalStore K" p w "Inr ()" q v] saveJournalFile_result(1) [of K p w _ _ v q] saveJournalFile_result(2,3) [of K p w _ _ v] 3
    by (auto simp: e fileJournalStore_def)
next
  case (4 x e' y)
  obtain p w q v where e: "x = (p, w)" "y = (q, v)" by (cases x; cases y) auto
  consider "v = w" | z s where "saveJournalFile K s w = (z, v)" "latchedSnapshot (p, w) = Some s"
    using retryPersistence_world [of "fileJournalStore K" p w "Inl e'" q v] 4 by (auto simp: e fileJournalStore_def)
  then show ?case
  proof cases
    case 1
    then show ?thesis using 4 by (simp add: e soundFiles_def)
  next
    case 2
    then show ?thesis
      using saveJournalFile_result(1) [OF _ 2(1), of p q] saveJournalFile_result(3) [OF _ 2(1), of p] 2(2) 4(1)
      by (simp add: e)
  qed
qed

subsection \<open>A service on the file\<close>

text \<open>The writes of a service: saves, with the snapshot to save, and retries of a failed one.\<close>

fun journalWrites ::
  "viem \<Rightarrow> 'w journal_store \<Rightarrow> TransactionJournalSnapshot option list \<Rightarrow> JournalPersistence \<times> 'w \<Rightarrow> JournalPersistence \<times> 'w" where
  "journalWrites V S [] x = x"
| "journalWrites V S (Some s # ops) x = journalWrites V S ops (snd (savePersistence V S s x))"
| "journalWrites V S (None # ops) x = journalWrites V S ops (snd (retryPersistenceWrite S x))"

lemma journalWrites_run:
  "journalWrites V S ops x = write_latch.runWrites (savePersistence V S) (retryPersistenceWrite S) ops x"
  by (induction V S ops x rule: journalWrites.induct) (simp_all add: persistence.runWrites.simps)

lemma journalIn_missing: "journalIn K x = Inr Missing \<Longrightarrow> x = None"
  by (auto simp: journalIn_def decodeContents_def bindE_Inr split: option.splits if_splits)

text \<open>What is on disk when a service has loaded its journal is what it loaded.\<close>

lemma loaded_is_found:
  assumes N: "exactIntegers (jfNumbers K)" and ok: "fsOk fs"
    and absent: "fileAt fs (jfPath K) = None \<longrightarrow> (\<forall>x. mayFind fs (jfPath K) x \<longrightarrow> x = None)"
    and opened: "openJournalFile K (fs, w) = (Inr S, t)" and loaded: "loadJournalFile S t = (Inr r, u)"
  shows "fsOk (fst u) \<and> journalsFound K u = {Inr r}"
proof -
  obtain gs v hs z where e: "t = (gs, v)" "u = (hs, z)" by (cases t; cases u) auto
  obtain q where q: "S = K" "fsOk gs" "journalIn K (fileAt fs (jfPath K)) = Inr q"
      "journalsFound K t = (if q = Missing then journalsFound K (fs, w) else {Inr q})"
    using wp_Inr [OF openJournalFile_wp [OF N ok, of w] opened] by (auto simp: e)
  have "journalsFound K (fs, w) = {Inr Missing}" if "q = Missing"
  proof -
    have "fileAt fs (jfPath K) = None" using q(3) that by (intro journalIn_missing [of K]) simp
    with absent journal_now [of K fs w] q(3) that show ?thesis by (auto simp: journalsFound_def journalIn_def)
  qed
  then have t: "journalsFound K t = {Inr q}" using q(4) by auto
  have l: "onlyClock gs hs" "journalIn K (fileAt gs (jfPath K)) = Inr r"
    using wp_Inr [OF loadJournalFile_wp loaded [unfolded q(1) e]] by auto
  have "fsOk hs" "journalsFound K (hs, z) = journalsFound K (gs, v)"
    using onlyClock_same(1) [OF l(1), of "jfPath K"] journalsFound_same [of K gs hs z v] q(2)
    by (simp_all add: samePath_def)
  then show ?thesis using t l(2) journal_now [of K gs v] by (auto simp: e)
qed

end
