(* ===== verification/ServiceLock.thy ===== *)
theory ServiceLock
  imports CheckpointFile
begin

text \<open>
  \<^verbatim>\<open>state/service-lock.ts\<close>: the check that this process inherited the lock of its state directory. The
  operating system is asked through \<^verbatim>\<open>node:fs\<close> and \<^verbatim>\<open>node:path\<close>: a record of computations, so that every
  call may answer differently or fail.
\<close>

subsection \<open>The operating system\<close>

record lock_stat =
  lkIsFile :: bool
  lkLinks :: int
  lkDev :: int
  lkIno :: int

record 'w lock_os =
  osPlatform :: jstr
  osRealpath :: "jstr \<Rightarrow> ('w, jstr) io"
  osDirectory :: "jstr \<Rightarrow> ('w, bool \<times> 16 word) io"
  osLstat :: "jstr \<Rightarrow> ('w, lock_stat) io"
  osDescriptors :: "('w, jstr list) io"
  osFstat :: "int \<Rightarrow> ('w, lock_stat) io"
  osDescriptorInfo :: "int \<Rightarrow> ('w, jstr) io"
  osResolve :: "jstr \<Rightarrow> jstr"
  osDirname :: "jstr \<Rightarrow> jstr"
  osBasename :: "jstr \<Rightarrow> jstr"
  osJoin :: "jstr \<Rightarrow> jstr \<Rightarrow> jstr"

record VerifiedServiceLock =
  stateDirectory :: jstr
  lockDev :: int
  lockIno :: int

definition LOCK_FILENAME :: jstr where
  "LOCK_FILENAME = js ''relayer.flock''"

definition DAEMON_STATUS_FILENAME :: jstr where
  "DAEMON_STATUS_FILENAME = js ''daemon-status.json''"

text \<open>The reason of a \<^verbatim>\<open>ServiceLockNotHeldError\<close>, which the source keeps beside the error, is its cause here.\<close>

datatype ServiceLockReason = LockPlatform | LockStateDirectory | LockFile | LockDescriptor

fun reasonName :: "ServiceLockReason \<Rightarrow> string" where
  "reasonName LockPlatform = ''platform''"
| "reasonName LockStateDirectory = ''state-directory''"
| "reasonName LockFile = ''lock-file''"
| "reasonName LockDescriptor = ''descriptor''"

definition lockNotHeld :: "ServiceLockReason \<Rightarrow> exn" where
  "lockNotHeld r = CausedError ''Required relayer service lock was not verified.'' (PlainError (reasonName r))"

subsection \<open>Text\<close>

text \<open>The white space and line terminators that \<^verbatim>\<open>trim\<close> removes.\<close>

definition trimmed :: "16 word \<Rightarrow> bool" where
  "trimmed u = (u \<in> {9, 10, 11, 12, 13, 32, 0xA0, 0x1680, 0x2028, 0x2029, 0x202F, 0x205F, 0x3000, 0xFEFF} \<or>
     0x2000 \<le> u \<and> u \<le> 0x200A)"

definition blankText :: "jstr \<Rightarrow> bool" where
  "blankText s = list_all trimmed s"

definition isDecimalDigits :: "jstr \<Rightarrow> bool" where
  "isDecimalDigits value = (value \<noteq> [] \<and> list_all isDigitUnit value)"

fun splitFieldsFrom :: "jstr list \<Rightarrow> jstr \<Rightarrow> jstr \<Rightarrow> jstr list" where
  "splitFieldsFrom fs current [] = (if current \<noteq> [] then fs @ [current] else fs)"
| "splitFieldsFrom fs current (c # line) =
     (if c = 32 \<or> c = 9
      then if current \<noteq> [] then splitFieldsFrom (fs @ [current]) [] line else splitFieldsFrom fs current line
      else splitFieldsFrom fs (current @ [c]) line)"

definition splitFields :: "jstr \<Rightarrow> jstr list" where
  "splitFields line = splitFieldsFrom [] [] line"

definition flockLine :: "jstr \<Rightarrow> bool" where
  "flockLine line =
     (take 5 line = js ''lock:'' \<and>
      (let fs = splitFields line in
       length fs = 9 \<and> fs ! 0 = js ''lock:'' \<and> fs ! 2 = js ''FLOCK'' \<and> fs ! 3 = js ''ADVISORY'' \<and>
       fs ! 4 = js ''WRITE'' \<and> fs ! 7 = js ''0'' \<and> fs ! 8 = js ''EOF''))"

definition hasExclusiveFlock :: "jstr \<Rightarrow> bool" where
  "hasExclusiveFlock fdinfo = list_ex flockLine (splitOn 10 fdinfo)"

subsection \<open>The check\<close>

definition assertCheckpointPlacement :: "'w lock_os \<Rightarrow> jstr \<Rightarrow> jstr \<Rightarrow> ('w, unit) io" where
  "assertCheckpointPlacement L value dir =
     andThen (unlessThrow (\<not> blankText value) (lockNotHeld LockStateDirectory)) (\<lambda>_.
     let checkpointFile = osResolve L value; filename = osBasename L checkpointFile in
     andThen (osRealpath L (osDirname L checkpointFile)) (\<lambda>parent.
     andThen (unlessThrow (parent = dir \<and> filename \<noteq> LOCK_FILENAME \<and> filename \<noteq> DAEMON_STATUS_FILENAME)
       (lockNotHeld LockStateDirectory)) (\<lambda>_.
     tryCatch
       (andThen (osLstat L checkpointFile) (\<lambda>file.
        unlessThrow (lkIsFile file \<and> lkLinks file = 1) (lockNotHeld LockStateDirectory)))
       (\<lambda>e. if isMissingFile e then ret () else throw e))))"

text \<open>
  One turn of the loop over \<^verbatim>\<open>/proc/self/fd\<close>; an error ends only the turn. The number of a run of digits
  is a safe integer exactly when the run denotes one.
\<close>

definition tryDescriptor :: "'w lock_os \<Rightarrow> jstr \<Rightarrow> lock_stat \<Rightarrow> jstr \<Rightarrow> ('w, VerifiedServiceLock option) io" where
  "tryDescriptor L dir expected name =
     (if \<not> isDecimalDigits name \<or> MAX_SAFE_INTEGER < parseBigint name then ret None
      else tryCatch
        (andThen (osFstat L (parseBigint name)) (\<lambda>actual.
         if lkDev actual \<noteq> lkDev expected \<or> lkIno actual \<noteq> lkIno expected then ret None
         else andThen (osDescriptorInfo L (parseBigint name)) (\<lambda>info.
           ret (if hasExclusiveFlock info
                then Some \<lparr>stateDirectory = dir, lockDev = lkDev actual, lockIno = lkIno actual\<rparr> else None))))
        (\<lambda>_. ret None))"

fun tryDescriptors ::
  "'w lock_os \<Rightarrow> jstr \<Rightarrow> lock_stat \<Rightarrow> jstr list \<Rightarrow> ('w, VerifiedServiceLock option) io" where
  "tryDescriptors L dir expected [] = ret None"
| "tryDescriptors L dir expected (name # names) =
     andThen (tryDescriptor L dir expected name) (\<lambda>r.
       case r of Some v \<Rightarrow> ret (Some v) | None \<Rightarrow> tryDescriptors L dir expected names)"

text \<open>Whatever fails, the error is that of the stage it failed in.\<close>

definition lockStage :: "ServiceLockReason \<Rightarrow> ('w, 'a) io \<Rightarrow> ('w, 'a) io" where
  "lockStage r m = tryCatch m (\<lambda>_. throw (lockNotHeld r))"

definition assertServiceLockHeld ::
  "'w lock_os \<Rightarrow> jstr option \<Rightarrow> jstr option \<Rightarrow> ('w, VerifiedServiceLock) io" where
  "assertServiceLockHeld L configured checkpoint =
     andThen (unlessThrow (osPlatform L = js ''linux'') (lockNotHeld LockPlatform)) (\<lambda>_.
     let configuredDirectory = (case configured of None \<Rightarrow> js ''./state'' | Some d \<Rightarrow> d) in
     andThen (lockStage LockStateDirectory
       (andThen (unlessThrow (\<not> blankText configuredDirectory) (lockNotHeld LockStateDirectory)) (\<lambda>_.
        andThen (osRealpath L (osResolve L configuredDirectory)) (\<lambda>dir.
        andThen (osDirectory L dir) (\<lambda>(isDirectory, perms).
        andThen (unlessThrow (isDirectory \<and> \<not> bit perms 1) (lockNotHeld LockStateDirectory)) (\<lambda>_.
        andThen (case checkpoint of None \<Rightarrow> ret () | Some file \<Rightarrow> assertCheckpointPlacement L file dir) (\<lambda>_.
        ret dir))))))) (\<lambda>dir.
     andThen (lockStage LockFile
       (andThen (osLstat L (osJoin L dir LOCK_FILENAME)) (\<lambda>expected.
        andThen (unlessThrow (lkIsFile expected \<and> lkLinks expected = 1) (lockNotHeld LockFile)) (\<lambda>_.
        ret expected)))) (\<lambda>expected.
     lockStage LockDescriptor
       (andThen (osDescriptors L) (\<lambda>names.
        andThen (tryDescriptors L dir expected names) (\<lambda>r.
        case r of Some v \<Rightarrow> ret v | None \<Rightarrow> throw (lockNotHeld LockDescriptor)))))))"

subsection \<open>What the check establishes\<close>

text \<open>The fields of a line are its parts between blanks that are not empty.\<close>

definition blanked :: "jstr \<Rightarrow> jstr" where
  "blanked line = map (\<lambda>c. if c = 9 then 32 else c) line"

lemma splitFieldsFrom_parts:
  "splitFieldsFrom fs current line =
     fs @ filter (\<lambda>p. p \<noteq> []) (case splitOn 32 (blanked line) of [] \<Rightarrow> [current] | p # ps \<Rightarrow> (current @ p) # ps)"
proof (induction fs current line rule: splitFieldsFrom.induct)
  case (2 fs current c line)
  then show ?case by (auto simp: blanked_def split: list.splits)
qed (simp add: blanked_def)

lemma splitFields_parts: "splitFields line = filter (\<lambda>p. p \<noteq> []) (splitOn 32 (blanked line))"
proof -
  have "splitOn 32 (blanked line) \<noteq> []" by (cases "blanked line") (auto split: list.splits)
  then show ?thesis by (auto simp: splitFields_def splitFieldsFrom_parts split: list.splits)
qed

text \<open>
  What a verified lock rests on: the directory was read as one that others cannot write, its lock file
  as a regular file with one link, and one of the process's descriptors as that very file, with an
  exclusive lock.
\<close>

definition lockEvidence :: "'w lock_os \<Rightarrow> VerifiedServiceLock \<Rightarrow> bool" where
  "lockEvidence L v =
     (osPlatform L = js ''linux'' \<and>
      (\<exists>w perms w'. osDirectory L (stateDirectory v) w = (Inr (True, perms), w') \<and> \<not> bit perms 1) \<and>
      (\<exists>w file w'. osLstat L (osJoin L (stateDirectory v) LOCK_FILENAME) w = (Inr file, w') \<and>
         lkIsFile file \<and> lkLinks file = 1 \<and> lkDev file = lockDev v \<and> lkIno file = lockIno v) \<and>
      (\<exists>fd w file w' info w''. osFstat L fd w = (Inr file, w') \<and> lkDev file = lockDev v \<and> lkIno file = lockIno v \<and>
         osDescriptorInfo L fd w' = (Inr info, w'') \<and> hasExclusiveFlock info))"

definition descriptorEvidence :: "'w lock_os \<Rightarrow> jstr \<Rightarrow> lock_stat \<Rightarrow> VerifiedServiceLock \<Rightarrow> bool" where
  "descriptorEvidence L dir expected v =
     (stateDirectory v = dir \<and> lockDev v = lkDev expected \<and> lockIno v = lkIno expected \<and>
      (\<exists>fd w file w' info w''. osFstat L fd w = (Inr file, w') \<and> lkDev file = lockDev v \<and> lkIno file = lockIno v \<and>
         osDescriptorInfo L fd w' = (Inr info, w'') \<and> hasExclusiveFlock info))"

lemma tryDescriptor_evidence:
  assumes "tryDescriptor L dir expected name w = (Inr (Some v), t)"
  shows "descriptorEvidence L dir expected v"
proof -
  from assms obtain st w' info where "osFstat L (parseBigint name) w = (Inr st, w')"
      "lkDev st = lkDev expected" "lkIno st = lkIno expected"
      "osDescriptorInfo L (parseBigint name) w' = (Inr info, t)" "hasExclusiveFlock info"
      "v = \<lparr>stateDirectory = dir, lockDev = lkDev st, lockIno = lkIno st\<rparr>"
    by (auto simp: tryDescriptor_def io_defs split: if_splits prod.splits sum.splits)
  then show ?thesis unfolding descriptorEvidence_def by fastforce
qed

lemma tryDescriptors_evidence:
  "tryDescriptors L dir expected names w = (Inr (Some v), t) \<Longrightarrow> descriptorEvidence L dir expected v"
proof (induction names arbitrary: w)
  case (Cons name names)
  then obtain r u where "tryDescriptor L dir expected name w = (Inr r, u)"
      "(case r of Some v \<Rightarrow> ret (Some v) | None \<Rightarrow> tryDescriptors L dir expected names) u = (Inr (Some v), t)"
    by (auto simp: andThen_Inr)
  then show ?case using Cons.IH tryDescriptor_evidence by (cases r) (auto simp: ret_def)
qed (simp add: ret_def)

lemma lockStage_Inr: "lockStage r m w = (Inr x, t) \<longleftrightarrow> m w = (Inr x, t)"
  by (auto simp: lockStage_def tryCatch_def throw_def split: prod.splits sum.splits)

lemma lock_evidence:
  assumes "assertServiceLockHeld L configured checkpoint w = (Inr v, t)"
  shows "lockEvidence L v"
proof -
  let ?given = "case configured of None \<Rightarrow> js ''./state'' | Some d \<Rightarrow> d"
  from assms obtain dir perms w1 w2 w3 st w4 w5 names w6 where
    d: "osPlatform L = js ''linux''" "osDirectory L dir w1 = (Inr (True, perms), w2)" "\<not> bit perms 1"
    and f: "osLstat L (osJoin L dir LOCK_FILENAME) w3 = (Inr st, w4)" "lkIsFile st" "lkLinks st = 1"
    and n: "osDescriptors L w4 = (Inr names, w5)" "tryDescriptors L dir st names w5 = (Inr (Some v), w6)"
    unfolding assertServiceLockHeld_def Let_def andThen_Inr lockStage_Inr
    by (auto simp: andThen_Inr io_cases ret_def throw_def split: option.splits)
  from tryDescriptors_evidence [OF n(2)] d f show ?thesis
    unfolding lockEvidence_def descriptorEvidence_def by metis
qed

text \<open>Every failure is the one error, with the stage it belongs to.\<close>

lemma lock_errors:
  "assertServiceLockHeld L configured checkpoint w = (Inl e, t) \<Longrightarrow> \<exists>r. e = lockNotHeld r"
  unfolding assertServiceLockHeld_def Let_def lockStage_def
  by (auto simp: io_defs split: prod.splits sum.splits if_splits)

end
