(* ===== verification/NonceSync.thy ===== *)
theory NonceSync
  imports JournalFileProofs ServiceLock ChainReads
begin

text \<open>
  \<^verbatim>\<open>state/plan-nonce-sync.ts\<close>, \<^verbatim>\<open>chain/inspect-nonce-sync.ts\<close>, \<^verbatim>\<open>cli/sync-nonce.ts\<close> and
  \<^verbatim>\<open>state/assert-signer-bootstrap-state.ts\<close>: adopting a nonce of the chain that is ahead of an empty
  journal, and the check before a first journal.
\<close>

subsection \<open>The plan\<close>

datatype NonceSyncPlan =
    AlreadySynchronized
  | NonceCountMismatch
  | AttemptsRetained
  | NonceRegression
  | AnchorRegression
  | AnchorConflict
  | RepairAvailable JournalNonceRepair TransactionJournalSnapshot

definition requireNonce :: "int \<Rightarrow> exn + unit" where
  "requireNonce value = checkE (uint256 value) (TypeError ''Invalid nonce sync count.'') (\<lambda>_. Inr ())"

definition requireTimestamp :: "jstr \<Rightarrow> exn + unit" where
  "requireTimestamp value = checkE (isoTimestamp value) (TypeError ''Invalid nonce sync timestamp.'') (\<lambda>_. Inr ())"

text \<open>\<^verbatim>\<open>xs.slice(-n)\<close> for a positive \<open>n\<close>.\<close>

definition lastOf :: "nat \<Rightarrow> 'a list \<Rightarrow> 'a list" where
  "lastOf n xs = drop (length xs - n) xs"

definition repairedSnapshot ::
  "TransactionJournalSnapshot \<Rightarrow> AnchoredNonceObservation \<Rightarrow> JournalNonceRepair \<Rightarrow> TransactionJournalSnapshot" where
  "repairedSnapshot s seen repair =
     s\<lparr>lastObservation := seen, nextNonce := obsNonce seen, durableNextNonce := obsNonce seen,
       repairs := lastOf MAX_RETAINED_NONCE_REPAIRS (repairs s @ [repair])\<rparr>"

definition planNonceSync ::
  "TransactionJournalSnapshot \<Rightarrow> JournalIdentity \<Rightarrow> AnchoredNonceObservation \<Rightarrow> int \<Rightarrow> int \<Rightarrow> jstr \<Rightarrow>
   exn + NonceSyncPlan" where
  "planNonceSync given ident given_seen latest pend stamp =
     bindE (validateSnapshot given ident) (\<lambda>s.
     bindE (readObservation (embObservation given_seen)) (\<lambda>seen.
     bindE (requireNonce latest) (\<lambda>_.
     bindE (requireNonce pend) (\<lambda>_.
     bindE (requireTimestamp stamp) (\<lambda>_.
     let previous = lastObservation s in
     if attempts s \<noteq> [] then Inr AttemptsRetained
     else if blockNumber (anchor seen) < blockNumber (anchor previous) then Inr AnchorRegression
     else if blockNumber (anchor seen) = blockNumber (anchor previous) \<and>
         toLowerCase (blockHash (anchor seen)) \<noteq> toLowerCase (blockHash (anchor previous)) then Inr AnchorConflict
     else if obsNonce seen < nextNonce s \<or> obsNonce seen < obsNonce previous then Inr NonceRegression
     else if obsNonce seen \<noteq> latest \<or> obsNonce seen \<noteq> pend then Inr NonceCountMismatch
     else if obsNonce seen = nextNonce s then Inr AlreadySynchronized
     else
       let repair = \<lparr>repairAt = stamp, previousNextNonce = nextNonce s, repairNextNonce = obsNonce seen,
             repairObservation = seen\<rparr> in
       bindE (validateSnapshot (repairedSnapshot s seen repair) ident) (\<lambda>snapshot.
       Inr (RepairAvailable (last (repairs snapshot)) snapshot)))))))"

subsection \<open>The inspection\<close>

datatype NonceSyncInspection =
    SyncObserved AnchoredNonceObservation int int
  | SyncAnchorChanged BlockAnchor

definition abortPoint :: "('s \<Rightarrow> bool) \<Rightarrow> ('s, unit) io" where
  "abortPoint aborted = (\<lambda>s. (if aborted s then Inl AbortReason else Inr (), s))"

definition isSafeInteger :: "jsval \<Rightarrow> bool" where
  "isSafeInteger v = (case v of JNum q \<Rightarrow> safeInteger q | _ \<Rightarrow> False)"

definition inspectNonceSync ::
  "'w chain_client \<Rightarrow> ('w, jsval) io \<Rightarrow> JournalIdentity \<Rightarrow> FinalityPolicy \<Rightarrow> ('w \<Rightarrow> bool) \<Rightarrow>
   ('w, NonceSyncInspection) io" where
  "inspectNonceSync C getChainId ident finality aborted =
     andThen (abortPoint aborted) (\<lambda>_.
     andThen getChainId (\<lambda>chain.
     andThen (abortPoint aborted) (\<lambda>_.
     andThen (unlessThrow (isSafeInteger chain \<and> chain = JNum (of_int (chainId ident)))
       (PlainError ''Nonce sync RPC chain ID does not match journal identity.'')) (\<lambda>_.
     andThen (getChainHeads C finality) (\<lambda>heads.
     andThen (abortPoint aborted) (\<lambda>_.
     andThen (getBlockAnchor C (durableBlock heads)) (\<lambda>a.
     andThen (abortPoint aborted) (\<lambda>_.
     andThen (inspectSignerBootstrap C (signer ident) a) (\<lambda>inspection.
     andThen (abortPoint aborted) (\<lambda>_.
     ret (case inspection of
            BootstrapAnchorChanged observed \<Rightarrow> SyncAnchorChanged observed
          | BootstrapDeferred seen latest pend \<Rightarrow> SyncObserved seen latest pend
          | BootstrapReady seen \<Rightarrow> SyncObserved seen (obsNonce seen) (obsNonce seen))))))))))))"

subsection \<open>The command\<close>

text \<open>
  The files are those of the state directory. Everything that is awaited between the operations on
  them (the requests of the client, and so any other process meanwhile) may change the files too.
\<close>

record 'w sync_env =
  snLock :: "'w lock_os"
  snStateDir :: "jstr option"
  snJournal :: "'w journal_file_env"
  snClient :: "'w files chain_client"
  snChainId :: "('w files, jsval) io"
  snFinality :: FinalityPolicy
  snApply :: bool
  snAborted :: "'w files \<Rightarrow> bool"
  snNow :: "('w, int) io"

datatype SyncNonceResult =
    SyncPlanned NonceSyncPlan
  | JournalMissing
  | JournalChanged
  | SyncAnchorMoved
  | SyncApplied JournalNonceRepair

definition matchesSnapshot :: "TransactionJournalRead \<Rightarrow> TransactionJournalSnapshot \<Rightarrow> bool" where
  "matchesSnapshot read expected = (case read of Missing \<Rightarrow> False | Present s \<Rightarrow> s = expected)"

definition verifyOwnership :: "'w sync_env \<Rightarrow> VerifiedServiceLock \<Rightarrow> ('w files, unit) io" where
  "verifyOwnership E ownership =
     andThen (onWorld (assertServiceLockHeld (snLock E) (Some (stateDirectory ownership)) None)) (\<lambda>current.
     unlessThrow (current = ownership) (lockNotHeld LockDescriptor))"

text \<open>The journal of the command: the path in the locked directory, and no bounds.\<close>

definition syncStore :: "'w sync_env \<Rightarrow> JournalIdentity \<Rightarrow> VerifiedServiceLock \<Rightarrow> 'w journal_file_env" where
  "syncStore E ident ownership =
     (snJournal E)\<lparr>jfPath := osJoin (snLock E) (stateDirectory ownership) (journalFilename ident),
        jfIdentity := ident, jfBounds := None, jfHook := None\<rparr>"

definition applySync ::
  "'w sync_env \<Rightarrow> VerifiedServiceLock \<Rightarrow> 'w journal_file_env \<Rightarrow> TransactionJournalSnapshot \<Rightarrow>
   JournalNonceRepair \<Rightarrow> TransactionJournalSnapshot \<Rightarrow> ('w files, SyncNonceResult) io" where
  "applySync E ownership K initial repair planned =
     andThen (verifyOwnership E ownership) (\<lambda>_.
     andThen (readJournalFile K) (\<lambda>beforeOpen.
     andThen (abortPoint (snAborted E)) (\<lambda>_.
     if \<not> matchesSnapshot beforeOpen initial then ret JournalChanged else
     andThen (verifyOwnership E ownership) (\<lambda>_.
     andThen (openJournalFile K) (\<lambda>store.
     andThen (abortPoint (snAborted E)) (\<lambda>_.
     andThen (verifyOwnership E ownership) (\<lambda>_.
     andThen (loadJournalFile store) (\<lambda>beforeSave.
     andThen (abortPoint (snAborted E)) (\<lambda>_.
     if \<not> matchesSnapshot beforeSave initial then ret JournalChanged else
     andThen (verifyOwnership E ownership) (\<lambda>_.
     andThen (saveJournalFile store planned) (\<lambda>_.
     ret (SyncApplied repair))))))))))))"

definition syncNonce :: "'w sync_env \<Rightarrow> ('w files, SyncNonceResult) io" where
  "syncNonce E =
     andThen (liftPure (captureJournalIdentity (JNum (of_int (chainId (jfIdentity (snJournal E)))))
       (JString (signer (jfIdentity (snJournal E)))))) (\<lambda>ident.
     andThen (abortPoint (snAborted E)) (\<lambda>_.
     andThen (onWorld (assertServiceLockHeld (snLock E) (snStateDir E) None)) (\<lambda>ownership.
     let K = syncStore E ident ownership in
     andThen (readJournalFile K) (\<lambda>initial.
     andThen (abortPoint (snAborted E)) (\<lambda>_.
     case initial of
       Missing \<Rightarrow> ret JournalMissing
     | Present s \<Rightarrow>
         if attempts s \<noteq> [] then ret (SyncPlanned AttemptsRetained) else
         andThen (inspectNonceSync (snClient E) (snChainId E) ident (snFinality E) (snAborted E)) (\<lambda>inspection.
         andThen (abortPoint (snAborted E)) (\<lambda>_.
         case inspection of
           SyncAnchorChanged observed \<Rightarrow> ret SyncAnchorMoved
         | SyncObserved seen latest pend \<Rightarrow>
             andThen (onWorld (snNow E)) (\<lambda>ms.
             andThen (liftPure (planNonceSync s ident seen latest pend (toISOString ms))) (\<lambda>plan.
             andThen (abortPoint (snAborted E)) (\<lambda>_.
             case plan of
               RepairAvailable repair planned \<Rightarrow>
                 if snApply E then applySync E ownership K s repair planned else ret (SyncPlanned plan)
             | _ \<Rightarrow> ret (SyncPlanned plan)))))))))))"

subsection \<open>The first journal\<close>

text \<open>
  \<^verbatim>\<open>lstat\<close> and \<^verbatim>\<open>readdir\<close> of the state directory, again as questions to the operating system. The
  error of a directory with entries but no journal is the only one that names a prior state.
\<close>

definition PRIOR_SIGNER_STATE :: exn where
  "PRIOR_SIGNER_STATE = PlainError ''Cannot automatically initialize a missing signer journal because the state directory contains other entries. Verify the configured directory and restore the matching journal if available. Remove entries only after establishing they are unrelated to prior relayer state.''"

definition assertSignerBootstrapState ::
  "'w lock_os \<Rightarrow> (jstr \<Rightarrow> ('w, jstr list) io) \<Rightarrow> jstr \<Rightarrow> VerifiedServiceLock \<Rightarrow> ('w, unit) io" where
  "assertSignerBootstrapState L readdir journalFile ownership =
     andThen (tryCatch (andThen (osLstat L journalFile) (\<lambda>_. ret True))
       (\<lambda>e. if isMissingFile e then ret False else throw e)) (\<lambda>present.
     if present then ret () else
     andThen (readdir (stateDirectory ownership)) (\<lambda>names.
     andThen (unlessThrow (LOCK_FILENAME \<in> set names) (lockNotHeld LockFile)) (\<lambda>_.
     andThen (tryCatch (osLstat L (osJoin L (stateDirectory ownership) LOCK_FILENAME))
       (\<lambda>_. throw (lockNotHeld LockFile))) (\<lambda>lock.
     andThen (unlessThrow (lkIsFile lock \<and> lkLinks lock = 1) (lockNotHeld LockFile)) (\<lambda>_.
     andThen (unlessThrow (lkDev lock = lockDev ownership \<and> lkIno lock = lockIno ownership)
       (lockNotHeld LockDescriptor)) (\<lambda>_.
     unlessThrow (list_all (\<lambda>name. name = LOCK_FILENAME) names) PRIOR_SIGNER_STATE))))))"

end
