(* ===== verification/NonceSyncProofs.thy ===== *)
theory NonceSyncProofs
  imports NonceSync
begin

text \<open>The plan of a nonce repair is exact, and the command applies it to nothing but the journal it planned for.\<close>

subsection \<open>The plan\<close>

lemma lastOf_append: "0 < n \<Longrightarrow> \<exists>ys. lastOf n (xs @ [x]) = ys @ [x]"
  by (auto simp: lastOf_def)

lemma lastOf_length: "length (lastOf n xs) \<le> n"
  by (simp add: lastOf_def)

lemma repairsOrdered_drop: "repairsOrdered rs \<Longrightarrow> repairsOrdered (drop n rs)"
  by (auto simp: repairsOrdered_def)

lemma repairsOrdered_append:
  assumes "repairsOrdered rs" and "rs = [] \<or> repairNextNonce (last rs) \<le> previousNextNonce r"
  shows "repairsOrdered (rs @ [r])"
proof -
  have "repairNextNonce (rs ! i) \<le> previousNextNonce r" if "Suc i = length rs" for i
  proof -
    have "rs \<noteq> []" "length rs - 1 = i" using that by auto
    then show ?thesis using assms(2) by (simp add: last_conv_nth)
  qed
  then show ?thesis using assms(1) by (auto simp: repairsOrdered_def nth_append less_Suc_eq)
qed

lemma repaired_wf:
  assumes s: "wfSnapshot i s" "attempts s = []" and seen: "wfObservation seen" "nextNonce s < obsNonce seen"
    and stamp: "isoTimestamp stamp"
  shows "wfSnapshot i (repairedSnapshot s seen
    \<lparr>repairAt = stamp, previousNextNonce = nextNonce s, repairNextNonce = obsNonce seen, repairObservation = seen\<rparr>)"
proof -
  let ?r = "\<lparr>repairAt = stamp, previousNextNonce = nextNonce s, repairNextNonce = obsNonce seen, repairObservation = seen\<rparr>"
  let ?rs = "lastOf MAX_RETAINED_NONCE_REPAIRS (repairs s @ [?r])"
  have w: "wfRepairs (durableNextNonce s) (repairs s)" "durableNextNonce s \<le> nextNonce s"
    "uint256 (nextNonce s)" "obsNonce (baseline s) \<le> durableNextNonce s"
    using s(1) by (simp_all add: wfSnapshot_def)
  have n: "0 < MAX_RETAINED_NONCE_REPAIRS" by (simp add: MAX_RETAINED_NONCE_REPAIRS_def)
  obtain ys where e: "?rs = ys @ [?r]" using lastOf_append [OF n, of "repairs s" ?r] by (elim exE) (rule that)
  have r: "wfRepair ?r" using seen stamp w(3) by (simp add: wfRepair_def wfObservation_def)
  have "repairsOrdered (repairs s @ [?r])"
    by (rule repairsOrdered_append) (use w(1,2) in \<open>auto simp: wfRepairs_def\<close>)
  then have "repairsOrdered ?rs" unfolding lastOf_def by (rule repairsOrdered_drop)
  moreover have "list_all wfRepair ?rs"
    using w(1) r by (auto simp: lastOf_def wfRepairs_def list_all_iff dest: in_set_dropD)
  moreover have "repairNextNonce (last ?rs) \<le> obsNonce seen" by (simp add: e)
  ultimately have rs: "wfRepairs (obsNonce seen) ?rs" using lastOf_length by (simp add: wfRepairs_def)
  define t where "t = repairedSnapshot s seen ?r"
  have t: "identity t = identity s" "baseline t = baseline s" "lastObservation t = seen" "nextNonce t = obsNonce seen"
    "durableNextNonce t = obsNonce seen" "attempts t = []" "wfRepairs (obsNonce seen) (repairs t)"
    using s(2) rs by (simp_all add: t_def repairedSnapshot_def)
  have "uint256 (obsNonce seen)" "obsNonce (baseline s) \<le> obsNonce seen"
    using seen w by (simp_all add: wfObservation_def)
  moreover have "wfAttempts (obsNonce seen) []" by (simp add: wfAttempts_def allHashes_def)
  ultimately have "wfSnapshot i t"
    unfolding wfSnapshot_def t(1-6) using s(1) seen(1) t(7) by (simp add: wfSnapshot_def)
  then show ?thesis by (simp only: t_def)
qed

text \<open>When a repair is due: an empty journal behind a nonce that all counts agree on, at an anchor that does not go back.\<close>

definition repairDue :: "TransactionJournalSnapshot \<Rightarrow> AnchoredNonceObservation \<Rightarrow> int \<Rightarrow> int \<Rightarrow> bool" where
  "repairDue s seen latest pend =
     (attempts s = [] \<and>
      (blockNumber (anchor (lastObservation s)) < blockNumber (anchor seen) \<or>
       blockAnchorsMatch (anchor (lastObservation s)) (anchor seen)) \<and>
      nextNonce s < obsNonce seen \<and> obsNonce (lastObservation s) \<le> obsNonce seen \<and>
      latest = obsNonce seen \<and> pend = obsNonce seen)"

definition planFor ::
  "TransactionJournalSnapshot \<Rightarrow> JournalIdentity \<Rightarrow> AnchoredNonceObservation \<Rightarrow> jstr \<Rightarrow> NonceSyncPlan \<Rightarrow> bool" where
  "planFor s i seen stamp plan =
     (case plan of
        RepairAvailable repair t \<Rightarrow>
          repair = \<lparr>repairAt = stamp, previousNextNonce = nextNonce s, repairNextNonce = obsNonce seen,
            repairObservation = seen\<rparr> \<and>
          wfSnapshot i t \<and> identity t = identity s \<and> baseline t = baseline s \<and> lastObservation t = seen \<and>
          nextNonce t = obsNonce seen \<and> durableNextNonce t = obsNonce seen \<and> attempts t = [] \<and>
          (\<exists>older. repairs s @ [repair] = older @ repairs t) \<and>
          length (repairs t) = min MAX_RETAINED_NONCE_REPAIRS (length (repairs s) + 1)
      | _ \<Rightarrow> False)"

lemma repaired_plan:
  assumes s: "wfSnapshot i s" "attempts s = []" and seen: "wfObservation seen" "nextNonce s < obsNonce seen"
    and stamp: "isoTimestamp stamp"
    and r: "r = \<lparr>repairAt = stamp, previousNextNonce = nextNonce s, repairNextNonce = obsNonce seen, repairObservation = seen\<rparr>"
  shows "planFor s i seen stamp (RepairAvailable r (repairedSnapshot s seen r))"
    and "last (repairs (repairedSnapshot s seen r)) = r"
proof -
  let ?k = "length (repairs s) + 1 - MAX_RETAINED_NONCE_REPAIRS"
  have "?k \<le> length (repairs s)" by (simp add: MAX_RETAINED_NONCE_REPAIRS_def)
  then have "repairs s @ [r] = take ?k (repairs s) @ lastOf MAX_RETAINED_NONCE_REPAIRS (repairs s @ [r])"
    unfolding lastOf_def by simp
  then show "planFor s i seen stamp (RepairAvailable r (repairedSnapshot s seen r))"
    using repaired_wf [OF assms(1-5)] s(2)
    by (auto simp: planFor_def r repairedSnapshot_def lastOf_def intro!: exI [of _ "take ?k (repairs s)"])
  show "last (repairs (repairedSnapshot s seen r)) = r"
    using lastOf_append [of MAX_RETAINED_NONCE_REPAIRS "repairs s" r]
    by (auto simp: repairedSnapshot_def MAX_RETAINED_NONCE_REPAIRS_def)
qed

lemma plan_decides:
  assumes s: "wfSnapshot i s" and seen: "wfObservation seen" and n: "uint256 latest" "uint256 pend" "isoTimestamp stamp"
  shows "\<exists>plan. planNonceSync s i seen latest pend stamp = Inr plan \<and>
    (if repairDue s seen latest pend then planFor s i seen stamp plan
     else \<forall>r t. plan \<noteq> RepairAvailable r t)"
proof -
  let ?due = "repairDue s seen latest pend"
  let ?r = "\<lparr>repairAt = stamp, previousNextNonce = nextNonce s, repairNextNonce = obsNonce seen, repairObservation = seen\<rparr>"
  let ?b = "blockNumber (anchor (lastObservation s))" and ?h = "toLowerCase (blockHash (anchor (lastObservation s)))"
  have read: "validateSnapshot s i = Inr s" "readObservation (embObservation seen) = Inr seen"
    using s seen by (simp_all add: validate_emb readObservation_emb)
  have checks: "requireNonce latest = Inr ()" "requireNonce pend = Inr ()" "requireTimestamp stamp = Inr ()"
    using n by (simp_all add: requireNonce_def requireTimestamp_def)
  have due: "?due \<longleftrightarrow> attempts s = [] \<and> \<not> blockNumber (anchor seen) < ?b \<and>
      \<not> (blockNumber (anchor seen) = ?b \<and> toLowerCase (blockHash (anchor seen)) \<noteq> ?h) \<and>
      \<not> (obsNonce seen < nextNonce s \<or> obsNonce seen < obsNonce (lastObservation s)) \<and>
      \<not> (obsNonce seen \<noteq> latest \<or> obsNonce seen \<noteq> pend) \<and> obsNonce seen \<noteq> nextNonce s"
    by (auto simp: repairDue_def blockAnchorsMatch_def)
  show ?thesis
  proof (cases ?due)
    case True
    then have d: "attempts s = []" "nextNonce s < obsNonce seen" by (simp_all add: repairDue_def)
    note p = repaired_plan [OF s d(1) seen d(2) n(3) refl]
    have v: "validateSnapshot (repairedSnapshot s seen ?r) i = Inr (repairedSnapshot s seen ?r)"
      using repaired_wf [OF s d(1) seen d(2) n(3)] by (simp add: validate_emb)
    note t = True [unfolded due]
    have "planNonceSync s i seen latest pend stamp = Inr (RepairAvailable ?r (repairedSnapshot s seen ?r))"
      unfolding planNonceSync_def read checks bindE_def sum.case Let_def
      by (simp only: t [THEN conjunct1] t [THEN conjunct2, THEN conjunct1]
          t [THEN conjunct2, THEN conjunct2, THEN conjunct1]
          t [THEN conjunct2, THEN conjunct2, THEN conjunct2, THEN conjunct1]
          t [THEN conjunct2, THEN conjunct2, THEN conjunct2, THEN conjunct2, THEN conjunct1]
          t [THEN conjunct2, THEN conjunct2, THEN conjunct2, THEN conjunct2, THEN conjunct2]
          v p(2) sum.case if_False simp_thms)
    then show ?thesis using p(1) True by simp
  next
    case False
    then show ?thesis
      using False [unfolded due]
      unfolding planNonceSync_def read checks bindE_def sum.case Let_def by auto
  qed
qed

subsection \<open>The command\<close>

text \<open>The files after an operation that did not touch them, whatever it asked the operating system.\<close>

lemma verifyOwnership_files: "verifyOwnership E o1 (fs, w) = (r, (gs, v)) \<Longrightarrow> gs = fs"
  by (auto simp: verifyOwnership_def io_defs split: prod.splits sum.splits if_splits)

lemma verifyOwnership_evidence:
  assumes "verifyOwnership E ownership s = (Inr (), t)"
  shows "lockEvidence (snLock E) ownership"
proof -
  from assms obtain v w where "assertServiceLockHeld (snLock E) (Some (stateDirectory ownership)) None v = (Inr ownership, w)"
    by (auto simp: verifyOwnership_def onWorld_def andThen_def unlessThrow_def ret_def throw_def
        split: prod.splits sum.splits if_splits)
  then show ?thesis by (rule lock_evidence)
qed

lemma abortPoint_Inr: "abortPoint a s = (Inr x, t) \<longleftrightarrow> \<not> a s \<and> t = s"
  by (auto simp: abortPoint_def)

text \<open>
  What an applied repair rests on: an observation of the chain, the plan for the journal that was read
  at first, with no attempts, the same journal as the last that was loaded from the file, and a lock
  that was verified after that. Then nothing but the planned journal is left to be found.
\<close>

definition syncEvidence :: "'w sync_env \<Rightarrow> JournalNonceRepair \<Rightarrow> 'w files \<Rightarrow> bool" where
  "syncEvidence E repair t =
     (\<exists>ident ownership s seen latest pend ms planned.
        let K = syncStore E ident ownership in
        snApply E \<and> lockEvidence (snLock E) ownership \<and> attempts s = [] \<and>
        (\<exists>u v. inspectNonceSync (snClient E) (snChainId E) ident (snFinality E) (snAborted E) u =
           (Inr (SyncObserved seen latest pend), v)) \<and>
        planNonceSync s ident seen latest pend (toISOString ms) = Inr (RepairAvailable repair planned) \<and>
        (\<exists>u v v'. loadJournalFile K u = (Inr (Present s), v) \<and> verifyOwnership E ownership v = (Inr (), v') \<and>
           saveJournalFile K planned v' = (Inr (), t) \<and>
           (exactIntegers (jfNumbers K) \<longrightarrow> fsOk (fst u) \<longrightarrow> journalsFound K t = {Inr (Present planned)})))"

lemma applySync_evidence:
  assumes run: "applySync E ownership K s repair planned x = (Inr (SyncApplied p), t)"
  shows "p = repair \<and> lockEvidence (snLock E) ownership \<and>
    (\<exists>u v v'. loadJournalFile K u = (Inr (Present s), v) \<and> verifyOwnership E ownership v = (Inr (), v') \<and>
       saveJournalFile K planned v' = (Inr (), t) \<and>
       (exactIntegers (jfNumbers K) \<longrightarrow> fsOk (fst u) \<longrightarrow> journalsFound K t = {Inr (Present planned)}))"
proof -
  from run obtain store y u z v v' r where p: "p = repair"
    and o: "openJournalFile K y = (Inr store, u)"
    and l: "loadJournalFile store z = (Inr r, v)" "matchesSnapshot r s"
    and w: "verifyOwnership E ownership v = (Inr (), v')"
    and w': "saveJournalFile store planned v' = (Inr (), t)"
    unfolding applySync_def
    by (auto simp: andThen_Inr abortPoint_Inr ret_def split: if_splits)
  from o have K: "store = K"
    by (auto simp: openJournalFile_def andThen_Inr ret_def dest: newJournalStore_same)
  have r: "r = Present s" using l(2) by (simp add: matchesSnapshot_def split: TransactionJournalRead.splits)
  have u': "loadJournalFile K z = (Inr (Present s), v)" using l(1) by (simp add: K r)
  have "journalsFound K t = {Inr (Present planned)}" if N: "exactIntegers (jfNumbers K)" and ok: "fsOk (fst z)"
  proof -
    obtain fs a gs b hs c where e: "z = (fs, a)" "v = (gs, b)" "v' = (hs, c)" by (cases z; cases v; cases v') auto
    have "onlyClock fs gs" using wp_Inr [OF loadJournalFile_wp u' [unfolded e]] by simp
    then have "fsOk gs" using onlyClock_same(1) ok by (auto simp: e samePath_def)
    then have "fsOk hs" using verifyOwnership_files [of E ownership gs b "Inr ()" hs c] w by (simp add: e)
    from wp_Inr [OF saveJournalFile_wp [OF N this] w' [unfolded K e]] show ?thesis by simp
  qed
  then show ?thesis using p verifyOwnership_evidence [OF w] u' w w' [unfolded K] by blast
qed

text \<open>A result that only previews: nothing but the requests has touched the files.\<close>

definition filesKept :: "'w files \<Rightarrow> 'w files \<Rightarrow> bool" where
  "filesKept s t = onlyClock (fst s) (fst t)"

definition quietInspection :: "'w sync_env \<Rightarrow> bool" where
  "quietInspection E =
     (\<forall>ident s. filesKept s (snd (inspectNonceSync (snClient E) (snChainId E) ident (snFinality E) (snAborted E) s)))"

definition syncOutcome :: "'w sync_env \<Rightarrow> 'w files \<Rightarrow> exn + SyncNonceResult \<Rightarrow> 'w files \<Rightarrow> bool" where
  "syncOutcome E s r t =
     ((\<forall>repair. r = Inr (SyncApplied repair) \<longrightarrow> syncEvidence E repair t) \<and>
      (\<not> snApply E \<longrightarrow> quietInspection E \<longrightarrow> filesKept s t) \<and>
      (\<forall>repair planned. r = Inr (SyncPlanned (RepairAvailable repair planned)) \<longrightarrow> \<not> snApply E))"

lemma filesKept_trans: "filesKept s t \<Longrightarrow> filesKept t u \<Longrightarrow> filesKept s u"
proof -
  assume a: "filesKept s t" "filesKept t u"
  obtain k d where u: "fst u = (fst t)\<lparr>fsClock := k, fsDown := d\<rparr>" using a(2) by (auto simp: filesKept_def onlyClock_def)
  show ?thesis using onlyClock_step(1) [of "fst s" "fst t" d k] a(1) by (simp add: filesKept_def u)
qed

lemma filesKept_refl: "filesKept s s"
  by (simp add: filesKept_def onlyClock_refl)

definition keptStep :: "nat \<Rightarrow> nat \<Rightarrow> 'w files \<Rightarrow> 'w files \<Rightarrow> bool" where
  "keptStep p n s t = filesKept s t"

interpretation kept_files: graded_steps keptStep
  by unfold_locales (auto simp: keptStep_def intro: filesKept_refl filesKept_trans)

lemma kept_world: "stepsIn (keptStep 0 0) (onWorld m)"
  by (auto simp: stepsIn_def keptStep_def filesKept_def onWorld_def onlyClock_refl split: prod.splits)

lemma kept_point: "stepsIn (keptStep 0 0) (abortPoint a)"
  by (auto simp: stepsIn_def keptStep_def abortPoint_def filesKept_refl)

lemma kept_load: "stepsIn (keptStep 0 0) (loadJournalFile K)"
proof (rule stepsInI)
  fix s r t assume run: "loadJournalFile K s = (r, t)"
  obtain fs w gs v where e: "s = (fs, w)" "t = (gs, v)" by (cases s; cases t) auto
  have "onlyClock fs gs"
    using wp_Inr [OF loadJournalFile_wp] wp_Inl [OF loadJournalFile_wp] run [unfolded e] by (cases r) fastforce+
  then show "keptStep 0 0 s t" by (simp add: keptStep_def filesKept_def e)
qed

lemma kept_inspection:
  "quietInspection E \<Longrightarrow>
    stepsIn (keptStep 0 0) (inspectNonceSync (snClient E) (snChainId E) ident (snFinality E) (snAborted E))"
  by (rule stepsInI) (metis keptStep_def quietInspection_def snd_conv)

lemma preview_keeps_files:
  assumes "\<not> snApply E" and "quietInspection E"
  shows "stepsIn (keptStep 0 0) (syncNonce E)"
  unfolding syncNonce_def readJournalFile_def Let_def using assms(1)
  by (auto intro!: kept_files.in_seq kept_files.in_lift kept_files.in_ret kept_point kept_world kept_load
      kept_inspection [OF assms(2)] split: TransactionJournalRead.split NonceSyncInspection.split NonceSyncPlan.split)

lemma sync_cases:
  "(case q of Missing \<Rightarrow> f | Present p \<Rightarrow> g p) s = (Inr y, t) \<longleftrightarrow>
     q = Missing \<and> f s = (Inr y, t) \<or> (\<exists>p. q = Present p \<and> g p s = (Inr y, t))"
  "(case i of SyncObserved a b c \<Rightarrow> h a b c | SyncAnchorChanged d \<Rightarrow> k d) s = (Inr y, t) \<longleftrightarrow>
     (\<exists>a b c. i = SyncObserved a b c \<and> h a b c s = (Inr y, t)) \<or> (\<exists>d. i = SyncAnchorChanged d \<and> k d s = (Inr y, t))"
  "(case plan of RepairAvailable repair planned \<Rightarrow> m repair planned | _ \<Rightarrow> n) s = (Inr y, t) \<longleftrightarrow>
     (\<exists>repair planned. plan = RepairAvailable repair planned \<and> m repair planned s = (Inr y, t)) \<or>
     (\<forall>repair planned. plan \<noteq> RepairAvailable repair planned) \<and> n s = (Inr y, t)"
    apply (cases q; simp)
   apply (cases i; simp)
  apply (cases plan; simp)
  done

lemma sync_outcome:
  assumes run: "syncNonce E s = (r, t)"
  shows "syncOutcome E s r t"
proof -
  have "syncEvidence E p t" if r: "r = Inr (SyncApplied p)" for p
  proof -
    from run [unfolded r syncNonce_def Let_def] obtain ident ownership j u v seen latest pend ms repair planned x where
      e: "attempts j = []" "snApply E"
      "inspectNonceSync (snClient E) (snChainId E) ident (snFinality E) (snAborted E) u = (Inr (SyncObserved seen latest pend), v)"
      "planNonceSync j ident seen latest pend (toISOString ms) = Inr (RepairAvailable repair planned)"
      "applySync E ownership (syncStore E ident ownership) j repair planned x = (Inr (SyncApplied p), t)"
      by (auto simp: andThen_Inr abortPoint_Inr ret_def liftPure_def sync_cases split: if_splits)
    from applySync_evidence [OF e(5)] e(1-4) show ?thesis
      unfolding syncEvidence_def Let_def by blast
  qed
  moreover have "filesKept s t" if "\<not> snApply E" "quietInspection E"
    using stepsInD [OF preview_keeps_files [OF that] run] by (simp add: keptStep_def)
  moreover have "\<not> snApply E" if r: "r = Inr (SyncPlanned (RepairAvailable repair planned))" for repair planned
    using run [unfolded r syncNonce_def Let_def]
    by (auto simp: andThen_Inr abortPoint_Inr ret_def liftPure_def applySync_def sync_cases split: if_splits)
  ultimately show ?thesis by (simp add: syncOutcome_def)
qed

end
