(* ===== verification/StoreClaims.thy ===== *)
theory StoreClaims
  imports SampleRelayer NonceSyncProofs
begin

text \<open>The properties of the files, of an import and of the durable pass.\<close>

text \<open>
  C34: replacing a file is atomic, also when single operations fail or the machine stops at any of
  them: what is found under the path, at once or after a restart, is what was found there before or the
  complete new contents; and after a completed replacement it is the new contents, also after any stop.
\<close>

theorem durable_replacement_is_atomic:
  assumes "fsOk fs" and "durableReplace R hook path contents (fs, w) = (r, (gs, v))"
  shows "fileAt gs path \<in> {fileAt fs path, Some (newContent contents)} \<and>
    (\<forall>x. mayFind gs path x \<longrightarrow> mayFind fs path x \<or> x = Some (newContent contents)) \<and>
    (r = Inr () \<longrightarrow> fileAt gs path = Some (newContent contents) \<and>
       (\<forall>x. mayFind gs path x \<longrightarrow> x = Some (newContent contents)))"
  using durableReplace_result [OF assms] by blast

theorem durable_replacement_is_atomic_witness:
  "fileAt (fst (snd (durableReplace \<lparr>replPid = js ''1'', replUuid = ret sampleUuid\<rparr> None (js ''cp'') (js ''new'')
      (emptyDirectory stopsAtSixth, ())))) (js ''cp'') \<in> {None, Some (newContent (js ''new''))}"
proof -
  obtain r gs v where "durableReplace \<lparr>replPid = js ''1'', replUuid = ret sampleUuid\<rparr> None (js ''cp'') (js ''new'')
      (emptyDirectory stopsAtSixth, ()) = (r, (gs, v))" by (metis surj_pair)
  from durable_replacement_is_atomic [OF emptyDirectory_facts(1) this] this show ?thesis
    by (simp add: relayer_samples)
qed

text \<open>
  C35: the text of the checkpoint file is read back as exactly the checkpoints it was written for, and
  what is read from any file has one non-negative block for each of a set of normalised addresses.
\<close>

theorem checkpoint_file_round_trip:
  assumes "properConfig K" and "properState K m"
  shows "decodeFile K (Some (newContent (checkpointText K m))) = Inr m \<and>
    (\<forall>x k. decodeFile K x = Inr k \<longrightarrow> properState K k)"
  using decode_written [OF assms] parsed_proper [OF assms(1)]
  by (auto simp: decodeFile_def properState_def split: option.splits)

theorem checkpoint_file_round_trip_witness:
  "decodeFile (sampleCheckpoints :: unit checkpoint_env)
     (Some (newContent (checkpointText (sampleCheckpoints :: unit checkpoint_env) [(sampleConsumer, 12)]))) =
     Inr [(sampleConsumer, 12)]"
proof -
  have "properState (sampleCheckpoints :: unit checkpoint_env) [(sampleConsumer, 12)]" by (simp add: properState_def sampleCheckpoints_def)
  from checkpoint_file_round_trip [OF sampleConfig this] show ?thesis by simp
qed

text \<open>
  C36: the store on the file implements a map of checkpoints that only moves forward. After a completed
  save nothing but the saved checkpoint over one that was there before can be found, by a load or by a
  restart; a failed or interrupted one leaves what was there, or that; and no checkpoint ever goes back.
\<close>

theorem saved_checkpoint_is_found:
  assumes "properConfig K" and "storeGood K s" and "ckGetAddress K a = Inr a"
    and "saveCheckpointFile K a n s = (q, t)"
  shows "storeGood K t \<and>
    (\<forall>m' \<in> foundBy K t. m' \<in> foundBy K s \<or> (\<exists>m \<in> foundBy K s. movedTo a n m m')) \<and>
    (q = Inr () \<longrightarrow> (\<exists>m \<in> foundBy K s. movedTo a n m (m(a \<mapsto> n)) \<and> foundBy K t = {m(a \<mapsto> n)}) \<and>
       (\<forall>x u. loadCheckpoint K a t = (Inr x, u) \<longrightarrow> x = Some n))"
proof -
  have good: "ckGetAddress K a = Inr a \<and> storeReady K s" using assms(1-3) by (simp add: storeReady_def)
  note w = saveCheckpointFile_wp [OF assms(1-3), of n]
  have "(\<exists>m \<in> foundBy K s. movedTo a n m (m(a \<mapsto> n)) \<and> foundBy K t = {m(a \<mapsto> n)})" "storeGood K t" if "q = Inr ()"
    using w that assms(4) by (simp_all add: wp_def)
  moreover have "storeGood K t" using w assms(4) by (cases q) (simp_all add: wp_def)
  moreover have "\<forall>m' \<in> foundBy K t. m' \<in> foundBy K s \<or> (\<exists>m \<in> foundBy K s. movedTo a n m m')"
    using file_store.save_moves [OF good assms(4)] by simp
  moreover have "x = Some n" if "q = Inr ()" "loadCheckpoint K a t = (Inr x, u)" for x u
    using file_store.load_after_save [OF good assms(4) [unfolded that(1)] that(2)] .
  ultimately show ?thesis by blast
qed

theorem saved_checkpoint_is_found_witness:
  "\<exists>q t. saveCheckpointFile sampleCheckpoints sampleConsumer 12 (None, emptyDirectory (\<lambda>_. Works), ()) = (q, t) \<and>
     storeGood sampleCheckpoints t \<and> foundBy sampleCheckpoints t \<subseteq> {\<lambda>_. None, [sampleConsumer \<mapsto> 12]}"
proof -
  obtain q t where run: "saveCheckpointFile sampleCheckpoints sampleConsumer 12 (None, emptyDirectory (\<lambda>_. Works), ()) = (q, t)"
    by (metis surj_pair)
  have "ckGetAddress sampleCheckpoints sampleConsumer = Inr sampleConsumer" by (simp add: sampleCheckpoints_def)
  from saved_checkpoint_is_found [OF sampleConfig sampleStoreGood(1) this run] run show ?thesis
    by (auto simp: relayer_samples movedTo_def fun_upd_def)
qed

text \<open>
  C37: a completed import tells the truth about the registry: ``already stored'' and ``imported'' only
  carry a randomness that the registry returned for this very round, the first after the registry said
  that the round is stored, the second at the block of a successful receipt of the transaction that is
  reported and equal to what the simulation of this round's submission returned; and the other results
  name this round.
\<close>

theorem import_tells_the_truth:
  assumes "importRound E r w = (Inr res, v)"
  shows "importEvidence E r res"
  by (rule import_evidence [OF assms])

definition sampleImport :: "(unit, unit) import_env" where
  "sampleImport =
     \<lparr>imTools = sampleTools, imClient = sampleContract, imDeployment = sampleDeployment,
      imSimulate = (\<lambda>_ _. throw (ExternalError 0)), imWaitReceipt = (\<lambda>_ _. throw (ExternalError 0)),
      imCurve = sampleCurve, imHttp = sampleHttp, imNow = ret 0, imDelay = (\<lambda>_. ret ()),
      imSubmitter = \<lparr>bsFindRetained = (\<lambda>_. ret None), bsSubmit = (\<lambda>_. throw (ExternalError 0))\<rparr>,
      imReceiptTimeout = None, imFetchTimeout = None, imOnProgress = None, imAborted = (\<lambda>_. False)\<rparr>"

theorem import_tells_the_truth_witness:
  "importEvidence sampleImport 7 (AlreadyStored 7 (hexId 32 57))"
proof -
  have "importRound sampleImport 7 () = (Inr (AlreadyStored 7 (hexId 32 57)), ())" by code_simp
  from import_tells_the_truth [OF this] show ?thesis .
qed

text \<open>
  C38: the checkpoint that a durable pass verifies is exact: it lies in the scanned window, every round
  requested below it was read as stored at the pass's durable block, and it ends at the window's end or
  at the block of a request whose round was not read as stored.
\<close>

theorem verified_checkpoint_is_exact:
  assumes "reconcileDurableRequests D n durable m w = (Inr (DurableScanned s), v)"
    and "dsCheckpoint s = CheckpointVerified k"
  shows "n \<le> k \<and> k \<le> dsTo s + 1 \<and> dsTo s \<le> durable \<and>
    (\<exists>rs. requestsRead D n (dsTo s) rs \<and> (\<forall>r \<in> set rs. reqBlock r < k \<longrightarrow> readStored D (dsAnchor s) (reqRound r)) \<and>
       (k = dsTo s + 1 \<or> (\<exists>r \<in> set rs. \<exists>f \<in> set (dsFulfillment s). reqBlock r = k \<and> droRound f = reqRound r \<and>
          droFulfillment f \<noteq> FulfilStored)))"
proof -
  obtain rs where p: "scannedPass D n durable m s rs"
    using reconcile_wp [of D n durable m w] assms(1) by (auto simp: wp_def)
  then have "requestsRead D n (dsTo s) rs" "dsTo s \<le> durable" by (auto simp: scannedPass_def)
  then show ?thesis using scanned_checkpoint [OF p assms(2)] by blast
qed

definition sampleDurable :: "sample_world durable_env" where
  "sampleDurable =
     \<lparr>durClient = sampleClient, durLogs = sampleLogs, durRegistry = sampleReader, durDeployment = sampleDeployment,
      durConsumer = sampleConsumer,
      durProcess = \<lparr>procImport = (\<lambda>r. ret (AlreadyStored r [])), procCompleted = None, procIncomplete = None,
        procAborted = (\<lambda>_. False)\<rparr>\<rparr>"

theorem verified_checkpoint_is_exact_witness:
  "readStored sampleDurable \<lparr>blockNumber = 20, blockHash = hexId 32 50\<rparr> 7"
proof -
  have "case reconcileDurableRequests sampleDurable 10 20 100 sampleWorld of
      (Inr (DurableScanned s), v) \<Rightarrow> dsCheckpoint s = CheckpointVerified 21 \<and> dsTo s = 20 \<and>
        dsAnchor s = \<lparr>blockNumber = 20, blockHash = hexId 32 50\<rparr>
    | _ \<Rightarrow> False" by code_simp
  then obtain s v where run: "reconcileDurableRequests sampleDurable 10 20 100 sampleWorld = (Inr (DurableScanned s), v)"
      and s: "dsCheckpoint s = CheckpointVerified 21" "dsTo s = 20" "dsAnchor s = \<lparr>blockNumber = 20, blockHash = hexId 32 50\<rparr>"
    by (auto split: prod.splits sum.splits DurableRequestResult.splits)
  from verified_checkpoint_is_exact [OF run s(1)] obtain rs where "requestsRead sampleDurable 10 20 rs"
      "\<forall>r \<in> set rs. reqBlock r < 21 \<longrightarrow> readStored sampleDurable (dsAnchor s) (reqRound r)"
    unfolding s(2) by blast
  then show ?thesis
    by (auto simp: s(3) requestsRead_def sampleDurable_def sampleLogs_def getQuicknetRandomnessRequests_def requestOf_def
        andThen_def unlessThrow_def throw_def ret_def liftPure_def)
qed

text \<open>
  C39: the plan of a nonce repair is exact. For a valid journal, observation, counts and time it always
  decides: a repair is available exactly when the journal retains no attempt, the observed nonce is
  ahead of it and equal to the latest and the pending count, and neither the anchor nor the nonce goes
  back; the planned journal is then valid, starts at the observed nonce, and its history of repairs is
  the old one with the repair at its end, of which the oldest beyond the limit are dropped.
\<close>

theorem nonce_sync_plan_is_exact:
  assumes "wfSnapshot i s" and "wfObservation seen" and "uint256 latest" and "uint256 pend" and "isoTimestamp stamp"
  shows "\<exists>plan. planNonceSync s i seen latest pend stamp = Inr plan \<and>
    (if repairDue s seen latest pend then planFor s i seen stamp plan else \<forall>r t. plan \<noteq> RepairAvailable r t)"
  by (rule plan_decides [OF assms])

theorem nonce_sync_plan_is_exact_witness:
  "\<exists>plan. planNonceSync (sampleSnapshot []) sampleIdentity (sampleObservation 12 9) 9 9 sampleTime = Inr plan \<and>
    planFor (sampleSnapshot []) sampleIdentity (sampleObservation 12 9) sampleTime plan"
proof -
  have "wfObservation (sampleObservation 12 9)" "uint256 9"
    by (simp_all add: samples uint256_def MAX_UINT256_def)
  note plan = nonce_sync_plan_is_exact [OF sampleSnapshot_wf(1) this(1) this(2) this(2) sampleTime]
  have "repairDue (sampleSnapshot []) (sampleObservation 12 9) 9 9"
    by (simp add: repairDue_def sampleSnapshot_def sampleObservation_def sampleAnchor_def)
  with plan show ?thesis by simp
qed

text \<open>
  C40: the command adopts a nonce only with evidence. When it reports an applied repair, it was asked to
  apply, it held the verified lock of the directory before it saved, the plan was made for the journal
  that was last loaded from the file, which retains no attempt, with an observation it had from the
  chain, and the file and every restart now have the planned journal. A preview leaves the files to
  the requests, and an available repair is only ever reported by a preview.
\<close>

theorem nonce_sync_is_justified:
  "case syncNonce E s of (r, t) \<Rightarrow> syncOutcome E s r t"
  by (cases "syncNonce E s") (simp add: sync_outcome)

end
