(* ===== verification/ReadingOrder.thy ===== *)
theory ReadingOrder
  imports EffectLog
begin

text \<open>
  The interface of a client that is only read from: along an order on worlds that each of its requests
  respects, every read and inspection of the chain respects it too. And the interface of a coordinator
  whose services and journal writes respect an order: then each of its operations does.
\<close>

subsection \<open>A client that is read from\<close>

locale reading_client = effect_order R
  for R :: "'w \<Rightarrow> 'w \<Rightarrow> bool" +
  fixes C :: "'w chain_client"
  assumes requests: "along R (getBlock C n)" "along R (getFullBlock C n)" "along R (getTaggedBlockNumber C tag)"
      "along R (getBlockNumber C)" "along R (getTransactionCountAt C who n)" "along R (getTransactionCountTagged C who tag)"
      "along R (getTransactionReceipt C h)" "along R (requestSendRaw C b)"
begin

named_theorems reads \<open>computations along the order of the client\<close>

lemmas steps = along_rules requests

lemma anchors_along [reads]: "along R (getBlockAnchor C n)" "along R (checkBlockAnchor C a)"
  unfolding checkBlockAnchor_def getBlockAnchor_def by (auto intro!: steps)

lemma nonces_along [reads]:
  "along R (readAnchoredNonce C who a)" "along R (readLiveNonce C who tag)"
  unfolding readAnchoredNonce_def readLiveNonce_def by (auto intro!: steps reads split: option.split)

lemma bootstrap_along [reads]: "along R (inspectSignerBootstrap C who a)"
  unfolding inspectSignerBootstrap_def by (auto intro!: steps reads split: option.split AnchoredNonceResult.split)

lemma receipt_along [reads]: "along R (findReceipt C h)" "along R (readReceipt C h a)"
  unfolding readReceipt_def findReceipt_def Let_def by (auto intro!: steps reads split: option.split)

lemma receipts_along [reads]: "along R (readReceipts C a i f x hs)"
proof (induction hs arbitrary: i f x)
  case (Cons h hs)
  then show ?case
    by (auto intro!: steps reads split: AttemptReceiptResult.split)
qed (simp add: steps)

lemma reconcile_along [reads]: "along R (reconcileAttemptReceipt C hs a)"
  unfolding reconcileAttemptReceipt_def by (auto intro!: steps reads split: option.split)

lemma recheck_along [reads]:
  "along R (inspectInclusionEvidence C saved a)" "along R (recheckAttemptInclusionWithinPass C seen a)"
  unfolding recheckAttemptInclusionWithinPass_def inspectInclusionEvidence_def Let_def
  by (auto intro!: steps reads split: option.split)

lemma scan_along [reads]: "along R (scanBlocks C who n a through number previous scanned)"
proof (induction "nat (through + 1 - number)" arbitrary: number previous scanned rule: less_induct)
  case less
  then show ?case
    unfolding scanBlocks.simps [of C who n a through number previous scanned] Let_def
    by (auto intro!: steps)
qed

lemma search_along [reads]:
  "along R (scanFromBoundary C who n ts seen m b)" "along R (searchAttemptReplacement C who n ts search seen m)"
  unfolding searchAttemptReplacement_def scanFromBoundary_def Let_def
  by (auto intro!: steps reads split: option.split scan_result.split)

lemma attempts_along [reads]: "along R (inspectAttempts C head p as)"
proof (induction as arbitrary: p)
  case (Cons a as)
  then show ?case
    by (auto intro!: steps reads split: attempt_phase.split InclusionRecheckResult.split AttemptReceiptResult.split)
qed (simp add: steps)

lemma candidates_along [reads]: "along R (searchCandidates C s head seen m p is)"
proof (induction "is" arbitrary: p)
  case (Cons i js)
  then show ?case
    by (auto intro!: steps reads simp: Let_def split: ReplacementSearchResult.split)
qed (simp add: steps)

lemma inspections_along [reads]:
  "along R (decideRecovery C s a r seen m)" "along R (inspectSignerRecovery C s anch m)"
  "along R (optionalSearch C s head seen rng p)" "along R (outerCheck C b head)"
  unfolding inspectSignerRecovery_def decideRecovery_def optionalSearch_def outerCheck_def Let_def
  by (auto intro!: steps reads split: option.split list.split sum.split AttemptReceiptResult.split
      ReplacementSearchResult.split AnchoredNonceResult.split)

lemma inclusions_along [reads]:
  "along R (inspectSignerInclusionsInternal C s head rng b)" "along R (inspectSignerInclusions C s head rng)"
  "along R (inspectSignerInclusionsWithinPass C s head rng)"
  unfolding inspectSignerInclusions_def inspectSignerInclusionsWithinPass_def inspectSignerInclusionsInternal_def
  by (auto intro!: steps reads split: option.split sum.split AnchoredNonceResult.split)

end

subsection \<open>A coordinator along an order\<close>

text \<open>
  The orders of the world and of the coordinator's state with it. An update of the coordinator that
  leaves its journal persistence alone is a step of the second, and so are the writes of the journal.
\<close>

locale ordered_coordinator = client: reading_client R C + whole: effect_order T
  for R :: "'w \<Rightarrow> 'w \<Rightarrow> bool" and C :: "'w chain_client" and T :: "'w cstate \<Rightarrow> 'w cstate \<Rightarrow> bool" +
  fixes E :: "'w coordinator_env"
  assumes services: "along R (envNow E)" "along R (envRandomUuid E)" "R w (snd (envDateNow E w))"
    and updates: "persistence d = persistence c \<Longrightarrow> R w v \<Longrightarrow> T (c, w) (d, v)"
    and writes: "along T (onPersistence (savePersistence (envViem E) (envStore E) s))"
      "along T (onPersistence (retryPersistenceWrite (envStore E)))"
begin

named_theorems ops \<open>computations along the order of the coordinator\<close>

lemma update: "persistence d = persistence c \<Longrightarrow> T (c, w) (d, w)"
  by (rule updates [OF _ client.stay])

lemma world_along: "along R m \<Longrightarrow> along T (onWorld m)"
  using updates by (auto simp: along_def onWorld_def split: prod.split) (metis snd_conv)

lemma upd_along: "(\<And>c. persistence (f c) = persistence c) \<Longrightarrow> along T (upd f)"
  by (auto simp: along_def upd_def modifyState_def update)

lemma readC_along: "(\<And>c. along T (k c)) \<Longrightarrow> along T (readC k)"
  by (simp add: along_def readC_def)

lemmas moves = whole.along_rules readC_along upd_along update world_along writes

lemma time_along: "along R (currentTimestamp E)" "along R (timestamp E)"
proof -
  show "along R (currentTimestamp E)"
    using services(3) by (auto simp: along_def currentTimestamp_def split: prod.split) (metis snd_conv)
  then show "along R (timestamp E)"
    unfolding timestamp_def by (auto intro!: client.along_rules services split: option.split jsval.split)
qed

lemmas frames = emit_def refreshReleased_def updOwner_def setBracket_def revokeActionAuthorization_def
  settleWrite_def updateDurableRecoveryRevision_def latchExhaustedSearch_def latchUnattributedActivity_def
  failBracket_def failOpenBracket_def dropPendingIfIdle_def prepareRollback_def Let_def

lemma refresh_along [ops]: "along T (refresh E cy oper)" "along T (finishWrite E cy)" "along T (leave E cy oper)"
proof -
  show r: "along T (refresh E cy oper)" for oper
    unfolding refresh_def refreshBlocked_def Let_def
    by (auto intro!: moves time_along simp: frames split: option.split)
  show "along T (finishWrite E cy)"
    unfolding finishWrite_def
    by (auto intro!: moves r simp: frames split: option.split PendingWrite.split TransactionJournalRead.split bool.split)
  show "along T (leave E cy oper)" unfolding leave_def by (auto intro!: moves r)
qed

lemma guards_along [ops]:
  "along T assertAvailable" "along T assertNoPendingWrite" "along T (assertInspectionOwner g)"
  "along T (assertAvailableTo g)" "along T (assertInspectionWorkAllowed g)"
  unfolding assertAvailable_def assertNoPendingWrite_def assertInspectionWorkAllowed_def assertAvailableTo_def
    assertInspectionOwner_def
  by (auto intro!: moves)

lemma signing_along:
  assumes "\<And>t. along R (signTransaction account t)"
  shows "along R (signPreparedTransaction V i n account tx)"
  unfolding signPreparedTransaction_def Let_def by (auto intro!: client.along_rules assms)

lemma prepare_along:
  assumes "\<And>t. along R (signTransaction account t)"
  shows "along T (prepareAttempt E account tx wid cy)"
  unfolding prepareAttempt_def prepareBody_def Let_def
  by (auto intro!: moves ops services(1,2) time_along signing_along [OF assms] simp: frames
      split: option.split bool.split TransactionJournalRead.split)

lemma broadcast_along [ops]: "along T (broadcastAttempt E C aid cy)"
  unfolding broadcastAttempt_def broadcastBody_def sendRecorded_def Let_def
  by (auto intro!: moves ops client.requests client.along_rules simp: frames
      split: option.split sum.split TransactionJournalRead.split)

lemma inspection_along [ops]:
  "along T beginInspection" "along T (finishInspection E g)" "along T (requestAbandon g)"
  "along T (completeAbandonment E g)"
  unfolding beginInspection_def finishInspection_def requestAbandon_def completeAbandonment_def
  by (auto intro!: moves ops simp: frames)

lemma operation_along: "along T m \<Longrightarrow> along T (runInspectionOperation g cy m)"
  unfolding runInspectionOperation_def enterOperation_def
  by (auto intro!: moves ops simp: frames split: option.split InspectionHeadBracket.split)

lemma head_along [ops]: "along T (openHead C head g)"
  unfolding openHead_def openInspectionHeadOwned_def
  by (auto intro!: operation_along moves ops client.reads simp: frames split: option.split)

lemma recover_along [ops]: "along T (recoverInspection E C anch rng g cy)"
  unfolding recoverInspection_def recoverOwned_def recoverMissing_def recoverPresent_def Let_def
  by (auto intro!: operation_along moves ops client.reads simp: frames
      split: option.split TransactionJournalRead.split SignerBootstrapDecision.split)

lemma check_along [ops]: "along T (checkInclusionsInspection E C head rng g cy)"
  unfolding checkInclusionsInspection_def checkInclusionsOwned_def inclusionsBody_def inspectInBracket_def
    closingCheck_def Let_def
  by (auto intro!: operation_along moves ops client.reads simp: frames
      split: option.split TransactionJournalRead.split SignerInclusionInspection.split InspectionHeadBracket.split)

lemma own_along [ops]:
  "along T (recover E C anch rng cy)" "along T (checkInclusions E C head k cy)"
  unfolding recover_def checkInclusions_def inOwnInspection_def abandonInspection_def
  by (auto intro!: moves ops)

lemma retry_along [ops]: "along T (retryPersistence E cy)"
  unfolding retryPersistence_def by (auto intro!: moves ops simp: frames)

end

end
