(* ===== verification/DurableCoordinator.thy ===== *)
theory DurableCoordinator
  imports ReadingOrder JournalFileProofs
begin

text \<open>
  The coordinator on the journal file (as \<^verbatim>\<open>cli/open-signer-runtime.ts\<close> puts them together): whatever it
  does, a restart finds the journal it has committed or the one it still has to retry, and it sends a
  transaction only when every journal a restart may find has it, marked as sent.
\<close>

subsection \<open>Services beside the files\<close>

text \<open>The client, the account and the other services do not touch the files; the store does.\<close>

definition filesClient :: "'w chain_client \<Rightarrow> 'w files chain_client" where
  "filesClient C =
     \<lparr>clientId = clientId C, getBlock = (\<lambda>n. onWorld (getBlock C n)), getFullBlock = (\<lambda>n. onWorld (getFullBlock C n)),
      getTaggedBlockNumber = (\<lambda>t. onWorld (getTaggedBlockNumber C t)), getBlockNumber = onWorld (getBlockNumber C),
      getTransactionCountAt = (\<lambda>a n. onWorld (getTransactionCountAt C a n)),
      getTransactionCountTagged = (\<lambda>a t. onWorld (getTransactionCountTagged C a t)),
      getTransactionReceipt = (\<lambda>h. onWorld (getTransactionReceipt C h)),
      requestSendRaw = (\<lambda>b. onWorld (requestSendRaw C b))\<rparr>"

definition filesAccount :: "'w local_account \<Rightarrow> 'w files local_account" where
  "filesAccount A =
     \<lparr>accountIsLocal = accountIsLocal A, accountAddress = accountAddress A,
      signTransaction = (\<lambda>t. onWorld (signTransaction A t))\<rparr>"

definition filesEnv :: "'w journal_file_env \<Rightarrow> 'w coordinator_env \<Rightarrow> 'w files coordinator_env" where
  "filesEnv K E =
     \<lparr>envViem = jfViem K, envStore = fileJournalStore K, envNow = onWorld (envNow E),
      envDateNow = (\<lambda>(fs, w). case envDateNow E w of (t, v) \<Rightarrow> (t, (fs, v))),
      envRandomUuid = onWorld (envRandomUuid E), envSummaryOk = envSummaryOk E\<rparr>"

subsection \<open>What is on disk\<close>

text \<open>Every journal a restart may find is accounted for by the coordinator.\<close>

definition onDisk :: "'w journal_file_env \<Rightarrow> 'w files cstate \<Rightarrow> bool" where
  "onDisk K s =
     (case s of (c, fw) \<Rightarrow>
        soundFiles K (persistence c, fw) \<and> journalsFound K fw \<subseteq> journal_latch.accounted (persistence c, fw))"

definition diskKept :: "'w journal_file_env \<Rightarrow> 'w files cstate \<Rightarrow> 'w files cstate \<Rightarrow> bool" where
  "diskKept K s t = (onDisk K s \<longrightarrow> onDisk K t)"

text \<open>A change of the world that leaves the journal to be found as before, or less of it.\<close>

definition journalLeft :: "'w journal_file_env \<Rightarrow> 'w files \<Rightarrow> 'w files \<Rightarrow> bool" where
  "journalLeft K s t = ((fsOk (fst s) \<longrightarrow> fsOk (fst t)) \<and> journalsFound K t \<subseteq> journalsFound K s)"

lemma accounted_world:
  fixes v w :: "'w files"
  shows "journal_latch.accounted (p, v) = journal_latch.accounted (p, w)"
  by (simp add: journal_latch.accounted_def committedSnapshot_def latchedSnapshot_def)

lemma same_files: "along (journalLeft K) (onWorld m)"
  by (auto simp: along_def journalLeft_def onWorld_def journalsFound_def split: prod.split)

lemma onDisk_step:
  "onDisk K (c, v) \<Longrightarrow> journalLeft K v w \<Longrightarrow> persistence d = persistence c \<Longrightarrow> onDisk K (d, w)"
  using accounted_world [of "persistence c" v w] by (auto simp: onDisk_def journalLeft_def soundFiles_def)

lemma save_onDisk: "along (diskKept K) (onPersistence (savePersistence V (fileJournalStore K) s))"
  unfolding along_def
proof
  fix x :: "coordinator \<times> 'a files"
  obtain c w where x: "x = (c, w)" by (cases x)
  obtain r q v where run: "savePersistence V (fileJournalStore K) s (persistence c, w) = (r, (q, v))" by (metis surj_pair)
  show "diskKept K x (snd (onPersistence (savePersistence V (fileJournalStore K) s) x))"
    using journal_latch.save_accounted [of K "(persistence c, w)", OF _ _ run]
    by (simp add: x diskKept_def onDisk_def onPersistence_def run)
qed

lemma retry_onDisk: "along (diskKept K) (onPersistence (retryPersistenceWrite (fileJournalStore K)))"
  unfolding along_def
proof
  fix x :: "coordinator \<times> 'a files"
  obtain c w where x: "x = (c, w)" by (cases x)
  obtain r q v where run: "retryPersistenceWrite (fileJournalStore K) (persistence c, w) = (r, (q, v))" by (metis surj_pair)
  show "diskKept K x (snd (onPersistence (retryPersistenceWrite (fileJournalStore K)) x))"
    using journal_latch.retry_accounted [of K "(persistence c, w)", OF _ _ run]
    by (simp add: x diskKept_def onDisk_def onPersistence_def run)
qed

interpretation durable: ordered_coordinator "journalLeft K" "filesClient C" "diskKept K" "filesEnv K E"
proof unfold_locales
  show "diskKept K (c, w) (d, v)" if "persistence d = persistence c" "journalLeft K w v" for c d w v
    using onDisk_step [OF _ that(2,1)] by (simp add: diskKept_def)
  show "along (diskKept K) (onPersistence (savePersistence (envViem (filesEnv K E)) (envStore (filesEnv K E)) s))" for s
    using save_onDisk by (simp add: filesEnv_def)
  show "along (diskKept K) (onPersistence (retryPersistenceWrite (envStore (filesEnv K E))))"
    using retry_onDisk by (simp add: filesEnv_def)
  show "journalLeft K w (snd (envDateNow (filesEnv K E) w))" for w
    by (cases w) (simp add: filesEnv_def journalLeft_def journalsFound_def split: prod.split)
qed (auto simp: journalLeft_def diskKept_def filesClient_def filesEnv_def same_files)

subsection \<open>Runs of a service\<close>

text \<open>
  The steps of the coordinator's state machine, with services beside the files; and whatever else
  happens to the world, if it leaves the journal alone (the checkpoints are stored under another name).
\<close>

inductive serviceStep :: "'w journal_file_env \<Rightarrow> 'w coordinator_env \<Rightarrow> 'w files cstate \<Rightarrow> 'w files cstate \<Rightarrow> bool" for K E where
  prepares: "prepareAttempt (filesEnv K E) (filesAccount account) tx wid cy s = (r, t) \<Longrightarrow> serviceStep K E s t"
| broadcasts: "broadcastAttempt (filesEnv K E) (filesClient C) aid cy s = (r, t) \<Longrightarrow> serviceStep K E s t"
| begins: "beginInspection s = (r, t) \<Longrightarrow> serviceStep K E s t"
| opens: "openHead (filesClient C) head g s = (r, t) \<Longrightarrow> serviceStep K E s t"
| recovers: "recoverInspection (filesEnv K E) (filesClient C) anch rng g cy s = (r, t) \<Longrightarrow> serviceStep K E s t"
| checks: "checkInclusionsInspection (filesEnv K E) (filesClient C) head m g cy s = (r, t) \<Longrightarrow> serviceStep K E s t"
| finishes: "finishInspection (filesEnv K E) g s = (r, t) \<Longrightarrow> serviceStep K E s t"
| requests: "requestAbandon g s = (r, t) \<Longrightarrow> serviceStep K E s t"
| abandons: "completeAbandonment (filesEnv K E) g s = (r, t) \<Longrightarrow> serviceStep K E s t"
| recovers_alone: "recover (filesEnv K E) (filesClient C) anch rng cy s = (r, t) \<Longrightarrow> serviceStep K E s t"
| checks_alone: "checkInclusions (filesEnv K E) (filesClient C) head m cy s = (r, t) \<Longrightarrow> serviceStep K E s t"
| retries: "retryPersistence (filesEnv K E) cy s = (r, t) \<Longrightarrow> serviceStep K E s t"
| observes: "serviceStep K E (c, w) (c\<lparr>observationActive := True\<rparr>, w)"
| observed: "refresh (filesEnv K E) cy ReconcileAttemptOp (c\<lparr>observationActive := False\<rparr>, w) = (r, t) \<Longrightarrow>
    serviceStep K E (c, w) t"
| elsewhere: "journalLeft K w v \<Longrightarrow> serviceStep K E (c, w) (c, v)"

abbreviation serviceRun :: "'w journal_file_env \<Rightarrow> 'w coordinator_env \<Rightarrow> 'w files cstate \<Rightarrow> 'w files cstate \<Rightarrow> bool" where
  "serviceRun K E \<equiv> (serviceStep K E)\<^sup>*\<^sup>*"

lemma alongD: "along R m \<Longrightarrow> m s = (r, t) \<Longrightarrow> R s t"
  by (metis along_def snd_conv)

lemma service_keeps:
  assumes "serviceStep K E s t"
  shows "diskKept K s t"
  using assms
proof cases
  case (prepares account tx wid cy r)
  have "along (journalLeft K) (signTransaction (filesAccount account) x)" for x
    by (simp add: filesAccount_def same_files)
  from alongD [OF durable.prepare_along [OF this] prepares] show ?thesis .
next
  case (observed cy c w r)
  have "diskKept K (c\<lparr>observationActive := False\<rparr>, w) t"
    using alongD [OF durable.refresh_along(1) observed(2)] .
  moreover have "diskKept K s (c\<lparr>observationActive := False\<rparr>, w)"
    unfolding observed(1) by (rule durable.update) simp
  ultimately show ?thesis by (simp add: diskKept_def)
next
  case (observes c w)
  show ?thesis unfolding observes by (rule durable.update) simp
next
  case (elsewhere w v c)
  then show ?thesis unfolding elsewhere(1,2) by (intro durable.updates) simp_all
qed (auto intro: alongD durable.ops)

text \<open>Such a step is one of the coordinator's.\<close>

lemma service_coStep:
  assumes "serviceStep K E s t"
  shows "\<exists>l. coStep (filesEnv K E) s l t"
  using assms
proof cases
  case (prepares account tx wid cy r)
  then show ?thesis using coStep.prepared coStep.not_prepared by metis
next
  case (broadcasts C aid cy r)
  then show ?thesis by (cases r) (auto intro: coStep.sent coStep.not_sent)
next
  case (elsewhere w v c)
  then show ?thesis by (auto intro: coStep.world)
qed (auto intro: coStep.intros)

lemma service_run:
  assumes "serviceRun K E s t" and "onDisk K s" and "calm (jfViem K) (fst s)"
  shows "onDisk K t \<and> calm (jfViem K) (fst t)"
  using assms(1)
proof (induction rule: rtranclp_induct)
  case (step t u)
  obtain l where "coStep (filesEnv K E) t l u" using service_coStep [OF step.hyps(2)] by blast
  then have "calm (jfViem K) (fst u)"
    using coStep_kept [of "filesEnv K E" t l u] step.IH by (simp add: stepKept_def filesEnv_def)
  then show ?case using service_keeps [OF step.hyps(2)] step.IH by (simp add: diskKept_def)
qed (simp add: assms)

subsection \<open>Sending\<close>

text \<open>
  A client that refuses to send what some restart would not know to be sent. That it behaves as the
  client itself says that such a transaction is never sent.
\<close>

definition recordedEverywhere :: "'w journal_file_env \<Rightarrow> 'w files \<Rightarrow> jstr \<Rightarrow> bool" where
  "recordedEverywhere K w b =
     (\<forall>x. mayFind (fst w) (jfPath K) x \<longrightarrow>
        (\<exists>j a. journalIn K x = Inr (Present j) \<and> oldestUnresolved j = Some a \<and>
           phase a = BroadcastMayHaveOccurred \<and> signedTransaction (last (signedTransactions a)) = b))"

definition guardSends :: "'w journal_file_env \<Rightarrow> 'w files chain_client \<Rightarrow> 'w files chain_client" where
  "guardSends K C =
     C\<lparr>requestSendRaw := (\<lambda>b w. if recordedEverywhere K w b then requestSendRaw C b w
        else (Inl (PlainError ''unrecorded''), w))\<rparr>"

lemma recorded_found:
  assumes "journalsFound K w \<subseteq> {Inr (Present j)}" and "oldestUnresolved j = Some a"
    and "phase a = BroadcastMayHaveOccurred" and "signedTransaction (last (signedTransactions a)) = b"
  shows "recordedEverywhere K w b"
proof -
  have "journalIn K x = Inr (Present j)" if "mayFind (fst w) (jfPath K) x" for x
  proof -
    have "journalIn K x \<in> journalsFound K w" using that by (cases w) (auto simp: journalsFound_def)
    then show ?thesis using assms(1) by blast
  qed
  then show ?thesis using assms(2-4) unfolding recordedEverywhere_def by blast
qed

lemma send_guarded:
  assumes "recordedEverywhere K w (signedTransaction (last (signedTransactions a)))"
  shows "sendRecorded (guardSends K C) a cy (d, w) = sendRecorded C a cy (d, w)"
  using assms by (simp add: sendRecorded_def Let_def andThen_def tryCatch_def onWorld_def guardSends_def)

lemma andThen_same:
  "(\<And>x t. m s = (Inr x, t) \<Longrightarrow> f x t = g x t) \<Longrightarrow> andThen m f s = andThen m g s"
  by (auto simp: andThen_def split: prod.splits sum.splits)

lemma body_guarded:
  assumes disk: "onDisk K (c, w)" and idle: "stateValue (persistence c) = Idle" and d: "persistence d = persistence c"
    and s: "current c = Present s" "oldestUnresolved s = Some a"
  shows "broadcastBody (filesEnv K E) (guardSends K C) s a cy (d, w) = broadcastBody (filesEnv K E) C s a cy (d, w)"
proof (cases "phase a = Signed")
  case True
  let ?bytes = "signedTransaction (last (signedTransactions a))"
  have marked: "oldestUnresolved (markOldestUnresolved s) = Some (markBroadcast a)"
    "phase (markBroadcast a) = BroadcastMayHaveOccurred"
    "signedTransaction (last (signedTransactions (markBroadcast a))) = ?bytes"
    using mark_oldest(1) [OF s(2)] by (simp_all add: markBroadcast_def)
  have "recordedEverywhere K v ?bytes"
    if "savePersistence (jfViem K) (fileJournalStore K) (markOldestUnresolved s) (persistence c, w) = (Inr x, (q, v))" for x q v
  proof (rule recorded_found [OF _ marked])
    have "soundFiles K (persistence c, w)" using disk by (simp add: onDisk_def)
    from journal_latch.save_found [OF this, of "jfViem K" "markOldestUnresolved s" "(q, v)"] that
    show "journalsFound K v \<subseteq> {Inr (Present (markOldestUnresolved s))}" by (simp add: restartSees_def)
  qed
  then show ?thesis
    unfolding broadcastBody_def
    by (intro andThen_same)
      (auto simp: True d upd_def modifyState_def onPersistence_def andThen_Inr filesEnv_def intro!: send_guarded
        split: prod.splits)
next
  case False
  have "journalsFound K w \<subseteq> {Inr (Present s)}"
    using disk idle s(1)
    by (simp add: onDisk_def journal_latch.accounted_def latchedSnapshot_def committedSnapshot_def current_def restartSees_def)
  moreover have "phase a = BroadcastMayHaveOccurred"
    using s(2) False find_Some_iff [of "\<lambda>a. \<not> isIncluded a" "attempts s" a]
    by (cases "phase a") (auto simp: oldestUnresolved_def isIncluded_def)
  ultimately have "recordedEverywhere K w (signedTransaction (last (signedTransactions a)))"
    using s(2) by (intro recorded_found) simp_all
  then show ?thesis using False by (simp add: broadcastBody_def ret_def andThen_def send_guarded)
qed

lemma broadcast_guarded:
  assumes "onDisk K (c, w)"
  shows "broadcastAttempt (filesEnv K E) (guardSends K C) aid cy (c, w) = broadcastAttempt (filesEnv K E) C aid cy (c, w)"
proof (cases "stateValue (persistence c) = Idle")
  case True
  show ?thesis
    unfolding broadcastAttempt_def
    by (auto simp: assertAvailable_def assertNoPendingWrite_def readC_def andThen_def unlessThrow_def ret_def throw_def
        upd_def modifyState_def finallyDo_def onThrow_def body_guarded [OF assms True]
        split: TransactionJournalRead.splits option.splits)
next
  case False
  then show ?thesis
    by (simp add: broadcastAttempt_def assertAvailable_def assertNoPendingWrite_def readC_def andThen_def
        unlessThrow_def ret_def throw_def persistenceIdle_def)
qed

text \<open>Creation: the coordinator adopts what it loads.\<close>

lemma filesEnv_fields:
  "envViem (filesEnv K E) = jfViem K" "loadJournal (envStore (filesEnv K E)) = loadJournalFile K"
  by (simp_all add: filesEnv_def fileJournalStore_def)

lemma created_onDisk:
  assumes "createCoordinator (filesEnv K E) i cap t = (Inr c, v)"
  shows "\<exists>initial u. loadJournalFile K t = (Inr initial, u) \<and>
    (fsOk (fst u) \<longrightarrow> exactIntegers (jfNumbers K) \<longrightarrow> journalsFound K u = {Inr initial} \<longrightarrow> onDisk K (c, v))"
proof -
  from assms obtain initial u p where l: "loadJournalFile K t = (Inr initial, u)"
    and p: "createPersistence (jfViem K) i initial = Inr p"
    and run: "(case refresh (filesEnv K E) None ReconcileAttemptOp
        (latchExhaustedSearch (latchUnattributedActivity
          (case currentAttempts (currentValue p) of [] \<Rightarrow> freshCoordinator p i cap
           | a # _ \<Rightarrow> (freshCoordinator p i cap)
              \<lparr>attemptLog := Some (allSignedBytes (currentAttempts (currentValue p))),
               blockedSince := Some (createdAt a)\<rparr>)), u) of
           (Inl e, (c, v)) \<Rightarrow> (Inl e, v)
         | (Inr _, (c, v)) \<Rightarrow> (Inr (updateDurableRecoveryRevision c), v)) = (Inr c, v)"
    by (auto simp: createCoordinator_def andThen_Inr Let_def filesEnv_fields)
  define c1 where "c1 = latchExhaustedSearch (latchUnattributedActivity
          (case currentAttempts (currentValue p) of [] \<Rightarrow> freshCoordinator p i cap
           | a # _ \<Rightarrow> (freshCoordinator p i cap)
              \<lparr>attemptLog := Some (allSignedBytes (currentAttempts (currentValue p))),
               blockedSince := Some (createdAt a)\<rparr>))"
  have c1: "persistence c1 = p"
    by (cases "currentAttempts (currentValue p)") (simp_all add: c1_def latches_eq freshCoordinator_def)
  obtain d where r: "refresh (filesEnv K E) None ReconcileAttemptOp (c1, u) = (Inr (), (d, v))"
    and c: "c = updateDurableRecoveryRevision d"
    using run unfolding c1_def [symmetric] by (auto split: prod.splits sum.splits)
  have "onDisk K (c, v)" if ok: "fsOk (fst u)" "exactIntegers (jfNumbers K)" "journalsFound K u = {Inr initial}"
  proof -
    have "restartSees (committedSnapshot (p, u)) = Inr initial"
      using createPersistence_fields [OF p]
      by (simp add: restartSees_def committedSnapshot_def split: TransactionJournalRead.splits)
    then have "onDisk K (c1, u)"
      using ok c1 by (simp add: onDisk_def soundFiles_def journal_latch.accounted_def)
    then have "onDisk K (d, v)"
      using alongD [OF durable.refresh_along(1) r] by (simp add: diskKept_def)
    then show ?thesis by (simp add: c onDisk_def updateDurableRecoveryRevision_def)
  qed
  with l show ?thesis by blast
qed

end
