(* ===== verification/GuardedRuns.thy ===== *)
theory GuardedRuns
  imports TransactionManager EffectLog
begin

text \<open>
  When another client makes no difference: computations agree under an invariant if they do the same
  from every state that has it, and keep it. The interface of a manager whose coordinator keeps an
  invariant with either of two clients: then all the operations of the manager do the same with both.
\<close>

subsection \<open>Agreement\<close>

definition agree :: "('s \<Rightarrow> bool) \<Rightarrow> ('s, 'a) io \<Rightarrow> ('s, 'a) io \<Rightarrow> bool" where
  "agree I m m' = (\<forall>s. I s \<longrightarrow> m' s = m s \<and> I (snd (m s)))"

lemma agreeD: "agree I m m' \<Longrightarrow> I s \<Longrightarrow> m s = (r, t) \<Longrightarrow> m' s = (r, t) \<and> I t"
  unfolding agree_def by (metis snd_conv)

lemma agree_eq: "agree I m m' \<Longrightarrow> I s \<Longrightarrow> m' s = m s"
  unfolding agree_def by metis

lemma agreeI:
  assumes "\<And>s r t. I s \<Longrightarrow> m s = (r, t) \<Longrightarrow> m' s = (r, t) \<and> I t"
  shows "agree I m m'"
  unfolding agree_def by (metis assms surj_pair snd_conv)

lemma agree_still:
  "agree I (ret x) (ret x)" "agree I (throw e) (throw e)" "agree I (unlessThrow b e) (unlessThrow b e)"
  "agree I (liftPure r) (liftPure r)" "agree I getState getState"
  by (simp_all add: agree_def ret_def throw_def unlessThrow_def liftPure_def getState_def)

lemma agree_andThen:
  assumes "agree I m m'" "\<And>x. agree I (f x) (f' x)"
  shows "agree I (andThen m f) (andThen m' f')"
proof (rule agreeI)
  fix s r t assume s: "I s" "andThen m f s = (r, t)"
  obtain x u where m: "m s = (x, u)" by (cases "m s")
  then have "m' s = (x, u)" "I u" using agreeD [OF assms(1) s(1)] by simp_all
  then show "andThen m' f' s = (r, t) \<and> I t"
    using s(2) m agreeD [OF assms(2), of u] by (cases x) (auto simp: andThen_def)
qed

lemma agree_tryCatch:
  assumes "agree I m m'" "\<And>e. agree I (h e) (h' e)"
  shows "agree I (tryCatch m h) (tryCatch m' h')"
proof (rule agreeI)
  fix s r t assume s: "I s" "tryCatch m h s = (r, t)"
  obtain x u where m: "m s = (x, u)" by (cases "m s")
  then have "m' s = (x, u)" "I u" using agreeD [OF assms(1) s(1)] by simp_all
  then show "tryCatch m' h' s = (r, t) \<and> I t"
    using s(2) m agreeD [OF assms(2), of u] by (cases x) (auto simp: tryCatch_def)
qed

lemma agree_finallyDo:
  assumes "agree I m m'" "agree I h h'"
  shows "agree I (finallyDo m h) (finallyDo m' h')"
proof (rule agreeI)
  fix s r t assume s: "I s" "finallyDo m h s = (r, t)"
  obtain x u where m: "m s = (x, u)" by (cases "m s")
  obtain y v where h: "h u = (y, v)" by (cases "h u")
  have "m' s = (x, u)" "I u" using agreeD [OF assms(1) s(1) m] by simp_all
  moreover from this have "h' u = (y, v)" "I v" using agreeD [OF assms(2) _ h] by simp_all
  ultimately show "finallyDo m' h' s = (r, t) \<and> I t"
    using s(2) m h by (auto simp: finallyDo_def split: sum.splits)
qed

lemma agree_handlers:
  assumes "agree I m m'" "\<And>s. I s \<Longrightarrow> I (h s)"
  shows "agree I (onThrow m h) (onThrow m' h)" "agree I (tryFinally m h) (tryFinally m' h)"
  using assms unfolding agree_def onThrow_def tryFinally_def
  by (auto split: prod.splits sum.splits)

lemma agree_cases:
  "agree I m m' \<Longrightarrow> agree I n n' \<Longrightarrow> agree I (if b then m else n) (if b then m' else n')"
  "agree I m m' \<Longrightarrow> (\<And>x. agree I (f x) (f' x)) \<Longrightarrow>
    agree I (case q of None \<Rightarrow> m | Some x \<Rightarrow> f x) (case q of None \<Rightarrow> m' | Some x \<Rightarrow> f' x)"
  "(\<And>x y. agree I (g x y) (g' x y)) \<Longrightarrow> agree I (case p of (x, y) \<Rightarrow> g x y) (case p of (x, y) \<Rightarrow> g' x y)"
  by (auto split: option.split prod.split)

lemma agree_modify: "(\<And>s. I s \<Longrightarrow> I (f s)) \<Longrightarrow> agree I (modifyState f) (modifyState f)"
  by (simp add: agree_def modifyState_def)

lemma agree_same: "(\<And>s r t. I s \<Longrightarrow> m s = (r, t) \<Longrightarrow> I t) \<Longrightarrow> agree I m m"
  by (rule agreeI) blast

lemma agree_read: "(\<And>x. agree I (g x) (g' x)) \<Longrightarrow> agree I (\<lambda>s. g (f s) s) (\<lambda>s. g' (f s) s)"
  by (simp add: agree_def)

lemmas agree_rules = agree_still agree_andThen agree_tryCatch agree_finallyDo agree_handlers agree_cases

lemma along_end: "along J m \<Longrightarrow> m w = (r, v) \<Longrightarrow> J w v"
  by (metis along_def snd_conv)

lemma agree_onWorld:
  "agree I m m' \<Longrightarrow> agree (\<lambda>s. I (snd s)) (onWorld m) (onWorld m')"
  unfolding agree_def onWorld_def by (auto split: prod.split)


subsection \<open>A manager with either client\<close>

text \<open>
  The coordinator's operations keep \<open>I\<close>, with the same results for both clients; the services of the
  manager move the world along \<open>J\<close>, of which \<open>I\<close> takes no notice.
\<close>

locale guarded_manager = effect_order J
  for J :: "'w \<Rightarrow> 'w \<Rightarrow> bool" +
  fixes I :: "'w cstate \<Rightarrow> bool" and M :: "'w manager_env" and C' :: "'w chain_client"
  assumes moved: "I (c, w) \<Longrightarrow> J w v \<Longrightarrow> I (c, v)"
    and services: "along J (cycRetryClock (mgrCycle M))" "along J (cycDurableClock (mgrCycle M))"
      "along J (mgrRequest M a1 a2 a3 a4 a5)" "along J (mgrReadHeads M)"
      "mgrOnRecovery M = Some f \<Longrightarrow> along J (f d)"
    and anchors: "along J (getBlockAnchor (mgrClient M) n)" "getBlockAnchor C' n = getBlockAnchor (mgrClient M) n"
    and owner: "agree I beginInspection beginInspection"
      "agree I (finishInspection (mgrCoordinator M) g) (finishInspection (mgrCoordinator M) g)"
      "agree I (abandonInspection (mgrCoordinator M) g) (abandonInspection (mgrCoordinator M) g)"
      "agree I observeBegin observeBegin"
      "agree I (observeEnd (mgrCoordinator M) cy) (observeEnd (mgrCoordinator M) cy)"
    and passes:
      "agree I (recoverInspection (mgrCoordinator M) (mgrClient M) b m g cy) (recoverInspection (mgrCoordinator M) C' b m g cy)"
      "agree I (checkInclusionsInspection (mgrCoordinator M) (mgrClient M) b k g cy)
         (checkInclusionsInspection (mgrCoordinator M) C' b k g cy)"
    and journal: "agree I (retryPersistence (mgrCoordinator M) cy) (retryPersistence (mgrCoordinator M) cy)"
      "agree I (prepareAttempt (mgrCoordinator M) (mgrAccount M) tx wid cy) (prepareAttempt (mgrCoordinator M) (mgrAccount M) tx wid cy)"
      "agree I (broadcastAttempt (mgrCoordinator M) (mgrClient M) aid cy) (broadcastAttempt (mgrCoordinator M) C' aid cy)"
begin

abbreviation cycleInv :: "'w rstate \<Rightarrow> bool" where
  "cycleInv \<equiv> (\<lambda>s. I (snd s))"

abbreviation managerInv :: "'w mstate \<Rightarrow> bool" where
  "managerInv \<equiv> (\<lambda>s. cycleInv (snd s))"

abbreviation both :: "('w manager_env \<Rightarrow> ('s, 'a) io) \<Rightarrow> ('s \<Rightarrow> bool) \<Rightarrow> bool" where
  "both m P \<equiv> agree P (m M) (m (M\<lparr>mgrClient := C'\<rparr>))"

lemma same_world: "along J m \<Longrightarrow> agree I (onWorld m) (onWorld m)"
  by (rule agree_same) (auto simp: onWorld_def split: prod.splits intro: moved along_end)

lemma same_clock:
  "along J clock \<Longrightarrow> along (\<lambda>s t. J (snd s) (snd t)) (onWorld clock)"
  by (auto simp: along_def [of "\<lambda>s t. J (snd s) (snd t)"] onWorld_def split: prod.split intro: along_end)

lemma schedule_updates:
  "(\<And>s. snd (f s) = snd s) \<Longrightarrow> along (\<lambda>s t. J (snd s) (snd t)) (modifyState f)"
  "along (\<lambda>s t. J (snd s) (snd t)) getState"
  by (simp_all add: along_def modifyState_def getState_def stay)

text \<open>The schedules, their clocks and the readers of the cycle.\<close>

lemma schedule_order: "effect_order (\<lambda>s t. J (snd s) (snd t))"
  by unfold_locales (auto intro: stay onward)

lemmas schedule_rules = effect_order.along_rules [OF schedule_order] schedule_updates same_clock services

lemma schedule_clocks:
  "along (\<lambda>s t. J (snd s) (snd t)) (trackRetry rnd (cycRetryClock (mgrCycle M)) attempt)"
  "along (\<lambda>s t. J (snd s) (snd t)) (claimRetry rnd (cycRetryClock (mgrCycle M)) aid)"
  "along (\<lambda>s t. J (snd s) (snd t)) (delayMs rnd (cycRetryClock (mgrCycle M)))"
  "along (\<lambda>s t. J (snd s) (snd t)) (recordCompleted (cycDurableClock (mgrCycle M)) anch)"
  unfolding trackRetry_def claimRetry_def delayMs_def recordCompleted_def readNow_def
  by (auto intro!: schedule_rules split: option.split jsval.split)

lemma due_along: "along J (isDue rnd (cycDurableClock (mgrCycle M)) d anch)"
  unfolding isDue_def Let_def by (auto intro!: along_rules services split: option.split jsval.split)

lemma cycle_retry:
  assumes "along (\<lambda>s t. J (snd s) (snd t)) m"
  shows "agree cycleInv (onRetry m) (onRetry m)"
proof (rule agree_same)
  fix s r t assume s: "I (snd s)" "onRetry m s = (r, t)"
  obtain k c w where k: "s = (k, c, w)" by (cases s)
  obtain x b v where m: "m (retrySchedule k, w) = (x, (b, v))" by (metis surj_pair)
  have "J w v" using assms m by (metis along_def snd_conv)
  then show "I (snd t)" using s m k moved by (auto simp: onRetry_def)
qed

lemma cycle_readers:
  "(\<And>k. agree P (f k) (f' k)) \<Longrightarrow> agree P (readCycle f) (readCycle f')"
  "(\<And>c. agree P (g c) (g' c)) \<Longrightarrow> agree P (readCoordinator g) (readCoordinator g')"
  "(\<And>c x. agree P (h c x) (h' c x)) \<Longrightarrow> agree P (readStatus h) (readStatus h')"
  unfolding readStatus_def readCycle_def readCoordinator_def
  by (auto simp: agree_def andThen_def liftPure_def split: prod.splits sum.splits)

lemma cycle_upd: "agree cycleInv (updCycle f) (updCycle f)" "agree cycleInv (throwIfAborted a) (throwIfAborted a)"
  by (auto simp: agree_def updCycle_def modifyState_def throwIfAborted_def onWorld_def split: prod.split)

lemmas cycle_world = agree_onWorld [OF same_world]
lemmas cycle_coordinator = owner [THEN agree_onWorld] passes [THEN agree_onWorld] journal [THEN agree_onWorld]
lemmas cycle_rules = agree_rules cycle_readers cycle_upd cycle_world cycle_coordinator services anchors(1)
  cycle_retry schedule_clocks due_along


text \<open>One cycle.\<close>

lemma record_agrees:
  "agree cycleInv (recordDurablePass (mgrCycle M) anch r) (recordDurablePass (mgrCycle M) anch r)"
proof -
  have "agree cycleInv (\<lambda>(k, c, w). case recordCompleted (cycDurableClock (mgrCycle M)) anch (d, w) of
      (x, e, v) \<Rightarrow> (x, k\<lparr>durableSchedule := Some e\<rparr>, c, v))
    (\<lambda>(k, c, w). case recordCompleted (cycDurableClock (mgrCycle M)) anch (d, w) of
      (x, e, v) \<Rightarrow> (x, k\<lparr>durableSchedule := Some e\<rparr>, c, v))" for d
  proof (rule agree_same)
    fix s r and t :: "'w rstate"
    assume s: "I (snd s)" "(\<lambda>(k, c, w). case recordCompleted (cycDurableClock (mgrCycle M)) anch (d, w) of
      (x, e, v) \<Rightarrow> (x, k\<lparr>durableSchedule := Some e\<rparr>, c, v)) s = (r, t)"
    obtain k c w where k: "s = (k, c, w)" by (cases s)
    obtain x e v where m: "recordCompleted (cycDurableClock (mgrCycle M)) anch (d, w) = (x, (e, v))" by (metis surj_pair)
    have "J w v" using schedule_clocks(4) m by (metis along_def snd_conv)
    then show "I (snd t)" using s m moved by (auto simp: k)
  qed
  then show ?thesis unfolding recordDurablePass_def by (intro cycle_rules)
qed

lemma passes_agree:
  "agree cycleInv (recoverPasses (mgrCycle M) (mgrClient M) anch m a g cy n r) (recoverPasses (mgrCycle M) C' anch m a g cy n r)"
  by (induction n arbitrary: r) (auto intro!: cycle_rules)

lemma inspect_agrees:
  "agree cycleInv (inspectCycle (mgrCycle M) (mgrClient M) anch head m a reuse cy)
     (inspectCycle (mgrCycle M) C' anch head m a reuse cy)"
  unfolding inspectCycle_def inspectOwned_def durablePass_def inclusionPass_def Let_def
  by (intro cycle_rules record_agrees passes_agree)

lemma before_agrees:
  "agree cycleInv (trackCurrent (mgrCycle M)) (trackCurrent (mgrCycle M))"
  "agree cycleInv (retryFailedWrite (mgrCycle M) cy) (retryFailedWrite (mgrCycle M) cy)"
  "agree cycleInv (canReuseDurablePass (mgrCycle M) anch head) (canReuseDurablePass (mgrCycle M) anch head)"
  unfolding trackCurrent_def retryFailedWrite_def canReuseDurablePass_def durableIsDue_def
  by (intro cycle_rules)+

lemma send_agrees:
  "agree cycleInv (sendWhenDue (mgrCycle M) (mgrClient M) a cy) (sendWhenDue (mgrCycle M) C' a cy)"
  unfolding sendWhenDue_def Let_def by (intro cycle_rules)

lemma cycle_agrees:
  "agree cycleInv (runCycle (mgrCycle M) (mgrClient M) anch head m a cy) (runCycle (mgrCycle M) C' anch head m a cy)"
  unfolding runCycle_def runBody_def
  by (intro cycle_rules before_agrees inspect_agrees send_agrees) (auto split: prod.splits)

text \<open>The manager.\<close>

lemma owned_agrees: "both (\<lambda>M. reconcileOwned M head durable a cy) cycleInv"
proof -
  have told: "agree cycleInv (case mgrOnRecovery M of None \<Rightarrow> ret ()
        | Some f \<Rightarrow> tryCatch (onWorld (onWorld (f d))) (\<lambda>_. ret ()))
      (case mgrOnRecovery M of None \<Rightarrow> ret () | Some f \<Rightarrow> tryCatch (onWorld (onWorld (f d))) (\<lambda>_. ret ()))" for d
    by (cases "mgrOnRecovery M") (auto intro!: cycle_rules)
  show ?thesis unfolding reconcileOwned_def by (simp, intro told agree_rules cycle_coordinator cycle_agrees)
qed

lemma heads_agree: "both (\<lambda>M. reconcileSelectedHeadsOwned M a cy) cycleInv"
  unfolding reconcileSelectedHeadsOwned_def recoverSignerAtHeads_def
  by (simp add: anchors(2) cong: if_cong, intro cycle_rules owned_agrees)

lemma manager_readers:
  "(\<And>c. agree managerInv (f c) (f' c)) \<Longrightarrow> agree managerInv (readManager f) (readManager f')"
  "(\<And>c g. agree managerInv (h c g) (h' c g)) \<Longrightarrow> agree managerInv (readSigner h) (readSigner h')"
  unfolding readManager_def readSigner_def
  by (auto simp: agree_def andThen_def liftPure_def split: prod.splits sum.splits)

lemma manager_ends:
  "agree managerInv enterManager enterManager" "agree managerInv (checkAborted a) (checkAborted a)"
  "managerInv s \<Longrightarrow> managerInv (leaveManager s)"
  by (auto simp: enterManager_def checkAborted_def leaveManager_def
      intro!: agree_rules agree_modify agree_onWorld cycle_upd split: prod.splits)

lemmas manager_rules = agree_rules manager_readers manager_ends
  cycle_world [THEN agree_onWorld] cycle_coordinator [THEN agree_onWorld]

lemma transaction_agrees: "both (\<lambda>M. submitTransaction M call wid a cy) managerInv"
proof -
  have sent: "both (\<lambda>M. case attempt of AlreadyRetained aid w \<Rightarrow> ret (SubmitRetained aid w)
       | Prepared p \<Rightarrow> andThen (inner (onWorld (broadcastAttempt (mgrCoordinator M) (mgrClient M) (paAttemptId p) cy)))
           (\<lambda>r. ret (SubmitSent r))) managerInv" for attempt
    by (cases attempt) (auto intro!: manager_rules)
  have request: "along J (prepareRelayerTransaction (mgrRequest M) (accountAddress (mgrAccount M)) b d e f)" for b d e f
    unfolding prepareRelayerTransaction_def Let_def by (auto intro!: along_rules services)
  show ?thesis unfolding submitTransaction_def by (simp, intro sent request manager_rules)
qed

lemma submit_agrees: "both (\<lambda>M. submit M call wid a cy) managerInv"
proof -
  have "both (\<lambda>M. admitWork M wid a cy) managerInv"
    unfolding admitWork_def by (intro manager_rules agree_onWorld [OF heads_agree])
  moreover have "both (\<lambda>M. sendWork M call wid a cy) managerInv"
    unfolding sendWork_def
    by (intro agree_andThen [OF transaction_agrees]) (auto intro!: agree_rules split: SubmitTransactionResult.split prod.split)
  ultimately show ?thesis unfolding submit_def submitBody_def by (intro manager_rules)
qed

lemma reconcile_agrees: "both (\<lambda>M. reconcile M head durable a cy) managerInv"
  unfolding reconcile_def by (intro manager_rules agree_onWorld [OF owned_agrees])

end

end
