(* ===== verification/SignerRuntime.thy ===== *)
theory SignerRuntime
  imports DurableCoordinator ServiceLock NonceSync GuardedRuns
begin

text \<open>
  \<^verbatim>\<open>cli/open-signer-runtime.ts\<close>: how a command puts its signer together. The options are checked, the
  lock of the state directory is verified, a journal is only created where no other state is, and the
  manager runs on the journal file of the identity. The clocks, the client and the account are services
  beside the files; the operations of the operating system on the lock are those of the lock's check.
\<close>

definition DURABLE_RECOVERY_REFRESH_INTERVAL_MS :: int where
  "DURABLE_RECOVERY_REFRESH_INTERVAL_MS = 60000"

text \<open>
  The options: the identity and the delays of the retries as given, the checkpoint file, the environment
  variables of the state directory and the checkpoint file, the services of the journal file (its path,
  identity and bounds are set by the opening) and those of the manager.
\<close>

record 'w runtime_options =
  roIdentity :: JournalIdentity
  roInitialDelay :: jsval
  roMaxDelay :: jsval
  roCheckpoint :: "jstr option"
  roEnvCheckpoint :: "jstr option"
  roEnvStateDir :: "jstr option"
  roLock :: "'w lock_os"
  roReaddir :: "jstr \<Rightarrow> ('w, jstr list) io"
  roJournal :: "'w journal_file_env"
  roManager :: "'w manager_env"

text \<open>The services of the manager beside the files, with the journal file as the coordinator's store.\<close>

definition filesManager :: "'w journal_file_env \<Rightarrow> 'w manager_env \<Rightarrow> 'w files manager_env" where
  "filesManager K M =
     \<lparr>mgrCycle =
        \<lparr>cycCoordinator = filesEnv K (mgrCoordinator M), cycRetryClock = onWorld (cycRetryClock (mgrCycle M)),
         cycDurableClock = onWorld (cycDurableClock (mgrCycle M)), cycRounding = cycRounding (mgrCycle M)\<rparr>,
      mgrClient = filesClient (mgrClient M),
      mgrRequest = (\<lambda>a b c d e. onWorld (mgrRequest M a b c d e)),
      mgrAccount = filesAccount (mgrAccount M), mgrReadHeads = onWorld (mgrReadHeads M),
      mgrMaxRange = mgrMaxRange M, mgrOnRecovery = map_option (\<lambda>f x. onWorld (f x)) (mgrOnRecovery M)\<rparr>"

definition configuredCheckpoint :: "'w runtime_options \<Rightarrow> jstr option" where
  "configuredCheckpoint Q = (case roCheckpoint Q of None \<Rightarrow> roEnvCheckpoint Q | Some c \<Rightarrow> Some c)"

definition runtimeStore :: "'w runtime_options \<Rightarrow> JournalIdentity \<Rightarrow> jstr \<Rightarrow> 'w journal_file_env" where
  "runtimeStore Q ident filePath =
     (roJournal Q)\<lparr>jfPath := filePath, jfIdentity := ident, jfBounds := Some DEFAULT_JOURNAL_BOUNDS\<rparr>"

definition openSignerRuntime ::
  "'w runtime_options \<Rightarrow> ('w files, 'w journal_file_env \<times> bool \<times> recovery_cycle \<times> coordinator) io" where
  "openSignerRuntime Q =
     andThen (liftPure (validateJournalBounds DEFAULT_JOURNAL_BOUNDS)) (\<lambda>_.
     andThen (liftPure (captureJournalIdentity (JNum (of_int (chainId (roIdentity Q)))) (JString (signer (roIdentity Q))))) (\<lambda>ident.
     andThen (liftPure (validateBroadcastRetryOptions (roInitialDelay Q) (roMaxDelay Q))) (\<lambda>_.
     let configured = configuredCheckpoint Q in
     andThen (unlessThrow (case configured of None \<Rightarrow> True | Some c \<Rightarrow> \<not> blankText c)
       (TypeError ''Invalid checkpoint file path.'')) (\<lambda>_.
     andThen (onWorld (assertServiceLockHeld (roLock Q) (roEnvStateDir Q) (map_option (osResolve (roLock Q)) configured))) (\<lambda>ownership.
     let filePath = osJoin (roLock Q) (stateDirectory ownership) (journalFilename ident) in
     andThen (onWorld (assertSignerBootstrapState (roLock Q) (roReaddir Q) filePath ownership)) (\<lambda>_.
     andThen (openJournalFile (runtimeStore Q ident filePath)) (\<lambda>K.
     andThen (createManager (filesManager K (roManager Q)) ident (maxRetainedAttempts DEFAULT_JOURNAL_BOUNDS)
         (roInitialDelay Q) (roMaxDelay Q) (Some (JNum (of_int DURABLE_RECOVERY_REFRESH_INTERVAL_MS)))) (\<lambda>m.
     ret (K, m)))))))))"


subsection \<open>The manager on the files\<close>

lemma kept_agrees: "along (diskKept K) m \<Longrightarrow> agree (onDisk K) m m"
  by (rule agree_same) (metis alongD diskKept_def)

lemma observe_disk:
  "along (diskKept K) observeBegin" "along (diskKept K) (observeEnd (filesEnv K E) cy)"
  unfolding observeBegin_def observeEnd_def
  by (auto intro!: durable.moves durable.ops)

lemma broadcast_agrees:
  "agree (onDisk K) (broadcastAttempt (filesEnv K E) (filesClient C) aid cy)
     (broadcastAttempt (filesEnv K E) (guardSends K (filesClient C)) aid cy)"
proof (rule agreeI)
  fix s r t assume s: "onDisk K s" "broadcastAttempt (filesEnv K E) (filesClient C) aid cy s = (r, t)"
  obtain c w where c: "s = (c, w)" by (cases s)
  have "diskKept K s t" by (rule alongD [OF durable.broadcast_along s(2)])
  then show "broadcastAttempt (filesEnv K E) (guardSends K (filesClient C)) aid cy s = (r, t) \<and> onDisk K t"
    using s broadcast_guarded [of K c w] by (simp add: c diskKept_def)
qed

lemma filesManager_fields [simp]:
  "mgrCoordinator (filesManager K M) = filesEnv K (mgrCoordinator M)"
  "cycRetryClock (mgrCycle (filesManager K M)) = onWorld (cycRetryClock (mgrCycle M))"
  "cycDurableClock (mgrCycle (filesManager K M)) = onWorld (cycDurableClock (mgrCycle M))"
  "mgrClient (filesManager K M) = filesClient (mgrClient M)"
  "mgrRequest (filesManager K M) a b c d e = onWorld (mgrRequest M a b c d e)"
  "mgrAccount (filesManager K M) = filesAccount (mgrAccount M)"
  "mgrReadHeads (filesManager K M) = onWorld (mgrReadHeads M)"
  "mgrOnRecovery (filesManager K M) = map_option (\<lambda>f x. onWorld (f x)) (mgrOnRecovery M)"
  by (simp_all add: filesManager_def)

lemma guard_reads:
  fixes C :: "'w files chain_client"
  shows "getBlockAnchor (guardSends K C) n = getBlockAnchor C n"
    and "recoverInspection E (guardSends K C) b m g cy = recoverInspection E C b m g cy"
    and "checkInclusionsInspection E (guardSends K C) head k g cy = checkInclusionsInspection E C head k g cy"
  by (simp_all add: guardSends_def operations_unsent anchors_unsent)

interpretation guarded: guarded_manager "journalLeft K" "onDisk K" "filesManager K M"
  "guardSends K (filesClient (mgrClient M))"
proof unfold_locales
  show "agree (onDisk K) (prepareAttempt (mgrCoordinator (filesManager K M)) (mgrAccount (filesManager K M)) tx wid cy)
      (prepareAttempt (mgrCoordinator (filesManager K M)) (mgrAccount (filesManager K M)) tx wid cy)" for tx wid cy
  proof -
    have "along (journalLeft K) (signTransaction (filesAccount (mgrAccount M)) x)" for x
      by (simp add: filesAccount_def same_files)
    from kept_agrees [OF durable.prepare_along [OF this]] show ?thesis by simp
  qed
  show "agree (onDisk K) (abandonInspection (mgrCoordinator (filesManager K M)) g)
      (abandonInspection (mgrCoordinator (filesManager K M)) g)" for g
    unfolding abandonInspection_def by (auto intro!: kept_agrees durable.moves durable.ops)
  show "onDisk K (c, v)" if "onDisk K (c, w)" "journalLeft K w v" for c w v
    using onDisk_step [OF that] by simp
qed (auto simp: guard_reads same_files journalLeft_def
    intro!: kept_agrees durable.ops observe_disk broadcast_agrees durable.client.anchors_along)


subsection \<open>The opened runtime\<close>

text \<open>
  What happens after the opening: operations of the manager, with any signal, and whatever else leaves
  the journal on the files to be found.
\<close>

inductive runtimeCall :: "'w journal_file_env \<Rightarrow> 'w manager_env \<Rightarrow> 'w files mstate \<Rightarrow> 'w files mstate \<Rightarrow> bool" for K M where
  submits: "submit (filesManager K M) call wid aborted cy s = (r, t) \<Longrightarrow> runtimeCall K M s t"
| reconciles: "reconcile (filesManager K M) head durable aborted cy s = (r, t) \<Longrightarrow> runtimeCall K M s t"
| elsewhere: "journalLeft K w v \<Longrightarrow> runtimeCall K M (b, k, c, w) (b, k, c, v)"

abbreviation runtimeCalls :: "'w journal_file_env \<Rightarrow> 'w manager_env \<Rightarrow> 'w files mstate \<Rightarrow> 'w files mstate \<Rightarrow> bool" where
  "runtimeCalls K M \<equiv> (runtimeCall K M)\<^sup>*\<^sup>*"

text \<open>The manager whose client refuses to send what some restart would not know.\<close>

definition guardedManager :: "'w journal_file_env \<Rightarrow> 'w manager_env \<Rightarrow> 'w files manager_env" where
  "guardedManager K M = (filesManager K M)\<lparr>mgrClient := guardSends K (filesClient (mgrClient M))\<rparr>"

lemma calls_agree:
  "agree (\<lambda>s. onDisk K (snd (snd s))) (submit (filesManager K M) call wid a cy) (submit (guardedManager K M) call wid a cy)"
  "agree (\<lambda>s. onDisk K (snd (snd s))) (reconcile (filesManager K M) head durable a cy)
     (reconcile (guardedManager K M) head durable a cy)"
  unfolding guardedManager_def by (rule guarded.submit_agrees guarded.reconcile_agrees)+

lemma runtimeCall_onDisk: "runtimeCall K M s t \<Longrightarrow> onDisk K (snd (snd s)) \<Longrightarrow> onDisk K (snd (snd t))"
proof (induction rule: runtimeCall.induct)
  case (submits call wid aborted cy s r t)
  then show ?case using agreeD [OF calls_agree(1)] by metis
next
  case (reconciles head durable aborted cy s r t)
  then show ?case using agreeD [OF calls_agree(2)] by metis
next
  case (elsewhere w v b k c)
  then show ?case using onDisk_step [of K c w v c] by simp
qed

lemma runtimeCalls_onDisk:
  "runtimeCalls K M s t \<Longrightarrow> onDisk K (snd (snd s)) \<Longrightarrow> onDisk K (snd (snd t))"
  by (induction rule: rtranclp_induct) (auto dest: runtimeCall_onDisk)

lemma track_onDisk:
  fixes M :: "'w manager_env"
  assumes run: "onRetry (trackRetry rnd (onWorld (cycRetryClock (mgrCycle M))) a) (k, c, w) = (r, (k', c', v))"
    and disk: "onDisk K (c, w)"
  shows "onDisk K (c', v)"
proof -
  have "along (\<lambda>s t. journalLeft K (snd s) (snd t)) (trackRetry rnd (onWorld (cycRetryClock (mgrCycle M))) a)"
    using guarded.schedule_clocks(1) [where K = K and M = M] by simp
  note left = alongD [OF this]
  obtain x b u where x: "trackRetry rnd (onWorld (cycRetryClock (mgrCycle M))) a (retrySchedule k, w) = (x, (b, u))"
    by (metis surj_pair)
  then show ?thesis using run left [OF x] onDisk_step [OF disk] by (auto simp: onRetry_def)
qed

lemma finished_Inr:
  "(case p of (Inl e, (_, _, v)) \<Rightarrow> (Inl e, v) | (Inr _, (k, c, v)) \<Rightarrow> (Inr (False, k, c), v)) = (Inr (b, k, c), v) \<longleftrightarrow>
   p = (Inr (), (k, c, v)) \<and> \<not> b"
  by (auto split: prod.splits sum.splits)

lemma manager_onDisk:
  assumes "createManager (filesManager K M) i cap d1 d2 iv t = (Inr (b, k, c), v)"
  shows "\<exists>initial u. loadJournalFile K t = (Inr initial, u) \<and>
    (fsOk (fst u) \<longrightarrow> exactIntegers (jfNumbers K) \<longrightarrow> journalsFound K u = {Inr initial} \<longrightarrow> onDisk K (c, v))"
proof -
  from assms obtain c0 w0 s k0 where c0: "createCoordinator (filesEnv K (mgrCoordinator M)) i cap t = (Inr c0, w0)"
      and tr: "onRetry (trackRetry (cycRounding (mgrCycle (filesManager K M))) (onWorld (cycRetryClock (mgrCycle M)))
        (retryAttempt c0)) (newRecoveryCycle k0 s, c0, w0) = (Inr (), (k, c, v))"
    unfolding createManager_def andThen_Inr finished_Inr
    by (auto simp: andThen_Inr io_cases finished_Inr split: option.splits)
  from created_onDisk [OF c0] track_onDisk [OF tr, of K] show ?thesis by blast
qed

lemma opened_store: "openJournalFile K s = (Inr S, t) \<Longrightarrow> S = K"
  by (cases s; cases t) (auto simp: openJournalFile_def andThen_Inr io_cases dest!: newJournalStore_same)

lemma opened_steps:
  assumes "openSignerRuntime Q (fs, w) = (Inr (K, b, k, c), t)"
  obtains ident ownership w2 u where
    "captureJournalIdentity (JNum (of_int (chainId (roIdentity Q)))) (JString (signer (roIdentity Q))) = Inr ident"
    "lockEvidence (roLock Q) ownership"
    "openJournalFile (runtimeStore Q ident (osJoin (roLock Q) (stateDirectory ownership) (journalFilename ident))) (fs, w2) =
       (Inr K, u)"
    "createManager (filesManager K (roManager Q)) ident (maxRetainedAttempts DEFAULT_JOURNAL_BOUNDS)
       (roInitialDelay Q) (roMaxDelay Q) (Some (JNum (of_int DURABLE_RECOVERY_REFRESH_INTERVAL_MS))) u = (Inr (b, k, c), t)"
  using assms unfolding openSignerRuntime_def
  by (auto simp: andThen_Inr io_cases Let_def dest!: lock_evidence)

lemma runtime_onDisk:
  assumes N: "exactIntegers (jfNumbers (roJournal Q))" and ok: "fsOk fs"
    and opened: "openSignerRuntime Q (fs, w) = (Inr (K, b, k, c), t)"
    and absent: "fileAt fs (jfPath K) = None \<longrightarrow> (\<forall>x. mayFind fs (jfPath K) x \<longrightarrow> x = None)"
  shows "onDisk K (c, t)"
proof -
  obtain ident and ownership :: VerifiedServiceLock and w2 u where o: "openJournalFile (runtimeStore Q ident
      (osJoin (roLock Q) (stateDirectory ownership) (journalFilename ident))) (fs, w2) = (Inr K, u)"
    and m: "createManager (filesManager K (roManager Q)) ident (maxRetainedAttempts DEFAULT_JOURNAL_BOUNDS)
       (roInitialDelay Q) (roMaxDelay Q) (Some (JNum (of_int DURABLE_RECOVERY_REFRESH_INTERVAL_MS))) u = (Inr (b, k, c), t)"
    by (rule opened_steps [OF opened])
  obtain K0 where K0: "openJournalFile K0 (fs, w2) = (Inr K, u)" "jfNumbers K0 = jfNumbers (roJournal Q)"
    using o by (simp add: runtimeStore_def)
  have N0: "exactIntegers (jfNumbers K0)" using N K0(2) by simp
  have K: "K = K0" by (rule opened_store [OF K0(1)])
  from manager_onDisk [OF m] obtain initial v where l: "loadJournalFile K u = (Inr initial, v)"
      "fsOk (fst v) \<longrightarrow> exactIntegers (jfNumbers K) \<longrightarrow> journalsFound K v = {Inr initial} \<longrightarrow> onDisk K (c, t)"
    by blast
  have "fsOk (fst v) \<and> journalsFound K0 v = {Inr initial}"
    using loaded_is_found [OF N0 ok _ K0(1) l(1)] absent K by simp
  then show ?thesis using l(2) N0 K by simp
qed

lemma opened_place:
  assumes "openSignerRuntime Q (fs, w) = (Inr (K, b, k, c), t)"
  shows "\<exists>ownership ident. lockEvidence (roLock Q) ownership \<and>
    jfPath K = osJoin (roLock Q) (stateDirectory ownership) (journalFilename ident) \<and> jfIdentity K = ident"
proof -
  obtain ident ownership w2 u where "lockEvidence (roLock Q) ownership" "openJournalFile (runtimeStore Q ident
      (osJoin (roLock Q) (stateDirectory ownership) (journalFilename ident))) (fs, w2) = (Inr K, u)"
    by (rule opened_steps [OF assms])
  then show ?thesis using opened_store by (fastforce simp: runtimeStore_def)
qed

text \<open>What a restart may find, spelled out.\<close>

lemma onDisk_found:
  assumes "onDisk K (d, v)"
  shows "\<forall>x. mayFind (fst v) (jfPath K) x \<longrightarrow> journalIn K x = Inr (current d) \<or>
    (\<exists>s. latchedSnapshot (persistence d, v) = Some s \<and> journalIn K x = Inr (Present s))"
proof (intro allI impI)
  fix x assume "mayFind (fst v) (jfPath K) x"
  then have "journalIn K x \<in> journalsFound K v" by (cases v) (auto simp: journalsFound_def)
  then have "journalIn K x = restartSees (committedSnapshot (persistence d, v)) \<or>
      (\<exists>s. latchedSnapshot (persistence d, v) = Some s \<and> journalIn K x = restartSees (Some s))"
    using assms by (auto simp: onDisk_def journal_latch.accounted_def)
  then show "journalIn K x = Inr (current d) \<or>
      (\<exists>s. latchedSnapshot (persistence d, v) = Some s \<and> journalIn K x = Inr (Present s))"
    by (auto simp: restartSees_def committedSnapshot_def current_def split: TransactionJournalRead.splits)
qed

end
