(* ===== verification/RuntimeClaims.thy ===== *)
theory RuntimeClaims
  imports StoreClaims SignerRuntime ManagerClaims
begin

text \<open>The properties of an opened signer, over its journal on the files.\<close>

text \<open>
  C5: an opened signer sends only what every restart will know to be sent. The opening rests on a
  verified lock and uses the journal file of the identity in the locked directory. After any operations
  of the manager, of whose file operations any may fail or be the last before a stop of the machine,
  every journal a restart may find is the committed one, or the exact snapshot latched for a retry, and
  is never one that cannot be read; and the next operation does the same as one whose client refuses to
  send a transaction unless every journal a restart may find marks it as sent.
\<close>

theorem runtime_sends_what_restarts_know:
  assumes "exactIntegers (jfNumbers (roJournal Q))" and "fsOk fs"
    and "openSignerRuntime Q (fs, w) = (Inr (K, b, k, c), t)"
    and "fileAt fs (jfPath K) = None \<longrightarrow> (\<forall>x. mayFind fs (jfPath K) x \<longrightarrow> x = None)"
    and "runtimeCalls K (roManager Q) (b, k, c, t) (b', k', d, v)"
  shows "(\<exists>ownership ident. lockEvidence (roLock Q) ownership \<and>
      jfPath K = osJoin (roLock Q) (stateDirectory ownership) (journalFilename ident) \<and> jfIdentity K = ident) \<and>
    (\<forall>x. mayFind (fst v) (jfPath K) x \<longrightarrow> journalIn K x = Inr (current d) \<or>
      (\<exists>s. latchedSnapshot (persistence d, v) = Some s \<and> journalIn K x = Inr (Present s))) \<and>
    submit (guardedManager K (roManager Q)) call wid a cy (b', k', d, v) =
      submit (filesManager K (roManager Q)) call wid a cy (b', k', d, v) \<and>
    reconcile (guardedManager K (roManager Q)) head durable a cy (b', k', d, v) =
      reconcile (filesManager K (roManager Q)) head durable a cy (b', k', d, v)"
proof -
  have disk: "onDisk K (snd (snd (b', k', d, v)))"
    using runtimeCalls_onDisk [OF assms(5)] runtime_onDisk [OF assms(1-4)] by simp
  show ?thesis
    using disk agree_eq [OF calls_agree(1) disk] agree_eq [OF calls_agree(2) disk] opened_place [OF assms(3)]
      onDisk_found [of K d v] by simp
qed

definition sampleLock :: "'w lock_os" where
  "sampleLock =
     (let lock = \<lparr>lkIsFile = True, lkLinks = 1, lkDev = 1, lkIno = 2\<rparr> in
      \<lparr>osPlatform = js ''linux'', osRealpath = ret, osDirectory = (\<lambda>_. ret (True, 0)),
       osLstat = (\<lambda>p. if p = js ''./state/'' @ LOCK_FILENAME then ret lock else throw (NodeError ''ENOENT'')),
       osDescriptors = ret [js ''3''], osFstat = (\<lambda>_. ret lock),
       osDescriptorInfo = (\<lambda>_. ret (js ''lock:  1: FLOCK ADVISORY WRITE 1 00:01:2 0 EOF'')),
       osResolve = (\<lambda>p. p), osDirname = (\<lambda>p. p), osBasename = (\<lambda>p. p), osJoin = (\<lambda>a b. a @ js ''/'' @ b)\<rparr>)"

definition sampleRuntime :: "sample_world runtime_options" where
  "sampleRuntime =
     \<lparr>roIdentity = sampleIdentity, roInitialDelay = JNum 1000, roMaxDelay = JNum 60000, roCheckpoint = None,
      roEnvCheckpoint = None, roEnvStateDir = None, roLock = sampleLock, roReaddir = (\<lambda>_. ret [LOCK_FILENAME]),
      roJournal =
        \<lparr>jfPath = [], jfIdentity = sampleIdentity, jfBounds = None, jfHook = None, jfNumbers = integerFormat,
         jfViem = sampleViem, jfReplace = \<lparr>replPid = js ''1'', replUuid = ret sampleUuid\<rparr>\<rparr>,
      roManager = sampleManager\<rparr>"

lemma sampleLock_held:
  "assertServiceLockHeld sampleLock None None sampleWorld =
     (Inr \<lparr>stateDirectory = js ''./state'', lockDev = 1, lockIno = 2\<rparr>, sampleWorld)"
  by code_simp

lemma sampleLock_boots:
  "assertSignerBootstrapState sampleLock (\<lambda>_. ret [LOCK_FILENAME]) (js ''./state/'' @ journalFilename sampleIdentity)
     \<lparr>stateDirectory = js ''./state'', lockDev = 1, lockIno = 2\<rparr> sampleWorld = (Inr (), sampleWorld)"
  by code_simp

lemma load_absent:
  assumes "\<not> fsDown fs" "fsFaults fs (fsClock fs) = Works" "fsEntries fs = []"
  shows "loadJournalFile K (fs, w) = (Inr Missing, (fs\<lparr>fsClock := fsClock fs + 1\<rparr>, w))"
  using assms missing_code [of JOpen "NodeError ''ENOENT''"]
  by (simp add: loadJournalFile_def onFiles_def readBoundedJournal_def io_defs fsOpen_def fsOp_def entryOf_def
      Let_def decodeContents_def)

lemma sampleIdentity_captured:
  "captureJournalIdentity (JNum (of_int (chainId sampleIdentity))) (JString (signer sampleIdentity)) = Inr sampleIdentity"
proof -
  have "wfIdentity sampleIdentity" by code_simp
  then show ?thesis by (simp add: captureJournalIdentity_def wfIdentity_def)
qed

lemma sampleManager_made:
  "\<exists>m t. createManager (filesManager (runtimeStore sampleRuntime sampleIdentity f) sampleManager) sampleIdentity
     (maxRetainedAttempts DEFAULT_JOURNAL_BOUNDS) (JNum 1000) (JNum 60000)
       (Some (JNum (of_int DURABLE_RECOVERY_REFRESH_INTERVAL_MS)))
       ((emptyDirectory stopsAtSixth)\<lparr>fsClock := 2\<rparr>, sampleWorld) = (Inr m, t)"
proof -
  let ?K = "runtimeStore sampleRuntime sampleIdentity f" and ?cap = "maxRetainedAttempts DEFAULT_JOURNAL_BOUNDS"
  let ?fs = "(emptyDirectory stopsAtSixth)\<lparr>fsClock := 3\<rparr>"
  have l: "loadJournalFile ?K ((emptyDirectory stopsAtSixth)\<lparr>fsClock := 2\<rparr>, sampleWorld) = (Inr Missing, (?fs, sampleWorld))"
    by (simp add: load_absent emptyDirectory_def stopsAtSixth_def)
  obtain p where p: "createPersistence sampleViem sampleIdentity Missing = Inr p" "currentValue p = Missing"
    using sampleIdentity_captured by (simp add: createPersistence_def)
  define c0 where "c0 = freshCoordinator p sampleIdentity ?cap\<lparr>blockers := latchedBlockers (freshCoordinator p sampleIdentity ?cap)\<rparr>"
  have viem_used: "jfViem ?K = sampleViem" by (simp add: runtimeStore_def sampleRuntime_def)
  have cap: "isPositiveSafeInteger ?cap" by code_simp
  obtain d u where r: "refresh (filesEnv ?K sampleEnv) None ReconcileAttemptOp (c0, (?fs, sampleWorld)) = (Inr (), (d, u))"
      and d: "refreshed c0 d"
  proof -
    have "wp (refresh (filesEnv ?K sampleEnv) None ReconcileAttemptOp) (\<lambda>_ t. refreshed c0 (fst t)) (\<lambda>_ _. False)
        (c0, (?fs, sampleWorld))"
      by (rule wp_refresh) (simp_all add: c0_def freshCoordinator_def cap)
    then show ?thesis using that by (auto simp: wp_def split: prod.splits sum.splits)
  qed
  have "persistence d = p" using published_fields [of d c0] d by (simp add: refreshed_def c0_def freshCoordinator_def)
  then have a: "retryAttempt (updateDurableRecoveryRevision d) = None"
    by (simp add: retryAttempt_def attemptSummaries_def current_def updateDurableRecoveryRevision_def currentAttempts_def p(2))
  have co: "createCoordinator (filesEnv ?K sampleEnv) sampleIdentity ?cap ((emptyDirectory stopsAtSixth)\<lparr>fsClock := 2\<rparr>, sampleWorld) =
      (Inr (updateDurableRecoveryRevision d), u)"
    using l p cap r
    by (simp add: createCoordinator_def filesEnv_fields viem_used io_defs Let_def currentAttempts_def latches_eq flip: c0_def)
  obtain e1 e2 where "createRetrySchedule (JNum 1000) (JNum 60000) = Inr e1"
    "createDurableSchedule (JNum (of_int DURABLE_RECOVERY_REFRESH_INTERVAL_MS)) = Inr e2"
  proof -
    have "case createRetrySchedule (JNum 1000) (JNum 60000) of Inr _ \<Rightarrow> True | _ \<Rightarrow> False"
      "case createDurableSchedule (JNum (of_int DURABLE_RECOVERY_REFRESH_INTERVAL_MS)) of Inr _ \<Rightarrow> True | _ \<Rightarrow> False"
      by code_simp+
    then show ?thesis using that by (auto split: sum.splits)
  qed
  then show ?thesis
    using co a
    by (cases u) (simp add: createManager_def io_defs onRetry_def trackRetry_def newRecoveryCycle_def sampleManager_def sampleCycleEnv_def
        filesManager_def ex_bool_eq)
qed

lemma sampleRuntime_opens:
  "\<exists>K b k c t. openSignerRuntime sampleRuntime (emptyDirectory stopsAtSixth, sampleWorld) = (Inr (K, b, k, c), t)"
proof -
  let ?f = "js ''./state/'' @ journalFilename sampleIdentity" and ?fs = "(emptyDirectory stopsAtSixth)\<lparr>fsClock := 2\<rparr>"
  let ?K = "runtimeStore sampleRuntime sampleIdentity ?f"
  have j: "osJoin sampleLock (js ''./state'') (journalFilename sampleIdentity) = ?f"
    by (simp add: sampleLock_def js_def Let_def)
  have delays: "validateBroadcastRetryOptions (JNum 1000) (JNum 60000) = Inr ()" by code_simp
  have "newJournalStore ?K = Inr ?K"
    using sampleIdentity_captured
    by (simp add: newJournalStore_def runtimeStore_def sampleRuntime_def validateJournalBounds_default js_def)
  then have o: "openJournalFile ?K (emptyDirectory stopsAtSixth, sampleWorld) = (Inr ?K, (?fs, sampleWorld))"
    by (simp add: openJournalFile_def io_defs load_absent emptyDirectory_def stopsAtSixth_def removeCheckpointTempFiles_def
        onFiles_def fsNames_def fsOp_def)
  obtain m t where "createManager (filesManager ?K sampleManager) sampleIdentity
     (maxRetainedAttempts DEFAULT_JOURNAL_BOUNDS) (JNum 1000) (JNum 60000)
       (Some (JNum (of_int DURABLE_RECOVERY_REFRESH_INTERVAL_MS))) (?fs, sampleWorld) = (Inr m, t)"
    using sampleManager_made by blast
  then have "openSignerRuntime sampleRuntime (emptyDirectory stopsAtSixth, sampleWorld) = (Inr (?K, m), t)"
    using o delays sampleLock_held sampleLock_boots sampleIdentity_captured
    by (simp add: openSignerRuntime_def io_defs validateJournalBounds_default configuredCheckpoint_def Let_def j
        sampleRuntime_def)
  then show ?thesis by (metis surj_pair)
qed

theorem runtime_sends_what_restarts_know_witness:
  "\<exists>K b k c t. openSignerRuntime sampleRuntime (emptyDirectory stopsAtSixth, sampleWorld) = (Inr (K, b, k, c), t) \<and>
     (\<forall>x. mayFind (fst t) (jfPath K) x \<longrightarrow> journalIn K x = Inr (current c) \<or>
        (\<exists>s. latchedSnapshot (persistence c, t) = Some s \<and> journalIn K x = Inr (Present s)))"
proof -
  obtain K b k c t where o: "openSignerRuntime sampleRuntime (emptyDirectory stopsAtSixth, sampleWorld) = (Inr (K, b, k, c), t)"
    using sampleRuntime_opens by blast
  have N: "exactIntegers (jfNumbers (roJournal sampleRuntime))" by (simp add: sampleRuntime_def integerFormat_exact)
  have a: "fileAt (emptyDirectory stopsAtSixth) (jfPath K) = None \<longrightarrow>
      (\<forall>x. mayFind (emptyDirectory stopsAtSixth) (jfPath K) x \<longrightarrow> x = None)"
    by (simp add: relayer_samples)
  show ?thesis
    using runtime_sends_what_restarts_know [OF N emptyDirectory_facts(1) o a rtranclp.rtrancl_refl] o by blast
qed

end
