(* ===== verification/Spec2Isabelle.thy ===== *)
theory Spec2Isabelle
  imports CoordinatorClaims TextClaims CycleClaims ManagerClaims DaemonClaims RuntimeClaims
begin

text \<open>
  A verification development for the beacon relayer of drand-quicknet-evm: the application
  \<^verbatim>\<open>apps/relayer/src\<close> with the packages \<^verbatim>\<open>drand-quicknet\<close> and \<^verbatim>\<open>registry-sdk\<close> it uses. Source files are
  named below without \<^verbatim>\<open>apps/relayer/src\<close>.

  The program. A daemon scans consumer contracts for requests of drand rounds, fetches the beacons of
  these rounds and submits them to a registry contract, from one signer. Everything that signer sends
  is first recorded in a journal on disk; a coordinator owns the journal and refuses to prepare a
  transaction until the chain shows that the journal is up to date. A recovery cycle drives the
  coordinator; the transaction manager runs cycles and submits work; the daemon runs iterations over
  the consumers and keeps a checkpoint for each in another file. The commands hold the lock of the
  state directory and open the parts.

  How it is modelled. Every asynchronous function is a computation of type \<open>('s, 'a) io\<close> (Prelude):
  from a state to a thrown value or a result, and a state. A component's state is a record; a
  computation of an inner component is lifted with \<open>onWorld\<close>, so that the state of the whole is the
  tuple of the components' states and, innermost, the world. The services the source only calls (viem,
  fetch, the curve library, the clock, random identities, node:fs for the lock) are computations on an
  arbitrary world in records of parameters; nothing is assumed of them unless a property says so.
  JavaScript values inspected at run time are the type \<open>jsval\<close> (JsBase), strings are lists of 16-bit
  words, bigints are \<open>int\<close> and numbers are \<open>rat\<close> with their integer bounds written out. Where an
  operation of the source runs after another in a promise queue, it is one computation here.

  The theories, bottom up.

  \<^item> Prelude, JsBase, JsDate, Json, JsonProofs, IndentedJson: computations with their weakest
    preconditions, values, dates and JSON texts, the parser with its round trips.
  \<^item> Journal, JournalProofs, JournalBounds, JournalVerify (\<^verbatim>\<open>state/transaction-journal*.ts\<close>,
    \<^verbatim>\<open>state/journal-bounds.ts\<close>, \<^verbatim>\<open>state/journal-identity.ts\<close>): the journal, its validator against a
    declarative well-formedness, its bounds and its signatures. JournalText: its text.
  \<^item> Persistence (\<^verbatim>\<open>state/journal-persistence.ts\<close>): the latch that keeps a snapshot whose write failed;
    the locale \<open>write_latch\<close> is its contract. Gate (\<^verbatim>\<open>state/signer-gate.ts\<close>): when preparing is allowed.
  \<^item> ChainReads, Receipts, ReplacementSearch, SignerInspect, Signing (\<^verbatim>\<open>chain\<close>): reads anchored at a
    block, receipts as evidence, the search for a replacement, the inspections, and signing.
  \<^item> Coordinator, CoordinatorOps (\<^verbatim>\<open>state/signer-coordinator.ts\<close>), with CoordinatorProofs,
    PrepareProofs, BroadcastProofs, RecoveryProofs, InspectionProofs, InclusionProofs: an invariant kept
    by every operation in every outcome, and what each operation commits. CoordinatorMachine: the step
    relation \<open>coStep\<close> of the public operations and its runs, from which the safety properties of whole
    runs come by rule induction. EffectLog, ReadingOrder: the order of writes and sends. Revision,
    RevisionProofs (\<^verbatim>\<open>state/durable-recovery-revision.ts\<close>): what a completed recovery was made for.
    FailedWrite: what each operation may do while a write has failed.
  \<^item> Schedules, RecoveryCycle, TransactionManager (\<^verbatim>\<open>state/signer-recovery-cycle.ts\<close>,
    \<^verbatim>\<open>state/transaction-manager.ts\<close>, \<^verbatim>\<open>execution\<close>), with Simulation, CycleProofs, ManagerProofs,
    SubmissionProofs: these refine the coordinator. The locale \<open>graded_steps\<close> composes step relations
    with bounds on what is prepared and sent; its instances say that every operation above the
    coordinator is a run of it.
  \<^item> Quicknet, Requests, Beacons, BeaconProofs (\<^verbatim>\<open>packages\<close>, \<^verbatim>\<open>consumers\<close>, \<^verbatim>\<open>rounds\<close>): rounds, beacons,
    the requests of a consumer and the import of a round. DurableRequests, RequestProofs: a pass over
    requests and the checkpoint it may leave.
  \<^item> FileSystem: node:fs on one directory. Any operation may fail, with or without its effect, or the
    machine may stop before it; a restart finds synchronised bytes, and a directory entry as of the last
    synchronisation of the directory or any change since. DurableReplace, CheckpointFile,
    CheckpointFileProofs, JournalFile, JournalFileProofs (\<^verbatim>\<open>state/durable-replace.ts\<close>,
    \<^verbatim>\<open>state/file-checkpoint-store.ts\<close>, \<^verbatim>\<open>state/file-transaction-journal-store.ts\<close>): the two stores on it.
  \<^item> DaemonIteration, Daemon, with DaemonProofs, DaemonSafety, DaemonEndings (\<^verbatim>\<open>daemon\<close>): iterations,
    cycles and the loop, against the interfaces \<open>checkpoint_store\<close> and \<open>daemon_services\<close>. Relayer,
    RelayerRuns: the daemon with the checkpoint file, the importer and the manager put together, which
    interpret these interfaces. The daemon creates its importer from the options before its first cycle
    and binds it to the submitter of each cycle.
  \<^item> ServiceLock, NonceSync, NonceSyncProofs, SignerRuntime (\<^verbatim>\<open>state/service-lock.ts\<close>,
    \<^verbatim>\<open>state/plan-nonce-sync.ts\<close>, \<^verbatim>\<open>cli/sync-nonce.ts\<close>, \<^verbatim>\<open>cli/open-signer-runtime.ts\<close>): the lock, the
    repair of a nonce, and the opening of a signer. DurableCoordinator, GuardedRuns: the coordinator
    and the manager on the journal file; what is sent is known to every restart.
  \<^item> Samples, SampleWorld, SampleRelayer: the concrete inputs of the witnesses. The properties are in
    this theory and in CoordinatorClaims, TextClaims, CycleClaims, ManagerClaims, DaemonClaims,
    StoreClaims and RuntimeClaims.

  Termination and bounds. No model has fuel. Loops over lists are structural; the scan of blocks, the
  reads of a file and the chunks of requests and responses are recursive functions with a measure; the
  passes of a recovery cycle are counted. The loop of the daemon is a partial function whose value
  \<open>None\<close> would be a loop that never returns, and is shown not to occur: its cycle counter ends it at
  the largest safe integer. Widths matter for 256-bit values and safe integers, whose limits are part
  of the checks.

  What the models leave out. Messages of errors lose interpolated values where no code depends on
  them. An abort signal is a predicate on the state, read where the source reads it. The rounding of
  floating-point times is a parameter of the schedules. Timeouts are integers; the parsing of
  configuration lets no others through. Two processes on one directory are excluded by
  the lock, whose check is modelled but not the kernel's lock itself. Not modelled, because they only
  report or only wire parts together: the log, error summaries and scrubbing of text, the classes of
  errors kept for diagnostics, RPC metrics, the daemon's status file and the status commands, the
  parsing of arguments and configuration, the output of commands, and the validation of consumers at
  the start. The tools under \<^verbatim>\<open>scripts\<close> and the contracts are programs of their own.
\<close>

section \<open>Properties\<close>

text \<open>
  C18: the structural journal validator accepts a snapshot exactly when it is well-formed for the
  expected identity (unsigned 256-bit counters, contiguous attempt nonces from the durable counter,
  distinct attempt, work and transaction identities, ordered bounded repairs), and returns it
  unchanged.
\<close>

theorem validator_exact: "validateSnapshot s expected = Inr t \<longleftrightarrow> t = s \<and> wfSnapshot expected s"
  by (rule validate_emb)

text \<open>
  Whatever unknown value the validator accepts, the snapshot it returns is well-formed, and
  validating it again returns it unchanged.
\<close>

theorem validator_sound:
  assumes "validateJournalSnapshotStructure v expected = Inr s"
  shows "wfSnapshot expected s \<and> validateSnapshot s expected = Inr s"
  using validate_wf [OF assms] wf_validate by blast

theorem validator_sound_witness:
  "wfSnapshot sampleIdentity (sampleSnapshot [sampleAttempt Signed]) \<and>
   validateSnapshot (sampleSnapshot [sampleAttempt Signed]) sampleIdentity =
     Inr (sampleSnapshot [sampleAttempt Signed])"
  by (rule validator_sound [of "embSnapshot (sampleSnapshot [sampleAttempt Signed])"])
    (simp add: wf_validate [unfolded validateSnapshot_def] samples)

text \<open>
  C17: a journal that verifies is well-formed and holds only authentic transactions: the bytes of
  each hash to the recorded hash, parse to a transaction of the journal's chain with the attempt's
  nonce, re-serialise to themselves and recover to the journal's signer; and all transactions of one
  attempt carry the same call.
\<close>

theorem verified_journal_is_authentic:
  assumes "verifyJournalSnapshot V v expected = Inr s"
  shows "wfSnapshot expected s \<and> list_all (authenticAttempt V (identity s)) (attempts s)"
  using verifyJournalSnapshot_sound [OF assms] by (simp add: list_all_iff)

theorem verified_journal_is_authentic_witness:
  "list_all (authenticAttempt sampleViem sampleIdentity) [sampleAttempt Signed]"
  using verified_journal_is_authentic [of sampleViem "embSnapshot (sampleSnapshot [sampleAttempt Signed])"
      sampleIdentity "sampleSnapshot [sampleAttempt Signed]"] sampleVerified(2)
  by (simp add: verified_def sampleSnapshot_def)

text \<open>
  The files of two journals coincide only when the journals are of the same chain and the same
  signer, however the address is capitalised.
\<close>

theorem journal_files_are_distinct:
  assumes "wfIdentity i" and "wfIdentity j"
  shows "journalFilename i = journalFilename j \<longleftrightarrow>
    chainId i = chainId j \<and> toLowerCase (signer i) = toLowerCase (signer j)"
  by (rule journalFilename_eq_iff [OF assms])

theorem journal_files_are_distinct_witness:
  "journalFilename sampleIdentity \<noteq> journalFilename (sampleIdentity\<lparr>chainId := 17\<rparr>)"
proof -
  have "wfIdentity sampleIdentity" "wfIdentity (sampleIdentity\<lparr>chainId := 17\<rparr>)" by code_simp+
  from journal_files_are_distinct [OF this] show ?thesis by (simp add: sampleIdentity_def)
qed

text \<open>
  The bounds of a journal: inspection accepts exactly the journals within valid bounds, and every
  violation it reports names a bound that is exceeded, with the count observed in the journal.
\<close>

theorem bounds_are_exact:
  "(inspectJournalBounds s b = Inr [] \<longleftrightarrow> validateJournalBounds b = Inr () \<and> withinBounds s b) \<and>
   (case inspectJournalBounds s b of
      Inl _ \<Rightarrow> True
    | Inr vs \<Rightarrow> list_all (\<lambda>v. violationMaximum v < violationObserved v \<and>
        (case violationAttemptId v of
           None \<Rightarrow> violatedBound v = RetainedAttempts \<and> violationObserved v = int (length (attempts s))
         | Some i \<Rightarrow> violatedBound v = SignedTransactionsPerAttempt \<and>
             list_ex (\<lambda>a. attemptId a = i \<and> violationObserved v = int (length (signedTransactions a)))
               (attempts s))) vs)"
proof (rule conjI)
  show "inspectJournalBounds s b = Inr [] \<longleftrightarrow> validateJournalBounds b = Inr () \<and> withinBounds s b"
    by (rule inspectJournalBounds_empty)
  show "case inspectJournalBounds s b of
      Inl _ \<Rightarrow> True
    | Inr vs \<Rightarrow> list_all (\<lambda>v. violationMaximum v < violationObserved v \<and>
        (case violationAttemptId v of
           None \<Rightarrow> violatedBound v = RetainedAttempts \<and> violationObserved v = int (length (attempts s))
         | Some i \<Rightarrow> violatedBound v = SignedTransactionsPerAttempt \<and>
             list_ex (\<lambda>a. attemptId a = i \<and> violationObserved v = int (length (signedTransactions a)))
               (attempts s))) vs"
    by (cases "inspectJournalBounds s b")
      (auto simp: list_all_iff list_ex_iff dest: inspectJournalBounds_exact split: option.splits)
qed

text \<open>
  C19: the signer gate is open exactly when persistence is idle, recovery and inclusion checks are
  complete, nothing blocks the coordinator, and the journal is present with every attempt included
  and room for another; the reasons it reports are those that apply, in order of precedence.
\<close>

theorem gate_is_exact:
  assumes "evaluateSignerGate st journal recovered checked cap reasons = Inr g"
  shows "(gateOpen g \<longleftrightarrow>
    st = Idle \<and> recovered \<and> checked \<and> reasons = {} \<and>
    (\<exists>s. journal = Present s \<and> list_all isIncluded (attempts s) \<and>
       int (length (attempts s)) < numInt cap)) \<and>
    set (gateBlockers g) = gateReasons st journal recovered checked (numInt cap) reasons \<and>
    sorted_wrt (<) (gateBlockers g)"
  using evaluateSignerGate_open_iff [OF assms] evaluateSignerGate_reasons [OF assms] by blast

theorem gate_is_exact_witness:
  "set ([] :: SignerBlocker list) =
     gateReasons Idle (Present (sampleSnapshot [])) True True 4 {}"
proof -
  have g: "evaluateSignerGate Idle (Present (sampleSnapshot [])) True True (JNum 4) {} =
      Inr \<lparr>gateOpen = True, gateBlockers = [], gatePrimaryReason = None\<rparr>"
    by code_simp
  have "numInt (JNum 4) = 4" by code_simp
  with gate_is_exact [OF g] show ?thesis by simp
qed

end
